(* ===== verification/CPrelude.thy ===== *)
theory CPrelude
  imports Main "HOL-Library.Word" "HOL-Library.Monad_Syntax" "HOL-Library.Signed_Division"
begin

text \<open>
  What the components share: bytes and buffers, C's \<open>int\<close>, and the partial operations of C.

  Every C operation that can have undefined behaviour returns an \<^typ>\<open>'a option\<close>:
  \<^item> \<^const>\<open>None\<close> means that the program reads or writes outside a buffer, dereferences NULL,
    overflows a signed integer or reads an object before it has a value;
  \<^item> \<^term>\<open>Some x\<close> means that it runs to its end with the result \<open>x\<close>.
  A lemma of the form \<open>f buf = Some r\<close> is therefore a memory-safety statement as well as a
  functional one. Buffers are lists of bytes, a pointer into a buffer is its offset.
\<close>

unbundle bit_operations_syntax

type_synonym u8 = "8 word"
type_synonym u16 = "16 word"
type_synonym u32 = "32 word"
type_synonym bytes = "u8 list"

named_theorems writes_intros "one rule per operation that writes at a cursor"
named_theorems ensures_intros "one rule per construct and operation for what every result satisfies"

subsection \<open>C's signed 32-bit integers\<close>

definition int_min :: int where "int_min = -2147483648"
definition int_max :: int where "int_max = 2147483647"

text \<open>The result of a signed operation: overflow is undefined.\<close>

definition c_int :: "int \<Rightarrow> int option" where
  "c_int x = (if int_min \<le> x \<and> x \<le> int_max then Some x else None)"

definition c_add :: "int \<Rightarrow> int \<Rightarrow> int option" where
  "c_add a b = c_int (a + b)"

text \<open>The conversion of a wider value to \<open>int\<close>, which keeps the low 32 bits.\<close>

definition to_int :: "int \<Rightarrow> int" where
  "to_int x = signed_take_bit 31 x"

lemma c_int_Some [simp]: "int_min \<le> x \<Longrightarrow> x \<le> int_max \<Longrightarrow> c_int x = Some x"
  by (simp add: c_int_def)

lemma c_add_Some [simp]: "int_min \<le> a + b \<Longrightarrow> a + b \<le> int_max \<Longrightarrow> c_add a b = Some (a + b)"
  by (simp add: c_add_def)

lemma c_int_SomeD: "c_int x = Some y \<Longrightarrow> y = x"
  by (simp add: c_int_def split: if_splits)

lemma c_add_SomeD: "c_add a b = Some y \<Longrightarrow> y = a + b"
  by (simp add: c_add_def c_int_SomeD)

lemma to_int_id: "int_min \<le> x \<Longrightarrow> x \<le> int_max \<Longrightarrow> to_int x = x"
  by (simp add: to_int_def int_min_def int_max_def signed_take_bit_int_eq_self_iff)

lemma to_int_nat [simp]: "int n \<le> int_max \<Longrightarrow> to_int (int n) = int n"
  by (rule to_int_id) (simp_all add: int_min_def)

lemma sdiv_nonneg: "0 \<le> (a::int) \<Longrightarrow> 0 < b \<Longrightarrow> a sdiv b = a div b"
  by (simp add: signed_divide_int_def sgn_if)

lemma smod_nonneg: "0 \<le> (a::int) \<Longrightarrow> 0 < b \<Longrightarrow> a smod b = a mod b"
  by (cases "a = 0") (simp_all add: signed_modulo_int_def sgn_if)

subsection \<open>Memory\<close>

definition load :: "'a list \<Rightarrow> nat \<Rightarrow> 'a option" where
  "load m i = (if i < length m then Some (m ! i) else None)"

definition store :: "'a list \<Rightarrow> nat \<Rightarrow> 'a \<Rightarrow> 'a list option" where
  "store m i x = (if i < length m then Some (m[i := x]) else None)"

text \<open>The memory \<open>m\<close> with \<open>xs\<close> at offset \<open>p\<close>, and everything else as it was.\<close>

definition patch :: "'a list \<Rightarrow> nat \<Rightarrow> 'a list \<Rightarrow> 'a list" where
  "patch m p xs = take p m @ xs @ drop (p + length xs) m"

text \<open>\<open>memcpy(dst + p, src, n)\<close>: both ranges have to be inside their objects. The count is
  converted to \<open>size_t\<close>, so a negative one is larger than every object.\<close>

definition memcpy :: "'a list \<Rightarrow> nat \<Rightarrow> 'a list \<Rightarrow> int \<Rightarrow> 'a list option" where
  "memcpy dst p src n =
     (if 0 \<le> n \<and> nat n \<le> length src \<and> p + nat n \<le> length dst
      then Some (patch dst p (take (nat n) src)) else None)"

lemma load_Some [simp]: "i < length m \<Longrightarrow> load m i = Some (m ! i)"
  by (simp add: load_def)

lemma load_append: "load (xs @ y # ys) (length xs) = Some y"
  by (simp add: load_def)

lemma load_drop: "drop p m = x # xs \<Longrightarrow> load m p = Some x"
  by (metis drop_eq_Nil2 hd_drop_conv_nth list.distinct(1) list.sel(1) load_def not_less)

lemma drop_Suc_drop: "drop p m = x # xs \<Longrightarrow> drop (Suc p) m = xs"
  by (metis drop_Suc list.sel(3) tl_drop)

lemma drop_append_drop: "drop p m = xs @ ys \<Longrightarrow> drop (p + length xs) m = ys"
  by (metis add.commute append_eq_conv_conj drop_drop)

lemma patch_Nil [simp]: "patch m p [] = m"
  by (simp add: patch_def)

lemma length_patch [simp]: "p + length xs \<le> length m \<Longrightarrow> length (patch m p xs) = length m"
  by (simp add: patch_def)

lemma load_patch_head [simp]: "load (patch m 0 (x # xs)) 0 = Some x"
  by (simp add: load_def patch_def)

lemma patch_patch:
  assumes "p + length xs + length ys \<le> length m"
  shows "patch (patch m p xs) (p + length xs) ys = patch m p (xs @ ys)"
  using assms by (simp add: patch_def ac_simps)

lemma store_patch: "p < length m \<Longrightarrow> store m p x = Some (patch m p [x])"
  by (simp add: store_def patch_def upd_conv_take_nth_drop)

lemma store_None: "length m \<le> p \<Longrightarrow> store m p x = None"
  by (simp add: store_def)

lemma memcpy_patch:
  "nat n = length xs \<Longrightarrow> 0 \<le> n \<Longrightarrow> p + length xs \<le> length m \<Longrightarrow>
   memcpy m p (xs @ ys) n = Some (patch m p xs)"
  by (simp add: memcpy_def)

lemma memcpy_None:
  "length m < p + nat n \<Longrightarrow> memcpy m p xs n = None"
  by (simp add: memcpy_def)

lemma take_patch: "p + length xs \<le> length m \<Longrightarrow> take p (patch m p xs) = take p m"
  by (simp add: patch_def)

lemma drop_patch: "p + length xs \<le> length m \<Longrightarrow> drop p (patch m p xs) = xs @ drop (p + length xs) m"
  by (simp add: patch_def)

lemma take_patch0: "length xs \<le> length m \<Longrightarrow> take (length xs) (patch m 0 xs) = xs"
  by (simp add: patch_def)

subsection \<open>Writing at a cursor\<close>

text \<open>
  The serialisers take a pointer to the write position and advance it. The state is the buffer
  and the position; \<open>writes f bs\<close> says that \<open>f\<close> writes exactly the bytes \<open>bs\<close> at
  the position when they fit, advances the position past them and changes nothing else, and
  that it runs out of the buffer when they do not fit.
\<close>

type_synonym cursor = "bytes \<times> nat"

definition writes :: "(cursor \<Rightarrow> cursor option) \<Rightarrow> bytes \<Rightarrow> bool" where
  "writes f bs \<longleftrightarrow>
     (\<forall>m p. p \<le> length m \<longrightarrow>
        f (m, p) = (if p + length bs \<le> length m then Some (patch m p bs, p + length bs) else None))"

lemma writesI:
  assumes "\<And>m p. p + length bs \<le> length m \<Longrightarrow> f (m, p) = Some (patch m p bs, p + length bs)"
    and "\<And>m p. p \<le> length m \<Longrightarrow> length m < p + length bs \<Longrightarrow> f (m, p) = None"
  shows "writes f bs"
  using assms by (simp add: writes_def not_le)

lemma writesD: "writes f bs \<Longrightarrow> p + length bs \<le> length m \<Longrightarrow> f (m, p) = Some (patch m p bs, p + length bs)"
  by (simp add: writes_def)

lemma writesD_None: "writes f bs \<Longrightarrow> p \<le> length m \<Longrightarrow> length m < p + length bs \<Longrightarrow> f (m, p) = None"
  by (simp add: writes_def)

lemma writes_Some [writes_intros]: "writes Some []"
  by (simp add: writes_def)

lemma writes_bind:
  assumes "writes f xs" and "writes g ys"
  shows "writes (\<lambda>st. f st \<bind> g) (xs @ ys)"
proof (rule writesI)
  fix m :: bytes and p assume fit: "p + length (xs @ ys) \<le> length m"
  then have "f (m, p) = Some (patch m p xs, p + length xs)"
    by (intro writesD [OF assms(1)]) simp
  moreover have "g (patch m p xs, p + length xs) =
      Some (patch (patch m p xs) (p + length xs) ys, p + length xs + length ys)"
    using fit by (intro writesD [OF assms(2)]) simp
  ultimately show "f (m, p) \<bind> g = Some (patch m p (xs @ ys), p + length (xs @ ys))"
    using fit by (simp add: patch_patch add.assoc)
next
  fix m :: bytes and p assume p: "p \<le> length m" and over: "length m < p + length (xs @ ys)"
  show "f (m, p) \<bind> g = None"
  proof (cases "p + length xs \<le> length m")
    case True
    moreover from this have "g (patch m p xs, p + length xs) = None"
      using over by (intro writesD_None [OF assms(2)]) simp_all
    ultimately show ?thesis using writesD [OF assms(1) True] by simp
  next
    case False
    with p show ?thesis using writesD_None [OF assms(1)] by simp
  qed
qed

lemma writes_if [writes_intros]:
  "(b \<Longrightarrow> writes f xs) \<Longrightarrow> (\<not> b \<Longrightarrow> writes g ys) \<Longrightarrow>
   writes (\<lambda>st. if b then f st else g st) (if b then xs else ys)"
  by simp

lemma writes_cong: "writes f xs \<Longrightarrow> xs = ys \<Longrightarrow> writes f ys"
  by simp

subsection \<open>What every result satisfies\<close>

text \<open>\<open>ensures m Q\<close>: if \<open>m\<close> runs to its end, its result satisfies \<open>Q\<close>. The rules follow the
  constructs of a definition, so that \<open>intro ensures_intros\<close> leaves one goal for each path.\<close>

definition ensures :: "'a option \<Rightarrow> ('a \<Rightarrow> bool) \<Rightarrow> bool" where
  "ensures m Q \<longleftrightarrow> (\<forall>r. m = Some r \<longrightarrow> Q r)"

lemma ensuresI: "(\<And>r. m = Some r \<Longrightarrow> Q r) \<Longrightarrow> ensures m Q"
  by (simp add: ensures_def)

lemma ensuresD: "ensures m Q \<Longrightarrow> m = Some r \<Longrightarrow> Q r"
  by (simp add: ensures_def)

lemma ensures_conseq: "ensures m R \<Longrightarrow> (\<And>r. R r \<Longrightarrow> Q r) \<Longrightarrow> ensures m Q"
  by (simp add: ensures_def)

lemma ensures_Some [ensures_intros]: "Q r \<Longrightarrow> ensures (Some r) Q"
  by (simp add: ensures_def)

lemma ensures_None [ensures_intros]: "ensures None Q"
  by (simp add: ensures_def)

lemma ensures_bind [ensures_intros]: "ensures m (\<lambda>x. ensures (f x) Q) \<Longrightarrow> ensures (m \<bind> f) Q"
  by (auto simp: ensures_def bind_eq_Some_conv)

lemma ensures_if [ensures_intros]:
  "(b \<Longrightarrow> ensures f Q) \<Longrightarrow> (\<not> b \<Longrightarrow> ensures g Q) \<Longrightarrow> ensures (if b then f else g) Q"
  by simp

lemma ensures_let [ensures_intros]: "ensures (f t) Q \<Longrightarrow> ensures (Let t f) Q"
  by (simp add: Let_def)

lemma ensures_prod [ensures_intros]:
  "(\<And>a b. x = (a, b) \<Longrightarrow> ensures (f a b) Q) \<Longrightarrow> ensures (case x of (a, b) \<Rightarrow> f a b) Q"
  by (cases x) simp

lemma ensures_option [ensures_intros]:
  "(x = None \<Longrightarrow> ensures f Q) \<Longrightarrow> (\<And>y. x = Some y \<Longrightarrow> ensures (g y) Q) \<Longrightarrow>
   ensures (case x of None \<Rightarrow> f | Some y \<Rightarrow> g y) Q"
  by (cases x) simp_all

lemma ensures_load [ensures_intros]: "(\<And>x. load m i = Some x \<Longrightarrow> Q x) \<Longrightarrow> ensures (load m i) Q"
  by (rule ensuresI)

lemma ensures_store [ensures_intros]:
  "(\<And>m'. length m' = length m \<Longrightarrow> Q m') \<Longrightarrow> ensures (store m i x) Q"
  by (auto simp: ensures_def store_def split: if_splits)

lemma ensures_memcpy [ensures_intros]:
  "(\<And>m'. length m' = length m \<Longrightarrow> Q m') \<Longrightarrow> ensures (memcpy m p xs n) Q"
  by (auto simp: ensures_def memcpy_def patch_def split: if_splits)

lemma ensures_c_add [ensures_intros]: "Q (a + b) \<Longrightarrow> ensures (c_add a b) Q"
  by (auto simp: ensures_def dest!: c_add_SomeD)

lemma ensures_c_int [ensures_intros]: "Q a \<Longrightarrow> ensures (c_int a) Q"
  by (auto simp: ensures_def dest!: c_int_SomeD)

subsection \<open>Numbers as bytes\<close>

text \<open>Two bytes, most significant first.\<close>

definition enc16 :: "nat \<Rightarrow> bytes" where
  "enc16 n = [of_nat (n div 256), of_nat (n mod 256)]"

definition dec16 :: "u8 \<Rightarrow> u8 \<Rightarrow> nat" where
  "dec16 a b = 256 * unat a + unat b"

lemma length_enc16 [simp]: "length (enc16 n) = 2"
  by (simp add: enc16_def)

lemma unat_of_nat_u8 [simp]: "n < 256 \<Longrightarrow> unat (of_nat n :: u8) = n"
  by (simp add: unat_of_nat take_bit_nat_eq_self)

lemma unat_u8_less [simp]: "unat (b :: u8) < 256"
  using unsigned_less [of b] by simp

lemma dec16_enc16: "n < 65536 \<Longrightarrow> dec16 (of_nat (n div 256)) (of_nat (n mod 256)) = n"
  by (simp add: dec16_def)

lemma dec16_less: "dec16 a b < 65536"
  using unat_u8_less [of a] unat_u8_less [of b] unfolding dec16_def by linarith

end
