(* ===== verification/MQTTBytes.thy ===== *)
theory MQTTBytes
  imports CPrelude
begin

text \<open>
  The byte level of the MQTT packet library, \<open>MQTTPacket/src/MQTTPacket.c\<close> and the types of
  \<open>MQTTPacket.h\<close>: the fixed header, the \<open>remaining length\<close> field, two-byte integers and strings.
  Every writer is shown to write one byte sequence (\<open>writes\<close>), every reader to read it back.
\<close>

section \<open>Constants and types\<close>

definition MQTTPACKET_BUFFER_TOO_SHORT :: int where "MQTTPACKET_BUFFER_TOO_SHORT = -2"
definition MQTTPACKET_READ_ERROR :: int where "MQTTPACKET_READ_ERROR = -1"

datatype msgTypes =
    CONNECT | CONNACK | PUBLISH | PUBACK | PUBREC | PUBREL | PUBCOMP
  | SUBSCRIBE | SUBACK | UNSUBSCRIBE | UNSUBACK | PINGREQ | PINGRESP | DISCONNECT

primrec msg_code :: "msgTypes \<Rightarrow> nat" where
  "msg_code CONNECT = 1"
| "msg_code CONNACK = 2"
| "msg_code PUBLISH = 3"
| "msg_code PUBACK = 4"
| "msg_code PUBREC = 5"
| "msg_code PUBREL = 6"
| "msg_code PUBCOMP = 7"
| "msg_code SUBSCRIBE = 8"
| "msg_code SUBACK = 9"
| "msg_code UNSUBSCRIBE = 10"
| "msg_code UNSUBACK = 11"
| "msg_code PINGREQ = 12"
| "msg_code PINGRESP = 13"
| "msg_code DISCONNECT = 14"

text \<open>The header byte as its bit fields, least significant first (the layout without
  \<open>REVERSED\<close>, which is the one the build uses).\<close>

record MQTTHeader =
  h_retain :: "1 word"
  h_qos :: "2 word"
  h_dup :: "1 word"
  h_type :: "4 word"

definition header_byte :: "MQTTHeader \<Rightarrow> u8" where
  "header_byte h = of_nat (unat (h_retain h) + 2 * unat (h_qos h) + 8 * unat (h_dup h) + 16 * unat (h_type h))"

definition header_bits :: "u8 \<Rightarrow> MQTTHeader" where
  "header_bits b = \<lparr>h_retain = of_nat (unat b), h_qos = of_nat (unat b div 2),
     h_dup = of_nat (unat b div 8), h_type = of_nat (unat b div 16)\<rparr>"

text \<open>\<open>MQTTHeader header = {0}\<close>\<close>

definition header_zero :: MQTTHeader where
  "header_zero = \<lparr>h_retain = 0, h_qos = 0, h_dup = 0, h_type = 0\<rparr>"

definition type_code :: "msgTypes \<Rightarrow> 4 word" where
  "type_code t = of_nat (msg_code t)"

lemma unat_of_nat_word: "unat (of_nat n :: 'a::len word) = n mod 2 ^ LENGTH('a)"
  by (simp add: unsigned_of_nat take_bit_nat_def)

lemma header_bits_byte [simp]: "header_bits (header_byte h) = h"
proof -
  define r q d t where defs: "r = unat (h_retain h)" "q = unat (h_qos h)" "d = unat (h_dup h)" "t = unat (h_type h)"
  have bounds: "r < 2" "q < 4" "d < 2" "t < 16"
    using unsigned_less [of "h_retain h"] unsigned_less [of "h_qos h"]
      unsigned_less [of "h_dup h"] unsigned_less [of "h_type h"] by (simp_all add: defs)
  have eqs: "h_retain h = of_nat r" "h_qos h = of_nat q" "h_dup h = of_nat d" "h_type h = of_nat t"
    by (simp_all add: defs)
  have b: "unat (header_byte h) = r + 2 * q + 8 * d + 16 * t"
    unfolding header_byte_def unat_of_nat_word defs [symmetric] using bounds by simp
  have div: "(r + 2 * q + 8 * d + 16 * t) div 2 = q + 4 * d + 8 * t"
    "(r + 2 * q + 8 * d + 16 * t) div 8 = d + 2 * t" "(r + 2 * q + 8 * d + 16 * t) div 16 = t"
    using bounds by linarith+
  have mod: "(r + 2 * q + 8 * d + 16 * t) mod 2 = r" "(q + 4 * d + 8 * t) mod 4 = q" "(d + 2 * t) mod 2 = d"
    using bounds by presburger+
  have "(r + 2 * q + 8 * d + 16 * t) mod 2 = r" "(r + 2 * q + 8 * d + 16 * t) div 2 mod 4 = q"
    "(r + 2 * q + 8 * d + 16 * t) div 8 mod 2 = d" "(r + 2 * q + 8 * d + 16 * t) div 16 = t"
    using div mod by simp_all
  then have "(of_nat (unat (header_byte h)) :: 1 word) = h_retain h"
    "(of_nat (unat (header_byte h) div 2) :: 2 word) = h_qos h"
    "(of_nat (unat (header_byte h) div 8) :: 1 word) = h_dup h"
    "(of_nat (unat (header_byte h) div 16) :: 4 word) = h_type h"
    unfolding word_unat_eq_iff unat_of_nat_word b defs [symmetric] using bounds by simp_all
  then show ?thesis by (cases h) (simp only: header_bits_def MQTTHeader.simps)
qed

text \<open>A string is given as a C string, whose bytes before the terminating zero are \<open>cstring\<close>,
  or as a length and a pointer, with the bytes that can be read from the pointer on; \<open>None\<close> is
  the NULL pointer.\<close>

record MQTTString =
  cstring :: "bytes option"
  lenstring_len :: int
  lenstring_data :: "bytes option"

definition MQTTString_initializer :: MQTTString where
  "MQTTString_initializer = \<lparr>cstring = None, lenstring_len = 0, lenstring_data = None\<rparr>"

section \<open>The remaining length\<close>

lemma sdiv_128_less:
  fixes n :: int
  assumes "0 < n sdiv 128"
  shows "0 < n \<and> n sdiv 128 < n"
proof (cases "0 \<le> n")
  case True
  with assms have "0 < n div 128" by (simp add: sdiv_nonneg)
  with True show ?thesis by (simp add: sdiv_nonneg) linarith
next
  case False
  then have "n sdiv 128 = - (\<bar>n\<bar> div 128)"
    by (simp add: signed_divide_int_def sgn_if)
  with assms show ?thesis by simp
qed

function MQTTPacket_encode_loop :: "bytes \<Rightarrow> nat \<Rightarrow> int \<Rightarrow> nat \<Rightarrow> (bytes \<times> int) option" where
  "MQTTPacket_encode_loop buf p n rc =
     (let d = (word_of_int (n smod 128) :: u8);
          n = n sdiv 128;
          d = (if n > 0 then d OR 0x80 else d)
      in case store buf (p + rc) d of
           None \<Rightarrow> None
         | Some buf \<Rightarrow>
             if n > 0 then MQTTPacket_encode_loop buf p n (rc + 1)
             else Some (buf, int (rc + 1)))"
  by pat_completeness auto
termination
  by (relation "measure (\<lambda>(buf, p, n, rc). nat n)") (auto simp: sdiv_128_less)

declare MQTTPacket_encode_loop.simps [simp del]

definition MQTTPacket_encode :: "bytes \<Rightarrow> nat \<Rightarrow> int \<Rightarrow> (bytes \<times> int) option" where
  "MQTTPacket_encode buf p n = MQTTPacket_encode_loop buf p n 0"

text \<open>\<open>ptr += MQTTPacket_encode(ptr, len)\<close>\<close>

definition write_remaining_length :: "cursor \<Rightarrow> int \<Rightarrow> cursor option" where
  "write_remaining_length st n =
     do { (buf, rc) \<leftarrow> MQTTPacket_encode (fst st) (snd st) n; Some (buf, snd st + nat rc) }"

text \<open>The field as MQTT defines it: seven bits a byte, low bits first, the top bit set on all
  bytes but the last.\<close>

fun enc_len :: "nat \<Rightarrow> bytes" where
  "enc_len n = (if n < 128 then [of_nat n] else of_nat (n mod 128 + 128) # enc_len (n div 128))"

declare enc_len.simps [simp del]

lemma of_nat_or_128: "m < 128 \<Longrightarrow> (of_nat m :: u8) OR 0x80 = of_nat (m + 128)"
proof -
  assume m: "m < 128"
  have "take_bit 7 m + push_bit 7 1 = take_bit 7 m OR push_bit 7 1"
    by (rule disjunctive_add) (simp only: bit_take_bit_iff bit_push_bit_iff, auto)
  moreover have "take_bit 7 m = m" using m by (simp add: take_bit_nat_eq_self_iff)
  ultimately have "m OR 128 = m + 128" by (simp add: push_bit_eq_mult)
  moreover have "(of_nat m :: u8) OR 0x80 = of_nat (m OR 128)"
    by (simp only: of_nat_or_eq of_nat_numeral)
  ultimately show ?thesis by simp
qed

lemma encode_loop_ok:
  "p + rc + length (enc_len n) \<le> length buf \<Longrightarrow>
   MQTTPacket_encode_loop buf p (int n) rc =
     Some (patch buf (p + rc) (enc_len n), int (rc + length (enc_len n)))"
proof (induction n arbitrary: buf rc rule: enc_len.induct)
  case (1 n)
  have "int n smod 128 = int (n mod 128)" by (simp add: smod_nonneg zmod_int)
  then have rem: "(word_of_int (int n smod 128) :: u8) = of_nat (n mod 128)"
    by (simp only: of_int_of_nat_eq)
  show ?case
  proof (cases "n < 128")
    case True
    with 1(2) rem show ?thesis
      by (simp add: MQTTPacket_encode_loop.simps [of _ _ "int n"] enc_len.simps [of n]
          store_patch sdiv_nonneg)
  next
    case False
    then have e: "enc_len n = of_nat (n mod 128 + 128) # enc_len (n div 128)"
      by (simp add: enc_len.simps [of n])
    let ?buf = "patch buf (p + rc) [of_nat (n mod 128 + 128)]"
    have "int n sdiv 128 = int (n div 128)" by (simp add: sdiv_nonneg zdiv_int)
    moreover have "MQTTPacket_encode_loop ?buf p (int (n div 128)) (rc + 1) =
        Some (patch ?buf (p + (rc + 1)) (enc_len (n div 128)), int (rc + 1 + length (enc_len (n div 128))))"
      using 1(2) e False by (intro 1(1)) simp_all
    moreover have "patch ?buf (p + (rc + 1)) (enc_len (n div 128)) = patch buf (p + rc) (enc_len n)"
      using patch_patch [of "p + rc" "[of_nat (n mod 128 + 128)]" "enc_len (n div 128)" buf] 1(2) e
      by simp
    ultimately show ?thesis
      using 1(2) e False rem of_nat_or_128 [of "n mod 128"]
      by (simp add: MQTTPacket_encode_loop.simps [of _ _ "int n"] store_patch Let_def div_greater_zero_iff)
  qed
qed

lemma encode_loop_overrun:
  "p + rc \<le> length buf \<Longrightarrow> length buf < p + rc + length (enc_len n) \<Longrightarrow>
   MQTTPacket_encode_loop buf p (int n) rc = None"
proof (induction n arbitrary: buf rc rule: enc_len.induct)
  case (1 n)
  show ?case
  proof (cases "p + rc = length buf")
    case True
    then show ?thesis by (simp add: MQTTPacket_encode_loop.simps [of _ _ "int n"] store_def Let_def)
  next
    case False
    with 1(2) have room: "p + (rc + 1) \<le> length buf" by simp
    have n: "\<not> n < 128" using 1(3) room by (auto simp: enc_len.simps [of n])
    then have e: "length (enc_len n) = Suc (length (enc_len (n div 128)))" by (simp add: enc_len.simps [of n])
    have "int n sdiv 128 = int (n div 128)" by (simp add: sdiv_nonneg zdiv_int)
    moreover have "MQTTPacket_encode_loop buf' p (int (n div 128)) (rc + 1) = None"
      if "length buf' = length buf" for buf'
      using room e n 1(3) that by (intro 1(1)) simp_all
    ultimately show ?thesis
      using n by (auto simp: MQTTPacket_encode_loop.simps [of _ _ "int n"] store_def Let_def)
  qed
qed

lemma writes_remaining_length [writes_intros]:
  "writes (\<lambda>st. write_remaining_length st (int n)) (enc_len n)"
  by (rule writesI)
    (simp_all add: write_remaining_length_def MQTTPacket_encode_def encode_loop_ok encode_loop_overrun)

lemma enc_len_not_Nil [simp]: "enc_len n \<noteq> []"
  by (simp add: enc_len.simps [of n])

lemma length_enc_len:
  "length (enc_len n) = (if n < 128 then 1 else if n < 16384 then 2 else if n < 2097152 then 3
     else if n < 268435456 then 4 else length (enc_len n))"
proof -
  have split: "length (enc_len m) = (if m < 128 then 1 else Suc (length (enc_len (m div 128))))" for m
    by (simp add: enc_len.simps [of m])
  have e: "n div 128 div 128 = n div 16384" "n div 16384 div 128 = n div 2097152"
    by (simp_all add: div_mult2_eq [symmetric])
  have lt: "n div 128 < 128 \<longleftrightarrow> n < 16384" "n div 16384 < 128 \<longleftrightarrow> n < 2097152"
    "n div 2097152 < 128 \<longleftrightarrow> n < 268435456"
    by (simp_all add: div_less_iff_less_mult)
  show ?thesis
    using split [of n] split [of "n div 128", unfolded e lt] split [of "n div 16384", unfolded e lt]
      split [of "n div 2097152", unfolded e lt] by (simp split: if_splits)
qed

section \<open>The length of a whole packet\<close>

definition MQTTPacket_len :: "int \<Rightarrow> int option" where
  "MQTTPacket_len rem_len =
     do { rem_len \<leftarrow> c_add rem_len 1;
          if rem_len < 128 then c_add rem_len 1
          else if rem_len < 16384 then c_add rem_len 2
          else if rem_len < 2097151 then c_add rem_len 3
          else c_add rem_len 4 }"

lemma MQTTPacket_len_bounds:
  assumes "n < 268435456"
  obtains L where "MQTTPacket_len (int n) = Some (int L)"
    and "1 + length (enc_len n) + n \<le> L" and "L \<le> 2 + length (enc_len n) + n"
proof -
  define L where "L = n + 1 + (if n < 127 then 1 else if n < 16383 then 2 else if n < 2097150 then 3 else 4)"
  have "MQTTPacket_len (int n) = Some (int L)"
    using assms by (simp add: MQTTPacket_len_def L_def int_min_def int_max_def)
  moreover have "1 + length (enc_len n) + n \<le> L" "L \<le> 2 + length (enc_len n) + n"
    using assms length_enc_len [of n] by (simp_all add: L_def split: if_splits)
  ultimately show ?thesis by (rule that)
qed

section \<open>Reading the remaining length\<close>

text \<open>
  The source of bytes is a callback, \<open>int (*getfn)(unsigned char*, int)\<close>: called with a count
  it stores bytes at its destination and returns a number. It is modelled as a function of its
  own state \<open>'s\<close> and the count, which gives the returned number, the bytes it stored and its
  new state.
\<close>

type_synonym 's getfn = "'s \<Rightarrow> int \<Rightarrow> (int \<times> bytes \<times> 's) option"

text \<open>The variable \<open>c\<close> after a call that stored \<open>bs\<close> at \<open>&c\<close>; \<open>None\<close> while it has no value.\<close>

definition stored :: "u8 option \<Rightarrow> bytes \<Rightarrow> u8 option" where
  "stored c bs = (case bs of [] \<Rightarrow> c | b # _ \<Rightarrow> Some b)"

definition MAX_NO_OF_REMAINING_LENGTH_BYTES :: int where
  "MAX_NO_OF_REMAINING_LENGTH_BYTES = 4"

function MQTTPacket_decode_loop ::
    "'s getfn \<Rightarrow> 's \<Rightarrow> u8 option \<Rightarrow> int \<Rightarrow> int \<Rightarrow> int \<Rightarrow> (int \<times> int \<times> 's) option" where
  "MQTTPacket_decode_loop getfn s c len multiplier val =
     (if len + 1 > MAX_NO_OF_REMAINING_LENGTH_BYTES then Some (len + 1, val, s)
      else case getfn s 1 of
          None \<Rightarrow> None
        | Some (rc, bs, s) \<Rightarrow>
            if rc \<noteq> 1 then Some (len + 1, val, s)
            else case stored c bs of
                None \<Rightarrow> None
              | Some c \<Rightarrow>
                  let val = val + uint (c AND 127) * multiplier; multiplier = multiplier * 128
                  in if c AND 128 \<noteq> 0
                     then MQTTPacket_decode_loop getfn s (Some c) (len + 1) multiplier val
                     else Some (len + 1, val, s))"
  by pat_completeness auto
termination
  by (relation "measure (\<lambda>(getfn, s, c, len, multiplier, val). nat (4 - len))")
    (auto simp: MAX_NO_OF_REMAINING_LENGTH_BYTES_def)

declare MQTTPacket_decode_loop.simps [simp del]

text \<open>The number of bytes it counts (5 for bad data), the decoded value and the callback's state.\<close>

definition MQTTPacket_decode :: "'s getfn \<Rightarrow> 's \<Rightarrow> (int \<times> int \<times> 's) option" where
  "MQTTPacket_decode getfn s = MQTTPacket_decode_loop getfn s None 0 1 0"

text \<open>\<open>bufchar\<close> reads from the static pointer \<open>bufptr\<close>; it stores every byte at the same \<open>*c\<close>,
  so only the last one is left there.\<close>

primrec bufchar_loop :: "nat \<Rightarrow> cursor \<Rightarrow> bytes \<Rightarrow> (bytes \<times> cursor) option" where
  "bufchar_loop 0 st c = Some (c, st)"
| "bufchar_loop (Suc n) st c =
     do { b \<leftarrow> load (fst st) (snd st); bufchar_loop n (fst st, snd st + 1) [b] }"

definition bufchar :: "cursor getfn" where
  "bufchar st count = do { (c, st) \<leftarrow> bufchar_loop (nat count) st []; Some (count, c, st) }"

definition MQTTPacket_decodeBuf :: "bytes \<Rightarrow> nat \<Rightarrow> (int \<times> int) option" where
  "MQTTPacket_decodeBuf buf p =
     do { (len, val, _) \<leftarrow> MQTTPacket_decode bufchar (buf, p); Some (len, val) }"

lemma u8_and_128: "(b :: u8) AND 128 = 0 \<longleftrightarrow> unat b < 128"
proof -
  have "(b AND 2 ^ 7 = 0) = (\<not> bit b 7)" by (rule and_exp_eq_0_iff_not_bit)
  also have "bit b 7 = bit (unat b) 7" by (simp add: bit_unsigned_iff)
  also have "\<not> bit (unat b) 7 \<longleftrightarrow> unat b < 128"
  proof -
    have "unat b div 128 = 0 \<or> unat b div 128 = 1"
      using unat_u8_less [of b] by linarith
    then show ?thesis by (auto simp: bit_iff_odd div_eq_0_iff)
  qed
  finally show ?thesis by simp
qed

lemma u8_and_127: "uint ((b :: u8) AND 127) = uint b mod 128"
proof -
  have "uint (b AND 127) = uint b AND mask 7"
    by (simp add: uint_and mask_eq_exp_minus_1)
  also have "\<dots> = take_bit 7 (uint b)" by (rule take_bit_eq_mask [symmetric])
  finally show ?thesis by (simp add: take_bit_int_def)
qed

text \<open>
  What the decoder relies on: a callback asked for one byte delivers the next byte of its stream.
\<close>

locale byte_source =
  fixes getfn :: "'s getfn" and delivers :: "'s \<Rightarrow> bytes \<Rightarrow> bool"
  assumes get1: "delivers s (b # bs) \<Longrightarrow> \<exists>s'. getfn s 1 = Some (1, [b], s') \<and> delivers s' bs"
begin

lemma decode_loop_step:
  assumes "delivers s (b # bs)" and "len + 1 \<le> 4"
  shows "\<exists>s'. delivers s' bs \<and> MQTTPacket_decode_loop getfn s c len mult val =
    (if unat b < 128 then Some (len + 1, val + int (unat b) * mult, s')
     else MQTTPacket_decode_loop getfn s' (Some b) (len + 1) (mult * 128)
       (val + int (unat b mod 128) * mult))"
proof -
  obtain s' where s': "getfn s 1 = Some (1, [b], s')" "delivers s' bs"
    using get1 [OF assms(1)] by blast
  have "uint (b AND 127) = int (unat b mod 128)"
    unfolding u8_and_127 zmod_int by simp
  with s' assms(2) show ?thesis
    by (intro exI [of _ s'])
      (simp add: MQTTPacket_decode_loop.simps [of _ s] stored_def u8_and_128
        MAX_NO_OF_REMAINING_LENGTH_BYTES_def Let_def)
qed

lemma decode_loop_enc_len:
  assumes "delivers s (enc_len n @ rest)" and "int (length (enc_len n)) + len \<le> 4"
  shows "\<exists>s'. MQTTPacket_decode_loop getfn s c len mult val =
      Some (len + int (length (enc_len n)), val + int n * mult, s') \<and> delivers s' rest"
  using assms
proof (induction n arbitrary: s c len mult val rule: enc_len.induct)
  case (1 n)
  show ?case
  proof (cases "n < 128")
    case True
    then have e: "enc_len n = [of_nat n]" by (simp add: enc_len.simps [of n])
    then show ?thesis
      using decode_loop_step [of s "of_nat n" rest len c mult val] 1(2,3) True by auto
  next
    case False
    define b :: u8 where "b = of_nat (n mod 128 + 128)"
    have b: "unat b = n mod 128 + 128" unfolding b_def by (simp only: unat_of_nat_u8)
    from False have e: "enc_len n = b # enc_len (n div 128)" by (simp add: enc_len.simps [of n] b_def)
    have val: "val + int (n mod 128) * mult + int (n div 128) * (mult * 128) = val + int n * mult"
    proof -
      have "int n = int (n mod 128) + int (n div 128) * 128" by (simp add: zmod_int zdiv_int)
      then have "int n * mult = (int (n mod 128) + int (n div 128) * 128) * mult" by (rule arg_cong)
      then show ?thesis by (simp add: algebra_simps)
    qed
    obtain s' where s': "delivers s' (enc_len (n div 128) @ rest)"
      "MQTTPacket_decode_loop getfn s c len mult val =
       MQTTPacket_decode_loop getfn s' (Some b) (len + 1) (mult * 128) (val + int (n mod 128) * mult)"
      using decode_loop_step [of s b "enc_len (n div 128) @ rest" len c mult val] 1(2,3) e b by auto
    have "int (length (enc_len (n div 128))) + (len + 1) \<le> 4" using 1(3) e by simp
    from 1(1) [OF False s'(1) this, of "Some b" "mult * 128" "val + int (n mod 128) * mult", unfolded val]
    show ?thesis unfolding s'(2) e by (simp add: add.assoc)
  qed
qed

lemma decode_enc_len:
  assumes "delivers s (enc_len n @ rest)" and "n < 268435456"
  shows "\<exists>s'. MQTTPacket_decode getfn s = Some (int (length (enc_len n)), int n, s') \<and> delivers s' rest"
proof -
  have "length (enc_len n) \<le> 4" using assms(2) length_enc_len [of n] by (simp split: if_splits)
  then show ?thesis
    using decode_loop_enc_len [OF assms(1), of 0 None 1 0] by (simp add: MQTTPacket_decode_def)
qed

end

interpretation buf_source: byte_source bufchar "\<lambda>st bs. drop (snd st) (fst st) = bs"
proof (unfold_locales, goal_cases)
  case (1 st b bs)
  then show ?case
    using load_drop [OF 1] drop_Suc_drop [OF 1] by (cases st) (simp add: bufchar_def)
qed

lemma decodeBuf_enc_len:
  assumes "drop p m = enc_len n @ rest" and "n < 268435456"
  shows "MQTTPacket_decodeBuf m p = Some (int (length (enc_len n)), int n)"
  using buf_source.decode_enc_len [of "(m, p)" n rest] assms
  by (auto simp: MQTTPacket_decodeBuf_def)

end
