(* ===== verification/MQTTStrings.thy ===== *)
theory MQTTStrings
  imports MQTTBytes
begin

text \<open>
  Characters, two-byte integers and strings of a packet: the \<open>read...\<close> and \<open>write...\<close> functions
  of \<open>MQTTPacket/src/MQTTPacket.c\<close>, \<open>MQTTstrlen\<close> and \<open>MQTTPacket_equals\<close>. \<open>mstr_bytes\<close> is the
  byte string that an \<^typ>\<open>MQTTString\<close> stands for and \<open>mstr_ok\<close> what a caller has to ensure.
\<close>

section \<open>Integers and characters\<close>

definition readInt :: "bytes \<Rightarrow> nat \<Rightarrow> (int \<times> nat) option" where
  "readInt m p =
     do { a \<leftarrow> load m p; b \<leftarrow> load m (p + 1); Some (256 * uint a + uint b, p + 2) }"

definition readChar :: "bytes \<Rightarrow> nat \<Rightarrow> (u8 \<times> nat) option" where
  "readChar m p = do { c \<leftarrow> load m p; Some (c, p + 1) }"

definition writeChar :: "cursor \<Rightarrow> u8 \<Rightarrow> cursor option" where
  "writeChar st c = do { m \<leftarrow> store (fst st) (snd st) c; Some (m, snd st + 1) }"

definition writeInt :: "cursor \<Rightarrow> int \<Rightarrow> cursor option" where
  "writeInt st anInt =
     do { st \<leftarrow> writeChar st (word_of_int (anInt sdiv 256));
          writeChar st (word_of_int (anInt smod 256)) }"

definition getLenStringLen :: "bytes \<Rightarrow> nat \<Rightarrow> int option" where
  "getLenStringLen m p = do { a \<leftarrow> load m p; b \<leftarrow> load m (p + 1); Some (256 * uint a + uint b) }"

lemma writes_writeChar [writes_intros]: "writes (\<lambda>st. writeChar st c) [c]"
  by (rule writesI) (simp_all add: writeChar_def store_patch store_None)

lemma writes_writeInt [writes_intros]:
  assumes "0 \<le> n" shows "writes (\<lambda>st. writeInt st n) (enc16 (nat n))"
proof -
  obtain k where k: "n = int k" using assms by (rule nonneg_int_cases)
  have "n sdiv 256 = int (k div 256)" "n smod 256 = int (k mod 256)"
    by (simp_all add: k sdiv_nonneg smod_nonneg zdiv_int zmod_int)
  then have "(word_of_int (n sdiv 256) :: u8) = of_nat (k div 256)"
    "(word_of_int (n smod 256) :: u8) = of_nat (k mod 256)"
    by (simp_all only: of_int_of_nat_eq)
  moreover have "writes (\<lambda>st. writeChar st (word_of_int (n sdiv 256)) \<bind>
      (\<lambda>st. writeChar st (word_of_int (n smod 256))))
      ([word_of_int (n sdiv 256)] @ [word_of_int (n smod 256)])"
    by (intro writes_bind writes_intros)
  ultimately show ?thesis by (simp add: writeInt_def enc16_def k)
qed

lemma readChar_drop: "drop p m = c # rest \<Longrightarrow> readChar m p = Some (c, p + 1)"
  by (simp add: readChar_def load_drop)

lemma readInt_enc16:
  assumes "drop p m = enc16 n @ rest" and "n < 65536"
  shows "readInt m p = Some (int n, p + 2)"
proof -
  have d: "drop p m = of_nat (n div 256) # of_nat (n mod 256) # rest"
    using assms(1) by (simp add: enc16_def)
  have "256 * uint (of_nat (n div 256) :: u8) + uint (of_nat (n mod 256) :: u8) = int n"
    using assms(2) by (simp add: uint_nat zdiv_int zmod_int)
  then show ?thesis
    using load_drop [OF d] load_drop [OF drop_Suc_drop [OF d]] by (simp add: readInt_def)
qed

section \<open>Strings\<close>

definition writeCString :: "cursor \<Rightarrow> bytes \<Rightarrow> cursor option" where
  "writeCString st string =
     do { let len = to_int (int (length string));
          st \<leftarrow> writeInt st len;
          m \<leftarrow> memcpy (fst st) (snd st) string len;
          Some (m, snd st + nat len) }"

definition writeMQTTString :: "cursor \<Rightarrow> MQTTString \<Rightarrow> cursor option" where
  "writeMQTTString st mqttstring =
     (if lenstring_len mqttstring > 0
      then do { st \<leftarrow> writeInt st (lenstring_len mqttstring);
                d \<leftarrow> lenstring_data mqttstring;
                m \<leftarrow> memcpy (fst st) (snd st) d (lenstring_len mqttstring);
                Some (m, snd st + nat (lenstring_len mqttstring)) }
      else case cstring mqttstring of
          Some s \<Rightarrow> writeCString st s
        | None \<Rightarrow> writeInt st 0)"

text \<open>The result is the return code, the string and the new read position. The data pointer points
  into the buffer, so everything from there to the end of the buffer can be read from it.\<close>

definition readMQTTLenString ::
    "MQTTString \<Rightarrow> bytes \<Rightarrow> nat \<Rightarrow> nat \<Rightarrow> (int \<times> MQTTString \<times> nat) option" where
  "readMQTTLenString mqttstring m p enddata =
     (if int enddata - int p > 1
      then do { (len, p) \<leftarrow> readInt m p;
                let mqttstring = mqttstring\<lparr>lenstring_len := len\<rparr>;
                if p + nat len \<le> enddata
                then Some (1, mqttstring\<lparr>lenstring_data := Some (drop p m), cstring := None\<rparr>, p + nat len)
                else Some (0, mqttstring\<lparr>cstring := None\<rparr>, p) }
      else Some (0, mqttstring\<lparr>cstring := None\<rparr>, p))"

definition MQTTstrlen :: "MQTTString \<Rightarrow> int" where
  "MQTTstrlen mqttstring =
     (case cstring mqttstring of
        Some s \<Rightarrow> to_int (int (length s))
      | None \<Rightarrow> lenstring_len mqttstring)"

text \<open>\<open>strncmp(a, b, n) == 0\<close> of the C library, on the memory behind its two pointers.\<close>

fun strncmp_eq :: "bytes \<Rightarrow> bytes \<Rightarrow> nat \<Rightarrow> bool option" where
  "strncmp_eq a b 0 = Some True"
| "strncmp_eq (x # a) (y # b) (Suc n) =
     (if x \<noteq> y then Some False else if x = 0 then Some True else strncmp_eq a b n)"
| "strncmp_eq _ _ (Suc n) = None"

definition MQTTPacket_equals :: "MQTTString \<Rightarrow> bytes \<Rightarrow> bool option" where
  "MQTTPacket_equals a bptr =
     do { let (aptr, alen) =
            (case cstring a of
               Some s \<Rightarrow> (Some (s @ [0]), to_int (int (length s)))
             | None \<Rightarrow> (lenstring_data a, lenstring_len a));
          let blen = to_int (int (length bptr));
          if alen = blen
          then do { ap \<leftarrow> aptr; strncmp_eq ap (bptr @ [0]) (nat alen) }
          else Some False }"

text \<open>The bytes a string stands for, and the strings the library can be given: the length field,
  when positive, is the length of readable data, the two forms do not contradict each other, and
  the length fits the two bytes of the encoding.\<close>

definition mstr_bytes :: "MQTTString \<Rightarrow> bytes" where
  "mstr_bytes s =
     (if lenstring_len s > 0
      then (case lenstring_data s of Some d \<Rightarrow> take (nat (lenstring_len s)) d | None \<Rightarrow> [])
      else (case cstring s of Some c \<Rightarrow> c | None \<Rightarrow> []))"

definition mstr_ok :: "MQTTString \<Rightarrow> bool" where
  "mstr_ok s \<longleftrightarrow>
     length (mstr_bytes s) < 65536 \<and>
     (if lenstring_len s > 0
      then (case lenstring_data s of Some d \<Rightarrow> nat (lenstring_len s) \<le> length d | None \<Rightarrow> False) \<and>
           (case cstring s of Some c \<Rightarrow> int (length c) = lenstring_len s | None \<Rightarrow> True)
      else cstring s \<noteq> None \<or> lenstring_len s = 0)"

definition enc_str :: "bytes \<Rightarrow> bytes" where
  "enc_str bs = enc16 (length bs) @ bs"

text \<open>A C string literal and a C string argument.\<close>

definition c_string :: "bytes \<Rightarrow> MQTTString" where
  "c_string s = MQTTString_initializer\<lparr>cstring := Some s\<rparr>"

lemma mstr_c_string [simp]: "mstr_bytes (c_string s) = s" "mstr_ok (c_string s) \<longleftrightarrow> length s < 65536"
  by (simp_all add: mstr_bytes_def mstr_ok_def c_string_def MQTTString_initializer_def)

lemma length_enc_str [simp]: "length (enc_str bs) = length bs + 2"
  by (simp add: enc_str_def)

lemma mstr_okD: "mstr_ok s \<Longrightarrow> length (mstr_bytes s) < 65536"
  by (simp add: mstr_ok_def)

lemma MQTTstrlen_ok [simp]: "mstr_ok s \<Longrightarrow> MQTTstrlen s = int (length (mstr_bytes s))"
  by (auto simp: mstr_ok_def mstr_bytes_def MQTTstrlen_def to_int_id int_min_def
      int_max_def split: option.splits if_splits)

lemma writes_memcpy:
  "writes (\<lambda>st. memcpy (fst st) (snd st) (xs @ ys) (int (length xs)) \<bind>
    (\<lambda>m. Some (m, snd st + length xs))) xs"
  by (rule writesI) (simp_all add: memcpy_patch memcpy_None)

lemma writes_writeCString [writes_intros]:
  assumes "length s < 65536" shows "writes (\<lambda>st. writeCString st s) (enc_str s)"
proof -
  have "writes (\<lambda>st. writeInt st (int (length s)) \<bind> (\<lambda>st. memcpy (fst st) (snd st) (s @ []) (int (length s)) \<bind>
    (\<lambda>m. Some (m, snd st + length s)))) (enc16 (nat (int (length s))) @ s)"
    using assms by (intro writes_bind writes_memcpy writes_writeInt) simp_all
  with assms show ?thesis by (simp add: writeCString_def enc_str_def int_max_def Let_def)
qed

lemma writes_writeMQTTString [writes_intros]:
  assumes "mstr_ok s" shows "writes (\<lambda>st. writeMQTTString st s) (enc_str (mstr_bytes s))"
proof (cases "lenstring_len s > 0")
  case True
  with assms obtain d where d: "lenstring_data s = Some d" "nat (lenstring_len s) \<le> length d"
    "nat (lenstring_len s) < 65536"
    by (auto simp: mstr_ok_def mstr_bytes_def split: option.splits)
  define xs ys where "xs = take (nat (lenstring_len s)) d" and "ys = drop (nat (lenstring_len s)) d"
  have n: "lenstring_len s = int (length xs)" and xs: "d = xs @ ys" "mstr_bytes s = xs"
    using d True by (simp_all add: xs_def ys_def mstr_bytes_def)
  have "writes (\<lambda>st. writeInt st (int (length xs)) \<bind> (\<lambda>st. memcpy (fst st) (snd st) (xs @ ys) (int (length xs)) \<bind>
    (\<lambda>m. Some (m, snd st + length xs)))) (enc16 (nat (int (length xs))) @ xs)"
    using d n by (intro writes_bind writes_memcpy writes_writeInt) simp_all
  with True d(1) xs n show ?thesis by (simp add: writeMQTTString_def enc_str_def)
next
  case False
  show ?thesis
  proof (cases "cstring s")
    case None
    have "writes (\<lambda>st. writeInt st 0) (enc16 (nat 0))" by (intro writes_intros) simp
    with None False show ?thesis by (simp add: writeMQTTString_def mstr_bytes_def enc_str_def)
  next
    case (Some c)
    with assms False have "length c < 65536" by (simp add: mstr_ok_def mstr_bytes_def)
    with Some False show ?thesis
      using writes_writeCString [of c] by (simp add: writeMQTTString_def mstr_bytes_def)
  qed
qed

text \<open>Reading a string back: it is the data in the buffer.\<close>

definition read_str :: "MQTTString \<Rightarrow> bytes \<Rightarrow> bytes \<Rightarrow> MQTTString" where
  "read_str s bs rest = s\<lparr>lenstring_len := int (length bs), lenstring_data := Some (bs @ rest), cstring := None\<rparr>"

lemma mstr_bytes_read_str [simp]: "mstr_bytes (read_str s bs rest) = bs"
  by (simp add: mstr_bytes_def read_str_def)

lemma readMQTTLenString_enc:
  assumes "drop p m = enc_str bs @ rest" and "length bs < 65536" and "p + 2 + length bs \<le> e"
  shows "readMQTTLenString s m p e = Some (1, read_str s bs rest, p + 2 + length bs)"
proof -
  have "drop p m = enc16 (length bs) @ bs @ rest" using assms(1) by (simp add: enc_str_def)
  moreover from this have "drop (p + 2) m = bs @ rest" using drop_append_drop [of p m "enc16 (length bs)"] by simp
  ultimately show ?thesis
    using assms(2,3) readInt_enc16 [of p m "length bs" "bs @ rest"]
    by (simp add: readMQTTLenString_def read_str_def Let_def)
qed

lemma read_str_step:
  assumes "drop c m = enc_str bs @ tail" and "length bs < 65536" and "c + 2 + length bs \<le> e"
  shows "readMQTTLenString s m c e = Some (1, read_str s bs tail, c + 2 + length bs)"
    and "drop (c + 2 + length bs) m = tail"
  using readMQTTLenString_enc [OF assms(1-3)] drop_append_drop [OF assms(1)] by (simp_all add: add.assoc)

end
