(* ===== verification/MQTTPublish.thy ===== *)
theory MQTTPublish
  imports MQTTStrings
begin

text \<open>
  PUBLISH packets and acknowledgements: \<open>MQTTSerializePublish.c\<close> and
  \<open>MQTTDeserializePublish.c\<close>. The serialisers write exactly the packet of the protocol, inside
  the buffer, or report that the buffer is too short; the deserialisers read it back.
\<close>

section \<open>Serialising at the start of a buffer\<close>

text \<open>What a serialiser returns: the return code and the buffer.\<close>

type_synonym serialized = "(int \<times> bytes) option"

definition finish :: "cursor \<Rightarrow> serialized" where
  "finish st = Some (int (snd st), fst st)"

text \<open>The common shape: the length check, then the writes from offset 0.\<close>

definition fits :: "nat \<Rightarrow> int \<Rightarrow> bool" where
  "fits rem_len buflen \<longleftrightarrow> (case MQTTPacket_len (int rem_len) of Some L \<Rightarrow> L \<le> buflen | None \<Rightarrow> False)"

text \<open>The estimate of the length of a packet is one byte too large at the ends of the ranges of the remaining length.\<close>

definition estimate_surplus :: "nat \<Rightarrow> nat" where
  "estimate_surplus rem_len = (if rem_len \<in> {127, 16383, 2097150, 2097151} then 1 else 0)"

lemma fits_exact:
  assumes "n < 268435456"
  shows "fits n buflen \<longleftrightarrow> int (1 + length (enc_len n) + n + estimate_surplus n) \<le> buflen"
proof -
  define L where "L = n + 1 + (if n < 127 then 1 else if n < 16383 then 2 else if n < 2097150 then 3 else 4)"
  have "MQTTPacket_len (int n) = Some (int L)"
    using assms by (simp add: MQTTPacket_len_def L_def int_min_def int_max_def)
  moreover have "L = 1 + length (enc_len n) + n + estimate_surplus n"
    using assms length_enc_len [of n] by (auto simp: L_def estimate_surplus_def split: if_splits)
  ultimately show ?thesis by (simp add: fits_def)
qed

lemma writes_finish:
  assumes "writes f pkt"
  shows "f (buf, 0) \<bind> finish =
    (if length pkt \<le> length buf then Some (int (length pkt), patch buf 0 pkt) else None)"
  using writesD [OF assms(1), of 0 buf] writesD_None [OF assms(1), of 0 buf] by (simp add: finish_def)

lemma fits_length:
  assumes "fits n buflen" and "n < 268435456"
  shows "int (1 + length (enc_len n) + n) \<le> buflen"
proof -
  obtain L where "MQTTPacket_len (int n) = Some (int L)" "1 + length (enc_len n) + n \<le> L"
    using assms(2) by (rule MQTTPacket_len_bounds)
  with assms(1) show ?thesis by (simp add: fits_def)
qed

lemma fits_enough:
  assumes "n < 268435456" and "int (2 + length (enc_len n) + n) \<le> buflen"
  shows "fits n buflen"
proof -
  obtain L where "MQTTPacket_len (int n) = Some (int L)" "L \<le> 2 + length (enc_len n) + n"
    using assms(1) by (rule MQTTPacket_len_bounds)
  with assms(2) show ?thesis by (simp add: fits_def)
qed

lemma guarded_serialize:
  assumes "n < 268435456" and "buflen \<le> int (length buf)" and "writes f (h # enc_len n @ body)"
    and "length body = n"
  shows "do { L \<leftarrow> MQTTPacket_len (int n);
              if L > buflen then Some (MQTTPACKET_BUFFER_TOO_SHORT, buf) else f (buf, 0) \<bind> finish } =
    (if fits n buflen then Some (int (length (h # enc_len n @ body)), patch buf 0 (h # enc_len n @ body))
     else Some (MQTTPACKET_BUFFER_TOO_SHORT, buf))"
proof -
  obtain L where L: "MQTTPacket_len (int n) = Some (int L)" using assms(1) by (rule MQTTPacket_len_bounds)
  show ?thesis
  proof (cases "fits n buflen")
    case True
    with assms(1,2,4) have "length (h # enc_len n @ body) \<le> length buf"
      using fits_length [OF True] by simp
    with True L show ?thesis
      using writes_finish [OF assms(3)] by (simp add: fits_def)
  next
    case False
    with L show ?thesis by (simp add: fits_def)
  qed
qed

section \<open>PUBLISH\<close>

definition MQTTSerialize_publishLength :: "int \<Rightarrow> MQTTString \<Rightarrow> int \<Rightarrow> int option" where
  "MQTTSerialize_publishLength qos topicName payloadlen =
     do { a \<leftarrow> c_add 2 (MQTTstrlen topicName);
          a \<leftarrow> c_add a payloadlen;
          len \<leftarrow> c_add 0 a;
          if qos > 0 then c_add len 2 else Some len }"

definition MQTTSerialize_publish ::
    "bytes \<Rightarrow> int \<Rightarrow> u8 \<Rightarrow> int \<Rightarrow> u8 \<Rightarrow> u16 \<Rightarrow> MQTTString \<Rightarrow> bytes \<Rightarrow> int \<Rightarrow> serialized" where
  "MQTTSerialize_publish buf buflen dup qos retained packetid topicName payload payloadlen =
     do { rem_len \<leftarrow> MQTTSerialize_publishLength qos topicName payloadlen;
          L \<leftarrow> MQTTPacket_len rem_len;
          if L > buflen then Some (MQTTPACKET_BUFFER_TOO_SHORT, buf)
          else do {
            let header = header_zero\<lparr>h_type := type_code PUBLISH, h_dup := ucast dup,
                           h_qos := word_of_int qos, h_retain := ucast retained\<rparr>;
            st \<leftarrow> writeChar (buf, 0) (header_byte header);
            st \<leftarrow> write_remaining_length st rem_len;
            st \<leftarrow> writeMQTTString st topicName;
            st \<leftarrow> (if qos > 0 then writeInt st (uint packetid) else Some st);
            m \<leftarrow> memcpy (fst st) (snd st) payload payloadlen;
            finish (m, snd st + nat payloadlen) } }"

text \<open>The packet of the protocol.\<close>

definition publish_header :: "u8 \<Rightarrow> int \<Rightarrow> u8 \<Rightarrow> MQTTHeader" where
  "publish_header dup qos retained =
     \<lparr>h_retain = ucast retained, h_qos = word_of_int qos, h_dup = ucast dup, h_type = type_code PUBLISH\<rparr>"

definition publish_body :: "int \<Rightarrow> u16 \<Rightarrow> bytes \<Rightarrow> bytes \<Rightarrow> bytes" where
  "publish_body qos packetid topic payload =
     enc_str topic @ (if qos > 0 then enc16 (unat packetid) else []) @ payload"

definition publish_packet :: "u8 \<Rightarrow> int \<Rightarrow> u8 \<Rightarrow> u16 \<Rightarrow> bytes \<Rightarrow> bytes \<Rightarrow> bytes" where
  "publish_packet dup qos retained packetid topic payload =
     (let body = publish_body qos packetid topic payload
      in header_byte (publish_header dup qos retained) # enc_len (length body) @ body)"

lemma length_publish_body:
  "length (publish_body qos pid topic payload) = length topic + (if qos > 0 then 4 else 2) + length payload"
  by (simp add: publish_body_def)

lemma publishLength_ok:
  assumes "mstr_ok t" and "length (publish_body qos pid (mstr_bytes t) xs) < 268435456"
  shows "MQTTSerialize_publishLength qos t (int (length xs)) =
    Some (int (length (publish_body qos pid (mstr_bytes t) xs)))"
  using assms by (simp add: MQTTSerialize_publishLength_def length_publish_body int_min_def int_max_def)

lemma serialize_publish:
  assumes t: "mstr_ok topicName" and n: "length (publish_body qos packetid (mstr_bytes topicName) xs) < 268435456"
    and buf: "buflen \<le> int (length buf)"
  shows "MQTTSerialize_publish buf buflen dup qos retained packetid topicName (xs @ ys) (int (length xs)) =
    (if fits (length (publish_body qos packetid (mstr_bytes topicName) xs)) buflen
     then (let pkt = publish_packet dup qos retained packetid (mstr_bytes topicName) xs
           in Some (int (length pkt), patch buf 0 pkt))
     else Some (MQTTPACKET_BUFFER_TOO_SHORT, buf))"
proof -
  define body where "body = publish_body qos packetid (mstr_bytes topicName) xs"
  define rem where "rem = length body"
  let ?h = "header_byte (publish_header dup qos retained)"
  let ?f = "\<lambda>st. writeChar st ?h \<bind> (\<lambda>st. write_remaining_length st (int rem) \<bind>
    (\<lambda>st. writeMQTTString st topicName \<bind> (\<lambda>st. (if qos > 0 then writeInt st (uint packetid) else Some st) \<bind>
    (\<lambda>st. memcpy (fst st) (snd st) (xs @ ys) (int (length xs)) \<bind> (\<lambda>m. Some (m, snd st + length xs))))))"
  have "writes ?f ([?h] @ enc_len rem @ enc_str (mstr_bytes topicName) @
      (if qos > 0 then enc16 (nat (uint packetid)) else []) @ xs)"
    using t by (intro writes_bind writes_memcpy writes_intros) simp_all
  then have w: "writes ?f (?h # enc_len rem @ body)"
    by (simp only: body_def publish_body_def append_Cons append_Nil nat_uint_eq)
  have "header_zero\<lparr>h_type := type_code PUBLISH, h_dup := ucast dup, h_qos := word_of_int qos,
      h_retain := ucast retained\<rparr> = publish_header dup qos retained"
    by (simp add: header_zero_def publish_header_def)
  then show ?thesis
    using guarded_serialize [OF n [folded body_def, folded rem_def] buf w rem_def [symmetric]]
    by (simp only: MQTTSerialize_publish_def publishLength_ok [OF t n] publish_packet_def Let_def
        body_def [symmetric] rem_def [symmetric] nat_int bind.bind_lunit bind_assoc)
qed

text \<open>The output parameters of \<open>MQTTDeserialize_publish\<close>; the ones it does not assign keep the
  caller's value. The payload pointer is given by the bytes readable from it.\<close>

record publish_out =
  po_dup :: u8
  po_qos :: int
  po_retained :: u8
  po_packetid :: u16
  po_topicName :: MQTTString
  po_payload :: "bytes option"
  po_payloadlen :: int

definition MQTTDeserialize_publish :: "publish_out \<Rightarrow> bytes \<Rightarrow> int \<Rightarrow> (int \<times> publish_out) option" where
  "MQTTDeserialize_publish out buf buflen =
     do { (b, curdata) \<leftarrow> readChar buf 0;
          let header = header_bits b;
          if h_type header \<noteq> type_code PUBLISH then Some (0, out)
          else do {
            let out = out\<lparr>po_dup := ucast (h_dup header), po_qos := uint (h_qos header),
                          po_retained := ucast (h_retain header)\<rparr>;
            (rc, mylen) \<leftarrow> MQTTPacket_decodeBuf buf curdata;
            let curdata = curdata + nat rc;
            let enddata = curdata + nat mylen;
            (ok, topic, curdata) \<leftarrow> readMQTTLenString (po_topicName out) buf curdata enddata;
            let out = out\<lparr>po_topicName := topic\<rparr>;
            if ok = 0 \<or> int enddata - int curdata < 0 then Some (rc, out)
            else do {
              (out, curdata) \<leftarrow>
                (if po_qos out > 0
                 then do { (i, curdata) \<leftarrow> readInt buf curdata;
                           Some (out\<lparr>po_packetid := word_of_int i\<rparr>, curdata) }
                 else Some (out, curdata));
              Some (1, out\<lparr>po_payloadlen := int enddata - int curdata,
                           po_payload := Some (drop curdata buf)\<rparr>) } } }"

text \<open>What a receiver gets for a packet followed by \<open>rest\<close> in its buffer.\<close>

definition publish_result :: "publish_out \<Rightarrow> u8 \<Rightarrow> int \<Rightarrow> u8 \<Rightarrow> u16 \<Rightarrow> bytes \<Rightarrow> bytes \<Rightarrow> bytes \<Rightarrow> publish_out" where
  "publish_result out dup qos retained packetid topic payload rest =
     out\<lparr>po_dup := dup, po_qos := qos, po_retained := retained,
         po_packetid := (if qos > 0 then packetid else po_packetid out),
         po_topicName := read_str (po_topicName out) topic
           ((if qos > 0 then enc16 (unat packetid) else []) @ payload @ rest),
         po_payloadlen := int (length payload), po_payload := Some (payload @ rest)\<rparr>"

lemma ucast_bit:
  assumes "(d :: u8) \<le> 1" shows "ucast (ucast d :: 1 word) = d"
proof -
  have "unat d = 0 \<or> unat d = 1" using assms by (auto simp: word_le_nat_alt)
  then have "d = 0 \<or> d = 1" by (simp add: word_unat_eq_iff)
  then show ?thesis by auto
qed

lemma ucast_ucast_id_less:
  fixes x :: "'a::len word"
  assumes "unat x < 2 ^ LENGTH('b)"
  shows "ucast (ucast x :: 'b::len word) = x"
proof -
  have "unat (ucast x :: 'b word) = unat (of_nat (unat x) :: 'b word)" by (simp only: of_nat_unat)
  then have "unat (ucast x :: 'b word) = unat x" using assms by (simp only: unat_of_nat_word mod_less)
  then have "(of_nat (unat (ucast x :: 'b word)) :: 'a word) = of_nat (unat x)" by (rule arg_cong)
  then show ?thesis by (simp only: of_nat_unat ucast_id)
qed

lemma decode_body:
  assumes "drop p m = h # enc_len (length body) @ body @ rest" and "length body < 268435456"
  shows "readChar m p = Some (h, p + 1)"
    and "MQTTPacket_decodeBuf m (p + 1) =
      Some (int (length (enc_len (length body))), int (length body))"
    and "drop (p + 1 + length (enc_len (length body))) m = body @ rest"
proof -
  have d: "drop (p + 1) m = enc_len (length body) @ body @ rest"
    using drop_Suc_drop [OF assms(1)] by simp
  show "readChar m p = Some (h, p + 1)" using assms(1) by (rule readChar_drop)
  show "MQTTPacket_decodeBuf m (p + 1) = Some (int (length (enc_len (length body))), int (length body))"
    using d assms(2) by (rule decodeBuf_enc_len)
  show "drop (p + 1 + length (enc_len (length body))) m = body @ rest"
    using drop_append_drop [OF d] .
qed

lemma deserialize_publish:
  assumes buf: "buf = publish_packet dup qos retained packetid topic payload @ rest"
    and len: "length (publish_body qos packetid topic payload) < 268435456" "length topic < 65536"
    and flags: "dup \<le> 1" "retained \<le> 1" "0 \<le> qos" "qos \<le> 3"
  shows "MQTTDeserialize_publish out buf buflen =
    Some (1, publish_result out dup qos retained packetid topic payload rest)"
proof -
  define body where "body = publish_body qos packetid topic payload"
  define L where "L = length (enc_len (length body))"
  define c1 c2 e where "c1 = Suc L" and "c2 = c1 + 2 + length topic" and "e = c1 + length body"
  let ?pid = "if qos > 0 then enc16 (unat packetid) else []"
  have d: "drop 0 buf = header_byte (publish_header dup qos retained) # enc_len (length body) @ body @ rest"
    using buf by (simp add: publish_packet_def body_def Let_def)
  note start = decode_body [OF d len(1) [folded body_def], folded L_def, unfolded add_0 plus_1_eq_Suc
    add_Suc, folded One_nat_def c1_def]
  have eqs: "Suc L = c1" "Suc (L + length body) = e" by (simp_all add: c1_def e_def)
  have body: "body @ rest = enc_str topic @ ?pid @ payload @ rest"
    by (simp add: body_def publish_body_def)
  have e: "e = c2 + length ?pid + length payload"
    by (simp add: body_def length_publish_body c2_def e_def)
  have drop1: "drop c1 buf = enc_str topic @ ?pid @ payload @ rest"
    using start(3) body by simp
  have drop2: "drop c2 buf = ?pid @ payload @ rest"
    using drop_append_drop [OF drop1] by (simp add: c2_def add.assoc)
  have str: "readMQTTLenString s buf c1 e =
      Some (1, read_str s topic (?pid @ payload @ rest), c2)" for s
    unfolding c2_def using e len(2) by (intro readMQTTLenString_enc [OF drop1]) (simp_all add: c2_def)
  have qos: "uint (word_of_int qos :: 2 word) = qos"
    using flags(3,4) by (simp add: unsigned_of_int take_bit_int_eq_self)
  show ?thesis
  proof (cases "qos > 0")
    case True
    have int: "readInt buf c2 = Some (int (unat packetid), c2 + 2)"
      using drop2 True unsigned_less [of packetid] by (intro readInt_enc16 [of _ _ _ "payload @ rest"]) simp_all
    have drop3: "drop (c2 + 2) buf = payload @ rest"
      using drop_append_drop [of c2 buf "enc16 (unat packetid)"] drop2 True by simp
    have le: "int e - int (c2 + 2) = int (length payload)" "\<not> int e - int c2 < 0" using e True by simp_all
    show ?thesis
      using start(1,2) str int drop3 le eqs flags qos True
      by (simp add: MQTTDeserialize_publish_def publish_result_def publish_header_def ucast_bit Let_def)
  next
    case False
    have le: "int e - int c2 = int (length payload)" using e False by simp
    from False show ?thesis
      using start(1,2) str drop2 le eqs flags qos
      by (simp add: MQTTDeserialize_publish_def publish_result_def publish_header_def ucast_bit Let_def)
  qed
qed

section \<open>Acknowledgements\<close>

definition MQTTSerialize_ack :: "bytes \<Rightarrow> int \<Rightarrow> u8 \<Rightarrow> u8 \<Rightarrow> u16 \<Rightarrow> serialized" where
  "MQTTSerialize_ack buf buflen packettype dup packetid =
     (if buflen < 4 then Some (MQTTPACKET_BUFFER_TOO_SHORT, buf)
      else do {
        let header = header_zero\<lparr>h_type := ucast packettype, h_dup := ucast dup,
                       h_qos := (if packettype = of_nat (msg_code PUBREL) then 1 else 0)\<rparr>;
        st \<leftarrow> writeChar (buf, 0) (header_byte header);
        st \<leftarrow> write_remaining_length st 2;
        st \<leftarrow> writeInt st (uint packetid);
        finish st })"

definition MQTTSerialize_puback :: "bytes \<Rightarrow> int \<Rightarrow> u16 \<Rightarrow> serialized" where
  "MQTTSerialize_puback buf buflen packetid = MQTTSerialize_ack buf buflen (of_nat (msg_code PUBACK)) 0 packetid"

definition MQTTSerialize_pubrel :: "bytes \<Rightarrow> int \<Rightarrow> u8 \<Rightarrow> u16 \<Rightarrow> serialized" where
  "MQTTSerialize_pubrel buf buflen dup packetid = MQTTSerialize_ack buf buflen (of_nat (msg_code PUBREL)) dup packetid"

definition MQTTSerialize_pubcomp :: "bytes \<Rightarrow> int \<Rightarrow> u16 \<Rightarrow> serialized" where
  "MQTTSerialize_pubcomp buf buflen packetid = MQTTSerialize_ack buf buflen (of_nat (msg_code PUBCOMP)) 0 packetid"

record ack_out =
  ao_packettype :: u8
  ao_dup :: u8
  ao_packetid :: u16

definition MQTTDeserialize_ack :: "ack_out \<Rightarrow> bytes \<Rightarrow> int \<Rightarrow> (int \<times> ack_out) option" where
  "MQTTDeserialize_ack out buf buflen =
     do { (b, curdata) \<leftarrow> readChar buf 0;
          let header = header_bits b;
          let out = out\<lparr>ao_dup := ucast (h_dup header), ao_packettype := ucast (h_type header)\<rparr>;
          (rc, mylen) \<leftarrow> MQTTPacket_decodeBuf buf curdata;
          let curdata = curdata + nat rc;
          let enddata = curdata + nat mylen;
          if int enddata - int curdata < 2 then Some (rc, out)
          else do {
            (i, curdata) \<leftarrow> readInt buf curdata;
            Some (1, out\<lparr>ao_packetid := word_of_int i\<rparr>) } }"

text \<open>The bytes of an acknowledgement.\<close>

definition ack_header :: "u8 \<Rightarrow> u8 \<Rightarrow> MQTTHeader" where
  "ack_header packettype dup =
     \<lparr>h_retain = 0, h_qos = (if packettype = of_nat (msg_code PUBREL) then 1 else 0),
      h_dup = ucast dup, h_type = ucast packettype\<rparr>"

definition ack_packet :: "u8 \<Rightarrow> u8 \<Rightarrow> u16 \<Rightarrow> bytes" where
  "ack_packet packettype dup packetid =
     header_byte (ack_header packettype dup) # enc_len 2 @ enc16 (unat packetid)"

lemma enc_len_small: "n < 128 \<Longrightarrow> enc_len n = [of_nat n]"
  by (simp add: enc_len.simps)

lemma length_ack_packet [simp]: "length (ack_packet t d i) = 4"
  by (simp add: ack_packet_def enc_len_small)

lemma writes_writeInt_u16 [writes_intros]: "writes (\<lambda>st. writeInt st (uint (x :: u16))) (enc16 (unat x))"
  using writes_writeInt [of "uint x"] by (simp add: nat_uint_eq)

lemma writes_remaining_2 [writes_intros]: "writes (\<lambda>st. write_remaining_length st 2) (enc_len 2)"
  using writes_remaining_length [of 2] by simp

lemma serialize_ack:
  "MQTTSerialize_ack buf buflen packettype dup packetid =
    (if buflen < 4 then Some (MQTTPACKET_BUFFER_TOO_SHORT, buf)
     else if 4 \<le> length buf then Some (4, patch buf 0 (ack_packet packettype dup packetid)) else None)"
proof -
  let ?h = "header_byte (ack_header packettype dup)"
  let ?f = "\<lambda>st. writeChar st ?h \<bind> (\<lambda>st. write_remaining_length st 2 \<bind>
    (\<lambda>st. writeInt st (uint packetid)))"
  have w: "writes ?f (ack_packet packettype dup packetid)"
    using writes_bind [OF writes_writeChar [of ?h] writes_bind [OF writes_remaining_2 writes_writeInt_u16 [of packetid]]]
    by (simp add: ack_packet_def)
  have "header_zero\<lparr>h_type := ucast packettype, h_dup := ucast dup,
      h_qos := (if packettype = of_nat (msg_code PUBREL) then 1 else 0)\<rparr> = ack_header packettype dup"
    by (simp add: header_zero_def ack_header_def)
  then show ?thesis
    using writes_finish [OF w]
    by (simp add: MQTTSerialize_ack_def Let_def bind_assoc)
qed

lemma deserialize_ack:
  assumes buf: "buf = ack_packet packettype dup packetid @ rest" and "dup \<le> 1" "packettype < 16"
  shows "MQTTDeserialize_ack out buf buflen =
    Some (1, out\<lparr>ao_dup := dup, ao_packettype := packettype, ao_packetid := packetid\<rparr>)"
proof -
  have d: "drop 0 buf = header_byte (ack_header packettype dup) # enc_len (length (enc16 (unat packetid))) @
      enc16 (unat packetid) @ rest"
    using buf by (simp add: ack_packet_def)
  have start: "readChar buf 0 = Some (header_byte (ack_header packettype dup), Suc 0)"
    "MQTTPacket_decodeBuf buf (Suc 0) = Some (1, 2)" "drop 2 buf = enc16 (unat packetid) @ rest"
    using decode_body [OF d] by (simp_all add: enc_len_small numeral_2_eq_2)
  have "readInt buf (Suc (Suc 0)) = Some (int (unat packetid), 2 + 2)"
    using start(3) unsigned_less [of packetid] unfolding numeral_2_eq_2 [symmetric]
    by (intro readInt_enc16 [of _ _ _ rest]) simp_all
  moreover have "ucast (ucast packettype :: 4 word) = packettype"
    by (rule ucast_ucast_id_less) (use assms(3) in \<open>simp add: word_less_nat_alt\<close>)
  ultimately show ?thesis
    using start(1,2) assms(2)
    by (simp add: MQTTDeserialize_ack_def ack_header_def ucast_bit Let_def)
qed

text \<open>A packet that is too short for a packet identifier: the return value is the number of bytes
  of the remaining length, which is 1 for every length below 128, the code for success.\<close>

lemma deserialize_ack_short:
  assumes buf: "buf = h # enc_len n @ rest" and n: "n < 2"
  shows "MQTTDeserialize_ack out buf buflen =
    Some (1, out\<lparr>ao_dup := ucast (h_dup (header_bits h)), ao_packettype := ucast (h_type (header_bits h))\<rparr>)"
proof -
  have "drop 1 buf = enc_len n @ rest" using buf by simp
  then have "MQTTPacket_decodeBuf buf 1 = Some (int (length (enc_len n)), int n)"
    using n by (intro decodeBuf_enc_len) simp_all
  with n buf show ?thesis
    by (simp add: MQTTDeserialize_ack_def readChar_def enc_len_small Let_def)
qed

end
