(* ===== verification/MQTTSubscribe.thy ===== *)
theory MQTTSubscribe
  imports MQTTPublish
begin

text \<open>
  Subscriptions: SUBSCRIBE, SUBACK, UNSUBSCRIBE and UNSUBACK packets, from
  \<open>MQTTSubscribeClient.c\<close>, \<open>MQTTSubscribeServer.c\<close>, \<open>MQTTUnsubscribeClient.c\<close> and
  \<open>MQTTUnsubscribeServer.c\<close>. Arrays are lists; an index past the end is an invalid access.
\<close>

section \<open>Writing a list of items\<close>

definition with_header :: "msgTypes \<Rightarrow> u8 \<Rightarrow> 2 word \<Rightarrow> MQTTHeader" where
  "with_header t dup qos = header_zero\<lparr>h_type := type_code t, h_dup := ucast dup, h_qos := qos\<rparr>"

text \<open>SUBSCRIBE, client side: the length and the loop over the filters.\<close>

primrec subscribe_length_loop :: "nat \<Rightarrow> nat \<Rightarrow> MQTTString list \<Rightarrow> int \<Rightarrow> int option" where
  "subscribe_length_loop 0 i topicFilters len = Some len"
| "subscribe_length_loop (Suc n) i topicFilters len =
     do { f \<leftarrow> load topicFilters i;
          a \<leftarrow> c_add 2 (MQTTstrlen f);
          a \<leftarrow> c_add a 1;
          len \<leftarrow> c_add len a;
          subscribe_length_loop n (i + 1) topicFilters len }"

definition MQTTSerialize_subscribeLength :: "int \<Rightarrow> MQTTString list \<Rightarrow> int option" where
  "MQTTSerialize_subscribeLength count topicFilters = subscribe_length_loop (nat count) 0 topicFilters 2"

primrec subscribe_write_loop ::
    "nat \<Rightarrow> nat \<Rightarrow> MQTTString list \<Rightarrow> int list \<Rightarrow> cursor \<Rightarrow> cursor option" where
  "subscribe_write_loop 0 i topicFilters requestedQoSs st = Some st"
| "subscribe_write_loop (Suc n) i topicFilters requestedQoSs st =
     do { f \<leftarrow> load topicFilters i;
          st \<leftarrow> writeMQTTString st f;
          q \<leftarrow> load requestedQoSs i;
          st \<leftarrow> writeChar st (word_of_int q);
          subscribe_write_loop n (i + 1) topicFilters requestedQoSs st }"

definition MQTTSerialize_subscribe ::
    "bytes \<Rightarrow> int \<Rightarrow> u8 \<Rightarrow> u16 \<Rightarrow> int \<Rightarrow> MQTTString list \<Rightarrow> int list \<Rightarrow> serialized" where
  "MQTTSerialize_subscribe buf buflen dup packetid count topicFilters requestedQoSs =
     do { rem_len \<leftarrow> MQTTSerialize_subscribeLength count topicFilters;
          L \<leftarrow> MQTTPacket_len rem_len;
          if L > buflen then Some (MQTTPACKET_BUFFER_TOO_SHORT, buf)
          else do {
            let header = header_zero\<lparr>h_type := type_code SUBSCRIBE, h_dup := ucast dup, h_qos := 1\<rparr>;
            st \<leftarrow> writeChar (buf, 0) (header_byte header);
            st \<leftarrow> write_remaining_length st rem_len;
            st \<leftarrow> writeInt st (uint packetid);
            st \<leftarrow> subscribe_write_loop (nat count) 0 topicFilters requestedQoSs st;
            finish st } }"

text \<open>UNSUBSCRIBE, client side.\<close>

primrec unsubscribe_length_loop :: "nat \<Rightarrow> nat \<Rightarrow> MQTTString list \<Rightarrow> int \<Rightarrow> int option" where
  "unsubscribe_length_loop 0 i topicFilters len = Some len"
| "unsubscribe_length_loop (Suc n) i topicFilters len =
     do { f \<leftarrow> load topicFilters i;
          a \<leftarrow> c_add 2 (MQTTstrlen f);
          len \<leftarrow> c_add len a;
          unsubscribe_length_loop n (i + 1) topicFilters len }"

definition MQTTSerialize_unsubscribeLength :: "int \<Rightarrow> MQTTString list \<Rightarrow> int option" where
  "MQTTSerialize_unsubscribeLength count topicFilters = unsubscribe_length_loop (nat count) 0 topicFilters 2"

primrec unsubscribe_write_loop :: "nat \<Rightarrow> nat \<Rightarrow> MQTTString list \<Rightarrow> cursor \<Rightarrow> cursor option" where
  "unsubscribe_write_loop 0 i topicFilters st = Some st"
| "unsubscribe_write_loop (Suc n) i topicFilters st =
     do { f \<leftarrow> load topicFilters i;
          st \<leftarrow> writeMQTTString st f;
          unsubscribe_write_loop n (i + 1) topicFilters st }"

definition MQTTSerialize_unsubscribe ::
    "bytes \<Rightarrow> int \<Rightarrow> u8 \<Rightarrow> u16 \<Rightarrow> int \<Rightarrow> MQTTString list \<Rightarrow> serialized" where
  "MQTTSerialize_unsubscribe buf buflen dup packetid count topicFilters =
     do { rem_len \<leftarrow> MQTTSerialize_unsubscribeLength count topicFilters;
          L \<leftarrow> MQTTPacket_len rem_len;
          if L > buflen then Some (MQTTPACKET_BUFFER_TOO_SHORT, buf)
          else do {
            let header = header_zero\<lparr>h_type := type_code UNSUBSCRIBE, h_dup := ucast dup, h_qos := 1\<rparr>;
            st \<leftarrow> writeChar (buf, 0) (header_byte header);
            st \<leftarrow> write_remaining_length st rem_len;
            st \<leftarrow> writeInt st (uint packetid);
            st \<leftarrow> unsubscribe_write_loop (nat count) 0 topicFilters st;
            finish st } }"

text \<open>The packets of the protocol, for a list of pairs of filter and requested quality of service.\<close>

definition enc_request :: "bytes \<times> u8 \<Rightarrow> bytes" where
  "enc_request r = enc_str (fst r) @ [snd r]"

definition subscribe_body :: "u16 \<Rightarrow> (bytes \<times> u8) list \<Rightarrow> bytes" where
  "subscribe_body packetid rs = enc16 (unat packetid) @ concat (map enc_request rs)"

definition subscribe_packet :: "u8 \<Rightarrow> u16 \<Rightarrow> (bytes \<times> u8) list \<Rightarrow> bytes" where
  "subscribe_packet dup packetid rs =
     header_byte (with_header SUBSCRIBE dup 1) # enc_len (length (subscribe_body packetid rs)) @ subscribe_body packetid rs"

definition unsubscribe_body :: "u16 \<Rightarrow> bytes list \<Rightarrow> bytes" where
  "unsubscribe_body packetid ts = enc16 (unat packetid) @ concat (map enc_str ts)"

definition unsubscribe_packet :: "u8 \<Rightarrow> u16 \<Rightarrow> bytes list \<Rightarrow> bytes" where
  "unsubscribe_packet dup packetid ts =
     header_byte (with_header UNSUBSCRIBE dup 1) # enc_len (length (unsubscribe_body packetid ts)) @ unsubscribe_body packetid ts"

definition requests :: "MQTTString list \<Rightarrow> int list \<Rightarrow> (bytes \<times> u8) list" where
  "requests fs qs = zip (map mstr_bytes fs) (map word_of_int qs)"

lemma enc_request_pair [simp]: "enc_request (t, q) = enc_str t @ [q]"
  by (simp add: enc_request_def)

lemma requests_Cons [simp]: "requests (f # fs) (q # qs) = (mstr_bytes f, word_of_int q) # requests fs qs"
  by (simp add: requests_def)

lemma load_suffix [simp]: "drop i xs = y # ys \<Longrightarrow> load xs i = Some y"
  by (rule load_drop)

lemma subscribe_length_loop_ok:
  assumes "drop i fs = gs" "length gs = n" "length qs = n" "list_all mstr_ok gs" "0 \<le> len"
    and "len + int (length (concat (map enc_request (requests gs qs)))) \<le> int_max"
  shows "subscribe_length_loop n i fs len = Some (len + int (length (concat (map enc_request (requests gs qs)))))"
  using assms
proof (induction n arbitrary: i gs qs len)
  case (Suc n)
  then obtain g gs' q qs' where gs: "gs = g # gs'" and qs: "qs = q # qs'" by (metis length_Suc_conv)
  let ?l = "int (length (mstr_bytes g)) + 3"
  from Suc.prems(4) gs have g: "mstr_ok g" by simp
  have bound: "len + ?l + int (length (concat (map enc_request (requests gs' qs')))) \<le> int_max"
    using Suc.prems(6) by (simp add: gs qs)
  have "subscribe_length_loop n (i + 1) fs (len + ?l) =
      Some (len + ?l + int (length (concat (map enc_request (requests gs' qs')))))"
    using Suc.prems bound gs qs drop_Suc_drop [of i fs g gs']
    by (intro Suc.IH) simp_all
  moreover have "c_add 2 (MQTTstrlen g) = Some (2 + int (length (mstr_bytes g)))"
    "c_add (2 + int (length (mstr_bytes g))) 1 = Some ?l" "c_add len ?l = Some (len + ?l)"
    using g Suc.prems(5) bound mstr_okD [OF g] by (simp_all add: int_min_def int_max_def)
  ultimately show ?case
    using Suc.prems(1) gs qs by simp
qed (simp add: requests_def)

lemma writes_subscribe_loop:
  assumes "drop i fs = gs" "drop i qs = rs" "length gs = n" "length rs = n" "list_all mstr_ok gs"
  shows "writes (subscribe_write_loop n i fs qs) (concat (map enc_request (requests gs rs)))"
  using assms
proof (induction n arbitrary: i gs rs)
  case 0
  then show ?case by (simp add: requests_def writes_def)
next
  case (Suc n)
  then obtain g gs' r rs' where gs: "gs = g # gs'" and rs: "rs = r # rs'" by (metis length_Suc_conv)
  have "writes (subscribe_write_loop n (i + 1) fs qs) (concat (map enc_request (requests gs' rs')))"
    using Suc.prems gs rs drop_Suc_drop [of i fs g gs'] drop_Suc_drop [of i qs r rs'] by (intro Suc.IH) simp_all
  moreover have "writes (\<lambda>st. writeMQTTString st g) (enc_str (mstr_bytes g))"
    using Suc.prems(5) gs by (intro writes_intros) simp
  ultimately have "writes (\<lambda>st. writeMQTTString st g \<bind> (\<lambda>st. writeChar st (word_of_int r) \<bind>
      subscribe_write_loop n (i + 1) fs qs))
    (enc_str (mstr_bytes g) @ [word_of_int r] @ concat (map enc_request (requests gs' rs')))"
    by (intro writes_bind writes_writeChar)
  moreover have "load fs i = Some g" "load qs i = Some r" using Suc.prems(1,2) gs rs by simp_all
  ultimately show ?case by (simp add: gs rs)
qed

lemma serialize_subscribe:
  assumes fs: "list_all mstr_ok fs" "length qs = length fs"
    and n: "length (subscribe_body packetid (requests fs qs)) < 268435456" and buf: "buflen \<le> int (length buf)"
  shows "MQTTSerialize_subscribe buf buflen dup packetid (int (length fs)) fs qs =
    (if fits (length (subscribe_body packetid (requests fs qs))) buflen
     then Some (int (length (subscribe_packet dup packetid (requests fs qs))),
                patch buf 0 (subscribe_packet dup packetid (requests fs qs)))
     else Some (MQTTPACKET_BUFFER_TOO_SHORT, buf))"
proof -
  define body where "body = subscribe_body packetid (requests fs qs)"
  define rem where "rem = length body"
  let ?h = "header_byte (with_header SUBSCRIBE dup 1)"
  have "subscribe_length_loop (length fs) 0 fs 2 =
      Some (2 + int (length (concat (map enc_request (requests fs qs)))))"
    using fs n by (intro subscribe_length_loop_ok) (simp_all add: subscribe_body_def int_max_def)
  then have len: "MQTTSerialize_subscribeLength (int (length fs)) fs = Some (int rem)"
    by (simp add: MQTTSerialize_subscribeLength_def rem_def body_def subscribe_body_def)
  have "writes (subscribe_write_loop (length fs) 0 fs qs) (concat (map enc_request (requests fs qs)))"
    using fs by (intro writes_subscribe_loop) simp_all
  then have w: "writes (\<lambda>st. writeChar st ?h \<bind> (\<lambda>st. write_remaining_length st (int rem) \<bind>
      (\<lambda>st. writeInt st (uint packetid) \<bind> subscribe_write_loop (length fs) 0 fs qs))) (?h # enc_len rem @ body)"
    using writes_bind [OF writes_writeChar [of ?h] writes_bind [OF writes_remaining_length [of rem]
      writes_bind [OF writes_writeInt_u16 [of packetid]]]]
    by (simp add: body_def subscribe_body_def)
  from guarded_serialize [OF n [folded body_def, folded rem_def] buf w rem_def [symmetric]] show ?thesis
    by (simp only: MQTTSerialize_subscribe_def len subscribe_packet_def body_def [symmetric] rem_def [symmetric]
        with_header_def nat_int Let_def bind.bind_lunit bind_assoc)
qed

lemma unsubscribe_length_loop_ok:
  assumes "drop i fs = gs" "length gs = n" "list_all mstr_ok gs" "0 \<le> len"
    and "len + int (length (concat (map enc_str (map mstr_bytes gs)))) \<le> int_max"
  shows "unsubscribe_length_loop n i fs len = Some (len + int (length (concat (map enc_str (map mstr_bytes gs)))))"
  using assms
proof (induction n arbitrary: i gs len)
  case (Suc n)
  then obtain g gs' where gs: "gs = g # gs'" by (metis length_Suc_conv)
  let ?l = "2 + int (length (mstr_bytes g))"
  from Suc.prems(3) gs have g: "mstr_ok g" by simp
  have bound: "len + ?l + int (length (concat (map enc_str (map mstr_bytes gs')))) \<le> int_max"
    using Suc.prems(5) by (simp add: gs)
  have "unsubscribe_length_loop n (i + 1) fs (len + ?l) =
      Some (len + ?l + int (length (concat (map enc_str (map mstr_bytes gs')))))"
    using Suc.prems bound gs drop_Suc_drop [of i fs g gs'] by (intro Suc.IH) simp_all
  moreover have "c_add 2 (MQTTstrlen g) = Some ?l" "c_add len ?l = Some (len + ?l)"
    using g Suc.prems(4) bound mstr_okD [OF g] by (simp_all add: int_min_def int_max_def)
  ultimately show ?case using Suc.prems(1) gs by simp
qed simp

lemma writes_unsubscribe_loop:
  assumes "drop i fs = gs" "length gs = n" "list_all mstr_ok gs"
  shows "writes (unsubscribe_write_loop n i fs) (concat (map enc_str (map mstr_bytes gs)))"
  using assms
proof (induction n arbitrary: i gs)
  case 0
  then show ?case by (simp add: writes_def)
next
  case (Suc n)
  then obtain g gs' where gs: "gs = g # gs'" by (metis length_Suc_conv)
  have "writes (unsubscribe_write_loop n (i + 1) fs) (concat (map enc_str (map mstr_bytes gs')))"
    using Suc.prems gs drop_Suc_drop [of i fs g gs'] by (intro Suc.IH) simp_all
  moreover have "writes (\<lambda>st. writeMQTTString st g) (enc_str (mstr_bytes g))"
    using Suc.prems(3) gs by (intro writes_intros) simp
  ultimately have "writes (\<lambda>st. writeMQTTString st g \<bind> unsubscribe_write_loop n (i + 1) fs)
    (enc_str (mstr_bytes g) @ concat (map enc_str (map mstr_bytes gs')))"
    by (intro writes_bind)
  moreover have "load fs i = Some g" using Suc.prems(1) gs by simp
  ultimately show ?case by (simp add: gs)
qed

lemma serialize_unsubscribe:
  assumes fs: "list_all mstr_ok fs"
    and n: "length (unsubscribe_body packetid (map mstr_bytes fs)) < 268435456" and buf: "buflen \<le> int (length buf)"
  shows "MQTTSerialize_unsubscribe buf buflen dup packetid (int (length fs)) fs =
    (if fits (length (unsubscribe_body packetid (map mstr_bytes fs))) buflen
     then Some (int (length (unsubscribe_packet dup packetid (map mstr_bytes fs))),
                patch buf 0 (unsubscribe_packet dup packetid (map mstr_bytes fs)))
     else Some (MQTTPACKET_BUFFER_TOO_SHORT, buf))"
proof -
  define body where "body = unsubscribe_body packetid (map mstr_bytes fs)"
  define rem where "rem = length body"
  let ?h = "header_byte (with_header UNSUBSCRIBE dup 1)"
  have "unsubscribe_length_loop (length fs) 0 fs 2 =
      Some (2 + int (length (concat (map enc_str (map mstr_bytes fs)))))"
    using fs n by (intro unsubscribe_length_loop_ok) (simp_all add: unsubscribe_body_def int_max_def)
  then have len: "MQTTSerialize_unsubscribeLength (int (length fs)) fs = Some (int rem)"
    by (simp add: MQTTSerialize_unsubscribeLength_def rem_def body_def unsubscribe_body_def)
  have "writes (unsubscribe_write_loop (length fs) 0 fs) (concat (map enc_str (map mstr_bytes fs)))"
    using fs by (intro writes_unsubscribe_loop) simp_all
  then have w: "writes (\<lambda>st. writeChar st ?h \<bind> (\<lambda>st. write_remaining_length st (int rem) \<bind>
      (\<lambda>st. writeInt st (uint packetid) \<bind> unsubscribe_write_loop (length fs) 0 fs))) (?h # enc_len rem @ body)"
    using writes_bind [OF writes_writeChar [of ?h] writes_bind [OF writes_remaining_length [of rem]
      writes_bind [OF writes_writeInt_u16 [of packetid]]]]
    by (simp add: body_def unsubscribe_body_def)
  from guarded_serialize [OF n [folded body_def, folded rem_def] buf w rem_def [symmetric]] show ?thesis
    by (simp only: MQTTSerialize_unsubscribe_def len unsubscribe_packet_def body_def [symmetric] rem_def [symmetric]
        with_header_def nat_int Let_def bind.bind_lunit bind_assoc)
qed

section \<open>SUBACK and UNSUBACK, server side\<close>

primrec suback_write_loop :: "nat \<Rightarrow> nat \<Rightarrow> int list \<Rightarrow> cursor \<Rightarrow> cursor option" where
  "suback_write_loop 0 i grantedQoSs st = Some st"
| "suback_write_loop (Suc n) i grantedQoSs st =
     do { q \<leftarrow> load grantedQoSs i;
          st \<leftarrow> writeChar st (word_of_int q);
          suback_write_loop n (i + 1) grantedQoSs st }"

definition MQTTSerialize_suback :: "bytes \<Rightarrow> int \<Rightarrow> u16 \<Rightarrow> int \<Rightarrow> int list \<Rightarrow> serialized" where
  "MQTTSerialize_suback buf buflen packetid count grantedQoSs =
     do { n \<leftarrow> c_add 2 count;
          if buflen < n then Some (MQTTPACKET_BUFFER_TOO_SHORT, buf)
          else do {
            let header = header_zero\<lparr>h_type := type_code SUBACK\<rparr>;
            st \<leftarrow> writeChar (buf, 0) (header_byte header);
            st \<leftarrow> write_remaining_length st n;
            st \<leftarrow> writeInt st (uint packetid);
            st \<leftarrow> suback_write_loop (nat count) 0 grantedQoSs st;
            finish st } }"

definition MQTTSerialize_unsuback :: "bytes \<Rightarrow> int \<Rightarrow> u16 \<Rightarrow> serialized" where
  "MQTTSerialize_unsuback buf buflen packetid =
     (if buflen < 2 then Some (MQTTPACKET_BUFFER_TOO_SHORT, buf)
      else do {
        let header = header_zero\<lparr>h_type := type_code UNSUBACK\<rparr>;
        st \<leftarrow> writeChar (buf, 0) (header_byte header);
        st \<leftarrow> write_remaining_length st 2;
        st \<leftarrow> writeInt st (uint packetid);
        finish st })"

definition suback_packet :: "u16 \<Rightarrow> u8 list \<Rightarrow> bytes" where
  "suback_packet packetid qs =
     header_byte (with_header SUBACK 0 0) # enc_len (2 + length qs) @ enc16 (unat packetid) @ qs"

definition unsuback_packet :: "u16 \<Rightarrow> bytes" where
  "unsuback_packet packetid = header_byte (with_header UNSUBACK 0 0) # enc_len 2 @ enc16 (unat packetid)"

lemma with_header_zero: "header_zero\<lparr>h_type := type_code t\<rparr> = with_header t 0 0"
  by (simp add: with_header_def header_zero_def)

lemma writes_suback_loop:
  assumes "drop i qs = rs" "length rs = n"
  shows "writes (suback_write_loop n i qs) (map word_of_int rs)"
  using assms
proof (induction n arbitrary: i rs)
  case 0
  then show ?case by (simp add: writes_def)
next
  case (Suc n)
  then obtain r rs' where rs: "rs = r # rs'" by (metis length_Suc_conv)
  have "writes (suback_write_loop n (i + 1) qs) (map word_of_int rs')"
    using Suc.prems rs drop_Suc_drop [of i qs r rs'] by (intro Suc.IH) simp_all
  then have "writes (\<lambda>st. writeChar st (word_of_int r) \<bind> suback_write_loop n (i + 1) qs)
      ([word_of_int r] @ map word_of_int rs')"
    by (intro writes_bind writes_writeChar)
  moreover have "load qs i = Some r" using Suc.prems(1) rs by simp
  ultimately show ?case by (simp add: rs)
qed

text \<open>Both check for less room than the packet needs: they run over a buffer of exactly the size
  they ask for.\<close>

lemma serialize_suback:
  assumes "int (length qs) + 2 \<le> int_max"
  shows "MQTTSerialize_suback buf buflen packetid (int (length qs)) qs =
    (if buflen < 2 + int (length qs) then Some (MQTTPACKET_BUFFER_TOO_SHORT, buf)
     else let pkt = suback_packet packetid (map word_of_int qs)
       in if length pkt \<le> length buf then Some (int (length pkt), patch buf 0 pkt) else None)"
proof -
  let ?h = "header_byte (with_header SUBACK 0 0)"
  have w: "writes (\<lambda>st. writeChar st ?h \<bind> (\<lambda>st. write_remaining_length st (int (2 + length qs)) \<bind>
      (\<lambda>st. writeInt st (uint packetid) \<bind> suback_write_loop (length qs) 0 qs)))
    (suback_packet packetid (map word_of_int qs))"
    using writes_bind [OF writes_writeChar [of ?h] writes_bind [OF writes_remaining_length [of "2 + length qs"]
      writes_bind [OF writes_writeInt_u16 [of packetid] writes_suback_loop [of 0 qs qs "length qs"]]]]
    by (simp add: suback_packet_def)
  have "c_add 2 (int (length qs)) = Some (int (2 + length qs))"
    using assms by (simp add: int_min_def)
  then show ?thesis
    using writes_finish [OF w, of buf]
    by (simp add: MQTTSerialize_suback_def with_header_zero bind_assoc Let_def)
qed

lemma serialize_unsuback:
  "MQTTSerialize_unsuback buf buflen packetid =
    (if buflen < 2 then Some (MQTTPACKET_BUFFER_TOO_SHORT, buf)
     else if 4 \<le> length buf then Some (4, patch buf 0 (unsuback_packet packetid)) else None)"
proof -
  let ?h = "header_byte (with_header UNSUBACK 0 0)"
  have w: "writes (\<lambda>st. writeChar st ?h \<bind> (\<lambda>st. write_remaining_length st 2 \<bind>
      (\<lambda>st. writeInt st (uint packetid)))) (unsuback_packet packetid)"
    using writes_bind [OF writes_writeChar [of ?h] writes_bind [OF writes_remaining_2 writes_writeInt_u16 [of packetid]]]
    by (simp add: unsuback_packet_def)
  have "length (unsuback_packet packetid) = 4" by (simp add: unsuback_packet_def enc_len_small)
  with writes_finish [OF w, of buf] show ?thesis
    by (simp add: MQTTSerialize_unsuback_def with_header_zero bind_assoc Let_def)
qed

end
