(* ===== verification/MQTTSubscribeDecode.thy ===== *)
theory MQTTSubscribeDecode
  imports MQTTSubscribe
begin

text \<open>
  Reading subscription packets: \<open>MQTTDeserialize_subscribe\<close>, \<open>MQTTDeserialize_unsubscribe\<close>,
  \<open>MQTTDeserialize_suback\<close> and \<open>MQTTDeserialize_unsuback\<close>. They fill arrays of the caller, which
  are lists here, so that a packet with more items than an array has elements is an invalid
  access; the output parameters are a record.
\<close>

section \<open>SUBSCRIBE and UNSUBSCRIBE, server side\<close>

lemma readMQTTLenString_advances:
  "readMQTTLenString s m p e = Some (ok, s', p') \<Longrightarrow> ok \<noteq> 0 \<Longrightarrow> p + 2 \<le> p'"
  by (auto simp: readMQTTLenString_def readInt_def Let_def bind_eq_Some_conv split: if_splits)

record subscribe_out =
  so_dup :: u8
  so_packetid :: u16
  so_count :: int
  so_topicFilters :: "MQTTString list"
  so_requestedQoSs :: "int list"

text \<open>The loop, from the position \<open>curdata\<close> with \<open>*count = k\<close>; the first component of the
  result is 0 for a jump to \<open>exit\<close>.\<close>

function subscribe_read_loop :: "bytes \<Rightarrow> nat \<Rightarrow> nat \<Rightarrow> nat \<Rightarrow> MQTTString list \<Rightarrow> int list \<Rightarrow>
    (int \<times> nat \<times> MQTTString list \<times> int list) option" where
  "subscribe_read_loop buf enddata curdata k fs qs =
     (if curdata < enddata
      then case load fs k of None \<Rightarrow> None | Some f \<Rightarrow>
        (case readMQTTLenString f buf curdata enddata of None \<Rightarrow> None | Some (ok, f, cur) \<Rightarrow>
          if ok = 0 then Some (0, k, fs[k := f], qs)
          else if enddata \<le> cur then Some (0, k, fs[k := f], qs)
          else case readChar buf cur of None \<Rightarrow> None | Some (c, cur') \<Rightarrow>
            (case store qs k (sint c) of None \<Rightarrow> None | Some qs' \<Rightarrow>
              subscribe_read_loop buf enddata (cur + 1) (k + 1) (fs[k := f]) qs'))
      else Some (1, k, fs, qs))"
  by pat_completeness auto
termination
  by (relation "measure (\<lambda>(buf, enddata, curdata, k, fs, qs). enddata - curdata)")
    (auto dest!: readMQTTLenString_advances)

declare subscribe_read_loop.simps [simp del]

definition MQTTDeserialize_subscribe ::
    "subscribe_out \<Rightarrow> int \<Rightarrow> bytes \<Rightarrow> int \<Rightarrow> (int \<times> subscribe_out) option" where
  "MQTTDeserialize_subscribe out maxcount buf buflen =
     do { (b, curdata) \<leftarrow> readChar buf 0;
          let header = header_bits b;
          if h_type header \<noteq> type_code SUBSCRIBE then Some (-1, out)
          else do {
            let out = out\<lparr>so_dup := ucast (h_dup header)\<rparr>;
            (rc, mylen) \<leftarrow> MQTTPacket_decodeBuf buf curdata;
            let curdata = curdata + nat rc;
            let enddata = curdata + nat mylen;
            (i, curdata) \<leftarrow> readInt buf curdata;
            let out = out\<lparr>so_packetid := word_of_int i\<rparr>;
            (ok, k, fs, qs) \<leftarrow>
              subscribe_read_loop buf enddata curdata 0 (so_topicFilters out) (so_requestedQoSs out);
            Some (if ok = 0 then rc else 1,
                  out\<lparr>so_count := int k, so_topicFilters := fs, so_requestedQoSs := qs\<rparr>) } }"

record unsubscribe_out =
  uo_dup :: u8
  uo_packetid :: u16
  uo_count :: int
  uo_topicFilters :: "MQTTString list"

function unsubscribe_read_loop :: "bytes \<Rightarrow> nat \<Rightarrow> nat \<Rightarrow> nat \<Rightarrow> MQTTString list \<Rightarrow>
    (int \<times> nat \<times> MQTTString list) option" where
  "unsubscribe_read_loop buf enddata curdata k fs =
     (if curdata < enddata
      then case load fs k of None \<Rightarrow> None | Some f \<Rightarrow>
        (case readMQTTLenString f buf curdata enddata of None \<Rightarrow> None | Some (ok, f, cur) \<Rightarrow>
          if ok = 0 then Some (0, k, fs[k := f])
          else unsubscribe_read_loop buf enddata cur (k + 1) (fs[k := f]))
      else Some (1, k, fs))"
  by pat_completeness auto
termination
  by (relation "measure (\<lambda>(buf, enddata, curdata, k, fs). enddata - curdata)")
    (auto dest!: readMQTTLenString_advances)

declare unsubscribe_read_loop.simps [simp del]

definition MQTTDeserialize_unsubscribe ::
    "unsubscribe_out \<Rightarrow> int \<Rightarrow> bytes \<Rightarrow> int \<Rightarrow> (int \<times> unsubscribe_out) option" where
  "MQTTDeserialize_unsubscribe out maxcount buf len =
     do { (b, curdata) \<leftarrow> readChar buf 0;
          let header = header_bits b;
          if h_type header \<noteq> type_code UNSUBSCRIBE then Some (0, out)
          else do {
            let out = out\<lparr>uo_dup := ucast (h_dup header)\<rparr>;
            (rc, mylen) \<leftarrow> MQTTPacket_decodeBuf buf curdata;
            let curdata = curdata + nat rc;
            let enddata = curdata + nat mylen;
            (i, curdata) \<leftarrow> readInt buf curdata;
            let out = out\<lparr>uo_packetid := word_of_int i\<rparr>;
            (ok, k, fs) \<leftarrow> unsubscribe_read_loop buf enddata curdata 0 (uo_topicFilters out);
            Some (if ok = 0 then rc else 1, out\<lparr>uo_count := int k, uo_topicFilters := fs\<rparr>) } }"

text \<open>An array with the elements from \<open>k\<close> on replaced by ones that stand for \<open>ts\<close>.\<close>

definition filled :: "nat \<Rightarrow> bytes list \<Rightarrow> MQTTString list \<Rightarrow> MQTTString list \<Rightarrow> bool" where
  "filled k ts fs fs' \<longleftrightarrow> (\<exists>gs. fs' = patch fs k gs \<and> map mstr_bytes gs = ts)"

lemma filled_Nil: "filled k [] fs fs' \<longleftrightarrow> fs' = fs"
  by (auto simp: filled_def)

lemma list_update_patch: "k < length fs \<Longrightarrow> fs[k := f] = patch fs k [f]"
  by (simp add: patch_def upd_conv_take_nth_drop)

lemma filled_Cons:
  assumes "k + Suc (length ts) \<le> length fs" and "filled (k + 1) ts (fs[k := f]) fs'" and "mstr_bytes f = t"
  shows "filled k (t # ts) fs fs'"
proof -
  obtain gs where gs: "fs' = patch (fs[k := f]) (k + 1) gs" "map mstr_bytes gs = ts"
    using assms(2) by (auto simp: filled_def)
  have "length gs = length ts" using gs(2) by (metis length_map)
  then have "fs' = patch fs k ([f] @ gs)"
    using gs(1) assms(1) patch_patch [of k "[f]" gs fs] by (simp add: list_update_patch)
  then show ?thesis using gs(2) assms(3) unfolding filled_def by (intro exI [of _ "f # gs"]) simp
qed

lemma subscribe_read_loop_ok:
  assumes "drop c buf = concat (map enc_request rs) @ rest" "e = c + length (concat (map enc_request rs))"
    and "k + length rs \<le> length fs" "k + length rs \<le> length qs" "list_all (\<lambda>r. length (fst r) < 65536) rs"
  shows "\<exists>fs'. subscribe_read_loop buf e c k fs qs =
      Some (1, k + length rs, fs', patch qs k (map (\<lambda>r. sint (snd r)) rs)) \<and> filled k (map fst rs) fs fs'"
  using assms
proof (induction rs arbitrary: c k fs qs)
  case Nil
  then show ?case by (simp add: subscribe_read_loop.simps [of _ _ c] filled_Nil)
next
  case (Cons r rs)
  obtain t q where r: "r = (t, q)" by (cases r)
  let ?tail = "q # concat (map enc_request rs) @ rest"
  from Cons.prems(1) r have d: "drop c buf = enc_str t @ ?tail" by simp
  from Cons.prems(5) r have lt: "length t < 65536" by simp
  from Cons.prems(2) r have e: "e = c + 2 + length t + 1 + length (concat (map enc_request rs))" by simp
  have k: "k < length fs" "k < length qs" using Cons.prems(3,4) by simp_all
  let ?f = "read_str (fs ! k) t ?tail" and ?c = "c + 2 + length t"
  have s: "readMQTTLenString (fs ! k) buf c e = Some (1, ?f, ?c)" "drop ?c buf = ?tail"
    using read_str_step [OF d lt, of e] e by simp_all
  have q: "readChar buf ?c = Some (q, ?c + 1)" by (rule readChar_drop [OF s(2)])
  have "drop (?c + 1) buf = concat (map enc_request rs) @ rest" using drop_Suc_drop [OF s(2)] by simp
  then obtain fs' where fs': "subscribe_read_loop buf e (?c + 1) (k + 1) (fs[k := ?f]) (qs[k := sint q]) =
      Some (1, k + 1 + length rs, fs', patch (qs[k := sint q]) (k + 1) (map (\<lambda>r. sint (snd r)) rs))"
    "filled (k + 1) (map fst rs) (fs[k := ?f]) fs'"
    using Cons.IH [of "?c + 1" "k + 1" "fs[k := ?f]" "qs[k := sint q]"] Cons.prems(3,4,5) e by auto
  have "patch (qs[k := sint q]) (k + 1) (map (\<lambda>r. sint (snd r)) rs) = patch qs k (map (\<lambda>r. sint (snd r)) (r # rs))"
    using patch_patch [of k "[sint q]" "map (\<lambda>r. sint (snd r)) rs" qs] Cons.prems(4) k r by (simp add: list_update_patch)
  moreover have "filled k (map fst (r # rs)) fs fs'"
    using filled_Cons [OF _ fs'(2), of t] Cons.prems(3) r by simp
  ultimately show ?case
    using s(1) q k e fs'(1) by (simp add: subscribe_read_loop.simps [of _ _ c] store_def)
qed

lemma unsubscribe_read_loop_ok:
  assumes "drop c buf = concat (map enc_str ts) @ rest" "e = c + length (concat (map enc_str ts))"
    and "k + length ts \<le> length fs" "list_all (\<lambda>t. length t < 65536) ts"
  shows "\<exists>fs'. unsubscribe_read_loop buf e c k fs = Some (1, k + length ts, fs') \<and> filled k ts fs fs'"
  using assms
proof (induction ts arbitrary: c k fs)
  case Nil
  then show ?case by (simp add: unsubscribe_read_loop.simps [of _ _ c] filled_Nil)
next
  case (Cons t ts)
  let ?tail = "concat (map enc_str ts) @ rest"
  from Cons.prems(1) have d: "drop c buf = enc_str t @ ?tail" by simp
  from Cons.prems(4) have lt: "length t < 65536" by simp
  from Cons.prems(2) have e: "e = c + 2 + length t + length (concat (map enc_str ts))" by simp
  have k: "k < length fs" using Cons.prems(3) by simp
  let ?f = "read_str (fs ! k) t ?tail" and ?c = "c + 2 + length t"
  have s: "readMQTTLenString (fs ! k) buf c e = Some (1, ?f, ?c)" "drop ?c buf = ?tail"
    using read_str_step [OF d lt, of e] e by simp_all
  obtain fs' where fs': "unsubscribe_read_loop buf e ?c (k + 1) (fs[k := ?f]) = Some (1, k + 1 + length ts, fs')"
    "filled (k + 1) ts (fs[k := ?f]) fs'"
    using Cons.IH [of ?c "k + 1" "fs[k := ?f]"] Cons.prems(3,4) e s(2) by auto
  have "filled k (t # ts) fs fs'" using filled_Cons [OF _ fs'(2), of t] Cons.prems(3) by simp
  then show ?case using s(1) k e fs'(1) by (simp add: unsubscribe_read_loop.simps [of _ _ c])
qed

text \<open>Both read back what the client side writes, as long as the arrays have room.\<close>

lemma deserialize_subscribe:
  assumes buf: "buf = subscribe_packet dup packetid rs @ rest"
    and n: "length (subscribe_body packetid rs) < 268435456" and "dup \<le> 1"
    and room: "length rs \<le> length (so_topicFilters out)" "length rs \<le> length (so_requestedQoSs out)"
    and rs: "list_all (\<lambda>r. length (fst r) < 65536) rs"
  shows "\<exists>fs. MQTTDeserialize_subscribe out maxcount buf buflen =
      Some (1, out\<lparr>so_dup := dup, so_packetid := packetid, so_count := int (length rs), so_topicFilters := fs,
        so_requestedQoSs := patch (so_requestedQoSs out) 0 (map (\<lambda>r. sint (snd r)) rs)\<rparr>) \<and>
    filled 0 (map fst rs) (so_topicFilters out) fs"
proof -
  define body where "body = subscribe_body packetid rs"
  define L where "L = length (enc_len (length body))"
  define c1 where "c1 = Suc L"
  have d: "drop 0 buf = header_byte (with_header SUBSCRIBE dup 1) # enc_len (length body) @ body @ rest"
    using buf by (simp add: subscribe_packet_def body_def)
  note start = decode_body [OF d n [folded body_def], folded L_def, unfolded add_0 plus_1_eq_Suc add_Suc,
    folded One_nat_def c1_def]
  have d1: "drop c1 buf = enc16 (unat packetid) @ concat (map enc_request rs) @ rest"
    using start(3) by (simp add: body_def subscribe_body_def)
  have int: "readInt buf c1 = Some (int (unat packetid), c1 + 2)"
    using readInt_enc16 [OF d1] unsigned_less [of packetid] by simp
  have d2: "drop (c1 + 2) buf = concat (map enc_request rs) @ rest"
    using drop_append_drop [OF d1] by simp
  have e: "Suc (L + length body) = c1 + 2 + length (concat (map enc_request rs))"
    by (simp add: c1_def body_def subscribe_body_def)
  obtain fs where "subscribe_read_loop buf (Suc (L + length body)) (c1 + 2) 0 (so_topicFilters out) (so_requestedQoSs out) =
      Some (1, length rs, fs, patch (so_requestedQoSs out) 0 (map (\<lambda>r. sint (snd r)) rs))"
    "filled 0 (map fst rs) (so_topicFilters out) fs"
    using subscribe_read_loop_ok [OF d2 e, of 0 "so_topicFilters out" "so_requestedQoSs out"] room rs by auto
  then show ?thesis
    using start(1,2) int c1_def assms(3)
    by (intro exI [of _ fs])
      (simp add: MQTTDeserialize_subscribe_def with_header_def header_zero_def ucast_bit Let_def)
qed

lemma deserialize_unsubscribe:
  assumes buf: "buf = unsubscribe_packet dup packetid ts @ rest"
    and n: "length (unsubscribe_body packetid ts) < 268435456" and "dup \<le> 1"
    and room: "length ts \<le> length (uo_topicFilters out)" and ts: "list_all (\<lambda>t. length t < 65536) ts"
  shows "\<exists>fs. MQTTDeserialize_unsubscribe out maxcount buf buflen =
      Some (1, out\<lparr>uo_dup := dup, uo_packetid := packetid, uo_count := int (length ts), uo_topicFilters := fs\<rparr>) \<and>
    filled 0 ts (uo_topicFilters out) fs"
proof -
  define body where "body = unsubscribe_body packetid ts"
  define L where "L = length (enc_len (length body))"
  define c1 where "c1 = Suc L"
  have d: "drop 0 buf = header_byte (with_header UNSUBSCRIBE dup 1) # enc_len (length body) @ body @ rest"
    using buf by (simp add: unsubscribe_packet_def body_def)
  note start = decode_body [OF d n [folded body_def], folded L_def, unfolded add_0 plus_1_eq_Suc add_Suc,
    folded One_nat_def c1_def]
  have d1: "drop c1 buf = enc16 (unat packetid) @ concat (map enc_str ts) @ rest"
    using start(3) by (simp add: body_def unsubscribe_body_def)
  have int: "readInt buf c1 = Some (int (unat packetid), c1 + 2)"
    using readInt_enc16 [OF d1] unsigned_less [of packetid] by simp
  have d2: "drop (c1 + 2) buf = concat (map enc_str ts) @ rest"
    using drop_append_drop [OF d1] by simp
  have e: "Suc (L + length body) = c1 + 2 + length (concat (map enc_str ts))"
    by (simp add: c1_def body_def unsubscribe_body_def)
  obtain fs where "unsubscribe_read_loop buf (Suc (L + length body)) (c1 + 2) 0 (uo_topicFilters out) =
      Some (1, length ts, fs)" "filled 0 ts (uo_topicFilters out) fs"
    using unsubscribe_read_loop_ok [OF d2 e, of 0 "uo_topicFilters out"] room ts by auto
  then show ?thesis
    using start(1,2) int c1_def assms(3)
    by (intro exI [of _ fs])
      (simp add: MQTTDeserialize_unsubscribe_def with_header_def header_zero_def ucast_bit Let_def)
qed

section \<open>SUBACK and UNSUBACK, client side\<close>

record suback_out =
  ko_packetid :: u16
  ko_count :: int
  ko_grantedQoSs :: "int list"

function suback_read_loop :: "bytes \<Rightarrow> nat \<Rightarrow> int \<Rightarrow> nat \<Rightarrow> nat \<Rightarrow> int list \<Rightarrow> (int \<times> nat \<times> int list) option" where
  "suback_read_loop buf enddata maxcount curdata k qs =
     (if curdata < enddata
      then if int k > maxcount then Some (-1, k, qs)
           else case readChar buf curdata of None \<Rightarrow> None | Some (c, cur) \<Rightarrow>
             (case store qs k (sint c) of None \<Rightarrow> None | Some qs' \<Rightarrow>
               suback_read_loop buf enddata maxcount (curdata + 1) (k + 1) qs')
      else Some (1, k, qs))"
  by pat_completeness auto
termination
  by (relation "measure (\<lambda>(buf, enddata, maxcount, curdata, k, qs). enddata - curdata)") auto

declare suback_read_loop.simps [simp del]

definition MQTTDeserialize_suback :: "suback_out \<Rightarrow> int \<Rightarrow> bytes \<Rightarrow> int \<Rightarrow> (int \<times> suback_out) option" where
  "MQTTDeserialize_suback out maxcount buf buflen =
     do { (b, curdata) \<leftarrow> readChar buf 0;
          if h_type (header_bits b) \<noteq> type_code SUBACK then Some (0, out)
          else do {
            (rc, mylen) \<leftarrow> MQTTPacket_decodeBuf buf curdata;
            let curdata = curdata + nat rc;
            let enddata = curdata + nat mylen;
            if int enddata - int curdata < 2 then Some (rc, out)
            else do {
              (i, curdata) \<leftarrow> readInt buf curdata;
              (rc, k, qs) \<leftarrow> suback_read_loop buf enddata maxcount curdata 0 (ko_grantedQoSs out);
              Some (rc, out\<lparr>ko_packetid := word_of_int i, ko_count := int k, ko_grantedQoSs := qs\<rparr>) } } }"

definition MQTTDeserialize_unsuback :: "u16 \<Rightarrow> bytes \<Rightarrow> int \<Rightarrow> (int \<times> u16) option" where
  "MQTTDeserialize_unsuback packetid buf buflen =
     do { (rc, out) \<leftarrow> MQTTDeserialize_ack \<lparr>ao_packettype = 0, ao_dup = 0, ao_packetid = packetid\<rparr> buf buflen;
          let rc = (if ao_packettype out = of_nat (msg_code UNSUBACK) then 1 else rc);
          Some (rc, ao_packetid out) }"

text \<open>The loop stops with -1 only after \<open>maxcount + 1\<close> stores: an array of \<open>maxcount\<close> elements is
  overrun by the first code beyond it.\<close>

lemma suback_read_loop_cases:
  assumes "drop c buf = gs @ rest" "e = c + length gs" "k \<le> length qs" "int (length qs) = maxcount"
  shows "suback_read_loop buf e maxcount c k qs =
    (if k + length gs \<le> length qs then Some (1, k + length gs, patch qs k (map sint gs)) else None)"
  using assms
proof (induction gs arbitrary: c k qs)
  case Nil
  then show ?case by (simp add: suback_read_loop.simps [of _ _ _ c])
next
  case (Cons g gs)
  from Cons.prems(1) have d: "drop c buf = g # gs @ rest" by simp
  note g = readChar_drop [OF d] and d' = drop_Suc_drop [OF d]
  have c: "c < e" using Cons.prems(2) by simp
  have le: "\<not> maxcount < int k" using Cons.prems(3,4) by simp
  show ?case
  proof (cases "k < length qs")
    case True
    let ?qs = "qs[k := sint g]"
    have IH: "suback_read_loop buf e maxcount (c + 1) (k + 1) ?qs =
      (if k + 1 + length gs \<le> length ?qs then Some (1, k + 1 + length gs, patch ?qs (k + 1) (map sint gs)) else None)"
      using Cons.IH [of "c + 1" "k + 1" ?qs] d' Cons.prems(2,4) True by simp
    have "patch ?qs (k + 1) (map sint gs) = patch qs k (map sint (g # gs))" if "k + 1 + length gs \<le> length qs"
      using patch_patch [of k "[sint g]" "map sint gs" qs] True that by (simp add: list_update_patch)
    then show ?thesis
      using IH g c True le by (simp add: suback_read_loop.simps [of _ _ _ c] store_def)
  next
    case False
    with Cons.prems(3) have "k = length qs" by simp
    then show ?thesis using g c le by (simp add: suback_read_loop.simps [of _ _ _ c] store_def)
  qed
qed

lemma deserialize_suback:
  assumes buf: "buf = suback_packet packetid gs @ rest" and n: "2 + length gs < 268435456"
    and max: "int (length (ko_grantedQoSs out)) = maxcount"
  shows "MQTTDeserialize_suback out maxcount buf buflen =
    (if length gs \<le> length (ko_grantedQoSs out)
     then Some (1, out\<lparr>ko_packetid := packetid, ko_count := int (length gs),
       ko_grantedQoSs := patch (ko_grantedQoSs out) 0 (map sint gs)\<rparr>)
     else None)"
proof -
  define body where "body = enc16 (unat packetid) @ gs"
  define L where "L = length (enc_len (length body))"
  define c1 where "c1 = Suc L"
  have lb: "length body = 2 + length gs" by (simp add: body_def)
  have d: "drop 0 buf = header_byte (with_header SUBACK 0 0) # enc_len (length body) @ body @ rest"
    using buf by (simp add: suback_packet_def lb body_def)
  have "length body < 268435456" using n lb by simp
  note start = decode_body [OF d this, folded L_def, unfolded add_0 plus_1_eq_Suc add_Suc, folded One_nat_def c1_def]
  have d1: "drop c1 buf = enc16 (unat packetid) @ gs @ rest" using start(3) by (simp add: body_def)
  have int: "readInt buf c1 = Some (int (unat packetid), c1 + 2)"
    using readInt_enc16 [OF d1] unsigned_less [of packetid] by simp
  have d2: "drop (c1 + 2) buf = gs @ rest" using drop_append_drop [OF d1] by simp
  have e: "Suc (L + length body) = c1 + 2 + length gs" by (simp add: c1_def lb)
  have "2 \<le> length body" using lb by simp
  then show ?thesis
    using start(1,2) int c1_def \<open>2 \<le> length body\<close> suback_read_loop_cases [OF d2 e, of 0 "ko_grantedQoSs out", OF le0 max]
    by (simp add: MQTTDeserialize_suback_def with_header_def header_zero_def Let_def)
qed

lemma ack_packet_unsuback: "unsuback_packet packetid = ack_packet (of_nat (msg_code UNSUBACK)) 0 packetid"
  by (simp add: unsuback_packet_def ack_packet_def with_header_def ack_header_def header_zero_def type_code_def)

lemma deserialize_unsuback:
  assumes "buf = unsuback_packet packetid @ rest"
  shows "MQTTDeserialize_unsuback p buf buflen = Some (1, packetid)"
proof -
  have "buf = ack_packet (of_nat (msg_code UNSUBACK)) 0 packetid @ rest"
    using assms by (simp only: ack_packet_unsuback)
  then have "MQTTDeserialize_ack out buf buflen =
      Some (1, out\<lparr>ao_dup := 0, ao_packettype := of_nat (msg_code UNSUBACK), ao_packetid := packetid\<rparr>)" for out
    by (rule deserialize_ack) simp_all
  then show ?thesis by (simp add: MQTTDeserialize_unsuback_def Let_def)
qed

end
