(* ===== verification/MQTTConnect.thy ===== *)
theory MQTTConnect
  imports MQTTPublish
begin

text \<open>
  Connecting: CONNECT, CONNACK, DISCONNECT and PINGREQ packets, from \<open>MQTTConnectClient.c\<close>,
  \<open>MQTTConnectServer.c\<close> and the types of \<open>MQTTConnect.h\<close>.
\<close>

section \<open>Types\<close>

record MQTTConnectFlags =
  cf_unused :: "1 word"
  cf_cleansession :: "1 word"
  cf_will :: "1 word"
  cf_willQoS :: "2 word"
  cf_willRetain :: "1 word"
  cf_password :: "1 word"
  cf_username :: "1 word"

definition connect_flags_byte :: "MQTTConnectFlags \<Rightarrow> u8" where
  "connect_flags_byte f = of_nat (unat (cf_unused f) + 2 * unat (cf_cleansession f) + 4 * unat (cf_will f) +
     8 * unat (cf_willQoS f) + 32 * unat (cf_willRetain f) + 64 * unat (cf_password f) +
     128 * unat (cf_username f))"

definition connect_flags_bits :: "u8 \<Rightarrow> MQTTConnectFlags" where
  "connect_flags_bits b = \<lparr>cf_unused = of_nat (unat b), cf_cleansession = of_nat (unat b div 2),
     cf_will = of_nat (unat b div 4), cf_willQoS = of_nat (unat b div 8), cf_willRetain = of_nat (unat b div 32),
     cf_password = of_nat (unat b div 64), cf_username = of_nat (unat b div 128)\<rparr>"

definition connect_flags_zero :: MQTTConnectFlags where
  "connect_flags_zero = \<lparr>cf_unused = 0, cf_cleansession = 0, cf_will = 0, cf_willQoS = 0, cf_willRetain = 0,
     cf_password = 0, cf_username = 0\<rparr>"

text \<open>In the acknowledgement's flags byte the unused bits come first, so that the flag is bit 7.\<close>

record MQTTConnackFlags =
  ka_unused :: "7 word"
  ka_sessionpresent :: "1 word"

definition connack_flags_byte :: "MQTTConnackFlags \<Rightarrow> u8" where
  "connack_flags_byte f = of_nat (unat (ka_unused f) + 128 * unat (ka_sessionpresent f))"

definition connack_flags_bits :: "u8 \<Rightarrow> MQTTConnackFlags" where
  "connack_flags_bits b = \<lparr>ka_unused = of_nat (unat b), ka_sessionpresent = of_nat (unat b div 128)\<rparr>"

record MQTTPacket_willOptions =
  w_struct_id :: bytes
  w_struct_version :: int
  w_topicName :: MQTTString
  w_message :: MQTTString
  w_retained :: u8
  w_qos :: u8

record MQTTPacket_connectData =
  c_struct_id :: bytes
  c_struct_version :: int
  c_MQTTVersion :: u8
  c_clientID :: MQTTString
  c_keepAliveInterval :: u16
  c_cleansession :: u8
  c_willFlag :: u8
  c_will :: MQTTPacket_willOptions
  c_username :: MQTTString
  c_password :: MQTTString

text \<open>The bytes of a C string literal.\<close>

definition ascii :: "string \<Rightarrow> bytes" where
  "ascii s = map of_char s"

definition MQTTPacket_willOptions_initializer :: MQTTPacket_willOptions where
  "MQTTPacket_willOptions_initializer = \<lparr>w_struct_id = ascii ''MQTW'', w_struct_version = 0,
     w_topicName = MQTTString_initializer, w_message = MQTTString_initializer, w_retained = 0, w_qos = 0\<rparr>"

definition MQTTPacket_connectData_initializer :: MQTTPacket_connectData where
  "MQTTPacket_connectData_initializer = \<lparr>c_struct_id = ascii ''MQTC'', c_struct_version = 0,
     c_MQTTVersion = 4, c_clientID = MQTTString_initializer, c_keepAliveInterval = 60, c_cleansession = 1,
     c_willFlag = 0, c_will = MQTTPacket_willOptions_initializer,
     c_username = MQTTString_initializer, c_password = MQTTString_initializer\<rparr>"

lemma nested_digits:
  fixes n :: nat
  assumes "n = x + 2 * y1" "y1 = c + 2 * y2" "y2 = w + 2 * y3" "y3 = q + 4 * y4" "y4 = r + 2 * y5" "y5 = p + 2 * u"
    and "x < 2" "c < 2" "w < 2" "q < 4" "r < 2" "p < 2" "u < 2"
  shows "n mod 2 = x" "n div 2 mod 2 = c" "n div 4 mod 2 = w" "n div 8 mod 4 = q" "n div 32 mod 2 = r"
    "n div 64 mod 2 = p" "n div 128 mod 2 = u"
proof -
  have step: "(a + 2 * y) mod 2 = a" "(a + 2 * y) div 2 = y" if "a < 2" for a y :: nat using that by simp_all
  have step4: "(a + 4 * y) mod 4 = a" "(a + 4 * y) div 4 = y" if "a < 4" for a y :: nat using that by simp_all
  have d: "n div 2 = y1" "n div 4 = y2" "n div 8 = y3" "n div 32 = y4" "n div 64 = y5" "n div 128 = u"
    using div_mult2_eq [of n 2 2] div_mult2_eq [of n 4 2] div_mult2_eq [of n 8 4]
      div_mult2_eq [of n 32 2] div_mult2_eq [of n 64 2] assms(7-13)
    by (simp_all only: assms(1-6) step step4 num_double mult_num_simps numeral_times_numeral)
  show "n mod 2 = x" "n div 2 mod 2 = c" "n div 4 mod 2 = w" "n div 8 mod 4 = q" "n div 32 mod 2 = r"
    "n div 64 mod 2 = p" "n div 128 mod 2 = u"
    unfolding d using assms(7-13) by (simp_all only: assms(1-6) step step4 mod_less)
qed

lemma connect_flags_bits_byte [simp]: "connect_flags_bits (connect_flags_byte f) = f"
proof -
  define x c w q r p u where defs: "x = unat (cf_unused f)" "c = unat (cf_cleansession f)" "w = unat (cf_will f)"
    "q = unat (cf_willQoS f)" "r = unat (cf_willRetain f)" "p = unat (cf_password f)" "u = unat (cf_username f)"
  have bounds: "x < 2" "c < 2" "w < 2" "q < 4" "r < 2" "p < 2" "u < 2"
    using unsigned_less [of "cf_unused f"] unsigned_less [of "cf_cleansession f"] unsigned_less [of "cf_will f"]
      unsigned_less [of "cf_willQoS f"] unsigned_less [of "cf_willRetain f"] unsigned_less [of "cf_password f"]
      unsigned_less [of "cf_username f"] by (simp_all add: defs)
  define n where "n = x + 2 * c + 4 * w + 8 * q + 32 * r + 64 * p + 128 * u"
  have b: "unat (connect_flags_byte f) = n"
    unfolding connect_flags_byte_def unat_of_nat_word defs [symmetric] n_def using bounds by simp
  have "n = x + 2 * (c + 2 * (w + 2 * (q + 4 * (r + 2 * (p + 2 * u)))))" by (simp add: n_def)
  note digits = nested_digits [OF this refl refl refl refl refl bounds]
  have "(of_nat n :: 1 word) = cf_unused f" "(of_nat (n div 2) :: 1 word) = cf_cleansession f"
    "(of_nat (n div 4) :: 1 word) = cf_will f" "(of_nat (n div 8) :: 2 word) = cf_willQoS f"
    "(of_nat (n div 32) :: 1 word) = cf_willRetain f" "(of_nat (n div 64) :: 1 word) = cf_password f"
    "(of_nat (n div 128) :: 1 word) = cf_username f"
    unfolding word_unat_eq_iff unat_of_nat_word defs [symmetric]
    by (simp_all only: len_num0 len_num1 len_bit0 len_bit1 power_one_right mult_1_right power2_eq_square digits)
      (simp_all add: digits)
  then show ?thesis
    unfolding connect_flags_bits_def b by (cases f) simp
qed

lemma connack_flags_bits_byte [simp]: "connack_flags_bits (connack_flags_byte f) = f"
proof -
  define x s where defs: "x = unat (ka_unused f)" "s = unat (ka_sessionpresent f)"
  have bounds: "x < 128" "s < 2"
    using unsigned_less [of "ka_unused f"] unsigned_less [of "ka_sessionpresent f"] by (simp_all add: defs)
  have b: "unat (connack_flags_byte f) = x + 128 * s"
    unfolding connack_flags_byte_def unat_of_nat_word defs [symmetric] using bounds by simp
  have "(x + 128 * s) mod 128 = x" "(x + 128 * s) div 128 mod 2 = s" using bounds by simp_all
  then have "(of_nat (x + 128 * s) :: 7 word) = ka_unused f" "(of_nat ((x + 128 * s) div 128) :: 1 word) = ka_sessionpresent f"
    unfolding word_unat_eq_iff unat_of_nat_word defs [symmetric] by simp_all
  then show ?thesis unfolding connack_flags_bits_def b by (cases f) simp
qed

section \<open>CONNECT, client side\<close>

text \<open>\<open>s.cstring || s.lenstring.data\<close>\<close>

definition mstr_given :: "MQTTString \<Rightarrow> bool" where
  "mstr_given s \<longleftrightarrow> cstring s \<noteq> None \<or> lenstring_data s \<noteq> None"

text \<open>\<open>len += MQTTstrlen(s)+2\<close>\<close>

definition add_strlen :: "int \<Rightarrow> MQTTString \<Rightarrow> int option" where
  "add_strlen len s = do { n \<leftarrow> c_add (MQTTstrlen s) 2; c_add len n }"

definition MQTTSerialize_connectLength :: "MQTTPacket_connectData \<Rightarrow> int option" where
  "MQTTSerialize_connectLength options =
     do { let len = (if c_MQTTVersion options = 3 then 12
                     else if c_MQTTVersion options = 4 then 10 else 0);
          len \<leftarrow> add_strlen len (c_clientID options);
          len \<leftarrow> (if c_willFlag options \<noteq> 0
                  then do { n \<leftarrow> c_add (MQTTstrlen (w_topicName (c_will options))) 2;
                            n \<leftarrow> add_strlen n (w_message (c_will options));
                            c_add len n }
                  else Some len);
          len \<leftarrow> (if mstr_given (c_username options) then add_strlen len (c_username options) else Some len);
          if mstr_given (c_password options) then add_strlen len (c_password options) else Some len }"

definition connect_flags :: "MQTTPacket_connectData \<Rightarrow> MQTTConnectFlags" where
  "connect_flags options =
     (let flags = connect_flags_zero;
          flags = flags\<lparr>cf_cleansession := ucast (c_cleansession options)\<rparr>;
          flags = flags\<lparr>cf_will := (if c_willFlag options \<noteq> 0 then 1 else 0)\<rparr>;
          flags = (if cf_will flags \<noteq> 0
                   then flags\<lparr>cf_willQoS := ucast (w_qos (c_will options)),
                              cf_willRetain := ucast (w_retained (c_will options))\<rparr>
                   else flags);
          flags = (if mstr_given (c_username options) then flags\<lparr>cf_username := 1\<rparr> else flags);
          flags = (if mstr_given (c_password options) then flags\<lparr>cf_password := 1\<rparr> else flags)
      in flags)"

definition MQTTSerialize_connect :: "bytes \<Rightarrow> int \<Rightarrow> MQTTPacket_connectData \<Rightarrow> serialized" where
  "MQTTSerialize_connect buf buflen options =
     do { len \<leftarrow> MQTTSerialize_connectLength options;
          L \<leftarrow> MQTTPacket_len len;
          if L > buflen then Some (MQTTPACKET_BUFFER_TOO_SHORT, buf)
          else do {
            let header = header_zero\<lparr>h_type := type_code CONNECT\<rparr>;
            st \<leftarrow> writeChar (buf, 0) (header_byte header);
            st \<leftarrow> write_remaining_length st len;
            st \<leftarrow> (if c_MQTTVersion options = 4
                   then do { st \<leftarrow> writeCString st (ascii ''MQTT''); writeChar st 4 }
                   else do { st \<leftarrow> writeCString st (ascii ''MQIsdp''); writeChar st 3 });
            let flags = connect_flags options;
            st \<leftarrow> writeChar st (connect_flags_byte flags);
            st \<leftarrow> writeInt st (uint (c_keepAliveInterval options));
            st \<leftarrow> writeMQTTString st (c_clientID options);
            st \<leftarrow> (if c_willFlag options \<noteq> 0
                   then do { st \<leftarrow> writeMQTTString st (w_topicName (c_will options));
                             writeMQTTString st (w_message (c_will options)) }
                   else Some st);
            st \<leftarrow> (if cf_username flags \<noteq> 0 then writeMQTTString st (c_username options) else Some st);
            st \<leftarrow> (if cf_password flags \<noteq> 0 then writeMQTTString st (c_password options) else Some st);
            finish st } }"

text \<open>The packet: variable header and payload.\<close>

definition connect_protocol :: "u8 \<Rightarrow> bytes" where
  "connect_protocol version = (if version = 4 then ascii ''MQTT'' else ascii ''MQIsdp'')"

definition connect_payload :: "MQTTPacket_connectData \<Rightarrow> bytes" where
  "connect_payload options =
     enc_str (mstr_bytes (c_clientID options)) @
     (if c_willFlag options \<noteq> 0
      then enc_str (mstr_bytes (w_topicName (c_will options))) @ enc_str (mstr_bytes (w_message (c_will options)))
      else []) @
     (if mstr_given (c_username options) then enc_str (mstr_bytes (c_username options)) else []) @
     (if mstr_given (c_password options) then enc_str (mstr_bytes (c_password options)) else [])"

definition connect_body :: "MQTTPacket_connectData \<Rightarrow> bytes" where
  "connect_body options =
     enc_str (connect_protocol (c_MQTTVersion options)) @ [c_MQTTVersion options] @
     [connect_flags_byte (connect_flags options)] @ enc16 (unat (c_keepAliveInterval options)) @
     connect_payload options"

definition connect_packet :: "MQTTPacket_connectData \<Rightarrow> bytes" where
  "connect_packet options =
     header_byte (header_zero\<lparr>h_type := type_code CONNECT\<rparr>) # enc_len (length (connect_body options)) @
     connect_body options"

definition connect_ok :: "MQTTPacket_connectData \<Rightarrow> bool" where
  "connect_ok options \<longleftrightarrow>
     c_MQTTVersion options \<in> {3, 4} \<and> mstr_ok (c_clientID options) \<and>
     (c_willFlag options \<noteq> 0 \<longrightarrow> mstr_ok (w_topicName (c_will options)) \<and> mstr_ok (w_message (c_will options))) \<and>
     (mstr_given (c_username options) \<longrightarrow> mstr_ok (c_username options)) \<and>
     (mstr_given (c_password options) \<longrightarrow> mstr_ok (c_password options))"

lemma length_ascii [simp]: "length (ascii s) = length s"
  by (simp add: ascii_def)

lemma connect_flags_sel [simp]:
  "cf_cleansession (connect_flags options) = ucast (c_cleansession options)"
  "cf_will (connect_flags options) = (if c_willFlag options \<noteq> 0 then 1 else 0)"
  "cf_username (connect_flags options) = (if mstr_given (c_username options) then 1 else 0)"
  "cf_password (connect_flags options) = (if mstr_given (c_password options) then 1 else 0)"
  "c_willFlag options \<noteq> 0 \<Longrightarrow> cf_willQoS (connect_flags options) = ucast (w_qos (c_will options))"
  "c_willFlag options \<noteq> 0 \<Longrightarrow> cf_willRetain (connect_flags options) = ucast (w_retained (c_will options))"
  by (simp_all add: connect_flags_def connect_flags_zero_def Let_def)

lemma add_strlen_ok:
  assumes "mstr_ok s" "0 \<le> n" "n < 1000000"
  shows "add_strlen n s = Some (n + int (length (mstr_bytes s) + 2))"
  using mstr_okD [OF assms(1)] assms by (simp add: add_strlen_def int_min_def int_max_def)

lemma connect_body_less:
  assumes "connect_ok options" shows "length (connect_body options) < 400000"
proof -
  note mstr_okD [of "c_clientID options"] mstr_okD [of "w_topicName (c_will options)"]
    mstr_okD [of "w_message (c_will options)"] mstr_okD [of "c_username options"] mstr_okD [of "c_password options"]
  then show ?thesis
    using assms by (auto simp: connect_ok_def connect_body_def connect_payload_def connect_protocol_def)
qed

lemma connectLength_ok:
  assumes "connect_ok options"
  shows "MQTTSerialize_connectLength options = Some (int (length (connect_body options)))"
proof -
  note bounds = mstr_okD [of "c_clientID options"] mstr_okD [of "w_topicName (c_will options)"]
    mstr_okD [of "w_message (c_will options)"] mstr_okD [of "c_username options"] mstr_okD [of "c_password options"]
  from assms have v: "c_MQTTVersion options = 3 \<or> c_MQTTVersion options = 4" by (simp add: connect_ok_def)
  show ?thesis
    using assms bounds v
    by (auto simp: MQTTSerialize_connectLength_def connect_ok_def connect_body_def connect_payload_def
        connect_protocol_def add_strlen_ok int_min_def int_max_def Let_def)
qed

definition write_connect_body :: "MQTTPacket_connectData \<Rightarrow> cursor \<Rightarrow> cursor option" where
  "write_connect_body options st =
     do { st \<leftarrow> (if c_MQTTVersion options = 4
                 then do { st \<leftarrow> writeCString st (ascii ''MQTT''); writeChar st 4 }
                 else do { st \<leftarrow> writeCString st (ascii ''MQIsdp''); writeChar st 3 });
          st \<leftarrow> writeChar st (connect_flags_byte (connect_flags options));
          st \<leftarrow> writeInt st (uint (c_keepAliveInterval options));
          st \<leftarrow> writeMQTTString st (c_clientID options);
          st \<leftarrow> (if c_willFlag options \<noteq> 0
                 then do { st \<leftarrow> writeMQTTString st (w_topicName (c_will options));
                           writeMQTTString st (w_message (c_will options)) }
                 else Some st);
          st \<leftarrow> (if cf_username (connect_flags options) \<noteq> 0 then writeMQTTString st (c_username options) else Some st);
          if cf_password (connect_flags options) \<noteq> 0 then writeMQTTString st (c_password options) else Some st }"

lemma writes_connect_body:
  assumes "connect_ok options" shows "writes (write_connect_body options) (connect_body options)"
proof -
  let ?o = options
  have protocol: "writes (\<lambda>st. if c_MQTTVersion ?o = 4
      then writeCString st (ascii ''MQTT'') \<bind> (\<lambda>st. writeChar st 4)
      else writeCString st (ascii ''MQIsdp'') \<bind> (\<lambda>st. writeChar st 3))
    (enc_str (connect_protocol (c_MQTTVersion ?o)) @ [c_MQTTVersion ?o])"
    using assms writes_bind [OF writes_writeCString [of "ascii ''MQTT''"] writes_writeChar [of 4]]
      writes_bind [OF writes_writeCString [of "ascii ''MQIsdp''"] writes_writeChar [of 3]]
    by (auto simp: connect_protocol_def connect_ok_def)
  have will: "writes (\<lambda>st. if c_willFlag ?o \<noteq> 0
      then writeMQTTString st (w_topicName (c_will ?o)) \<bind> (\<lambda>st. writeMQTTString st (w_message (c_will ?o)))
      else Some st)
    (if c_willFlag ?o \<noteq> 0
     then enc_str (mstr_bytes (w_topicName (c_will ?o))) @ enc_str (mstr_bytes (w_message (c_will ?o))) else [])"
    using assms by (intro writes_bind writes_intros) (auto simp: connect_ok_def)
  have user: "writes (\<lambda>st. if cf_username (connect_flags ?o) \<noteq> 0 then writeMQTTString st (c_username ?o) else Some st)
      (if mstr_given (c_username ?o) then enc_str (mstr_bytes (c_username ?o)) else [])"
    and pass: "writes (\<lambda>st. if cf_password (connect_flags ?o) \<noteq> 0 then writeMQTTString st (c_password ?o) else Some st)
      (if mstr_given (c_password ?o) then enc_str (mstr_bytes (c_password ?o)) else [])"
    using assms writes_writeMQTTString writes_Some by (auto simp: connect_ok_def)
  have client: "writes (\<lambda>st. writeMQTTString st (c_clientID ?o)) (enc_str (mstr_bytes (c_clientID ?o)))"
    using assms by (intro writes_intros) (simp add: connect_ok_def)
  show ?thesis
    unfolding write_connect_body_def connect_body_def connect_payload_def append_assoc [symmetric]
    unfolding append_assoc
    using writes_bind [OF protocol writes_bind [OF writes_writeChar [of "connect_flags_byte (connect_flags ?o)"]
      writes_bind [OF writes_writeInt_u16 [of "c_keepAliveInterval ?o"]
      writes_bind [OF client writes_bind [OF will writes_bind [OF user pass]]]]]]
    by (simp only: append_assoc)
qed

lemma MQTTSerialize_connect_alt:
  "MQTTSerialize_connect buf buflen options =
     do { len \<leftarrow> MQTTSerialize_connectLength options;
          L \<leftarrow> MQTTPacket_len len;
          if L > buflen then Some (MQTTPACKET_BUFFER_TOO_SHORT, buf)
          else do { st \<leftarrow> writeChar (buf, 0) (header_byte (header_zero\<lparr>h_type := type_code CONNECT\<rparr>));
                    st \<leftarrow> write_remaining_length st len;
                    st \<leftarrow> write_connect_body options st;
                    finish st } }"
  by (simp only: MQTTSerialize_connect_def write_connect_body_def bind_assoc Let_def)

lemma serialize_connect:
  assumes ok: "connect_ok options" and buf: "buflen \<le> int (length buf)"
  shows "MQTTSerialize_connect buf buflen options =
    (if fits (length (connect_body options)) buflen
     then Some (int (length (connect_packet options)), patch buf 0 (connect_packet options))
     else Some (MQTTPACKET_BUFFER_TOO_SHORT, buf))"
proof -
  define rem where "rem = length (connect_body options)"
  let ?h = "header_byte (header_zero\<lparr>h_type := type_code CONNECT\<rparr>)"
  let ?f = "\<lambda>st. writeChar st ?h \<bind> (\<lambda>st. write_remaining_length st (int rem) \<bind> write_connect_body options)"
  have w: "writes ?f (?h # enc_len rem @ connect_body options)"
    using writes_bind [OF writes_writeChar [of ?h]
      writes_bind [OF writes_remaining_length [of rem] writes_connect_body [OF ok]]] by simp
  have "rem < 268435456" using connect_body_less [OF ok] by (simp add: rem_def)
  from guarded_serialize [OF this buf w rem_def [symmetric]] show ?thesis
    by (simp only: MQTTSerialize_connect_alt connectLength_ok [OF ok] connect_packet_def
        rem_def [symmetric] bind.bind_lunit bind_assoc)
qed

section \<open>CONNECT, server side\<close>

definition memcmp_eq :: "bytes \<Rightarrow> bytes \<Rightarrow> nat \<Rightarrow> bool option" where
  "memcmp_eq a b n = (if n \<le> length a \<and> n \<le> length b then Some (take n a = take n b) else None)"

text \<open>\<open>min\<close> is a macro of the file; the comparison length is converted to \<open>size_t\<close>.\<close>

definition MQTTPacket_checkVersion :: "MQTTString \<Rightarrow> int \<Rightarrow> int option" where
  "MQTTPacket_checkVersion protocol version =
     do { a \<leftarrow> (if version = 3
               then do { d \<leftarrow> lenstring_data protocol;
                         memcmp_eq d (ascii ''MQIsdp'' @ [0]) (nat (min 6 (lenstring_len protocol))) }
               else Some False);
          if a then Some 1
          else do {
            b \<leftarrow> (if version = 4
                 then do { d \<leftarrow> lenstring_data protocol;
                           memcmp_eq d (ascii ''MQTT'' @ [0]) (nat (min 4 (lenstring_len protocol))) }
                 else Some False);
            if b then Some 1 else Some 0 } }"

text \<open>The will, the user name and password: the return code 0 is the jump to \<open>exit\<close>.\<close>

definition read_connect_will ::
    "MQTTConnectFlags \<Rightarrow> MQTTPacket_connectData \<Rightarrow> bytes \<Rightarrow> nat \<Rightarrow> nat \<Rightarrow>
     (int \<times> MQTTPacket_connectData \<times> nat) option" where
  "read_connect_will flags data buf curdata enddata =
     (if cf_will flags \<noteq> 0
      then do {
        let will = (c_will data)\<lparr>w_qos := ucast (cf_willQoS flags), w_retained := ucast (cf_willRetain flags)\<rparr>;
        (ok, s, curdata) \<leftarrow> readMQTTLenString (w_topicName will) buf curdata enddata;
        let will = will\<lparr>w_topicName := s\<rparr>;
        if ok = 0 then Some (0, data\<lparr>c_will := will\<rparr>, curdata)
        else do {
          (ok, s, curdata) \<leftarrow> readMQTTLenString (w_message will) buf curdata enddata;
          let will = will\<lparr>w_message := s\<rparr>;
          Some (if ok = 0 then 0 else 1, data\<lparr>c_will := will\<rparr>, curdata) } }
      else Some (1, data, curdata))"

definition read_connect_credentials ::
    "MQTTConnectFlags \<Rightarrow> MQTTPacket_connectData \<Rightarrow> bytes \<Rightarrow> nat \<Rightarrow> nat \<Rightarrow>
     (int \<times> MQTTPacket_connectData) option" where
  "read_connect_credentials flags data buf curdata enddata =
     (if cf_username flags \<noteq> 0
      then if int enddata - int curdata < 3 then Some (0, data)
           else do {
             (ok, s, curdata) \<leftarrow> readMQTTLenString (c_username data) buf curdata enddata;
             let data = data\<lparr>c_username := s\<rparr>;
             if ok = 0 then Some (0, data)
             else if cf_password flags \<noteq> 0
             then if int enddata - int curdata < 3 then Some (0, data)
                  else do {
                    (ok, s, curdata) \<leftarrow> readMQTTLenString (c_password data) buf curdata enddata;
                    let data = data\<lparr>c_password := s\<rparr>;
                    Some (if ok = 0 then 0 else 1, data) }
             else Some (1, data) }
      else if cf_password flags \<noteq> 0 then Some (0, data)
      else Some (1, data))"

definition read_connect_fields ::
    "MQTTPacket_connectData \<Rightarrow> bytes \<Rightarrow> nat \<Rightarrow> nat \<Rightarrow> (int \<times> MQTTPacket_connectData) option" where
  "read_connect_fields data buf curdata enddata =
     do { (b, curdata) \<leftarrow> readChar buf curdata;
          let flags = connect_flags_bits b;
          let data = data\<lparr>c_cleansession := ucast (cf_cleansession flags)\<rparr>;
          (i, curdata) \<leftarrow> readInt buf curdata;
          let data = data\<lparr>c_keepAliveInterval := word_of_int i\<rparr>;
          (ok, s, curdata) \<leftarrow> readMQTTLenString (c_clientID data) buf curdata enddata;
          let data = data\<lparr>c_clientID := s\<rparr>;
          if ok = 0 then Some (0, data)
          else do {
            let data = data\<lparr>c_willFlag := ucast (cf_will flags)\<rparr>;
            (ok, data, curdata) \<leftarrow> read_connect_will flags data buf curdata enddata;
            if ok = 0 then Some (0, data)
            else read_connect_credentials flags data buf curdata enddata } }"

definition MQTTDeserialize_connect ::
    "MQTTPacket_connectData \<Rightarrow> bytes \<Rightarrow> int \<Rightarrow> (int \<times> MQTTPacket_connectData) option" where
  "MQTTDeserialize_connect data buf len =
     do { let enddata = nat len;
          (b, curdata) \<leftarrow> readChar buf 0;
          if h_type (header_bits b) \<noteq> type_code CONNECT then Some (0, data)
          else do {
            (n, mylen) \<leftarrow> MQTTPacket_decodeBuf buf curdata;
            let curdata = curdata + nat n;
            (ok, Protocol, curdata) \<leftarrow> readMQTTLenString MQTTString_initializer buf curdata enddata;
            if ok = 0 \<or> int enddata - int curdata < 0 then Some (0, data)
            else do {
              (v, curdata) \<leftarrow> readChar buf curdata;
              let version = sint v;
              good \<leftarrow> MQTTPacket_checkVersion Protocol version;
              if good = 0 then Some (0, data)
              else read_connect_fields data buf curdata enddata } } }"

text \<open>The fields as the receiver sees them.\<close>

definition connect_received :: "MQTTPacket_connectData \<Rightarrow> MQTTPacket_connectData \<Rightarrow> bool" where
  "connect_received sent got \<longleftrightarrow>
     c_cleansession got = c_cleansession sent \<and> c_keepAliveInterval got = c_keepAliveInterval sent \<and>
     mstr_bytes (c_clientID got) = mstr_bytes (c_clientID sent) \<and>
     c_willFlag got = (if c_willFlag sent \<noteq> 0 then 1 else 0) \<and>
     (c_willFlag sent \<noteq> 0 \<longrightarrow>
        w_qos (c_will got) = w_qos (c_will sent) \<and> w_retained (c_will got) = w_retained (c_will sent) \<and>
        mstr_bytes (w_topicName (c_will got)) = mstr_bytes (w_topicName (c_will sent)) \<and>
        mstr_bytes (w_message (c_will got)) = mstr_bytes (w_message (c_will sent))) \<and>
     (mstr_given (c_username sent) \<longrightarrow> mstr_bytes (c_username got) = mstr_bytes (c_username sent)) \<and>
     (mstr_given (c_password sent) \<longrightarrow> mstr_bytes (c_password got) = mstr_bytes (c_password sent))"

text \<open>What the receiving side accepts: a password only with a user name, and neither of them empty
  at the end of the packet.\<close>

definition credentials_ok :: "MQTTPacket_connectData \<Rightarrow> bool" where
  "credentials_ok options \<longleftrightarrow>
     (mstr_given (c_password options) \<longrightarrow>
        mstr_given (c_username options) \<and> mstr_bytes (c_password options) \<noteq> []) \<and>
     (mstr_given (c_username options) \<longrightarrow>
        mstr_given (c_password options) \<or> mstr_bytes (c_username options) \<noteq> [])"

lemma read_credentials:
  assumes flags: "flags = connect_flags options" and "connect_ok options" "credentials_ok options"
    and d: "drop c m = (if mstr_given (c_username options) then enc_str (mstr_bytes (c_username options)) else []) @
      (if mstr_given (c_password options) then enc_str (mstr_bytes (c_password options)) else []) @ rest"
    and e: "e = c + length ((if mstr_given (c_username options) then enc_str (mstr_bytes (c_username options)) else []) @
      (if mstr_given (c_password options) then enc_str (mstr_bytes (c_password options)) else []))"
  shows "\<exists>su sp. read_connect_credentials flags data m c e =
      Some (1, (if mstr_given (c_password options) then c_password_update (\<lambda>_. sp) else id)
        ((if mstr_given (c_username options) then c_username_update (\<lambda>_. su) else id) data)) \<and>
     mstr_bytes su = mstr_bytes (c_username options) \<and> mstr_bytes sp = mstr_bytes (c_password options)"
proof (cases "mstr_given (c_username options)")
  case False
  with assms show ?thesis
    by (intro exI [of _ "c_username options"] exI [of _ "c_password options"])
      (simp add: read_connect_credentials_def credentials_ok_def)
next
  case True
  let ?u = "mstr_bytes (c_username options)" and ?p = "mstr_bytes (c_password options)"
  let ?ptail = "(if mstr_given (c_password options) then enc_str ?p else []) @ rest"
  from True d have du: "drop c m = enc_str ?u @ ?ptail" by simp
  from assms(2) True have lu: "length ?u < 65536" by (simp add: connect_ok_def mstr_okD)
  from e True have eu: "c + 2 + length ?u \<le> e" by simp
  note u = read_str_step [OF du lu eu]
  show ?thesis
  proof (cases "mstr_given (c_password options)")
    case False
    with True assms(3) have "?u \<noteq> []" by (simp add: credentials_ok_def)
    then have "0 < length ?u" by simp
    then have "\<not> int e - int c < 3" using e True False by simp
    with True False u(1) flags show ?thesis
      by (intro exI [of _ "read_str (c_username data) ?u ?ptail"] exI [of _ "c_password options"])
        (simp add: read_connect_credentials_def)
  next
    case p: True
    from u(2) p have dp: "drop (c + 2 + length ?u) m = enc_str ?p @ rest" by simp
    from assms(2) p have lp: "length ?p < 65536" by (simp add: connect_ok_def mstr_okD)
    from e True p have ep: "c + 2 + length ?u + 2 + length ?p \<le> e" by simp
    from assms(3) p have "0 < length ?p" by (simp add: credentials_ok_def)
    then have "\<not> int e - int (c + 2 + length ?u) < 3" "\<not> int e - int c < 3" using e True p by simp_all
    with True p u(1) read_str_step(1) [OF dp lp ep] flags show ?thesis
      by (intro exI [of _ "read_str (c_username data) ?u ?ptail"] exI [of _ "read_str (c_password data) ?p rest"])
        (simp add: read_connect_credentials_def)
  qed
qed

lemma read_bad_credentials:
  assumes flags: "flags = connect_flags options" and "connect_ok options" "\<not> credentials_ok options"
    and d: "drop c m = (if mstr_given (c_username options) then enc_str (mstr_bytes (c_username options)) else []) @
      (if mstr_given (c_password options) then enc_str (mstr_bytes (c_password options)) else []) @ rest"
    and e: "e = c + length ((if mstr_given (c_username options) then enc_str (mstr_bytes (c_username options)) else []) @
      (if mstr_given (c_password options) then enc_str (mstr_bytes (c_password options)) else []))"
  shows "\<exists>got. read_connect_credentials flags data m c e = Some (0, got)"
proof (cases "mstr_given (c_username options)")
  case False
  with assms show ?thesis by (simp add: read_connect_credentials_def credentials_ok_def)
next
  case True
  let ?u = "mstr_bytes (c_username options)" and ?p = "mstr_bytes (c_password options)"
  let ?ptail = "(if mstr_given (c_password options) then enc_str ?p else []) @ rest"
  from True d have du: "drop c m = enc_str ?u @ ?ptail" by simp
  from assms(2) True have lu: "length ?u < 65536" by (simp add: connect_ok_def mstr_okD)
  from e True have eu: "c + 2 + length ?u \<le> e" by simp
  note u = read_str_step [OF du lu eu]
  show ?thesis
  proof (cases "mstr_given (c_password options)")
    case False
    then have "?u = []" using True assms(3) by (auto simp: credentials_ok_def)
    then have "int e - int c < 3" using e True False by simp
    with True flags show ?thesis by (simp add: read_connect_credentials_def)
  next
    case p: True
    then have "?p = []" using True assms(3) by (auto simp: credentials_ok_def)
    then have "int e - int (c + 2 + length ?u) < 3" "\<not> int e - int c < 3" using e True p by simp_all
    with True p u(1) flags show ?thesis by (simp add: read_connect_credentials_def)
  qed
qed

lemma read_will:
  assumes flags: "flags = connect_flags options" and "connect_ok options"
    and bits: "w_qos (c_will options) < 4" "w_retained (c_will options) \<le> 1"
    and d: "drop c m = (if c_willFlag options \<noteq> 0
      then enc_str (mstr_bytes (w_topicName (c_will options))) @ enc_str (mstr_bytes (w_message (c_will options)))
      else []) @ rest"
    and e: "c' = c + length (if c_willFlag options \<noteq> 0
      then enc_str (mstr_bytes (w_topicName (c_will options))) @ enc_str (mstr_bytes (w_message (c_will options)))
      else [])" "c' \<le> e"
  shows "\<exists>w. read_connect_will flags data m c e =
      Some (1, if c_willFlag options \<noteq> 0 then data\<lparr>c_will := w\<rparr> else data, c') \<and> drop c' m = rest \<and>
      w_qos w = w_qos (c_will options) \<and> w_retained w = w_retained (c_will options) \<and>
      mstr_bytes (w_topicName w) = mstr_bytes (w_topicName (c_will options)) \<and>
      mstr_bytes (w_message w) = mstr_bytes (w_message (c_will options))"
proof (cases "c_willFlag options \<noteq> 0")
  case False
  with flags d e show ?thesis
    by (intro exI [of _ "c_will options"]) (simp add: read_connect_will_def)
next
  case True
  let ?t = "mstr_bytes (w_topicName (c_will options))" and ?g = "mstr_bytes (w_message (c_will options))"
  have lens: "length ?t < 65536" "length ?g < 65536" using assms(2) True by (simp_all add: connect_ok_def mstr_okD)
  from d True have d1: "drop c m = enc_str ?t @ enc_str ?g @ rest" by simp
  from e True have e1: "c + 2 + length ?t \<le> e" "c + 2 + length ?t + 2 + length ?g \<le> e"
    "c' = c + 2 + length ?t + 2 + length ?g" by simp_all
  note t = read_str_step [OF d1 lens(1) e1(1)]
  note g = read_str_step [OF t(2) lens(2) e1(2)]
  have qos: "ucast (ucast (w_qos (c_will options)) :: 2 word) = w_qos (c_will options)"
    by (rule ucast_ucast_id_less) (use bits(1) in \<open>simp add: word_less_nat_alt\<close>)
  define w where "w = (c_will data)\<lparr>w_qos := w_qos (c_will options), w_retained := w_retained (c_will options),
    w_topicName := read_str (w_topicName (c_will data)) ?t (enc_str ?g @ rest),
    w_message := read_str (w_message (c_will data)) ?g rest\<rparr>"
  have "read_connect_will flags data m c e = Some (1, data\<lparr>c_will := w\<rparr>, c')"
    using True flags t(1) g(1) qos bits(2) e1(3) by (simp add: read_connect_will_def ucast_bit w_def)
  with True g(2) e1(3) show ?thesis by (intro exI [of _ w]) (simp add: w_def)
qed

lemma read_fields:
  assumes ok: "connect_ok options" "c_cleansession options \<le> 1"
    "w_qos (c_will options) < 4" "w_retained (c_will options) \<le> 1"
    and d: "drop c m = connect_flags_byte (connect_flags options) # enc16 (unat (c_keepAliveInterval options)) @
      connect_payload options @ rest"
    and e: "e = c + 3 + length (connect_payload options)"
  shows "\<exists>got. read_connect_fields data m c e = Some (if credentials_ok options then 1 else 0, got) \<and>
     (credentials_ok options \<longrightarrow> connect_received options got)"
proof -
  define W where "W = (if c_willFlag options \<noteq> 0
      then enc_str (mstr_bytes (w_topicName (c_will options))) @ enc_str (mstr_bytes (w_message (c_will options)))
      else [])"
  define C where "C = (if mstr_given (c_username options) then enc_str (mstr_bytes (c_username options)) else []) @
      (if mstr_given (c_password options) then enc_str (mstr_bytes (c_password options)) else [])"
  let ?id = "mstr_bytes (c_clientID options)" and ?k = "c_keepAliveInterval options"
  have p: "connect_payload options = enc_str ?id @ W @ C" by (simp add: connect_payload_def W_def C_def)
  have flag: "readChar m c = Some (connect_flags_byte (connect_flags options), c + 1)"
    using d by (rule readChar_drop)
  have d1: "drop (c + 1) m = enc16 (unat ?k) @ enc_str ?id @ W @ C @ rest"
    using drop_Suc_drop [OF d] p by simp
  have int: "readInt m (c + 1) = Some (int (unat ?k), c + 3)"
    using readInt_enc16 [OF d1] unsigned_less [of ?k] by (simp add: numeral_3_eq_3)
  have d2: "drop (c + 3) m = enc_str ?id @ W @ C @ rest"
    using drop_append_drop [OF d1] by (simp add: numeral_3_eq_3)
  define c2 where "c2 = c + 3 + 2 + length ?id"
  define c3 where "c3 = c2 + length W"
  have e': "e = c3 + length C" "c2 \<le> e" "c3 \<le> e" by (simp_all add: e p c2_def c3_def)
  have "length ?id < 65536" using ok(1) by (simp add: connect_ok_def mstr_okD)
  note id = read_str_step [OF d2 this, of e, folded c2_def, OF e'(2)]
  define data2 where "data2 = data\<lparr>c_cleansession := c_cleansession options, c_keepAliveInterval := ?k,
    c_clientID := read_str (c_clientID data) ?id (W @ C @ rest),
    c_willFlag := if c_willFlag options \<noteq> 0 then 1 else 0\<rparr>"
  obtain w where w: "read_connect_will (connect_flags options) data2 m c2 e =
      Some (1, if c_willFlag options \<noteq> 0 then data2\<lparr>c_will := w\<rparr> else data2, c3)" "drop c3 m = C @ rest"
    "w_qos w = w_qos (c_will options)" "w_retained w = w_retained (c_will options)"
    "mstr_bytes (w_topicName w) = mstr_bytes (w_topicName (c_will options))"
    "mstr_bytes (w_message w) = mstr_bytes (w_message (c_will options))"
    using read_will [OF refl ok(1,3,4) id(2) [unfolded W_def] c3_def [unfolded W_def] e'(3), of data2] by blast
  let ?data3 = "if c_willFlag options \<noteq> 0 then data2\<lparr>c_will := w\<rparr> else data2"
  have fields: "read_connect_fields data m c e = read_connect_credentials (connect_flags options) ?data3 m c3 e"
    using flag int id(1) w(1) ok(2)
    by (cases "c_willFlag options = 0") (simp_all add: read_connect_fields_def data2_def ucast_bit Let_def)
  show ?thesis
  proof (cases "credentials_ok options")
    case False
    then show ?thesis
      using read_bad_credentials [OF refl ok(1) False w(2) [unfolded C_def append_assoc] e'(1) [unfolded C_def], of ?data3] fields by auto
  next
    case True
    obtain su sp where cr: "read_connect_credentials (connect_flags options) ?data3 m c3 e =
      Some (1, (if mstr_given (c_password options) then c_password_update (\<lambda>_. sp) else id)
        ((if mstr_given (c_username options) then c_username_update (\<lambda>_. su) else id) ?data3))"
    "mstr_bytes su = mstr_bytes (c_username options)" "mstr_bytes sp = mstr_bytes (c_password options)"
    using read_credentials [OF refl ok(1) True w(2) [unfolded C_def append_assoc] e'(1) [unfolded C_def], of ?data3] by blast
    then show ?thesis using fields True w(3-6) by (simp add: connect_received_def data2_def)
  qed
qed

lemma deserialize_connect:
  assumes ok: "connect_ok options" "c_cleansession options \<le> 1"
    "w_qos (c_will options) < 4" "w_retained (c_will options) \<le> 1"
    and buf: "buf = connect_packet options @ rest"
  shows "\<exists>got. MQTTDeserialize_connect data buf (int (length (connect_packet options))) =
      Some (if credentials_ok options then 1 else 0, got) \<and> (credentials_ok options \<longrightarrow> connect_received options got)"
proof -
  define body where "body = connect_body options"
  define L where "L = length (enc_len (length body))"
  define c1 where "c1 = Suc L"
  let ?v = "c_MQTTVersion options" and ?e = "length (connect_packet options)"
  let ?pr = "connect_protocol (c_MQTTVersion options)"
  let ?tail = "connect_flags_byte (connect_flags options) # enc16 (unat (c_keepAliveInterval options)) @
      connect_payload options @ rest"
  have d: "drop 0 buf = header_byte (header_zero\<lparr>h_type := type_code CONNECT\<rparr>) # enc_len (length body) @ body @ rest"
    using buf by (simp add: connect_packet_def body_def)
  have "length body < 268435456" using connect_body_less [OF ok(1)] by (simp add: body_def)
  note start = decode_body [OF d this, folded L_def, unfolded add_0 plus_1_eq_Suc add_Suc, folded One_nat_def c1_def]
  have body: "body @ rest = enc_str ?pr @ ?v # ?tail" by (simp add: body_def connect_body_def)
  have e: "?e = c1 + length body" by (simp add: connect_packet_def body_def c1_def L_def)
  have lb: "length body = length ?pr + 6 + length (connect_payload options)"
    by (simp add: body_def connect_body_def)
  have v: "?v = 3 \<or> ?v = 4" using ok(1) by (simp add: connect_ok_def)
  then have lp: "length ?pr < 65536" "length ?pr = (if ?v = 4 then 4 else 6)" by (auto simp: connect_protocol_def)
  define c2 where "c2 = c1 + 2 + length ?pr"
  have "c2 \<le> ?e" using e lb by (simp add: c2_def)
  note pr = read_str_step [OF start(3) [unfolded body] lp(1), of ?e, folded c2_def, OF this]
  have ver: "MQTTPacket_checkVersion (read_str MQTTString_initializer ?pr (?v # ?tail)) (sint ?v) = Some 1"
    using v lp(2)
    by (auto simp: MQTTPacket_checkVersion_def read_str_def memcmp_eq_def connect_protocol_def)
  have d3: "drop (Suc c2) buf = ?tail" using drop_Suc_drop [OF pr(2)] .
  have "?e = Suc c2 + 3 + length (connect_payload options)" using e lb by (simp add: c2_def)
  from read_fields [OF ok d3 this]
  obtain got where got: "read_connect_fields data buf (Suc c2) ?e = Some (if credentials_ok options then 1 else 0, got)"
      "credentials_ok options \<longrightarrow> connect_received options got"
    by blast
  have "MQTTDeserialize_connect data buf (int ?e) = Some (if credentials_ok options then 1 else 0, got)"
    using start(1,2) pr(1) readChar_drop [OF pr(2)] ver got(1) \<open>c2 \<le> ?e\<close> c1_def
    by (simp add: MQTTDeserialize_connect_def header_zero_def)
  with got(2) show ?thesis by blast
qed

section \<open>CONNACK\<close>

record connack_out =
  ka_sessionPresent :: u8
  ka_connack_rc :: u8

definition MQTTSerialize_connack :: "bytes \<Rightarrow> int \<Rightarrow> u8 \<Rightarrow> u8 \<Rightarrow> serialized" where
  "MQTTSerialize_connack buf buflen connack_rc sessionPresent =
     (if buflen < 2 then Some (MQTTPACKET_BUFFER_TOO_SHORT, buf)
      else do {
        let header = header_zero\<lparr>h_type := type_code CONNACK\<rparr>;
        st \<leftarrow> writeChar (buf, 0) (header_byte header);
        st \<leftarrow> write_remaining_length st 2;
        let flags = \<lparr>ka_unused = 0, ka_sessionpresent = ucast sessionPresent\<rparr>;
        st \<leftarrow> writeChar st (connack_flags_byte flags);
        st \<leftarrow> writeChar st connack_rc;
        finish st })"

definition MQTTDeserialize_connack :: "connack_out \<Rightarrow> bytes \<Rightarrow> int \<Rightarrow> (int \<times> connack_out) option" where
  "MQTTDeserialize_connack out buf buflen =
     do { (b, curdata) \<leftarrow> readChar buf 0;
          if h_type (header_bits b) \<noteq> type_code CONNACK then Some (0, out)
          else do {
            (rc, mylen) \<leftarrow> MQTTPacket_decodeBuf buf curdata;
            let curdata = curdata + nat rc;
            let enddata = curdata + nat mylen;
            if int enddata - int curdata < 2 then Some (rc, out)
            else do {
              (b, curdata) \<leftarrow> readChar buf curdata;
              let out = out\<lparr>ka_sessionPresent := ucast (ka_sessionpresent (connack_flags_bits b))\<rparr>;
              (c, curdata) \<leftarrow> readChar buf curdata;
              Some (1, out\<lparr>ka_connack_rc := c\<rparr>) } } }"

definition connack_packet :: "u8 \<Rightarrow> u8 \<Rightarrow> bytes" where
  "connack_packet connack_rc sessionPresent =
     [header_byte (header_zero\<lparr>h_type := type_code CONNACK\<rparr>), 2,
      connack_flags_byte \<lparr>ka_unused = 0, ka_sessionpresent = ucast sessionPresent\<rparr>, connack_rc]"

text \<open>Four bytes are written, the check asks for two.\<close>

lemma serialize_connack:
  "MQTTSerialize_connack buf buflen connack_rc sessionPresent =
    (if buflen < 2 then Some (MQTTPACKET_BUFFER_TOO_SHORT, buf)
     else if 4 \<le> length buf then Some (4, patch buf 0 (connack_packet connack_rc sessionPresent)) else None)"
proof -
  let ?h = "header_byte (header_zero\<lparr>h_type := type_code CONNACK\<rparr>)"
  let ?f = "connack_flags_byte \<lparr>ka_unused = 0, ka_sessionpresent = ucast sessionPresent\<rparr>"
  have w: "writes (\<lambda>st. writeChar st ?h \<bind> (\<lambda>st. write_remaining_length st 2 \<bind>
      (\<lambda>st. writeChar st ?f \<bind> (\<lambda>st. writeChar st connack_rc))))
    (connack_packet connack_rc sessionPresent)"
    using writes_bind [OF writes_writeChar [of ?h] writes_bind [OF writes_remaining_2
      writes_bind [OF writes_writeChar [of ?f] writes_writeChar [of connack_rc]]]]
    by (simp add: connack_packet_def enc_len_small)
  have "length (connack_packet connack_rc sessionPresent) = 4" by (simp add: connack_packet_def)
  with writes_finish [OF w, of buf] show ?thesis
    by (simp add: MQTTSerialize_connack_def bind_assoc Let_def)
qed

lemma deserialize_connack_bytes:
  assumes buf: "buf = header_byte (header_zero\<lparr>h_type := type_code CONNACK\<rparr>) # 2 # f # c # rest"
  shows "MQTTDeserialize_connack out buf buflen =
    Some (1, out\<lparr>ka_sessionPresent := ucast (ka_sessionpresent (connack_flags_bits f)), ka_connack_rc := c\<rparr>)"
proof -
  have "drop 1 buf = enc_len 2 @ drop 2 buf" using buf by (simp add: enc_len_small)
  then have "MQTTPacket_decodeBuf buf 1 = Some (int (length (enc_len 2)), int 2)"
    by (intro decodeBuf_enc_len) simp_all
  then show ?thesis
    using buf by (simp add: MQTTDeserialize_connack_def readChar_def enc_len_small
        header_zero_def Let_def numeral_2_eq_2 numeral_3_eq_3)
qed

lemma deserialize_connack:
  assumes buf: "buf = connack_packet connack_rc sessionPresent @ rest" and "sessionPresent \<le> 1"
  shows "MQTTDeserialize_connack out buf buflen =
    Some (1, out\<lparr>ka_sessionPresent := sessionPresent, ka_connack_rc := connack_rc\<rparr>)"
  using deserialize_connack_bytes [of buf _ connack_rc rest out buflen] assms
  by (simp add: connack_packet_def ucast_bit)

text \<open>The broker's answer, with the flags and the return code it chose.\<close>

definition connack_answer :: "u8 \<Rightarrow> u8 \<Rightarrow> bytes" where
  "connack_answer flags code = header_byte (header_zero\<lparr>h_type := type_code CONNACK\<rparr>) # enc_len 2 @ [flags, code]"

lemma connack_type: "uint (type_code CONNACK) = 2"
  by (simp add: type_code_def)

section \<open>Packets without a body\<close>

definition MQTTSerialize_zero :: "bytes \<Rightarrow> int \<Rightarrow> u8 \<Rightarrow> serialized" where
  "MQTTSerialize_zero buf buflen packettype =
     (if buflen < 2 then Some (MQTTPACKET_BUFFER_TOO_SHORT, buf)
      else do {
        let header = header_zero\<lparr>h_type := ucast packettype\<rparr>;
        st \<leftarrow> writeChar (buf, 0) (header_byte header);
        st \<leftarrow> write_remaining_length st 0;
        finish st })"

definition MQTTSerialize_disconnect :: "bytes \<Rightarrow> int \<Rightarrow> serialized" where
  "MQTTSerialize_disconnect buf buflen = MQTTSerialize_zero buf buflen (of_nat (msg_code DISCONNECT))"

definition MQTTSerialize_pingreq :: "bytes \<Rightarrow> int \<Rightarrow> serialized" where
  "MQTTSerialize_pingreq buf buflen = MQTTSerialize_zero buf buflen (of_nat (msg_code PINGREQ))"

lemma serialize_zero:
  "MQTTSerialize_zero buf buflen packettype =
    (if buflen < 2 then Some (MQTTPACKET_BUFFER_TOO_SHORT, buf)
     else if 2 \<le> length buf
     then Some (2, patch buf 0 [header_byte (header_zero\<lparr>h_type := ucast packettype\<rparr>), 0]) else None)"
proof -
  let ?h = "header_byte (header_zero\<lparr>h_type := ucast packettype\<rparr>)"
  have "writes (\<lambda>st. writeChar st ?h \<bind> (\<lambda>st. write_remaining_length st 0)) [?h, 0]"
    using writes_bind [OF writes_writeChar [of ?h] writes_remaining_length [of 0]]
    by (simp add: enc_len_small)
  from writes_finish [OF this, of buf] show ?thesis
    by (simp add: MQTTSerialize_zero_def bind_assoc Let_def)
qed

end
