(* ===== verification/PacketProperties.thy ===== *)
theory PacketProperties
  imports MQTTSubscribeDecode MQTTConnect
begin

text \<open>
  The properties of the packet library: what each serialiser leaves in its buffer, what each
  deserialiser makes of it, and the inputs on which a guard and the code behind it disagree.
\<close>

section \<open>PUBLISH\<close>

text \<open>C17: A PUBLISH packet that fits its buffer is written, and reading the buffer gives back the flags, the quality of service, the
  packet identifier (which only qualities 1 and above have), the topic and the payload it was made from. Otherwise the result is -2, for a buffer that is too short, and the
  buffer is left alone. The code estimates the length of the packet: a packet whose remaining length is 127, 16383, 2097150 or 2097151 is
  refused although it fits, when the buffer has exactly its size. The topic is at most 65535 bytes long and the remaining length is one
  that MQTT allows.\<close>

theorem publish_roundtrip:
  assumes "mstr_ok topicName" and "length (publish_body qos packetid (mstr_bytes topicName) payload) < 268435456"
    and "buflen \<le> int (length buf)" and "dup \<le> 1" and "retained \<le> 1" and "0 \<le> qos" and "qos \<le> 3"
  shows "if int (length (publish_packet dup qos retained packetid (mstr_bytes topicName) payload) +
        estimate_surplus (length (publish_body qos packetid (mstr_bytes topicName) payload))) \<le> buflen
    then \<exists>n m got data.
      MQTTSerialize_publish buf buflen dup qos retained packetid topicName payload (int (length payload)) = Some (n, m) \<and>
      n = int (length (publish_packet dup qos retained packetid (mstr_bytes topicName) payload)) \<and>
      MQTTDeserialize_publish out m n = Some (1, got) \<and>
      po_dup got = dup \<and> po_qos got = qos \<and> po_retained got = retained \<and>
      po_packetid got = (if qos > 0 then packetid else po_packetid out) \<and>
      mstr_bytes (po_topicName got) = mstr_bytes topicName \<and>
      po_payload got = Some data \<and> take (nat (po_payloadlen got)) data = payload
    else MQTTSerialize_publish buf buflen dup qos retained packetid topicName payload (int (length payload)) =
      Some (MQTTPACKET_BUFFER_TOO_SHORT, buf)"
proof -
  let ?body = "publish_body qos packetid (mstr_bytes topicName) payload"
  let ?pkt = "publish_packet dup qos retained packetid (mstr_bytes topicName) payload"
  have len: "length ?pkt = 1 + length (enc_len (length ?body)) + length ?body"
    by (simp add: publish_packet_def Let_def)
  have fits: "fits (length ?body) buflen \<longleftrightarrow> int (length ?pkt + estimate_surplus (length ?body)) \<le> buflen"
    using fits_exact [OF assms(2), of buflen] by (simp only: len)
  have ser: "MQTTSerialize_publish buf buflen dup qos retained packetid topicName payload (int (length payload)) =
      (if fits (length ?body) buflen then Some (int (length ?pkt), patch buf 0 ?pkt) else Some (MQTTPACKET_BUFFER_TOO_SHORT, buf))"
    using serialize_publish [OF assms(1,2,3), of dup retained "[]"] by (simp add: Let_def)
  show ?thesis
  proof (cases "fits (length ?body) buflen")
    case True
    then have n: "int (length ?pkt) \<le> buflen" using fits_length [OF True assms(2)] len by simp
    with assms(3) have "patch buf 0 ?pkt = ?pkt @ drop (length ?pkt) buf" by (simp add: patch_def)
    from deserialize_publish [OF this assms(2) mstr_okD [OF assms(1)] assms(4-7)]
    have "MQTTDeserialize_publish out (patch buf 0 ?pkt) (int (length ?pkt)) =
      Some (1, publish_result out dup qos retained packetid (mstr_bytes topicName) payload (drop (length ?pkt) buf))" .
    then show ?thesis
      unfolding fits [symmetric] ser if_P [OF True]
      by (intro exI conjI) (assumption | rule refl | simp add: publish_result_def)+
  next
    case False
    then show ?thesis unfolding fits [symmetric] ser by simp
  qed
qed

theorem publish_roundtrip_witness:
  "\<exists>n m got data.
    MQTTSerialize_publish (replicate 30 0) 30 1 2 0 258 (c_string (ascii ''ab'')) [1, 2, 3] 3 = Some (n, m) \<and>
    n = 11 \<and>
    MQTTDeserialize_publish \<lparr>po_dup = 0, po_qos = 0, po_retained = 0, po_packetid = 0,
      po_topicName = MQTTString_initializer, po_payload = None, po_payloadlen = 0\<rparr> m n = Some (1, got) \<and>
    po_dup got = 1 \<and> po_qos got = 2 \<and> po_retained got = 0 \<and> po_packetid got = 258 \<and>
    mstr_bytes (po_topicName got) = ascii ''ab'' \<and>
    po_payload got = Some data \<and> take (nat (po_payloadlen got)) data = [1, 2, 3]"
  using publish_roundtrip [of "c_string (ascii ''ab'')" 2 258 "[1, 2, 3]" 30 "replicate 30 0" 1 0
      "\<lparr>po_dup = 0, po_qos = 0, po_retained = 0, po_packetid = 0,
      po_topicName = MQTTString_initializer, po_payload = None, po_payloadlen = 0\<rparr>"]
  by (simp add: publish_packet_def length_publish_body Let_def enc_len_small estimate_surplus_def)

text \<open>\<open>MQTTSerialize_publish\<close> called with the true size of its buffer never writes outside it:
  it writes exactly the packet of the protocol when its length estimate fits, and otherwise
  reports a short buffer and leaves it as it was.\<close>

theorem publish_serialized:
  assumes "mstr_ok topicName" and "length (publish_body qos packetid (mstr_bytes topicName) xs) < 268435456"
    and "buflen \<le> int (length buf)"
  shows "MQTTSerialize_publish buf buflen dup qos retained packetid topicName (xs @ ys) (int (length xs)) =
    (if fits (length (publish_body qos packetid (mstr_bytes topicName) xs)) buflen
     then (let pkt = publish_packet dup qos retained packetid (mstr_bytes topicName) xs
           in Some (int (length pkt), patch buf 0 pkt))
     else Some (MQTTPACKET_BUFFER_TOO_SHORT, buf))"
  by (rule serialize_publish [OF assms])

theorem publish_serialized_witness:
  "MQTTSerialize_publish (replicate 7 9) 7 0 0 1 0 (c_string [97]) [98] 1 = Some (6, [0x31, 4, 0, 1, 97, 98, 9])"
proof -
  have "MQTTSerialize_publish (replicate 7 9) 7 0 0 1 0 (c_string [97]) [98] 1 =
      (let pkt = publish_packet 0 0 1 0 [97] [98] in Some (int (length pkt), patch (replicate 7 9) 0 pkt))"
    using publish_serialized [of "c_string [97]" 0 0 "[98]" 7 "replicate 7 9" 0 1 "[]"]
    by (simp add: length_publish_body fits_def MQTTPacket_len_def c_add_def c_int_def int_min_def int_max_def)
  also have "\<dots> = Some (6, [0x31, 4, 0, 1, 97, 98, 9])" by code_simp
  finally show ?thesis .
qed

section \<open>The remaining length\<close>

text \<open>A remaining length that MQTT allows is written in at most four bytes, and
  \<open>MQTTPacket_decodeBuf\<close> at the same place reads back the number and how many bytes it took.\<close>

theorem remaining_length_roundtrip:
  assumes "n < 268435456" and "p + length (enc_len n) \<le> length buf"
  shows "\<exists>m k. MQTTPacket_encode buf p (int n) = Some (m, k) \<and> 1 \<le> k \<and> k \<le> 4 \<and>
    MQTTPacket_decodeBuf m p = Some (k, int n) \<and> take p m = take p buf \<and> drop (p + nat k) m = drop (p + nat k) buf"
proof -
  let ?m = "patch buf p (enc_len n)"
  have "MQTTPacket_encode buf p (int n) = Some (?m, int (length (enc_len n)))"
    using encode_loop_ok [of p 0 n buf] assms(2) by (simp add: MQTTPacket_encode_def)
  moreover have "MQTTPacket_decodeBuf ?m p = Some (int (length (enc_len n)), int n)"
    using assms by (intro decodeBuf_enc_len [OF drop_patch])
  moreover have "1 \<le> length (enc_len n)" "length (enc_len n) \<le> 4"
    using length_enc_len [of n] assms(1) by (simp_all split: if_splits)
  moreover have "take p ?m = take p buf" "drop (p + length (enc_len n)) ?m = drop (p + length (enc_len n)) buf"
    using assms(2) by (simp_all add: patch_def)
  ultimately show ?thesis by auto
qed

theorem remaining_length_roundtrip_witness:
  "\<exists>m k. MQTTPacket_encode [9, 9, 9, 9, 9] 1 16384 = Some (m, k) \<and> 1 \<le> k \<and> k \<le> 4 \<and>
    MQTTPacket_decodeBuf m 1 = Some (k, 16384) \<and> take 1 m = take 1 [9, 9, 9, 9, 9] \<and>
    drop (1 + nat k) m = drop (1 + nat k) [9, 9, 9, 9, 9]"
  using remaining_length_roundtrip [of 16384 1 "[9, 9, 9, 9, 9]"] length_enc_len [of 16384] by simp

text \<open>\<open>MQTTPacket_len\<close>, which the serialisers compare with the buffer size, is never below
  the size of the packet and at most one byte above it.\<close>

theorem packet_len_safe:
  assumes "n < 268435456"
  shows "\<exists>L. MQTTPacket_len (int n) = Some L \<and>
    int (1 + length (enc_len n) + n) \<le> L \<and> L \<le> int (2 + length (enc_len n) + n)"
  using MQTTPacket_len_bounds [OF assms] by (metis of_nat_le_iff)

theorem packet_len_safe_witness:
  "\<exists>L. MQTTPacket_len 127 = Some L \<and>
    int (1 + length (enc_len 127) + 127) \<le> L \<and> L \<le> int (2 + length (enc_len 127) + 127)"
  using packet_len_safe [of 127] by simp

section \<open>CONNECT and CONNACK\<close>

text \<open>C20: What becomes of a session of version 3.1 or 3.1.1 between the client library and the server side. A CONNECT packet that
  fits its buffer, by the estimate of its length that the code makes, is written; \<open>MQTTDeserialize_connect\<close> accepts it and recovers the
  client identifier, the will, the credentials, the session flag and the keep-alive time, when the credentials are ones it accepts:
  a password comes with a user name, and the last one of them is not empty. With other credentials the client writes the packet all the same,
  and the server side rejects it with the result 0. A packet that does not fit is refused with -2.\<close>

theorem connect_roundtrip:
  assumes "connect_ok options" and "c_cleansession options \<le> 1"
    and "w_qos (c_will options) < 4" and "w_retained (c_will options) \<le> 1"
    and "buflen \<le> int (length buf)"
  shows "if int (length (connect_packet options) + estimate_surplus (length (connect_body options))) \<le> buflen
    then \<exists>n m got. MQTTSerialize_connect buf buflen options = Some (n, m) \<and> n = int (length (connect_packet options)) \<and>
      MQTTDeserialize_connect data m n = Some (if credentials_ok options then 1 else 0, got) \<and>
      (credentials_ok options \<longrightarrow> connect_received options got)
    else MQTTSerialize_connect buf buflen options = Some (MQTTPACKET_BUFFER_TOO_SHORT, buf)"
proof -
  let ?pkt = "connect_packet options" and ?n = "length (connect_body options)"
  have less: "?n < 268435456" using connect_body_less [OF assms(1)] by simp
  have len: "length ?pkt = 1 + length (enc_len ?n) + ?n" by (simp add: connect_packet_def)
  have fits: "fits ?n buflen \<longleftrightarrow> int (length ?pkt + estimate_surplus ?n) \<le> buflen"
    using fits_exact [OF less, of buflen] by (simp only: len)
  show ?thesis
  proof (cases "fits ?n buflen")
    case True
    then have n: "int (length ?pkt) \<le> buflen" using fits_length [OF True less] len by simp
    with assms(5) have "patch buf 0 ?pkt = ?pkt @ drop (length ?pkt) buf" by (simp add: patch_def)
    from deserialize_connect [OF assms(1-4) this, of data] obtain got where
      "MQTTDeserialize_connect data (patch buf 0 ?pkt) (int (length ?pkt)) = Some (if credentials_ok options then 1 else 0, got)"
      "credentials_ok options \<longrightarrow> connect_received options got" by blast
    with True serialize_connect [OF assms(1,5)] show ?thesis unfolding fits [symmetric] by simp
  next
    case False
    then show ?thesis unfolding fits [symmetric] using serialize_connect [OF assms(1,5)] by simp
  qed
qed

definition sample_session :: MQTTPacket_connectData where
  "sample_session = MQTTPacket_connectData_initializer\<lparr>c_clientID := c_string (ascii ''id''),
     c_username := c_string (ascii ''user''), c_password := c_string (ascii ''pw'')\<rparr>"

lemma sample_session_ok: "connect_ok sample_session" "credentials_ok sample_session"
  and sample_session_fits: "fits (length (connect_body sample_session)) 64"
proof -
  have given: "mstr_given (c_string s)" for s by (simp add: mstr_given_def c_string_def MQTTString_initializer_def)
  have "length (connect_body sample_session) = 24"
    by (simp add: sample_session_def connect_body_def connect_payload_def connect_protocol_def
        MQTTPacket_connectData_initializer_def given)
  then show "fits (length (connect_body sample_session)) 64"
    by (simp add: fits_def MQTTPacket_len_def c_add_def c_int_def int_min_def int_max_def)
  show "connect_ok sample_session" "credentials_ok sample_session"
    by (simp_all add: sample_session_def connect_ok_def credentials_ok_def MQTTPacket_connectData_initializer_def
        ascii_def given)
qed

lemma sample_session_length: "length (connect_body sample_session) = 24" "length (connect_packet sample_session) = 26"
proof -
  have given: "mstr_given (c_string s)" for s by (simp add: mstr_given_def c_string_def MQTTString_initializer_def)
  show "length (connect_body sample_session) = 24"
    by (simp add: sample_session_def connect_body_def connect_payload_def connect_protocol_def
        MQTTPacket_connectData_initializer_def given)
  then show "length (connect_packet sample_session) = 26" by (simp add: connect_packet_def enc_len_small)
qed

theorem connect_roundtrip_witness:
  "\<exists>n m got. MQTTSerialize_connect (replicate 26 0) 26 sample_session = Some (n, m) \<and> n = 26 \<and>
    MQTTDeserialize_connect MQTTPacket_connectData_initializer m n = Some (1, got) \<and> connect_received sample_session got"
proof -
  have small: "c_cleansession sample_session \<le> 1" "w_qos (c_will sample_session) < 4" "w_retained (c_will sample_session) \<le> 1"
    by (simp_all add: sample_session_def MQTTPacket_connectData_initializer_def MQTTPacket_willOptions_initializer_def)
  show ?thesis
    using connect_roundtrip [OF sample_session_ok(1) small, of 26 "replicate 26 0" MQTTPacket_connectData_initializer]
      sample_session_ok(2) by (simp add: sample_session_length estimate_surplus_def)
qed

text \<open>The server-side \<open>MQTTSerialize_connack\<close> guards with a size of 2 and writes 4 bytes: it
  is correct for every buffer of at least 4 bytes, leaves a buffer declared shorter than 2 alone,
  and runs over the end of a buffer of 2 or 3 bytes that is declared with its size.\<close>

theorem connack_serialized:
  "MQTTSerialize_connack buf buflen connack_rc sessionPresent =
    (if buflen < 2 then Some (MQTTPACKET_BUFFER_TOO_SHORT, buf)
     else if length buf < 4 then None
     else Some (4, patch buf 0 (connack_packet connack_rc sessionPresent)))"
  by (simp add: serialize_connack)

text \<open>The client's \<open>MQTTDeserialize_connack\<close> recovers the return code and the session flag of
  the CONNACK packet that the server side writes.\<close>

theorem connack_roundtrip:
  assumes "4 \<le> buflen" and "buflen \<le> int (length buf)" and "sessionPresent \<le> 1"
  shows "\<exists>m. MQTTSerialize_connack buf buflen connack_rc sessionPresent = Some (4, m) \<and>
    MQTTDeserialize_connack out m n = Some (1, out\<lparr>ka_sessionPresent := sessionPresent, ka_connack_rc := connack_rc\<rparr>)"
proof -
  let ?pkt = "connack_packet connack_rc sessionPresent"
  have "length ?pkt = 4" by (simp add: connack_packet_def)
  then have "patch buf 0 ?pkt = ?pkt @ drop 4 buf" by (simp add: patch_def)
  from deserialize_connack [OF this assms(3)] show ?thesis
    using assms(1,2) by (simp add: serialize_connack)
qed

theorem connack_roundtrip_witness:
  "\<exists>m. MQTTSerialize_connack [0, 0, 0, 0, 0] 5 5 1 = Some (4, m) \<and>
    MQTTDeserialize_connack \<lparr>ka_sessionPresent = 0, ka_connack_rc = 0\<rparr> m 5 =
      Some (1, \<lparr>ka_sessionPresent = 1, ka_connack_rc = 5\<rparr>)"
  using connack_roundtrip [of 5 "[0, 0, 0, 0, 0]" 1 5 "\<lparr>ka_sessionPresent = 0, ka_connack_rc = 0\<rparr>" 5] by simp

section \<open>Acknowledgements\<close>

text \<open>A PUBACK, PUBREC, PUBREL or PUBCOMP packet carries its type, its DUP flag and its packet
  identifier through \<open>MQTTSerialize_ack\<close> and \<open>MQTTDeserialize_ack\<close>; the serialiser never writes
  outside a buffer whose size it is told.\<close>

theorem ack_roundtrip:
  assumes "buflen \<le> int (length buf)" and "dup \<le> 1" and "packettype < 16"
  shows "if buflen < 4 then MQTTSerialize_ack buf buflen packettype dup packetid = Some (MQTTPACKET_BUFFER_TOO_SHORT, buf)
    else \<exists>m. MQTTSerialize_ack buf buflen packettype dup packetid = Some (4, m) \<and>
      MQTTDeserialize_ack out m n =
        Some (1, out\<lparr>ao_dup := dup, ao_packettype := packettype, ao_packetid := packetid\<rparr>)"
proof -
  let ?pkt = "ack_packet packettype dup packetid"
  have "patch buf 0 ?pkt = ?pkt @ drop 4 buf" by (simp add: patch_def)
  from deserialize_ack [OF this assms(2,3)] show ?thesis
    using assms(1) by (simp add: serialize_ack)
qed

theorem ack_roundtrip_witness:
  "\<exists>m. MQTTSerialize_ack [0, 0, 0, 0] 4 6 1 513 = Some (4, m) \<and>
    MQTTDeserialize_ack \<lparr>ao_packettype = 0, ao_dup = 0, ao_packetid = 0\<rparr> m 4 =
      Some (1, \<lparr>ao_packettype = 6, ao_dup = 1, ao_packetid = 513\<rparr>)"
  using ack_roundtrip [of 4 "[0, 0, 0, 0]" 1 6 513 "\<lparr>ao_packettype = 0, ao_dup = 0, ao_packetid = 0\<rparr>" 4] by simp

text \<open>An acknowledgement too short to hold a packet identifier is reported as read: the
  result is 1, the length of the length field, and the packet identifier keeps its old value.\<close>

theorem short_ack_accepted:
  assumes "buf = h # enc_len n @ rest" and "n < 2"
  shows "\<exists>got. MQTTDeserialize_ack out buf buflen = Some (1, got) \<and> ao_packetid got = ao_packetid out"
  using deserialize_ack_short [OF assms] by simp

theorem short_ack_accepted_witness:
  "\<exists>got. MQTTDeserialize_ack \<lparr>ao_packettype = 0, ao_dup = 0, ao_packetid = 77\<rparr> [0x40, 0] 2 = Some (1, got) \<and>
    ao_packetid got = 77"
  using short_ack_accepted [of "[0x40, 0]" "0x40" 0 "[]" "\<lparr>ao_packettype = 0, ao_dup = 0, ao_packetid = 77\<rparr>" 2]
  by (simp add: enc_len_small)

section \<open>Subscriptions\<close>

lemma filled_all:
  assumes "filled 0 ts fs gs" and "length ts = length fs" shows "map mstr_bytes gs = ts"
proof -
  obtain hs where hs: "gs = patch fs 0 hs" "map mstr_bytes hs = ts" using assms(1) by (auto simp: filled_def)
  then have "length hs = length fs" using assms(2) by (metis length_map)
  with hs show ?thesis by (simp add: patch_def)
qed

text \<open>C34: A SUBSCRIBE packet that fits its buffer is written, and a server with room for the requests reads back the packet identifier
  and every topic filter with its quality of service, in order. Otherwise the result is -2 and the buffer is left alone. As for
  PUBLISH packets, a packet whose remaining length is 127, 16383, 2097150 or 2097151 is refused although it fits, when the buffer has
  exactly its size.\<close>

theorem subscribe_roundtrip:
  assumes "list_all mstr_ok fs" and "length qs = length fs" and "list_all (\<lambda>q. 0 \<le> q \<and> q \<le> 2) qs"
    and "length (subscribe_body packetid (requests fs qs)) < 268435456" and "buflen \<le> int (length buf)"
    and "dup \<le> 1" and "length (so_topicFilters out) = length fs" and "length (so_requestedQoSs out) = length fs"
  shows "if int (length (subscribe_packet dup packetid (requests fs qs)) +
        estimate_surplus (length (subscribe_body packetid (requests fs qs)))) \<le> buflen
    then \<exists>n m got. MQTTSerialize_subscribe buf buflen dup packetid (int (length fs)) fs qs = Some (n, m) \<and>
      n = int (length (subscribe_packet dup packetid (requests fs qs))) \<and>
      MQTTDeserialize_subscribe out maxcount m n = Some (1, got) \<and> so_dup got = dup \<and> so_packetid got = packetid \<and>
      so_count got = int (length fs) \<and> map mstr_bytes (so_topicFilters got) = map mstr_bytes fs \<and>
      so_requestedQoSs got = qs
    else MQTTSerialize_subscribe buf buflen dup packetid (int (length fs)) fs qs = Some (MQTTPACKET_BUFFER_TOO_SHORT, buf)"
proof -
  let ?rs = "requests fs qs" and ?pkt = "subscribe_packet dup packetid (requests fs qs)"
  let ?n = "length (subscribe_body packetid (requests fs qs))"
  have size: "length ?pkt = 1 + length (enc_len ?n) + ?n" by (simp add: subscribe_packet_def)
  have fits: "fits ?n buflen \<longleftrightarrow> int (length ?pkt + estimate_surplus ?n) \<le> buflen"
    using fits_exact [OF assms(4), of buflen] by (simp only: size)
  note ser = serialize_subscribe [OF assms(1,2,4,5), of dup]
  show ?thesis
  proof (cases "fits ?n buflen")
    case True
    have len: "length ?rs = length fs" "map fst ?rs = map mstr_bytes fs" using assms(2) by (simp_all add: requests_def)
    have "list_all (\<lambda>r. length (fst r) < 65536) ?rs"
      using assms(1) mstr_okD by (auto simp: requests_def list_all_iff set_zip)
    moreover have n: "int (length ?pkt) \<le> buflen"
      using fits_length [OF True assms(4)] by (simp add: subscribe_packet_def)
    with assms(5) have "patch buf 0 ?pkt = ?pkt @ drop (length ?pkt) buf" by (simp add: patch_def)
    ultimately obtain gs where got: "MQTTDeserialize_subscribe out maxcount (patch buf 0 ?pkt) (int (length ?pkt)) =
        Some (1, out\<lparr>so_dup := dup, so_packetid := packetid, so_count := int (length fs), so_topicFilters := gs,
          so_requestedQoSs := patch (so_requestedQoSs out) 0 (map (\<lambda>r. sint (snd r)) ?rs)\<rparr>)"
      and gs: "filled 0 (map fst ?rs) (so_topicFilters out) gs"
      using deserialize_subscribe [of "patch buf 0 ?pkt" dup packetid ?rs _ out maxcount "int (length ?pkt)"] assms len
      by auto
    have "sint (word_of_int q :: u8) = q" if "0 \<le> q" "q \<le> 2" for q
      using that by (simp add: sint_word_ariths signed_take_bit_int_eq_self_iff signed_of_int)
    then have "map (\<lambda>r. sint (snd r)) ?rs = qs"
      using assms(2,3) by (intro nth_equalityI) (simp_all add: requests_def list_all_length)
    then have "patch (so_requestedQoSs out) 0 (map (\<lambda>r. sint (snd r)) ?rs) = qs"
      using assms(2,8) by (simp add: patch_def)
    moreover have "map mstr_bytes gs = map mstr_bytes fs"
      using filled_all [OF gs] len assms(7) by simp
    ultimately show ?thesis unfolding fits [symmetric] using got n True ser by auto
  next
    case False
    then show ?thesis unfolding fits [symmetric] using ser by simp
  qed
qed

theorem subscribe_roundtrip_witness:
  "\<exists>n m got. MQTTSerialize_subscribe (replicate 40 0) 40 0 9 2 [c_string (ascii ''a/b''), c_string (ascii ''#'')] [1, 2] =
      Some (n, m) \<and> n = 14 \<and>
    MQTTDeserialize_subscribe \<lparr>so_dup = 0, so_packetid = 0, so_count = 0,
      so_topicFilters = replicate 2 MQTTString_initializer, so_requestedQoSs = [0, 0]\<rparr> 2 m n = Some (1, got) \<and>
    so_dup got = 0 \<and> so_packetid got = 9 \<and> so_count got = 2 \<and>
    map mstr_bytes (so_topicFilters got) = [ascii ''a/b'', ascii ''#''] \<and> so_requestedQoSs got = [1, 2]"
  using subscribe_roundtrip [of "[c_string (ascii ''a/b''), c_string (ascii ''#'')]" "[1, 2]" 9 40 "replicate 40 0" 0
      "\<lparr>so_dup = 0, so_packetid = 0, so_count = 0,
      so_topicFilters = replicate 2 MQTTString_initializer, so_requestedQoSs = [0, 0]\<rparr>"
      2]
  by (simp add: subscribe_packet_def subscribe_body_def requests_def enc_len_small estimate_surplus_def)

text \<open>An UNSUBSCRIBE packet that fits its buffer is written, and the server reads back its packet identifier and all
  topic filters in order.\<close>

theorem unsubscribe_roundtrip:
  assumes "list_all mstr_ok fs"
    and "length (unsubscribe_body packetid (map mstr_bytes fs)) < 268435456" and "buflen \<le> int (length buf)"
    and "fits (length (unsubscribe_body packetid (map mstr_bytes fs))) buflen" and "dup \<le> 1"
    and "length (uo_topicFilters out) = length fs"
  shows "\<exists>n m got. MQTTSerialize_unsubscribe buf buflen dup packetid (int (length fs)) fs = Some (n, m) \<and> n \<le> buflen \<and>
    MQTTDeserialize_unsubscribe out maxcount m n = Some (1, got) \<and> uo_dup got = dup \<and> uo_packetid got = packetid \<and>
    uo_count got = int (length fs) \<and> map mstr_bytes (uo_topicFilters got) = map mstr_bytes fs"
proof -
  let ?ts = "map mstr_bytes fs" and ?pkt = "unsubscribe_packet dup packetid (map mstr_bytes fs)"
  have "list_all (\<lambda>t. length t < 65536) ?ts"
    using assms(1) mstr_okD by (auto simp: list_all_iff)
  moreover have n: "int (length ?pkt) \<le> buflen"
    using fits_length [OF assms(4,2)] by (simp add: unsubscribe_packet_def)
  with assms(3) have "patch buf 0 ?pkt = ?pkt @ drop (length ?pkt) buf" by (simp add: patch_def)
  ultimately obtain gs where got: "MQTTDeserialize_unsubscribe out maxcount (patch buf 0 ?pkt) (int (length ?pkt)) =
      Some (1, out\<lparr>uo_dup := dup, uo_packetid := packetid, uo_count := int (length fs), uo_topicFilters := gs\<rparr>)"
    and gs: "filled 0 ?ts (uo_topicFilters out) gs"
    using deserialize_unsubscribe [of "patch buf 0 ?pkt" dup packetid ?ts _ out maxcount "int (length ?pkt)"] assms
    by auto
  have "map mstr_bytes gs = ?ts"
    using filled_all [OF gs] assms(6) by simp
  then show ?thesis
    using got n assms(4) serialize_unsubscribe [OF assms(1-3), of dup] by auto
qed

theorem unsubscribe_roundtrip_witness:
  "\<exists>n m got. MQTTSerialize_unsubscribe (replicate 40 0) 40 0 9 1 [c_string (ascii ''a/b'')] = Some (n, m) \<and> n \<le> 40 \<and>
    MQTTDeserialize_unsubscribe \<lparr>uo_dup = 0, uo_packetid = 0, uo_count = 0,
      uo_topicFilters = [MQTTString_initializer]\<rparr> 1 m n = Some (1, got) \<and> uo_dup got = 0 \<and> uo_packetid got = 9 \<and>
    uo_count got = 1 \<and> map mstr_bytes (uo_topicFilters got) = [ascii ''a/b'']"
  using unsubscribe_roundtrip [of "[c_string (ascii ''a/b'')]" 9 40 "replicate 40 0" 0
      "\<lparr>uo_dup = 0, uo_packetid = 0, uo_count = 0, uo_topicFilters = [MQTTString_initializer]\<rparr>" 1]
  by (simp add: unsubscribe_body_def fits_def MQTTPacket_len_def c_add_def c_int_def int_min_def int_max_def)

text \<open>\<open>MQTTDeserialize_suback\<close>, called with the number of entries of its array, returns all
  granted qualities of service of a SUBACK packet that has no more of them, and writes past the
  end of the array for one that has more: its guard lets one entry too many through.\<close>

theorem suback_read:
  assumes "buf = suback_packet packetid gs @ rest" and "2 + length gs < 268435456"
    and "int (length (ko_grantedQoSs out)) = maxcount"
  shows "MQTTDeserialize_suback out maxcount buf buflen =
    (if length gs \<le> length (ko_grantedQoSs out)
     then Some (1, out\<lparr>ko_packetid := packetid, ko_count := int (length gs),
       ko_grantedQoSs := patch (ko_grantedQoSs out) 0 (map sint gs)\<rparr>)
     else None)"
  by (rule deserialize_suback [OF assms])

theorem suback_read_witness:
  "MQTTDeserialize_suback \<lparr>ko_packetid = 0, ko_count = 0, ko_grantedQoSs = [0]\<rparr> 1 [0x90, 3, 0, 7, 0x80] 5 =
      Some (1, \<lparr>ko_packetid = 7, ko_count = 1, ko_grantedQoSs = [-128]\<rparr>) \<and>
   MQTTDeserialize_suback \<lparr>ko_packetid = 0, ko_count = 0, ko_grantedQoSs = [0]\<rparr> 1 [0x90, 4, 0, 7, 1, 1] 6 = None"
proof -
  have pkt: "suback_packet 7 [0x80] = [0x90, 3, 0, 7, 0x80]" "suback_packet 7 [1, 1] = [0x90, 4, 0, 7, 1, 1]"
    by code_simp+
  show ?thesis
    using suback_read [of "[0x90, 3, 0, 7, 0x80]" 7 "[0x80]" "[]" "\<lparr>ko_packetid = 0, ko_count = 0, ko_grantedQoSs = [0]\<rparr>" 1 5]
      suback_read [of "[0x90, 4, 0, 7, 1, 1]" 7 "[1, 1]" "[]" "\<lparr>ko_packetid = 0, ko_count = 0, ko_grantedQoSs = [0]\<rparr>" 1 6]
    by (simp add: pkt patch_def)
qed

text \<open>The server-side \<open>MQTTSerialize_suback\<close> guards with the remaining length instead of the
  packet length: for a buffer declared with its size it writes the packet or reports a short
  buffer, except when the buffer is one or two bytes short of the packet, where it writes past
  its end.\<close>

theorem suback_serialized:
  assumes "length qs + 2 < 128" and "buflen = int (length buf)"
  shows "MQTTSerialize_suback buf buflen packetid (int (length qs)) qs =
    (if length buf < 2 + length qs then Some (MQTTPACKET_BUFFER_TOO_SHORT, buf)
     else if length buf < 4 + length qs then None
     else Some (int (4 + length qs), patch buf 0 (suback_packet packetid (map word_of_int qs))))"
proof -
  have "length (suback_packet packetid (map word_of_int qs)) = 4 + length qs"
    using assms(1) by (simp add: suback_packet_def enc_len_small)
  then show ?thesis
    using assms serialize_suback [of qs buf buflen packetid] by (simp add: Let_def int_max_def)
qed

theorem suback_serialized_witness:
  "MQTTSerialize_suback [0, 0, 0, 0] 4 7 1 [1] = None \<and>
   MQTTSerialize_suback [0, 0, 0, 0, 0] 5 7 1 [1] = Some (5, [0x90, 3, 0, 7, 1])"
proof -
  have "patch [0, 0, 0, 0, 0] 0 (suback_packet 7 [1]) = [0x90, 3, 0, 7, 1]" by code_simp
  then show ?thesis
    using suback_serialized [of "[1]" 4 "[0, 0, 0, 0]" 7] suback_serialized [of "[1]" 5 "[0, 0, 0, 0, 0]" 7] by simp
qed

end
