(* ===== verification/MQTTRead.thy ===== *)
theory MQTTRead
  imports MQTTBytes
begin

text \<open>
  Reading one packet from a transport: \<open>MQTTPacket_read\<close> and, for a transport that may have nothing
  to deliver yet, \<open>MQTTPacket_readnb\<close> with its state machine, from \<open>MQTTPacket/src/MQTTPacket.c\<close>.
\<close>

section \<open>The blocking reader\<close>

definition MQTTPacket_read :: "'s getfn \<Rightarrow> 's \<Rightarrow> bytes \<Rightarrow> int \<Rightarrow> (int \<times> bytes \<times> 's) option" where
  "MQTTPacket_read getfn s buf buflen =
     do { (rc, bs, s) \<leftarrow> getfn s 1;
          buf \<leftarrow> memcpy buf 0 bs (int (length bs));
          if rc \<noteq> 1 then Some (-1, buf, s)
          else do {
            let len = 1;
            (_, rem_len, s) \<leftarrow> MQTTPacket_decode getfn s;
            (buf, n) \<leftarrow> MQTTPacket_encode buf 1 rem_len;
            len \<leftarrow> c_add len n;
            total \<leftarrow> c_add rem_len len;
            if total > buflen then Some (-1, buf, s)
            else do {
              (rc, bs, s) \<leftarrow> getfn s rem_len;
              buf \<leftarrow> memcpy buf (nat len) bs (int (length bs));
              if rc \<noteq> rem_len then Some (-1, buf, s)
              else do { b \<leftarrow> load buf 0; Some (uint (h_type (header_bits b)), buf, s) } } } }"

text \<open>A transport that delivers as many bytes of its stream as it is asked for, if it has them.\<close>

locale stream_source =
  fixes getfn :: "'s getfn" and avail :: "'s \<Rightarrow> bytes"
  assumes get_many: "n \<le> length (avail s) \<Longrightarrow>
    \<exists>s'. getfn s (int n) = Some (int n, take n (avail s), s') \<and> avail s' = drop n (avail s)"

sublocale stream_source \<subseteq> byte_source getfn "\<lambda>s bs. avail s = bs"
proof (unfold_locales, goal_cases)
  case (1 s b bs)
  then show ?case using get_many [of 1 s] by simp
qed

context stream_source begin

lemma get_prefix:
  assumes "avail s = xs @ ys"
  shows "\<exists>s'. getfn s (int (length xs)) = Some (int (length xs), xs, s') \<and> avail s' = ys"
  using get_many [of "length xs" s] assms by simp

lemma read_header:
  assumes s: "avail s = h # enc_len n @ rest" and n: "n < 268435456" and room: "1 + length (enc_len n) \<le> length buf"
  shows "\<exists>s'. avail s' = rest \<and> MQTTPacket_read getfn s buf buflen =
    do { let len = int (1 + length (enc_len n));
         let buf = patch buf 0 (h # enc_len n);
         if int n + len > buflen then Some (-1, buf, s')
         else do {
           (rc, bs, s) \<leftarrow> getfn s' (int n);
           buf \<leftarrow> memcpy buf (nat len) bs (int (length bs));
           if rc \<noteq> int n then Some (-1, buf, s)
           else do { b \<leftarrow> load buf 0; Some (uint (h_type (header_bits b)), buf, s) } } }"
proof -
  obtain s1 where s1: "getfn s 1 = Some (1, [h], s1)" "avail s1 = enc_len n @ rest"
    using get1 [OF s] by blast
  obtain s2 where s2: "MQTTPacket_decode getfn s1 = Some (int (length (enc_len n)), int n, s2)" "avail s2 = rest"
    using decode_enc_len [OF s1(2) n] by blast
  have m: "memcpy buf 0 [h] (int (length [h])) = Some (patch buf 0 [h])"
    using memcpy_patch [of 1 "[h]" 0 buf "[]"] room by simp
  have "MQTTPacket_encode (patch buf 0 [h]) 1 (int n) =
      Some (patch (patch buf 0 [h]) 1 (enc_len n), int (length (enc_len n)))"
    using encode_loop_ok [of 1 0 n "patch buf 0 [h]"] room by (simp add: MQTTPacket_encode_def)
  moreover have "patch (patch buf 0 [h]) 1 (enc_len n) = patch buf 0 (h # enc_len n)"
    using patch_patch [of 0 "[h]" "enc_len n" buf] room by simp
  moreover have "length (enc_len n) \<le> 4" using n length_enc_len [of n] by (simp split: if_splits)
  ultimately have "c_add 1 (int (length (enc_len n))) = Some (int (1 + length (enc_len n)))"
    "c_add (int n) (int (1 + length (enc_len n))) = Some (int n + int (1 + length (enc_len n)))"
    "MQTTPacket_encode (patch buf 0 [h]) 1 (int n) = Some (patch buf 0 (h # enc_len n), int (length (enc_len n)))"
    using n by (simp_all add: int_min_def int_max_def)
  with s1 s2 m show ?thesis
    by (intro exI [of _ s2]) (simp add: MQTTPacket_read_def Let_def)
qed

lemma read_packet:
  assumes s: "avail s = h # enc_len (length body) @ body @ rest" and n: "length body < 268435456"
    and room: "int (1 + length (enc_len (length body)) + length body) \<le> buflen" "buflen \<le> int (length buf)"
  shows "\<exists>s'. MQTTPacket_read getfn s buf buflen =
      Some (uint (h_type (header_bits h)), patch buf 0 (h # enc_len (length body) @ body), s') \<and> avail s' = rest"
proof -
  let ?n = "length body" and ?len = "1 + length (enc_len (length body))"
  obtain s1 where s1: "avail s1 = body @ rest" and read: "MQTTPacket_read getfn s buf buflen =
    do { let len = int ?len;
         let buf = patch buf 0 (h # enc_len ?n);
         if int ?n + len > buflen then Some (-1, buf, s1)
         else do {
           (rc, bs, s) \<leftarrow> getfn s1 (int ?n);
           buf \<leftarrow> memcpy buf (nat len) bs (int (length bs));
           if rc \<noteq> int ?n then Some (-1, buf, s)
           else do { b \<leftarrow> load buf 0; Some (uint (h_type (header_bits b)), buf, s) } } }"
    using read_header [OF s n, of buf buflen] room by auto
  obtain s2 where s2: "getfn s1 (int ?n) = Some (int ?n, body, s2)" "avail s2 = rest"
    using get_prefix [OF s1] by blast
  let ?buf = "patch buf 0 (h # enc_len ?n)"
  have "memcpy ?buf ?len body (int ?n) = Some (patch ?buf ?len body)"
    using memcpy_patch [of "int ?n" body ?len ?buf "[]"] room by simp
  moreover have p: "patch ?buf ?len body = patch buf 0 (h # enc_len ?n @ body)"
    using patch_patch [of 0 "h # enc_len ?n" body buf] room by simp
  moreover have "load (patch buf 0 (h # enc_len ?n @ body)) 0 = Some h" by (simp add: load_def patch_def)
  ultimately show ?thesis
    using s2 room by (intro exI [of _ s2]) (simp add: read Let_def nat_add_distrib)
qed

lemma read_too_long:
  assumes s: "avail s = h # enc_len n @ rest" and n: "n < 268435456"
    and room: "buflen < int (1 + length (enc_len n) + n)" "1 + length (enc_len n) \<le> length buf"
  shows "\<exists>s'. MQTTPacket_read getfn s buf buflen = Some (-1, patch buf 0 (h # enc_len n), s') \<and> avail s' = rest"
  using read_header [OF s n room(2), of buflen] room(1) by auto

end

end
