(* ===== verification/MQTTReadNB.thy ===== *)
theory MQTTReadNB
  imports MQTTRead
begin

text \<open>
  The reader for a transport that may have nothing to deliver yet, \<open>MQTTPacket_readnb\<close> of
  \<open>MQTTPacket/src/MQTTPacket.c\<close>. It keeps what it has read of a packet in the caller's buffer and
  in \<open>MQTTTransport\<close>, and is called again until it returns something else than 0.
\<close>

section \<open>The state machine\<close>

text \<open>The callback \<open>getfn\<close> and its argument \<open>sck\<close> are parameters of the operations.\<close>

record MQTTTransport =
  tp_multiplier :: int
  tp_rem_len :: int
  tp_len :: int
  tp_state :: int

function MQTTPacket_decodenb_loop ::
    "'s getfn \<Rightarrow> MQTTTransport \<Rightarrow> 's \<Rightarrow> u8 option \<Rightarrow> (int \<times> MQTTTransport \<times> 's) option" where
  "MQTTPacket_decodenb_loop getfn trp s c =
     (case c_add (tp_len trp) 1 of None \<Rightarrow> None | Some l \<Rightarrow>
      let trp = trp\<lparr>tp_len := l\<rparr> in
      if l > MAX_NO_OF_REMAINING_LENGTH_BYTES then Some (MQTTPACKET_READ_ERROR, trp, s)
      else case getfn s 1 of None \<Rightarrow> None | Some (frc, bs, s) \<Rightarrow>
        if frc = -1 then Some (MQTTPACKET_READ_ERROR, trp, s)
        else if frc = 0 then Some (0, trp, s)
        else case stored c bs of None \<Rightarrow> None | Some c \<Rightarrow>
          (case c_add (tp_rem_len trp) (uint (c AND 127) * tp_multiplier trp) of None \<Rightarrow> None | Some r \<Rightarrow>
           case c_int (tp_multiplier trp * 128) of None \<Rightarrow> None | Some m \<Rightarrow>
             let trp = trp\<lparr>tp_rem_len := r, tp_multiplier := m\<rparr>
             in if c AND 128 \<noteq> 0 then MQTTPacket_decodenb_loop getfn trp s (Some c)
                else Some (tp_len trp, trp, s)))"
  by pat_completeness auto
termination
  by (relation "measure (\<lambda>(getfn, trp, s, c). nat (4 - tp_len trp))")
    (auto simp: MAX_NO_OF_REMAINING_LENGTH_BYTES_def dest!: c_add_SomeD [of _ 1])

declare MQTTPacket_decodenb_loop.simps [simp del]

definition MQTTPacket_decodenb :: "'s getfn \<Rightarrow> MQTTTransport \<Rightarrow> 's \<Rightarrow> (int \<times> MQTTTransport \<times> 's) option" where
  "MQTTPacket_decodenb getfn trp s =
     (let trp = (if tp_len trp = 0 then trp\<lparr>tp_multiplier := 1, tp_rem_len := 0\<rparr> else trp)
      in MQTTPacket_decodenb_loop getfn trp s None)"

type_synonym 's readnb = "(int \<times> bytes \<times> MQTTTransport \<times> 's) option"

text \<open>\<open>exit:\<close> the state is reset for the next packet.\<close>

definition readnb_exit :: "int \<Rightarrow> bytes \<Rightarrow> MQTTTransport \<Rightarrow> 's \<Rightarrow> 's readnb" where
  "readnb_exit rc buf trp s = Some (rc, buf, trp\<lparr>tp_state := 0\<rparr>, s)"

text \<open>\<open>case 2:\<close> the rest of the packet.\<close>

definition readnb_rest :: "'s getfn \<Rightarrow> bytes \<Rightarrow> MQTTTransport \<Rightarrow> 's \<Rightarrow> 's readnb" where
  "readnb_rest getfn buf trp s =
     do { (frc, bs, s) \<leftarrow> getfn s (tp_rem_len trp);
          buf \<leftarrow> memcpy buf (nat (tp_len trp)) bs (int (length bs));
          if frc = -1 then readnb_exit (-1) buf trp s
          else if frc = 0 then Some (0, buf, trp, s)
          else do {
            r \<leftarrow> c_int (tp_rem_len trp - frc);
            l \<leftarrow> c_add (tp_len trp) frc;
            let trp = trp\<lparr>tp_rem_len := r, tp_len := l\<rparr>;
            if r \<noteq> 0 then Some (0, buf, trp, s)
            else do { b \<leftarrow> load buf 0; readnb_exit (uint (h_type (header_bits b))) buf trp s } } }"

text \<open>\<open>case 1:\<close> the remaining length, which falls through to the rest.\<close>

definition readnb_length :: "'s getfn \<Rightarrow> bytes \<Rightarrow> int \<Rightarrow> MQTTTransport \<Rightarrow> 's \<Rightarrow> 's readnb" where
  "readnb_length getfn buf buflen trp s =
     do { (frc, trp, s) \<leftarrow> MQTTPacket_decodenb getfn trp s;
          if frc = MQTTPACKET_READ_ERROR then readnb_exit (-1) buf trp s
          else if frc = 0 then Some (0, buf, trp, s)
          else do {
            (buf, n) \<leftarrow> MQTTPacket_encode buf 1 (tp_rem_len trp);
            let trp = trp\<lparr>tp_len := 1 + n\<rparr>;
            total \<leftarrow> c_add (tp_rem_len trp) (tp_len trp);
            if total > buflen then readnb_exit (-1) buf trp s
            else readnb_rest getfn buf (trp\<lparr>tp_state := tp_state trp + 1\<rparr>) s } }"

text \<open>\<open>case 0:\<close> the header byte, which falls through to the remaining length.\<close>

definition readnb_header :: "'s getfn \<Rightarrow> bytes \<Rightarrow> int \<Rightarrow> MQTTTransport \<Rightarrow> 's \<Rightarrow> 's readnb" where
  "readnb_header getfn buf buflen trp s =
     do { (frc, bs, s) \<leftarrow> getfn s 1;
          buf \<leftarrow> memcpy buf 0 bs (int (length bs));
          if frc = -1 then readnb_exit (-1) buf trp s
          else if frc = 0 then Some (0, buf, trp, s)
          else readnb_length getfn buf buflen (trp\<lparr>tp_len := 0, tp_state := tp_state trp + 1\<rparr>) s }"

definition MQTTPacket_readnb :: "'s getfn \<Rightarrow> bytes \<Rightarrow> int \<Rightarrow> MQTTTransport \<Rightarrow> 's \<Rightarrow> 's readnb" where
  "MQTTPacket_readnb getfn buf buflen trp s =
     (if tp_state trp = 2 then readnb_rest getfn buf trp s
      else if tp_state trp = 1 then readnb_length getfn buf buflen trp s
      else readnb_header getfn buf buflen (trp\<lparr>tp_state := 0\<rparr>) s)"

section \<open>Progress through a packet\<close>

text \<open>A transport that delivers, of what it is asked for, as much as has arrived.\<close>

locale nb_source =
  fixes getfn :: "'s getfn" and avail :: "'s \<Rightarrow> bytes"
  assumes get_some: "\<exists>k s'. k \<le> n \<and> k \<le> length (avail s) \<and>
    getfn s (int n) = Some (int k, take k (avail s), s') \<and> avail s' = drop k (avail s)"
begin

lemma get_none: "\<exists>s'. getfn s 0 = Some (0, [], s') \<and> avail s' = avail s"
  using get_some [of 0 s] by auto

end

text \<open>How far the reader is in the packet \<open>h # enc_len (length body) @ body\<close>, when \<open>rest\<close> follows
  it in the stream whose unread part is \<open>av\<close>.\<close>

definition reading_body :: "u8 \<Rightarrow> bytes \<Rightarrow> bytes \<Rightarrow> bytes \<Rightarrow> MQTTTransport \<Rightarrow> bytes \<Rightarrow> bool" where
  "reading_body h body rest buf trp av \<longleftrightarrow>
     (\<exists>k < length body. tp_state trp = 2 \<and> tp_rem_len trp = int (length body - k) \<and>
        tp_len trp = int (1 + length (enc_len (length body)) + k) \<and> av = drop k body @ rest \<and>
        1 + length (enc_len (length body)) + length body \<le> length buf \<and> length body < 268435456 \<and>
        take (1 + length (enc_len (length body)) + k) buf = h # enc_len (length body) @ take k body)"

definition packet_done :: "u8 \<Rightarrow> bytes \<Rightarrow> bytes \<Rightarrow> bytes \<Rightarrow> MQTTTransport \<Rightarrow> bytes \<Rightarrow> bool" where
  "packet_done h body rest buf trp av \<longleftrightarrow>
     tp_state trp = 0 \<and> av = rest \<and>
     take (1 + length (enc_len (length body)) + length body) buf = h # enc_len (length body) @ body"

text \<open>Part of the length field has been read and its rest, the encoding of \<open>m\<close>, has not.\<close>

definition reading_length_value :: "MQTTTransport \<Rightarrow> nat \<Rightarrow> bytes \<Rightarrow> bytes \<Rightarrow> bool" where
  "reading_length_value trp n av tail \<longleftrightarrow>
     (\<exists>m. av = enc_len m @ tail \<and> tp_rem_len trp + int m * tp_multiplier trp = int n \<and> 0 \<le> tp_rem_len trp \<and>
        1 \<le> tp_multiplier trp \<and> tp_multiplier trp \<le> 128 ^ nat (tp_len trp))"

definition reading_length :: "u8 \<Rightarrow> bytes \<Rightarrow> bytes \<Rightarrow> bytes \<Rightarrow> MQTTTransport \<Rightarrow> bytes \<Rightarrow> bool" where
  "reading_length h body rest buf trp av \<longleftrightarrow>
     tp_state trp = 1 \<and> take 1 buf = [h] \<and> 0 \<le> tp_len trp \<and> tp_len trp \<le> 4 \<and>
     (if tp_len trp = 0 then av = enc_len (length body) @ body @ rest
      else reading_length_value trp (length body) av (body @ rest))"

definition reading_packet :: "u8 \<Rightarrow> bytes \<Rightarrow> bytes \<Rightarrow> bytes \<Rightarrow> MQTTTransport \<Rightarrow> bytes \<Rightarrow> bool" where
  "reading_packet h body rest buf trp av \<longleftrightarrow>
     tp_state trp = 0 \<and> av = h # enc_len (length body) @ body @ rest \<or>
     reading_length h body rest buf trp av \<or> reading_body h body rest buf trp av"

text \<open>A call ends in the middle of the packet, at its end, or after too many attempts at its length.\<close>

definition readnb_outcome :: "u8 \<Rightarrow> bytes \<Rightarrow> bytes \<Rightarrow> int \<Rightarrow> bytes \<Rightarrow> MQTTTransport \<Rightarrow> bytes \<Rightarrow> bool" where
  "readnb_outcome h body rest rc buf trp av \<longleftrightarrow>
     rc = 0 \<and> reading_packet h body rest buf trp av \<or>
     rc = uint (h_type (header_bits h)) \<and> packet_done h body rest buf trp av \<or>
     rc = -1 \<and> 4 < tp_len trp"

context nb_source begin

lemma rest_step:
  assumes "reading_body h body rest buf trp (avail s)"
  shows "\<exists>rc buf' trp' s'. readnb_rest getfn buf trp s = Some (rc, buf', trp', s') \<and>
    length buf' = length buf \<and>
    (rc = 0 \<and> reading_body h body rest buf' trp' (avail s') \<or>
     rc = uint (h_type (header_bits h)) \<and> packet_done h body rest buf' trp' (avail s'))"
proof -
  let ?o = "1 + length (enc_len (length body))"
  obtain k where k: "k < length body" and trp: "tp_state trp = 2" "tp_rem_len trp = int (length body - k)"
      "tp_len trp = int (?o + k)" and av: "avail s = drop k body @ rest"
    and room: "?o + length body \<le> length buf" "length body < 268435456"
    and got: "take (?o + k) buf = h # enc_len (length body) @ take k body"
    using assms unfolding reading_body_def by blast
  define L M where "L = ?o + k" and "M = length body - k"
  have LM: "tp_rem_len trp = int M" "tp_len trp = int L" by (simp_all add: trp L_def M_def)
  obtain j s' where j: "j \<le> M" and s': "avail s' = drop j (avail s)"
    and get: "getfn s (int M) = Some (int j, take j (avail s), s')"
    using get_some [of M s] by auto
  let ?bs = "take j (drop k body)"
  have bs: "take j (avail s) = ?bs" "length ?bs = j" using j k by (simp_all add: av M_def)
  have av': "avail s' = drop (k + j) body @ rest" using j k by (simp add: s' av M_def drop_drop add.commute)
  have L: "L + j \<le> length buf" "L < 268435461" and M: "M < 268435456"
    using j k room length_enc_len [of "length body"] by (auto simp: L_def M_def split: if_splits)
  have cp: "memcpy buf L ?bs (int j) = Some (patch buf L ?bs)"
    using memcpy_patch [of "int j" ?bs L buf "[]"] bs L by simp
  show ?thesis
  proof (cases "j = 0")
    case True
    then have "readnb_rest getfn buf trp s = Some (0, buf, trp, s')"
      using get cp bs LM by (simp add: readnb_rest_def)
    moreover have "avail s' = avail s" using s' True by simp
    ultimately show ?thesis using assms by auto
  next
    case False
    define buf' trp' where "buf' = patch buf L ?bs"
      and "trp' = trp\<lparr>tp_rem_len := int (M - j), tp_len := int (L + j)\<rparr>"
    have len: "length buf' = length buf" using L bs by (simp add: buf'_def)
    have "take (L + j) buf' = take L buf @ ?bs" using L bs by (simp add: buf'_def patch_def)
    then have got': "take (L + j) buf' = h # enc_len (length body) @ take (k + j) body"
      using got by (simp add: take_add L_def)
    then have "hd buf' = h" "buf' \<noteq> []" by (metis append_take_drop_id hd_append2 list.distinct(1) list.sel(1) take_Nil)+
    then have hd: "load buf' 0 = Some h" by (simp add: load_def hd_conv_nth)
    have "c_int (int M - int j) = Some (int (M - j))" "c_add (int L) (int j) = Some (int (L + j))"
      using j L M unfolding M_def by (simp_all add: int_min_def int_max_def of_nat_diff)
    then have step: "readnb_rest getfn buf trp s =
        (if M - j \<noteq> 0 then Some (0, buf', trp', s') else readnb_exit (uint (h_type (header_bits h))) buf' trp' s')"
      using get cp bs LM False hd j
      by (simp add: readnb_rest_def Let_def trp'_def of_nat_diff flip: buf'_def)
    show ?thesis
    proof (cases "M - j = 0")
      case True
      then have "k + j = length body" "L + j = ?o + length body" using j k by (simp_all add: M_def L_def)
      with True step got' av' len show ?thesis by (simp add: readnb_exit_def packet_done_def)
    next
      case more: False
      then have "k + j < length body" "M - j = length body - (k + j)" by (simp_all add: M_def)
      then have "reading_body h body rest buf' trp' (avail s')"
        using trp room len got' av' unfolding reading_body_def
        by (intro exI [of _ "k + j"]) (simp add: trp'_def L_def add.assoc)
      then show ?thesis using more step len by simp
    qed
  qed
qed

lemma decodenb_loop_step:
  assumes s: "avail s = enc_len m @ tail" and val: "tp_rem_len trp + int m * tp_multiplier trp = int n"
    and n: "n < 268435456" and mult: "1 \<le> tp_multiplier trp" "tp_multiplier trp \<le> 128 ^ nat (tp_len trp)"
    and len: "0 \<le> tp_len trp" "tp_len trp \<le> 5" and val0: "0 \<le> tp_rem_len trp"
  shows "\<exists>frc trp' s'. MQTTPacket_decodenb_loop getfn trp s c = Some (frc, trp', s') \<and> tp_state trp' = tp_state trp \<and>
    (frc = -1 \<and> 4 < tp_len trp' \<or>
     frc = 0 \<and> 0 < tp_len trp' \<and> tp_len trp' \<le> 4 \<and> reading_length_value trp' n (avail s') tail \<or>
     0 < frc \<and> tp_rem_len trp' = int n \<and> avail s' = tail)"
  using assms
proof (induction m arbitrary: trp s c rule: enc_len.induct)
  case (1 m)
  have add1: "c_add (tp_len trp) 1 = Some (tp_len trp + 1)" using 1(7,8) by (simp add: int_min_def int_max_def)
  show ?case
  proof (cases "tp_len trp + 1 > 4")
    case True
    then show ?thesis
      by (simp add: MQTTPacket_decodenb_loop.simps [of _ trp] add1 MAX_NO_OF_REMAINING_LENGTH_BYTES_def
          MQTTPACKET_READ_ERROR_def Let_def)
  next
    case False
    let ?trp = "trp\<lparr>tp_len := tp_len trp + 1\<rparr>"
    obtain k s' where k: "k \<le> 1" and s': "avail s' = drop k (avail s)"
      and get: "getfn s 1 = Some (int k, take k (avail s), s')" using get_some [of 1 s] by auto
    show ?thesis
    proof (cases "k = 0")
      case True
      have up: "tp_multiplier trp \<le> 128 ^ nat (tp_len trp + 1)"
        using 1(6) by (rule order_trans) (rule power_increasing, simp_all)
      from True show ?thesis
        using get s' add1 False 1(2-9) up
        by (simp add: MQTTPacket_decodenb_loop.simps [of _ trp] MAX_NO_OF_REMAINING_LENGTH_BYTES_def
            reading_length_value_def Let_def) force
    next
      case one: False
      with k have k1: "k = 1" by simp
      define b :: u8 where "b = (if m < 128 then of_nat m else of_nat (m mod 128 + 128))"
      have e: "enc_len m = b # (if m < 128 then [] else enc_len (m div 128))"
        by (simp add: enc_len.simps [of m] b_def)
      have ub: "unat b = (if m < 128 then m else m mod 128 + 128)"
      proof (cases "m < 128")
        case True
        moreover from this have "unat (of_nat m :: u8) = m" by (intro unat_of_nat_u8) simp
        ultimately show ?thesis by (simp add: b_def)
      next
        case False
        moreover have "unat (of_nat (m mod 128 + 128) :: u8) = m mod 128 + 128" by (intro unat_of_nat_u8) simp
        ultimately show ?thesis by (simp only: b_def if_False)
      qed
      have low: "uint (b AND 127) = int (m mod 128)"
      proof -
        have "uint (b AND 127) = int (unat b mod 128)" unfolding u8_and_127 zmod_int by simp
        also have "unat b mod 128 = m mod 128" by (simp add: ub)
        finally show ?thesis .
      qed
      have p4: "tp_multiplier trp \<le> 128 ^ 3" "tp_multiplier trp * 128 \<le> 128 ^ nat (tp_len trp + 1)"
      proof -
        show "tp_multiplier trp \<le> 128 ^ 3"
          using 1(6) by (rule order_trans) (rule power_increasing, use False in simp_all)
        have "nat (tp_len trp + 1) = Suc (nat (tp_len trp))" using 1(7) by (simp add: nat_add_distrib)
        then show "tp_multiplier trp * 128 \<le> 128 ^ nat (tp_len trp + 1)" using 1(6) by simp
      qed
      define r where "r = tp_rem_len trp + int (m mod 128) * tp_multiplier trp"
      have split: "r + int (m div 128) * (tp_multiplier trp * 128) = int n"
      proof -
        have "int m = int (m mod 128) + int (m div 128) * 128" by (simp add: zmod_int zdiv_int)
        then have "int m * tp_multiplier trp = (int (m mod 128) + int (m div 128) * 128) * tp_multiplier trp"
          by (rule arg_cong)
        with 1(3) show ?thesis by (simp add: r_def algebra_simps)
      qed
      have r0: "0 \<le> r" using 1(5,9) by (simp add: r_def)
      have "0 \<le> int (m div 128) * (tp_multiplier trp * 128)" using 1(5) by simp
      with split have rn: "r \<le> int n" by linarith
      have addr: "c_add (tp_rem_len trp) (int (m mod 128) * tp_multiplier trp) = Some r"
        using r0 rn 1(4) unfolding r_def by (intro c_add_Some) (simp_all add: int_min_def int_max_def)
      have mul: "c_int (tp_multiplier trp * 128) = Some (tp_multiplier trp * 128)"
        using p4(1) 1(5) by (intro c_int_Some) (simp_all add: int_min_def int_max_def)
      let ?trp = "trp\<lparr>tp_len := tp_len trp + 1, tp_rem_len := r, tp_multiplier := tp_multiplier trp * 128\<rparr>"
      have step: "MQTTPacket_decodenb_loop getfn trp s c =
        (if m < 128 then Some (tp_len trp + 1, ?trp, s') else MQTTPacket_decodenb_loop getfn ?trp s' (Some b))"
        using get add1 False addr mul k1 1(2) e ub
        by (simp add: MQTTPacket_decodenb_loop.simps [of _ trp] MAX_NO_OF_REMAINING_LENGTH_BYTES_def
            stored_def low u8_and_128 Let_def)
      show ?thesis
      proof (cases "m < 128")
        case True
        then show ?thesis using step split s' k1 1(2,7) e by simp
      next
        case False
        then have "avail s' = enc_len (m div 128) @ tail" using s' k1 1(2) e by simp
        from 1(1) [OF False, of s' ?trp "Some b", OF this] show ?thesis
          using step False split r0 p4(2) 1(4,5,7) \<open>\<not> tp_len trp + 1 > 4\<close> by simp
      qed
    qed
  qed
qed

lemma length_step:
  assumes "reading_length h body rest buf trp (avail s)" and "body \<noteq> []"
    and room: "int (1 + length (enc_len (length body)) + length body) \<le> buflen" "buflen \<le> int (length buf)"
      "length body < 268435456"
  shows "\<exists>rc buf' trp' s'. readnb_length getfn buf buflen trp s = Some (rc, buf', trp', s') \<and>
    length buf' = length buf \<and> readnb_outcome h body rest rc buf' trp' (avail s')"
proof -
  let ?n = "length body"
  define trp0 where "trp0 = (if tp_len trp = 0 then trp\<lparr>tp_multiplier := 1, tp_rem_len := 0\<rparr> else trp)"
  have st: "tp_state trp = 1" "0 \<le> tp_len trp" "tp_len trp \<le> 4" and buf: "take 1 buf = [h]"
    using assms(1) by (auto simp: reading_length_def)
  have same: "tp_len trp0 = tp_len trp" "tp_state trp0 = 1" by (simp_all add: trp0_def st)
  have "reading_length_value trp0 ?n (avail s) (body @ rest)"
    using assms(1) by (auto simp: reading_length_def reading_length_value_def trp0_def)
  then obtain m where m: "avail s = enc_len m @ body @ rest" "tp_rem_len trp0 + int m * tp_multiplier trp0 = int ?n"
    "0 \<le> tp_rem_len trp0" "1 \<le> tp_multiplier trp0" "tp_multiplier trp0 \<le> 128 ^ nat (tp_len trp0)"
    unfolding reading_length_value_def by blast
  obtain frc trp1 s1 where d: "MQTTPacket_decodenb getfn trp s = Some (frc, trp1, s1)" "tp_state trp1 = 1"
    and cases: "frc = -1 \<and> 4 < tp_len trp1 \<or>
     frc = 0 \<and> 0 < tp_len trp1 \<and> tp_len trp1 \<le> 4 \<and> reading_length_value trp1 ?n (avail s1) (body @ rest) \<or>
     0 < frc \<and> tp_rem_len trp1 = int ?n \<and> avail s1 = body @ rest"
    using decodenb_loop_step [OF m(1,2) room(3) m(4,5) _ _ m(3), of None] st
    by (auto simp: MQTTPacket_decodenb_def Let_def same simp flip: trp0_def)
  consider "frc = -1" "4 < tp_len trp1"
    | "frc = 0" "0 < tp_len trp1" "tp_len trp1 \<le> 4" "reading_length_value trp1 ?n (avail s1) (body @ rest)"
    | "0 < frc" "tp_rem_len trp1 = int ?n" "avail s1 = body @ rest" using cases by blast
  then show ?thesis
  proof cases
    case 1
    then show ?thesis
      using d by (simp add: readnb_length_def MQTTPACKET_READ_ERROR_def readnb_exit_def readnb_outcome_def)
  next
    case 2
    then have "reading_packet h body rest buf trp1 (avail s1)"
      using d buf by (simp add: reading_packet_def reading_length_def)
    with 2 show ?thesis
      using d by (simp add: readnb_length_def MQTTPACKET_READ_ERROR_def readnb_outcome_def)
  next
    case 3
    define buf1 trp2 where "buf1 = patch buf 1 (enc_len ?n)"
      and "trp2 = trp1\<lparr>tp_len := int (1 + length (enc_len ?n)), tp_state := 2\<rparr>"
    have enc: "MQTTPacket_encode buf 1 (int ?n) = Some (buf1, int (length (enc_len ?n)))"
      using encode_loop_ok [of 1 0 ?n buf] room by (simp add: MQTTPacket_encode_def buf1_def)
    have len: "length buf1 = length buf" using room by (simp add: buf1_def)
    have total: "c_add (int ?n) (1 + int (length (enc_len ?n))) = Some (int ?n + (1 + int (length (enc_len ?n))))"
      using room(3) length_enc_len [of ?n] by (intro c_add_Some) (auto simp: int_min_def int_max_def split: if_splits)
    have "0 < length (enc_len ?n)" by simp
    then have "2 \<le> length buf" using room(1,2) by linarith
    then have "take (1 + length (enc_len ?n)) buf1 = take 1 buf @ enc_len ?n"
      using room by (simp add: buf1_def patch_def min_def)
    then have "reading_body h body rest buf1 trp2 (avail s1)"
      unfolding reading_body_def using assms(2) 3 room len buf by (intro exI [of _ 0]) (simp add: trp2_def)
    from rest_step [OF this] obtain rc buf' trp' s' where
      "readnb_rest getfn buf1 trp2 s1 = Some (rc, buf', trp', s')" "length buf' = length buf1"
      "readnb_outcome h body rest rc buf' trp' (avail s')"
      unfolding readnb_outcome_def reading_packet_def by blast
    moreover have "readnb_length getfn buf buflen trp s = readnb_rest getfn buf1 trp2 s1"
      using d enc total 3 room by (simp add: readnb_length_def MQTTPACKET_READ_ERROR_def Let_def trp2_def)
    ultimately show ?thesis using len by auto
  qed
qed

lemma readnb_step:
  assumes "reading_packet h body rest buf trp (avail s)" and "body \<noteq> []"
    and room: "int (1 + length (enc_len (length body)) + length body) \<le> buflen" "buflen \<le> int (length buf)"
      "length body < 268435456"
  shows "\<exists>rc buf' trp' s'. MQTTPacket_readnb getfn buf buflen trp s = Some (rc, buf', trp', s') \<and>
    length buf' = length buf \<and> readnb_outcome h body rest rc buf' trp' (avail s')"
proof -
  consider "tp_state trp = 0" "avail s = h # enc_len (length body) @ body @ rest"
    | "reading_length h body rest buf trp (avail s)" | "reading_body h body rest buf trp (avail s)"
    using assms(1) unfolding reading_packet_def by blast
  then show ?thesis
  proof cases
    case 1
    obtain k s' where k: "k \<le> 1" and s': "avail s' = drop k (avail s)"
      and get: "getfn s 1 = Some (int k, take k (avail s), s')" using get_some [of 1 s] by auto
    show ?thesis
    proof (cases "k = 0")
      case True
      have "memcpy buf 0 [] 0 = Some buf" by (simp add: memcpy_def)
      then show ?thesis
        using get 1 True s' by (simp add: MQTTPacket_readnb_def readnb_header_def readnb_outcome_def reading_packet_def)
    next
      case False
      with k have k1: "k = 1" by simp
      let ?buf = "patch buf 0 [h]" and ?trp = "trp\<lparr>tp_len := 0, tp_state := 1\<rparr>"
      have len: "length ?buf = length buf" using room by simp
      have cp: "memcpy buf 0 [h] 1 = Some ?buf" using memcpy_patch [of 1 "[h]" 0 buf "[]"] room by simp
      have "reading_length h body rest ?buf ?trp (avail s')"
        using 1 k1 s' by (simp add: reading_length_def patch_def)
      from length_step [OF this assms(2) room(1) _ room(3)] show ?thesis
        using get 1 k1 cp len room(2) by (simp add: MQTTPacket_readnb_def readnb_header_def)
    qed
  next
    case 2
    then have "tp_state trp = 1" by (simp add: reading_length_def)
    with length_step [OF 2 assms(2) room] show ?thesis by (simp add: MQTTPacket_readnb_def)
  next
    case 3
    then have "tp_state trp = 2" by (auto simp: reading_body_def)
    with rest_step [OF 3] show ?thesis
      by (simp add: MQTTPacket_readnb_def readnb_outcome_def reading_packet_def) blast
  qed
qed

lemma readnb_no_body:
  assumes "tp_state trp = 2" and "tp_rem_len trp = 0" and "nat (tp_len trp) \<le> length buf"
  shows "\<exists>s'. MQTTPacket_readnb getfn buf buflen trp s = Some (0, buf, trp, s') \<and> avail s' = avail s"
proof -
  obtain s' where "getfn s 0 = Some (0, [], s')" "avail s' = avail s" using get_none by blast
  then show ?thesis using assms by (simp add: MQTTPacket_readnb_def readnb_rest_def memcpy_def)
qed

end

end
