(* ===== verification/Transport.thy ===== *)
theory Transport
  imports MQTTReadNB
begin

text \<open>
  The bridge's TCP transport, \<open>open62541_mqtt/mqtt/transport.c\<close>. The socket calls of the operating
  system are parameters (\<open>sockets\<close>), functions of its state \<open>'s\<close>; what the program relies on is
  in the locales \<open>tcp_socket\<close> and \<open>tcp_prompt\<close>.
\<close>

section \<open>The socket calls\<close>

record addrinfo =
  ai_family :: int
  ai_addr :: bytes

text \<open>\<open>recv\<close> gives the returned number and the bytes it stored; \<open>write\<close> is given the bytes that it reads.\<close>

record 's sockets =
  os_getaddrinfo :: "'s \<Rightarrow> bytes \<Rightarrow> int \<times> addrinfo list \<times> 's"
  os_socket :: "'s \<Rightarrow> int \<Rightarrow> int \<times> 's"
  os_connect :: "'s \<Rightarrow> int \<Rightarrow> int \<Rightarrow> bytes \<Rightarrow> u16 \<Rightarrow> int \<times> 's"
  os_rcvtimeo :: "'s \<Rightarrow> int \<Rightarrow> int \<times> int \<Rightarrow> int \<times> 's"
  os_recv :: "'s \<Rightarrow> int \<Rightarrow> int \<Rightarrow> int \<times> bytes \<times> 's"
  os_errno :: "'s \<Rightarrow> int"
  os_write :: "'s \<Rightarrow> int \<Rightarrow> bytes \<Rightarrow> int \<times> 's"
  os_shutdown :: "'s \<Rightarrow> int \<Rightarrow> int \<times> 's"
  os_close :: "'s \<Rightarrow> int \<Rightarrow> int \<times> 's"

definition AF_INET :: int where "AF_INET = 2"
definition AF_INET6 :: int where "AF_INET6 = 10"
definition INVALID_SOCKET :: int where "INVALID_SOCKET = -1"

section \<open>The transport\<close>

text \<open>The static variable \<open>mysock\<close> and the state of the operating system.\<close>

record 's transport =
  mysock :: int
  os :: 's

text \<open>\<open>write(sock, buf, buflen)\<close> reads \<open>buflen\<close> bytes, as a \<open>size_t\<close>, from \<open>buf\<close>.\<close>

definition os_write_buf :: "'s sockets \<Rightarrow> int \<Rightarrow> bytes \<Rightarrow> int \<Rightarrow> 's \<Rightarrow> (int \<times> 's) option" where
  "os_write_buf api sock buf buflen s =
     (if 0 \<le> buflen \<and> nat buflen \<le> length buf then Some (os_write api s sock (take (nat buflen) buf)) else None)"

definition transport_sendPacketBuffer ::
    "'s sockets \<Rightarrow> int \<Rightarrow> bytes \<Rightarrow> int \<Rightarrow> 's transport \<Rightarrow> (int \<times> 's transport) option" where
  "transport_sendPacketBuffer api sock buf buflen st =
     do { (rc, s) \<leftarrow> os_write_buf api sock buf buflen (os st); Some (rc, st\<lparr>os := s\<rparr>) }"

text \<open>The callback reads the socket in the static variable \<open>mysock\<close>, which is its argument here.\<close>

definition transport_getdata :: "'s sockets \<Rightarrow> int \<Rightarrow> 's getfn" where
  "transport_getdata api sck s count =
     (case os_recv api s sck count of (rc, bs, s) \<Rightarrow> Some (rc, bs, s))"

definition transport_getdatanb :: "'s sockets \<Rightarrow> int \<Rightarrow> 's getfn" where
  "transport_getdatanb api sock s count =
     (case os_recv api s sock count of (rc, bs, s) \<Rightarrow> if rc = -1 then Some (0, bs, s) else Some (rc, bs, s))"

text \<open>\<open>while (res)\<close>: the first IPv4 entry of the list if there is one; \<open>result\<close> points into the list.\<close>

fun prefer_ip4 :: "addrinfo list \<Rightarrow> addrinfo list \<Rightarrow> addrinfo list" where
  "prefer_ip4 result [] = result"
| "prefer_ip4 result (res # next) = (if ai_family res = AF_INET then res # next else prefer_ip4 result next)"

definition transport_resolve :: "'s sockets \<Rightarrow> bytes \<Rightarrow> 's \<Rightarrow> (int \<times> int \<times> bytes \<times> 's) option" where
  "transport_resolve api addr s =
     do { a0 \<leftarrow> load addr 0;
          let addr = (if a0 = of_char (CHR ''['') then tl addr else addr);
          (let (rc, result, s) = os_getaddrinfo api s addr
           in if rc = 0
              then (case prefer_ip4 result result of
                  [] \<Rightarrow> None
                | r # _ \<Rightarrow>
                    if ai_family r = AF_INET6 \<or> ai_family r = AF_INET then Some (rc, ai_family r, ai_addr r, s)
                    else Some (-1, AF_INET, [], s))
              else Some (rc, AF_INET, [], s)) }"

definition transport_open :: "'s sockets \<Rightarrow> bytes \<Rightarrow> int \<Rightarrow> 's transport \<Rightarrow> (int \<times> 's transport) option" where
  "transport_open api addr port st =
     do { let st = st\<lparr>mysock := -1\<rparr>;
          (rc, family, address, s) \<leftarrow> transport_resolve api addr (os st);
          let st = st\<lparr>os := s\<rparr>;
          (let (rc, st) =
             (if rc = 0
              then (let (sock, s) = os_socket api (os st) family; st = st\<lparr>mysock := sock, os := s\<rparr>
                    in if sock \<noteq> -1
                       then (let (rc, s) = os_connect api (os st) sock family address (word_of_int port)
                             in (rc, st\<lparr>os := s\<rparr>))
                       else (rc, st))
              else (rc, st))
           in if mysock st = INVALID_SOCKET then Some (rc, st)
              else (let (_, s) = os_rcvtimeo api (os st) (mysock st) (1, 0)
                    in Some (mysock st, st\<lparr>os := s\<rparr>))) }"

definition transport_close :: "'s sockets \<Rightarrow> int \<Rightarrow> 's transport \<Rightarrow> int \<times> 's transport" where
  "transport_close api sock st =
     (let (rc, s) = os_shutdown api (os st) sock;
          (rc, _, s) = os_recv api s sock 0;
          (rc, s) = os_close api s sock
      in (rc, st\<lparr>os := s\<rparr>))"

section \<open>What the readers rely on\<close>

text \<open>A stream socket: \<open>recv\<close> fails and delivers nothing, or delivers the next bytes of the stream, as
  many as it wants up to the count.\<close>

locale tcp_socket =
  fixes api :: "'s sockets" and sock :: int and pending :: "'s \<Rightarrow> bytes"
  assumes recv_prefix: "\<exists>s'. os_recv api s sock (int n) = (-1, [], s') \<and> pending s' = pending s \<or>
    (\<exists>k. k \<le> n \<and> k \<le> length (pending s) \<and>
       os_recv api s sock (int n) = (int k, take k (pending s), s') \<and> pending s' = drop k (pending s))"

sublocale tcp_socket \<subseteq> nb_source "transport_getdatanb api sock" pending
proof (unfold_locales, goal_cases)
  case (1 n s)
  consider s' where "os_recv api s sock (int n) = (-1, [], s')" "pending s' = pending s"
    | s' k where "k \<le> n" "k \<le> length (pending s)" "os_recv api s sock (int n) = (int k, take k (pending s), s')"
      "pending s' = drop k (pending s)"
    using recv_prefix [of s n] by blast
  then show ?case
  proof cases
    case (1 s')
    then show ?thesis by (intro exI [of _ 0] exI [of _ s']) (simp add: transport_getdatanb_def)
  next
    case (2 s' k)
    then show ?thesis by (intro exI [of _ k] exI [of _ s']) (simp add: transport_getdatanb_def)
  qed
qed

text \<open>A socket on which \<open>recv\<close> delivers all it is asked for whenever that much is in the stream, which
  is what \<open>MQTTPacket_read\<close> needs.\<close>

locale tcp_prompt = tcp_socket +
  assumes recv_all: "n \<le> length (pending s) \<Longrightarrow>
    \<exists>s'. os_recv api s sock (int n) = (int n, take n (pending s), s')"

context tcp_prompt begin

lemma recv_many:
  assumes "n \<le> length (pending s)"
  shows "\<exists>s'. os_recv api s sock (int n) = (int n, take n (pending s), s') \<and> pending s' = drop n (pending s)"
  using recv_all [OF assms] recv_prefix [of s n] by auto

end

sublocale tcp_prompt \<subseteq> stream_source "transport_getdata api sock" pending
proof (unfold_locales, goal_cases)
  case (1 n s)
  from recv_many [OF this] show ?case by (auto simp: transport_getdata_def)
qed

section \<open>A socket as a queue of segments\<close>

text \<open>A concrete operating system to instantiate the parameters: the stream of every socket is a queue of
  the segments that have arrived, \<open>recv\<close> delivers from the first one, an empty segment stands
  for a timeout, and what is written is kept.\<close>

record segments =
  seg_in :: "bytes list"
  seg_out :: bytes

fun seg_recv :: "bytes list \<Rightarrow> nat \<Rightarrow> int \<times> bytes \<times> bytes list" where
  "seg_recv [] n = (if n = 0 then (0, [], []) else (-1, [], []))"
| "seg_recv (x # xs) n =
     (if n = 0 then (0, [], x # xs)
      else if x = [] then (-1, [], xs)
      else if length x \<le> n then (int (length x), x, xs)
      else (int n, take n x, drop n x # xs))"

definition segment_sockets :: "'a segments_scheme sockets" where
  "segment_sockets = \<lparr>
     os_getaddrinfo = \<lambda>s a. (0, [\<lparr>ai_family = AF_INET, ai_addr = a\<rparr>], s),
     os_socket = \<lambda>s f. (3, s),
     os_connect = \<lambda>s sock f a p. (0, s),
     os_rcvtimeo = \<lambda>s sock tv. (0, s),
     os_recv = \<lambda>s sock n. (case seg_recv (seg_in s) (nat n) of (rc, bs, xs) \<Rightarrow> (rc, bs, s\<lparr>seg_in := xs\<rparr>)),
     os_errno = \<lambda>s. 11,
     os_write = \<lambda>s sock bs. (int (length bs), s\<lparr>seg_out := seg_out s @ bs\<rparr>),
     os_shutdown = \<lambda>s sock. (0, s),
     os_close = \<lambda>s sock. (0, s)\<rparr>"

interpretation segment_socket: tcp_socket segment_sockets sock "\<lambda>s. concat (seg_in s)"
proof (unfold_locales, goal_cases)
  case (1 s n)
  have "(\<exists>xs. seg_recv ys n = (-1, [], xs) \<and> concat xs = concat ys) \<or>
    (\<exists>k xs. k \<le> n \<and> k \<le> length (concat ys) \<and> seg_recv ys n = (int k, take k (concat ys), xs) \<and>
       concat xs = drop k (concat ys))" for ys
    by (cases ys) (auto intro: exI [of _ n])
  from this [of "seg_in s"] show ?case
    by (auto simp: segment_sockets_def)
qed

text \<open>The same system when all that is sent has arrived: one segment.\<close>

definition joined_sockets :: "'a segments_scheme sockets" where
  "joined_sockets = segment_sockets\<lparr>os_recv := \<lambda>s sock n.
     (case seg_recv [concat (seg_in s)] (nat n) of (rc, bs, xs) \<Rightarrow> (rc, bs, s\<lparr>seg_in := xs\<rparr>))\<rparr>"

interpretation joined_socket: tcp_prompt joined_sockets sock "\<lambda>s. concat (seg_in s)"
proof (unfold_locales, goal_cases)
  case (1 s n)
  then show ?case by (auto simp: joined_sockets_def intro: exI [of _ n])
next
  case (2 n s)
  have "n \<le> length c \<Longrightarrow> \<exists>xs. seg_recv [c] n = (int n, take n c, xs)" for c by auto
  from this [OF 2] obtain xs where "seg_recv [concat (seg_in s)] n = (int n, take n (concat (seg_in s)), xs)" by blast
  then show ?case by (simp add: joined_sockets_def del: seg_recv.simps)
qed

end
