(* ===== verification/BridgeMQTT.thy ===== *)
theory BridgeMQTT
  imports MQTTSubscribeDecode MQTTConnect Transport
begin

text \<open>
  The bridge's MQTT client, \<open>open62541_mqtt/mqtt/client-mqtt.c\<close>: connecting to the broker,
  publishing a value and the main loop of its thread. The socket calls are the parameter \<open>api\<close>,
  an uninitialised local variable is an argument (its value is whatever the stack holds), and the
  values that the program reads from \<open>beStop\<close>, which another thread sets, are a list.
\<close>

section \<open>The client\<close>

record mqtt_config =
  mqttBrockerIP :: bytes
  mqttBrockerPORT :: int

text \<open>The static variable \<open>sock\<close> and the transport.\<close>

record 's bridge =
  br_sock :: int
  br_tr :: "'s transport"

definition bridge_data :: MQTTPacket_connectData where
  "bridge_data = MQTTPacket_connectData_initializer\<lparr>
     c_clientID := (c_clientID MQTTPacket_connectData_initializer)\<lparr>cstring := Some (ascii ''public'')\<rparr>,
     c_keepAliveInterval := 20, c_cleansession := 1,
     c_username := (c_username MQTTPacket_connectData_initializer)\<lparr>cstring := Some []\<rparr>,
     c_password := (c_password MQTTPacket_connectData_initializer)\<lparr>cstring := Some []\<rparr>\<rparr>"

definition mqtt_connect ::
    "'s sockets \<Rightarrow> mqtt_config \<Rightarrow> bytes \<Rightarrow> connack_out \<Rightarrow> 's bridge \<Rightarrow> (int \<times> 's bridge) option" where
  "mqtt_connect api g_config buf locals br =
     do { let buflen = int (length buf);
          (sck, tr) \<leftarrow> transport_open api (mqttBrockerIP g_config) (mqttBrockerPORT g_config) (br_tr br);
          let br = br\<lparr>br_sock := sck, br_tr := tr\<rparr>;
          if sck < 0 then Some (sck, br)
          else do {
            (len, buf) \<leftarrow> MQTTSerialize_connect buf buflen bridge_data;
            (rc, tr) \<leftarrow> transport_sendPacketBuffer api (br_sock br) buf len (br_tr br);
            (packet, buf, s) \<leftarrow> MQTTPacket_read (transport_getdata api (mysock tr)) (os tr) buf buflen;
            let br = br\<lparr>br_tr := tr\<lparr>os := s\<rparr>\<rparr>;
            if packet = int (msg_code CONNACK)
            then do {
              (ok, out) \<leftarrow> MQTTDeserialize_connack locals buf buflen;
              if ok \<noteq> 1 \<or> ka_connack_rc out \<noteq> 0 then Some (-1, br) else Some (0, br) }
            else Some (-1, br) } }"

text \<open>\<open>topic\<close> and \<open>value\<close> are C strings; the buffer is \<open>buf[200]\<close>, filled with zero.\<close>

definition mqtt_publish :: "'s sockets \<Rightarrow> bytes \<Rightarrow> bytes \<Rightarrow> 's bridge \<Rightarrow> (int \<times> 's bridge) option" where
  "mqtt_publish api topic val br =
     do { let buf = replicate 200 0;
          let buflen = int (length buf);
          let topicString = MQTTString_initializer\<lparr>cstring := Some topic\<rparr>;
          (len, buf) \<leftarrow> MQTTSerialize_publish buf buflen 0 0 0 0 topicString (val @ [0]) (to_int (int (length val)));
          (rc, tr) \<leftarrow> transport_sendPacketBuffer api (br_sock br) buf len (br_tr br);
          Some (rc, br\<lparr>br_tr := tr\<rparr>) }"

text \<open>\<open>do rc = mqtt_connect(argc, argv); while (!beStop && rc < 0)\<close>\<close>

fun mqtt_connect_loop ::
    "'s sockets \<Rightarrow> mqtt_config \<Rightarrow> bytes \<Rightarrow> connack_out \<Rightarrow> bool list \<Rightarrow> 's bridge \<Rightarrow> (bool list \<times> 's bridge) option" where
  "mqtt_connect_loop api g_config buf locals [] br = None"
| "mqtt_connect_loop api g_config buf locals (beStop # stops) br =
     (case mqtt_connect api g_config buf locals br of
        None \<Rightarrow> None
      | Some (rc, br) \<Rightarrow>
          if \<not> beStop \<and> rc < 0 then mqtt_connect_loop api g_config buf locals stops br else Some (stops, br))"

text \<open>\<open>while (!beStop) sleep(3)\<close>\<close>

fun mqtt_wait_loop :: "bool list \<Rightarrow> bool list option" where
  "mqtt_wait_loop [] = None"
| "mqtt_wait_loop (beStop # stops) = (if beStop then Some stops else mqtt_wait_loop stops)"

definition mqtt_main ::
    "'s sockets \<Rightarrow> bool \<Rightarrow> mqtt_config \<Rightarrow> bytes \<Rightarrow> connack_out \<Rightarrow> bytes \<Rightarrow> bool list \<Rightarrow> 's bridge \<Rightarrow>
     (int \<times> 's bridge) option" where
  "mqtt_main api mqttEnable g_config cbuf locals buf stops br =
     (if \<not> mqttEnable then Some (0, br)
      else do {
        (stops, br) \<leftarrow> mqtt_connect_loop api g_config cbuf locals stops br;
        stops \<leftarrow> mqtt_wait_loop stops;
        let buflen = int (length buf);
        (len, buf) \<leftarrow> MQTTSerialize_disconnect buf buflen;
        (rc, tr) \<leftarrow> transport_sendPacketBuffer api (br_sock br) buf len (br_tr br);
        let (rc, tr) = transport_close api (br_sock br) tr;
        Some (0, br\<lparr>br_tr := tr\<rparr>) })"

section \<open>Publishing\<close>

lemma fits_200: "n < 268435456 \<Longrightarrow> fits n 200 \<longleftrightarrow> n \<le> 197"
  by (auto simp: fits_def MQTTPacket_len_def c_add_def c_int_def int_min_def int_max_def)

lemma mqtt_publish_cases:
  assumes "length topic < 65536" and "length val < 100000000"
  shows "mqtt_publish api topic val br =
    (if length topic + length val \<le> 195
     then (case os_write api (os (br_tr br)) (br_sock br) (publish_packet 0 0 0 0 topic val) of
        (rc, s) \<Rightarrow> Some (rc, br\<lparr>br_tr := (br_tr br)\<lparr>os := s\<rparr>\<rparr>))
     else None)"
proof -
  let ?n = "length (publish_body 0 0 topic val)" and ?pkt = "publish_packet 0 0 0 0 topic val"
  have n: "?n = length topic + 2 + length val" "?n < 268435456" using assms by (simp_all add: length_publish_body)
  have t: "mstr_ok (c_string topic)" using assms(1) by simp
  have ser: "MQTTSerialize_publish (replicate 200 0) 200 0 0 0 0 (c_string topic) (val @ [0]) (int (length val)) =
      (if fits ?n 200 then Some (int (length ?pkt), patch (replicate 200 0) 0 ?pkt)
       else Some (MQTTPACKET_BUFFER_TOO_SHORT, replicate 200 0))"
    using serialize_publish [OF t, of 0 0 val 200 "replicate 200 0" 0 0 "[0]"] n(2) by (simp add: Let_def)
  have short: "length ?pkt \<le> 200" if "fits ?n 200"
    using fits_length [OF that n(2)] by (simp add: publish_packet_def Let_def)
  have "to_int (int (length val)) = int (length val)" using assms(2) by (simp add: int_max_def)
  then show ?thesis
    using ser short fits_200 [OF n(2)] n(1)
    by (auto simp: mqtt_publish_def Let_def transport_sendPacketBuffer_def os_write_buf_def take_patch0
        MQTTPACKET_BUFFER_TOO_SHORT_def split: prod.splits simp flip: c_string_def)
qed

section \<open>Connecting\<close>

lemma bridge_data_ok: "connect_ok bridge_data" "\<not> credentials_ok bridge_data"
  by (simp_all add: bridge_data_def connect_ok_def credentials_ok_def MQTTPacket_connectData_initializer_def
      mstr_ok_def mstr_bytes_def mstr_given_def MQTTString_initializer_def)

lemma length_bridge_packet: "length (connect_packet bridge_data) = 24"
proof -
  have "length (connect_body bridge_data) = 22"
    by (simp add: bridge_data_def connect_body_def connect_payload_def connect_protocol_def mstr_given_def
        MQTTPacket_connectData_initializer_def mstr_bytes_def MQTTString_initializer_def)
  then show ?thesis by (simp add: connect_packet_def enc_len_small)
qed

lemma serialize_bridge_data:
  assumes "25 \<le> length buf"
  shows "MQTTSerialize_connect buf (int (length buf)) bridge_data =
    Some (24, patch buf 0 (connect_packet bridge_data))"
proof -
  have n: "length (connect_body bridge_data) = 22"
    using length_bridge_packet length_enc_len [of "length (connect_body bridge_data)"]
    by (simp add: connect_packet_def split: if_splits)
  have "fits (length (connect_body bridge_data)) (int (length buf))"
    using assms unfolding n by (intro fits_enough) (simp_all add: enc_len_small)
  with serialize_connect [OF bridge_data_ok(1), of "int (length buf)" buf] show ?thesis
    by (simp add: length_bridge_packet)
qed

context tcp_prompt begin

lemma mqtt_connect_answered:
  assumes op: "transport_open api (mqttBrockerIP cfg) (mqttBrockerPORT cfg) (br_tr br) = Some (sock, tr)"
      "mysock tr = sock" "0 \<le> sock"
    and wr: "os_write api (os tr) sock (connect_packet bridge_data) = (n, s)"
      "pending s = connack_answer flags code @ rest" and buf: "length buf = 128"
  shows "\<exists>br'. mqtt_connect api cfg buf locals br = Some (if code = 0 then 0 else -1, br') \<and>
    br_sock br' = sock \<and> pending (os (br_tr br')) = rest"
proof -
  let ?pkt = "connect_packet bridge_data" and ?h = "header_byte (header_zero\<lparr>h_type := type_code CONNACK\<rparr>)"
  let ?buf = "patch buf 0 (connect_packet bridge_data)"
  let ?buf2 = "patch ?buf 0 (?h # enc_len 2 @ [flags, code])"
  have ser: "MQTTSerialize_connect buf 128 bridge_data = Some (24, ?buf)"
    using serialize_bridge_data [of buf] buf by simp
  have len: "length ?buf = 128" using buf by (simp add: length_bridge_packet)
  have "take 24 ?buf = ?pkt"
    using take_patch0 [of ?pkt buf] length_bridge_packet buf by simp
  then have sent: "transport_sendPacketBuffer api sock ?buf 24 tr = Some (n, tr\<lparr>os := s\<rparr>)"
    using wr(1) len by (simp add: transport_sendPacketBuffer_def os_write_buf_def)
  have "pending s = ?h # enc_len (length [flags, code]) @ [flags, code] @ rest"
    using wr(2) by (simp add: connack_answer_def numeral_2_eq_2)
  from read_packet [OF this, of 128 ?buf] obtain s' where
    read: "MQTTPacket_read (transport_getdata api sock) s ?buf 128 = Some (2, ?buf2, s')" "pending s' = rest"
    using len by (auto simp: enc_len_small connack_type numeral_2_eq_2)
  obtain tail where "?buf2 = ?h # 2 # flags # code # tail"
    by (simp add: patch_def enc_len_small)
  from deserialize_connack_bytes [OF this] have ack: "MQTTDeserialize_connack locals ?buf2 128 =
      Some (1, locals\<lparr>ka_sessionPresent := ucast (ka_sessionpresent (connack_flags_bits flags)), ka_connack_rc := code\<rparr>)" .
  show ?thesis
    using op ser sent read ack buf by (simp add: mqtt_connect_def Let_def)
qed

end

section \<open>Opening the connection\<close>

lemma prefer_ip4_first:
  "prefer_ip4 result rs = (case dropWhile (\<lambda>r. ai_family r \<noteq> AF_INET) rs of [] \<Rightarrow> result | r # rs \<Rightarrow> r # rs)"
  by (induction rs) simp_all

lemma transport_open_cases:
  assumes "addr = a0 # rest" and "a0 \<noteq> of_char (CHR ''['')"
    and "os_getaddrinfo api (os st) addr = (0, result, s1)"
    and "prefer_ip4 result result = r # rs" and "ai_family r = AF_INET \<or> ai_family r = AF_INET6"
    and "os_socket api s1 (ai_family r) = (sck, s2)" and "sck \<noteq> -1"
    and "os_connect api s2 sck (ai_family r) (ai_addr r) (word_of_int port) = (rc, s3)"
    and "os_rcvtimeo api s3 sck (1, 0) = (rc', s4)"
  shows "transport_open api addr port st = Some (sck, st\<lparr>mysock := sck, os := s4\<rparr>)"
  using assms by (auto simp: transport_open_def transport_resolve_def INVALID_SOCKET_def)

end
