(* ===== verification/MQTTLinux.thy ===== *)
theory MQTTLinux
  imports Transport
begin

text \<open>
  The Linux platform of the MQTT client, \<open>MQTTClient-C/src/linux/MQTTLinux.c\<close>: timers over
  \<open>struct timeval\<close>, and blocking reads and writes on a socket. The time that
  \<open>gettimeofday\<close> gives is an argument \<open>now\<close> of the timer operations.
\<close>

section \<open>Timers\<close>

record timeval =
  tv_sec :: int
  tv_usec :: int

text \<open>The macros of \<open>sys/time.h\<close>.\<close>

definition timersub :: "timeval \<Rightarrow> timeval \<Rightarrow> timeval" where
  "timersub a b =
     (let s = tv_sec a - tv_sec b; u = tv_usec a - tv_usec b
      in if u < 0 then \<lparr>tv_sec = s - 1, tv_usec = u + 1000000\<rparr> else \<lparr>tv_sec = s, tv_usec = u\<rparr>)"

definition timeradd :: "timeval \<Rightarrow> timeval \<Rightarrow> timeval" where
  "timeradd a b =
     (let s = tv_sec a + tv_sec b; u = tv_usec a + tv_usec b
      in if u \<ge> 1000000 then \<lparr>tv_sec = s + 1, tv_usec = u - 1000000\<rparr> else \<lparr>tv_sec = s, tv_usec = u\<rparr>)"

definition TimerInit :: timeval where
  "TimerInit = \<lparr>tv_sec = 0, tv_usec = 0\<rparr>"

definition TimerIsExpired :: "timeval \<Rightarrow> timeval \<Rightarrow> bool" where
  "TimerIsExpired now end_time =
     (let res = timersub end_time now in tv_sec res < 0 \<or> (tv_sec res = 0 \<and> tv_usec res \<le> 0))"

definition TimerCountdownMS :: "timeval \<Rightarrow> u32 \<Rightarrow> timeval" where
  "TimerCountdownMS now timeout =
     timeradd now \<lparr>tv_sec = uint (timeout div 1000), tv_usec = uint ((timeout mod 1000) * 1000)\<rparr>"

definition TimerCountdown :: "timeval \<Rightarrow> u32 \<Rightarrow> timeval" where
  "TimerCountdown now timeout = timeradd now \<lparr>tv_sec = uint timeout, tv_usec = 0\<rparr>"

definition TimerLeftMS :: "timeval \<Rightarrow> timeval \<Rightarrow> int" where
  "TimerLeftMS now end_time =
     (let res = timersub end_time now
      in if tv_sec res < 0 then 0 else to_int (tv_sec res * 1000 + tv_usec res sdiv 1000))"

text \<open>A time in microseconds, and the times that \<open>gettimeofday\<close> gives.\<close>

definition micros :: "timeval \<Rightarrow> int" where
  "micros t = tv_sec t * 1000000 + tv_usec t"

definition tv_ok :: "timeval \<Rightarrow> bool" where
  "tv_ok t \<longleftrightarrow> 0 \<le> tv_usec t \<and> tv_usec t < 1000000"

lemma micros_timersub [simp]: "micros (timersub a b) = micros a - micros b"
  by (simp add: micros_def timersub_def Let_def)

lemma micros_timeradd [simp]: "micros (timeradd a b) = micros a + micros b"
  by (simp add: micros_def timeradd_def Let_def)

lemma tv_ok_timersub [intro, simp]: "tv_ok a \<Longrightarrow> tv_ok b \<Longrightarrow> tv_ok (timersub a b)"
  by (simp add: tv_ok_def timersub_def Let_def)

lemma tv_ok_timeradd [intro, simp]: "tv_ok a \<Longrightarrow> tv_ok b \<Longrightarrow> tv_ok (timeradd a b)"
  by (simp add: tv_ok_def timeradd_def Let_def)

lemma tv_ok_init [simp]: "tv_ok TimerInit"
  by (simp add: tv_ok_def TimerInit_def)

lemma tv_sec_neg: "tv_ok t \<Longrightarrow> tv_sec t < 0 \<longleftrightarrow> micros t < 0"
  by (simp add: tv_ok_def micros_def) linarith

lemma sec_usec_le:
  fixes s u :: int
  assumes "0 \<le> u" and "u < 1000000"
  shows "s < 0 \<or> (s = 0 \<and> u \<le> 0) \<longleftrightarrow> s * 1000000 + u \<le> 0"
proof -
  consider "s \<le> -1" | "s = 0" | "1 \<le> s" by linarith
  then show ?thesis using assms by cases auto
qed

lemma expired_micros:
  assumes "tv_ok now" and "tv_ok e"
  shows "TimerIsExpired now e \<longleftrightarrow> micros e \<le> micros now"
proof -
  let ?r = "timersub e now"
  have "tv_ok ?r" using assms by simp
  then have "tv_sec ?r < 0 \<or> (tv_sec ?r = 0 \<and> tv_usec ?r \<le> 0) \<longleftrightarrow> micros ?r \<le> 0"
    unfolding tv_ok_def micros_def using sec_usec_le [of "tv_usec ?r" "tv_sec ?r"] by simp
  then show ?thesis by (simp add: TimerIsExpired_def Let_def)
qed

lemma countdown_interval:
  fixes t :: u32
  defines "i \<equiv> \<lparr>tv_sec = uint (t div 1000), tv_usec = uint ((t mod 1000) * 1000)\<rparr>"
  shows "tv_ok i" and "micros i = uint t * 1000"
proof -
  have m: "uint (t mod 1000) = uint t mod 1000" "uint (t div 1000) = uint t div 1000"
    by (simp_all add: uint_mod uint_div)
  have "uint ((t mod 1000) * 1000) = uint (t mod 1000) * 1000"
  proof -
    have "uint t mod 1000 < 1000" "0 \<le> uint t mod 1000" by simp_all
    then have "uint (t mod 1000) * 1000 < 2 ^ LENGTH(32)" unfolding m by simp
    then show ?thesis using uint_mult_lem [of "t mod 1000" 1000] by simp
  qed
  then have u: "uint ((t mod 1000) * 1000) = uint t mod 1000 * 1000" by (simp only: m)
  have "0 \<le> uint t mod 1000" "uint t mod 1000 < 1000" by simp_all
  then show "tv_ok i" by (simp add: i_def tv_ok_def u)
  have "q * 1000000 + r * 1000 = (q * 1000 + r) * 1000" for q r :: int by simp
  then have "micros i = (uint t div 1000 * 1000 + uint t mod 1000) * 1000"
    by (simp only: i_def micros_def u m timeval.simps)
  then show "micros i = uint t * 1000" by (simp only: div_mult_mod_eq)
qed

lemma countdownMS_micros:
  assumes "tv_ok now"
  shows "tv_ok (TimerCountdownMS now t)" and "micros (TimerCountdownMS now t) = micros now + uint t * 1000"
  using assms countdown_interval [of t] by (simp_all add: TimerCountdownMS_def)

lemma countdown_micros:
  assumes "tv_ok now"
  shows "tv_ok (TimerCountdown now t)" and "micros (TimerCountdown now t) = micros now + uint t * 1000000"
  using assms by (simp_all add: TimerCountdown_def micros_def tv_ok_def timeradd_def)

lemma leftMS_micros:
  assumes "tv_ok now" and "tv_ok e" and "micros e - micros now < 2147483648000"
  shows "TimerLeftMS now e = max 0 ((micros e - micros now) div 1000)"
proof -
  let ?r = "timersub e now"
  have r: "tv_ok ?r" "micros ?r = micros e - micros now" using assms by simp_all
  show ?thesis
  proof (cases "tv_sec ?r < 0")
    case True
    then have "micros ?r < 0" using tv_sec_neg r(1) by blast
    with True r(2) show ?thesis by (simp add: TimerLeftMS_def Let_def max_def)
  next
    case False
    have u: "0 \<le> tv_usec ?r" "tv_usec ?r < 1000000" using r(1) by (simp_all add: tv_ok_def)
    have "micros ?r = tv_usec ?r + tv_sec ?r * 1000 * 1000" by (simp add: micros_def)
    then have q: "micros ?r div 1000 = tv_sec ?r * 1000 + tv_usec ?r div 1000"
      by (metis (no_types, lifting) add.commute div_mult_self1 zero_neq_numeral)
    have pos: "0 \<le> micros ?r" using False u by (simp add: micros_def)
    then have "0 \<le> micros ?r div 1000" "micros ?r div 1000 \<le> int_max"
      using assms(3) r(2) by (simp_all add: int_max_def div_less_iff_less_mult)
    then have "to_int (micros ?r div 1000) = micros ?r div 1000" by (intro to_int_id) (simp_all add: int_min_def)
    with False q u pos r(2) show ?thesis
      by (simp add: TimerLeftMS_def Let_def sdiv_nonneg max_def)
  qed
qed

section \<open>The network\<close>

definition ENOTCONN :: int where "ENOTCONN = 107"
definition ECONNRESET :: int where "ECONNRESET = 104"

text \<open>\<open>while (bytes < len)\<close>: the number of bytes counted so far and what has been stored in the
  caller's buffer. The loop tries again after ENOTCONN and ECONNRESET; \<open>None\<close> is a loop that
  does not end.\<close>

partial_function (option) linux_read_loop ::
    "'s sockets \<Rightarrow> int \<Rightarrow> int \<Rightarrow> int \<Rightarrow> bytes \<Rightarrow> 's \<Rightarrow> (int \<times> bytes \<times> 's) option" where
  "linux_read_loop api sock len bytes got s =
     (if bytes < len
      then (case os_recv api s sock (len - bytes) of (rc, bs, s) \<Rightarrow>
        if rc = -1
        then if os_errno api s \<noteq> ENOTCONN \<and> os_errno api s \<noteq> ECONNRESET
             then Some (-1, got @ bs, s)
             else linux_read_loop api sock len bytes (got @ bs) s
        else if rc = 0 then Some (0, got @ bs, s)
        else linux_read_loop api sock len (bytes + rc) (got @ bs) s)
      else Some (bytes, got, s))"

definition linux_read :: "'s sockets \<Rightarrow> int \<Rightarrow> 's \<Rightarrow> int \<Rightarrow> int \<Rightarrow> (int \<times> bytes \<times> 's) option" where
  "linux_read api sock s len timeout_ms =
     (let interval = (timeout_ms sdiv 1000, timeout_ms smod 1000 * 1000);
          interval = (if fst interval < 0 \<or> (fst interval = 0 \<and> snd interval \<le> 0) then (0, 100) else interval);
          s = snd (os_rcvtimeo api s sock interval)
      in linux_read_loop api sock len 0 [] s)"

definition linux_write :: "'s sockets \<Rightarrow> int \<Rightarrow> 's \<Rightarrow> bytes \<Rightarrow> int \<Rightarrow> (int \<times> 's) option" where
  "linux_write api sock s buffer timeout_ms =
     do { usec \<leftarrow> c_int (timeout_ms * 1000);
          (let (_, s) = os_rcvtimeo api s sock (0, usec) in Some (os_write api s sock buffer)) }"

text \<open>A socket whose receive buffer has data: \<open>recv\<close> delivers at least one byte while there is one,
  and setting the timeout changes nothing that is in the stream.\<close>

locale tcp_flowing = tcp_socket +
  assumes recv_ready: "0 < n \<Longrightarrow> n \<le> length (pending s) \<Longrightarrow> 0 < fst (os_recv api s sock (int n))"
    and timeo_pending: "pending (snd (os_rcvtimeo api s sock tv)) = pending s"
begin

lemma recv_progress:
  assumes "0 < n" and "n \<le> length (pending s)"
  shows "\<exists>k s'. 0 < k \<and> k \<le> n \<and> os_recv api s sock (int n) = (int k, take k (pending s), s') \<and>
    pending s' = drop k (pending s)"
  using recv_prefix [of s n] recv_ready [OF assms] by force

lemma linux_read_loop_all:
  assumes "n \<le> length (pending s)" and "0 \<le> b"
  shows "\<exists>s'. linux_read_loop api sock (b + int n) b got s = Some (b + int n, got @ take n (pending s), s') \<and>
    pending s' = drop n (pending s)"
  using assms
proof (induction n arbitrary: b got s rule: less_induct)
  case (less n)
  show ?case
  proof (cases "n = 0")
    case True
    then show ?thesis by (simp add: linux_read_loop.simps)
  next
    case False
    with less.prems(1) obtain k s' where k: "0 < k" "k \<le> n"
      and r: "os_recv api s sock (int n) = (int k, take k (pending s), s')" "pending s' = drop k (pending s)"
      using recv_progress [of n s] by auto
    then obtain s'' where
      "linux_read_loop api sock (b + int k + int (n - k)) (b + int k) (got @ take k (pending s)) s' =
         Some (b + int k + int (n - k), (got @ take k (pending s)) @ take (n - k) (pending s'), s'')"
      "pending s'' = drop (n - k) (pending s')"
      using less.IH [of "n - k" s' "b + int k" "got @ take k (pending s)"] less.prems by (force simp del: append_assoc)
    moreover have "take k (pending s) @ take (n - k) (drop k (pending s)) = take n (pending s)"
      using k by (simp flip: take_add)
    moreover have "b + int k + int (n - k) = b + int n" using k by simp
    ultimately show ?thesis
      using False k r by (simp add: linux_read_loop.simps [of _ _ _ b])
  qed
qed

lemma linux_read_all:
  assumes "n \<le> length (pending s)"
  shows "\<exists>s'. linux_read api sock s (int n) timeout_ms = Some (int n, take n (pending s), s') \<and>
    pending s' = drop n (pending s)"
  using linux_read_loop_all [of n "snd (os_rcvtimeo api s sock _)" 0 "[]"] assms
  by (simp add: linux_read_def Let_def timeo_pending)

end

sublocale tcp_flowing \<subseteq> linux: stream_source "\<lambda>s n. linux_read api sock s n timeout_ms" pending for timeout_ms
  by unfold_locales (rule linux_read_all)

interpretation joined_flowing: tcp_flowing joined_sockets sock "\<lambda>s. concat (seg_in s)"
proof (unfold_locales, goal_cases)
  case (1 n s)
  then have "0 < length (concat (seg_in s))" by linarith
  then have "concat (seg_in s) \<noteq> []" by (rule length_greater_0_conv [THEN iffD1])
  moreover have "c \<noteq> [] \<Longrightarrow> 0 < fst (seg_recv [c] n)" for c using 1(1) by simp
  ultimately have "0 < fst (seg_recv [concat (seg_in s)] n)" by blast
  then show ?case
    by (cases "seg_recv [concat (seg_in s)] n") (simp add: joined_sockets_def del: seg_recv.simps concat_eq_Nil_conv)
next
  case (2 s tv)
  show ?case by (simp add: joined_sockets_def segment_sockets_def)
qed

text \<open>A connection that was reset keeps the reader in its loop for ever.\<close>

lemma linux_read_loop_stuck:
  assumes "linux_read_loop api sock len bytes got s = Some r" and "bytes < len"
    and reset: "\<And>s n. fst (os_recv api s sock n) = -1 \<and> os_errno api (snd (snd (os_recv api s sock n))) = ECONNRESET"
  shows False
proof -
  have "linux_read_loop api' sock' len bytes got s = Some r \<Longrightarrow> \<not> (api' = api \<and> sock' = sock \<and> bytes < len)"
    for api' sock' len bytes got s r
  proof (induction api' sock' len bytes got s r rule: linux_read_loop.raw_induct [rotated, consumes 1, case_names step])
    case (step loop api' sock' len bytes got s r)
    show ?case
    proof
      assume eq: "api' = api \<and> sock' = sock \<and> bytes < len"
      obtain bs s' where "os_recv api s sock (len - bytes) = (-1, bs, s')" "os_errno api s' = ECONNRESET"
        using reset [of s "len - bytes"] by (metis fst_conv prod.exhaust_sel snd_conv)
      with step(2) eq have "loop api sock len bytes (got @ bs) s' = Some r" by simp
      from step(1) [OF this] eq show False by simp
    qed
  qed
  with assms(1,2) show False by blast
qed

end
