(* ===== verification/MQTTClient.thy ===== *)
theory MQTTClient
  imports MQTTConnect MQTTSubscribeDecode MQTTLinux
begin

text \<open>
  The blocking MQTT client, \<open>MQTTClient-C/src/MQTTClient.c\<close>. An operation takes the client
  structure \<open>c\<close> and the state \<open>s\<close> of what is outside it, and gives them back updated. The network
  (\<open>c->ipstack\<close>), the clock and the application's message handlers are the fields of a parameter
  \<open>platform\<close>; \<open>linux_platform\<close> instantiates it with the functions of \<open>MQTTLinux.c\<close>.
\<close>

section \<open>Types\<close>

definition FAILURE :: int where "FAILURE = -1"
definition SUCCESS :: int where "SUCCESS = 0"
definition MAX_PACKET_ID :: u32 where "MAX_PACKET_ID = 65535"
definition MAX_MESSAGE_HANDLERS :: nat where "MAX_MESSAGE_HANDLERS = 5"
definition QOS0 :: int where "QOS0 = 0"
definition QOS1 :: int where "QOS1 = 1"
definition QOS2 :: int where "QOS2 = 2"

record MQTTMessage =
  m_qos :: int
  m_retained :: u8
  m_dup :: u8
  m_id :: u16
  m_payload :: "bytes option"
  m_payloadlen :: "64 word"

text \<open>A function pointer is a number, \<open>None\<close> is NULL; a topic filter is a C string.\<close>

record MessageHandler =
  mh_topicFilter :: "bytes option"
  mh_fp :: "nat option"

record MQTTClient =
  next_packetid :: u32
  command_timeout_ms :: u32
  buf_size :: nat
  readbuf_size :: nat
  cl_buf :: bytes
  readbuf :: bytes
  keepAliveInterval :: u32
  ping_outstanding :: u8
  isconnected :: int
  messageHandlers :: "MessageHandler list"
  defaultMessageHandler :: "nat option"
  ping_timer :: timeval

text \<open>What an uninitialised local variable holds is a function of the state, too.\<close>

record 's platform =
  mqttread :: "'s \<Rightarrow> int \<Rightarrow> int \<Rightarrow> (int \<times> bytes \<times> 's) option"
  mqttwrite :: "'s \<Rightarrow> bytes \<Rightarrow> int \<Rightarrow> (int \<times> 's) option"
  gettimeofday :: "'s \<Rightarrow> timeval \<times> 's"
  call_handler :: "nat \<Rightarrow> MQTTString \<Rightarrow> MQTTMessage \<Rightarrow> 's \<Rightarrow> 's"
  junk_publish :: "'s \<Rightarrow> publish_out"
  junk_payloadlen :: "'s \<Rightarrow> 64 word"
  junk_ack :: "'s \<Rightarrow> ack_out"

definition linux_platform ::
    "'s sockets \<Rightarrow> int \<Rightarrow> ('s \<Rightarrow> timeval \<times> 's) \<Rightarrow> (nat \<Rightarrow> MQTTString \<Rightarrow> MQTTMessage \<Rightarrow> 's \<Rightarrow> 's) \<Rightarrow>
     ('s \<Rightarrow> publish_out) \<Rightarrow> ('s \<Rightarrow> 64 word) \<Rightarrow> ('s \<Rightarrow> ack_out) \<Rightarrow> 's platform" where
  "linux_platform api my_socket clock handle jp jl ja =
     \<lparr>mqttread = linux_read api my_socket, mqttwrite = linux_write api my_socket, gettimeofday = clock,
      call_handler = handle, junk_publish = jp, junk_payloadlen = jl, junk_ack = ja\<rparr>"

type_synonym 's client_result = "(int \<times> MQTTClient \<times> 's) option"

section \<open>Sending and receiving packets\<close>

definition getNextPacketId :: "MQTTClient \<Rightarrow> int \<times> MQTTClient" where
  "getNextPacketId c =
     (let n = (if next_packetid c = MAX_PACKET_ID then 1 else next_packetid c + 1)
      in (sint n, c\<lparr>next_packetid := n\<rparr>))"

text \<open>The bytes that \<open>mqttwrite(.., &c->buf[sent], length, ..)\<close> reads.\<close>

definition region :: "bytes \<Rightarrow> int \<Rightarrow> int \<Rightarrow> bytes option" where
  "region buf p n =
     (if 0 \<le> p \<and> 0 \<le> n \<and> nat p + nat n \<le> length buf then Some (take (nat n) (drop (nat p) buf)) else None)"

text \<open>\<open>while (sent < length && !TimerIsExpired(timer))\<close>: the value of \<open>sent\<close> after it; \<open>None\<close> is also
  a loop that does not end.\<close>

partial_function (option) sendPacket_loop ::
    "'s platform \<Rightarrow> bytes \<Rightarrow> int \<Rightarrow> timeval \<Rightarrow> int \<Rightarrow> 's \<Rightarrow> (int \<times> 's) option" where
  "sendPacket_loop pf buf len timer sent s =
     (if sent < len
      then (case gettimeofday pf s of (now, s) \<Rightarrow>
        if TimerIsExpired now timer then Some (sent, s)
        else case gettimeofday pf s of (now, s) \<Rightarrow>
          (case region buf sent len of None \<Rightarrow> None | Some bs \<Rightarrow>
            (case mqttwrite pf s bs (TimerLeftMS now timer) of None \<Rightarrow> None | Some (rc, s) \<Rightarrow>
              if rc < 0 then Some (sent, s) else sendPacket_loop pf buf len timer (sent + rc) s)))
      else Some (sent, s))"

definition sendPacket :: "'s platform \<Rightarrow> MQTTClient \<Rightarrow> 's \<Rightarrow> int \<Rightarrow> timeval \<Rightarrow> 's client_result" where
  "sendPacket P c s len timer =
     do { (sent, s) \<leftarrow> sendPacket_loop P (cl_buf c) len timer 0 s;
          if sent = len
          then (case gettimeofday P s of (now, s) \<Rightarrow>
                  Some (SUCCESS, c\<lparr>ping_timer := TimerCountdown now (keepAliveInterval c)\<rparr>, s))
          else Some (FAILURE, c, s) }"

definition MQTTClientInit ::
    "MQTTClient \<Rightarrow> u32 \<Rightarrow> bytes \<Rightarrow> nat \<Rightarrow> bytes \<Rightarrow> nat \<Rightarrow> MQTTClient" where
  "MQTTClientInit c timeout_ms sendbuf sendbuf_size rbuf rbuf_size =
     c\<lparr>messageHandlers := map (mh_topicFilter_update (\<lambda>_. None)) (messageHandlers c),
       command_timeout_ms := timeout_ms, cl_buf := sendbuf, buf_size := sendbuf_size,
       readbuf := rbuf, readbuf_size := rbuf_size, isconnected := 0, ping_outstanding := 0,
       defaultMessageHandler := None, next_packetid := 1, ping_timer := TimerInit\<rparr>"

text \<open>The loop of \<open>decodePacket\<close> is the one of \<open>MQTTPacket_decode\<close> with \<open>mqttread(.., timeout)\<close> in
  place of the callback: each attempt is counted, a read that is not 1 ends it.\<close>

definition decodePacket :: "'s platform \<Rightarrow> 's \<Rightarrow> int \<Rightarrow> (int \<times> int \<times> 's) option" where
  "decodePacket P s timeout = MQTTPacket_decode_loop (\<lambda>s n. mqttread P s n timeout) s None 0 1 0"

definition readPacket :: "'s platform \<Rightarrow> MQTTClient \<Rightarrow> 's \<Rightarrow> timeval \<Rightarrow> 's client_result" where
  "readPacket P c s timer =
     do { let (now, s) = gettimeofday P s;
          (rc, bs, s) \<leftarrow> mqttread P s 1 (TimerLeftMS now timer);
          rb \<leftarrow> memcpy (readbuf c) 0 bs (int (length bs));
          if rc \<noteq> 1 then Some (rc, c\<lparr>readbuf := rb\<rparr>, s)
          else do {
            let (now, s) = gettimeofday P s;
            (_, rem_len, s) \<leftarrow> decodePacket P s (TimerLeftMS now timer);
            (rb, n) \<leftarrow> MQTTPacket_encode rb 1 rem_len;
            let len = 1 + n;
            (bad, rb, s) \<leftarrow>
              (if rem_len > 0
               then do {
                 let (now, s) = gettimeofday P s;
                 (got, bs, s) \<leftarrow> mqttread P s rem_len (TimerLeftMS now timer);
                 rb \<leftarrow> memcpy rb (nat len) bs (int (length bs));
                 Some (got \<noteq> rem_len, rb, s) }
               else Some (False, rb, s));
            if bad then Some (1, c\<lparr>readbuf := rb\<rparr>, s)
            else do { b \<leftarrow> load rb 0; Some (uint (h_type (header_bits b)), c\<lparr>readbuf := rb\<rparr>, s) } } }"

section \<open>Delivering messages\<close>

text \<open>\<open>isTopicMatched\<close>: the loop over the filter and the topic name, and where it stops in both. The
  inner loop for \<open>+\<close> skips to the next separator or the end.\<close>

abbreviation slash :: u8 where "slash \<equiv> 47"
abbreviation plus_sign :: u8 where "plus_sign \<equiv> 43"
abbreviation hash_sign :: u8 where "hash_sign \<equiv> 35"

fun isTopicMatched_loop :: "bytes \<Rightarrow> bytes \<Rightarrow> bytes \<times> bytes" where
  "isTopicMatched_loop (f # fs) (n # ns) =
     (if n = slash \<and> f \<noteq> slash then (f # fs, n # ns)
      else if f \<noteq> plus_sign \<and> f \<noteq> hash_sign \<and> f \<noteq> n then (f # fs, n # ns)
      else if f = plus_sign then isTopicMatched_loop fs (dropWhile (\<lambda>x. x \<noteq> slash) ns)
      else if f = hash_sign then isTopicMatched_loop fs []
      else isTopicMatched_loop fs ns)"
| "isTopicMatched_loop fs ns = (fs, ns)"

definition isTopicMatched :: "bytes \<Rightarrow> MQTTString \<Rightarrow> bool option" where
  "isTopicMatched topicFilter topicName =
     (if lenstring_len topicName < 0 then Some False
      else if lenstring_len topicName = 0 then Some (topicFilter = [])
      else do { d \<leftarrow> lenstring_data topicName;
                if nat (lenstring_len topicName) \<le> length d
                then Some (isTopicMatched_loop topicFilter (take (nat (lenstring_len topicName)) d) = ([], []))
                else None })"

text \<open>\<open>MQTTPacket_equals(..) || isTopicMatched(..)\<close>\<close>

definition handler_matches :: "bytes \<Rightarrow> MQTTString \<Rightarrow> bool option" where
  "handler_matches topicFilter topicName =
     do { eq \<leftarrow> MQTTPacket_equals topicName topicFilter;
          if eq then Some True else isTopicMatched topicFilter topicName }"

primrec deliver_loop ::
    "'s platform \<Rightarrow> MQTTString \<Rightarrow> MQTTMessage \<Rightarrow> MessageHandler list \<Rightarrow> int \<Rightarrow> 's \<Rightarrow> (int \<times> 's) option" where
  "deliver_loop P topicName msg [] rc s = Some (rc, s)"
| "deliver_loop P topicName msg (h # hs) rc s =
     (case mh_topicFilter h of
        None \<Rightarrow> deliver_loop P topicName msg hs rc s
      | Some f \<Rightarrow>
          do { matched \<leftarrow> handler_matches f topicName;
               case mh_fp h of
                 Some fp \<Rightarrow>
                   if matched then deliver_loop P topicName msg hs SUCCESS (call_handler P fp topicName msg s)
                   else deliver_loop P topicName msg hs rc s
               | None \<Rightarrow> deliver_loop P topicName msg hs rc s })"

definition deliverMessage :: "'s platform \<Rightarrow> MQTTClient \<Rightarrow> 's \<Rightarrow> MQTTString \<Rightarrow> MQTTMessage \<Rightarrow> (int \<times> 's) option" where
  "deliverMessage P c s topicName msg =
     do { (rc, s) \<leftarrow> deliver_loop P topicName msg (messageHandlers c) FAILURE s;
          case defaultMessageHandler c of
            Some fp \<Rightarrow> if rc = FAILURE then Some (SUCCESS, call_handler P fp topicName msg s) else Some (rc, s)
          | None \<Rightarrow> Some (rc, s) }"

section \<open>One round of work\<close>

definition cbuf_size :: "MQTTClient \<Rightarrow> int" where "cbuf_size c = to_int (int (buf_size c))"
definition crbuf_size :: "MQTTClient \<Rightarrow> int" where "crbuf_size c = to_int (int (readbuf_size c))"

definition keepalive :: "'s platform \<Rightarrow> MQTTClient \<Rightarrow> 's \<Rightarrow> 's client_result" where
  "keepalive P c s =
     (if keepAliveInterval c = 0 then Some (SUCCESS, c, s)
      else do {
        let (now, s) = gettimeofday P s;
        if TimerIsExpired now (ping_timer c) \<and> ping_outstanding c = 0
        then do {
          let (now, s) = gettimeofday P s;
          let timer = TimerCountdownMS now 1000;
          (len, b) \<leftarrow> MQTTSerialize_pingreq (cl_buf c) (cbuf_size c);
          let c = c\<lparr>cl_buf := b\<rparr>;
          if len > 0
          then do {
            (rc, c, s) \<leftarrow> sendPacket P c s len timer;
            Some (rc, if rc = SUCCESS then c\<lparr>ping_outstanding := 1\<rparr> else c, s) }
          else Some (FAILURE, c, s) }
        else Some (FAILURE, c, s) })"

text \<open>\<open>(int*)&msg.payloadlen\<close> sets the low half of a \<open>size_t\<close>.\<close>

definition low_half :: "64 word \<Rightarrow> int \<Rightarrow> 64 word" where
  "low_half old n = word_of_int (uint old div 2 ^ 32 * 2 ^ 32 + n mod 2 ^ 32)"

text \<open>\<open>case PUBLISH\<close>: the result and whether the code goes on to \<open>keepalive\<close>.\<close>

definition cycle_publish :: "'s platform \<Rightarrow> MQTTClient \<Rightarrow> 's \<Rightarrow> timeval \<Rightarrow> (int \<times> bool \<times> MQTTClient \<times> 's) option" where
  "cycle_publish P c s timer =
     do { (ok, out) \<leftarrow> MQTTDeserialize_publish (junk_publish P s) (readbuf c) (crbuf_size c);
          if ok \<noteq> 1 then Some (SUCCESS, False, c, s)
          else do {
            let msg = \<lparr>m_qos = po_qos out, m_retained = po_retained out, m_dup = po_dup out,
                       m_id = po_packetid out, m_payload = po_payload out,
                       m_payloadlen = low_half (junk_payloadlen P s) (po_payloadlen out)\<rparr>;
            (_, s) \<leftarrow> deliverMessage P c s (po_topicName out) msg;
            if m_qos msg = QOS0 then Some (SUCCESS, True, c, s)
            else do {
              (len, b) \<leftarrow>
                (if m_qos msg = QOS1
                 then MQTTSerialize_ack (cl_buf c) (cbuf_size c) (of_nat (msg_code PUBACK)) 0 (m_id msg)
                 else if m_qos msg = QOS2
                 then MQTTSerialize_ack (cl_buf c) (cbuf_size c) (of_nat (msg_code PUBREC)) 0 (m_id msg)
                 else Some (0, cl_buf c));
              let c = c\<lparr>cl_buf := b\<rparr>;
              (rc, c, s) \<leftarrow> (if len \<le> 0 then Some (FAILURE, c, s) else sendPacket P c s len timer);
              Some (rc, rc \<noteq> FAILURE, c, s) } } }"

text \<open>\<open>case PUBREC\<close>\<close>

definition cycle_pubrec :: "'s platform \<Rightarrow> MQTTClient \<Rightarrow> 's \<Rightarrow> timeval \<Rightarrow> (int \<times> bool \<times> MQTTClient \<times> 's) option" where
  "cycle_pubrec P c s timer =
     do { (ok, out) \<leftarrow> MQTTDeserialize_ack (junk_ack P s) (readbuf c) (crbuf_size c);
          if ok \<noteq> 1 then Some (FAILURE, False, c, s)
          else do {
            (len, b) \<leftarrow> MQTTSerialize_ack (cl_buf c) (cbuf_size c) (of_nat (msg_code PUBREL)) 0 (ao_packetid out);
            let c = c\<lparr>cl_buf := b\<rparr>;
            if len \<le> 0 then Some (FAILURE, False, c, s)
            else do {
              (rc, c, s) \<leftarrow> sendPacket P c s len timer;
              if rc \<noteq> SUCCESS then Some (FAILURE, False, c, s) else Some (rc, True, c, s) } } }"

text \<open>\<open>unsigned short packet_type = readPacket(c, timer)\<close>\<close>

definition packet_type_of :: "int \<Rightarrow> int" where
  "packet_type_of rc = uint (word_of_int rc :: u16)"

definition cycle :: "'s platform \<Rightarrow> MQTTClient \<Rightarrow> 's \<Rightarrow> timeval \<Rightarrow> 's client_result" where
  "cycle P c s timer =
     do { (r, c, s) \<leftarrow> readPacket P c s timer;
          let packet_type = packet_type_of r;
          if packet_type = 0 then Some (FAILURE, c, s)
          else do {
            (rc, go_on, c, s) \<leftarrow>
              (if packet_type = int (msg_code PUBLISH) then cycle_publish P c s timer
               else if packet_type = int (msg_code PUBREC) then cycle_pubrec P c s timer
               else if packet_type = int (msg_code PINGRESP)
               then Some (SUCCESS, True, c\<lparr>ping_outstanding := 0\<rparr>, s)
               else Some (SUCCESS, True, c, s));
            (c, s) \<leftarrow> (if go_on then do { (_, c, s) \<leftarrow> keepalive P c s; Some (c, s) } else Some (c, s));
            Some (if rc = SUCCESS \<and> packet_type \<noteq> FAILURE then packet_type else rc, c, s) } }"

text \<open>\<open>do .. while (!TimerIsExpired(&timer))\<close>\<close>

partial_function (option) yield_loop :: "'s platform \<Rightarrow> timeval \<Rightarrow> MQTTClient \<Rightarrow> 's \<Rightarrow> 's client_result" where
  "yield_loop pf timer c s =
     (case cycle pf c s timer of None \<Rightarrow> None | Some (rc, c, s) \<Rightarrow>
        if rc = FAILURE then Some (FAILURE, c, s)
        else case gettimeofday pf s of (now, s) \<Rightarrow>
          if TimerIsExpired now timer then Some (SUCCESS, c, s) else yield_loop pf timer c s)"

definition MQTTYield :: "'s platform \<Rightarrow> MQTTClient \<Rightarrow> 's \<Rightarrow> int \<Rightarrow> 's client_result" where
  "MQTTYield P c s timeout_ms =
     (let (now, s) = gettimeofday P s in yield_loop P (TimerCountdownMS now (word_of_int timeout_ms)) c s)"

text \<open>The body of the endless loop of \<open>MQTTRun\<close>, and \<open>n\<close> rounds of it.\<close>

primrec MQTTRun :: "'s platform \<Rightarrow> nat \<Rightarrow> MQTTClient \<Rightarrow> 's \<Rightarrow> (MQTTClient \<times> 's) option" where
  "MQTTRun P 0 c s = Some (c, s)"
| "MQTTRun P (Suc n) c s =
     (case gettimeofday P s of (now, s) \<Rightarrow>
       (case cycle P c s (TimerCountdownMS now 500) of None \<Rightarrow> None | Some (_, c, s) \<Rightarrow> MQTTRun P n c s))"

partial_function (option) waitfor_loop ::
    "'s platform \<Rightarrow> int \<Rightarrow> timeval \<Rightarrow> int \<Rightarrow> MQTTClient \<Rightarrow> 's \<Rightarrow> 's client_result" where
  "waitfor_loop pf packet_type timer rc c s =
     (case gettimeofday pf s of (now, s) \<Rightarrow>
        if TimerIsExpired now timer then Some (rc, c, s)
        else case cycle pf c s timer of None \<Rightarrow> None | Some (rc, c, s) \<Rightarrow>
          if rc \<noteq> packet_type then waitfor_loop pf packet_type timer rc c s else Some (rc, c, s))"

definition waitfor :: "'s platform \<Rightarrow> MQTTClient \<Rightarrow> 's \<Rightarrow> msgTypes \<Rightarrow> timeval \<Rightarrow> 's client_result" where
  "waitfor P c s t timer = waitfor_loop P (int (msg_code t)) timer FAILURE c s"

section \<open>The operations of the application\<close>

definition MQTTConnect :: "'s platform \<Rightarrow> MQTTClient \<Rightarrow> 's \<Rightarrow> MQTTPacket_connectData option \<Rightarrow> 's client_result" where
  "MQTTConnect P c s options =
     (if isconnected c \<noteq> 0 then Some (FAILURE, c, s)
      else do {
        let (now, s) = gettimeofday P s;
        let connect_timer = TimerCountdownMS now (command_timeout_ms c);
        let options = (case options of None \<Rightarrow> MQTTPacket_connectData_initializer | Some d \<Rightarrow> d);
        let c = c\<lparr>keepAliveInterval := ucast (c_keepAliveInterval options)\<rparr>;
        let (now, s) = gettimeofday P s;
        let c = c\<lparr>ping_timer := TimerCountdown now (keepAliveInterval c)\<rparr>;
        (len, b) \<leftarrow> MQTTSerialize_connect (cl_buf c) (cbuf_size c) options;
        let c = c\<lparr>cl_buf := b\<rparr>;
        (rc, c, s) \<leftarrow>
          (if len \<le> 0 then Some (FAILURE, c, s)
           else do {
             (rc, c, s) \<leftarrow> sendPacket P c s len connect_timer;
             if rc \<noteq> SUCCESS then Some (rc, c, s)
             else do {
               (r, c, s) \<leftarrow> waitfor P c s CONNACK connect_timer;
               if r = int (msg_code CONNACK)
               then do {
                 (ok, out) \<leftarrow> MQTTDeserialize_connack \<lparr>ka_sessionPresent = 0, ka_connack_rc = 255\<rparr>
                     (readbuf c) (crbuf_size c);
                 Some (if ok = 1 then uint (ka_connack_rc out) else FAILURE, c, s) }
               else Some (FAILURE, c, s) } });
        Some (rc, if rc = SUCCESS then c\<lparr>isconnected := 1\<rparr> else c, s) })"

text \<open>The first handler that is free or has the same filter is set.\<close>

fun set_handler :: "bytes \<Rightarrow> nat option \<Rightarrow> MessageHandler list \<Rightarrow> MessageHandler list option" where
  "set_handler topicFilter fp [] = None"
| "set_handler topicFilter fp (h # hs) =
     (if mh_topicFilter h = None \<or> mh_topicFilter h = Some topicFilter
      then Some (\<lparr>mh_topicFilter = Some topicFilter, mh_fp = fp\<rparr> # hs)
      else map_option (\<lambda>hs. h # hs) (set_handler topicFilter fp hs))"

definition MQTTSubscribe ::
    "'s platform \<Rightarrow> MQTTClient \<Rightarrow> 's \<Rightarrow> bytes \<Rightarrow> int \<Rightarrow> nat option \<Rightarrow> 's client_result" where
  "MQTTSubscribe P c s topicFilter qos messageHandler =
     (if isconnected c = 0 then Some (FAILURE, c, s)
      else do {
        let (now, s) = gettimeofday P s;
        let timer = TimerCountdownMS now (command_timeout_ms c);
        let (pid, c) = getNextPacketId c;
        (len, b) \<leftarrow> MQTTSerialize_subscribe (cl_buf c) (cbuf_size c) 0 (word_of_int pid) 1 [c_string topicFilter] [qos];
        let c = c\<lparr>cl_buf := b\<rparr>;
        if len \<le> 0 then Some (FAILURE, c, s)
        else do {
          (rc, c, s) \<leftarrow> sendPacket P c s len timer;
          if rc \<noteq> SUCCESS then Some (rc, c, s)
          else do {
            (r, c, s) \<leftarrow> waitfor P c s SUBACK timer;
            if r = int (msg_code SUBACK)
            then do {
              (ok, out) \<leftarrow> MQTTDeserialize_suback
                 \<lparr>ko_packetid = ao_packetid (junk_ack P s), ko_count = 0, ko_grantedQoSs = [-1]\<rparr> 1 (readbuf c) (crbuf_size c);
              rc \<leftarrow> (if ok = 1 then load (ko_grantedQoSs out) 0 else Some rc);
              if rc \<noteq> 0x80
              then (case set_handler topicFilter messageHandler (messageHandlers c) of
                  Some hs \<Rightarrow> Some (0, c\<lparr>messageHandlers := hs\<rparr>, s)
                | None \<Rightarrow> Some (rc, c, s))
              else Some (rc, c, s) }
            else Some (FAILURE, c, s) } } })"

definition MQTTUnsubscribe :: "'s platform \<Rightarrow> MQTTClient \<Rightarrow> 's \<Rightarrow> bytes \<Rightarrow> 's client_result" where
  "MQTTUnsubscribe P c s topicFilter =
     (if isconnected c = 0 then Some (FAILURE, c, s)
      else do {
        let (now, s) = gettimeofday P s;
        let timer = TimerCountdownMS now (command_timeout_ms c);
        let (pid, c) = getNextPacketId c;
        (len, b) \<leftarrow> MQTTSerialize_unsubscribe (cl_buf c) (cbuf_size c) 0 (word_of_int pid) 1 [c_string topicFilter];
        let c = c\<lparr>cl_buf := b\<rparr>;
        if len \<le> 0 then Some (FAILURE, c, s)
        else do {
          (rc, c, s) \<leftarrow> sendPacket P c s len timer;
          if rc \<noteq> SUCCESS then Some (rc, c, s)
          else do {
            (r, c, s) \<leftarrow> waitfor P c s UNSUBACK timer;
            if r = int (msg_code UNSUBACK)
            then do {
              (ok, _) \<leftarrow> MQTTDeserialize_unsuback (ao_packetid (junk_ack P s)) (readbuf c) (crbuf_size c);
              Some (if ok = 1 then 0 else rc, c, s) }
            else Some (FAILURE, c, s) } } })"

text \<open>Waiting for the answer to a PUBLISH packet of quality of service 1 or 2.\<close>

definition publish_wait :: "'s platform \<Rightarrow> MQTTClient \<Rightarrow> 's \<Rightarrow> msgTypes \<Rightarrow> timeval \<Rightarrow> int \<Rightarrow> 's client_result" where
  "publish_wait P c s t timer rc =
     do { (r, c, s) \<leftarrow> waitfor P c s t timer;
          if r = int (msg_code t)
          then do {
            (ok, _) \<leftarrow> MQTTDeserialize_ack (junk_ack P s) (readbuf c) (crbuf_size c);
            Some (if ok \<noteq> 1 then FAILURE else rc, c, s) }
          else Some (FAILURE, c, s) }"

definition MQTTPublish ::
    "'s platform \<Rightarrow> MQTTClient \<Rightarrow> 's \<Rightarrow> bytes \<Rightarrow> MQTTMessage \<Rightarrow> (int \<times> MQTTMessage \<times> MQTTClient \<times> 's) option" where
  "MQTTPublish P c s topicName message =
     (if isconnected c = 0 then Some (FAILURE, message, c, s)
      else do {
        let (now, s) = gettimeofday P s;
        let timer = TimerCountdownMS now (command_timeout_ms c);
        let (message, c) =
          (if m_qos message = QOS1 \<or> m_qos message = QOS2
           then (let (pid, c) = getNextPacketId c in (message\<lparr>m_id := word_of_int pid\<rparr>, c))
           else (message, c));
        (len, b) \<leftarrow> MQTTSerialize_publish (cl_buf c) (cbuf_size c) 0 (m_qos message) (m_retained message) (m_id message)
            (c_string topicName) (case m_payload message of Some d \<Rightarrow> d | None \<Rightarrow> [])
            (to_int (uint (m_payloadlen message)));
        let c = c\<lparr>cl_buf := b\<rparr>;
        if len \<le> 0 then Some (FAILURE, message, c, s)
        else do {
          (rc, c, s) \<leftarrow> sendPacket P c s len timer;
          (rc, c, s) \<leftarrow>
            (if rc \<noteq> SUCCESS then Some (rc, c, s)
             else if m_qos message = QOS1 then publish_wait P c s PUBACK timer rc
             else if m_qos message = QOS2 then publish_wait P c s PUBCOMP timer rc
             else Some (rc, c, s));
          Some (rc, message, c, s) } })"

definition MQTTDisconnect :: "'s platform \<Rightarrow> MQTTClient \<Rightarrow> 's \<Rightarrow> 's client_result" where
  "MQTTDisconnect P c s =
     do { let (now, s) = gettimeofday P s;
          let timer = TimerCountdownMS now (command_timeout_ms c);
          (len, b) \<leftarrow> MQTTSerialize_disconnect (cl_buf c) (cbuf_size c);
          let c = c\<lparr>cl_buf := b\<rparr>;
          (rc, c, s) \<leftarrow> (if len > 0 then sendPacket P c s len timer else Some (FAILURE, c, s));
          Some (rc, c\<lparr>isconnected := 0\<rparr>, s) }"

end
