(* ===== verification/ClientSession.thy ===== *)
theory ClientSession
  imports MQTTClient
begin

text \<open>
  The session of the MQTT client: which part of the client structure each operation may change,
  the step relation of the application's calls and the invariant of its reachable states.
\<close>

section \<open>What sending and receiving leave alone\<close>

definition same_session :: "MQTTClient \<Rightarrow> MQTTClient \<Rightarrow> bool" where
  "same_session c c' \<longleftrightarrow>
     next_packetid c' = next_packetid c \<and> command_timeout_ms c' = command_timeout_ms c \<and>
     buf_size c' = buf_size c \<and> readbuf_size c' = readbuf_size c \<and>
     length (cl_buf c') = length (cl_buf c) \<and> length (readbuf c') = length (readbuf c) \<and>
     keepAliveInterval c' = keepAliveInterval c \<and> isconnected c' = isconnected c \<and>
     messageHandlers c' = messageHandlers c \<and> defaultMessageHandler c' = defaultMessageHandler c"

named_theorems session_intros "operations that keep the session"

lemma same_session_refl [simp, intro]: "same_session c c"
  by (simp add: same_session_def)

lemma same_session_trans [trans]: "same_session a b \<Longrightarrow> same_session b c \<Longrightarrow> same_session a c"
  by (simp add: same_session_def)

lemma same_session_simps [simp]:
  "same_session c (c'\<lparr>ping_timer := t\<rparr>) \<longleftrightarrow> same_session c c'"
  "same_session c (c'\<lparr>ping_outstanding := p\<rparr>) \<longleftrightarrow> same_session c c'"
  "length b = length (cl_buf c') \<Longrightarrow> same_session c (c'\<lparr>cl_buf := b\<rparr>) \<longleftrightarrow> same_session c c'"
  "length b = length (readbuf c') \<Longrightarrow> same_session c (c'\<lparr>readbuf := b\<rparr>) \<longleftrightarrow> same_session c c'"
  by (simp_all add: same_session_def)

lemma same_session_left [simp]:
  "same_session (c\<lparr>ping_timer := t\<rparr>) c' \<longleftrightarrow> same_session c c'"
  "same_session (c\<lparr>ping_outstanding := p\<rparr>) c' \<longleftrightarrow> same_session c c'"
  "length b = length (cl_buf c) \<Longrightarrow> same_session (c\<lparr>cl_buf := b\<rparr>) c' \<longleftrightarrow> same_session c c'"
  by (simp_all add: same_session_def)

subsection \<open>Writers keep the length of a buffer\<close>

lemma ensures_encode [ensures_intros]:
  assumes "\<And>b k. length b = length buf \<Longrightarrow> Q (b, k)"
  shows "ensures (MQTTPacket_encode buf p n) Q"
proof -
  have "MQTTPacket_encode_loop buf p n rc = Some r \<Longrightarrow> length (fst r) = length buf" for rc r
  proof (induction buf p n rc arbitrary: r rule: MQTTPacket_encode_loop.induct)
    case (1 buf p n rc)
    let ?d = "if n sdiv 128 > 0 then (word_of_int (n smod 128) :: u8) OR 0x80 else word_of_int (n smod 128)"
    obtain m where m: "store buf (p + rc) ?d = Some m"
      using 1(2) by (simp add: MQTTPacket_encode_loop.simps [of _ _ n] Let_def split: option.splits if_splits)
    then have len: "length m = length buf" by (auto simp: store_def split: if_splits)
    show ?case
    proof (cases "n sdiv 128 > 0")
      case True
      then have "MQTTPacket_encode_loop m p (n sdiv 128) (rc + 1) = Some r"
        using 1(2) m by (simp add: MQTTPacket_encode_loop.simps [of _ _ n] Let_def)
      then show ?thesis using 1(1) [OF refl refl refl m True] len by simp
    next
      case False
      then show ?thesis
        using 1(2) m len by (auto simp: MQTTPacket_encode_loop.simps [of _ _ n] Let_def)
    qed
  qed
  from this [of 0] show ?thesis
    unfolding MQTTPacket_encode_def by (intro ensuresI) (metis assms prod.collapse)
qed

text \<open>One rule for each operation at a cursor: the buffer keeps its length.\<close>

lemma ensures_writeChar [ensures_intros]:
  assumes "\<And>b p. length b = length (fst st) \<Longrightarrow> Q (b, p)" shows "ensures (writeChar st c) Q"
  unfolding writeChar_def by (intro ensures_intros assms)

lemma ensures_writeInt [ensures_intros]:
  assumes "\<And>b p. length b = length (fst st) \<Longrightarrow> Q (b, p)" shows "ensures (writeInt st n) Q"
  unfolding writeInt_def by (intro ensures_intros assms) simp

lemma ensures_write_remaining_length [ensures_intros]:
  assumes "\<And>b p. length b = length (fst st) \<Longrightarrow> Q (b, p)" shows "ensures (write_remaining_length st n) Q"
  unfolding write_remaining_length_def by (intro ensures_intros assms) simp

lemma ensures_writeCString [ensures_intros]:
  assumes "\<And>b p. length b = length (fst st) \<Longrightarrow> Q (b, p)" shows "ensures (writeCString st s) Q"
  unfolding writeCString_def by (intro ensures_intros assms) simp

lemma ensures_writeMQTTString [ensures_intros]:
  assumes "\<And>b p. length b = length (fst st) \<Longrightarrow> Q (b, p)" shows "ensures (writeMQTTString st s) Q"
  unfolding writeMQTTString_def
  by (intro ensures_intros assms ensuresI [of "lenstring_data s"]) simp_all

lemma ensures_subscribe_loop [ensures_intros]:
  assumes "\<And>b p. length b = length (fst st) \<Longrightarrow> Q (b, p)"
  shows "ensures (subscribe_write_loop n i fs qs st) Q"
  using assms
proof (induction n arbitrary: i st)
  case 0
  then show ?case by (cases st) (simp add: ensures_def)
next
  case (Suc n)
  show ?case unfolding subscribe_write_loop.simps by (intro ensures_intros Suc) simp
qed

lemma ensures_unsubscribe_loop [ensures_intros]:
  assumes "\<And>b p. length b = length (fst st) \<Longrightarrow> Q (b, p)"
  shows "ensures (unsubscribe_write_loop n i fs st) Q"
  using assms
proof (induction n arbitrary: i st)
  case 0
  then show ?case by (cases st) (simp add: ensures_def)
next
  case (Suc n)
  show ?case unfolding unsubscribe_write_loop.simps by (intro ensures_intros Suc) simp
qed

lemma ensures_atom: "(\<And>r. m = Some r \<Longrightarrow> Q r) \<Longrightarrow> ensures m Q"
  by (rule ensuresI)

lemmas ensures_length_bounds [ensures_intros] =
  ensures_atom [of "MQTTSerialize_connectLength d" for d]
  ensures_atom [of "MQTTSerialize_publishLength q t n" for q t n]
  ensures_atom [of "MQTTSerialize_subscribeLength n fs" for n fs]
  ensures_atom [of "MQTTSerialize_unsubscribeLength n fs" for n fs]
  ensures_atom [of "MQTTPacket_len n" for n]

lemma ensures_finish [ensures_intros]: "Q (int (snd st), fst st) \<Longrightarrow> ensures (finish st) Q"
  by (simp add: finish_def ensures_def)

lemma ensures_connect [ensures_intros]:
  assumes "\<And>b k. length b = length buf \<Longrightarrow> Q (k, b)" shows "ensures (MQTTSerialize_connect buf n d) Q"
  unfolding MQTTSerialize_connect_def by (intro ensures_intros assms) simp_all

lemma ensures_publish [ensures_intros]:
  assumes "\<And>b k. length b = length buf \<Longrightarrow> Q (k, b)"
  shows "ensures (MQTTSerialize_publish buf n dup q r i t p l) Q"
  unfolding MQTTSerialize_publish_def by (intro ensures_intros assms) simp_all

lemma ensures_subscribe [ensures_intros]:
  assumes "\<And>b k. length b = length buf \<Longrightarrow> Q (k, b)"
  shows "ensures (MQTTSerialize_subscribe buf n dup i m fs qs) Q"
  unfolding MQTTSerialize_subscribe_def by (intro ensures_intros assms) simp_all

lemma ensures_unsubscribe [ensures_intros]:
  assumes "\<And>b k. length b = length buf \<Longrightarrow> Q (k, b)"
  shows "ensures (MQTTSerialize_unsubscribe buf n dup i m fs) Q"
  unfolding MQTTSerialize_unsubscribe_def by (intro ensures_intros assms) simp_all

lemma ensures_ack [ensures_intros]:
  assumes "\<And>b k. length b = length buf \<Longrightarrow> Q (k, b)" shows "ensures (MQTTSerialize_ack buf n t d i) Q"
  using assms by (simp add: ensures_def serialize_ack)

lemma ensures_pingreq [ensures_intros]:
  assumes "\<And>b k. length b = length buf \<Longrightarrow> Q (k, b)" shows "ensures (MQTTSerialize_pingreq buf n) Q"
  using assms by (simp add: ensures_def MQTTSerialize_pingreq_def serialize_zero)

lemma ensures_disconnect [ensures_intros]:
  assumes "\<And>b k. length b = length buf \<Longrightarrow> Q (k, b)" shows "ensures (MQTTSerialize_disconnect buf n) Q"
  using assms by (simp add: ensures_def MQTTSerialize_disconnect_def serialize_zero)

subsection \<open>Sending, receiving and waiting\<close>

lemmas ensures_calls [ensures_intros] =
  ensures_atom [of "mqttread P s n t" for P s n t]
  ensures_atom [of "decodePacket P s t" for P s t]
  ensures_atom [of "deliverMessage P c s t m" for P c s t m]
  ensures_atom [of "MQTTDeserialize_publish out b n" for out b n]
  ensures_atom [of "MQTTDeserialize_ack out b n" for out b n]
  ensures_atom [of "MQTTDeserialize_connack out b n" for out b n]
  ensures_atom [of "MQTTDeserialize_suback out m b n" for out m b n]
  ensures_atom [of "MQTTDeserialize_unsuback i b n" for i b n]
  ensures_atom [of "sendPacket_loop P b n t k s" for P b n t k s]

lemma ensures_sendPacket [ensures_intros]:
  assumes "\<And>rc c' s'. same_session c c' \<Longrightarrow> rc \<in> {SUCCESS, FAILURE} \<Longrightarrow> Q (rc, c', s')"
  shows "ensures (sendPacket P c s len t) Q"
  unfolding sendPacket_def by (intro ensures_intros assms) simp_all

lemma ensures_readPacket [ensures_intros]:
  assumes "\<And>rc c' s'. same_session c c' \<Longrightarrow> Q (rc, c', s')" shows "ensures (readPacket P c s t) Q"
  unfolding readPacket_def by (intro ensures_intros assms) simp_all

lemma ensures_keepalive [ensures_intros]:
  assumes "\<And>rc c' s'. same_session c c' \<Longrightarrow> Q (rc, c', s')" shows "ensures (keepalive P c s) Q"
  unfolding keepalive_def by (intro ensures_intros assms) (auto simp: same_session_def)

lemma ensures_cycle_publish [ensures_intros]:
  assumes "\<And>rc g c' s'. same_session c c' \<Longrightarrow> Q (rc, g, c', s')" shows "ensures (cycle_publish P c s t) Q"
  unfolding cycle_publish_def by (intro ensures_intros assms) (auto simp: same_session_def)

lemma ensures_cycle_pubrec [ensures_intros]:
  assumes "\<And>rc g c' s'. same_session c c' \<Longrightarrow> Q (rc, g, c', s')" shows "ensures (cycle_pubrec P c s t) Q"
  unfolding cycle_pubrec_def by (intro ensures_intros assms) (auto simp: same_session_def)

lemma ensures_cycle [ensures_intros]:
  assumes "\<And>rc c' s'. same_session c c' \<Longrightarrow> Q (rc, c', s')" shows "ensures (cycle P c s t) Q"
  unfolding cycle_def by (intro ensures_intros assms) (auto elim: same_session_trans)

lemma ensures_case_bind: "ensures m (\<lambda>x. ensures (f x) Q) \<Longrightarrow> ensures (case m of None \<Rightarrow> None | Some x \<Rightarrow> f x) Q"
  by (cases m) (simp_all add: ensures_def)

lemma ensures_waitfor [ensures_intros]:
  assumes "\<And>rc c' s'. same_session c c' \<Longrightarrow> Q (rc, c', s')" shows "ensures (waitfor P c s k t) Q"
proof -
  have "waitfor_loop P n t rc c s = Some r \<Longrightarrow> same_session c (fst (snd r))" for P n t rc c s r
  proof (induction P n t rc c s r rule: waitfor_loop.raw_induct [rotated, consumes 1, case_names step])
    case (step loop P n t rc c s r)
    have loop: "ensures (loop P n t rc' c' s') (\<lambda>r. same_session c (fst (snd r)))" if "same_session c c'" for rc' c' s'
      using same_session_trans [OF that step(1)] by (rule ensuresI)
    have "ensures (case gettimeofday P s of (now, s) \<Rightarrow>
        if TimerIsExpired now t then Some (rc, c, s)
        else case cycle P c s t of None \<Rightarrow> None | Some (rc, c, s) \<Rightarrow>
          if rc \<noteq> n then loop P n t rc c s else Some (rc, c, s)) (\<lambda>r. same_session c (fst (snd r)))"
      by (intro ensures_case_bind ensures_intros loop) simp_all
    then show ?case using step(2) by (rule ensuresD)
  qed
  then have "ensures (waitfor P c s k t) (\<lambda>r. same_session c (fst (snd r)))"
    unfolding waitfor_def by (intro ensuresI)
  then show ?thesis by (rule ensures_conseq) (auto intro: assms)
qed

lemma ensures_yield [ensures_intros]:
  assumes "\<And>rc c' s'. same_session c c' \<Longrightarrow> rc \<in> {SUCCESS, FAILURE} \<Longrightarrow> Q (rc, c', s')"
  shows "ensures (MQTTYield P c s n) Q"
proof -
  have "yield_loop P t c s = Some r \<Longrightarrow> same_session c (fst (snd r)) \<and> fst r \<in> {SUCCESS, FAILURE}" for P t c s r
  proof (induction P t c s r rule: yield_loop.raw_induct [rotated, consumes 1, case_names step])
    case (step loop P t c s r)
    have loop: "ensures (loop P t c' s') (\<lambda>r. same_session c (fst (snd r)) \<and> fst r \<in> {SUCCESS, FAILURE})"
      if "same_session c c'" for c' s'
      using same_session_trans [OF that] step(1) by (intro ensuresI) blast
    have "ensures (case cycle P c s t of None \<Rightarrow> None | Some (rc, c, s) \<Rightarrow>
        if rc = FAILURE then Some (FAILURE, c, s)
        else case gettimeofday P s of (now, s) \<Rightarrow>
          if TimerIsExpired now t then Some (SUCCESS, c, s) else loop P t c s)
        (\<lambda>r. same_session c (fst (snd r)) \<and> fst r \<in> {SUCCESS, FAILURE})"
      by (intro ensures_case_bind ensures_intros loop) simp_all
    then show ?case using step(2) by (rule ensuresD)
  qed
  then have "ensures (MQTTYield P c s n) (\<lambda>r. same_session c (fst (snd r)) \<and> fst r \<in> {SUCCESS, FAILURE})"
    unfolding MQTTYield_def Let_def by (intro ensures_prod ensuresI)
  then show ?thesis by (rule ensures_conseq) (auto intro: assms)
qed

section \<open>The calls of the application\<close>

text \<open>What holds of every client between two calls.\<close>

definition client_ok :: "MQTTClient \<Rightarrow> bool" where
  "client_ok c \<longleftrightarrow>
     1 \<le> next_packetid c \<and> next_packetid c \<le> MAX_PACKET_ID \<and>
     length (messageHandlers c) = MAX_MESSAGE_HANDLERS \<and>
     length (cl_buf c) = buf_size c \<and> length (readbuf c) = readbuf_size c \<and> isconnected c \<in> {0, 1}"

lemma client_ok_session: "same_session c c' \<Longrightarrow> client_ok c' \<longleftrightarrow> client_ok c"
  by (simp add: same_session_def client_ok_def)

lemma client_ok_next: "client_ok c \<Longrightarrow> client_ok (snd (getNextPacketId c))"
  unfolding client_ok_def getNextPacketId_def Let_def MAX_PACKET_ID_def
  by (auto simp: word_le_nat_alt unat_word_ariths word_unat_eq_iff)

lemma next_id_range:
  assumes "client_ok c" shows "1 \<le> fst (getNextPacketId c)" and "fst (getNextPacketId c) \<le> 65535"
proof -
  let ?n = "next_packetid (snd (getNextPacketId c))"
  have "1 \<le> ?n" "?n \<le> 65535" using client_ok_next [OF assms] by (simp_all add: client_ok_def MAX_PACKET_ID_def)
  then have n: "1 \<le> unat ?n" "unat ?n \<le> 65535" by (simp_all add: word_le_nat_alt)
  moreover have "uint ?n = int (unat ?n)" by simp
  ultimately have u: "1 \<le> uint ?n" "uint ?n \<le> 65535" by linarith+
  then have "sint ?n = uint ?n"
    unfolding sint_uint using uint_ge_0 [of ?n] by (subst signed_take_bit_int_eq_self) simp_all
  moreover have "fst (getNextPacketId c) = sint ?n" by (simp add: getNextPacketId_def Let_def)
  ultimately show "1 \<le> fst (getNextPacketId c)" "fst (getNextPacketId c) \<le> 65535" using u by simp_all
qed

lemma client_ok_simps [simp]:
  "client_ok (c\<lparr>ping_timer := t\<rparr>) = client_ok c"
  "client_ok (c\<lparr>keepAliveInterval := k\<rparr>) = client_ok c"
  "length b = length (cl_buf c) \<Longrightarrow> client_ok (c\<lparr>cl_buf := b\<rparr>) = client_ok c"
  "client_ok c \<Longrightarrow> client_ok (c\<lparr>isconnected := 0\<rparr>)"
  "client_ok c \<Longrightarrow> client_ok (c\<lparr>isconnected := 1\<rparr>)"
  "client_ok c \<Longrightarrow> length hs = length (messageHandlers c) \<Longrightarrow> client_ok (c\<lparr>messageHandlers := hs\<rparr>)"
  by (simp_all add: client_ok_def)

lemma set_handler_length: "set_handler f fp hs = Some hs' \<Longrightarrow> length hs' = length hs"
  by (induction hs arbitrary: hs') (auto split: if_splits)

text \<open>One call of the application.\<close>

inductive client_call :: "'s platform \<Rightarrow> MQTTClient \<times> 's \<Rightarrow> int \<Rightarrow> MQTTClient \<times> 's \<Rightarrow> bool" for P where
  call_connect: "MQTTConnect P c s options = Some (rc, c', s') \<Longrightarrow> client_call P (c, s) rc (c', s')"
| call_subscribe: "MQTTSubscribe P c s f qos fp = Some (rc, c', s') \<Longrightarrow> client_call P (c, s) rc (c', s')"
| call_unsubscribe: "MQTTUnsubscribe P c s f = Some (rc, c', s') \<Longrightarrow> client_call P (c, s) rc (c', s')"
| call_publish: "MQTTPublish P c s t m = Some (rc, m', c', s') \<Longrightarrow> client_call P (c, s) rc (c', s')"
| call_yield: "MQTTYield P c s n = Some (rc, c', s') \<Longrightarrow> client_call P (c, s) rc (c', s')"
| call_disconnect: "MQTTDisconnect P c s = Some (rc, c', s') \<Longrightarrow> client_call P (c, s) rc (c', s')"

inductive_cases client_callE: "client_call P (c, s) rc (c', s')"

text \<open>The states after \<open>MQTTClientInit\<close> and any sequence of calls; outside the calls, the rest of the
  system may change as it likes.\<close>

inductive reachable :: "'s platform \<Rightarrow> MQTTClient \<Rightarrow> bool" for P where
  reach_init: "length (messageHandlers c) = MAX_MESSAGE_HANDLERS \<Longrightarrow>
    reachable P (MQTTClientInit c timeout b (length b) r (length r))"
| reach_call: "reachable P c \<Longrightarrow> client_call P (c, s) rc (c', s') \<Longrightarrow> reachable P c'"

text \<open>The operations keep the invariant.\<close>

lemma client_ok_trans: "same_session c c' \<Longrightarrow> client_ok c \<Longrightarrow> client_ok c'"
  by (simp add: client_ok_session)

lemma publish_wait_session [ensures_intros]:
  assumes "\<And>rc c' s'. same_session c c' \<Longrightarrow> Q (rc, c', s')" shows "ensures (publish_wait P c s k t rc) Q"
  unfolding publish_wait_def by (intro ensures_intros assms) simp_all

lemma ok_sendPacket:
  assumes "client_ok c" and "\<And>rc c' s'. client_ok c' \<Longrightarrow> Q (rc, c', s')" shows "ensures (sendPacket P c s n t) Q"
  using assms client_ok_trans by (intro ensures_sendPacket) blast

lemma ok_waitfor:
  assumes "client_ok c" and "\<And>rc c' s'. client_ok c' \<Longrightarrow> Q (rc, c', s')" shows "ensures (waitfor P c s k t) Q"
  using assms client_ok_trans by (intro ensures_waitfor) blast

lemma ok_publish_wait:
  assumes "client_ok c" and "\<And>rc c' s'. client_ok c' \<Longrightarrow> Q (rc, c', s')" shows "ensures (publish_wait P c s k t rc) Q"
  using assms client_ok_trans by (intro publish_wait_session) blast

lemma ok_next:
  assumes "client_ok c" and "\<And>i c'. client_ok c' \<Longrightarrow> getNextPacketId c = (i, c') \<Longrightarrow> ensures (f i c') Q"
  shows "ensures (case getNextPacketId c of (i, c') \<Rightarrow> f i c') Q"
  using assms client_ok_next [OF assms(1)] by (intro ensures_prod) simp

lemma ok_set_handler:
  assumes "client_ok c" and "Q (rc, c, s)" and "\<And>hs. client_ok (c\<lparr>messageHandlers := hs\<rparr>) \<Longrightarrow> Q (0, c\<lparr>messageHandlers := hs\<rparr>, s)"
  shows "ensures (case set_handler f fp (messageHandlers c) of Some hs \<Rightarrow> Some (0, c\<lparr>messageHandlers := hs\<rparr>, s)
    | None \<Rightarrow> Some (rc, c, s)) Q"
  using assms set_handler_length by (intro ensures_intros) auto

lemmas ok_intros = ok_sendPacket ok_waitfor ok_publish_wait ok_next ok_set_handler ensures_intros

lemma connect_keeps_ok:
  assumes "client_ok c" shows "ensures (MQTTConnect P c s options) (\<lambda>r. client_ok (fst (snd r)))"
  unfolding MQTTConnect_def using assms by (intro ok_intros) simp_all

lemma subscribe_keeps_ok:
  assumes "client_ok c" shows "ensures (MQTTSubscribe P c s f qos fp) (\<lambda>r. client_ok (fst (snd r)))"
  unfolding MQTTSubscribe_def using assms by (intro ok_intros) simp_all

lemma unsubscribe_keeps_ok:
  assumes "client_ok c" shows "ensures (MQTTUnsubscribe P c s f) (\<lambda>r. client_ok (fst (snd r)))"
  unfolding MQTTUnsubscribe_def using assms by (intro ok_intros) simp_all

lemma publish_keeps_ok:
  assumes "client_ok c" shows "ensures (MQTTPublish P c s t m) (\<lambda>r. client_ok (fst (snd (snd r))))"
proof -
  have ok: "(if b then let (pid, c) = getNextPacketId c in (m\<lparr>m_id := word_of_int pid\<rparr>, c) else (m, c)) = (m', c') \<Longrightarrow>
      client_ok c'" for b m' c'
    using assms client_ok_next [OF assms] by (auto split: if_splits prod.splits)
  show ?thesis
    unfolding MQTTPublish_def using assms by (intro ok_intros) (simp_all add: ok)
qed

lemma disconnect_keeps_ok:
  assumes "client_ok c" shows "ensures (MQTTDisconnect P c s) (\<lambda>r. client_ok (fst (snd r)))"
  unfolding MQTTDisconnect_def using assms by (intro ok_intros) simp_all

lemma yield_keeps_ok:
  assumes "client_ok c" shows "ensures (MQTTYield P c s n) (\<lambda>r. client_ok (fst (snd r)))"
  using assms client_ok_trans by (intro ensures_yield) auto

lemma call_keeps_ok:
  assumes "client_call P (c, s) rc (c', s')" and "client_ok c" shows "client_ok c'"
  using assms
  by (auto elim!: client_callE dest: ensuresD [OF connect_keeps_ok] ensuresD [OF subscribe_keeps_ok]
      ensuresD [OF unsubscribe_keeps_ok] ensuresD [OF publish_keeps_ok] ensuresD [OF yield_keeps_ok]
      ensuresD [OF disconnect_keeps_ok])

lemma init_ok:
  "length (messageHandlers c) = MAX_MESSAGE_HANDLERS \<Longrightarrow> client_ok (MQTTClientInit c t b (length b) r (length r))"
  by (simp add: client_ok_def MQTTClientInit_def MAX_PACKET_ID_def)

lemma reachable_ok: "reachable P c \<Longrightarrow> client_ok c"
  by (induction rule: reachable.induct) (auto intro: init_ok call_keeps_ok)

end
