(* ===== verification/TopicMatch.thy ===== *)
theory TopicMatch
  imports MQTTClient
begin

text \<open>
  Topic filters. \<open>isTopicMatched\<close> of \<open>MQTTClient.c\<close> walks over the filter and the topic name
  character by character; the MQTT standard defines matching on the levels between the separators.
\<close>

section \<open>Matching by levels\<close>

fun levels :: "bytes \<Rightarrow> bytes list" where
  "levels [] = [[]]"
| "levels (c # cs) = (if c = slash then [] # levels cs
     else (case levels cs of [] \<Rightarrow> [[c]] | l # ls \<Rightarrow> (c # l) # ls))"

text \<open>The standard: \<open>+\<close> matches one level, \<open>#\<close> at the end any number of levels.\<close>

fun standard_match :: "bytes list \<Rightarrow> bytes list \<Rightarrow> bool" where
  "standard_match [] ts \<longleftrightarrow> ts = []"
| "standard_match (f # fs) ts \<longleftrightarrow>
     (if f = [hash_sign] \<and> fs = [] then True
      else case ts of [] \<Rightarrow> False | t # ts \<Rightarrow> (f = [plus_sign] \<or> f = t) \<and> standard_match fs ts)"

text \<open>The code: a wildcard does not match where the topic name has an empty level, and \<open>#\<close> does not match
  the parent level.\<close>

fun code_match :: "bytes list \<Rightarrow> bytes list \<Rightarrow> bool" where
  "code_match [] ts \<longleftrightarrow> ts = []"
| "code_match (f # fs) ts \<longleftrightarrow>
     (case ts of [] \<Rightarrow> False
      | t # ts \<Rightarrow> if f = [hash_sign] \<and> fs = [] then t \<noteq> []
                else (f = [plus_sign] \<and> t \<noteq> [] \<or> f = t) \<and> code_match fs ts)"

text \<open>A filter as the comment above the function wants it: wildcards are whole levels, \<open>#\<close> is the
  last one.\<close>

definition plain :: "bytes \<Rightarrow> bool" where
  "plain l \<longleftrightarrow> plus_sign \<notin> set l \<and> hash_sign \<notin> set l"

fun valid_levels :: "bytes list \<Rightarrow> bool" where
  "valid_levels [] \<longleftrightarrow> True"
| "valid_levels (l # ls) \<longleftrightarrow>
     (plain l \<or> l = [plus_sign] \<or> l = [hash_sign] \<and> ls = []) \<and> valid_levels ls"

lemma levels_not_Nil [simp]: "levels cs \<noteq> []"
  by (cases cs) (auto split: list.splits)

lemma levels_obtain: obtains l ls where "levels cs = l # ls"
  by (cases "levels cs") simp_all

lemma levels_dropWhile: "levels cs = l # ls \<Longrightarrow> levels (dropWhile (\<lambda>x. x \<noteq> slash) cs) = [] # ls"
  by (induction cs arbitrary: l ls) (auto split: if_splits list.splits)

lemma plain_Nil [simp]: "plain []" and plain_Cons [simp]:
  "plain (c # l) \<longleftrightarrow> c \<noteq> plus_sign \<and> c \<noteq> hash_sign \<and> plain l"
  by (auto simp: plain_def)

lemma code_match_Nil [simp]: "code_match (levels cs) [] = False"
  by (rule levels_obtain [of cs]) simp

lemma levels_single: "levels cs = [[]] \<Longrightarrow> cs = []"
  by (cases cs) (auto split: if_splits list.splits)

lemma isTopicMatched_loop_levels:
  "valid_levels (levels f) \<Longrightarrow> isTopicMatched_loop f n = ([], []) \<longleftrightarrow> code_match (levels f) (levels n)"
proof (induction f n rule: isTopicMatched_loop.induct [case_names 1 2 3])
  case (1 f fs n ns)
  obtain l F where F: "levels fs = l # F" by (rule levels_obtain)
  obtain t N where N: "levels ns = t # N" by (rule levels_obtain)
  note levels_eq = F N
  consider (stop) "n = slash" "f \<noteq> slash" | (diff) "\<not> (n = slash \<and> f \<noteq> slash)" "f \<noteq> plus_sign" "f \<noteq> hash_sign" "f \<noteq> n"
    | (plus) "n \<noteq> slash" "f = plus_sign" | (hash) "n \<noteq> slash" "f = hash_sign"
    | (sep) "n = slash" "f = slash" | (same) "n \<noteq> slash" "f \<noteq> plus_sign" "f \<noteq> hash_sign" "f = n"
    by auto
  then show ?case
  proof cases
    case stop
    then show ?thesis by (simp add: levels_eq)
  next
    case diff
    then show ?thesis by (cases "f = slash") (auto simp: levels_eq)
  next
    case plus
    then have l: "l = []" and v: "valid_levels (levels fs)" using 1(4) by (auto simp: levels_eq)
    then have "isTopicMatched_loop fs (dropWhile (\<lambda>x. x \<noteq> slash) ns) = ([], []) \<longleftrightarrow>
        code_match ([] # F) ([] # N)"
      using 1(1) plus levels_dropWhile [OF N] F by simp
    then show ?thesis using plus l by (simp add: levels_eq)
  next
    case hash
    then have "l = [] \<and> F = []" using 1(4) by (auto simp: levels_eq)
    then have "fs = []" using F levels_single by simp
    then show ?thesis using hash by (simp add: levels_eq)
  next
    case sep
    then show ?thesis using 1(3,4) by (simp add: levels_eq)
  next
    case same
    then have "plain l" "valid_levels (levels fs)" using 1(4) by (auto simp: levels_eq)
    moreover from this have "l \<noteq> [hash_sign]" "l \<noteq> [plus_sign]" by auto
    ultimately show ?thesis using 1(3) same by (simp add: levels_eq)
  qed
next
  case (2 ns)
  obtain t N where N: "levels ns = t # N" by (rule levels_obtain)
  then show ?case
    by (cases ns) (auto split: list.splits if_splits)
next
  case (3 fs)
  then show ?case
    by (cases fs) (auto split: list.splits if_splits)
qed

lemma code_match_standard:
  assumes "[] \<notin> set ts" and "length ts = length fs \<or> last fs \<noteq> [hash_sign] \<or> length fs < length ts"
  shows "code_match fs ts \<longleftrightarrow> standard_match fs ts"
  using assms
proof (induction fs arbitrary: ts)
  case (Cons f fs)
  show ?case
  proof (cases ts)
    case Nil
    then show ?thesis using Cons.prems by (auto split: if_splits)
  next
    case (Cons t ts')
    then show ?thesis using Cons.IH [of ts'] Cons.prems by (cases fs) auto
  qed
qed auto

section \<open>Delivering a message\<close>

text \<open>A topic name as it comes out of a packet: a length and a pointer into the read buffer.\<close>

definition topic_in :: "MQTTString \<Rightarrow> bytes \<Rightarrow> bool" where
  "topic_in tn t \<longleftrightarrow> cstring tn = None \<and> lenstring_len tn = int (length t) \<and>
     (\<exists>rest. lenstring_data tn = Some (t @ rest)) \<and> int (length t) \<le> int_max"

lemma strncmp_prefix:
  "0 \<notin> set f \<Longrightarrow> length t = length f \<Longrightarrow> strncmp_eq (t @ rest) (f @ [0]) (length f) = Some (t = f)"
proof (induction f arbitrary: t)
  case (Cons x f)
  then obtain y t' where "t = y # t'" "length t' = length f" by (metis length_Suc_conv)
  with Cons show ?case by auto
qed simp

lemma equals_topic:
  assumes "topic_in tn t" and "0 \<notin> set f" and "int (length f) \<le> int_max"
  shows "MQTTPacket_equals tn f = Some (t = f)"
  using assms strncmp_prefix [of f t] by (auto simp: topic_in_def MQTTPacket_equals_def Let_def)

lemma isTopicMatched_topic:
  assumes "topic_in tn t"
  shows "isTopicMatched f tn = Some (isTopicMatched_loop f t = ([], []))"
  using assms by (cases "t = []") (auto simp: topic_in_def isTopicMatched_def)

definition filter_takes :: "bytes \<Rightarrow> bytes \<Rightarrow> bool" where
  "filter_takes f t \<longleftrightarrow> t = f \<or> isTopicMatched_loop f t = ([], [])"

text \<open>Topic filters are C strings.\<close>

definition filters_ok :: "MessageHandler list \<Rightarrow> bool" where
  "filters_ok hs \<longleftrightarrow>
     list_all (\<lambda>h. case mh_topicFilter h of None \<Rightarrow> True | Some f \<Rightarrow> 0 \<notin> set f \<and> int (length f) \<le> int_max) hs"

lemma handler_matches_topic:
  assumes "topic_in tn t" and "0 \<notin> set f" and "int (length f) \<le> int_max"
  shows "handler_matches f tn = Some (filter_takes f t)"
  using equals_topic [OF assms] isTopicMatched_topic [OF assms(1)]
  by (simp add: handler_matches_def filter_takes_def)

text \<open>The handlers that a message for the topic \<open>t\<close> is for, in the order of the table.\<close>

fun takers :: "bytes \<Rightarrow> MessageHandler list \<Rightarrow> nat list" where
  "takers t [] = []"
| "takers t (h # hs) =
     (case (mh_topicFilter h, mh_fp h) of
        (Some f, Some fp) \<Rightarrow> if filter_takes f t then fp # takers t hs else takers t hs
      | _ \<Rightarrow> takers t hs)"

lemma deliver_loop_takers:
  assumes "topic_in tn t" and "filters_ok hs"
  shows "deliver_loop P tn msg hs rc s =
    Some (if takers t hs = [] then rc else SUCCESS, fold (\<lambda>fp. call_handler P fp tn msg) (takers t hs) s)"
  using assms(2)
proof (induction hs arbitrary: rc s)
  case (Cons h hs)
  then show ?case
    using handler_matches_topic [OF assms(1)]
    by (cases "mh_topicFilter h"; cases "mh_fp h") (auto simp: filters_ok_def)
qed simp

text \<open>With the default handler when the table has none.\<close>

definition recipients :: "MQTTClient \<Rightarrow> bytes \<Rightarrow> nat list" where
  "recipients c t =
     (if takers t (messageHandlers c) = []
      then (case defaultMessageHandler c of None \<Rightarrow> [] | Some fp \<Rightarrow> [fp])
      else takers t (messageHandlers c))"

lemma deliverMessage_recipients:
  assumes "topic_in tn t" and "filters_ok (messageHandlers c)"
  shows "deliverMessage P c s tn msg =
    Some (if recipients c t = [] then FAILURE else SUCCESS, fold (\<lambda>fp. call_handler P fp tn msg) (recipients c t) s)"
  by (cases "takers t (messageHandlers c) = []"; cases "defaultMessageHandler c")
    (simp_all add: deliverMessage_def deliver_loop_takers [OF assms] recipients_def FAILURE_def SUCCESS_def)

end
