(* ===== verification/ClientExchange.thy ===== *)
theory ClientExchange
  imports ClientSession TopicMatch
begin

text \<open>
  Exchanges with a broker: what the client's operations send, what they make of the answers and
  what they return, on a platform whose network delivers and accepts all it is asked to.
\<close>

section \<open>Clients, messages and packets\<close>

text \<open>The buffer after a packet has been read into it.\<close>

definition received :: "MQTTClient \<Rightarrow> u8 \<Rightarrow> bytes \<Rightarrow> MQTTClient" where
  "received c h body = c\<lparr>readbuf := patch (readbuf c) 0 (h # enc_len (length body) @ body)\<rparr>"

text \<open>A client whose sizes are those of its buffers and whose commands may take some time.\<close>

definition usable :: "MQTTClient \<Rightarrow> bool" where
  "usable c \<longleftrightarrow> client_ok c \<and> int (buf_size c) \<le> int_max \<and> int (readbuf_size c) \<le> int_max \<and>
     4 \<le> buf_size c \<and> 5 \<le> readbuf_size c \<and> command_timeout_ms c \<noteq> 0 \<and> uint (command_timeout_ms c) \<le> 2147483"

text \<open>The table of handlers after a subscription: full tables stay as they are.\<close>

definition subscribed :: "MQTTClient \<Rightarrow> bytes \<Rightarrow> nat option \<Rightarrow> MessageHandler list" where
  "subscribed c f fp = (case set_handler f fp (messageHandlers c) of Some hs \<Rightarrow> hs | None \<Rightarrow> messageHandlers c)"

text \<open>The message as \<open>MQTTPublish\<close> numbers it.\<close>

definition numbered :: "MQTTClient \<Rightarrow> MQTTMessage \<Rightarrow> MQTTMessage \<times> MQTTClient" where
  "numbered c m =
     (if m_qos m = QOS1 \<or> m_qos m = QOS2
      then (m\<lparr>m_id := word_of_int (fst (getNextPacketId c))\<rparr>, snd (getNextPacketId c)) else (m, c))"

definition message_packet :: "bytes \<Rightarrow> MQTTMessage \<Rightarrow> bytes \<Rightarrow> bytes" where
  "message_packet t m payload = publish_packet 0 (m_qos m) (m_retained m) (m_id m) t payload"

text \<open>Acknowledgements from the broker.\<close>

definition ack_of :: "msgTypes \<Rightarrow> u16 \<Rightarrow> bytes" where
  "ack_of k i = ack_packet (of_nat (msg_code k)) 0 i"

text \<open>The message that a PUBLISH packet carries, as the handlers get it; \<open>old\<close> is what the local variable
  held for the upper half of the length.\<close>

definition delivered :: "u8 \<Rightarrow> int \<Rightarrow> u8 \<Rightarrow> u16 \<Rightarrow> bytes \<Rightarrow> bytes \<Rightarrow> 64 word \<Rightarrow> MQTTMessage" where
  "delivered dup qos retained i payload rest old =
     \<lparr>m_qos = qos, m_retained = retained, m_dup = dup, m_id = i, m_payload = Some (payload @ rest),
      m_payloadlen = low_half old (int (length payload))\<rparr>"

section \<open>The platform\<close>

text \<open>What can be seen of the client from outside: the writes that the network accepted and the calls of
  the application's handlers, in their order.\<close>

datatype event = Sent bytes | Called nat MQTTString MQTTMessage

text \<open>\<open>avail s\<close> is what the network has delivered and nobody has read, \<open>trace s\<close> what has happened and
  \<open>clock s\<close> the time in microseconds. Data that has arrived can be read, a write is taken whole, the handlers do not use the
  network, and no call to the platform takes longer than \<open>pace\<close>, of which 32 are less than a second.\<close>

locale flowing_platform =
  fixes P :: "'s platform" and avail :: "'s \<Rightarrow> bytes" and trace :: "'s \<Rightarrow> event list" and clock :: "'s \<Rightarrow> int" and pace :: int
  assumes pace: "0 \<le> pace" "32 * pace < 1000000"
    and time: "\<exists>now s'. gettimeofday P s = (now, s') \<and> tv_ok now \<and> clock s \<le> micros now \<and> micros now \<le> clock s' \<and>
        clock s' \<le> clock s + pace \<and> avail s' = avail s \<and> trace s' = trace s"
    and read_all: "n \<le> length (avail s) \<Longrightarrow>
      \<exists>s'. mqttread P s (int n) t = Some (int n, take n (avail s), s') \<and>
        avail s' = drop n (avail s) \<and> trace s' = trace s \<and> clock s \<le> clock s' \<and> clock s' \<le> clock s + pace"
    and write_all: "0 \<le> t \<Longrightarrow> t \<le> 2147483 \<Longrightarrow> \<exists>s'. mqttwrite P s bs t = Some (int (length bs), s') \<and>
        avail s' = avail s \<and> trace s' = trace s @ [Sent bs] \<and> clock s \<le> clock s' \<and> clock s' \<le> clock s + pace"
    and handler: "avail (call_handler P fp tn m s) = avail s" "trace (call_handler P fp tn m s) = trace s @ [Called fp tn m]"
      "clock s \<le> clock (call_handler P fp tn m s)" "clock (call_handler P fp tn m s) \<le> clock s + pace"
begin

text \<open>\<open>s'\<close> follows \<open>s\<close> after at most \<open>k\<close> calls and the events \<open>es\<close>, with \<open>av\<close> still to be read.\<close>

definition after :: "int \<Rightarrow> 's \<Rightarrow> bytes \<Rightarrow> event list \<Rightarrow> 's \<Rightarrow> bool" where
  "after k s av es s' \<longleftrightarrow> avail s' = av \<and> trace s' = trace s @ es \<and> clock s \<le> clock s' \<and> clock s' \<le> clock s + k * pace"

text \<open>A timer that does not expire within \<open>k\<close> calls, with a time left that is not too long for \<open>mqttwrite\<close>.\<close>

definition running :: "int \<Rightarrow> 's \<Rightarrow> timeval \<Rightarrow> bool" where
  "running k s timer \<longleftrightarrow> tv_ok timer \<and> clock s + k * pace < micros timer \<and> micros timer < clock s + 2147484000"

lemma pace_mono: "k \<le> n \<Longrightarrow> k * pace \<le> n * pace"
  using pace(1) by (rule mult_right_mono [rotated])

lemma after_refl: "after 0 s (avail s) [] s"
  by (simp add: after_def)

lemma after_weaken: "after k s av es s' \<Longrightarrow> k \<le> n \<Longrightarrow> after n s av es s'"
  using pace_mono [of k n] by (auto simp: after_def)

lemma after_avail: "after k s av es s' \<Longrightarrow> avail s' = av"
  by (simp add: after_def)

lemma running_after: "running n s timer \<Longrightarrow> after k s av es s' \<Longrightarrow> m + k \<le> n \<Longrightarrow> running m s' timer"
  using pace_mono [of "m + k" n] by (auto simp: running_def after_def distrib_right)

lemma tick:
  obtains now s' where "gettimeofday P s = (now, s')" "after 1 s (avail s) [] s'" "tv_ok now"
    "clock s \<le> micros now" "micros now \<le> clock s'"
  using time [of s] by (auto simp: after_def)

lemma tick_running:
  assumes "running 1 s timer"
  obtains now s' where "gettimeofday P s = (now, s')" "after 1 s (avail s) [] s'"
    "\<not> TimerIsExpired now timer" "0 \<le> TimerLeftMS now timer" "TimerLeftMS now timer \<le> 2147483"
proof -
  obtain now s' where t: "gettimeofday P s = (now, s')" "after 1 s (avail s) [] s'" "tv_ok now"
    "clock s \<le> micros now" "micros now \<le> clock s'" by (rule tick)
  have left: "0 < micros timer - micros now" "micros timer - micros now < 2147484000" "tv_ok timer"
    using assms t(2,4,5) by (simp_all add: running_def after_def)
  then have eq: "TimerLeftMS now timer = (micros timer - micros now) div 1000"
    using leftMS_micros [of now timer] t(3) by simp
  have "0 \<le> (micros timer - micros now) div 1000" "(micros timer - micros now) div 1000 \<le> 2147483"
    using left by (simp, linarith)
  note bounds = this [folded eq]
  have "\<not> TimerIsExpired now timer" using t(3) left by (simp add: expired_micros)
  from t(1,2) this bounds show ?thesis by (rule that)
qed

lemma read_prefix:
  assumes "avail s = xs @ ys"
  obtains s' where "mqttread P s (int (length xs)) t = Some (int (length xs), xs, s')" "after 1 s ys [] s'"
  using read_all [of "length xs" s t] assms by (auto simp: after_def)

text \<open>Reading a byte at a time: one call for each.\<close>

lemma bytes_source:
  "byte_source (\<lambda>s n. mqttread P s n t)
     (\<lambda>s bs. after (n - int (length bs)) s0 bs [] s)"
proof (unfold_locales, goal_cases)
  case (1 s b bs)
  then have "avail s = [b] @ bs" by (simp add: after_def)
  then obtain s' where "mqttread P s (int (length [b])) t = Some (int (length [b]), [b], s')" "after 1 s bs [] s'"
    by (rule read_prefix)
  with 1 show ?case by (auto simp: after_def algebra_simps)
qed

lemma decode_prefix:
  assumes "avail s = enc_len n @ rest" and "n < 268435456"
  obtains s' where "decodePacket P s t = Some (int (length (enc_len n)), int n, s')" "after 4 s rest [] s'"
proof -
  let ?k = "int (length (enc_len n))"
  have "after (?k + int (length rest) - int (length (enc_len n @ rest))) s (enc_len n @ rest) [] s"
    using assms(1) by (simp add: after_def)
  from byte_source.decode_enc_len [OF bytes_source this assms(2), of t]
  obtain s' where "decodePacket P s t = Some (?k, int n, s')" "after ?k s rest [] s'"
    by (auto simp: decodePacket_def MQTTPacket_decode_def)
  moreover have "?k \<le> 4" using assms(2) length_enc_len [of n] by (simp split: if_splits)
  ultimately show ?thesis using after_weaken that by blast
qed

text \<open>The client has no ping to send within \<open>k\<close> calls.\<close>

definition quiet :: "int \<Rightarrow> 's \<Rightarrow> MQTTClient \<Rightarrow> bool" where
  "quiet k s c \<longleftrightarrow> keepAliveInterval c = 0 \<or> ping_outstanding c \<noteq> 0 \<or>
     (tv_ok (ping_timer c) \<and> clock s + k * pace < micros (ping_timer c))"

lemma quiet_after: "quiet n s c \<Longrightarrow> after k s av es s' \<Longrightarrow> m + k \<le> n \<Longrightarrow> quiet m s' c"
  using pace_mono [of "m + k" n] by (auto simp: quiet_def after_def distrib_right)

lemma quiet_received [simp]: "quiet k s (received c h body) = quiet k s c"
  by (simp add: quiet_def received_def)

lemma sendPacket_all:
  assumes "0 < len" and "nat len \<le> length (cl_buf c)" and "running 2 s timer"
  obtains now s' where "sendPacket P c s len timer =
      Some (SUCCESS, c\<lparr>ping_timer := TimerCountdown now (keepAliveInterval c)\<rparr>, s')"
    "after 4 s (avail s) [Sent (take (nat len) (cl_buf c))] s'"
    "quiet 31 s' (c\<lparr>ping_timer := TimerCountdown now (keepAliveInterval c)\<rparr>)"
proof -
  let ?bs = "take (nat len) (cl_buf c)" and ?k = "keepAliveInterval c"
  have "running 1 s timer" by (rule running_after [OF assms(3) after_refl]) simp
  then obtain now1 s1 where s1: "gettimeofday P s = (now1, s1)" "after 1 s (avail s) [] s1" "\<not> TimerIsExpired now1 timer"
    by (rule tick_running)
  have "running 1 s1 timer" by (rule running_after [OF assms(3) s1(2)]) simp
  then obtain now2 s2 where s2: "gettimeofday P s1 = (now2, s2)" "after 1 s1 (avail s1) [] s2"
    "0 \<le> TimerLeftMS now2 timer" "TimerLeftMS now2 timer \<le> 2147483" by (rule tick_running)
  obtain s3 where s3: "mqttwrite P s2 ?bs (TimerLeftMS now2 timer) = Some (len, s3)" "after 1 s2 (avail s2) [Sent ?bs] s3"
    using write_all [OF s2(3,4), of s2 ?bs] assms by (auto simp: after_def min_absorb2)
  have "region (cl_buf c) 0 len = Some ?bs" using assms(1,2) by (simp add: region_def)
  then have loop: "sendPacket_loop P (cl_buf c) len timer 0 s = Some (len, s3)"
    using s1 s2 s3 assms(1) by (simp add: sendPacket_loop.simps [of _ _ _ _ 0] sendPacket_loop.simps [of _ _ _ _ len])
  obtain now s4 where s4: "gettimeofday P s3 = (now, s4)" "after 1 s3 (avail s3) [] s4" "tv_ok now"
    "clock s3 \<le> micros now" by (rule tick)
  have "?k = 0 \<or> 1 \<le> uint ?k" by (metis int_one_le_iff_zero_less order_le_less uint_0_iff uint_ge_0)
  then have "quiet 31 s4 (c\<lparr>ping_timer := TimerCountdown now ?k\<rparr>)"
    using countdown_micros [OF s4(3), of ?k] s4(2,4) pace by (auto simp: quiet_def after_def)
  moreover have "after 4 s (avail s) [Sent ?bs] s4"
    using s1(2) s2(2) s3(2) s4(2) by (simp add: after_def)
  moreover have "sendPacket P c s len timer = Some (SUCCESS, c\<lparr>ping_timer := TimerCountdown now ?k\<rparr>, s4)"
    using loop s4 by (simp add: sendPacket_def)
  ultimately show ?thesis by (intro that)
qed

lemma readPacket_head:
  assumes s: "avail s = h # enc_len n @ rest" and n: "n < 268435456" and room: "1 + length (enc_len n) \<le> length (readbuf c)"
  obtains s' where "after 7 s rest [] s'" and "readPacket P c s timer =
    do { let len = int (1 + length (enc_len n));
         let rb = patch (readbuf c) 0 (h # enc_len n);
         (bad, rb, s) \<leftarrow>
           (if int n > 0
            then do {
              let (now, s) = gettimeofday P s';
              (got, bs, s) \<leftarrow> mqttread P s (int n) (TimerLeftMS now timer);
              rb \<leftarrow> memcpy rb (nat len) bs (int (length bs));
              Some (got \<noteq> int n, rb, s) }
            else Some (False, rb, s'));
         if bad then Some (1, c\<lparr>readbuf := rb\<rparr>, s)
         else do { b \<leftarrow> load rb 0; Some (uint (h_type (header_bits b)), c\<lparr>readbuf := rb\<rparr>, s) } }"
proof -
  obtain now1 s1 where s1: "gettimeofday P s = (now1, s1)" "after 1 s (avail s) [] s1" by (rule tick)
  then have "avail s1 = [h] @ enc_len n @ rest" using s by (simp add: after_def)
  then obtain s2 where s2: "mqttread P s1 (int (length [h])) (TimerLeftMS now1 timer) = Some (int (length [h]), [h], s2)"
    "after 1 s1 (enc_len n @ rest) [] s2" by (rule read_prefix)
  obtain now3 s3 where s3: "gettimeofday P s2 = (now3, s3)" "after 1 s2 (avail s2) [] s3" by (rule tick)
  then have "avail s3 = enc_len n @ rest" using s2 by (simp add: after_def)
  then obtain s4 where s4: "decodePacket P s3 (TimerLeftMS now3 timer) = Some (int (length (enc_len n)), int n, s4)"
    "after 4 s3 rest [] s4" using n by (rule decode_prefix)
  have a: "after 7 s rest [] s4" using s1(2) s2(2) s3(2) s4(2) by (simp add: after_def)
  have cp: "memcpy (readbuf c) 0 [h] 1 = Some (patch (readbuf c) 0 [h])"
    using memcpy_patch [of 1 "[h]" 0 "readbuf c" "[]"] room by simp
  have "MQTTPacket_encode (patch (readbuf c) 0 [h]) 1 (int n) =
      Some (patch (patch (readbuf c) 0 [h]) 1 (enc_len n), int (length (enc_len n)))"
    using encode_loop_ok [of 1 0 n "patch (readbuf c) 0 [h]"] room by (simp add: MQTTPacket_encode_def)
  moreover have "patch (patch (readbuf c) 0 [h]) 1 (enc_len n) = patch (readbuf c) 0 (h # enc_len n)"
    using patch_patch [of 0 "[h]" "enc_len n" "readbuf c"] room by simp
  ultimately have "readPacket P c s timer =
    do { let len = int (1 + length (enc_len n));
         let rb = patch (readbuf c) 0 (h # enc_len n);
         (bad, rb, s) \<leftarrow>
           (if int n > 0
            then do {
              let (now, s) = gettimeofday P s4;
              (got, bs, s) \<leftarrow> mqttread P s (int n) (TimerLeftMS now timer);
              rb \<leftarrow> memcpy rb (nat len) bs (int (length bs));
              Some (got \<noteq> int n, rb, s) }
            else Some (False, rb, s4));
         if bad then Some (1, c\<lparr>readbuf := rb\<rparr>, s)
         else do { b \<leftarrow> load rb 0; Some (uint (h_type (header_bits b)), c\<lparr>readbuf := rb\<rparr>, s) } }"
    using s1 s2 s3 s4 cp by (simp add: readPacket_def Let_def)
  with a show ?thesis by (rule that)
qed

lemma readPacket_all:
  assumes s: "avail s = h # enc_len (length body) @ body @ rest" and n: "length body < 268435456"
    and room: "1 + length (enc_len (length body)) + length body \<le> length (readbuf c)"
  obtains s' where "readPacket P c s timer = Some (uint (h_type (header_bits h)), received c h body, s')"
    "after 9 s rest [] s'"
proof -
  let ?n = "length body" and ?o = "1 + length (enc_len (length body))"
  obtain s1 where s1: "after 7 s (body @ rest) [] s1" and read: "readPacket P c s timer =
    do { let len = int ?o;
         let rb = patch (readbuf c) 0 (h # enc_len ?n);
         (bad, rb, s) \<leftarrow>
           (if int ?n > 0
            then do {
              let (now, s) = gettimeofday P s1;
              (got, bs, s) \<leftarrow> mqttread P s (int ?n) (TimerLeftMS now timer);
              rb \<leftarrow> memcpy rb (nat len) bs (int (length bs));
              Some (got \<noteq> int ?n, rb, s) }
            else Some (False, rb, s1));
         if bad then Some (1, c\<lparr>readbuf := rb\<rparr>, s)
         else do { b \<leftarrow> load rb 0; Some (uint (h_type (header_bits b)), c\<lparr>readbuf := rb\<rparr>, s) } }"
    by (rule readPacket_head [of s h ?n "body @ rest" c timer]) (use s n room in auto)
  obtain now2 s2 where s2: "gettimeofday P s1 = (now2, s2)" "after 1 s1 (avail s1) [] s2" by (rule tick)
  then have "avail s2 = body @ rest" using s1 by (simp add: after_def)
  then obtain s3 where s3: "mqttread P s2 (int ?n) (TimerLeftMS now2 timer) = Some (int ?n, body, s3)" "after 1 s2 rest [] s3"
    by (rule read_prefix)
  let ?rb = "patch (readbuf c) 0 (h # enc_len ?n)"
  have "memcpy ?rb ?o body (int ?n) = Some (patch ?rb ?o body)"
    using memcpy_patch [of "int ?n" body ?o ?rb "[]"] room by simp
  moreover have p: "patch ?rb ?o body = patch (readbuf c) 0 (h # enc_len ?n @ body)"
    using patch_patch [of 0 "h # enc_len ?n" body "readbuf c"] room by simp
  ultimately have "readPacket P c s timer =
      Some (uint (h_type (header_bits h)), received c h body, if body = [] then s1 else s3)"
    using s2 s3 by (simp add: read Let_def received_def nat_add_distrib)
  moreover have "after 9 s rest [] (if body = [] then s1 else s3)"
    using s1 s2(2) s3(2) using pace by (auto simp: after_def)
  ultimately show ?thesis by (rule that)
qed

lemma readPacket_overrun:
  assumes s: "avail s = h # enc_len (length body) @ body @ rest" and n: "length body < 268435456"
    and room: "1 + length (enc_len (length body)) \<le> length (readbuf c)"
      "length (readbuf c) < 1 + length (enc_len (length body)) + length body"
  shows "readPacket P c s timer = None"
proof -
  let ?n = "length body" and ?o = "1 + length (enc_len (length body))"
  obtain s1 where s1: "after 7 s (body @ rest) [] s1" and read: "readPacket P c s timer =
    do { let len = int ?o;
         let rb = patch (readbuf c) 0 (h # enc_len ?n);
         (bad, rb, s) \<leftarrow>
           (if int ?n > 0
            then do {
              let (now, s) = gettimeofday P s1;
              (got, bs, s) \<leftarrow> mqttread P s (int ?n) (TimerLeftMS now timer);
              rb \<leftarrow> memcpy rb (nat len) bs (int (length bs));
              Some (got \<noteq> int ?n, rb, s) }
            else Some (False, rb, s1));
         if bad then Some (1, c\<lparr>readbuf := rb\<rparr>, s)
         else do { b \<leftarrow> load rb 0; Some (uint (h_type (header_bits b)), c\<lparr>readbuf := rb\<rparr>, s) } }"
    by (rule readPacket_head [OF s n room(1)])
  obtain now2 s2 where s2: "gettimeofday P s1 = (now2, s2)" "after 1 s1 (avail s1) [] s2" by (rule tick)
  then have "avail s2 = body @ rest" using s1 by (simp add: after_def)
  then obtain s3 where s3: "mqttread P s2 (int ?n) (TimerLeftMS now2 timer) = Some (int ?n, body, s3)"
    by (rule read_prefix)
  have "memcpy (patch (readbuf c) 0 (h # enc_len ?n)) ?o body (int ?n) = None"
    using room by (intro memcpy_None) simp
  moreover have "body \<noteq> []" using room by auto
  ultimately show ?thesis using s2 s3 by (simp add: read Let_def nat_add_distrib)
qed

lemma packet_type_small: "0 \<le> n \<Longrightarrow> n < 65536 \<Longrightarrow> packet_type_of n = n"
  by (simp add: packet_type_of_def uint_word_of_int)

lemma keepalive_quiet:
  assumes "quiet 1 s c" obtains rc s' where "keepalive P c s = Some (rc, c, s')" "after 1 s (avail s) [] s'"
proof -
  obtain now s1 where s1: "gettimeofday P s = (now, s1)" "after 1 s (avail s) [] s1" "tv_ok now" "micros now \<le> clock s1"
    by (rule tick)
  show ?thesis
  proof (cases "keepAliveInterval c = 0")
    case True
    then show ?thesis using that [of SUCCESS s] after_weaken [OF after_refl, of 1] by (simp add: keepalive_def)
  next
    case False
    then have "ping_outstanding c \<noteq> 0 \<or> \<not> TimerIsExpired now (ping_timer c)"
      using assms s1(2,3,4) by (auto simp: quiet_def expired_micros after_def)
    then show ?thesis using False that [of FAILURE s1] s1 by (auto simp: keepalive_def)
  qed
qed

text \<open>A packet that \<open>cycle\<close> only reports.\<close>

lemma cycle_report:
  assumes s: "avail s = h # enc_len (length body) @ body @ rest" and n: "length body < 268435456"
    and room: "1 + length (enc_len (length body)) + length body \<le> length (readbuf c)" and q: "quiet 10 s c"
    and h: "uint (h_type (header_bits h)) \<in> {1, 2, 4, 6, 7, 8, 9, 10, 11, 12, 14, 15}"
  obtains s' where "cycle P c s timer = Some (uint (h_type (header_bits h)), received c h body, s')"
    "after 10 s rest [] s'"
proof -
  obtain s1 where s1: "readPacket P c s timer = Some (uint (h_type (header_bits h)), received c h body, s1)"
    "after 9 s rest [] s1" by (rule readPacket_all [OF s n room])
  obtain rc s2 where s2: "keepalive P (received c h body) s1 = Some (rc, received c h body, s2)" "after 1 s1 (avail s1) [] s2"
    by (rule keepalive_quiet [of s1 "received c h body"]) (use quiet_after [OF q s1(2), of 1] in simp)
  define T where "T = uint (h_type (header_bits h))"
  have "packet_type_of T = T" using h by (intro packet_type_small) (auto simp flip: T_def)
  then have "cycle P c s timer = Some (T, received c h body, s2)"
    using s1 s2 h by (auto simp: cycle_def SUCCESS_def FAILURE_def simp flip: T_def)
  then have "cycle P c s timer = Some (uint (h_type (header_bits h)), received c h body, s2)" by (simp add: T_def)
  moreover have "after 10 s rest [] s2" using s1 s2 by (simp add: after_def)
  ultimately show ?thesis by (rule that)
qed

lemma waitfor_first:
  assumes "running 1 s timer"
    and "\<And>s1. after 1 s (avail s) [] s1 \<Longrightarrow> \<exists>s'. cycle P c s1 timer = Some (int (msg_code k), c', s') \<and> after n s1 av bs s'"
  obtains s' where "waitfor_loop P (int (msg_code k)) timer rc0 c s = Some (int (msg_code k), c', s')" "after (n + 1) s av bs s'"
proof -
  obtain now s1 where s1: "gettimeofday P s = (now, s1)" "after 1 s (avail s) [] s1" "\<not> TimerIsExpired now timer"
    using assms(1) by (rule tick_running)
  then obtain s' where s': "cycle P c s1 timer = Some (int (msg_code k), c', s')" "after n s1 av bs s'" using assms(2) by blast
  have "waitfor_loop P (int (msg_code k)) timer rc0 c s = Some (int (msg_code k), c', s')"
    using s1 s' by (simp add: waitfor_loop.simps [of _ _ _ rc0])
  moreover have "after (n + 1) s av bs s'" using s1(2) s'(2) by (simp add: after_def distrib_right)
  ultimately show ?thesis by (rule that)
qed

text \<open>Waiting for an answer of one of these types, which is the next packet to arrive.\<close>

lemma waitfor_loop_answer:
  assumes s: "avail s = h # enc_len (length body) @ body @ rest" and n: "length body < 268435456"
    and room: "1 + length (enc_len (length body)) + length body \<le> length (readbuf c)" and q: "quiet 11 s c"
    and h: "uint (h_type (header_bits h)) = int (msg_code k)" "k \<in> {CONNACK, PUBACK, PUBCOMP, SUBACK, UNSUBACK}"
    and t: "running 1 s timer"
  obtains s' where "waitfor_loop P (int (msg_code k)) timer rc0 c s = Some (int (msg_code k), received c h body, s')" "after 11 s rest [] s'"
proof -
  have "\<exists>s'. cycle P c s1 timer = Some (int (msg_code k), received c h body, s') \<and> after 10 s1 rest [] s'"
    if "after 1 s (avail s) [] s1" for s1
  proof -
    have "avail s1 = h # enc_len (length body) @ body @ rest" using that s by (simp add: after_def)
    moreover have q1: "quiet 10 s1 c" by (rule quiet_after [OF q that]) simp
    moreover have "uint (h_type (header_bits h)) \<in> {1, 2, 4, 6, 7, 8, 9, 10, 11, 12, 14, 15}" using h by auto
    ultimately show ?thesis using cycle_report [of s1 h body rest c timer] n room q1 h(1) by metis
  qed
  from waitfor_first [OF t this] show ?thesis using that by auto
qed

lemmas waitfor_answer = waitfor_loop_answer [where ?rc0.0 = FAILURE, folded waitfor_def]

section \<open>Whole operations\<close>

lemma timer_running:
  assumes "tv_ok now" and "clock s \<le> micros now" and "micros now \<le> clock s'" and "clock s' \<le> clock s + pace"
    and "32 * pace < uint t * 1000" and "uint t \<le> 2147483"
  shows "running 31 s' (TimerCountdownMS now t)"
  using assms countdownMS_micros [OF assms(1), of t] by (simp add: running_def)

lemma usable_size:
  "usable c \<Longrightarrow> cbuf_size c = int (length (cl_buf c))" "usable c \<Longrightarrow> crbuf_size c = int (length (readbuf c))"
  by (simp_all add: usable_def client_ok_def cbuf_size_def crbuf_size_def)

lemma connect_exchange:
  assumes c: "usable c" "isconnected c = 0" and d: "connect_ok d" "fits (length (connect_body d)) (int (length (cl_buf c)))"
    and s: "avail s = connack_answer flags code @ rest" and fast: "32 * pace < uint (command_timeout_ms c) * 1000"
  obtains c' s' where "MQTTConnect P c s (Some d) = Some (uint code, c', s')" "after 17 s rest [Sent (connect_packet d)] s'"
    "isconnected c' = (if code = 0 then 1 else 0)"
proof -
  obtain now s1 where s1: "gettimeofday P s = (now, s1)" "after 1 s (avail s) [] s1" "tv_ok now"
    "clock s \<le> micros now" "micros now \<le> clock s1" by (rule tick)
  obtain now2 s2 where s2: "gettimeofday P s1 = (now2, s2)" "after 1 s1 (avail s1) [] s2" by (rule tick)
  let ?h = "header_byte (header_zero\<lparr>h_type := type_code CONNACK\<rparr>)" and ?pkt = "connect_packet d"
  let ?timer = "TimerCountdownMS now (command_timeout_ms c)" and ?k = "ucast (c_keepAliveInterval d) :: u32"
  define c1 where "c1 = c\<lparr>keepAliveInterval := ?k, ping_timer := TimerCountdown now2 ?k, cl_buf := patch (cl_buf c) 0 ?pkt\<rparr>"
  have run: "running 31 s1 ?timer"
    by (rule timer_running [OF s1(3,4,5) _ fast]) (use s1(2) c(1) in \<open>simp_all add: after_def usable_def\<close>)
  have n: "length ?pkt \<le> length (cl_buf c)"
    using fits_length [OF d(2)] connect_body_less [OF d(1)] by (simp add: connect_packet_def)
  have ser: "MQTTSerialize_connect (cl_buf c) (int (length (cl_buf c))) d = Some (int (length ?pkt), patch (cl_buf c) 0 ?pkt)"
    using serialize_connect [OF d(1)] d(2) by simp
  have len1: "nat (int (length ?pkt)) \<le> length (cl_buf c1)" using n by (simp add: c1_def)
  have run2: "running 30 s2 ?timer" by (rule running_after [OF run s2(2)]) simp
  have run3: "running 2 s2 ?timer" by (rule running_after [OF run s2(2)]) simp
  obtain now3 s3 where s3: "sendPacket P c1 s2 (int (length ?pkt)) ?timer =
      Some (SUCCESS, c1\<lparr>ping_timer := TimerCountdown now3 (keepAliveInterval c1)\<rparr>, s3)"
    "after 4 s2 (avail s2) [Sent (take (nat (int (length ?pkt))) (cl_buf c1))] s3"
    "quiet 31 s3 (c1\<lparr>ping_timer := TimerCountdown now3 (keepAliveInterval c1)\<rparr>)"
    by (rule sendPacket_all [OF _ len1 run3]) (simp add: connect_packet_def)
  let ?c2 = "c1\<lparr>ping_timer := TimerCountdown now3 (keepAliveInterval c1)\<rparr>"
  have q: "quiet 11 s3 ?c2" by (rule quiet_after [OF s3(3) after_refl]) simp
  have run4: "running 1 s3 ?timer" by (rule running_after [OF run2 s3(2)]) simp
  have "avail s3 = ?h # enc_len (length [flags, code]) @ [flags, code] @ rest"
    using s s1 s2 s3 by (simp add: after_def connack_answer_def numeral_2_eq_2)
  then obtain s4 where s4: "waitfor P ?c2 s3 CONNACK ?timer = Some (int (msg_code CONNACK), received ?c2 ?h [flags, code], s4)"
    "after 11 s3 rest [] s4"
    by (rule waitfor_answer [where k = CONNACK and timer = ?timer and c = ?c2])
      (use c run4 q in \<open>auto simp: c1_def usable_def client_ok_def enc_len_small connack_type\<close>)
  let ?c3 = "received ?c2 ?h [flags, code]"
  obtain tail where "readbuf ?c3 = ?h # 2 # flags # code # tail"
    by (simp add: received_def patch_def enc_len_small)
  note ack = deserialize_connack_bytes [OF this, of "\<lparr>ka_sessionPresent = 0, ka_connack_rc = 255\<rparr>"]
  have pos: "\<not> int (length ?pkt) \<le> 0" by (simp add: connect_packet_def)
  have "MQTTConnect P c s (Some d) = Some (uint code, if uint code = SUCCESS then ?c3\<lparr>isconnected := 1\<rparr> else ?c3, s4)"
    using s1 s2 s3(1) s4(1) ser c pos ack
    by (simp add: MQTTConnect_def Let_def usable_size cbuf_size_def usable_def client_ok_def flip: c1_def)
  moreover have "after 17 s rest [Sent ?pkt] s4"
    using s1 s2 s3 s4 n by (simp add: after_def c1_def take_patch0)
  moreover have "isconnected ?c3 = 0" using c by (simp add: received_def c1_def)
  ultimately show ?thesis
    by (intro that [of "if uint code = SUCCESS then ?c3\<lparr>isconnected := 1\<rparr> else ?c3" s4]) (auto simp: SUCCESS_def uint_0_iff)
qed

lemma usable_next:
  assumes "usable c" and "getNextPacketId c = (pid, c1)"
  shows "usable c1" and "1 \<le> pid" and "pid \<le> 65535" and "isconnected c1 = isconnected c"
    and "cl_buf c1 = cl_buf c" and "readbuf c1 = readbuf c" and "command_timeout_ms c1 = command_timeout_ms c"
    and "messageHandlers c1 = messageHandlers c" and "defaultMessageHandler c1 = defaultMessageHandler c"
proof -
  have ok: "client_ok c" using assms(1) by (simp add: usable_def)
  show "1 \<le> pid" "pid \<le> 65535" using next_id_range [OF ok] assms(2) by simp_all
  have "client_ok c1" using client_ok_next [OF ok] assms(2) by simp
  then show "usable c1" "isconnected c1 = isconnected c"
    "cl_buf c1 = cl_buf c" "readbuf c1 = readbuf c" "command_timeout_ms c1 = command_timeout_ms c"
    "messageHandlers c1 = messageHandlers c" "defaultMessageHandler c1 = defaultMessageHandler c"
    using assms by (auto simp: usable_def getNextPacketId_def Let_def)
qed

text \<open>Sending a packet that has just been written at the start of the buffer.\<close>

lemma send_packet:
  assumes "length pkt \<le> length (cl_buf c)" and "running 2 s timer"
    and "c' = c\<lparr>cl_buf := patch (cl_buf c) 0 pkt\<rparr>" and "pkt \<noteq> []"
  obtains now s' where "sendPacket P c' s (int (length pkt)) timer =
      Some (SUCCESS, c'\<lparr>ping_timer := TimerCountdown now (keepAliveInterval c')\<rparr>, s')"
    "after 4 s (avail s) [Sent pkt] s'" "quiet 31 s' (c'\<lparr>ping_timer := TimerCountdown now (keepAliveInterval c')\<rparr>)"
proof (rule sendPacket_all [of "int (length pkt)" c' s timer])
  show "nat (int (length pkt)) \<le> length (cl_buf c')" using assms(1,3) by simp
next
  fix now s' assume "sendPacket P c' s (int (length pkt)) timer =
      Some (SUCCESS, c'\<lparr>ping_timer := TimerCountdown now (keepAliveInterval c')\<rparr>, s')"
    "after 4 s (avail s) [Sent (take (nat (int (length pkt))) (cl_buf c'))] s'"
    "quiet 31 s' (c'\<lparr>ping_timer := TimerCountdown now (keepAliveInterval c')\<rparr>)"
  then show thesis using assms(1,3) by (intro that) (simp_all add: take_patch0)
qed (use assms(2,4) in simp_all)

lemma subscribe_exchange:
  assumes c: "usable c" "isconnected c \<noteq> 0" and f: "length f < 65536"
    and fit: "fits (length (subscribe_body (word_of_int (fst (getNextPacketId c))) [(f, word_of_int qos)])) (int (length (cl_buf c)))"
    and s: "avail s = suback_packet aid [q] @ rest" and fast: "32 * pace < uint (command_timeout_ms c) * 1000"
  obtains rc c' s' where "MQTTSubscribe P c s f qos fp = Some (rc, c', s')"
    "after 16 s rest [Sent (subscribe_packet 0 (word_of_int (fst (getNextPacketId c))) [(f, word_of_int qos)])] s'"
    "messageHandlers c' = subscribed c f fp"
    "rc = (if set_handler f fp (messageHandlers c) = None then sint q else 0)"
proof -
  obtain pid c1 where nxt: "getNextPacketId c = (pid, c1)" by (cases "getNextPacketId c")
  note c1 = usable_next [OF c(1) nxt]
  let ?i = "word_of_int pid :: u16" and ?rs = "[(f, word_of_int qos :: u8)]"
  let ?pkt = "subscribe_packet 0 ?i ?rs"
  let ?h = "header_byte (with_header SUBACK 0 0)" and ?body = "enc16 (unat aid) @ [q]"
  obtain now s1 where s1: "gettimeofday P s = (now, s1)" "after 1 s (avail s) [] s1" "tv_ok now"
    "clock s \<le> micros now" "micros now \<le> clock s1" by (rule tick)
  let ?timer = "TimerCountdownMS now (command_timeout_ms c1)"
  have run: "running 31 s1 ?timer"
    by (rule timer_running [OF s1(3,4,5) _ fast [folded c1(7)]]) (use s1(2) c1(1) in \<open>simp_all add: after_def usable_def\<close>)
  have run2: "running 2 s1 ?timer" by (rule running_after [OF run after_refl]) simp
  have body: "length (subscribe_body ?i ?rs) < 268435456" using f by (simp add: subscribe_body_def)
  have fit1: "fits (length (subscribe_body ?i ?rs)) (int (length (cl_buf c1)))" using fit nxt c1(5) by simp
  have n: "length ?pkt \<le> length (cl_buf c1)" using fits_length [OF fit1 body] by (simp add: subscribe_packet_def)
  have ser: "MQTTSerialize_subscribe (cl_buf c1) (int (length (cl_buf c1))) 0 ?i 1 [c_string f] [qos] =
      Some (int (length ?pkt), patch (cl_buf c1) 0 ?pkt)"
    using serialize_subscribe [of "[c_string f]" "[qos]" ?i "int (length (cl_buf c1))" "cl_buf c1" 0] f body fit1
    by (simp add: requests_def)
  define c2 where "c2 = c1\<lparr>cl_buf := patch (cl_buf c1) 0 ?pkt\<rparr>"
  obtain now2 s3 where s3: "sendPacket P c2 s1 (int (length ?pkt)) ?timer =
      Some (SUCCESS, c2\<lparr>ping_timer := TimerCountdown now2 (keepAliveInterval c2)\<rparr>, s3)"
    "after 4 s1 (avail s1) [Sent ?pkt] s3" "quiet 31 s3 (c2\<lparr>ping_timer := TimerCountdown now2 (keepAliveInterval c2)\<rparr>)"
    by (rule send_packet [OF n run2 c2_def]) (simp add: subscribe_packet_def)
  let ?c3 = "c2\<lparr>ping_timer := TimerCountdown now2 (keepAliveInterval c2)\<rparr>"
  have q: "quiet 11 s3 ?c3" by (rule quiet_after [OF s3(3) after_refl]) simp
  have run3: "running 1 s3 ?timer" by (rule running_after [OF run s3(2)]) simp
  have h: "uint (h_type (header_bits ?h)) = int (msg_code SUBACK)" by (simp add: with_header_def type_code_def)
  have "avail s3 = ?h # enc_len (length ?body) @ ?body @ rest"
    using s s1 s3 by (simp add: after_def suback_packet_def numeral_3_eq_3)
  then obtain s4 where s4: "waitfor P ?c3 s3 SUBACK ?timer = Some (int (msg_code SUBACK), received ?c3 ?h ?body, s4)"
    "after 11 s3 rest [] s4"
    by (rule waitfor_answer [where k = SUBACK and timer = ?timer and c = ?c3])
      (use c1(1) h run3 q in \<open>auto simp: c2_def usable_def client_ok_def enc_len_small\<close>)
  let ?c4 = "received ?c3 ?h ?body"
  have rb: "readbuf ?c4 = suback_packet aid [q] @ drop 5 (readbuf c1)"
    by (simp add: received_def suback_packet_def patch_def enc_len_small c2_def)
  have ack: "MQTTDeserialize_suback \<lparr>ko_packetid = i, ko_count = 0, ko_grantedQoSs = [-1]\<rparr> 1 (readbuf ?c4) bl =
      Some (1, \<lparr>ko_packetid = aid, ko_count = 1, ko_grantedQoSs = [sint q]\<rparr>)" for i bl
    using deserialize_suback [OF rb, of "\<lparr>ko_packetid = i, ko_count = 0, ko_grantedQoSs = [-1]\<rparr>" 1 bl] by (simp add: patch_def)
  have sq: "sint q < 128" using sint_lt [of q] by simp
  have pos: "\<not> int (length ?pkt) \<le> 0" by (simp add: subscribe_packet_def)
  let ?hs = "set_handler f fp (messageHandlers c)"
  let ?c5 = "case ?hs of Some hs \<Rightarrow> ?c4\<lparr>messageHandlers := hs\<rparr> | None \<Rightarrow> ?c4"
  have "messageHandlers ?c4 = messageHandlers c" using c1(8) by (simp add: received_def c2_def)
  then have "MQTTSubscribe P c s f qos fp = Some (if ?hs = None then sint q else 0, ?c5, s4)"
    using s1(1) s3(1) s4(1) ser c(2) c1(1,7) pos ack sq nxt
    by (simp add: MQTTSubscribe_def Let_def usable_size flip: c2_def split: option.splits)
  moreover have "after 16 s rest [Sent ?pkt] s4" using s1 s3 s4 by (simp add: after_def)
  moreover have "messageHandlers ?c5 = subscribed c f fp"
    using c1(8) by (simp add: subscribed_def received_def c2_def split: option.splits)
  ultimately show ?thesis using nxt by (intro that) simp_all
qed

lemma publish_start:
  assumes c: "usable c" "isconnected c \<noteq> 0" and t: "length t < 65536"
    and p: "m_payload m = Some payload" "m_payloadlen m = of_nat (length payload)" "length payload < 100000000"
    and fit: "fits (length (publish_body (m_qos m) 0 t payload)) (int (length (cl_buf c)))"
    and fast: "32 * pace < uint (command_timeout_ms c) * 1000"
  obtains c' s' timer where "usable c'" "quiet 31 s' c'" "running 27 s' timer"
    "after 5 s (avail s) [Sent (message_packet t (fst (numbered c m)) payload)] s'"
    "MQTTPublish P c s t m =
      do { (rc, cc, ss) \<leftarrow>
            (if m_qos m = QOS1 then publish_wait P c' s' PUBACK timer SUCCESS
             else if m_qos m = QOS2 then publish_wait P c' s' PUBCOMP timer SUCCESS
             else Some (SUCCESS, c', s'));
           Some (rc, fst (numbered c m), cc, ss) }"
proof -
  obtain m1 c1 where nm: "numbered c m = (m1, c1)" by (cases "numbered c m")
  obtain pid c0 where nxt: "getNextPacketId c = (pid, c0)" by (cases "getNextPacketId c")
  have c1: "usable c1" "cl_buf c1 = cl_buf c" "readbuf c1 = readbuf c" "command_timeout_ms c1 = command_timeout_ms c"
    and m1: "m_qos m1 = m_qos m" "m_retained m1 = m_retained m" "m_payload m1 = m_payload m" "m_payloadlen m1 = m_payloadlen m"
    using nm usable_next [OF c(1) nxt] nxt c(1) by (auto simp: numbered_def split: if_splits)
  have num: "(if m_qos m = QOS1 \<or> m_qos m = QOS2
      then let (pid, c) = getNextPacketId c in (m\<lparr>m_id := word_of_int pid\<rparr>, c) else (m, c)) = (m1, c1)"
    using nm nxt by (auto simp: numbered_def split: if_splits)
  let ?pkt = "message_packet t m1 payload"
  obtain now s1 where s1: "gettimeofday P s = (now, s1)" "after 1 s (avail s) [] s1" "tv_ok now"
    "clock s \<le> micros now" "micros now \<le> clock s1" by (rule tick)
  let ?timer = "TimerCountdownMS now (command_timeout_ms c)"
  have run: "running 31 s1 ?timer"
    by (rule timer_running [OF s1(3,4,5) _ fast]) (use s1(2) c(1) in \<open>simp_all add: after_def usable_def\<close>)
  have run2: "running 2 s1 ?timer" by (rule running_after [OF run after_refl]) simp
  let ?n = "length (publish_body (m_qos m) (m_id m1) t payload)"
  have same: "length (publish_body (m_qos m) 0 t payload) = ?n" by (simp add: length_publish_body)
  have body: "?n < 268435456" using t p(3) by (simp add: length_publish_body)
  have fit1: "fits ?n (int (length (cl_buf c1)))" using fit c1(2) same by simp
  have n: "length ?pkt \<le> length (cl_buf c1)"
    using fits_length [OF fit1 body] m1 by (simp add: message_packet_def publish_packet_def Let_def)
  have "uint (m_payloadlen m) = int (length payload)" using p by (simp add: uint_nat unat_of_nat_word)
  then have plen: "to_int (uint (m_payloadlen m1)) = int (length payload)" using p m1 by (simp add: int_max_def)
  have ser: "MQTTSerialize_publish (cl_buf c1) (int (length (cl_buf c1))) 0 (m_qos m) (m_retained m) (m_id m1) (c_string t)
      payload (int (length payload)) = Some (int (length ?pkt), patch (cl_buf c1) 0 ?pkt)"
    using serialize_publish [of "c_string t" "m_qos m" "m_id m1" payload "int (length (cl_buf c1))" "cl_buf c1" 0 "m_retained m" "[]"]
      t body fit1 m1 by (simp add: message_packet_def Let_def)
  define c2 where "c2 = c1\<lparr>cl_buf := patch (cl_buf c1) 0 ?pkt\<rparr>"
  have c2c: "c1\<lparr>cl_buf := patch (cl_buf c) 0 ?pkt\<rparr> = c2" by (simp add: c2_def c1)
  obtain now2 s3 where s3: "sendPacket P c2 s1 (int (length ?pkt)) ?timer =
      Some (SUCCESS, c2\<lparr>ping_timer := TimerCountdown now2 (keepAliveInterval c2)\<rparr>, s3)"
    "after 4 s1 (avail s1) [Sent ?pkt] s3" "quiet 31 s3 (c2\<lparr>ping_timer := TimerCountdown now2 (keepAliveInterval c2)\<rparr>)"
    by (rule send_packet [OF n run2 c2_def]) (simp add: message_packet_def publish_packet_def Let_def)
  let ?c3 = "c2\<lparr>ping_timer := TimerCountdown now2 (keepAliveInterval c2)\<rparr>"
  have run3: "running 27 s3 ?timer" by (rule running_after [OF run s3(2)]) simp
  have pos: "\<not> int (length ?pkt) \<le> 0" by (simp add: message_packet_def publish_packet_def Let_def)
  have "usable ?c3" using c1(1) n by (simp add: usable_def c2_def)
  moreover have "MQTTPublish P c s t m =
      do { (rc, cc, ss) \<leftarrow>
            (if m_qos m = QOS1 then publish_wait P ?c3 s3 PUBACK ?timer SUCCESS
             else if m_qos m = QOS2 then publish_wait P ?c3 s3 PUBCOMP ?timer SUCCESS
             else Some (SUCCESS, ?c3, s3));
           Some (rc, fst (numbered c m), cc, ss) }"
    using s1(1) s3(1) ser c(2) c1 m1 pos p(1) plen nm
    by (simp only: MQTTPublish_def Let_def num [unfolded Let_def] if_False prod.case bind.bind_lunit usable_size [OF c1(1)] option.case
        not_False_eq_True) (simp add: c2c)
  moreover have "after 5 s (avail s) [Sent (message_packet t (fst (numbered c m)) payload)] s3"
    using s1(2) s3(2) nm by (simp add: after_def)
  ultimately show ?thesis using s3(3) run3 by (intro that [of ?c3 s3 ?timer])
qed

lemma ack_of_bytes: "ack_of k i = header_byte (ack_header (of_nat (msg_code k)) 0) # enc_len (length (enc16 (unat i))) @ enc16 (unat i)"
  by (simp add: ack_of_def ack_packet_def)

lemma ack_header_type: "uint (h_type (ack_header (of_nat (msg_code k)) 0)) = int (msg_code k)"
  by (cases k) (simp_all add: ack_header_def)

abbreviation received_ack :: "MQTTClient \<Rightarrow> msgTypes \<Rightarrow> u16 \<Rightarrow> MQTTClient" where
  "received_ack c k i \<equiv> received c (header_byte (ack_header (of_nat (msg_code k)) 0)) (enc16 (unat i))"

lemma deserialize_received_ack:
  assumes "4 \<le> length (readbuf c)"
  shows "MQTTDeserialize_ack out (readbuf (received_ack c k i)) n =
    Some (1, out\<lparr>ao_dup := 0, ao_packettype := of_nat (msg_code k), ao_packetid := i\<rparr>)"
proof -
  have "readbuf (received_ack c k i) = ack_packet (of_nat (msg_code k)) 0 i @ drop 4 (readbuf c)"
    by (simp add: received_def ack_packet_def patch_def enc_len_small)
  moreover have "(of_nat (msg_code k) :: u8) < 16" by (cases k) simp_all
  ultimately show ?thesis by (intro deserialize_ack) simp_all
qed

lemma publish_wait_ack:
  assumes c: "usable c" "quiet 11 s c" and s: "avail s = ack_of k i @ rest" and k: "k = PUBACK \<or> k = PUBCOMP"
    and t: "running 1 s timer"
  obtains s' where "publish_wait P c s k timer rc = Some (rc, received_ack c k i, s')" "after 11 s rest [] s'"
proof -
  let ?h = "header_byte (ack_header (of_nat (msg_code k)) 0)" and ?body = "enc16 (unat i)"
  have size: "4 \<le> length (readbuf c)" using c by (simp add: usable_def client_ok_def)
  obtain s1 where s1: "waitfor P c s k timer = Some (int (msg_code k), received c ?h ?body, s1)" "after 11 s rest [] s1"
  proof (rule waitfor_answer [of s ?h ?body rest c k timer])
    show "avail s = ?h # enc_len (length ?body) @ ?body @ rest" using s by (simp add: ack_of_bytes)
    show "1 + length (enc_len (length ?body)) + length ?body \<le> length (readbuf c)" using size by (simp add: enc_len_small)
  qed (use c k t in \<open>auto simp: ack_header_type\<close>)
  then show ?thesis using deserialize_received_ack [OF size] by (intro that [of s1]) (simp_all add: publish_wait_def)
qed

text \<open>\<open>case PUBREC\<close>: the answer is a PUBREL packet with the same packet identifier.\<close>

lemma cycle_pubrec_all:
  assumes c: "usable c" and s: "avail s = ack_of PUBREC i @ rest" and t: "running 11 s timer"
  obtains c' s' where "cycle P c s timer = Some (int (msg_code PUBREC), c', s')" "after 14 s rest [Sent (ack_of PUBREL i)] s'"
    "usable c'" "quiet 30 s' c'"
proof -
  let ?h = "header_byte (ack_header (of_nat (msg_code PUBREC)) 0)" and ?body = "enc16 (unat i)" and ?pkt = "ack_of PUBREL i"
  have size: "4 \<le> length (readbuf c)" "4 \<le> length (cl_buf c)" "cbuf_size c = int (length (cl_buf c))"
    using c usable_size [OF c] by (simp_all add: usable_def client_ok_def)
  define c1 where "c1 = received_ack c PUBREC i"
  obtain s1 where s1: "readPacket P c s timer = Some (uint (h_type (header_bits ?h)), c1, s1)" "after 9 s rest [] s1"
    unfolding c1_def
  proof (rule readPacket_all)
    show "avail s = ?h # enc_len (length ?body) @ ?body @ rest" using s by (simp add: ack_of_bytes)
    show "1 + length (enc_len (length ?body)) + length ?body \<le> length (readbuf c)" using size by (simp add: enc_len_small)
  qed simp_all
  have len: "length ?pkt = 4" by (simp add: ack_of_def)
  have c1: "cl_buf c1 = cl_buf c" "cbuf_size c1 = cbuf_size c" by (simp_all add: c1_def received_def cbuf_size_def)
  define c2 where "c2 = c1\<lparr>cl_buf := patch (cl_buf c1) 0 ?pkt\<rparr>"
  have c2c: "c1\<lparr>cl_buf := patch (cl_buf c) 0 (ack_packet 6 0 i)\<rparr> = c2" by (simp add: c2_def c1 ack_of_def)
  have run: "running 2 s1 timer" by (rule running_after [OF t s1(2)]) simp
  obtain now s2 where s2: "sendPacket P c2 s1 (int (length ?pkt)) timer =
      Some (SUCCESS, c2\<lparr>ping_timer := TimerCountdown now (keepAliveInterval c2)\<rparr>, s2)"
    "after 4 s1 (avail s1) [Sent ?pkt] s2" "quiet 31 s2 (c2\<lparr>ping_timer := TimerCountdown now (keepAliveInterval c2)\<rparr>)"
    by (rule send_packet [OF _ run c2_def]) (use size c1 len in \<open>auto simp flip: length_greater_0_conv\<close>)
  let ?c3 = "c2\<lparr>ping_timer := TimerCountdown now (keepAliveInterval c2)\<rparr>"
  have ack: "MQTTDeserialize_ack out (readbuf c1) n =
      Some (1, out\<lparr>ao_dup := 0, ao_packettype := of_nat (msg_code PUBREC), ao_packetid := i\<rparr>)" for out n
    unfolding c1_def by (rule deserialize_received_ack [OF size(1)])
  have pubrec: "cycle_pubrec P c1 s1 timer = Some (SUCCESS, True, ?c3, s2)"
    using s2(1) len size(2) by (simp add: cycle_pubrec_def serialize_ack Let_def c1 size(3) c2c ack)
  obtain rc s3 where s3: "keepalive P ?c3 s2 = Some (rc, ?c3, s3)" "after 1 s2 (avail s2) [] s3"
    by (rule keepalive_quiet [OF quiet_after [OF s2(3) after_refl]]) simp
  have pt: "packet_type_of 5 = 5" by (simp add: packet_type_small)
  have "usable ?c3" using c size len by (simp add: usable_def client_ok_def c2_def c1_def received_def enc_len_small)
  moreover have "cycle P c s timer = Some (int (msg_code PUBREC), ?c3, s3)"
    using s1(1) pubrec s3(1) ack_header_type [of PUBREC] by (simp add: cycle_def pt SUCCESS_def FAILURE_def)
  moreover have "after 14 s rest [Sent ?pkt] s3" using s1 s2 s3 by (simp add: after_def)
  moreover have "quiet 30 s3 ?c3" by (rule quiet_after [OF s2(3) s3(2)]) simp
  ultimately show ?thesis by (intro that [of ?c3 s3])
qed

lemma waitfor_second:
  assumes "running 1 s timer" and "n \<noteq> int (msg_code k)"
    and "\<And>s1. after 1 s (avail s) [] s1 \<Longrightarrow> \<exists>c' s'. cycle P c s1 timer = Some (n, c', s') \<and> Q c' s' \<and> after m s1 av bs s'"
  obtains c' s' where "waitfor_loop P (int (msg_code k)) timer rc0 c s = waitfor_loop P (int (msg_code k)) timer n c' s'"
    "Q c' s'" "after (m + 1) s av bs s'"
proof -
  obtain now s1 where s1: "gettimeofday P s = (now, s1)" "after 1 s (avail s) [] s1" "\<not> TimerIsExpired now timer"
    using assms(1) by (rule tick_running)
  then obtain c' s' where s': "cycle P c s1 timer = Some (n, c', s')" "Q c' s'" "after m s1 av bs s'" using assms(3) by blast
  have "waitfor_loop P (int (msg_code k)) timer rc0 c s = waitfor_loop P (int (msg_code k)) timer n c' s'"
    using s1 s' assms(2) by (simp add: waitfor_loop.simps [of _ _ _ _ c s])
  moreover have "after (m + 1) s av bs s'" using s1(2) s'(3) by (simp add: after_def distrib_right)
  ultimately show ?thesis using s'(2) by (intro that)
qed

lemma publish_qos1:
  assumes "usable c" "isconnected c \<noteq> 0" "length t < 65536"
    and "m_payload m = Some payload" "m_payloadlen m = of_nat (length payload)" "length payload < 100000000"
    and "fits (length (publish_body (m_qos m) 0 t payload)) (int (length (cl_buf c)))"
    and "32 * pace < uint (command_timeout_ms c) * 1000" and "m_qos m = QOS1"
    and s: "avail s = ack_of PUBACK i @ rest"
  obtains c' s' where "MQTTPublish P c s t m = Some (SUCCESS, fst (numbered c m), c', s')"
    "after 16 s rest [Sent (message_packet t (fst (numbered c m)) payload)] s'"
proof -
  obtain c1 s1 timer where c1: "usable c1" "quiet 31 s1 c1" "running 27 s1 timer"
    "after 5 s (avail s) [Sent (message_packet t (fst (numbered c m)) payload)] s1"
    and pub: "MQTTPublish P c s t m = do { (rc, cc, ss) \<leftarrow> publish_wait P c1 s1 PUBACK timer SUCCESS;
       Some (rc, fst (numbered c m), cc, ss) }"
    by (rule publish_start [OF assms(1-8), of s]) (use assms(9) in \<open>auto simp: QOS1_def\<close>)
  have q: "quiet 11 s1 c1" by (rule quiet_after [OF c1(2) after_refl]) simp
  have run: "running 1 s1 timer" by (rule running_after [OF c1(3) after_refl]) simp
  obtain s2 where "publish_wait P c1 s1 PUBACK timer SUCCESS = Some (SUCCESS, received_ack c1 PUBACK i, s2)" "after 11 s1 rest [] s2"
    by (rule publish_wait_ack [OF c1(1) q after_avail [OF c1(4), unfolded s] _ run]) simp_all
  then show ?thesis using pub c1(4) by (intro that [of "received_ack c1 PUBACK i" s2]) (simp_all add: after_def)
qed

text \<open>Quality of service 2: the broker's PUBREC, which may have any packet identifier, is answered with
  a PUBREL of the same identifier while the client waits for PUBCOMP.\<close>

lemma publish_qos2:
  assumes "usable c" "isconnected c \<noteq> 0" "length t < 65536"
    and "m_payload m = Some payload" "m_payloadlen m = of_nat (length payload)" "length payload < 100000000"
    and "fits (length (publish_body (m_qos m) 0 t payload)) (int (length (cl_buf c)))"
    and "32 * pace < uint (command_timeout_ms c) * 1000" and "m_qos m = QOS2"
    and s: "avail s = ack_of PUBREC i @ ack_of PUBCOMP j @ rest"
  obtains c' s' where "MQTTPublish P c s t m = Some (SUCCESS, fst (numbered c m), c', s')"
    "after 31 s rest [Sent (message_packet t (fst (numbered c m)) payload), Sent (ack_of PUBREL i)] s'"
proof -
  obtain c1 s1 timer where c1: "usable c1" "quiet 31 s1 c1" "running 27 s1 timer"
    "after 5 s (avail s) [Sent (message_packet t (fst (numbered c m)) payload)] s1"
    and pub: "MQTTPublish P c s t m = do { (rc, cc, ss) \<leftarrow> publish_wait P c1 s1 PUBCOMP timer SUCCESS;
       Some (rc, fst (numbered c m), cc, ss) }"
    by (rule publish_start [OF assms(1-8), of s]) (use assms(9) in \<open>auto simp: QOS1_def QOS2_def\<close>)
  have run1: "running 1 s1 timer" by (rule running_after [OF c1(3) after_refl]) simp
  have "\<exists>c' s'. cycle P c1 s0 timer = Some (int (msg_code PUBREC), c', s') \<and> (usable c' \<and> quiet 30 s' c') \<and>
      after 14 s0 (ack_of PUBCOMP j @ rest) [Sent (ack_of PUBREL i)] s'" if a: "after 1 s1 (avail s1) [] s0" for s0
  proof -
    have "avail s0 = ack_of PUBREC i @ ack_of PUBCOMP j @ rest" using a s c1(4) by (simp add: after_def)
    moreover have "running 11 s0 timer" by (rule running_after [OF c1(3) a]) simp
    ultimately show ?thesis by (rule cycle_pubrec_all [OF c1(1)]) blast
  qed
  note cycled = this
  have other: "int (msg_code PUBREC) \<noteq> int (msg_code PUBCOMP)" by simp
  obtain c2 s2 where two: "waitfor_loop P (int (msg_code PUBCOMP)) timer FAILURE c1 s1 =
      waitfor_loop P (int (msg_code PUBCOMP)) timer (int (msg_code PUBREC)) c2 s2"
    "usable c2 \<and> quiet 30 s2 c2" "after (14 + 1) s1 (ack_of PUBCOMP j @ rest) [Sent (ack_of PUBREL i)] s2"
    by (rule waitfor_second [where Q = "\<lambda>c' s'. usable c' \<and> quiet 30 s' c'", OF run1 other cycled])
  have run2: "running 1 s2 timer" by (rule running_after [OF c1(3) two(3)]) simp
  have q: "quiet 11 s2 c2" by (rule quiet_after [OF conjunct2 [OF two(2)] after_refl]) simp
  let ?h = "header_byte (ack_header (of_nat (msg_code PUBCOMP)) 0)" and ?body = "enc16 (unat j)"
  have size: "4 \<le> length (readbuf c2)" using two(2) by (simp add: usable_def client_ok_def)
  obtain s3 where s3: "waitfor_loop P (int (msg_code PUBCOMP)) timer (int (msg_code PUBREC)) c2 s2 =
      Some (int (msg_code PUBCOMP), received_ack c2 PUBCOMP j, s3)" "after 11 s2 rest [] s3"
  proof (rule waitfor_loop_answer [of s2 ?h ?body rest c2 PUBCOMP timer])
    show "avail s2 = ?h # enc_len (length ?body) @ ?body @ rest"
      using two(3) ack_of_bytes [of PUBCOMP j] by (simp add: after_def)
    show "1 + length (enc_len (length ?body)) + length ?body \<le> length (readbuf c2)" using size by (simp add: enc_len_small)
    show "uint (h_type (header_bits ?h)) = int (msg_code PUBCOMP)" by (simp only: header_bits_byte ack_header_type)
  qed (use q run2 in simp_all)
  have "publish_wait P c1 s1 PUBCOMP timer SUCCESS = Some (SUCCESS, received_ack c2 PUBCOMP j, s3)"
    using two(1) s3(1) deserialize_received_ack [OF size, of _ PUBCOMP j] by (simp add: publish_wait_def waitfor_def)
  then show ?thesis
    using pub c1(4) two(3) s3(2) by (intro that [of "received_ack c2 PUBCOMP j" s3]) (simp_all add: after_def)
qed

section \<open>Messages from the broker\<close>

definition call_all :: "nat list \<Rightarrow> MQTTString \<Rightarrow> MQTTMessage \<Rightarrow> 's \<Rightarrow> 's" where
  "call_all fps tn m = fold (\<lambda>fp. call_handler P fp tn m) fps"

lemma after_handler: "after n s a es s' \<Longrightarrow> after (n + 1) s a (es @ [Called fp tn m]) (call_handler P fp tn m s')"
  using handler [where fp = fp and tn = tn and m = m and s = s'] by (simp add: after_def distrib_right)

lemma after_call_all:
  "after n s a es s' \<Longrightarrow> after (n + int (length fps)) s a (es @ map (\<lambda>fp. Called fp tn m) fps) (call_all fps tn m s')"
proof (induction fps arbitrary: n es s')
  case Nil
  then show ?case by (simp add: call_all_def)
next
  case (Cons fp fps)
  from Cons.IH [OF after_handler [OF Cons.prems, of fp tn m]] show ?case by (simp add: call_all_def add.assoc)
qed

lemma recipients_few: "usable c \<Longrightarrow> length (recipients c t) \<le> 5"
proof -
  have "length (takers t hs) \<le> length hs" for hs by (induction hs) (simp_all split: option.split)
  from this [of "messageHandlers c"] show "usable c \<Longrightarrow> ?thesis"
    by (auto simp: usable_def client_ok_def MAX_MESSAGE_HANDLERS_def recipients_def split: option.split)
qed

lemma cycle_publish_qos1:
  assumes c: "usable c" and hs: "filters_ok (messageHandlers c)"
    and s: "avail s = publish_packet dup 1 retained i topic payload @ rest" and flags: "dup \<le> 1" "retained \<le> 1"
    and room: "length (publish_packet dup 1 retained i topic payload) \<le> length (readbuf c)"
    and n: "length (publish_body 1 i topic payload) < 268435456" "length topic < 65536"
    and t: "running 32 s timer"
  obtains c' s' tn tail old where "cycle P c s timer = Some (int (msg_code PUBLISH), c', s')" "topic_in tn topic"
    "after 19 s rest (map (\<lambda>fp. Called fp tn (delivered dup 1 retained i payload tail old)) (recipients c topic) @
       [Sent (ack_of PUBACK i)]) s'"
proof -
  let ?pkt = "publish_packet dup 1 retained i topic payload" and ?body = "publish_body 1 i topic payload"
  let ?h = "header_byte (publish_header dup 1 retained)" and ?ack = "ack_of PUBACK i"
  have pkt: "?pkt = ?h # enc_len (length ?body) @ ?body" by (simp add: publish_packet_def Let_def)
  have size: "4 \<le> length (cl_buf c)" "cbuf_size c = int (length (cl_buf c))"
    using c usable_size [OF c] by (simp_all add: usable_def client_ok_def)
  define c1 where "c1 = received c ?h ?body"
  obtain s1 where s1: "readPacket P c s timer = Some (uint (h_type (header_bits ?h)), c1, s1)" "after 9 s rest [] s1"
    unfolding c1_def by (rule readPacket_all [of s ?h ?body rest c timer]) (use s pkt n room in simp_all)
  define tail where "tail = drop (length ?pkt) (readbuf c)"
  have rb: "readbuf c1 = ?pkt @ tail" using room by (simp add: c1_def received_def patch_def pkt tail_def)
  let ?out = "publish_result (junk_publish P s1) dup 1 retained i topic payload tail"
  have des: "MQTTDeserialize_publish (junk_publish P s1) (readbuf c1) bl = Some (1, ?out)" for bl
    by (rule deserialize_publish [OF rb n]) (use flags in simp_all)
  let ?tn = "po_topicName ?out" and ?msg = "delivered dup 1 retained i payload tail (junk_payloadlen P s1)"
  have tn: "topic_in ?tn topic" using n by (simp add: topic_in_def publish_result_def read_str_def int_max_def)
  have c1: "messageHandlers c1 = messageHandlers c" "defaultMessageHandler c1 = defaultMessageHandler c"
    "cl_buf c1 = cl_buf c" "cbuf_size c1 = cbuf_size c" by (simp_all add: c1_def received_def cbuf_size_def)
  have dl: "deliverMessage P c1 s1 ?tn ?msg = Some (if recipients c topic = [] then FAILURE else SUCCESS,
      call_all (recipients c topic) ?tn ?msg s1)"
  proof -
    have "filters_ok (messageHandlers c1)" using hs c1(1) by simp
    moreover have "recipients c1 topic = recipients c topic" unfolding recipients_def c1 by (rule refl)
    ultimately show ?thesis using deliverMessage_recipients [OF tn, of c1 P s1 ?msg] by (simp add: call_all_def)
  qed
  define s2 where "s2 = call_all (recipients c topic) ?tn ?msg s1"
  have "after (9 + int (length (recipients c topic))) s rest (map (\<lambda>fp. Called fp ?tn ?msg) (recipients c topic)) s2"
    unfolding s2_def using after_call_all [OF s1(2), of "recipients c topic" ?tn ?msg] by simp
  then have s2: "after 14 s rest (map (\<lambda>fp. Called fp ?tn ?msg) (recipients c topic)) s2"
    by (rule after_weaken) (use recipients_few [OF c, of topic] in simp)
  have len: "length ?ack = 4" by (simp add: ack_of_def)
  define c2 where "c2 = c1\<lparr>cl_buf := patch (cl_buf c1) 0 ?ack\<rparr>"
  have c2c: "c1\<lparr>cl_buf := patch (cl_buf c) 0 (ack_packet 4 0 i)\<rparr> = c2" by (simp add: c2_def c1 ack_of_def)
  have run: "running 2 s2 timer" by (rule running_after [OF t s2]) simp
  obtain now s3 where s3: "sendPacket P c2 s2 (int (length ?ack)) timer =
      Some (SUCCESS, c2\<lparr>ping_timer := TimerCountdown now (keepAliveInterval c2)\<rparr>, s3)"
    "after 4 s2 (avail s2) [Sent ?ack] s3" "quiet 31 s3 (c2\<lparr>ping_timer := TimerCountdown now (keepAliveInterval c2)\<rparr>)"
    by (rule send_packet [OF _ run c2_def]) (use size c1 len in \<open>auto simp flip: length_greater_0_conv\<close>)
  let ?c3 = "c2\<lparr>ping_timer := TimerCountdown now (keepAliveInterval c2)\<rparr>"
  have msg: "\<lparr>m_qos = po_qos ?out, m_retained = po_retained ?out, m_dup = po_dup ?out, m_id = po_packetid ?out,
      m_payload = po_payload ?out, m_payloadlen = low_half (junk_payloadlen P s1) (po_payloadlen ?out)\<rparr> = ?msg"
    by (simp add: delivered_def publish_result_def)
  have sel: "m_qos ?msg = 1" "m_id ?msg = i" "po_qos ?out = 1" "po_packetid ?out = i"
    by (simp_all add: delivered_def publish_result_def)
  have pub: "cycle_publish P c1 s1 timer = Some (SUCCESS, True, ?c3, s3)"
    using s3(1) len size(1)
    by (simp only: cycle_publish_def des Let_def bind.bind_lunit prod.case msg)
      (simp add: dl serialize_ack c1 size(2) c2c sel QOS0_def QOS1_def SUCCESS_def FAILURE_def flip: s2_def)
  obtain rc s4 where s4: "keepalive P ?c3 s3 = Some (rc, ?c3, s4)" "after 1 s3 (avail s3) [] s4"
    by (rule keepalive_quiet [OF quiet_after [OF s3(3) after_refl]]) simp
  have pt: "packet_type_of 3 = 3" by (simp add: packet_type_small)
  have ty: "uint (h_type (publish_header dup 1 retained)) = 3" by (simp add: publish_header_def type_code_def)
  have "cycle P c s timer = Some (int (msg_code PUBLISH), ?c3, s4)"
    using s1(1) pub s4(1) by (simp add: cycle_def pt ty SUCCESS_def FAILURE_def)
  moreover have "after 19 s rest (map (\<lambda>fp. Called fp ?tn ?msg) (recipients c topic) @ [Sent ?ack]) s4"
    using s2 s3(2) s4(2) by (simp add: after_def)
  ultimately show ?thesis using tn by (intro that)
qed

end

section \<open>The platform of the Linux client\<close>

text \<open>\<open>linux_read\<close> and \<open>linux_write\<close> over the segments that have arrived, with a record of what happens and
  a clock of microseconds that every call moves on by a millisecond.\<close>

record client_world = segments +
  happened :: "event list"
  ticks :: int

definition later :: "client_world \<Rightarrow> client_world" where
  "later s = s\<lparr>ticks := ticks s + 1000\<rparr>"

definition world_time :: "client_world \<Rightarrow> timeval" where
  "world_time s = \<lparr>tv_sec = ticks s div 1000000, tv_usec = ticks s mod 1000000\<rparr>"

definition client_sockets :: "client_world sockets" where
  "client_sockets = joined_sockets\<lparr>
     os_recv := \<lambda>s sock n. (case os_recv joined_sockets s sock n of (rc, bs, s) \<Rightarrow> (rc, bs, later s)),
     os_write := \<lambda>s sock bs. (int (length bs), later (s\<lparr>happened := happened s @ [Sent bs]\<rparr>))\<rparr>"

definition joined_platform ::
    "(client_world \<Rightarrow> publish_out) \<Rightarrow> (client_world \<Rightarrow> 64 word) \<Rightarrow> (client_world \<Rightarrow> ack_out) \<Rightarrow> client_world platform" where
  "joined_platform = linux_platform client_sockets 3 (\<lambda>s. (world_time s, later s))
     (\<lambda>fp tn m s. later (s\<lparr>happened := happened s @ [Called fp tn m]\<rparr>))"

lemma later_simps [simp]:
  "seg_in (later s) = seg_in s" "happened (later s) = happened s" "ticks (later s) = ticks s + 1000"
  by (simp_all add: later_def)

lemma world_time_ok [simp]: "tv_ok (world_time s)" "micros (world_time s) = ticks s"
  by (simp_all add: tv_ok_def world_time_def micros_def)

lemma client_read_all:
  assumes "n \<le> length (concat (seg_in s))"
  shows "\<exists>s'. linux_read client_sockets sock s (int n) t = Some (int n, take n (concat (seg_in s)), s') \<and>
    concat (seg_in s') = drop n (concat (seg_in s)) \<and> happened s' = happened s \<and>
    ticks s \<le> ticks s' \<and> ticks s' \<le> ticks s + 1000"
proof (cases "n = 0")
  case True
  then show ?thesis
    by (simp add: linux_read_def linux_read_loop.simps [of _ _ 0] client_sockets_def joined_sockets_def segment_sockets_def)
next
  case False
  have "n \<le> length c \<Longrightarrow> \<exists>xs. seg_recv [c] n = (int n, take n c, xs) \<and> concat xs = drop n c" for c by auto
  from this [OF assms] obtain xs where "seg_recv [concat (seg_in s)] n = (int n, take n (concat (seg_in s)), xs)"
    "concat xs = drop n (concat (seg_in s))" by blast
  with False show ?thesis
    by (simp add: linux_read_def Let_def linux_read_loop.simps [of _ _ _ 0] linux_read_loop.simps [of _ _ "int n" "int n"]
        client_sockets_def joined_sockets_def segment_sockets_def del: seg_recv.simps)
qed

interpretation joined_client: flowing_platform "joined_platform jp jl ja" "\<lambda>s. concat (seg_in s)" happened ticks 1000
proof (unfold_locales, goal_cases)
  case (3 s)
  show ?case by (simp add: joined_platform_def linux_platform_def)
next
  case (4 n s t)
  then show ?case using client_read_all by (simp add: joined_platform_def linux_platform_def)
next
  case (5 t s bs)
  then show ?case
    by (simp add: joined_platform_def linux_platform_def linux_write_def client_sockets_def joined_sockets_def segment_sockets_def
        int_min_def int_max_def)
qed (simp_all add: joined_platform_def linux_platform_def)

end
