(* ===== verification/ClientProperties.thy ===== *)
theory ClientProperties
  imports ClientExchange PacketProperties
begin

text \<open>
  The properties of the MQTT client: the invariant of its sessions, its exchanges with a broker,
  the delivery of messages, and what becomes of errors of the network and of the broker.
\<close>

section \<open>Samples\<close>

text \<open>A client with small buffers and one subscription, and what its uninitialised variables hold.\<close>

definition sample_client :: MQTTClient where
  "sample_client = \<lparr>next_packetid = 65535, command_timeout_ms = 1000, buf_size = 64, readbuf_size = 64,
     cl_buf = replicate 64 0, readbuf = replicate 64 0, keepAliveInterval = 0, ping_outstanding = 0,
     isconnected = 1,
     messageHandlers = \<lparr>mh_topicFilter = Some (ascii ''a/+''), mh_fp = Some 7\<rparr> #
       replicate 4 \<lparr>mh_topicFilter = None, mh_fp = None\<rparr>,
     defaultMessageHandler = None, ping_timer = TimerInit\<rparr>"

definition sample_platform :: "client_world platform" where
  "sample_platform = joined_platform
     (\<lambda>s. \<lparr>po_dup = 0, po_qos = 0, po_retained = 0, po_packetid = 0, po_topicName = MQTTString_initializer,
          po_payload = None, po_payloadlen = 0\<rparr>)
     (\<lambda>s. 0) (\<lambda>s. \<lparr>ao_packettype = 0, ao_dup = 0, ao_packetid = 0\<rparr>)"

definition segments_avail :: "client_world \<Rightarrow> bytes" where
  "segments_avail s = concat (seg_in s)"

lemma sample_flowing: "flowing_platform sample_platform segments_avail happened ticks 1000"
  unfolding sample_platform_def segments_avail_def by (rule joined_client.flowing_platform_axioms)

text \<open>The network has delivered \<open>xs\<close>.\<close>

definition arrived :: "bytes list \<Rightarrow> client_world" where
  "arrived xs = \<lparr>seg_in = xs, seg_out = [], happened = [], ticks = 1500000000000000\<rparr>"

lemma arrived_simps [simp]: "segments_avail (arrived xs) = concat xs" "happened (arrived xs) = []" "ticks (arrived xs) = 1500000000000000"
  by (simp_all add: arrived_def segments_avail_def)

definition sample_timer :: timeval where
  "sample_timer = TimerCountdownMS (world_time (arrived [])) 1000"

lemma sample_timer: "tv_ok sample_timer" "micros sample_timer = 1500000001000000"
  using countdownMS_micros [of "world_time (arrived [])" 1000] by (simp_all add: sample_timer_def)

lemma sample_timeout: "uint (command_timeout_ms sample_client) = 1000"
  by (simp add: sample_client_def)

lemma sample_usable: "usable sample_client" "usable (sample_client\<lparr>isconnected := 0\<rparr>)"
  by (simp_all add: usable_def client_ok_def sample_client_def MAX_PACKET_ID_def MAX_MESSAGE_HANDLERS_def
      int_max_def)

section \<open>Sessions\<close>

text \<open>C18: After \<open>MQTTClientInit\<close> and any sequence of calls to the client's operations, on any platform
  and for all answers of the network, the next packet identifier is between 1 and 65535, the table has
  its five handlers, the buffers have kept their sizes and the connection flag is 0 or 1. Only calls
  that return, and that have not accessed memory outside a buffer, are covered: a packet that is longer
  than the read buffer makes \<open>readPacket\<close> write behind it, and nothing is said of what follows.\<close>

theorem session_invariant:
  assumes "reachable P c"
  shows "1 \<le> next_packetid c \<and> next_packetid c \<le> 65535 \<and> length (messageHandlers c) = 5 \<and>
    length (cl_buf c) = buf_size c \<and> length (readbuf c) = readbuf_size c \<and> isconnected c \<in> {0, 1}"
  using reachable_ok [OF assms] by (simp add: client_ok_def MAX_PACKET_ID_def MAX_MESSAGE_HANDLERS_def)

theorem session_invariant_witness:
  "let c = MQTTClientInit sample_client 1000 [0, 0] 2 [0, 0, 0] 3
   in 1 \<le> next_packetid c \<and> next_packetid c \<le> 65535 \<and> length (messageHandlers c) = 5 \<and>
    length (cl_buf c) = buf_size c \<and> length (readbuf c) = readbuf_size c \<and> isconnected c \<in> {0, 1}"
proof -
  have "reachable sample_platform (MQTTClientInit sample_client 1000 [0, 0] (length [0::u8, 0]) [0, 0, 0] (length [0::u8, 0, 0]))"
    by (rule reach_init) (simp add: sample_client_def MAX_MESSAGE_HANDLERS_def)
  from session_invariant [OF this] show ?thesis by (simp add: Let_def numeral_2_eq_2 numeral_3_eq_3)
qed

text \<open>Packet identifiers are handed out in order and wrap from 65535 to 1, so that 0 is never one.\<close>

theorem packet_ids:
  assumes "client_ok c"
  shows "fst (getNextPacketId c) = (if next_packetid c = 65535 then 1 else uint (next_packetid c) + 1) \<and>
    1 \<le> fst (getNextPacketId c) \<and> fst (getNextPacketId c) \<le> 65535 \<and> client_ok (snd (getNextPacketId c))"
proof -
  let ?n = "next_packetid c"
  have n: "?n \<le> 65535" using assms by (simp add: client_ok_def MAX_PACKET_ID_def)
  then have u: "uint ?n \<le> 65535" by (simp add: word_le_def)
  have "uint (?n + 1) = uint ?n + 1" using u by (simp add: uint_plus_if')
  moreover have "sint w = uint w" if "uint w \<le> 65536" for w :: u32
    using that unfolding sint_uint
    by (subst signed_take_bit_int_eq_self) (auto intro: order_trans [OF _ uint_ge_0])
  ultimately have "sint (?n + 1) = uint ?n + 1" using u by simp
  then show ?thesis
    using next_id_range [OF assms] client_ok_next [OF assms] by (simp add: getNextPacketId_def Let_def MAX_PACKET_ID_def)
qed

theorem packet_ids_witness:
  "fst (getNextPacketId sample_client) = 1 \<and> client_ok (snd (getNextPacketId sample_client))"
  using packet_ids [of sample_client] sample_usable by (simp add: usable_def sample_client_def)

section \<open>Exchanges\<close>

text \<open>
  The exchanges are those of a \<open>flowing_platform\<close>: the answers of the broker have arrived and can be read at
  once, a write is taken whole, and the clock moves on by at most \<open>pace\<close> microseconds with each call to the
  platform, of which 32 last less than a second (so that no ping comes between, an interval being at least a
  second) and less than the command timeout. On a slower platform an operation may give up or send a PINGREQ packet as
  well, and after a partial write \<open>sendPacket\<close> passes the wrong length. A \<open>usable\<close> client satisfies the invariant
  of C18, has buffers of at least four (sending) and five (reading) bytes whose sizes fit an \<open>int\<close>, and a command timeout of 1 to
  2147483 milliseconds, beyond which \<open>mqttwrite\<close> overflows.
\<close>

text \<open>C31: On a platform that has the broker's CONNACK packet ready, takes every write whole and needs
  less than a second and less than the command timeout for 32 calls (\<open>flowing_platform\<close>), \<open>MQTTConnect\<close> of a \<open>usable\<close> client that is
  not connected, with options whose packet fits the buffer by
  the estimate of \<open>MQTTPacket_len\<close>, sends exactly their CONNECT packet and returns the code of the CONNACK packet; the client counts as
  connected afterwards if and only if that is 0.\<close>

theorem connect_answered:
  assumes "flowing_platform P avail trace clock pace" and "usable c" and "isconnected c = 0"
    and "connect_ok d" and "fits (length (connect_body d)) (int (length (cl_buf c)))"
    and "avail s = connack_answer flags code @ rest" and "32 * pace < uint (command_timeout_ms c) * 1000"
  shows "\<exists>c' s'. MQTTConnect P c s (Some d) = Some (uint code, c', s') \<and>
    isconnected c' = (if code = 0 then 1 else 0) \<and>
    avail s' = rest \<and> trace s' = trace s @ [Sent (connect_packet d)]"
  using flowing_platform.connect_exchange [OF assms] unfolding flowing_platform.after_def [OF assms(1)] by metis

theorem connect_answered_witness:
  "\<exists>c' s'. MQTTConnect sample_platform (sample_client\<lparr>isconnected := 0\<rparr>)
      (arrived [connack_answer 0 5]) (Some sample_session) = Some (5, c', s') \<and>
    isconnected c' = 0 \<and> segments_avail s' = [] \<and> happened s' = [Sent (connect_packet sample_session)]"
  using connect_answered [OF sample_flowing sample_usable(2) _ sample_session_ok(1),
      of "arrived [connack_answer 0 5]" 0 5 "[]"] sample_session_fits
  by (simp add: sample_client_def)

text \<open>C30: On a platform that has a SUBACK packet ready, takes every write whole and needs less than a second and
  less than the command timeout for 32 calls (\<open>flowing_platform\<close>), \<open>MQTTSubscribe\<close> of a \<open>usable\<close> connected client whose buffer has room for the
  packet by the estimate of \<open>MQTTPacket_len\<close>, sends one SUBSCRIBE packet with the next packet identifier and takes any SUBACK packet as its answer. It installs the handler and returns 0 for every granted quality of
  service \<open>q\<close>, also when the broker refused with 0x80, because the code is read as a signed
  character; with a full table it returns \<open>q\<close> and installs nothing.\<close>

theorem subscribe_answered:
  assumes "flowing_platform P avail trace clock pace" and "usable c" and "isconnected c \<noteq> 0" and "length f < 65536"
    and "fits (length (subscribe_body (word_of_int (fst (getNextPacketId c))) [(f, word_of_int qos)])) (int (length (cl_buf c)))"
    and "avail s = suback_packet aid [q] @ rest" and "32 * pace < uint (command_timeout_ms c) * 1000"
  shows "\<exists>c' s'. MQTTSubscribe P c s f qos fp =
      Some (case set_handler f fp (messageHandlers c) of None \<Rightarrow> sint q | Some hs \<Rightarrow> 0, c', s') \<and>
    messageHandlers c' = (case set_handler f fp (messageHandlers c) of None \<Rightarrow> messageHandlers c | Some hs \<Rightarrow> hs) \<and>
    avail s' = rest \<and>
    trace s' = trace s @ [Sent (subscribe_packet 0 (word_of_int (fst (getNextPacketId c))) [(f, word_of_int qos)])]"
proof (rule flowing_platform.subscribe_exchange [OF assms, of fp])
  fix rc c' s'
  assume "MQTTSubscribe P c s f qos fp = Some (rc, c', s')"
    "flowing_platform.after avail trace clock pace 16 s rest
       [Sent (subscribe_packet 0 (word_of_int (fst (getNextPacketId c))) [(f, word_of_int qos)])] s'"
    "messageHandlers c' = subscribed c f fp" "rc = (if set_handler f fp (messageHandlers c) = None then sint q else 0)"
  then show ?thesis
    unfolding flowing_platform.after_def [OF assms(1)] by (auto simp: subscribed_def split: option.splits)
qed

theorem subscribe_answered_witness:
  "\<exists>c' s'. MQTTSubscribe sample_platform sample_client
      (arrived [suback_packet 9 [0x80]]) (ascii ''b'') 1 (Some 3) = Some (0, c', s') \<and>
    \<lparr>mh_topicFilter = Some (ascii ''b''), mh_fp = Some 3\<rparr> \<in> set (messageHandlers c') \<and>
    happened s' = [Sent (subscribe_packet 0 1 [(ascii ''b'', 1)])]"
proof -
  have facts: "fst (getNextPacketId sample_client) = 1" "isconnected sample_client \<noteq> 0" "length (cl_buf sample_client) = 64"
    by (simp_all add: getNextPacketId_def sample_client_def MAX_PACKET_ID_def)
  have table: "set_handler (ascii ''b'') (Some 3) (messageHandlers sample_client) =
      Some (\<lparr>mh_topicFilter = Some (ascii ''a/+''), mh_fp = Some 7\<rparr> #
        \<lparr>mh_topicFilter = Some (ascii ''b''), mh_fp = Some 3\<rparr> # replicate 3 \<lparr>mh_topicFilter = None, mh_fp = None\<rparr>)"
    by code_simp
  have "fits (length (subscribe_body 1 [(ascii ''b'', 1)])) 64"
    by (simp add: subscribe_body_def fits_def MQTTPacket_len_def c_add_def c_int_def int_min_def int_max_def)
  then show ?thesis
    using subscribe_answered [OF sample_flowing sample_usable(1), of "ascii ''b''" 1
        "arrived [suback_packet 9 [0x80]]" 9 "0x80" "[]" "Some 3"]
    by (simp add: facts table sample_timeout) (metis list.set_intros)
qed

text \<open>C21: On a platform that has the broker's PUBREC and PUBCOMP packets ready, takes every write whole and needs less
  than a second and less than the command timeout for 32 calls (\<open>flowing_platform\<close>), \<open>MQTTPublish\<close> of a \<open>usable\<close> connected client, with quality of
  service 2 and a message that fits the buffer by the estimate of \<open>MQTTPacket_len\<close>, sends the message with the next packet identifier,
  answers the broker's PUBREC with a PUBREL packet of the same identifier while it waits, and
  returns success at the PUBCOMP packet. It does not compare the identifiers of the answers with
  the one it sent.\<close>

theorem publish_qos2_exchange:
  assumes "flowing_platform P avail trace clock pace" and "usable c" and "isconnected c \<noteq> 0" and "length t < 65536"
    and "m_payload m = Some payload" and "m_payloadlen m = of_nat (length payload)" and "length payload < 100000000"
    and "fits (length (publish_body (m_qos m) 0 t payload)) (int (length (cl_buf c)))"
    and "32 * pace < uint (command_timeout_ms c) * 1000" and "m_qos m = QOS2"
    and "avail s = ack_of PUBREC i @ ack_of PUBCOMP j @ rest"
  shows "\<exists>c' s'. MQTTPublish P c s t m = Some (SUCCESS, fst (numbered c m), c', s') \<and> avail s' = rest \<and>
    trace s' = trace s @ [Sent (message_packet t (fst (numbered c m)) payload), Sent (ack_of PUBREL i)]"
  using flowing_platform.publish_qos2 [OF assms] unfolding flowing_platform.after_def [OF assms(1)] by metis

definition sample_message :: "int \<Rightarrow> MQTTMessage" where
  "sample_message qos = \<lparr>m_qos = qos, m_retained = 0, m_dup = 0, m_id = 0, m_payload = Some [65, 66], m_payloadlen = 2\<rparr>"

lemma sample_publish:
  "m_payload (sample_message q) = Some [65, 66]" "m_payloadlen (sample_message q) = of_nat (length [65 :: u8, 66])"
  "m_qos (sample_message q) = q" "isconnected sample_client \<noteq> 0"
  "fits (length (publish_body q 0 (ascii ''t'') [65, 66])) (int (length (cl_buf sample_client)))"
  by (simp_all add: sample_message_def sample_client_def length_publish_body fits_def MQTTPacket_len_def c_add_def c_int_def
      int_min_def int_max_def)

theorem publish_qos2_exchange_witness:
  "\<exists>c' s'. MQTTPublish sample_platform sample_client
      (arrived [ack_of PUBREC 77, ack_of PUBCOMP 5]) (ascii ''t'') (sample_message 2) =
      Some (SUCCESS, (sample_message 2)\<lparr>m_id := 1\<rparr>, c', s') \<and> segments_avail s' = [] \<and>
    happened s' = [Sent (publish_packet 0 2 0 1 (ascii ''t'') [65, 66]), Sent (ack_of PUBREL 77)]"
proof -
  have "fst (numbered sample_client (sample_message 2)) = (sample_message 2)\<lparr>m_id := 1\<rparr>"
    by (simp add: numbered_def QOS2_def sample_publish getNextPacketId_def sample_client_def MAX_PACKET_ID_def)
  then show ?thesis
    using publish_qos2_exchange [OF sample_flowing sample_usable(1) sample_publish(4) _ sample_publish(1,2),
        of "ascii ''t''" 2 "arrived [ack_of PUBREC 77, ack_of PUBCOMP 5]" 77 5 "[]"]
      sample_publish(5) [of 2]
    by (simp add: sample_timeout sample_publish(3) QOS2_def message_packet_def) (simp add: sample_message_def)
qed

text \<open>C32: On a platform that has the broker's PUBACK packet ready, takes every write whole and needs less
  than a second and less than the command timeout for 32 calls (\<open>flowing_platform\<close>), \<open>MQTTPublish\<close> of a \<open>usable\<close> connected client, with quality of
  service 1 and a message that fits the buffer by the estimate of \<open>MQTTPacket_len\<close>, sends the message with the next packet identifier and returns
  success at the first PUBACK packet, whatever packet identifier that acknowledges.\<close>

theorem publish_qos1_exchange:
  assumes "flowing_platform P avail trace clock pace" and "usable c" and "isconnected c \<noteq> 0" and "length t < 65536"
    and "m_payload m = Some payload" and "m_payloadlen m = of_nat (length payload)" and "length payload < 100000000"
    and "fits (length (publish_body (m_qos m) 0 t payload)) (int (length (cl_buf c)))"
    and "32 * pace < uint (command_timeout_ms c) * 1000" and "m_qos m = QOS1"
    and "avail s = ack_of PUBACK i @ rest"
  shows "\<exists>c' s'. MQTTPublish P c s t m = Some (SUCCESS, fst (numbered c m), c', s') \<and> avail s' = rest \<and>
    trace s' = trace s @ [Sent (message_packet t (fst (numbered c m)) payload)]"
  using flowing_platform.publish_qos1 [OF assms] unfolding flowing_platform.after_def [OF assms(1)] by metis

theorem publish_qos1_exchange_witness:
  "\<exists>c' s'. MQTTPublish sample_platform sample_client
      (arrived [ack_of PUBACK 77]) (ascii ''t'') (sample_message 1) =
      Some (SUCCESS, (sample_message 1)\<lparr>m_id := 1\<rparr>, c', s') \<and> segments_avail s' = [] \<and>
    happened s' = [Sent (publish_packet 0 1 0 1 (ascii ''t'') [65, 66])]"
proof -
  have "fst (numbered sample_client (sample_message 1)) = (sample_message 1)\<lparr>m_id := 1\<rparr>"
    by (simp add: numbered_def QOS1_def sample_publish getNextPacketId_def sample_client_def MAX_PACKET_ID_def)
  then show ?thesis
    using publish_qos1_exchange [OF sample_flowing sample_usable(1) sample_publish(4) _ sample_publish(1,2),
        of "ascii ''t''" 1 "arrived [ack_of PUBACK 77]" 77 "[]"]
      sample_publish(5) [of 1]
    by (simp add: sample_timeout sample_publish(3) QOS1_def message_packet_def) (simp add: sample_message_def)
qed

text \<open>C29: On a platform that takes every write whole and needs less than a second for 32 calls
  (\<open>flowing_platform\<close>), a PUBLISH packet of quality of service 1 that is ready for \<open>cycle\<close> of a \<open>usable\<close> client, fits the read buffer (the code
  does not check that) and finds a timer with that much time left is delivered to the handlers
  whose filter takes its topic, or to the default handler, before the PUBACK packet with its
  packet identifier is sent; \<open>cycle\<close> returns its type. Of the message's 64-bit length only the low
  half is set. The handlers do not use the network, and the filters are C strings.\<close>

theorem inbound_publish:
  assumes "flowing_platform P avail trace clock pace" and "usable c" and "filters_ok (messageHandlers c)"
    and "avail s = publish_packet dup 1 retained i topic payload @ rest" and "dup \<le> 1" and "retained \<le> 1"
    and "length (publish_packet dup 1 retained i topic payload) \<le> length (readbuf c)"
    and "length (publish_body 1 i topic payload) < 268435456" and "length topic < 65536"
    and "tv_ok timer" and "clock s + 32 * pace < micros timer" and "micros timer < clock s + 2147484000"
  shows "\<exists>c' s' tn tail old. cycle P c s timer = Some (int (msg_code PUBLISH), c', s') \<and> avail s' = rest \<and> topic_in tn topic \<and>
    trace s' = trace s @ map (\<lambda>fp. Called fp tn (delivered dup 1 retained i payload tail old)) (recipients c topic) @
      [Sent (ack_of PUBACK i)]"
proof -
  have "flowing_platform.running clock pace 32 s timer"
    unfolding flowing_platform.running_def [OF assms(1)] using assms(10-12) by simp
  from flowing_platform.cycle_publish_qos1 [OF assms(1-9) this] show ?thesis
    unfolding flowing_platform.after_def [OF assms(1)] by metis
qed

theorem inbound_publish_witness:
  "\<exists>c' s' tn tail old. cycle sample_platform sample_client
      (arrived [publish_packet 0 1 0 9 (ascii ''a/b'') [65, 66]])
      sample_timer = Some (3, c', s') \<and> topic_in tn (ascii ''a/b'') \<and>
    happened s' = [Called 7 tn (delivered 0 1 0 9 [65, 66] tail old), Sent (ack_of PUBACK 9)]"
proof -
  have "filters_ok (messageHandlers sample_client)" "recipients sample_client (ascii ''a/b'') = [7]"
    by code_simp+
  then show ?thesis
    using inbound_publish [OF sample_flowing sample_usable(1), of
        "arrived [publish_packet 0 1 0 9 (ascii ''a/b'') [65, 66]]" 0 0 9
        "ascii ''a/b''" "[65, 66]" "[]" sample_timer]
    by (simp add: sample_timer sample_client_def publish_packet_def length_publish_body Let_def enc_len_small) blast
qed

end
