(* ===== verification/ArrayList.thy ===== *)
theory ArrayList
  imports CPrelude
begin

text \<open>
  The growing array of json-c, \<open>arraylist.c\<close>. A cell holds \<open>None\<close> for NULL or an element; \<open>size_t\<close> is a
  64-bit word. The calls of \<open>free_fn\<close> are kept in the order in which they happen, and \<open>grant n\<close> says
  whether the allocator grants a request of \<open>n\<close> bytes.
\<close>

type_synonym u64 = "64 word"
type_synonym allocator = "nat \<Rightarrow> bool"

section \<open>Definitions\<close>

record 'a array_list =
  al_array :: "'a option list"
  al_length :: u64
  al_size :: u64
  al_freed :: "'a list"

definition ARRAY_LIST_DEFAULT_SIZE :: u64 where "ARRAY_LIST_DEFAULT_SIZE = 32"
definition SIZE_T_MAX :: u64 where "SIZE_T_MAX = 18446744073709551615"
definition pointer_bytes :: nat where "pointer_bytes = 8"

text \<open>\<open>None\<close> is the NULL that \<open>array_list_new\<close> returns.\<close>

definition array_list_new :: "allocator \<Rightarrow> 'a array_list option" where
  "array_list_new grant =
     (if grant 32
      then (if grant (pointer_bytes * unat ARRAY_LIST_DEFAULT_SIZE)
            then Some \<lparr>al_array = replicate (unat ARRAY_LIST_DEFAULT_SIZE) None, al_length = 0,
                       al_size = ARRAY_LIST_DEFAULT_SIZE, al_freed = []\<rparr>
            else None)
      else None)"

lemma unat_Suc_less:
  assumes "i < stop" shows "unat (i + 1 :: u64) = Suc (unat i)"
proof -
  have "unat stop < 2 ^ LENGTH(64)" by (rule unsigned_less)
  then have "unat i + unat (1 :: u64) < 2 ^ LENGTH(64)" using assms by (simp add: word_less_nat_alt)
  then have "unat (i + 1) = unat i + unat (1 :: u64)" by (rule unat_add_lem [THEN iffD1])
  then show ?thesis by simp
qed

text \<open>\<open>if(arr->array[i]) arr->free_fn(arr->array[i])\<close> for \<open>i\<close> up to \<open>stop\<close>.\<close>

function free_cells :: "'a option list \<Rightarrow> u64 \<Rightarrow> u64 \<Rightarrow> 'a list \<Rightarrow> 'a list option" where
  "free_cells cells i stop freed =
     (if i < stop
      then do { x \<leftarrow> load cells (unat i);
                free_cells cells (i + 1) stop (freed @ (case x of None \<Rightarrow> [] | Some y \<Rightarrow> [y])) }
      else Some freed)"
  by pat_completeness auto
termination
proof (relation "measure (\<lambda>(cells, i, stop, freed). unat stop - unat i)")
  fix i stop :: u64 assume "i < stop"
  then show "((cells, i + 1, stop, freed @ (case x of None \<Rightarrow> [] | Some y \<Rightarrow> [y])), (cells, i, stop, freed))
      \<in> measure (\<lambda>(cells, i, stop, freed). unat stop - unat i)" for cells x freed
    by (simp add: unat_Suc_less word_less_nat_alt)
qed simp

definition array_list_free :: "'a array_list \<Rightarrow> 'a list option" where
  "array_list_free arr = free_cells (al_array arr) 0 (al_length arr) (al_freed arr)"

text \<open>Outer \<open>None\<close>: a read outside the array; inner \<open>None\<close>: NULL.\<close>

definition array_list_get_idx :: "'a array_list \<Rightarrow> u64 \<Rightarrow> 'a option option" where
  "array_list_get_idx arr i = (if al_length arr \<le> i then Some None else load (al_array arr) (unat i))"

definition array_list_expand_internal :: "allocator \<Rightarrow> 'a array_list \<Rightarrow> u64 \<Rightarrow> int \<times> 'a array_list" where
  "array_list_expand_internal grant arr max_idx =
     (if max_idx < al_size arr then (0, arr)
      else (let new_size =
                 (if al_size arr \<ge> SIZE_T_MAX div 2 then max_idx
                  else (let new_size = push_bit 1 (al_size arr) in if new_size < max_idx then max_idx else new_size))
            in if new_size > NOT 0 div 8 then (-1, arr)
               else if \<not> grant (unat new_size * pointer_bytes) then (-1, arr)
               else (0, arr\<lparr>al_array := al_array arr @ replicate (unat (new_size - al_size arr)) None,
                            al_size := new_size\<rparr>)))"

definition array_list_put_idx :: "allocator \<Rightarrow> 'a array_list \<Rightarrow> u64 \<Rightarrow> 'a option \<Rightarrow> (int \<times> 'a array_list) option" where
  "array_list_put_idx grant arr idx data =
     (if idx > SIZE_T_MAX - 1 then Some (-1, arr)
      else (let (rc, arr) = array_list_expand_internal grant arr (idx + 1)
            in if rc \<noteq> 0 then Some (-1, arr)
               else do {
                 freed \<leftarrow> (if idx < al_length arr
                           then do { x \<leftarrow> load (al_array arr) (unat idx);
                                     Some (al_freed arr @ (case x of None \<Rightarrow> [] | Some y \<Rightarrow> [y])) }
                           else Some (al_freed arr));
                 cells \<leftarrow> store (al_array arr) (unat idx) data;
                 Some (0, arr\<lparr>al_array := cells, al_freed := freed,
                              al_length := (if al_length arr \<le> idx then idx + 1 else al_length arr)\<rparr>) }))"

definition array_list_add :: "allocator \<Rightarrow> 'a array_list \<Rightarrow> 'a option \<Rightarrow> (int \<times> 'a array_list) option" where
  "array_list_add grant arr data = array_list_put_idx grant arr (al_length arr) data"

text \<open>\<open>qsort\<close> and \<open>bsearch\<close> get the cells up to the length.\<close>

definition array_list_sort ::
    "('a option list \<Rightarrow> 'a option list) \<Rightarrow> 'a array_list \<Rightarrow> 'a array_list" where
  "array_list_sort qsort arr =
     arr\<lparr>al_array := qsort (take (unat (al_length arr)) (al_array arr)) @ drop (unat (al_length arr)) (al_array arr)\<rparr>"

definition array_list_bsearch :: "('k \<Rightarrow> 'a option list \<Rightarrow> 'r) \<Rightarrow> 'k \<Rightarrow> 'a array_list \<Rightarrow> 'r" where
  "array_list_bsearch bsearch key arr = bsearch key (take (unat (al_length arr)) (al_array arr))"

definition array_list_length :: "'a array_list \<Rightarrow> u64" where
  "array_list_length arr = al_length arr"

text \<open>\<open>memmove\<close> between two places of one array.\<close>

definition memmove :: "'a list \<Rightarrow> nat \<Rightarrow> nat \<Rightarrow> nat \<Rightarrow> 'a list option" where
  "memmove m dst src n =
     (if src + n \<le> length m \<and> dst + n \<le> length m then Some (patch m dst (take n (drop src m))) else None)"

definition array_list_del_idx :: "'a array_list \<Rightarrow> u64 \<Rightarrow> u64 \<Rightarrow> (int \<times> 'a array_list) option" where
  "array_list_del_idx arr idx count =
     (let stop = idx + count
      in if idx \<ge> al_length arr \<or> stop > al_length arr then Some (-1, arr)
         else do {
           freed \<leftarrow> free_cells (al_array arr) idx stop (al_freed arr);
           cells \<leftarrow> memmove (al_array arr) (unat idx) (unat stop) (unat (al_length arr - stop));
           Some (0, arr\<lparr>al_array := cells, al_freed := freed, al_length := al_length arr - count\<rparr>) })"

section \<open>The list that an array stands for\<close>

definition al_list :: "'a array_list \<Rightarrow> 'a option list" where
  "al_list arr = take (unat (al_length arr)) (al_array arr)"

definition al_ok :: "'a array_list \<Rightarrow> bool" where
  "al_ok arr \<longleftrightarrow> length (al_array arr) = unat (al_size arr) \<and> al_length arr \<le> al_size arr \<and>
     unat (al_size arr) < 2 ^ 61"

text \<open>No pointer is left behind the end.\<close>

definition al_clean :: "'a array_list \<Rightarrow> bool" where
  "al_clean arr \<longleftrightarrow> list_all (\<lambda>x. x = None) (drop (unat (al_length arr)) (al_array arr))"

text \<open>The cells between the end and \<open>idx\<close>, which an element put at \<open>idx\<close> makes part of the list.\<close>

definition left_behind :: "'a array_list \<Rightarrow> nat \<Rightarrow> 'a option list" where
  "left_behind arr idx =
     take (idx - unat (al_length arr)) (drop (unat (al_length arr)) (al_array arr) @ replicate idx None)"

definition elements :: "'a option list \<Rightarrow> 'a list" where
  "elements xs = concat (map (\<lambda>x. case x of None \<Rightarrow> [] | Some y \<Rightarrow> [y]) xs)"

lemma elements_simps [simp]: "elements [] = []" "elements (x # xs) = (case x of None \<Rightarrow> [] | Some y \<Rightarrow> [y]) @ elements xs"
  by (simp_all add: elements_def)

lemma length_al_list [simp]: "al_ok arr \<Longrightarrow> length (al_list arr) = unat (al_length arr)"
  by (simp add: al_list_def al_ok_def word_le_nat_alt)

lemma free_cells_elements:
  "unat stop \<le> length cells \<Longrightarrow> unat i \<le> unat stop \<Longrightarrow>
   free_cells cells i stop freed = Some (freed @ elements (take (unat stop - unat i) (drop (unat i) cells)))"
proof (induction cells i stop freed rule: free_cells.induct)
  case (1 cells i stop freed)
  show ?case
  proof (cases "i < stop")
    case True
    then have n: "unat i < unat stop" by (simp add: word_less_nat_alt)
    have s: "unat (i + 1) = Suc (unat i)" by (rule unat_Suc_less [OF True])
    have "take (unat stop - unat i) (drop (unat i) cells) = cells ! unat i # take (unat stop - unat (i + 1)) (drop (unat (i + 1)) cells)"
      using n 1(2) by (simp add: s take_Cons' flip: Cons_nth_drop_Suc)
    moreover have "load cells (unat i) = Some (cells ! unat i)" using n 1(2) by simp
    ultimately show ?thesis
      using 1(1) [OF True, of "cells ! unat i"] 1(2) n s True by (simp add: free_cells.simps [of _ i])
  qed (use 1 in \<open>simp add: free_cells.simps [of _ i] word_less_nat_alt\<close>)
qed

lemma new_array:
  "array_list_new grant = Some arr \<Longrightarrow> al_ok arr \<and> al_clean arr \<and> al_list arr = [] \<and> al_freed arr = []"
  by (auto simp: array_list_new_def al_ok_def al_clean_def al_list_def ARRAY_LIST_DEFAULT_SIZE_def list_all_iff split: if_splits)

lemma get_idx_list:
  "al_ok arr \<Longrightarrow> array_list_get_idx arr i = Some (if unat i < length (al_list arr) then al_list arr ! unat i else None)"
  by (auto simp: array_list_get_idx_def al_ok_def al_list_def word_le_nat_alt not_le)

lemma left_behind_clean:
  assumes "al_clean arr" shows "left_behind arr idx = replicate (idx - unat (al_length arr)) None"
proof (rule replicate_eqI)
  fix y assume "y \<in> set (left_behind arr idx)"
  then have "y \<in> set (drop (unat (al_length arr)) (al_array arr)) \<or> y = None"
    unfolding left_behind_def by (auto dest: in_set_takeD)
  then show "y = None" using assms by (auto simp: al_clean_def list_all_iff)
qed (simp add: left_behind_def)

lemma expand_cases:
  assumes "al_ok arr" and "array_list_expand_internal grant arr n = (rc, arr')"
  shows "rc = -1 \<and> arr' = arr \<or>
    rc = 0 \<and> al_ok arr' \<and> n \<le> al_size arr' \<and> (\<exists>k. al_array arr' = al_array arr @ replicate k None) \<and>
    al_length arr' = al_length arr \<and> al_freed arr' = al_freed arr"
proof -
  have size: "unat (al_size arr) < 2 ^ 61" using assms(1) by (simp add: al_ok_def)
  have dbl: "unat (push_bit 1 (al_size arr)) = 2 * unat (al_size arr)" using size
    by (simp add: push_bit_eq_mult unat_word_ariths)
  define new_size where "new_size = (if push_bit 1 (al_size arr) < n then n else push_bit 1 (al_size arr))"
  have "\<not> SIZE_T_MAX div 2 \<le> al_size arr" using size by (simp add: SIZE_T_MAX_def word_le_nat_alt)
  then have e: "array_list_expand_internal grant arr n =
      (if n < al_size arr then (0, arr)
       else if new_size > NOT 0 div 8 then (-1, arr)
       else if \<not> grant (unat new_size * pointer_bytes) then (-1, arr)
       else (0, arr\<lparr>al_array := al_array arr @ replicate (unat (new_size - al_size arr)) None, al_size := new_size\<rparr>))"
    by (simp add: array_list_expand_internal_def Let_def new_size_def)
  show ?thesis
  proof (cases "n < al_size arr")
    case True
    then show ?thesis using e assms by (auto intro: exI [of _ 0])
  next
    case False
    then have "al_size arr \<le> new_size" "n \<le> new_size" using dbl by (auto simp: new_size_def word_le_nat_alt word_less_nat_alt)
    moreover have "\<not> new_size > NOT 0 div 8 \<Longrightarrow> unat new_size < 2 ^ 61" by (simp add: word_less_nat_alt)
    ultimately show ?thesis using e assms False
      by (auto simp: al_ok_def unat_sub word_le_nat_alt split: if_splits)
  qed
qed

lemma put_idx_cases:
  assumes "al_ok arr"
  shows "array_list_put_idx grant arr idx data = Some (-1, arr) \<or>
    (\<exists>arr'. array_list_put_idx grant arr idx data = Some (0, arr') \<and> al_ok arr' \<and> (al_clean arr \<longrightarrow> al_clean arr') \<and>
       (if unat idx < length (al_list arr)
        then al_list arr' = (al_list arr)[unat idx := data] \<and> al_freed arr' = al_freed arr @ elements [al_list arr ! unat idx]
        else al_list arr' = al_list arr @ left_behind arr (unat idx) @ [data] \<and> al_freed arr' = al_freed arr))"
proof (cases "idx > SIZE_T_MAX - 1")
  case True
  then show ?thesis by (simp add: array_list_put_idx_def)
next
  case False
  then have idx: "idx < SIZE_T_MAX" by (simp add: SIZE_T_MAX_def word_less_nat_alt word_le_nat_alt)
  have suc: "unat (idx + 1) = Suc (unat idx)" by (rule unat_Suc_less [OF idx])
  obtain rc arr1 where x: "array_list_expand_internal grant arr (idx + 1) = (rc, arr1)" by fastforce
  consider "rc = -1" "arr1 = arr" | k where "rc = 0" "al_ok arr1" "idx + 1 \<le> al_size arr1"
    "al_array arr1 = al_array arr @ replicate k None" "al_length arr1 = al_length arr" "al_freed arr1 = al_freed arr"
    using expand_cases [OF assms x] by blast
  then show ?thesis
  proof cases
    case 1
    then show ?thesis using x False by (simp add: array_list_put_idx_def)
  next
    case 2
    let ?n = "unat idx" and ?len = "unat (al_length arr)" and ?A = "al_array arr1"
    have len: "?len \<le> length (al_array arr)" using assms by (simp add: al_ok_def word_le_nat_alt)
    have n: "?n < length ?A" using 2(2,3) suc by (simp add: al_ok_def word_le_nat_alt)
    define arr' where "arr' = arr1\<lparr>al_array := ?A[?n := data],
      al_freed := (if idx < al_length arr then al_freed arr @ elements [?A ! ?n] else al_freed arr),
      al_length := (if al_length arr \<le> idx then idx + 1 else al_length arr)\<rparr>"
    have put: "array_list_put_idx grant arr idx data = Some (0, arr')"
      using x False 2 n by (simp add: array_list_put_idx_def store_def arr'_def)
    have ok: "al_ok arr'" using 2(2,3,5) by (simp add: al_ok_def arr'_def)
    have rest: "list_all (\<lambda>x. x = None) (drop ?len ?A)" if "al_clean arr"
      using that 2(4) len by (auto simp: al_clean_def list_all_iff)
    have clean: "al_clean arr'" if "al_clean arr"
    proof (cases "?n < ?len")
      case True
      then show ?thesis using rest [OF that] by (simp add: al_clean_def arr'_def drop_update_cancel word_le_nat_alt)
    next
      case False
      have "drop (Suc ?n) ?A = drop (Suc ?n - ?len) (drop ?len ?A)" using False by simp
      then have "list_all (\<lambda>x. x = None) (drop (Suc ?n) ?A)"
        using rest [OF that] set_drop_subset [of "Suc ?n - ?len" "drop ?len ?A"] by (auto simp: list_all_iff)
      then show ?thesis using False suc by (simp add: al_clean_def arr'_def drop_update_cancel word_le_nat_alt)
    qed
    show ?thesis
    proof (cases "?n < ?len")
      case True
      then show ?thesis using put ok clean 2(4) len assms
        by (auto simp: arr'_def al_list_def take_update_swap nth_append word_less_nat_alt word_le_nat_alt)
    next
      case False
      have "take (Suc ?n) (?A[?n := data]) = take ?n ?A @ [data]" using n by (simp add: take_Suc_conv_app_nth)
      also have "take ?n ?A = take ?len (take ?n ?A) @ drop ?len (take ?n ?A)" by (rule append_take_drop_id [symmetric])
      also have "take ?len (take ?n ?A) = take ?len (al_array arr)"
        using False len 2(4) by (simp add: min_absorb1)
      also have "drop ?len (take ?n ?A) = left_behind arr ?n"
        using False len 2(4) n by (simp add: left_behind_def take_drop)
      finally show ?thesis using put ok clean False suc assms
        by (auto simp: arr'_def al_list_def word_less_nat_alt word_le_nat_alt)
    qed
  qed
qed

lemma add_cases:
  assumes "al_ok arr"
  shows "array_list_add grant arr data = Some (-1, arr) \<or>
    (\<exists>arr'. array_list_add grant arr data = Some (0, arr') \<and> al_ok arr' \<and> (al_clean arr \<longrightarrow> al_clean arr') \<and>
       al_list arr' = al_list arr @ [data] \<and> al_freed arr' = al_freed arr)"
  using put_idx_cases [OF assms, of grant "al_length arr" data] assms
  by (auto simp: array_list_add_def left_behind_def)

text \<open>Deletion inside the list. Behind the new end the moved cells and, at the tail, the deleted ones stay.\<close>

lemma del_idx_ok:
  assumes ok: "al_ok arr" and n: "unat idx + unat count \<le> length (al_list arr)" "unat idx < length (al_list arr)"
  shows "\<exists>arr'. array_list_del_idx arr idx count = Some (0, arr') \<and> al_ok arr' \<and>
    al_list arr' = take (unat idx) (al_list arr) @ drop (unat idx + unat count) (al_list arr) \<and>
    al_freed arr' = al_freed arr @ elements (take (unat count) (drop (unat idx) (al_list arr))) \<and>
    unat (al_length arr') = unat (al_length arr) - unat count \<and>
    (unat idx + unat count = length (al_list arr) \<longrightarrow> al_array arr' = al_array arr)"
proof -
  let ?i = "unat idx" and ?c = "unat count" and ?len = "unat (al_length arr)" and ?A = "al_array arr"
  have len: "?len \<le> length ?A" "length ?A < 2 ^ 61" using ok by (simp_all add: al_ok_def word_le_nat_alt)
  have n': "?i + ?c \<le> ?len" "?i < ?len" using n ok by simp_all
  have stop: "unat (idx + count) = ?i + ?c" using n' len by (simp add: unat_word_ariths)
  have rest: "unat (al_length arr - (idx + count)) = ?len - (?i + ?c)" "unat (al_length arr - count) = ?len - ?c"
    using n' stop by (simp_all add: unat_sub word_le_nat_alt)
  let ?tail = "take (?len - (?i + ?c)) (drop (?i + ?c) ?A)"
  define arr' where "arr' = arr\<lparr>al_array := patch ?A ?i ?tail, al_freed := al_freed arr @ elements (take ?c (drop ?i ?A)),
    al_length := al_length arr - count\<rparr>"
  have "free_cells ?A idx (idx + count) (al_freed arr) = Some (al_freed arr @ elements (take ?c (drop ?i ?A)))"
    using free_cells_elements [of "idx + count" ?A idx "al_freed arr"] n' len by (simp add: stop)
  moreover have "memmove ?A ?i (?i + ?c) (?len - (?i + ?c)) = Some (patch ?A ?i ?tail)"
    using n' len by (simp add: memmove_def)
  moreover have "\<not> al_length arr \<le> idx" "\<not> al_length arr < idx + count"
    using n' stop by (simp_all add: word_le_nat_alt word_less_nat_alt)
  ultimately have "array_list_del_idx arr idx count = Some (0, arr')"
    by (simp add: array_list_del_idx_def Let_def stop rest arr'_def)
  moreover have "length (patch ?A ?i ?tail) = length ?A" using n' len by (intro length_patch) simp
  then have "al_ok arr'"
    using ok n' len rest by (simp add: al_ok_def arr'_def word_le_nat_alt le_diff_conv del: length_patch)
  moreover have "al_list arr' = take ?i (al_list arr) @ drop (?i + ?c) (al_list arr)"
    using n' len rest by (simp add: al_list_def arr'_def patch_def drop_take min_absorb2 add.commute [of "unat count"])
  moreover have "take ?c (drop ?i ?A) = take ?c (drop ?i (al_list arr))"
    using n' by (simp add: al_list_def drop_take)
  moreover have "al_array arr' = ?A" if "?i + ?c = length (al_list arr)"
    using that ok by (simp add: arr'_def)
  ultimately show ?thesis using rest by (intro exI [of _ arr']) (simp_all add: arr'_def)
qed

lemma del_idx_range:
  assumes ok: "al_ok arr" and n: "unat idx + unat count < 2 ^ 64" "unat idx \<ge> length (al_list arr) \<or> unat idx + unat count > length (al_list arr)"
  shows "array_list_del_idx arr idx count = Some (-1, arr)"
proof -
  have "unat (idx + count) = unat idx + unat count" using n(1) by (simp add: unat_word_ariths)
  then have "al_length arr \<le> idx \<or> al_length arr < idx + count"
    using n(2) ok by (auto simp: word_le_nat_alt word_less_nat_alt)
  then show ?thesis by (auto simp: array_list_del_idx_def Let_def)
qed

text \<open>The elements deleted at the tail come back when the next element is put behind the place where they were.\<close>

lemma deleted_come_back:
  assumes ok: "al_ok arr" and n: "unat idx + unat count = length (al_list arr)" "0 < count"
    and del: "array_list_del_idx arr idx count = Some (0, arr1)"
    and put: "array_list_put_idx grant arr1 (idx + count) data = Some (0, arr2)"
  shows "al_list arr2 = al_list arr @ [data]"
    and "al_freed arr2 = al_freed arr @ elements (drop (unat idx) (al_list arr))"
proof -
  have c: "0 < unat count" using n(2) by (simp add: word_less_nat_alt)
  then have idx: "unat idx < length (al_list arr)" using n(1) by linarith
  from del_idx_ok [OF ok _ idx, of count] n(1) del
  have d: "al_ok arr1" "al_list arr1 = take (unat idx) (al_list arr)" "al_array arr1 = al_array arr"
    "al_freed arr1 = al_freed arr @ elements (drop (unat idx) (al_list arr))" "unat (al_length arr1) = unat idx"
    using ok by auto
  have len: "length (al_list arr) \<le> length (al_array arr)" "length (al_array arr) < 2 ^ 61"
    using ok by (simp_all add: al_ok_def word_le_nat_alt)
  have stop: "unat (idx + count) = length (al_list arr)" using n(1) len by (simp add: unat_word_ariths)
  have "left_behind arr1 (unat (idx + count)) = drop (unat idx) (al_list arr)"
  proof -
    have "unat (idx + count) = unat (al_length arr)" "unat idx < unat (al_length arr)" using stop idx ok by simp_all
    then show ?thesis using len ok by (simp add: left_behind_def d(3,5) al_list_def drop_take al_ok_def word_le_nat_alt trans_le_add1 flip: add_diff_assoc)
  qed
  then show "al_list arr2 = al_list arr @ [data]"
    "al_freed arr2 = al_freed arr @ elements (drop (unat idx) (al_list arr))"
    using put_idx_cases [OF d(1), of grant "idx + count" data] put d stop idx by auto
qed

text \<open>A count that wraps around moves the array out of its memory.\<close>

lemma array_free_elements:
  "al_ok arr \<Longrightarrow> array_list_free arr = Some (al_freed arr @ elements (al_list arr))"
  using free_cells_elements [of "al_length arr" "al_array arr" 0 "al_freed arr"]
  by (simp add: array_list_free_def al_ok_def al_list_def word_le_nat_alt)

end
