(* ===== verification/PrintBuf.thy ===== *)
theory PrintBuf
  imports ArrayList
begin

text \<open>
  The output buffer of json-c, \<open>printbuf.c\<close>: a growing string with C's \<open>int\<close> as its position and
  size. A cell of the buffer is \<open>None\<close> until it is written, as \<open>malloc\<close> and \<open>realloc\<close> leave it.
\<close>

section \<open>Definitions\<close>

record printbuf =
  pb_buf :: "u8 option list"
  pb_bpos :: int
  pb_size :: int

definition printbuf_new :: "allocator \<Rightarrow> printbuf option" where
  "printbuf_new grant =
     (if grant 16
      then (if grant 32 then Some \<lparr>pb_buf = (replicate 32 None)[0 := Some 0], pb_bpos = 0, pb_size = 32\<rparr> else None)
      else None)"

definition printbuf_extend :: "allocator \<Rightarrow> printbuf \<Rightarrow> int \<Rightarrow> (int \<times> printbuf) option" where
  "printbuf_extend grant p min_size =
     (if pb_size p \<ge> min_size then Some (0, p)
      else do {
        new_size \<leftarrow> c_int (pb_size p * 2);
        padded \<leftarrow> c_add min_size 8;
        let new_size = (if new_size < padded then padded else new_size);
        if \<not> grant (nat new_size) then Some (-1, p)
        else Some (0, p\<lparr>pb_size := new_size, pb_buf := pb_buf p @ replicate (nat new_size - length (pb_buf p)) None\<rparr>) })"

definition printbuf_memappend :: "allocator \<Rightarrow> printbuf \<Rightarrow> bytes \<Rightarrow> int \<Rightarrow> (int \<times> printbuf) option" where
  "printbuf_memappend grant p src n =
     do { stop \<leftarrow> c_add (pb_bpos p) n;
          need \<leftarrow> c_add stop 1;
          (rc, p) \<leftarrow> (if pb_size p \<le> need then printbuf_extend grant p need else Some (0, p));
          if rc < 0 then Some (-1, p)
          else do {
            cells \<leftarrow> memcpy (pb_buf p) (nat (pb_bpos p)) (map Some src) n;
            cells \<leftarrow> store cells (nat stop) (Some 0);
            Some (n, p\<lparr>pb_buf := cells, pb_bpos := stop\<rparr>) } }"

text \<open>The macro \<open>printbuf_memappend_fast\<close>, which drops the result of the function.\<close>

definition printbuf_memappend_fast :: "allocator \<Rightarrow> printbuf \<Rightarrow> bytes \<Rightarrow> int \<Rightarrow> printbuf option" where
  "printbuf_memappend_fast grant p src n =
     do { room \<leftarrow> c_int (pb_size p - pb_bpos p);
          if room > n
          then do {
            cells \<leftarrow> memcpy (pb_buf p) (nat (pb_bpos p)) (map Some src) n;
            stop \<leftarrow> c_add (pb_bpos p) n;
            cells \<leftarrow> store cells (nat stop) (Some 0);
            Some (p\<lparr>pb_buf := cells, pb_bpos := stop\<rparr>) }
          else map_option snd (printbuf_memappend grant p src n) }"

definition printbuf_strappend :: "allocator \<Rightarrow> printbuf \<Rightarrow> bytes \<Rightarrow> (int \<times> printbuf) option" where
  "printbuf_strappend grant p str = printbuf_memappend grant p str (int (length str))"

definition printbuf_memset :: "allocator \<Rightarrow> printbuf \<Rightarrow> int \<Rightarrow> int \<Rightarrow> int \<Rightarrow> (int \<times> printbuf) option" where
  "printbuf_memset grant pb offset charvalue len =
     do { let offset = (if offset = -1 then pb_bpos pb else offset);
          size_needed \<leftarrow> c_add offset len;
          (rc, pb) \<leftarrow> (if pb_size pb < size_needed then printbuf_extend grant pb size_needed else Some (0, pb));
          if rc < 0 then Some (-1, pb)
          else do {
            _ \<leftarrow> (if offset < 0 \<or> len < 0 then None else Some ());
            cells \<leftarrow> memcpy (pb_buf pb) (nat offset) (replicate (nat len) (Some (word_of_int charvalue))) len;
            Some (0, pb\<lparr>pb_buf := cells, pb_bpos := (if pb_bpos pb < size_needed then size_needed else pb_bpos pb)\<rparr>) } }"

text \<open>\<open>out\<close> is what \<open>vsnprintf\<close> makes of the format and its arguments; \<open>vasprintf\<close> allocates.\<close>

definition sprintbuf :: "allocator \<Rightarrow> printbuf \<Rightarrow> bytes \<Rightarrow> (int \<times> printbuf) option" where
  "sprintbuf grant p out =
     (let n = int (length out)
      in if n = -1 \<or> n > 127
         then (if \<not> grant (length out + 1) then Some (-1, p)
               else do { (_, p) \<leftarrow> printbuf_memappend grant p out n; Some (n, p) })
         else do { (_, p) \<leftarrow> printbuf_memappend grant p out n; Some (n, p) })"

definition printbuf_reset :: "printbuf \<Rightarrow> printbuf option" where
  "printbuf_reset p = do { cells \<leftarrow> store (pb_buf p) 0 (Some 0); Some (p\<lparr>pb_buf := cells, pb_bpos := 0\<rparr>) }"

section \<open>What a buffer holds\<close>

definition pb_ok :: "printbuf \<Rightarrow> bool" where
  "pb_ok p \<longleftrightarrow> int (length (pb_buf p)) = pb_size p \<and> 0 \<le> pb_bpos p \<and> pb_bpos p \<le> pb_size p \<and> 32 \<le> pb_size p \<and> pb_size p \<le> int_max"

text \<open>\<open>p\<close> holds the bytes \<open>xs\<close>, with the terminating zero when \<open>z\<close> is true.\<close>

definition holds :: "printbuf \<Rightarrow> bytes \<Rightarrow> bool \<Rightarrow> bool" where
  "holds p xs z \<longleftrightarrow> pb_ok p \<and> pb_bpos p = int (length xs) \<and> take (length xs) (pb_buf p) = map Some xs \<and>
     (z \<longrightarrow> load (pb_buf p) (length xs) = Some (Some 0))"

lemma new_holds: "printbuf_new grant = Some p \<Longrightarrow> holds p [] True"
  by (auto simp: printbuf_new_def holds_def pb_ok_def int_max_def split: if_splits)

lemma reset_holds: "holds p xs z \<Longrightarrow> \<exists>p'. printbuf_reset p = Some p' \<and> holds p' [] True"
  by (auto simp: printbuf_reset_def holds_def pb_ok_def store_def)

text \<open>Growing never overflows while the sizes stay below a quarter of \<open>INT_MAX\<close>.\<close>

lemma extend_cases:
  assumes "pb_ok p" and "0 \<le> n" and "n \<le> 1073741815" and "pb_size p \<le> 1073741823"
  shows "printbuf_extend grant p n = Some (-1, p) \<or>
    (\<exists>p'. printbuf_extend grant p n = Some (0, p') \<and> pb_ok p' \<and> n \<le> pb_size p' \<and> pb_bpos p' = pb_bpos p \<and>
       (\<exists>k. pb_buf p' = pb_buf p @ replicate k None) \<and> pb_size p' \<le> max (2 * pb_size p) (n + 8))"
proof (cases "pb_size p \<ge> n")
  case True
  then show ?thesis using assms by (auto simp: printbuf_extend_def pb_ok_def intro: exI [of _ 0])
next
  case False
  have "c_int (pb_size p * 2) = Some (pb_size p * 2)" "c_add n 8 = Some (n + 8)"
    using assms by (simp_all add: pb_ok_def int_min_def int_max_def)
  then show ?thesis
    using False assms by (auto simp: printbuf_extend_def pb_ok_def int_max_def of_nat_diff Let_def)
qed

text \<open>Appending \<open>n\<close> bytes is far from an overflow.\<close>

definition pb_small :: "printbuf \<Rightarrow> int \<Rightarrow> bool" where
  "pb_small p n \<longleftrightarrow> 0 \<le> n \<and> pb_bpos p + n \<le> 1073741800 \<and> pb_size p \<le> 1073741823"

lemma holds_write:
  assumes p: "holds p xs z" and fit: "int (length xs + length ys) < pb_size p"
  shows "\<exists>cells cells'. memcpy (pb_buf p) (nat (pb_bpos p)) (map Some (ys @ tail)) (int (length ys)) = Some cells \<and>
    store cells (length xs + length ys) (Some 0) = Some cells' \<and>
    holds (p\<lparr>pb_buf := cells', pb_bpos := int (length xs + length ys)\<rparr>) (xs @ ys) True"
proof -
  let ?cells = "patch (pb_buf p) (length xs) (map Some ys)"
  have len: "length xs + length ys < length (pb_buf p)" using p fit by (simp add: holds_def pb_ok_def)
  then have c: "length ?cells = length (pb_buf p)" by simp
  have pre: "take (length xs + length ys) ?cells = map Some (xs @ ys)"
    using p len by (simp add: holds_def patch_def)
  show ?thesis
  proof (intro exI conjI)
    show "memcpy (pb_buf p) (nat (pb_bpos p)) (map Some (ys @ tail)) (int (length ys)) = Some ?cells"
      using p len by (simp add: holds_def memcpy_def)
    show "store ?cells (length xs + length ys) (Some 0) = Some (?cells[length xs + length ys := Some 0])"
      using len c by (simp add: store_def)
    show "holds (p\<lparr>pb_buf := ?cells[length xs + length ys := Some 0], pb_bpos := int (length xs + length ys)\<rparr>) (xs @ ys) True"
      using p fit len c pre by (simp add: holds_def pb_ok_def)
  qed
qed

lemma holds_extended:
  assumes "holds p xs z" and "pb_ok p'" and "pb_bpos p' = pb_bpos p" and "pb_buf p' = pb_buf p @ replicate k None"
  shows "holds p' xs z"
  using assms by (auto simp: holds_def pb_ok_def load_def nth_append split: if_splits)

lemma memappend_cases:
  assumes p: "holds p xs z" and small: "pb_small p (int (length ys))"
  shows "printbuf_memappend grant p (ys @ tail) (int (length ys)) = Some (-1, p) \<or>
    (\<exists>p'. printbuf_memappend grant p (ys @ tail) (int (length ys)) = Some (int (length ys), p') \<and> holds p' (xs @ ys) True \<and>
       pb_size p \<le> pb_size p')"
proof -
  let ?n = "int (length ys)" and ?stop = "int (length xs + length ys)"
  have pos: "pb_bpos p = int (length xs)" and ok: "pb_ok p" using p by (simp_all add: holds_def)
  have adds: "c_add (pb_bpos p) ?n = Some ?stop" "c_add ?stop 1 = Some (?stop + 1)"
    using small pos by (simp_all add: pb_small_def int_min_def int_max_def)
  obtain rc p1 where grow: "(if pb_size p \<le> ?stop + 1 then printbuf_extend grant p (?stop + 1) else Some (0, p)) = Some (rc, p1)"
    and cases: "rc = -1 \<and> p1 = p \<or> rc = 0 \<and> holds p1 xs z \<and> ?stop < pb_size p1 \<and> pb_size p \<le> pb_size p1"
  proof (cases "pb_size p \<le> ?stop + 1")
    case True
    from extend_cases [OF ok, of "?stop + 1" grant] small pos
    consider "printbuf_extend grant p (?stop + 1) = Some (-1, p)"
      | p' k where "printbuf_extend grant p (?stop + 1) = Some (0, p')" "pb_ok p'" "?stop + 1 \<le> pb_size p'" "pb_bpos p' = pb_bpos p"
        "pb_buf p' = pb_buf p @ replicate k None"
      by (force simp: pb_small_def)
    then show ?thesis
    proof cases
      case 2
      moreover have "holds p' xs z" by (rule holds_extended [OF p 2(2,4,5)])
      moreover have "pb_size p \<le> pb_size p'" using 2 ok by (simp add: pb_ok_def)
      ultimately show ?thesis using True by (intro that [of 0 p']) simp_all
    qed (use that True in simp)
  qed (use that [of 0 p] p in simp)
  have app: "printbuf_memappend grant p (ys @ tail) ?n =
      (if rc < 0 then Some (-1, p1)
       else do { cells \<leftarrow> memcpy (pb_buf p1) (nat (pb_bpos p1)) (map Some (ys @ tail)) ?n;
                 cells \<leftarrow> store cells (nat ?stop) (Some 0);
                 Some (?n, p1\<lparr>pb_buf := cells, pb_bpos := ?stop\<rparr>) })"
    by (simp only: printbuf_memappend_def adds grow bind.bind_lunit prod.case)
  show ?thesis
  proof (cases "rc = -1 \<and> p1 = p")
    case False
    with cases have *: "rc = 0" "holds p1 xs z" "?stop < pb_size p1" "pb_size p \<le> pb_size p1" by auto
    from holds_write [OF *(2,3), of tail] show ?thesis
      using app * by (auto simp: nat_int_add)
  qed (use app in simp)
qed

text \<open>The macro does what the function does when the function succeeds, and nothing when it fails.\<close>

lemma memappend_fast_cases:
  assumes p: "holds p xs z" and small: "pb_small p (int (length ys))"
  shows "\<exists>p'. printbuf_memappend_fast grant p (ys @ tail) (int (length ys)) = Some p' \<and> (p' = p \<or> holds p' (xs @ ys) True)"
proof (cases "pb_size p - pb_bpos p > int (length ys)")
  case True
  have pos: "pb_bpos p = int (length xs)" and ok: "pb_ok p" using p by (simp_all add: holds_def)
  have adds: "c_int (pb_size p - pb_bpos p) = Some (pb_size p - pb_bpos p)"
      "c_add (pb_bpos p) (int (length ys)) = Some (int (length xs + length ys))"
    using small pos ok by (simp_all add: pb_small_def pb_ok_def int_min_def int_max_def)
  have "int (length xs + length ys) < pb_size p" using True pos by simp
  from holds_write [OF p this, of tail] True adds show ?thesis
    by (auto simp: printbuf_memappend_fast_def nat_int_add)
next
  case False
  moreover have "c_int (pb_size p - pb_bpos p) = Some (pb_size p - pb_bpos p)"
    using p by (simp add: holds_def pb_ok_def int_min_def)
  ultimately show ?thesis using memappend_cases [OF p small, of grant tail] by (auto simp: printbuf_memappend_fast_def)
qed

text \<open>\<open>sprintbuf\<close> reports the length of the text also when the text could not be appended.\<close>

lemma sprintbuf_cases:
  assumes p: "holds p xs z" and small: "pb_small p (int (length out))"
  shows "sprintbuf grant p out = Some (-1, p) \<and> 127 < length out \<and> \<not> grant (length out + 1) \<or>
    (\<exists>p'. sprintbuf grant p out = Some (int (length out), p') \<and> (p' = p \<or> holds p' (xs @ out) True))"
  using memappend_cases [OF p small, of grant "[]"] by (auto simp: sprintbuf_def Let_def)

section \<open>Filling a range\<close>

lemma memset_cases:
  assumes p: "holds p xs z" and off: "0 \<le> off" and n: "0 \<le> n"
    and small: "off + n \<le> 1073741800" "pb_size p \<le> 1073741823"
  shows "printbuf_memset grant p off c n = Some (-1, p) \<or>
    (\<exists>p' k. printbuf_memset grant p off c n = Some (0, p') \<and> pb_ok p' \<and> pb_bpos p' = max (pb_bpos p) (off + n) \<and>
       pb_buf p' = patch (pb_buf p @ replicate k None) (nat off) (replicate (nat n) (Some (word_of_int c))) \<and>
       off + n \<le> int (length (pb_buf p) + k))"
proof -
  have ok: "pb_ok p" using p by (simp add: holds_def)
  have add: "c_add off n = Some (off + n)" using off n small by (simp add: int_min_def int_max_def)
  have "off \<noteq> -1" using off by simp
  let ?grow = "if pb_size p < off + n then printbuf_extend grant p (off + n) else Some (0, p)"
  consider "?grow = Some (-1, p)" | p1 k where "?grow = Some (0, p1)" "pb_ok p1" "off + n \<le> pb_size p1" "pb_bpos p1 = pb_bpos p"
    "pb_buf p1 = pb_buf p @ replicate k None"
  proof (cases "pb_size p < off + n")
    case True
    then show ?thesis using extend_cases [OF ok, of "off + n" grant] off n small that by auto
  next
    case False
    then show ?thesis using that(2) [of p 0] ok by simp
  qed
  then show ?thesis
  proof cases
    case 1
    then show ?thesis using add off by (simp add: printbuf_memset_def)
  next
    case 2
    have room: "nat off + nat n \<le> length (pb_buf p1)" using 2(2,3) off n by (auto simp: pb_ok_def)
    have "memcpy (pb_buf p1) (nat off) (replicate (nat n) (Some (word_of_int c))) n =
        Some (patch (pb_buf p1) (nat off) (replicate (nat n) (Some (word_of_int c))))"
      using room n by (simp add: memcpy_def)
    then have "printbuf_memset grant p off c n =
        Some (0, p1\<lparr>pb_buf := patch (pb_buf p1) (nat off) (replicate (nat n) (Some (word_of_int c))),
                    pb_bpos := max (pb_bpos p) (off + n)\<rparr>)"
      using 2 add off n by (simp add: printbuf_memset_def max_def)
    then show ?thesis using 2 room off n ok by (auto simp: pb_ok_def intro!: exI [of _ k])
  qed
qed

text \<open>Inside the text or at its end: the range is filled.\<close>

lemma memset_inside:
  assumes p: "holds p xs z" and off: "off \<le> length xs" and small: "int (off + n) \<le> 1073741800" "pb_size p \<le> 1073741823"
  shows "printbuf_memset grant p (int off) c (int n) = Some (-1, p) \<or>
    (\<exists>p'. printbuf_memset grant p (int off) c (int n) = Some (0, p') \<and>
       holds p' (take off xs @ replicate n (word_of_int c) @ drop (off + n) xs) False)"
proof -
  have len: "length xs \<le> length (pb_buf p)" using p by (simp add: holds_def pb_ok_def)
  have "take off (pb_buf p) = map Some (take off xs)" "take (length xs - (off + n)) (drop (off + n) (pb_buf p)) = map Some (drop (off + n) xs)"
  proof -
    have t: "take (length xs) (pb_buf p) = map Some xs" using p by (simp add: holds_def)
    show "take off (pb_buf p) = map Some (take off xs)"
      using arg_cong [OF t, of "take off"] off by (simp add: min_absorb1 take_map)
    show "take (length xs - (off + n)) (drop (off + n) (pb_buf p)) = map Some (drop (off + n) xs)"
      using arg_cong [OF t, of "drop (off + n)"] by (simp add: drop_take drop_map)
  qed
  then show ?thesis
    using memset_cases [OF p, of "int off" "int n" grant c] small p off len
    by (auto simp: holds_def patch_def max_def)
qed

end
