(* ===== verification/ContainerProperties.thy ===== *)
theory ContainerProperties
  imports PrintBuf
begin

text \<open>
  The properties of json-c's growing array and of its output buffer.
\<close>

section \<open>The array\<close>

text \<open>\<open>array_list_put_idx\<close> either fails and leaves the array as it was, or it replaces the element
  at the index, calling \<open>free_fn\<close> once for it, or it extends the list, with NULL between the old end
  and the index as long as nothing has been deleted at the end. No access is outside the memory.\<close>

theorem array_put:
  assumes "al_ok arr" and "al_clean arr"
  shows "array_list_put_idx grant arr idx data = Some (-1, arr) \<or>
    (\<exists>arr'. array_list_put_idx grant arr idx data = Some (0, arr') \<and> al_ok arr' \<and> al_clean arr' \<and>
       al_list arr' = (if unat idx < length (al_list arr) then (al_list arr)[unat idx := data]
                       else al_list arr @ replicate (unat idx - length (al_list arr)) None @ [data]) \<and>
       al_freed arr' = al_freed arr @ (if unat idx < length (al_list arr) then elements [al_list arr ! unat idx] else []))"
  using put_idx_cases [OF assms(1), of grant idx data] left_behind_clean [OF assms(2), of "unat idx"] assms
  by (auto split: if_splits)

text \<open>Two elements, with and without memory for more.\<close>

definition sample_array :: "nat array_list" where
  "sample_array = \<lparr>al_array = Some 10 # Some 11 # replicate 30 None, al_length = 2, al_size = 32, al_freed = []\<rparr>"

lemma sample_array_ok: "al_ok sample_array" "al_clean sample_array" "al_list sample_array = [Some 10, Some 11]"
  "al_freed sample_array = []"
proof -
  show "al_clean sample_array" "al_list sample_array = [Some 10, Some 11]" by code_simp+
qed (simp_all add: sample_array_def al_ok_def word_le_nat_alt)

theorem array_put_witness:
  "\<exists>arr'. array_list_put_idx (\<lambda>n. False) sample_array 3 (Some 13) = Some (0, arr') \<and>
     al_list arr' = [Some 10, Some 11, None, Some 13] \<and> al_freed arr' = []"
proof -
  have "array_list_put_idx (\<lambda>n. False) sample_array 3 (Some 13) \<noteq> Some (-1, sample_array)"
    by code_simp
  then show ?thesis
    using array_put [OF sample_array_ok(1,2), of "\<lambda>n. False" 3 "Some 13"] by (auto simp: sample_array_ok)
qed

text \<open>\<open>array_list_del_idx\<close> removes the elements of a range inside the list, frees each of them once in their
  order and never fails; a range that is not inside the list is refused and changes nothing.\<close>

theorem array_delete:
  assumes "al_ok arr" and "unat idx + unat count < 2 ^ 64"
  shows "if unat idx < length (al_list arr) \<and> unat idx + unat count \<le> length (al_list arr)
    then \<exists>arr'. array_list_del_idx arr idx count = Some (0, arr') \<and> al_ok arr' \<and>
      al_list arr' = take (unat idx) (al_list arr) @ drop (unat idx + unat count) (al_list arr) \<and>
      al_freed arr' = al_freed arr @ elements (take (unat count) (drop (unat idx) (al_list arr)))
    else array_list_del_idx arr idx count = Some (-1, arr)"
  using del_idx_ok [OF assms(1), of idx count] del_idx_range [OF assms] by (auto simp: not_less not_le)

theorem array_delete_witness:
  "\<exists>arr'. array_list_del_idx sample_array 0 1 = Some (0, arr') \<and> al_list arr' = [Some 11] \<and> al_freed arr' = [10]"
  using array_delete [OF sample_array_ok(1), of 0 1] by (auto simp: sample_array_ok)

text \<open>C40: Elements that were deleted at the end of the list come back when an element is put behind the place where
  they were, although \<open>free_fn\<close> has been called for them: the list is the old one with the new element.\<close>

theorem array_deleted_come_back:
  assumes "al_ok arr" and "unat idx + unat count = length (al_list arr)" and "0 < count"
    and "array_list_del_idx arr idx count = Some (0, arr1)"
    and "array_list_put_idx grant arr1 (idx + count) data = Some (0, arr2)"
  shows "al_list arr2 = al_list arr @ [data] \<and> al_freed arr2 = al_freed arr @ elements (drop (unat idx) (al_list arr))"
  using deleted_come_back [OF assms] by simp

theorem array_deleted_come_back_witness:
  "\<exists>arr1 arr2. array_list_del_idx sample_array 1 1 = Some (0, arr1) \<and>
     array_list_put_idx (\<lambda>n. False) arr1 (1 + 1) (Some 12) = Some (0, arr2) \<and>
     al_list arr2 = [Some 10, Some 11, Some 12] \<and> al_freed arr2 = [11]"
proof -
  let ?arr1 = "sample_array\<lparr>al_length := 1, al_freed := [11]\<rparr>"
  let ?arr2 = "sample_array\<lparr>al_array := Some 10 # Some 11 # Some 12 # replicate 29 None, al_length := 3, al_freed := [11]\<rparr>"
  have "array_list_del_idx sample_array 1 1 = Some (0, ?arr1)" by code_simp
  moreover have "array_list_put_idx (\<lambda>n. False) ?arr1 (1 + 1) (Some 12) = Some (0, ?arr2)" by code_simp
  moreover have "unat (1 :: 64 word) + unat (1 :: 64 word) = length (al_list sample_array)" by (simp add: sample_array_ok)
  ultimately show ?thesis
    using array_deleted_come_back [OF sample_array_ok(1), of 1 1 ?arr1 "\<lambda>n. False" "Some 12" ?arr2]
    by (auto simp: sample_array_ok)
qed

section \<open>The output buffer\<close>

text \<open>\<open>printbuf_memappend\<close> either fails, changing nothing, or appends exactly the bytes, keeps what the
  buffer held and ends it with a zero; it writes inside the buffer only and overflows nowhere while the sizes
  stay below a quarter of what \<open>int\<close> can hold.\<close>

theorem printbuf_append:
  assumes "holds p xs z" and "pb_small p (int (length ys))"
  shows "printbuf_memappend grant p (ys @ rest) (int (length ys)) = Some (-1, p) \<or>
    (\<exists>p'. printbuf_memappend grant p (ys @ rest) (int (length ys)) = Some (int (length ys), p') \<and> holds p' (xs @ ys) True)"
  using memappend_cases [OF assms, of grant rest] by auto

definition sample_printbuf :: printbuf where
  "sample_printbuf = \<lparr>pb_buf = Some 65 # Some 0 # replicate 30 None, pb_bpos = 1, pb_size = 32\<rparr>"

lemma sample_holds: "holds sample_printbuf [65] True" "n \<le> 100 \<Longrightarrow> 0 \<le> n \<Longrightarrow> pb_small sample_printbuf n"
  by (simp_all add: sample_printbuf_def holds_def pb_ok_def int_max_def pb_small_def)

theorem printbuf_append_witness:
  "\<exists>p'. printbuf_memappend (\<lambda>n. True) sample_printbuf (replicate 40 66) 40 = Some (40, p') \<and> holds p' (65 # replicate 40 66) True"
proof -
  have "printbuf_memappend (\<lambda>n. True) sample_printbuf (replicate 40 66) 40 \<noteq> Some (-1, sample_printbuf)"
    by (simp add: printbuf_memappend_def printbuf_extend_def sample_printbuf_def memcpy_def store_def Let_def
        c_add_def c_int_def int_min_def int_max_def split: option.splits)
  then show ?thesis
    using printbuf_append [OF sample_holds(1) sample_holds(2), of "replicate 40 66" "\<lambda>n. True" "[]"] by auto
qed

text \<open>The macro \<open>printbuf_memappend_fast\<close> does what \<open>printbuf_memappend\<close> does, on every buffer and for
  every count, except that it drops the result.\<close>

theorem printbuf_fast_same:
  assumes "pb_ok p" and "int_min \<le> n"
  shows "printbuf_memappend_fast grant p src n = map_option snd (printbuf_memappend grant p src n)"
proof -
  have room: "c_int (pb_size p - pb_bpos p) = Some (pb_size p - pb_bpos p)" using assms(1) by (simp add: pb_ok_def int_min_def)
  show ?thesis
  proof (cases "pb_size p - pb_bpos p > n")
    case True
    then have adds: "c_add (pb_bpos p) n = Some (pb_bpos p + n)" "c_add (pb_bpos p + n) 1 = Some (pb_bpos p + n + 1)"
      using assms by (simp_all add: pb_ok_def int_min_def int_max_def)
    have grow: "(if pb_size p \<le> pb_bpos p + n + 1 then printbuf_extend grant p (pb_bpos p + n + 1) else Some (0, p)) = Some (0, p)"
      using True by (simp add: printbuf_extend_def)
    show ?thesis
    proof (cases "memcpy (pb_buf p) (nat (pb_bpos p)) (map Some src) n")
      case None
      then show ?thesis
        by (simp only: printbuf_memappend_fast_def printbuf_memappend_def room adds grow True if_True bind.bind_lunit prod.case) simp
    next
      case (Some cells)
      then show ?thesis
        by (cases "store cells (nat (pb_bpos p + n)) (Some 0)";
            simp only: printbuf_memappend_fast_def printbuf_memappend_def room adds grow True if_True bind.bind_lunit prod.case) simp_all
    qed
  qed (simp add: printbuf_memappend_fast_def room)
qed

theorem printbuf_fast_same_witness:
  "printbuf_memappend_fast (\<lambda>n. False) sample_printbuf [66] 30 = map_option snd (printbuf_memappend (\<lambda>n. False) sample_printbuf [66] 30)"
  by (rule printbuf_fast_same) (simp_all add: sample_printbuf_def pb_ok_def int_max_def int_min_def)

end
