(* ===== verification/ChangeQueue.thy ===== *)
theory ChangeQueue
  imports CPrelude
begin

text \<open>
  The queue of changes of \<open>ua_timer.c\<close>: a list linked through its nodes, to which any thread adds and from
  which one thread takes. \<open>enqueueChange\<close> exchanges the head and links the node in two steps,
  between which other threads run; \<open>dequeueChange\<close> is cut where it does the same with the stub.
\<close>

section \<open>Definitions\<close>

text \<open>A pointer to a change, or to \<open>changes_stub\<close>, whose only field is the link.\<close>

datatype qnode = Stub | Node nat

record changes =
  links :: "qnode \<Rightarrow> qnode option"
  changes_head :: qnode
  changes_tail :: qnode

definition changes_init :: changes where
  "changes_init = \<lparr>links = (\<lambda>n. None), changes_head = Stub, changes_tail = Stub\<rparr>"

definition enqueue_xchg :: "changes \<Rightarrow> qnode \<Rightarrow> qnode \<times> changes" where
  "enqueue_xchg q n = (changes_head q, q\<lparr>links := (links q)(n := None), changes_head := n\<rparr>)"

definition enqueue_link :: "qnode \<Rightarrow> qnode \<Rightarrow> changes \<Rightarrow> changes" where
  "enqueue_link prev n q = q\<lparr>links := (links q)(prev := Some n)\<rparr>"

definition enqueueChange :: "changes \<Rightarrow> qnode \<Rightarrow> changes" where
  "enqueueChange q n = (let (prev, q) = enqueue_xchg q n in enqueue_link prev n q)"

text \<open>\<open>Continue tail\<close>: the tail is the last node, and the stub has to be put behind it.\<close>

datatype dequeued = Returned "qnode option" | Continue qnode

definition dequeue_next :: "qnode \<Rightarrow> qnode option \<Rightarrow> changes \<Rightarrow> dequeued \<times> changes" where
  "dequeue_next tail next q =
     (case next of
        Some n \<Rightarrow> (Returned (Some tail), q\<lparr>changes_tail := n\<rparr>)
      | None \<Rightarrow> if tail \<noteq> changes_head q then (Returned None, q) else (Continue tail, q))"

definition dequeue_try :: "changes \<Rightarrow> dequeued \<times> changes" where
  "dequeue_try q =
     (let tail = changes_tail q; next = links q tail
      in if tail = Stub
         then (case next of
             None \<Rightarrow> (Returned None, q)
           | Some n \<Rightarrow> dequeue_next n (links q n) (q\<lparr>changes_tail := n\<rparr>))
         else dequeue_next tail next q)"

definition dequeue_retry :: "qnode \<Rightarrow> changes \<Rightarrow> qnode option \<times> changes" where
  "dequeue_retry tail q =
     (case links q tail of Some n \<Rightarrow> (Some tail, q\<lparr>changes_tail := n\<rparr>) | None \<Rightarrow> (None, q))"

definition dequeueChange :: "changes \<Rightarrow> qnode option \<times> changes" where
  "dequeueChange q =
     (case dequeue_try q of
        (Returned r, q) \<Rightarrow> (r, q)
      | (Continue tail, q) \<Rightarrow> dequeue_retry tail (enqueueChange q Stub))"

section \<open>The list that a queue stands for\<close>

text \<open>The nodes from the tail to the head; a link is missing where a thread is between its two steps.\<close>

fun chain :: "(qnode \<Rightarrow> qnode option) \<Rightarrow> (qnode \<times> qnode) set \<Rightarrow> qnode list \<Rightarrow> bool" where
  "chain l pend [] \<longleftrightarrow> False"
| "chain l pend [x] \<longleftrightarrow> l x = None"
| "chain l pend (x # y # zs) \<longleftrightarrow> l x = (if (x, y) \<in> pend then None else Some y) \<and> chain l pend (y # zs)"

fun neighbours :: "qnode list \<Rightarrow> (qnode \<times> qnode) set" where
  "neighbours (x # y # zs) = insert (x, y) (neighbours (y # zs))"
| "neighbours _ = {}"

definition queue_inv :: "changes \<Rightarrow> (qnode \<times> qnode) set \<Rightarrow> qnode list \<Rightarrow> bool" where
  "queue_inv q pend order \<longleftrightarrow> chain (links q) pend order \<and> distinct order \<and>
     hd order = changes_tail q \<and> last order = changes_head q \<and> pend \<subseteq> neighbours order"

fun jobs_of :: "qnode list \<Rightarrow> nat list" where
  "jobs_of [] = []"
| "jobs_of (Stub # ns) = jobs_of ns"
| "jobs_of (Node a # ns) = a # jobs_of ns"

lemma jobs_of_append [simp]: "jobs_of (xs @ ys) = jobs_of xs @ jobs_of ys"
  by (induction xs rule: jobs_of.induct) simp_all

lemma set_jobs_of: "a \<in> set (jobs_of ns) \<longleftrightarrow> Node a \<in> set ns"
  by (induction ns rule: jobs_of.induct) auto

lemma chain_not_Nil [simp]: "queue_inv q pend order \<Longrightarrow> order \<noteq> []"
  by (auto simp: queue_inv_def)

lemma init_inv: "queue_inv changes_init {} [Stub]"
  by (simp add: queue_inv_def changes_init_def)

lemma neighbours_set: "(x, y) \<in> neighbours xs \<Longrightarrow> x \<in> set xs \<and> y \<in> set xs"
  by (induction xs rule: neighbours.induct) auto

lemma neighbours_snoc: "xs \<noteq> [] \<Longrightarrow> neighbours (xs @ [n]) = insert (last xs, n) (neighbours xs)"
  by (induction xs rule: neighbours.induct) auto

lemma chain_cong:
  "(\<And>x. x \<in> set xs \<Longrightarrow> l' x = l x) \<Longrightarrow> (\<And>x y. x \<in> set xs \<Longrightarrow> (x, y) \<in> pend' \<longleftrightarrow> (x, y) \<in> pend) \<Longrightarrow>
   chain l' pend' xs = chain l pend xs"
  by (induction l pend xs rule: chain.induct) simp_all

lemma chain_snoc:
  "chain l pend xs \<Longrightarrow> distinct xs \<Longrightarrow> n \<notin> set xs \<Longrightarrow> chain (l(n := None)) (insert (last xs, n) pend) (xs @ [n])"
proof (induction l pend xs rule: chain.induct)
  case (3 l pend x y zs)
  have "last (y # zs) \<in> set (y # zs)" by (rule last_in_set) simp
  then have "x \<noteq> last (y # zs)" "x \<noteq> n" using 3(3,4) by auto
  moreover have "chain (l(n := None)) (insert (last (y # zs), n) pend) ((y # zs) @ [n])"
    using 3 by (simp del: fun_upd_apply)
  ultimately show ?case using 3(2) by (simp add: fun_upd_other del: fun_upd_apply)
qed auto

lemma xchg_inv:
  assumes "queue_inv q pend order" and "n \<notin> set order"
  shows "queue_inv (snd (enqueue_xchg q n)) (insert (fst (enqueue_xchg q n), n) pend) (order @ [n])"
proof -
  have "order \<noteq> []" using assms(1) by simp
  then show ?thesis
    using assms chain_snoc [of "links q" pend order n]
    by (auto simp: queue_inv_def enqueue_xchg_def neighbours_snoc)
qed

lemma chain_link:
  "chain l pend xs \<Longrightarrow> distinct xs \<Longrightarrow> (p, n) \<in> neighbours xs \<Longrightarrow> chain (l(p := Some n)) (pend - {(p, n)}) xs"
proof (induction l pend xs rule: chain.induct)
  case (3 l pend x y zs)
  show ?case
  proof (cases "x = p")
    case True
    then have p: "p \<notin> set (y # zs)" using 3(3) by simp
    then have "n = y" using 3(4) True neighbours_set [of p n "y # zs"] by auto
    moreover have "chain (l(p := Some n)) (pend - {(p, n)}) (y # zs) = chain l pend (y # zs)"
      using p by (intro chain_cong) auto
    ultimately show ?thesis using 3(2) True by (simp add: fun_upd_same del: fun_upd_apply)
  next
    case False
    then have "(p, n) \<in> neighbours (y # zs)" using 3(4) by simp
    then show ?thesis using 3 False by (simp add: fun_upd_other del: fun_upd_apply)
  qed
qed auto

lemma link_inv:
  assumes "queue_inv q pend order" and "(p, n) \<in> pend"
  shows "queue_inv (enqueue_link p n q) (pend - {(p, n)}) order"
  using assms chain_link [of "links q" pend order p n] by (auto simp: queue_inv_def enqueue_link_def)

text \<open>Taking the first node away, which nobody is about to link.\<close>

lemma advance_inv:
  assumes "queue_inv q pend order" and "links q (hd order) = Some n"
  obtains rest where "order = hd order # n # rest" "queue_inv (q\<lparr>changes_tail := n\<rparr>) pend (n # rest)"
proof -
  have "chain (links q) pend order" using assms(1) by (simp add: queue_inv_def)
  then consider x where "order = [x]" "links q x = None" | x y rest where "order = x # y # rest"
    "links q x = (if (x, y) \<in> pend then None else Some y)"
    by (cases "(links q, pend, order)" rule: chain.cases) auto
  then show ?thesis
  proof cases
    case (2 x y rest)
    then have y: "y = n" "(x, y) \<notin> pend" using assms(2) by (auto split: if_splits)
    have "queue_inv (q\<lparr>changes_tail := n\<rparr>) pend (n # rest)"
      using assms(1) 2(1) y by (auto simp: queue_inv_def)
    then show ?thesis using 2(1) y by (intro that) simp_all
  qed (use assms in simp)
qed

lemma no_link_head:
  assumes "queue_inv q pend order" and "hd order = changes_head q" shows "order = [hd order]"
proof -
  obtain x xs where o: "order = x # xs" using assms(1) by (cases order) (auto simp: queue_inv_def)
  have "xs = []"
  proof (rule ccontr)
    assume "xs \<noteq> []"
    then have "last order \<in> set xs" using o by simp
    then show False using assms o by (auto simp: queue_inv_def)
  qed
  then show ?thesis using o by simp
qed

lemma dequeue_next_inv:
  assumes q: "queue_inv q pend order" and t: "hd order = Node a"
  shows "case dequeue_next (Node a) (links q (Node a)) q of
      (Returned (Some n), q') \<Rightarrow> n = Node a \<and> (\<exists>rest. order = Node a # rest \<and> queue_inv q' pend rest)
    | (Returned None, q') \<Rightarrow> q' = q \<and> pend \<noteq> {}
    | (Continue n, q') \<Rightarrow> q' = q \<and> n = Node a \<and> order = [Node a]"
proof (cases "links q (Node a)")
  case None
  show ?thesis
  proof (cases "Node a = changes_head q")
    case True
    then have "order = [Node a]" using no_link_head [OF q] t by simp
    then show ?thesis using None True by (simp add: dequeue_next_def)
  next
    case False
    have "pend \<noteq> {}"
    proof
      assume "pend = {}"
      then have c: "chain (links q) {} order" "last order = changes_head q" using q by (simp_all add: queue_inv_def)
      then show False using None False t by (cases "(links q, {} :: (qnode \<times> qnode) set, order)" rule: chain.cases) auto
    qed
    then show ?thesis using None False by (simp add: dequeue_next_def)
  qed
next
  case (Some n)
  then show ?thesis using advance_inv [OF q, of n] t by (force simp: dequeue_next_def)
qed

lemma dequeue_try_inv:
  assumes q: "queue_inv q pend order"
  shows "case dequeue_try q of
      (Returned (Some n), q') \<Rightarrow> \<exists>a order'. n = Node a \<and> queue_inv q' pend order' \<and> jobs_of order = a # jobs_of order'
    | (Returned None, q') \<Rightarrow> (\<exists>order'. queue_inv q' pend order' \<and> jobs_of order' = jobs_of order) \<and> (pend = {} \<longrightarrow> jobs_of order = [])
    | (Continue n, q') \<Rightarrow> \<exists>a. n = Node a \<and> queue_inv q' pend [Node a] \<and> jobs_of order = [a]"
proof -
  have hd: "changes_tail q = hd order" using q by (simp add: queue_inv_def)
  show ?thesis
  proof (cases "hd order")
    case (Node a)
    then show ?thesis
      using dequeue_next_inv [OF q Node] q hd
      by (force simp: dequeue_try_def Let_def split: prod.splits dequeued.splits option.splits)
  next
    case Stub
    show ?thesis
    proof (cases "links q Stub")
      case None
      have "pend = {} \<Longrightarrow> jobs_of order = []"
      proof -
        assume "pend = {}"
        then have "chain (links q) {} order" using q by (simp add: queue_inv_def)
        then show "jobs_of order = []" using None Stub
          by (cases "(links q, {} :: (qnode \<times> qnode) set, order)" rule: chain.cases) auto
      qed
      then show ?thesis using None Stub hd q by (auto simp: dequeue_try_def)
    next
      case (Some n)
      obtain rest where o: "order = Stub # n # rest" and inv: "queue_inv (q\<lparr>changes_tail := n\<rparr>) pend (n # rest)"
        using advance_inv [OF q, of n] Some Stub by auto
      have "n \<noteq> Stub" using q o by (auto simp: queue_inv_def)
      then obtain a where n: "n = Node a" by (cases n) auto
      then show ?thesis
        using dequeue_next_inv [OF inv, of a] inv hd o Some Stub
        by (force simp: dequeue_try_def Let_def split: prod.splits dequeued.splits option.splits)
    qed
  qed
qed

lemma dequeue_retry_inv:
  assumes q: "queue_inv q pend order" and t: "hd order = Node a"
  shows "case dequeue_retry (Node a) q of
      (Some n, q') \<Rightarrow> n = Node a \<and> (\<exists>rest. order = Node a # rest \<and> queue_inv q' pend rest)
    | (None, q') \<Rightarrow> q' = q"
  using advance_inv [OF q] t by (force simp: dequeue_retry_def split: option.splits)

text \<open>With nobody in between, the queue is a queue.\<close>

lemma dequeueChange_inv:
  assumes q: "queue_inv q {} order"
  shows "case dequeueChange q of
      (Some n, q') \<Rightarrow> \<exists>a order'. n = Node a \<and> queue_inv q' {} order' \<and> jobs_of order = a # jobs_of order'
    | (None, q') \<Rightarrow> jobs_of order = [] \<and> (\<exists>order'. queue_inv q' {} order' \<and> jobs_of order' = [])"
proof (cases "dequeue_try q")
  case (Pair d q1)
  note inv = dequeue_try_inv [OF q, unfolded Pair]
  show ?thesis
  proof (cases d)
    case (Returned r)
    then show ?thesis using inv Pair by (auto simp: dequeueChange_def split: option.splits)
  next
    case (Continue n)
    then obtain a where a: "n = Node a" "queue_inv q1 {} [Node a]" "jobs_of order = [a]" using inv by auto
    from xchg_inv [OF a(2), of Stub]
    have "queue_inv (snd (enqueue_xchg q1 Stub)) {(fst (enqueue_xchg q1 Stub), Stub)} [Node a, Stub]" by simp
    from link_inv [OF this, of "fst (enqueue_xchg q1 Stub)" Stub]
    have e: "queue_inv (enqueueChange q1 Stub) {} [Node a, Stub]" by (simp add: enqueueChange_def case_prod_unfold Let_def)
    then have "chain (links (enqueueChange q1 Stub)) {} [Node a, Stub]" by (simp only: queue_inv_def)
    then have "links (enqueueChange q1 Stub) (Node a) = Some Stub" by simp
    with dequeue_retry_inv [OF e] show ?thesis using Pair Continue a
      by (auto simp: dequeueChange_def dequeue_retry_def)
  qed
qed

lemma enqueueChange_inv:
  assumes "queue_inv q {} order" and "n \<notin> set order"
  shows "queue_inv (enqueueChange q n) {} (order @ [n])"
  using link_inv [OF xchg_inv [OF assms], of "fst (enqueue_xchg q n)" n]
  by (simp add: enqueueChange_def case_prod_unfold Let_def)

section \<open>Threads\<close>

text \<open>Where the consumer is: outside \<open>dequeueChange\<close>, before the exchange of the stub, between that and its
  link, and before it reads the tail's link again.\<close>

datatype consumer = Idle | Draining qnode | Swapped qnode qnode | Linked qnode

record mpsc =
  mq :: changes
  producing :: "(qnode \<times> qnode) set"
  consuming :: consumer
  begun :: "nat list"
  taken :: "nat list"

definition mpsc_init :: mpsc where
  "mpsc_init = \<lparr>mq = changes_init, producing = {}, consuming = Idle, begun = [], taken = []\<rparr>"

text \<open>\<open>begun\<close> lists the changes in the order of their exchanges, \<open>taken\<close> those that \<open>dequeueChange\<close> has returned;
  the memory of a change that was taken may be used again.\<close>

inductive mpsc_step :: "mpsc \<Rightarrow> mpsc \<Rightarrow> bool" where
  begin_enqueue: "a \<notin> set (drop (length (taken s)) (begun s)) \<Longrightarrow> enqueue_xchg (mq s) (Node a) = (prev, q) \<Longrightarrow>
    mpsc_step s (s\<lparr>mq := q, producing := insert (prev, Node a) (producing s), begun := begun s @ [a]\<rparr>)"
| end_enqueue: "(prev, n) \<in> producing s \<Longrightarrow>
    mpsc_step s (s\<lparr>mq := enqueue_link prev n (mq s), producing := producing s - {(prev, n)}\<rparr>)"
| try_none: "consuming s = Idle \<Longrightarrow> dequeue_try (mq s) = (Returned None, q) \<Longrightarrow> mpsc_step s (s\<lparr>mq := q\<rparr>)"
| try_some: "consuming s = Idle \<Longrightarrow> dequeue_try (mq s) = (Returned (Some (Node a)), q) \<Longrightarrow>
    mpsc_step s (s\<lparr>mq := q, taken := taken s @ [a]\<rparr>)"
| try_last: "consuming s = Idle \<Longrightarrow> dequeue_try (mq s) = (Continue tail, q) \<Longrightarrow> mpsc_step s (s\<lparr>mq := q, consuming := Draining tail\<rparr>)"
| stub_xchg: "consuming s = Draining tail \<Longrightarrow> enqueue_xchg (mq s) Stub = (prev, q) \<Longrightarrow>
    mpsc_step s (s\<lparr>mq := q, consuming := Swapped tail prev\<rparr>)"
| stub_link: "consuming s = Swapped tail prev \<Longrightarrow>
    mpsc_step s (s\<lparr>mq := enqueue_link prev Stub (mq s), consuming := Linked tail\<rparr>)"
| retry_none: "consuming s = Linked tail \<Longrightarrow> dequeue_retry tail (mq s) = (None, q) \<Longrightarrow> mpsc_step s (s\<lparr>mq := q, consuming := Idle\<rparr>)"
| retry_some: "consuming s = Linked tail \<Longrightarrow> dequeue_retry tail (mq s) = (Some (Node a), q) \<Longrightarrow>
    mpsc_step s (s\<lparr>mq := q, consuming := Idle, taken := taken s @ [a]\<rparr>)"

inductive mpsc_reachable :: "mpsc \<Rightarrow> bool" where
  start: "mpsc_reachable mpsc_init"
| step: "mpsc_reachable s \<Longrightarrow> mpsc_step s s' \<Longrightarrow> mpsc_reachable s'"

definition unlinked :: "mpsc \<Rightarrow> (qnode \<times> qnode) set" where
  "unlinked s = producing s \<union> (case consuming s of Swapped tail prev \<Rightarrow> {(prev, Stub)} | _ \<Rightarrow> {})"

definition consumer_ok :: "consumer \<Rightarrow> qnode list \<Rightarrow> bool" where
  "consumer_ok c order = (case c of
     Idle \<Rightarrow> True
   | Draining tail \<Rightarrow> hd order = tail \<and> tail \<noteq> Stub \<and> Stub \<notin> set order
   | Swapped tail prev \<Rightarrow> hd order = tail \<and> tail \<noteq> Stub
   | Linked tail \<Rightarrow> hd order = tail \<and> tail \<noteq> Stub)"

definition mpsc_ok :: "mpsc \<Rightarrow> qnode list \<Rightarrow> bool" where
  "mpsc_ok s order \<longleftrightarrow> queue_inv (mq s) (unlinked s) order \<and> consumer_ok (consuming s) order \<and>
     begun s = taken s @ jobs_of order \<and> Stub \<notin> snd ` producing s"

lemma mpsc_ok_init: "mpsc_ok mpsc_init [Stub]"
  using init_inv by (simp add: mpsc_ok_def mpsc_init_def unlinked_def consumer_ok_def)

lemma consumer_ok_snoc: "consumer_ok c order \<Longrightarrow> order \<noteq> [] \<Longrightarrow> n \<noteq> Stub \<Longrightarrow> consumer_ok c (order @ [n])"
  by (auto simp: consumer_ok_def split: consumer.splits)

lemma waiting_jobs: "mpsc_ok s order \<Longrightarrow> drop (length (taken s)) (begun s) = jobs_of order"
  by (simp add: mpsc_ok_def)

lemma mpsc_step_ok:
  assumes "mpsc_step s s'" and ok: "mpsc_ok s order"
  shows "\<exists>order'. mpsc_ok s' order'"
proof -
  have q: "queue_inv (mq s) (unlinked s) order" and c: "consumer_ok (consuming s) order"
    and b: "begun s = taken s @ jobs_of order" and p: "Stub \<notin> snd ` producing s"
    using ok by (simp_all add: mpsc_ok_def)
  show ?thesis using assms(1)
  proof cases
    case (begin_enqueue a prev q')
    have "Node a \<notin> set order" using begin_enqueue(2) waiting_jobs [OF ok] by (simp add: set_jobs_of)
    from xchg_inv [OF q this] have "queue_inv q' (insert (prev, Node a) (unlinked s)) (order @ [Node a])"
      using begin_enqueue(3) by simp
    moreover have "unlinked s' = insert (prev, Node a) (unlinked s)" using begin_enqueue(1) by (simp add: unlinked_def)
    ultimately have "mpsc_ok s' (order @ [Node a])"
      using consumer_ok_snoc [OF c] q b p begin_enqueue(1) by (simp add: mpsc_ok_def)
    then show ?thesis by (rule exI)
  next
    case (end_enqueue prev n)
    have "n \<noteq> Stub" using end_enqueue(2) p by force
    then have "unlinked s' = unlinked s - {(prev, n)}" using end_enqueue(1) by (auto simp: unlinked_def split: consumer.splits)
    moreover have "(prev, n) \<in> unlinked s" using end_enqueue(2) by (simp add: unlinked_def)
    ultimately have "queue_inv (mq s') (unlinked s') order" using link_inv [OF q] end_enqueue(1) by simp
    then have "mpsc_ok s' order" using c b p end_enqueue(1) by (auto simp: mpsc_ok_def)
    then show ?thesis by (rule exI)
  next
    case (try_none q')
    from dequeue_try_inv [OF q] obtain order' where "queue_inv q' (unlinked s) order'" "jobs_of order' = jobs_of order"
      using try_none(3) by auto
    then have "mpsc_ok s' order'" using b p try_none(1,2) by (simp add: mpsc_ok_def unlinked_def consumer_ok_def)
    then show ?thesis by (rule exI)
  next
    case (try_some a q')
    from dequeue_try_inv [OF q] obtain order' where "queue_inv q' (unlinked s) order'" "jobs_of order = a # jobs_of order'"
      using try_some(3) by auto
    then have "mpsc_ok s' order'" using b p try_some(1,2) by (simp add: mpsc_ok_def unlinked_def consumer_ok_def)
    then show ?thesis by (rule exI)
  next
    case (try_last tail q')
    from dequeue_try_inv [OF q] obtain a where "tail = Node a" "queue_inv q' (unlinked s) [Node a]" "jobs_of order = [a]"
      using try_last(3) by auto
    then have "mpsc_ok s' [Node a]" using b p try_last(1,2) by (simp add: mpsc_ok_def unlinked_def consumer_ok_def)
    then show ?thesis by (rule exI)
  next
    case (stub_xchg tail prev q')
    then have "Stub \<notin> set order" using c by (simp add: consumer_ok_def)
    from xchg_inv [OF q this] have "queue_inv q' (insert (prev, Stub) (unlinked s)) (order @ [Stub])"
      using stub_xchg(3) by simp
    then have "mpsc_ok s' (order @ [Stub])"
      using c b p q stub_xchg(1,2) by (simp add: mpsc_ok_def unlinked_def consumer_ok_def)
    then show ?thesis by (rule exI)
  next
    case (stub_link tail prev)
    have "(prev, Stub) \<notin> producing s" using p by force
    then have "unlinked s' = unlinked s - {(prev, Stub)}" "(prev, Stub) \<in> unlinked s"
      using stub_link(1,2) by (auto simp: unlinked_def)
    then have "queue_inv (mq s') (unlinked s') order" using link_inv [OF q] stub_link(1) by simp
    then have "mpsc_ok s' order" using c b p stub_link(1,2) by (simp add: mpsc_ok_def consumer_ok_def)
    then show ?thesis by (rule exI)
  next
    case (retry_none tail q')
    then obtain a where "tail = Node a" using c by (cases tail) (auto simp: consumer_ok_def)
    moreover from this have "q' = mq s" using dequeue_retry_inv [OF q] retry_none c by (force simp: consumer_ok_def)
    ultimately have "mpsc_ok s' order" using q b p retry_none(1,2) by (simp add: mpsc_ok_def unlinked_def consumer_ok_def)
    then show ?thesis by (rule exI)
  next
    case (retry_some tail a q')
    then obtain a' where t: "tail = Node a'" "hd order = Node a'" using c by (cases tail) (auto simp: consumer_ok_def)
    from dequeue_retry_inv [OF q t(2)] retry_some(3) t(1)
    obtain rest where "a = a'" "order = Node a # rest" "queue_inv q' (unlinked s) rest" by auto
    then have "mpsc_ok s' rest" using b p retry_some(1,2) by (simp add: mpsc_ok_def unlinked_def consumer_ok_def)
    then show ?thesis by (rule exI)
  qed
qed

lemma reachable_mpsc_ok: "mpsc_reachable s \<Longrightarrow> \<exists>order. mpsc_ok s order"
proof (induction rule: mpsc_reachable.induct)
  case start
  show ?case using mpsc_ok_init by (rule exI)
next
  case (step s s')
  then show ?case using mpsc_step_ok by blast
qed

end
