(* ===== verification/UATypes.thy ===== *)
theory UATypes
  imports CPrelude
begin

text \<open>
  The types of the OPC UA stack that its components share: status codes, and node identifiers with
  their equality, null test and hash from \<open>ua_types.c\<close>.
\<close>

section \<open>Definitions\<close>

type_synonym UA_StatusCode = u32
definition UA_STATUSCODE_GOOD :: UA_StatusCode where "UA_STATUSCODE_GOOD = 0"
definition UA_STATUSCODE_BADINTERNALERROR :: UA_StatusCode where "UA_STATUSCODE_BADINTERNALERROR = 0x80020000"
definition UA_STATUSCODE_BADOUTOFMEMORY :: UA_StatusCode where "UA_STATUSCODE_BADOUTOFMEMORY = 0x80030000"
definition UA_STATUSCODE_BADENCODINGERROR :: UA_StatusCode where "UA_STATUSCODE_BADENCODINGERROR = 0x80060000"
definition UA_STATUSCODE_BADDECODINGERROR :: UA_StatusCode where "UA_STATUSCODE_BADDECODINGERROR = 0x80070000"
definition UA_STATUSCODE_BADENCODINGLIMITSEXCEEDED :: UA_StatusCode where "UA_STATUSCODE_BADENCODINGLIMITSEXCEEDED = 0x80080000"
definition UA_STATUSCODE_BADNODEIDUNKNOWN :: UA_StatusCode where "UA_STATUSCODE_BADNODEIDUNKNOWN = 0x80340000"
definition UA_STATUSCODE_BADNODEIDEXISTS :: UA_StatusCode where "UA_STATUSCODE_BADNODEIDEXISTS = 0x805e0000"

lemmas status_codes = UA_STATUSCODE_GOOD_def UA_STATUSCODE_BADINTERNALERROR_def UA_STATUSCODE_BADOUTOFMEMORY_def
  UA_STATUSCODE_BADENCODINGERROR_def UA_STATUSCODE_BADDECODINGERROR_def UA_STATUSCODE_BADENCODINGLIMITSEXCEEDED_def
  UA_STATUSCODE_BADNODEIDUNKNOWN_def UA_STATUSCODE_BADNODEIDEXISTS_def

text \<open>A string is its bytes; the length is the length of the list.\<close>

definition UA_String_equal :: "bytes \<Rightarrow> bytes \<Rightarrow> bool" where
  "UA_String_equal s1 s2 = (if length s1 \<noteq> length s2 then False else take (length s1) s1 = take (length s1) s2)"

record UA_Guid =
  data1 :: u32
  data2 :: u16
  data3 :: u16
  data4 :: bytes

text \<open>The memory of an identifier, which \<open>memcmp\<close> and the hash read: least significant byte first.\<close>

definition le_bytes :: "nat \<Rightarrow> 'a::len word \<Rightarrow> bytes" where
  "le_bytes n w = map (\<lambda>i. ucast (drop_bit (8 * i) w)) [0..<n]"

definition guid_bytes :: "UA_Guid \<Rightarrow> bytes" where
  "guid_bytes g = le_bytes 4 (data1 g) @ le_bytes 2 (data2 g) @ le_bytes 2 (data3 g) @ data4 g"

definition UA_Guid_equal :: "UA_Guid \<Rightarrow> UA_Guid \<Rightarrow> bool" where
  "UA_Guid_equal g1 g2 = (guid_bytes g1 = guid_bytes g2)"

text \<open>\<open>identifierType\<close> and the union that it selects from.\<close>

datatype 's UA_Identifier_of = NUMERIC u32 | STRING 's | GUID UA_Guid | BYTESTRING 's

record 's UA_NodeId_of =
  namespaceIndex :: u16
  ident :: "'s UA_Identifier_of"

text \<open>Here the strings are their contents; the encoding also tells the pointers of empty strings apart.\<close>

type_synonym UA_NodeId = "bytes UA_NodeId_of"

definition UA_NodeId_isNull :: "UA_NodeId \<Rightarrow> bool" where
  "UA_NodeId_isNull p =
     (if namespaceIndex p \<noteq> 0 then False
      else case ident p of
          NUMERIC n \<Rightarrow> n = 0
        | GUID g \<Rightarrow> data1 g = 0 \<and> data2 g = 0 \<and> data3 g = 0 \<and> list_all (\<lambda>b. b = 0) (take 8 (data4 g))
        | STRING s \<Rightarrow> length s = 0
        | BYTESTRING s \<Rightarrow> length s = 0)"

definition UA_NodeId_equal :: "UA_NodeId \<Rightarrow> UA_NodeId \<Rightarrow> bool" where
  "UA_NodeId_equal n1 n2 =
     (if namespaceIndex n1 \<noteq> namespaceIndex n2 then False
      else case (ident n1, ident n2) of
          (NUMERIC i1, NUMERIC i2) \<Rightarrow> i1 = i2
        | (STRING s1, STRING s2) \<Rightarrow> UA_String_equal s1 s2
        | (GUID g1, GUID g2) \<Rightarrow> UA_Guid_equal g1 g2
        | (BYTESTRING s1, BYTESTRING s2) \<Rightarrow> UA_String_equal s1 s2
        | _ \<Rightarrow> False)"

definition FNV_PRIME_32 :: u32 where "FNV_PRIME_32 = 16777619"

fun fnv32 :: "u32 \<Rightarrow> bytes \<Rightarrow> u32" where
  "fnv32 fnv [] = fnv"
| "fnv32 fnv (b # buf) = fnv32 ((fnv XOR ucast b) * FNV_PRIME_32) buf"

text \<open>The product of a numeric identifier is one of signed 64-bit numbers, whose overflow is undefined.\<close>

definition UA_NodeId_hash :: "UA_NodeId \<Rightarrow> u32 option" where
  "UA_NodeId_hash n = (case ident n of
     NUMERIC i \<Rightarrow>
       (let product = uint i * 2654435761; total = uint (namespaceIndex n) + product
        in if total \<le> 9223372036854775807 then Some (word_of_int total) else None)
   | STRING s \<Rightarrow> Some (fnv32 (ucast (namespaceIndex n)) s)
   | BYTESTRING s \<Rightarrow> Some (fnv32 (ucast (namespaceIndex n)) s)
   | GUID g \<Rightarrow> Some (fnv32 (ucast (namespaceIndex n)) (guid_bytes g)))"

section \<open>Equality\<close>

lemma length_le_bytes [simp]: "length (le_bytes n w) = n"
  by (simp add: le_bytes_def)

lemma le_bytes_inject:
  assumes "LENGTH('a::len) \<le> 8 * n" and "le_bytes n v = le_bytes n w" shows "v = (w :: 'a word)"
proof (rule bit_word_eqI)
  fix k assume k: "k < LENGTH('a)"
  let ?i = "k div 8" and ?j = "k mod 8"
  have i: "?i < n" using k assms(1) by linarith
  have "le_bytes n v ! ?i = le_bytes n w ! ?i" using assms(2) by simp
  then have "bit (ucast (drop_bit (8 * ?i) v) :: u8) ?j = bit (ucast (drop_bit (8 * ?i) w) :: u8) ?j"
    using i by (simp add: le_bytes_def)
  moreover have "bit (ucast (drop_bit (8 * ?i) u) :: u8) ?j = bit u k" for u :: "'a word"
    by (simp add: bit_ucast_iff bit_drop_bit_eq)
  ultimately show "bit v k = bit w k" by simp
qed

lemma String_equal_iff [simp]: "UA_String_equal s1 s2 \<longleftrightarrow> s1 = s2"
  by (auto simp: UA_String_equal_def)

lemma le_bytes_simps [simp]:
  "le_bytes 4 v = le_bytes 4 w \<longleftrightarrow> v = (w :: u32)" "le_bytes 2 v' = le_bytes 2 w' \<longleftrightarrow> v' = (w' :: u16)"
  using le_bytes_inject [of 4 v w] le_bytes_inject [of 2 v' w'] by auto

lemma Guid_equal_iff [simp]: "UA_Guid_equal g1 g2 \<longleftrightarrow> g1 = g2"
  by (cases g1; cases g2) (auto simp: UA_Guid_equal_def guid_bytes_def)

lemma NodeId_equal_iff [simp]: "UA_NodeId_equal n1 n2 \<longleftrightarrow> n1 = n2"
  by (cases n1; cases n2) (auto simp: UA_NodeId_equal_def split: UA_Identifier_of.splits)

lemma hash_defined:
  "(\<And>i. ident n = NUMERIC i \<Longrightarrow> i \<le> 3474701543) \<Longrightarrow> \<exists>h. UA_NodeId_hash n = Some h"
proof -
  assume small: "\<And>i. ident n = NUMERIC i \<Longrightarrow> i \<le> 3474701543"
  have "uint (namespaceIndex n) < 65536" using uint_lt2p [of "namespaceIndex n"] by simp
  moreover have "uint i \<le> 3474701543" if "ident n = NUMERIC i" for i
    using small [OF that] by (simp add: word_le_def)
  ultimately show ?thesis
    by (cases "ident n") (force simp: UA_NodeId_hash_def Let_def)+
qed

end
