(* ===== verification/UATimer.thy ===== *)
theory UATimer
  imports ChangeQueue UATypes "HOL-Library.Multiset"
begin

text \<open>
  The repeated jobs of the OPC UA stack, \<open>ua_timer.c\<close>: a list of jobs sorted by the time of their next
  execution, and the queue of changes. Times are signed 64-bit numbers of 100 ns, an addition
  that overflows is undefined. The identifiers and the jobs themselves are type parameters.
\<close>

section \<open>Definitions\<close>

definition UA_INT64_MAX :: int where "UA_INT64_MAX = 9223372036854775807"
definition UA_INT64_MIN :: int where "UA_INT64_MIN = -9223372036854775808"
definition UA_MSEC_TO_DATETIME :: int where "UA_MSEC_TO_DATETIME = 10000"
definition UA_SEC_TO_DATETIME :: int where "UA_SEC_TO_DATETIME = 10000000"


definition c_int64 :: "int \<Rightarrow> int option" where
  "c_int64 x = (if UA_INT64_MIN \<le> x \<and> x \<le> UA_INT64_MAX then Some x else None)"

record ('g, 'j) repeated_job =
  nextTime :: int
  job_interval :: "64 word"
  job_id :: 'g
  job_of :: 'j

text \<open>The queue of changes and the memory of the changes in it.\<close>

record ('g, 'j) change_box =
  change_at :: "nat \<Rightarrow> ('g, 'j) repeated_job"
  change_queue :: changes

record ('g, 'j) jobs_list =
  repeatedJobs :: "('g, 'j) repeated_job list"
  changes_of :: "('g, 'j) change_box"

type_synonym ('g, 'j, 's) job_callback = "'j \<Rightarrow> 's \<times> ('g, 'j) change_box \<Rightarrow> 's \<times> ('g, 'j) change_box"

definition UA_RepeatedJobsList_init :: "(nat \<Rightarrow> ('g, 'j) repeated_job) \<Rightarrow> ('g, 'j) jobs_list" where
  "UA_RepeatedJobsList_init junk = \<lparr>repeatedJobs = [], changes_of = \<lparr>change_at = junk, change_queue = changes_init\<rparr>\<rparr>"

definition enqueue_job :: "('g, 'j) change_box \<Rightarrow> nat \<Rightarrow> ('g, 'j) repeated_job \<Rightarrow> ('g, 'j) change_box" where
  "enqueue_job box a rj =
     box\<lparr>change_at := (change_at box)(a := rj), change_queue := enqueueChange (change_queue box) (Node a)\<rparr>"

text \<open>\<open>mem\<close> is what \<open>malloc\<close> returns; \<open>guid\<close> the random identifier and \<open>now\<close> the monotonic clock.\<close>

definition UA_RepeatedJobsList_addRepeatedJob ::
    "nat option \<Rightarrow> 'g \<Rightarrow> int \<Rightarrow> 'j \<Rightarrow> u32 \<Rightarrow> ('g, 'j) change_box \<Rightarrow> (UA_StatusCode \<times> 'g option \<times> ('g, 'j) change_box) option" where
  "UA_RepeatedJobsList_addRepeatedJob mem guid now job ms box =
     (if ms < 5 then Some (UA_STATUSCODE_BADINTERNALERROR, None, box)
      else case mem of
          None \<Rightarrow> Some (UA_STATUSCODE_BADOUTOFMEMORY, None, box)
        | Some a \<Rightarrow> do {
            let interval = ucast ms * word_of_int UA_MSEC_TO_DATETIME;
            next \<leftarrow> c_int64 (now + sint interval);
            Some (UA_STATUSCODE_GOOD, Some guid,
              enqueue_job box a \<lparr>nextTime = next, job_interval = interval, job_id = guid, job_of = job\<rparr>) })"

text \<open>The loop of \<open>addRepeatedJob\<close> that looks for the last entry before the job and adjusts its time.\<close>

fun insert_job :: "('g, 'j) repeated_job \<Rightarrow> ('g, 'j) repeated_job list \<Rightarrow> ('g, 'j) repeated_job list option" where
  "insert_job rj [] = Some [rj]"
| "insert_job rj (tmpRj # next) =
     (if nextTime tmpRj \<ge> nextTime rj then Some (rj # tmpRj # next)
      else do {
        rj \<leftarrow> (if job_interval tmpRj = job_interval rj
               then do { lower \<leftarrow> c_int64 (nextTime rj - UA_SEC_TO_DATETIME);
                         Some (if nextTime tmpRj > lower then rj\<lparr>nextTime := nextTime tmpRj\<rparr> else rj) }
               else Some rj);
        next \<leftarrow> insert_job rj next;
        Some (tmpRj # next) })"

definition addRepeatedJob ::
    "('g, 'j) repeated_job list \<Rightarrow> ('g, 'j) repeated_job \<Rightarrow> int \<Rightarrow> ('g, 'j) repeated_job list option" where
  "addRepeatedJob jobs rj nowMonotonic =
     do { latest \<leftarrow> c_int64 (nowMonotonic + sint (job_interval rj)); insert_job (rj\<lparr>nextTime := latest\<rparr>) jobs }"

text \<open>\<open>junk\<close> is what the new memory holds.\<close>

definition UA_RepeatedJobsList_removeRepeatedJob ::
    "nat option \<Rightarrow> ('g, 'j) repeated_job \<Rightarrow> 'g \<Rightarrow> ('g, 'j) change_box \<Rightarrow> UA_StatusCode \<times> ('g, 'j) change_box" where
  "UA_RepeatedJobsList_removeRepeatedJob mem junk jobId box =
     (case mem of
        None \<Rightarrow> (UA_STATUSCODE_BADOUTOFMEMORY, box)
      | Some a \<Rightarrow> (UA_STATUSCODE_GOOD, enqueue_job box a (junk\<lparr>job_id := jobId, nextTime := UA_INT64_MAX\<rparr>)))"

fun removeRepeatedJob :: "('g, 'j) repeated_job list \<Rightarrow> 'g \<Rightarrow> ('g, 'j) repeated_job list" where
  "removeRepeatedJob [] jobId = []"
| "removeRepeatedJob (rj # next) jobId = (if jobId = job_id rj then next else rj # removeRepeatedJob next jobId)"

partial_function (option) processChanges :: "int \<Rightarrow> ('g, 'j) jobs_list \<Rightarrow> ('g, 'j) jobs_list option" where
  "processChanges now rjl =
     (let box = changes_of rjl
      in case dequeueChange (change_queue box) of
          (None, q) \<Rightarrow> Some (rjl\<lparr>changes_of := box\<lparr>change_queue := q\<rparr>\<rparr>)
        | (Some n, q) \<Rightarrow>
            (case n of
               Stub \<Rightarrow> None
             | Node a \<Rightarrow>
                 (let change = change_at box a; rjl = rjl\<lparr>changes_of := box\<lparr>change_queue := q\<rparr>\<rparr>
                  in if nextTime change < UA_INT64_MAX
                     then do { jobs \<leftarrow> addRepeatedJob (repeatedJobs rjl) change now;
                               processChanges now (rjl\<lparr>repeatedJobs := jobs\<rparr>) }
                     else processChanges now
                            (rjl\<lparr>repeatedJobs := removeRepeatedJob (repeatedJobs rjl) (job_id change)\<rparr>))))"

text \<open>\<open>SLIST_INSERT_AFTER\<close> in a list whose head is the local entry \<open>tmp_first\<close>: before position \<open>k\<close>.\<close>

definition insert_at :: "nat \<Rightarrow> 'a \<Rightarrow> 'a list \<Rightarrow> 'a list" where
  "insert_at k x xs = take k xs @ x # drop k xs"

definition rescheduled :: "int \<Rightarrow> ('g, 'j) repeated_job \<Rightarrow> int \<Rightarrow> ('g, 'j) repeated_job" where
  "rescheduled now rj next = rj\<lparr>nextTime := (if next < now then now + 1 else next)\<rparr>"

text \<open>The loop over the jobs to execute now. \<open>prev\<close> is the position of \<open>last_dispatched\<close> in the new list, \<open>None\<close>
  for \<open>tmp_first\<close>, whose time is \<open>now - 1\<close>.\<close>

fun dispatch_loop ::
    "('g, 'j, 's) job_callback \<Rightarrow> int \<Rightarrow> nat option \<Rightarrow> ('g, 'j) repeated_job list \<Rightarrow> ('g, 'j) repeated_job list \<Rightarrow>
     's \<times> ('g, 'j) change_box \<Rightarrow> (('g, 'j) repeated_job list \<times> 's \<times> ('g, 'j) change_box) option" where
  "dispatch_loop cb now prev [] xs w = Some (xs, w)"
| "dispatch_loop cb now prev (rj # executedNow) xs w =
     do { let w = cb (job_of rj) w;
          next \<leftarrow> c_int64 (nextTime rj + sint (job_interval rj));
          _ \<leftarrow> (if next < now then c_int64 (now + 1) else Some 0);
          let rj = rescheduled now rj next;
          let lastTime = (case prev of None \<Rightarrow> now - 1 | Some i \<Rightarrow> nextTime (xs ! i));
          if lastTime = nextTime rj
          then (case prev of
              None \<Rightarrow> None
            | Some i \<Rightarrow> dispatch_loop cb now prev executedNow (insert_at (i + 1) rj xs) w)
          else (let k = length (takeWhile (\<lambda>n. nextTime n < nextTime rj) xs)
                in dispatch_loop cb now (Some k) executedNow (insert_at k rj xs) w) }"

text \<open>The result is the returned time, the value written to \<open>dispatched\<close> if any, and the new state. Reading
  the time of the first job of an empty list is a read through NULL.\<close>

definition UA_RepeatedJobsList_process ::
    "('g, 'j, 's) job_callback \<Rightarrow> int \<Rightarrow> 's \<Rightarrow> ('g, 'j) jobs_list \<Rightarrow> (int \<times> bool option \<times> 's \<times> ('g, 'j) jobs_list) option" where
  "UA_RepeatedJobsList_process cb now s rjl =
     do { rjl \<leftarrow> processChanges now rjl;
          let executedNow = takeWhile (\<lambda>j. nextTime j \<le> now) (repeatedJobs rjl);
          let firstAfter = dropWhile (\<lambda>j. nextTime j \<le> now) (repeatedJobs rjl);
          if executedNow = []
          then Some (case firstAfter of [] \<Rightarrow> UA_INT64_MAX | j # _ \<Rightarrow> nextTime j, None, s, rjl)
          else do {
            _ \<leftarrow> c_int64 (now - 1);
            (jobs, s, box) \<leftarrow> dispatch_loop cb now None executedNow firstAfter (s, changes_of rjl);
            rjl \<leftarrow> processChanges now (rjl\<lparr>repeatedJobs := jobs, changes_of := box\<rparr>);
            (case repeatedJobs rjl of
               [] \<Rightarrow> None
             | j # _ \<Rightarrow> Some (nextTime j, Some True, s, rjl)) } }"

definition UA_RepeatedJobsList_deleteMembers :: "('g, 'j) jobs_list \<Rightarrow> ('g, 'j) jobs_list option" where
  "UA_RepeatedJobsList_deleteMembers rjl = do { rjl \<leftarrow> processChanges 0 rjl; Some (rjl\<lparr>repeatedJobs := []\<rparr>) }"

section \<open>Insertion and removal\<close>

definition by_time :: "('g, 'j) repeated_job list \<Rightarrow> bool" where
  "by_time jobs \<longleftrightarrow> sorted (map nextTime jobs)"

lemma c_int64_Some [simp]: "UA_INT64_MIN \<le> x \<Longrightarrow> x \<le> UA_INT64_MAX \<Longrightarrow> c_int64 x = Some x"
  by (simp add: c_int64_def)

lemma c_int64_SomeD: "c_int64 x = Some y \<Longrightarrow> y = x"
  by (simp add: c_int64_def split: if_splits)

text \<open>The job goes in with a time less than a second early, and the list stays sorted.\<close>

lemma insert_job_sorted:
  assumes "by_time jobs" and "UA_INT64_MIN + UA_SEC_TO_DATETIME \<le> nextTime rj" and "nextTime rj \<le> UA_INT64_MAX"
  shows "\<exists>jobs' t. insert_job rj jobs = Some jobs' \<and> by_time jobs' \<and> nextTime rj - UA_SEC_TO_DATETIME < t \<and> t \<le> nextTime rj \<and>
     (t = nextTime rj \<or> t \<in> nextTime ` set jobs) \<and> mset jobs' = add_mset (rj\<lparr>nextTime := t\<rparr>) (mset jobs)"
  using assms
proof (induction rj jobs rule: insert_job.induct)
  case (1 rj)
  show ?case by (intro exI [of _ "[rj]"] exI [of _ "nextTime rj"]) (simp add: by_time_def UA_SEC_TO_DATETIME_def)
next
  case (2 rj tmp ns)
  have ns: "by_time ns" "\<forall>x\<in>set ns. nextTime tmp \<le> nextTime x" using 2(2) by (simp_all add: by_time_def)
  let ?lower = "nextTime rj - UA_SEC_TO_DATETIME"
  have c: "c_int64 ?lower = Some ?lower" using 2(3,4) by (simp add: UA_SEC_TO_DATETIME_def)
  consider "nextTime rj \<le> nextTime tmp"
    | "nextTime tmp < nextTime rj" "job_interval tmp = job_interval rj" "?lower < nextTime tmp"
    | "nextTime tmp < nextTime rj" "job_interval tmp = job_interval rj \<longrightarrow> nextTime tmp \<le> ?lower" by linarith
  then show ?case
  proof cases
    case 1
    then show ?thesis using 2(2)
      by (intro exI [of _ "rj # tmp # ns"] exI [of _ "nextTime rj"]) (auto simp: by_time_def UA_SEC_TO_DATETIME_def)
  next
    case now: 2
    let ?rj = "rj\<lparr>nextTime := nextTime tmp\<rparr>"
    have "insert_job ?rj ns = Some (?rj # ns)" using ns(2) by (cases ns) auto
    then show ?thesis using now c 2(2)
      by (intro exI [of _ "tmp # ?rj # ns"] exI [of _ "nextTime tmp"]) (auto simp: by_time_def)
  next
    case 3
    have step: "(if job_interval tmp = job_interval rj
        then do { lower \<leftarrow> c_int64 ?lower; Some (if nextTime tmp > lower then rj\<lparr>nextTime := nextTime tmp\<rparr> else rj) }
        else Some rj) = Some rj" using 3 c by auto
    obtain jobs' t where *: "insert_job rj ns = Some jobs'" "by_time jobs'" "?lower < t" "t \<le> nextTime rj"
      "t = nextTime rj \<or> t \<in> nextTime ` set ns" "mset jobs' = add_mset (rj\<lparr>nextTime := t\<rparr>) (mset ns)"
      using 2(1) [OF _ step] 3(1) ns(1) 2(3,4) by auto
    have "set jobs' = insert (rj\<lparr>nextTime := t\<rparr>) (set ns)" using arg_cong [OF *(6), of set_mset] by simp
    then have "by_time (tmp # jobs')" using * ns(2) 3(1) by (auto simp: by_time_def)
    moreover have "insert_job rj (tmp # ns) = Some (tmp # jobs')" using 3 *(1) c by (auto split: if_splits)
    ultimately show ?thesis using * by (intro exI [of _ "tmp # jobs'"] exI [of _ t]) auto
  qed
qed

lemma remove_job_sorted:
  fixes jobs :: "('g, 'j) repeated_job list" and g :: 'g
  shows "by_time jobs \<Longrightarrow> by_time (removeRepeatedJob jobs g)"
proof -
  have sub: "set (removeRepeatedJob jobs g) \<subseteq> set jobs" for jobs :: "('g, 'j) repeated_job list" and g
    by (induction jobs g rule: removeRepeatedJob.induct) auto
  show "by_time jobs \<Longrightarrow> by_time (removeRepeatedJob jobs g)"
  proof (induction jobs g rule: removeRepeatedJob.induct)
    case (2 rj ns g)
    then show ?case using sub [of ns] by (auto simp: by_time_def)
  qed (simp add: by_time_def)
qed

lemma remove_job_ids:
  "distinct (map job_id jobs) \<Longrightarrow> removeRepeatedJob jobs g = filter (\<lambda>rj. job_id rj \<noteq> g) jobs"
proof (induction jobs g rule: removeRepeatedJob.induct)
  case (2 rj ns g)
  have "job_id x \<noteq> job_id rj" if "x \<in> set ns" for x
  proof
    assume "job_id x = job_id rj"
    then have "job_id rj \<in> job_id ` set ns" using that by (metis image_eqI)
    then show False using 2(2) by simp
  qed
  then have "filter (\<lambda>x. job_id x \<noteq> job_id rj) ns = ns" by (intro filter_True) blast
  then show ?case using 2 by auto
qed simp

section \<open>The queue of changes\<close>

fun apply_changes :: "int \<Rightarrow> ('g, 'j) repeated_job list \<Rightarrow> ('g, 'j) repeated_job list \<Rightarrow> ('g, 'j) repeated_job list option" where
  "apply_changes now [] jobs = Some jobs"
| "apply_changes now (c # cs) jobs =
     (if nextTime c < UA_INT64_MAX then do { jobs \<leftarrow> addRepeatedJob jobs c now; apply_changes now cs jobs }
      else apply_changes now cs (removeRepeatedJob jobs (job_id c)))"

text \<open>The queue holds these changes, and no thread is in the middle of adding one.\<close>

definition queued :: "('g, 'j) change_box \<Rightarrow> ('g, 'j) repeated_job list \<Rightarrow> bool" where
  "queued box cs \<longleftrightarrow> (\<exists>order. queue_inv (change_queue box) {} order \<and> cs = map (change_at box) (jobs_of order))"

lemma queued_init: "queued (changes_of (UA_RepeatedJobsList_init junk)) []"
  using init_inv by (auto simp: queued_def UA_RepeatedJobsList_init_def intro!: exI [of _ "[Stub]"])

text \<open>All changes are applied, in the order in which they were queued, and the queue is empty.\<close>

lemma processChanges_all:
  assumes "queued (changes_of rjl) cs"
  shows "\<exists>box. queued box [] \<and>
    processChanges now rjl = map_option (\<lambda>jobs. rjl\<lparr>repeatedJobs := jobs, changes_of := box\<rparr>) (apply_changes now cs (repeatedJobs rjl))"
proof -
  obtain order where "queue_inv (change_queue (changes_of rjl)) {} order" "cs = map (change_at (changes_of rjl)) (jobs_of order)"
    using assms by (auto simp: queued_def)
  then show ?thesis
  proof (induction "length (jobs_of order)" arbitrary: rjl order cs)
    case 0
    obtain r q where d: "dequeueChange (change_queue (changes_of rjl)) = (r, q)" by fastforce
    have "r = None" "\<exists>order'. queue_inv q {} order' \<and> jobs_of order' = []"
      using dequeueChange_inv [OF 0(2)] 0(1) d by (auto split: option.splits)
    then show ?case
      using d 0 by (intro exI [of _ "changes_of rjl\<lparr>change_queue := q\<rparr>"]) (auto simp: processChanges.simps [of now rjl] queued_def)
  next
    case (Suc n)
    obtain r q where d: "dequeueChange (change_queue (changes_of rjl)) = (r, q)" by fastforce
    obtain a order' where r: "r = Some (Node a)" and q: "queue_inv q {} order'" "jobs_of order = a # jobs_of order'"
      using dequeueChange_inv [OF Suc(3)] Suc(2) d by (auto split: option.splits)
    let ?box = "changes_of rjl\<lparr>change_queue := q\<rparr>" and ?c = "change_at (changes_of rjl) a"
    have IH: "\<exists>box. queued box [] \<and> processChanges now (rjl\<lparr>changes_of := ?box, repeatedJobs := jobs\<rparr>) =
        map_option (\<lambda>jobs. rjl\<lparr>repeatedJobs := jobs, changes_of := box\<rparr>) (apply_changes now (map (change_at (changes_of rjl)) (jobs_of order')) jobs)" for jobs
      using Suc(1) [of order' "rjl\<lparr>changes_of := ?box, repeatedJobs := jobs\<rparr>"] Suc(2) q by simp
    have cs: "cs = ?c # map (change_at (changes_of rjl)) (jobs_of order')" using Suc(4) q by simp
    have empty: "\<exists>box. queued box []" using queued_init by blast
    show ?case
    proof (cases "nextTime ?c < UA_INT64_MAX")
      case True
      then show ?thesis using d r IH empty
        by (cases "addRepeatedJob (repeatedJobs rjl) ?c now") (auto simp: processChanges.simps [of now rjl] cs)
    next
      case False
      then show ?thesis using d r IH [of "removeRepeatedJob (repeatedJobs rjl) (job_id ?c)"]
        by (auto simp: processChanges.simps [of now rjl] cs Let_def)
    qed
  qed
qed

lemma queued_enqueue:
  assumes "queue_inv (change_queue box) {} order" and "Node a \<notin> set order"
  shows "queued (enqueue_job box a rj) (map (change_at box) (jobs_of order) @ [rj])"
proof -
  have "queue_inv (change_queue (enqueue_job box a rj)) {} (order @ [Node a])"
    using enqueueChange_inv [OF assms] by (simp add: enqueue_job_def)
  moreover have "a \<notin> set (jobs_of order)" using assms(2) by (simp add: set_jobs_of)
  then have "map (change_at (enqueue_job box a rj)) (jobs_of (order @ [Node a])) = map (change_at box) (jobs_of order) @ [rj]"
    by (auto simp: enqueue_job_def)
  ultimately show ?thesis unfolding queued_def by metis
qed

section \<open>Dispatch\<close>

text \<open>The next time of every job that is executed fits its type.\<close>

definition in_time :: "int \<Rightarrow> ('g, 'j) repeated_job \<Rightarrow> bool" where
  "in_time now rj \<longleftrightarrow> UA_INT64_MIN \<le> nextTime rj \<and> 0 \<le> sint (job_interval rj) \<and>
     nextTime rj + sint (job_interval rj) \<le> UA_INT64_MAX"

definition next_run :: "int \<Rightarrow> ('g, 'j) repeated_job \<Rightarrow> ('g, 'j) repeated_job" where
  "next_run now rj = rescheduled now rj (nextTime rj + sint (job_interval rj))"

lemma next_run_later: "now \<le> nextTime (next_run now rj)"
  by (simp add: next_run_def rescheduled_def)

lemma mset_insert_at [simp]: "mset (insert_at k x xs) = add_mset x (mset xs)"
proof -
  have "mset xs = mset (take k xs) + mset (drop k xs)" by (metis append_take_drop_id mset_append)
  then show ?thesis by (simp add: insert_at_def)
qed

lemma set_insert_at [simp]: "set (insert_at k x xs) = insert x (set xs)"
proof -
  have "set xs = set (take k xs) \<union> set (drop k xs)" by (metis append_take_drop_id set_append)
  then show ?thesis by (auto simp: insert_at_def)
qed

lemma insert_at_nth: "k \<le> length xs \<Longrightarrow> insert_at k x xs ! k = x"
  by (simp add: insert_at_def nth_append)

lemma length_insert_at [simp]: "length (insert_at k x xs) = Suc (length xs)"
  by (simp add: insert_at_def)

lemma insert_at_sorted:
  assumes "by_time xs" and "\<forall>y\<in>set (take k xs). nextTime y \<le> nextTime x" and "\<forall>y\<in>set (drop k xs). nextTime x \<le> nextTime y"
  shows "by_time (insert_at k x xs)"
proof -
  have "sorted (map nextTime (take k xs @ drop k xs))" using assms(1) by (simp add: by_time_def)
  then have "sorted (map nextTime (take k xs))" "sorted (map nextTime (drop k xs))"
    "\<forall>y\<in>set (take k xs). \<forall>z\<in>set (drop k xs). nextTime y \<le> nextTime z"
    unfolding map_append sorted_append by auto
  then show ?thesis using assms by (auto simp: by_time_def insert_at_def sorted_append)
qed

lemma dropWhile_time:
  "by_time xs \<Longrightarrow> y \<in> set (dropWhile (\<lambda>n. nextTime n < t) xs) \<Longrightarrow> t \<le> nextTime y"
  by (induction xs) (auto simp: by_time_def split: if_splits)

lemma insert_at_search:
  assumes "by_time xs" and "k = length (takeWhile (\<lambda>n. nextTime n < nextTime x) xs)"
  shows "by_time (insert_at k x xs)"
proof (rule insert_at_sorted [OF assms(1)])
  show "\<forall>y\<in>set (take k xs). nextTime y \<le> nextTime x"
    using assms(2) by (auto simp flip: takeWhile_eq_take dest: set_takeWhileD)
  have "\<forall>y\<in>set (dropWhile (\<lambda>n. nextTime n < nextTime x) xs). nextTime x \<le> nextTime y"
    using dropWhile_time [OF assms(1)] by blast
  then show "\<forall>y\<in>set (drop k xs). nextTime x \<le> nextTime y"
    by (simp add: assms(2) flip: dropWhile_eq_drop)
qed

lemma insert_at_batch:
  assumes "by_time xs" and "i < length xs" and "nextTime (xs ! i) = nextTime x"
  shows "by_time (insert_at (i + 1) x xs)"
proof (rule insert_at_sorted [OF assms(1)])
  have le: "nextTime (xs ! a) \<le> nextTime (xs ! b)" if "a \<le> b" "b < length xs" for a b
    using that assms(1) by (simp add: by_time_def sorted_iff_nth_mono)
  show "\<forall>y\<in>set (take (i + 1) xs). nextTime y \<le> nextTime x"
    using le [of _ i] assms(2,3) by (auto simp: in_set_conv_nth)
  show "\<forall>y\<in>set (drop (i + 1) xs). nextTime x \<le> nextTime y"
    using le [of i] assms(2,3) by (auto simp: in_set_conv_nth)
qed

text \<open>Every job is executed once, in the order of the list, and goes back at its next time.\<close>

lemma dispatch_loop_all:
  assumes "by_time xs" and "\<forall>x\<in>set xs. now \<le> nextTime x" and "list_all (in_time now) ex"
    and "UA_INT64_MIN < now" and "now < UA_INT64_MAX" and "\<forall>i. prev = Some i \<longrightarrow> i < length xs"
  shows "\<exists>xs'. dispatch_loop cb now prev ex xs w = Some (xs', fold (\<lambda>rj. cb (job_of rj)) ex w) \<and> by_time xs' \<and>
    mset xs' = mset (map (next_run now) ex) + mset xs \<and> (\<forall>x\<in>set xs'. now \<le> nextTime x)"
  using assms
proof (induction ex arbitrary: prev xs w)
  case (Cons rj ex)
  let ?next = "nextTime rj + sint (job_interval rj)" and ?rj = "next_run now rj"
  have c: "c_int64 ?next = Some ?next" "c_int64 (now + 1) = Some (now + 1)"
    using Cons(4-6) by (simp_all add: in_time_def)
  have rj: "rescheduled now rj ?next = ?rj" by (simp add: next_run_def)
  have late: "now - 1 \<noteq> nextTime ?rj" using next_run_later [of now rj] by linarith
  define k where "k = length (takeWhile (\<lambda>n. nextTime n < nextTime ?rj) xs)"
  have k: "k \<le> length xs" unfolding k_def by (rule length_takeWhile_le)
  have IH: "\<exists>xs'. dispatch_loop cb now (Some j) ex (insert_at i ?rj xs) (cb (job_of rj) w) =
      Some (xs', fold (\<lambda>rj. cb (job_of rj)) ex (cb (job_of rj) w)) \<and> by_time xs' \<and>
      mset xs' = mset (map (next_run now) ex) + mset (insert_at i ?rj xs) \<and> (\<forall>x\<in>set xs'. now \<le> nextTime x)"
    if "by_time (insert_at i ?rj xs)" "j \<le> length xs" for i j
    using Cons.IH [of "insert_at i ?rj xs" "Some j" "cb (job_of rj) w"] that Cons(3-6) next_run_later [of now rj] by simp
  show ?case
  proof (cases "\<exists>i. prev = Some i \<and> nextTime (xs ! i) = nextTime ?rj")
    case True
    then obtain i where i: "prev = Some i" "nextTime (xs ! i) = nextTime ?rj" by blast
    have "dispatch_loop cb now prev (rj # ex) xs w = dispatch_loop cb now (Some i) ex (insert_at (i + 1) ?rj xs) (cb (job_of rj) w)"
      using i c rj by simp
    moreover have "by_time (insert_at (i + 1) ?rj xs)" using i Cons(2,7) by (intro insert_at_batch) simp_all
    moreover have "i \<le> length xs" using i Cons(7) by simp
    ultimately show ?thesis using IH [of "i + 1" i] by simp
  next
    case False
    have "dispatch_loop cb now prev (rj # ex) xs w = dispatch_loop cb now (Some k) ex (insert_at k ?rj xs) (cb (job_of rj) w)"
      using False c rj late by (auto simp: k_def Let_def split: option.splits)
    moreover have "by_time (insert_at k ?rj xs)" by (rule insert_at_search [OF Cons(2) k_def])
    ultimately show ?thesis using IH [OF _ k, of k] by simp
  qed
qed simp

end
