(* ===== verification/TimerProperties.thy ===== *)
theory TimerProperties
  imports UATimer
begin

text \<open>
  The properties of the repeated jobs and of their queue of changes.
\<close>

section \<open>The queue\<close>

text \<open>C24: However the threads interleave, \<open>dequeueChange\<close> returns the changes in the order in which
  their threads exchanged the head, each of them once: what was begun is what was taken followed by what waits.\<close>

theorem queue_is_fifo:
  assumes "mpsc_reachable s"
  shows "\<exists>order. mpsc_ok s order \<and> begun s = taken s @ jobs_of order"
  using reachable_mpsc_ok [OF assms] by (auto simp: mpsc_ok_def)

text \<open>Two threads begin, the second one finishes first, and the consumer gets nothing until the first one has
  finished.\<close>

definition begun_twice :: mpsc where
  "begun_twice = \<lparr>mq = \<lparr>links = (\<lambda>n. None)(Stub := None, Node 1 := None, Node 2 := None), changes_head = Node 2, changes_tail = Stub\<rparr>,
     producing = {(Node 1, Node 2), (Stub, Node 1)}, consuming = Idle, begun = [1, 2], taken = []\<rparr>"

lemma begun_twice_reachable: "mpsc_reachable begun_twice"
proof -
  let ?s1 = "mpsc_init\<lparr>mq := snd (enqueue_xchg (mq mpsc_init) (Node 1)), producing := insert (Stub, Node 1) (producing mpsc_init),
    begun := begun mpsc_init @ [1]\<rparr>"
  have s1: "mpsc_step mpsc_init ?s1"
    by (rule begin_enqueue) (simp_all add: mpsc_init_def enqueue_xchg_def changes_init_def)
  have "mpsc_step ?s1 (?s1\<lparr>mq := snd (enqueue_xchg (mq ?s1) (Node 2)), producing := insert (Node 1, Node 2) (producing ?s1),
    begun := begun ?s1 @ [2]\<rparr>)"
    by (rule begin_enqueue) (simp_all add: mpsc_init_def enqueue_xchg_def changes_init_def)
  moreover have "?s1\<lparr>mq := snd (enqueue_xchg (mq ?s1) (Node 2)), producing := insert (Node 1, Node 2) (producing ?s1),
    begun := begun ?s1 @ [2]\<rparr> = begun_twice"
    by (simp add: begun_twice_def mpsc_init_def enqueue_xchg_def changes_init_def)
  ultimately show ?thesis
    by (metis mpsc_reachable.step [OF mpsc_reachable.step [OF mpsc_reachable.start s1]])
qed

theorem queue_is_fifo_witness:
  "\<exists>order. mpsc_ok begun_twice order \<and> jobs_of order = [1, 2] \<and> dequeue_try (mq begun_twice) = (Returned None, mq begun_twice)"
  using queue_is_fifo [OF begun_twice_reachable] by (auto simp: begun_twice_def dequeue_try_def)

section \<open>Jobs\<close>

text \<open>\<open>addRepeatedJob\<close> puts the job into the sorted list, at most a second before \<open>now + interval\<close> and
  never after it; all other jobs stay as they are and the list stays sorted.\<close>

theorem added_job:
  assumes "by_time jobs" and "UA_INT64_MIN + UA_SEC_TO_DATETIME \<le> now + sint (job_interval rj)"
    and "now + sint (job_interval rj) \<le> UA_INT64_MAX"
  shows "\<exists>jobs' t. addRepeatedJob jobs rj now = Some jobs' \<and> by_time jobs' \<and>
    now + sint (job_interval rj) - UA_SEC_TO_DATETIME < t \<and> t \<le> now + sint (job_interval rj) \<and>
    mset jobs' = add_mset (rj\<lparr>nextTime := t\<rparr>) (mset jobs)"
proof -
  have "c_int64 (now + sint (job_interval rj)) = Some (now + sint (job_interval rj))"
    using assms(2,3) by (simp add: UA_SEC_TO_DATETIME_def)
  then show ?thesis
    using insert_job_sorted [OF assms(1), of "rj\<lparr>nextTime := now + sint (job_interval rj)\<rparr>"] assms(2,3)
    by (auto simp: addRepeatedJob_def)
qed

definition sample_job :: "int \<Rightarrow> nat \<Rightarrow> (nat, nat) repeated_job" where
  "sample_job t g = \<lparr>nextTime = t, job_interval = 50000000, job_id = g, job_of = g\<rparr>"

theorem added_job_witness:
  "\<exists>jobs' t. addRepeatedJob [sample_job 45000000 1, sample_job 90000000 2] (sample_job 0 3) 1000000 = Some jobs' \<and> by_time jobs' \<and>
    41000000 < t \<and> t \<le> 51000000 \<and> sample_job t 3 \<in># mset jobs'"
proof -
  let ?jobs = "[sample_job 45000000 1, sample_job 90000000 2]"
  have "by_time ?jobs" "job_interval (sample_job 0 3) = 50000000" by (simp_all add: by_time_def sample_job_def)
  then obtain jobs' t where *: "addRepeatedJob ?jobs (sample_job 0 3) 1000000 = Some jobs'" "by_time jobs'" "41000000 < t" "t \<le> 51000000"
    "mset jobs' = add_mset ((sample_job 0 3)\<lparr>nextTime := t\<rparr>) (mset ?jobs)"
    using added_job [of ?jobs 1000000 "sample_job 0 3"]
    by (auto simp: UA_INT64_MIN_def UA_INT64_MAX_def UA_SEC_TO_DATETIME_def)
  moreover have "sample_job t 3 \<in># mset jobs'" unfolding *(5) by (simp add: sample_job_def)
  ultimately show ?thesis by blast
qed

text \<open>C26: \<open>processChanges\<close> applies all queued changes in their order, empties the queue and keeps the list sorted.\<close>

theorem changes_keep_order:
  assumes "queued (changes_of rjl) cs" and "by_time (repeatedJobs rjl)"
    and "list_all (\<lambda>c. UA_INT64_MIN + UA_SEC_TO_DATETIME \<le> now + sint (job_interval c) \<and> now + sint (job_interval c) \<le> UA_INT64_MAX) cs"
  shows "\<exists>rjl'. processChanges now rjl = Some rjl' \<and> apply_changes now cs (repeatedJobs rjl) = Some (repeatedJobs rjl') \<and>
    by_time (repeatedJobs rjl') \<and> queued (changes_of rjl') []"
proof -
  have "\<exists>jobs'. apply_changes now cs jobs = Some jobs' \<and> by_time jobs'" if "by_time jobs" for jobs
    using that assms(3)
  proof (induction cs arbitrary: jobs)
    case (Cons c cs)
    have c: "c_int64 (now + sint (job_interval c)) = Some (now + sint (job_interval c))"
      using Cons(3) by (simp add: UA_SEC_TO_DATETIME_def)
    obtain jobs' where "addRepeatedJob jobs c now = Some jobs'" "by_time jobs'"
      using insert_job_sorted [OF Cons(2), of "c\<lparr>nextTime := now + sint (job_interval c)\<rparr>"] Cons(3) c
      by (auto simp: addRepeatedJob_def)
    then show ?case using Cons remove_job_sorted [OF Cons(2)] by simp
  qed simp
  then obtain jobs' where "apply_changes now cs (repeatedJobs rjl) = Some jobs'" "by_time jobs'" using assms(2) by blast
  then show ?thesis using processChanges_all [OF assms(1), of now] by auto
qed

text \<open>A list with one job and a queue with a second job and the removal of the first.\<close>

definition sample_box :: "(nat, nat) change_box" where
  "sample_box = enqueue_job (enqueue_job (changes_of (UA_RepeatedJobsList_init (\<lambda>a. sample_job 0 0))) 4 (sample_job 0 2)) 5
     (sample_job UA_INT64_MAX 1)"

lemma sample_queued: "queued sample_box [sample_job 0 2, sample_job UA_INT64_MAX 1]"
proof -
  let ?box = "enqueue_job (changes_of (UA_RepeatedJobsList_init (\<lambda>a. sample_job 0 0))) 4 (sample_job 0 2)"
  have "queue_inv (change_queue ?box) {} [Stub, Node 4]"
    using enqueueChange_inv [OF init_inv, of "Node 4"] by (simp add: enqueue_job_def UA_RepeatedJobsList_init_def)
  from queued_enqueue [OF this, of 5 "sample_job UA_INT64_MAX 1"] show ?thesis
    by (simp add: sample_box_def) (simp add: enqueue_job_def)
qed

theorem changes_keep_order_witness:
  "\<exists>rjl'. processChanges 1000 \<lparr>repeatedJobs = [sample_job 5000 1], changes_of = sample_box\<rparr> = Some rjl' \<and>
    repeatedJobs rjl' = [sample_job 50001000 2] \<and> queued (changes_of rjl') []"
proof -
  have "apply_changes 1000 [sample_job 0 2, sample_job UA_INT64_MAX 1] [sample_job 5000 1] = Some [sample_job 50001000 2]"
    by (simp add: sample_job_def addRepeatedJob_def UA_INT64_MAX_def UA_INT64_MIN_def c_int64_def UA_SEC_TO_DATETIME_def)
  then show ?thesis
    using changes_keep_order [of "\<lparr>repeatedJobs = [sample_job 5000 1], changes_of = sample_box\<rparr>"
        "[sample_job 0 2, sample_job UA_INT64_MAX 1]" 1000] sample_queued
    by (auto simp: by_time_def sample_job_def UA_INT64_MIN_def UA_INT64_MAX_def UA_SEC_TO_DATETIME_def)
qed

section \<open>Execution\<close>

text \<open>A callback that has an effect of its own and neither adds nor removes jobs.\<close>

definition callback_only :: "('j \<Rightarrow> 's \<Rightarrow> 's) \<Rightarrow> ('g, 'j, 's) job_callback" where
  "callback_only f = (\<lambda>j (s, box). (f j s, box))"

lemma fold_callback_only:
  "fold (\<lambda>rj. callback_only f (job_of rj)) ex (s, box) = (fold (\<lambda>rj. f (job_of rj)) ex s, box)"
  by (induction ex arbitrary: s) (simp_all add: callback_only_def)

lemma processChanges_none:
  assumes "queued (changes_of rjl) []"
  obtains box where "processChanges now rjl = Some (rjl\<lparr>changes_of := box\<rparr>)" "queued box []"
  using processChanges_all [OF assms, of now] by auto

text \<open>C25: One call of \<open>UA_RepeatedJobsList_process\<close> first applies the changes in the queue. It then executes the jobs
  that are due, each once and in the order of their times, sets their next times to \<open>now\<close> or later and keeps every
  job. It returns the earliest time in the list, which stays sorted. This is for the case that at least one job is due, that the
  callbacks neither add nor remove jobs (C39 shows one that does) and that the times of the due jobs do not overflow.\<close>

theorem process_executes_due:
  assumes "queued (changes_of rjl) cs" and "by_time (due @ later)"
    and "apply_changes now cs (repeatedJobs rjl) = Some (due @ later)" and "due \<noteq> []"
    and "list_all (\<lambda>rj. nextTime rj \<le> now) due" and "list_all (\<lambda>rj. now < nextTime rj) later"
    and "list_all (in_time now) due" and "UA_INT64_MIN < now" and "now < UA_INT64_MAX"
  shows "\<exists>t rjl'. UA_RepeatedJobsList_process (callback_only f) now s rjl =
      Some (t, Some True, fold (\<lambda>rj. f (job_of rj)) due s, rjl') \<and>
    by_time (repeatedJobs rjl') \<and> mset (repeatedJobs rjl') = mset (map (next_run now) due) + mset later \<and>
    t \<in> nextTime ` set (repeatedJobs rjl') \<and> (\<forall>rj\<in>set (repeatedJobs rjl'). now \<le> nextTime rj \<and> t \<le> nextTime rj)"
proof -
  obtain box where box: "processChanges now rjl = Some (rjl\<lparr>repeatedJobs := due @ later, changes_of := box\<rparr>)" "queued box []"
    using processChanges_all [OF assms(1), of now] assms(3) by auto
  have split: "takeWhile (\<lambda>j. nextTime j \<le> now) (due @ later) = due" "dropWhile (\<lambda>j. nextTime j \<le> now) (due @ later) = later"
    using assms(5,6) by (cases later; auto simp: list_all_iff takeWhile_append dropWhile_append)+
  have later: "by_time later" "\<forall>x\<in>set later. now \<le> nextTime x"
    using assms(2,6) by (auto simp: by_time_def sorted_append list_all_iff)
  obtain jobs where jobs: "dispatch_loop (callback_only f) now None due later (s, box) = Some (jobs, fold (\<lambda>rj. f (job_of rj)) due s, box)"
    "by_time jobs" "mset jobs = mset (map (next_run now) due) + mset later" "\<forall>x\<in>set jobs. now \<le> nextTime x"
    using dispatch_loop_all [OF later assms(7,8,9), of None "callback_only f" "(s, box)"] by (auto simp: fold_callback_only)
  obtain box' where box': "processChanges now (rjl\<lparr>repeatedJobs := jobs, changes_of := box\<rparr>) = Some (rjl\<lparr>repeatedJobs := jobs, changes_of := box'\<rparr>)"
    using processChanges_none [of "rjl\<lparr>repeatedJobs := jobs, changes_of := box\<rparr>" now] box(2) by auto
  have "jobs \<noteq> []" using jobs(3) assms(4) by auto
  then obtain j js where j: "jobs = j # js" by (cases jobs) auto
  have "UA_RepeatedJobsList_process (callback_only f) now s rjl =
      Some (nextTime j, Some True, fold (\<lambda>rj. f (job_of rj)) due s, rjl\<lparr>repeatedJobs := jobs, changes_of := box'\<rparr>)"
    using box(1) split jobs(1) box' j assms(4,8,9) by (simp add: UA_RepeatedJobsList_process_def Let_def)
  then show ?thesis using jobs(2-4) j
    by (intro exI [of _ "nextTime j"] exI [of _ "rjl\<lparr>repeatedJobs := jobs, changes_of := box'\<rparr>"]) (auto simp: by_time_def)
qed

theorem process_executes_due_witness:
  "\<exists>rjl'. UA_RepeatedJobsList_process (callback_only (\<lambda>j log. log @ [j])) 1000 []
      \<lparr>repeatedJobs = [sample_job 500 1, sample_job 1000 2, sample_job 2000 3],
       changes_of = changes_of (UA_RepeatedJobsList_init (\<lambda>a. sample_job 0 0))\<rparr> = Some (2000, Some True, [1, 2], rjl') \<and>
    mset (repeatedJobs rjl') = {#sample_job 50000500 1, sample_job 50001000 2, sample_job 2000 3#}"
proof -
  let ?due = "[sample_job 500 1, sample_job 1000 2]" and ?later = "[sample_job 2000 3]"
  have run: "mset (map (next_run 1000) ?due) + mset ?later = {#sample_job 50000500 1, sample_job 50001000 2, sample_job 2000 3#}"
    by (simp add: next_run_def rescheduled_def sample_job_def)
  obtain t rjl' where *: "UA_RepeatedJobsList_process (callback_only (\<lambda>j log. log @ [j])) 1000 []
      \<lparr>repeatedJobs = ?due @ ?later, changes_of = changes_of (UA_RepeatedJobsList_init (\<lambda>a. sample_job 0 0))\<rparr> =
      Some (t, Some True, fold (\<lambda>rj log. log @ [job_of rj]) ?due [], rjl')"
    "mset (repeatedJobs rjl') = mset (map (next_run 1000) ?due) + mset ?later"
    "t \<in> nextTime ` set (repeatedJobs rjl')" "\<forall>rj\<in>set (repeatedJobs rjl'). t \<le> nextTime rj"
    using process_executes_due [of "\<lparr>repeatedJobs = ?due @ ?later, changes_of = changes_of (UA_RepeatedJobsList_init (\<lambda>a. sample_job 0 0))\<rparr>"
        "[]" ?due ?later 1000 "\<lambda>j log. log @ [j]" "[]"] queued_init [of "\<lambda>a. sample_job 0 0"]
    by (auto simp: by_time_def sample_job_def in_time_def UA_INT64_MIN_def UA_INT64_MAX_def)
  have "set (repeatedJobs rjl') = {sample_job 50000500 1, sample_job 50001000 2, sample_job 2000 3}"
    using arg_cong [OF *(2) [unfolded run], of set_mset] by simp
  then have "t = 2000" using *(3,4) by (auto simp: sample_job_def)
  then show ?thesis using *(1,2) run by (auto simp: sample_job_def)
qed

text \<open>C39: A job that removes itself while it is the only one makes \<open>UA_RepeatedJobsList_process\<close> read the time of
  the first job of an empty list, through a NULL pointer.\<close>

theorem last_job_removed:
  assumes "queued (changes_of rjl) []" and "repeatedJobs rjl = [rj]" and "nextTime rj \<le> now" and "in_time now rj"
    and "UA_INT64_MIN < now" and "now < UA_INT64_MAX"
    and "cb = (\<lambda>j (s, box). (s, snd (UA_RepeatedJobsList_removeRepeatedJob (Some a) junk (job_id rj) box)))"
  shows "UA_RepeatedJobsList_process cb now s rjl = None"
proof -
  obtain box where box: "processChanges now rjl = Some (rjl\<lparr>changes_of := box\<rparr>)" "queued box []"
    by (rule processChanges_none [OF assms(1)])
  obtain order where order: "queue_inv (change_queue box) {} order" "jobs_of order = []" using box(2) by (auto simp: queued_def)
  let ?rm = "junk\<lparr>job_id := job_id rj, nextTime := UA_INT64_MAX\<rparr>"
  have "Node a \<notin> set order" using order(2) by (simp flip: set_jobs_of)
  from queued_enqueue [OF order(1) this, of ?rm] order(2)
  have q: "queued (enqueue_job box a ?rm) [?rm]" by simp
  have c: "c_int64 (nextTime rj + sint (job_interval rj)) = Some (nextTime rj + sint (job_interval rj))"
    "c_int64 (now + 1) = Some (now + 1)" "c_int64 (now - 1) = Some (now - 1)"
    using assms(4-6) by (simp_all add: in_time_def)
  have "now - 1 \<noteq> nextTime (next_run now rj)" using next_run_later [of now rj] by linarith
  then have loop: "dispatch_loop cb now None [rj] [] (s, box) = Some ([next_run now rj], s, enqueue_job box a ?rm)"
    using c by (simp add: assms(7) UA_RepeatedJobsList_removeRepeatedJob_def next_run_def insert_at_def Let_def)
  have "job_id (next_run now rj) = job_id rj" by (simp add: next_run_def rescheduled_def)
  then have "\<exists>box'. processChanges now (rjl\<lparr>repeatedJobs := [next_run now rj], changes_of := enqueue_job box a ?rm\<rparr>) =
      Some (rjl\<lparr>repeatedJobs := [], changes_of := box'\<rparr>)"
    using processChanges_all [of "rjl\<lparr>repeatedJobs := [next_run now rj], changes_of := enqueue_job box a ?rm\<rparr>", of "[?rm]" now] q by auto
  then show ?thesis
    using box(1) assms(2,3) loop c by (auto simp: UA_RepeatedJobsList_process_def Let_def)
qed

theorem last_job_removed_witness:
  "UA_RepeatedJobsList_process
     (\<lambda>j (s, box). (s, snd (UA_RepeatedJobsList_removeRepeatedJob (Some 7) (sample_job 0 0) (job_id (sample_job 500 1)) box))) 1000 ()
     \<lparr>repeatedJobs = [sample_job 500 1], changes_of = changes_of (UA_RepeatedJobsList_init (\<lambda>a. sample_job 0 0))\<rparr> = None"
  by (rule last_job_removed [OF _ _ _ _ _ _ refl])
    (simp_all add: queued_init sample_job_def in_time_def UA_INT64_MIN_def UA_INT64_MAX_def)

end
