(* ===== verification/UANodeStore.thy ===== *)
theory UANodeStore
  imports UATypes
begin

text \<open>
  The node store of the OPC UA server, \<open>ua_nodestore.c\<close>: a hash table with open addressing and double
  hashing whose slots point to nodes on the heap. A slot is empty, a tombstone or a pointer.

  \<open>None\<close> is undefined behaviour as everywhere, and also a probe that goes round the table for ever.
\<close>

section \<open>Definitions\<close>

datatype UA_NodeClass = UNSPECIFIED | OBJECT | VARIABLE | METHOD | OBJECTTYPE | VARIABLETYPE | REFERENCETYPE | DATATYPE | VIEW

text \<open>What the other members of a node hold is a type parameter.\<close>

record 'a UA_Node =
  nodeId :: UA_NodeId
  nodeClass :: UA_NodeClass
  members :: 'a

text \<open>Addresses of entries are natural numbers; \<open>orig\<close> is \<open>None\<close> for NULL.\<close>

record 'a UA_NodeStoreEntry =
  orig :: "nat option"
  node :: "'a UA_Node"

type_synonym 'a node_heap = "nat \<Rightarrow> 'a UA_NodeStoreEntry option"

datatype slot = Empty | Tombstone | Entry nat

record UA_NodeStore =
  entries :: "slot list"
  ns_size :: u32
  ns_count :: u32
  sizePrimeIndex :: u32

definition UA_NODESTORE_MINSIZE :: u32 where "UA_NODESTORE_MINSIZE = 64"

definition primes :: "u32 list" where
  "primes =
    [7, 13, 31, 61, 127, 251, 509, 1021, 2039, 4093, 8191, 16381, 32749, 65521, 131071, 262139, 524287, 1048573,
     2097143, 4194301, 8388593, 16777213, 33554393, 67108859, 134217689, 268435399, 536870909, 1073741789,
     2147483647, 4294967291]"

definition ns_mod :: "u32 \<Rightarrow> u32 \<Rightarrow> u32" where "ns_mod h nsz = h mod nsz"
definition ns_mod2 :: "u32 \<Rightarrow> u32 \<Rightarrow> u32" where "ns_mod2 h nsz = 1 + h mod (nsz - 2)"

function higher_prime_loop :: "u32 \<Rightarrow> nat \<Rightarrow> nat \<Rightarrow> nat option" where
  "higher_prime_loop n low high =
     (if low < high
      then (let mid = low + (high - low) div 2
            in do { p \<leftarrow> load primes mid;
                    if n > p then higher_prime_loop n (mid + 1) high else higher_prime_loop n low mid })
      else Some low)"
  by pat_completeness auto
termination
  by (relation "measure (\<lambda>(n, low, high). high - low)") auto

definition higher_prime_index :: "u32 \<Rightarrow> nat option" where
  "higher_prime_index n = higher_prime_loop n 0 (length primes)"

text \<open>\<open>mem\<close> is the address that \<open>calloc\<close> returns and \<open>zero\<close> a node of zeroes.\<close>

definition instantiateEntry :: "nat option \<Rightarrow> 'a UA_Node \<Rightarrow> UA_NodeClass \<Rightarrow> 'a node_heap \<Rightarrow> nat option \<times> 'a node_heap" where
  "instantiateEntry mem zero cls heap =
     (if cls = UNSPECIFIED then (None, heap)
      else case mem of
          None \<Rightarrow> (None, heap)
        | Some a \<Rightarrow> (Some a, heap(a := Some \<lparr>orig = None, node = zero\<lparr>nodeClass := cls\<rparr>\<rparr>)))"

text \<open>Freeing what is not allocated is undefined.\<close>

definition deleteEntry :: "nat \<Rightarrow> 'a node_heap \<Rightarrow> 'a node_heap option" where
  "deleteEntry a heap = do { _ \<leftarrow> heap a; Some (heap(a := None)) }"

definition next_idx :: "u32 \<Rightarrow> u32 \<Rightarrow> u32 \<Rightarrow> u32" where
  "next_idx nsz hash2 idx = (let idx = idx + hash2 in if idx \<ge> nsz then idx - nsz else idx)"

text \<open>The slot of a node, \<open>Some None\<close> for NULL.\<close>

partial_function (option) findNode_loop ::
    "'a node_heap \<Rightarrow> slot list \<Rightarrow> u32 \<Rightarrow> u32 \<Rightarrow> UA_NodeId \<Rightarrow> u32 \<Rightarrow> nat option option" where
  "findNode_loop heap slots nsz hash2 nodeid idx =
     do { e \<leftarrow> load slots (unat idx);
          (case e of
             Empty \<Rightarrow> Some None
           | Tombstone \<Rightarrow> findNode_loop heap slots nsz hash2 nodeid (next_idx nsz hash2 idx)
           | Entry a \<Rightarrow>
               do { x \<leftarrow> heap a;
                    if UA_NodeId_equal (nodeId (node x)) nodeid then Some (Some (unat idx))
                    else findNode_loop heap slots nsz hash2 nodeid (next_idx nsz hash2 idx) }) }"

definition findNode :: "'a node_heap \<Rightarrow> UA_NodeStore \<Rightarrow> UA_NodeId \<Rightarrow> nat option option" where
  "findNode heap ns nodeid =
     do { h \<leftarrow> UA_NodeId_hash nodeid;
          let nsz = ns_size ns;
          findNode_loop heap (entries ns) nsz (ns_mod2 h nsz) nodeid (ns_mod h nsz) }"

text \<open>A slot that is empty or a tombstone; NULL if the identifier is found before one.\<close>

partial_function (option) findSlot_loop ::
    "'a node_heap \<Rightarrow> slot list \<Rightarrow> u32 \<Rightarrow> u32 \<Rightarrow> UA_NodeId \<Rightarrow> u32 \<Rightarrow> nat option option" where
  "findSlot_loop heap slots nsz hash2 nodeid idx =
     do { e \<leftarrow> load slots (unat idx);
          (case e of
             Empty \<Rightarrow> Some (Some (unat idx))
           | Tombstone \<Rightarrow> Some (Some (unat idx))
           | Entry a \<Rightarrow>
               do { x \<leftarrow> heap a;
                    if UA_NodeId_equal (nodeId (node x)) nodeid then Some None
                    else findSlot_loop heap slots nsz hash2 nodeid (next_idx nsz hash2 idx) }) }"

definition findSlot :: "'a node_heap \<Rightarrow> UA_NodeStore \<Rightarrow> UA_NodeId \<Rightarrow> nat option option" where
  "findSlot heap ns nodeid =
     do { h \<leftarrow> UA_NodeId_hash nodeid;
          let nsz = ns_size ns;
          findSlot_loop heap (entries ns) nsz (ns_mod2 h nsz) nodeid (ns_mod h nsz) }"

text \<open>The loop of \<open>expand\<close> over the old slots: \<open>j\<close> of the \<open>count\<close> nodes have been moved.\<close>

fun rehash_loop :: "'a node_heap \<Rightarrow> slot list \<Rightarrow> nat \<Rightarrow> nat \<Rightarrow> UA_NodeStore \<Rightarrow> UA_NodeStore option" where
  "rehash_loop heap [] j count ns = Some ns"
| "rehash_loop heap (e # oentries) j count ns =
     (if j < count
      then (case e of
          Entry a \<Rightarrow>
            do { x \<leftarrow> heap a;
                 s \<leftarrow> findSlot heap ns (nodeId (node x));
                 i \<leftarrow> s;
                 slots \<leftarrow> store (entries ns) i (Entry a);
                 rehash_loop heap oentries (j + 1) count (ns\<lparr>entries := slots\<rparr>) }
        | _ \<Rightarrow> rehash_loop heap oentries j count ns)
      else Some ns)"

definition expand :: "bool \<Rightarrow> 'a node_heap \<Rightarrow> UA_NodeStore \<Rightarrow> (UA_StatusCode \<times> UA_NodeStore) option" where
  "expand grant heap ns =
     (let osize = ns_size ns; count = ns_count ns
      in if count * 2 < osize \<and> (count * 8 > osize \<or> osize \<le> UA_NODESTORE_MINSIZE) then Some (UA_STATUSCODE_GOOD, ns)
         else do {
           nindex \<leftarrow> higher_prime_index (count * 2);
           nsize \<leftarrow> load primes nindex;
           if \<not> grant then Some (UA_STATUSCODE_BADOUTOFMEMORY, ns)
           else do {
             ns' \<leftarrow> rehash_loop heap (entries ns) 0 (unat count)
               (ns\<lparr>entries := replicate (unat nsize) Empty, ns_size := nsize, sizePrimeIndex := of_nat nindex\<rparr>);
             Some (UA_STATUSCODE_GOOD, ns') } })"

text \<open>The inner \<open>None\<close> is NULL.\<close>

definition UA_NodeStore_new :: "bool \<Rightarrow> bool \<Rightarrow> UA_NodeStore option option" where
  "UA_NodeStore_new grant grant_entries =
     (if \<not> grant then Some None
      else do {
        i \<leftarrow> higher_prime_index UA_NODESTORE_MINSIZE;
        nsz \<leftarrow> load primes i;
        Some (if grant_entries
              then Some \<lparr>entries = replicate (unat nsz) Empty, ns_size = nsz, ns_count = 0, sizePrimeIndex = of_nat i\<rparr>
              else None) })"

fun delete_entries :: "slot list \<Rightarrow> 'a node_heap \<Rightarrow> 'a node_heap option" where
  "delete_entries [] heap = Some heap"
| "delete_entries (e # es) heap =
     (case e of Entry a \<Rightarrow> do { heap \<leftarrow> deleteEntry a heap; delete_entries es heap } | _ \<Rightarrow> delete_entries es heap)"

definition UA_NodeStore_delete :: "'a node_heap \<Rightarrow> UA_NodeStore \<Rightarrow> 'a node_heap option" where
  "UA_NodeStore_delete heap ns = delete_entries (take (unat (ns_size ns)) (entries ns)) heap"

definition UA_NodeStore_newNode :: "nat option \<Rightarrow> 'a UA_Node \<Rightarrow> UA_NodeClass \<Rightarrow> 'a node_heap \<Rightarrow> nat option \<times> 'a node_heap" where
  "UA_NodeStore_newNode mem zero cls heap = instantiateEntry mem zero cls heap"

definition UA_NodeStore_deleteNode :: "nat \<Rightarrow> 'a node_heap \<Rightarrow> 'a node_heap option" where
  "UA_NodeStore_deleteNode a heap = deleteEntry a heap"

text \<open>\<open>identifier.numeric = n\<close>. In the union the number shares its place with the first field of a GUID and
  with the length of a string, whose bytes are not there: the string cannot be read afterwards.\<close>

definition set_numeric :: "UA_NodeId \<Rightarrow> u32 \<Rightarrow> UA_NodeId option" where
  "set_numeric nodeid n = (case ident nodeid of
     NUMERIC _ \<Rightarrow> Some (nodeid\<lparr>ident := NUMERIC n\<rparr>)
   | GUID g \<Rightarrow> Some (nodeid\<lparr>ident := GUID (g\<lparr>data1 := n\<rparr>)\<rparr>)
   | STRING _ \<Rightarrow> None
   | BYTESTRING _ \<Rightarrow> None)"

partial_function (option) random_loop ::
    "'a node_heap \<Rightarrow> UA_NodeStore \<Rightarrow> u32 \<Rightarrow> UA_NodeId \<Rightarrow> u32 \<Rightarrow> (nat \<times> UA_NodeId) option" where
  "random_loop heap ns increase nodeid numeric =
     do { nodeid \<leftarrow> set_numeric nodeid numeric;
          s \<leftarrow> findSlot heap ns nodeid;
          (case s of
             Some i \<Rightarrow> Some (i, nodeid)
           | None \<Rightarrow> random_loop heap ns increase nodeid (next_idx (ns_size ns) increase numeric)) }"

definition UA_NodeStore_insert ::
    "bool \<Rightarrow> 'a node_heap \<Rightarrow> UA_NodeStore \<Rightarrow> nat \<Rightarrow> (UA_StatusCode \<times> 'a node_heap \<times> UA_NodeStore) option" where
  "UA_NodeStore_insert grant heap ns a =
     do { (rc, ns) \<leftarrow> (if ns_size ns * 3 \<le> ns_count ns * 4 then expand grant heap ns else Some (UA_STATUSCODE_GOOD, ns));
          if rc \<noteq> UA_STATUSCODE_GOOD then Some (UA_STATUSCODE_BADINTERNALERROR, heap, ns)
          else do {
            x \<leftarrow> heap a;
            let nodeid = nodeId (node x);
            if UA_NodeId_isNull (nodeid\<lparr>namespaceIndex := 0\<rparr>)
            then do {
              let nodeid = (if namespaceIndex nodeid = 0 then nodeid\<lparr>namespaceIndex := 1\<rparr> else nodeid);
              let numeric = ns_count ns + 1;
              (i, nodeid) \<leftarrow> random_loop heap ns (ns_mod2 numeric (ns_size ns)) nodeid numeric;
              slots \<leftarrow> store (entries ns) i (Entry a);
              Some (UA_STATUSCODE_GOOD, heap(a := Some (x\<lparr>node := (node x)\<lparr>nodeId := nodeid\<rparr>\<rparr>)),
                ns\<lparr>entries := slots, ns_count := ns_count ns + 1\<rparr>) }
            else do {
              s \<leftarrow> findSlot heap ns nodeid;
              (case s of
                 None \<Rightarrow> do { heap \<leftarrow> UA_NodeStore_deleteNode a heap; Some (UA_STATUSCODE_BADNODEIDEXISTS, heap, ns) }
               | Some i \<Rightarrow> do {
                   slots \<leftarrow> store (entries ns) i (Entry a);
                   Some (UA_STATUSCODE_GOOD, heap, ns\<lparr>entries := slots, ns_count := ns_count ns + 1\<rparr>) }) } } }"

text \<open>The entry in a slot that \<open>findNode\<close> has returned.\<close>

definition entry_at :: "UA_NodeStore \<Rightarrow> nat \<Rightarrow> nat option" where
  "entry_at ns i = do { e \<leftarrow> load (entries ns) i; (case e of Entry a \<Rightarrow> Some a | _ \<Rightarrow> None) }"

definition UA_NodeStore_replace ::
    "'a node_heap \<Rightarrow> UA_NodeStore \<Rightarrow> nat \<Rightarrow> (UA_StatusCode \<times> 'a node_heap \<times> UA_NodeStore) option" where
  "UA_NodeStore_replace heap ns a =
     do { x \<leftarrow> heap a;
          s \<leftarrow> findNode heap ns (nodeId (node x));
          (case s of
             None \<Rightarrow> Some (UA_STATUSCODE_BADNODEIDUNKNOWN, heap, ns)
           | Some i \<Rightarrow> do {
               old \<leftarrow> entry_at ns i;
               if Some old \<noteq> orig x
               then do { heap \<leftarrow> deleteEntry a heap; Some (UA_STATUSCODE_BADINTERNALERROR, heap, ns) }
               else do {
                 heap \<leftarrow> deleteEntry old heap;
                 slots \<leftarrow> store (entries ns) i (Entry a);
                 Some (UA_STATUSCODE_GOOD, heap, ns\<lparr>entries := slots\<rparr>) } }) }"

definition UA_NodeStore_get :: "'a node_heap \<Rightarrow> UA_NodeStore \<Rightarrow> UA_NodeId \<Rightarrow> nat option option" where
  "UA_NodeStore_get heap ns nodeid =
     do { s \<leftarrow> findNode heap ns nodeid;
          (case s of None \<Rightarrow> Some None | Some i \<Rightarrow> do { a \<leftarrow> entry_at ns i; Some (Some a) }) }"

text \<open>\<open>copied\<close> says whether \<open>UA_Node_copyAnyNodeClass\<close> succeeds.\<close>

definition UA_NodeStore_getCopy ::
    "nat option \<Rightarrow> 'a UA_Node \<Rightarrow> bool \<Rightarrow> 'a node_heap \<Rightarrow> UA_NodeStore \<Rightarrow> UA_NodeId \<Rightarrow> (nat option \<times> 'a node_heap) option" where
  "UA_NodeStore_getCopy mem zero copied heap ns nodeid =
     do { s \<leftarrow> findNode heap ns nodeid;
          (case s of
             None \<Rightarrow> Some (None, heap)
           | Some i \<Rightarrow> do {
               a \<leftarrow> entry_at ns i;
               x \<leftarrow> heap a;
               (case instantiateEntry mem zero (nodeClass (node x)) heap of
                  (None, heap) \<Rightarrow> Some (None, heap)
                | (Some b, heap) \<Rightarrow>
                    if \<not> copied then do { heap \<leftarrow> deleteEntry b heap; Some (None, heap) }
                    else Some (Some b, heap(b := Some \<lparr>orig = Some a, node = node x\<rparr>))) }) }"

definition UA_NodeStore_remove ::
    "bool \<Rightarrow> 'a node_heap \<Rightarrow> UA_NodeStore \<Rightarrow> UA_NodeId \<Rightarrow> (UA_StatusCode \<times> 'a node_heap \<times> UA_NodeStore) option" where
  "UA_NodeStore_remove grant heap ns nodeid =
     do { s \<leftarrow> findNode heap ns nodeid;
          (case s of
             None \<Rightarrow> Some (UA_STATUSCODE_BADNODEIDUNKNOWN, heap, ns)
           | Some i \<Rightarrow> do {
               a \<leftarrow> entry_at ns i;
               heap \<leftarrow> deleteEntry a heap;
               slots \<leftarrow> store (entries ns) i Tombstone;
               let ns = ns\<lparr>entries := slots, ns_count := ns_count ns - 1\<rparr>;
               if ns_count ns * 8 < ns_size ns \<and> ns_size ns > 32
               then do { (_, ns) \<leftarrow> expand grant heap ns; Some (UA_STATUSCODE_GOOD, heap, ns) }
               else Some (UA_STATUSCODE_GOOD, heap, ns) }) }"

text \<open>The nodes that the visitor gets, in order.\<close>

fun visited :: "slot list \<Rightarrow> nat list" where
  "visited [] = []"
| "visited (e # es) = (case e of Entry a \<Rightarrow> a # visited es | _ \<Rightarrow> visited es)"

definition UA_NodeStore_iterate :: "(nat \<Rightarrow> 's \<Rightarrow> 's) \<Rightarrow> UA_NodeStore \<Rightarrow> 's \<Rightarrow> 's" where
  "UA_NodeStore_iterate visitor ns s = fold visitor (visited (take (unat (ns_size ns)) (entries ns))) s"

text \<open>The loops compute.\<close>

declare findNode_loop.simps [code] findSlot_loop.simps [code] random_loop.simps [code]

end
