(* ===== verification/NodeTable.thy ===== *)
theory NodeTable
  imports UANodeStore
begin

text \<open>
  The probe sequences of the node store: they visit every slot when the size is a prime, they find a
  stored node, an empty slot or a place for a new node, and they never end in a full table.
\<close>

section \<open>Probe sequences\<close>

locale probe_seq =
  fixes m start d :: nat
  assumes start: "start < m" and step: "0 < d" "d < m" and coprime: "coprime d m" and small: "m \<le> 2147483647"
begin

definition probe :: "nat \<Rightarrow> nat" where
  "probe j = (start + j * d) mod m"

lemma probe_less [simp]: "probe j < m"
  using start by (simp add: probe_def)

lemma probe_0: "probe 0 = start"
  using start by (simp add: probe_def)

lemma probe_Suc: "probe (Suc j) = (if m \<le> probe j + d then probe j + d - m else probe j + d)"
proof -
  have "probe (Suc j) = (probe j + d) mod m" by (simp add: probe_def mod_add_left_eq add.assoc add.commute [of d])
  moreover have "probe j + d - m < m" using probe_less [of j] step by linarith
  then have "(probe j + d) mod m = (if m \<le> probe j + d then probe j + d - m else probe j + d)"
    by (simp add: le_mod_geq)
  ultimately show ?thesis by simp
qed

lemma of_nat_m: "unat (of_nat n :: u32) = n" if "n \<le> 2 * m"
  using that small by (simp add: unat_of_nat take_bit_nat_eq_self)

lemma next_probe: "next_idx (of_nat m) (of_nat d) (of_nat (probe j)) = of_nat (probe (Suc j))"
proof -
  let ?p = "probe j"
  have u: "unat (of_nat (?p + d) :: u32) = ?p + d" "unat (of_nat m :: u32) = m"
    using probe_less [of j] step by (intro of_nat_m; linarith)+
  have sum: "of_nat ?p + of_nat d = (of_nat (?p + d) :: u32)" by simp
  have "(of_nat m \<le> (of_nat (?p + d) :: u32)) = (m \<le> ?p + d)" by (simp only: word_le_nat_alt u)
  moreover have "of_nat (?p + d) - of_nat m = (of_nat (?p + d - m) :: u32)" if "m \<le> ?p + d" using that by (simp add: of_nat_diff)
  ultimately show ?thesis by (simp only: next_idx_def Let_def sum probe_Suc if_distrib [of of_nat]) simp
qed

text \<open>Every slot is visited within one round.\<close>

lemma probe_visits:
  assumes "p < m" shows "\<exists>j<m. probe j = p"
proof -
  have "inj_on probe {..<m}"
  proof (rule inj_onI)
    have less: False if "i < j" "j < m" "probe i = probe j" for i j
    proof -
      have "m dvd (start + j * d) - (start + i * d)"
        using that by (intro mod_eq_dvd_iff_nat [THEN iffD1]) (simp_all add: probe_def)
      then have "m dvd (j - i) * d" by (simp add: diff_mult_distrib)
      then have "m dvd j - i" using coprime by (simp add: coprime_dvd_mult_left_iff coprime_commute)
      then show False using that(1,2) by (auto dest: dvd_imp_le)
    qed
    fix i j assume "i \<in> {..<m}" "j \<in> {..<m}" "probe i = probe j"
    then show "i = j" using less [of i j] less [of j i] by (metis lessThan_iff linorder_neqE_nat)
  qed
  then have "card (probe ` {..<m}) = m" by (simp add: card_image)
  then have "probe ` {..<m} = {..<m}" by (intro card_subset_eq) auto
  then show ?thesis using assms by (metis imageE lessThan_iff)
qed

text \<open>What the loop that looks for \<open>nodeid\<close> passes: tombstones and other nodes.\<close>

definition passed :: "'a node_heap \<Rightarrow> slot \<Rightarrow> UA_NodeId \<Rightarrow> bool" where
  "passed heap e nodeid \<longleftrightarrow> (case e of
     Empty \<Rightarrow> False | Tombstone \<Rightarrow> True | Entry a \<Rightarrow> \<exists>x. heap a = Some x \<and> nodeId (node x) \<noteq> nodeid)"

abbreviation find_from where
  "find_from heap slots nodeid j \<equiv> findNode_loop heap slots (of_nat m) (of_nat d) nodeid (of_nat (probe j))"

abbreviation slot_from where
  "slot_from heap slots nodeid j \<equiv> findSlot_loop heap slots (of_nat m) (of_nat d) nodeid (of_nat (probe j))"

lemma unat_probe [simp]: "unat (of_nat (probe j) :: u32) = probe j"
  using probe_less [of j] by (intro of_nat_m) linarith

lemma load_probe: "length slots = m \<Longrightarrow> load slots (probe j) = Some (slots ! probe j)"
  by simp

lemma find_pass:
  assumes "length slots = m" and "\<And>i. i < n \<Longrightarrow> passed heap (slots ! probe (j + i)) nodeid"
  shows "find_from heap slots nodeid j = find_from heap slots nodeid (j + n)"
  using assms(2)
proof (induction n)
  case (Suc n)
  have "find_from heap slots nodeid (j + n) = find_from heap slots nodeid (Suc (j + n))"
    using Suc(2) [of n] load_probe [OF assms(1), of "j + n"]
    by (subst findNode_loop.simps) (auto simp: passed_def next_probe split: slot.splits)
  then show ?case using Suc by simp
qed simp

lemma find_entry:
  assumes "length slots = m" and "slots ! probe j = Entry a" and "heap a = Some x" and "nodeId (node x) = nodeid"
  shows "find_from heap slots nodeid j = Some (Some (probe j))"
  using assms by (subst findNode_loop.simps) simp

lemma find_empty:
  assumes "length slots = m" and "slots ! probe j = Empty"
  shows "find_from heap slots nodeid j = Some None"
  using assms by (subst findNode_loop.simps) simp

lemma slot_pass:
  assumes "length slots = m"
    and "\<And>i. i < n \<Longrightarrow> \<exists>a x. slots ! probe (j + i) = Entry a \<and> heap a = Some x \<and> nodeId (node x) \<noteq> nodeid"
  shows "slot_from heap slots nodeid j = slot_from heap slots nodeid (j + n)"
  using assms(2)
proof (induction n)
  case (Suc n)
  have "slot_from heap slots nodeid (j + n) = slot_from heap slots nodeid (Suc (j + n))"
    using Suc(2) [of n] load_probe [OF assms(1), of "j + n"] by (subst findSlot_loop.simps) (auto simp: next_probe)
  then show ?case using Suc by simp
qed simp

lemma slot_found:
  assumes "length slots = m" and "slots ! probe j = Empty \<or> slots ! probe j = Tombstone"
  shows "slot_from heap slots nodeid j = Some (Some (probe j))"
  using assms by (subst findSlot_loop.simps) auto

lemma slot_exists:
  assumes "length slots = m" and "slots ! probe j = Entry a" and "heap a = Some x" and "nodeId (node x) = nodeid"
  shows "slot_from heap slots nodeid j = Some None"
  using assms by (subst findSlot_loop.simps) simp

text \<open>A table in which every slot is passed is searched for ever.\<close>

lemma find_stuck:
  assumes "length slots = m" and all: "\<And>p. p < m \<Longrightarrow> passed heap (slots ! p) nodeid"
  shows "find_from heap slots nodeid j = None"
proof (rule ccontr)
  assume "find_from heap slots nodeid j \<noteq> None"
  then obtain r where "find_from heap slots nodeid j = Some r" by blast
  moreover have "findNode_loop h s n e i idx = Some r \<Longrightarrow> h = heap \<Longrightarrow> s = slots \<Longrightarrow> n = of_nat m \<Longrightarrow> e = of_nat d \<Longrightarrow>
      i = nodeid \<Longrightarrow> idx = of_nat (probe j) \<Longrightarrow> False" for h s n e i idx r j
  proof (induction h s n e i idx r arbitrary: j rule: findNode_loop.raw_induct [rotated, consumes 1, case_names step])
    case (step loop h s n e i idx r)
    have "passed heap (slots ! probe j) nodeid" by (rule all) simp
    then have "loop heap slots (of_nat m) (of_nat d) nodeid (of_nat (probe (Suc j))) = Some r"
      using step(2-8) load_probe [OF assms(1), of j] by (auto simp: passed_def next_probe split: slot.splits)
    then show False by (rule step(1)) simp_all
  qed
  ultimately show False by blast
qed

end

section \<open>The sizes are primes\<close>

definition prime_size :: "nat \<Rightarrow> bool" where
  "prime_size m \<longleftrightarrow> (\<forall>d. d dvd m \<longrightarrow> d = 1 \<or> d = m)"

text \<open>No odd number from \<open>k\<close> on divides, for \<open>n\<close> of them.\<close>

fun trial :: "int \<Rightarrow> int \<Rightarrow> nat \<Rightarrow> bool" where
  "trial p k 0 = True"
| "trial p k (Suc n) = (p mod k \<noteq> 0 \<and> trial p (k + 2) n)"

lemma trial_divisor: "trial p k n \<Longrightarrow> i < n \<Longrightarrow> \<not> k + 2 * int i dvd p"
proof (induction p k n arbitrary: i rule: trial.induct)
  case (2 p k n)
  then show ?case by (cases i) (auto simp: dvd_eq_mod_eq_0 algebra_simps)
qed simp

lemma trial_prime:
  assumes "trial (int m) 3 n" and "odd m" and "m < (2 * n + 3) * (2 * n + 3)" and "1 < m"
  shows "prime_size m"
  unfolding prime_size_def
proof (intro allI impI)
  fix d assume d: "d dvd m"
  have small: "e = 1" if "e dvd m" "e < 2 * n + 3" for e
  proof (rule ccontr)
    assume "e \<noteq> 1"
    have "odd e" using that(1) assms(2) by auto
    then obtain i where "e = 2 * i + 1" by (auto elim: oddE)
    then have e: "int e = 3 + 2 * int (i - 1)" "i - 1 < n" using \<open>e \<noteq> 1\<close> that(2) by auto
    have "int e dvd int m" using that(1) by simp
    then show False using trial_divisor [OF assms(1) e(2)] e(1) by simp
  qed
  obtain e where e: "m = d * e" using d by auto
  show "d = 1 \<or> d = m"
  proof (cases "d < 2 * n + 3")
    case False
    have "e < 2 * n + 3"
    proof (rule ccontr)
      assume "\<not> e < 2 * n + 3"
      then have "(2 * n + 3) * (2 * n + 3) \<le> d * e" using False by (intro mult_le_mono) simp_all
      then show False using assms(3) e by simp
    qed
    then show ?thesis using small [of e] e by simp
  qed (use small [OF d] in simp)
qed

lemma prime_coprime: "prime_size m \<Longrightarrow> 0 < d \<Longrightarrow> d < m \<Longrightarrow> coprime d m"
proof (rule coprimeI)
  fix c assume "prime_size m" "0 < d" "d < m" "c dvd d" "c dvd m"
  moreover from this have "c \<le> d" by (auto dest: dvd_imp_le)
  ultimately show "is_unit c" by (auto simp: prime_size_def)
qed

text \<open>The first eighteen sizes, for stores of up to half a million nodes.\<close>

definition table_sizes :: "u32 list" where
  "table_sizes = take 18 primes"

lemma table_sizes_list: "table_sizes = [7, 13, 31, 61, 127, 251, 509, 1021, 2039, 4093, 8191, 16381, 32749, 65521, 131071,
    262139, 524287, 1048573]"
  by (simp add: table_sizes_def primes_def)

lemma table_sizes_prime: "n \<in> set table_sizes \<Longrightarrow> prime_size (unat n)"
proof -
  have "prime_size 7" "prime_size 13" using trial_prime [of 7 0] trial_prime [of 13 1] by simp_all
  moreover have "trial 31 3 2" "trial 61 3 3" "trial 127 3 5" "trial 251 3 7" "trial 509 3 11" "trial 1021 3 15"
    "trial 2039 3 22" "trial 4093 3 31" "trial 8191 3 44" "trial 16381 3 63" "trial 32749 3 90" "trial 65521 3 127" "trial 131071 3 180"
    "trial 262139 3 255" "trial 524287 3 361" "trial 1048573 3 511"
    by code_simp+
  ultimately show "n \<in> set table_sizes \<Longrightarrow> prime_size (unat n)"
    by (auto simp: table_sizes_list intro: trial_prime)
qed

lemma table_sizes_bounds: "n \<in> set table_sizes \<Longrightarrow> 7 \<le> unat n \<and> unat n \<le> 1048573"
  by (auto simp: table_sizes_list)

text \<open>The binary search finds the first size that is large enough.\<close>

lemma higher_prime_loop_ok:
  "low \<le> high \<Longrightarrow> high \<le> length primes \<Longrightarrow> \<exists>i. higher_prime_loop n low high = Some i \<and> low \<le> i \<and> i \<le> high \<and>
     (\<forall>k. low \<le> k \<and> k < i \<longrightarrow> (\<exists>j\<ge>k. j < i \<and> primes ! j < n)) \<and> (i < high \<longrightarrow> n \<le> primes ! i)"
proof (induction n low high rule: higher_prime_loop.induct)
  case (1 n low high)
  let ?mid = "low + (high - low) div 2"
  show ?case
  proof (cases "low < high")
    case True
    then have mid: "low \<le> ?mid" "?mid < high" by auto
    then have p: "load primes ?mid = Some (primes ! ?mid)" using 1(4) by simp
    show ?thesis
    proof (cases "n > primes ! ?mid")
      case later: True
      obtain i where i: "higher_prime_loop n (?mid + 1) high = Some i" "?mid + 1 \<le> i" "i \<le> high"
        "\<forall>k. ?mid + 1 \<le> k \<and> k < i \<longrightarrow> (\<exists>j\<ge>k. j < i \<and> primes ! j < n)" "i < high \<longrightarrow> n \<le> primes ! i"
        using 1(1) [OF True refl p later] mid 1(4) by auto
      have "\<exists>j\<ge>k. j < i \<and> primes ! j < n" if "k < i" for k
        using that i(2,4) later by (cases "k \<le> ?mid") (auto intro: exI [of _ ?mid])
      then show ?thesis using i True p later mid by (simp add: higher_prime_loop.simps [of n low high] Let_def)
    next
      case False
      obtain i where i: "higher_prime_loop n low ?mid = Some i" "low \<le> i" "i \<le> ?mid"
        "\<forall>k. low \<le> k \<and> k < i \<longrightarrow> (\<exists>j\<ge>k. j < i \<and> primes ! j < n)" "i < ?mid \<longrightarrow> n \<le> primes ! i"
        using 1(2) [OF True refl p False] mid 1(4) by auto
      have "n \<le> primes ! i" using i(3,5) False by (cases "i = ?mid") auto
      then show ?thesis using i True p False mid by (simp add: higher_prime_loop.simps [of n low high] Let_def)
    qed
  qed (use 1(3) in \<open>auto simp: higher_prime_loop.simps [of n low high]\<close>)
qed

lemma higher_prime_ok:
  assumes "n \<le> 1048573"
  obtains i where "higher_prime_index n = Some i" "i < length primes" "primes ! i \<in> set table_sizes" "n \<le> primes ! i"
proof -
  have len: "length primes = 30" by (simp add: primes_def)
  obtain i where i: "higher_prime_loop n 0 30 = Some i" "i \<le> 30" "\<forall>k. 0 \<le> k \<and> k < i \<longrightarrow> (\<exists>j\<ge>k. j < i \<and> primes ! j < n)"
    "i < 30 \<longrightarrow> n \<le> primes ! i"
    using higher_prime_loop_ok [OF le0 order_refl, unfolded len, of n] by blast
  have big: "1048573 \<le> primes ! j" if "17 \<le> j" "j < 30" for j
  proof -
    have "list_all (\<lambda>p. 1048573 \<le> p) (drop 17 primes)" by (simp add: primes_def)
    moreover have "primes ! j \<in> set (drop 17 primes)" using that len by (auto simp: in_set_conv_nth intro!: exI [of _ "j - 17"])
    ultimately show ?thesis by (simp add: list_all_iff)
  qed
  have "i \<le> 17"
  proof (rule ccontr)
    assume "\<not> i \<le> 17"
    then have "0 \<le> (17::nat) \<and> 17 < i" by simp
    with i(3) obtain j where "17 \<le> j" "j < i" "primes ! j < n" by blast
    then show False using big [of j] i(2) assms by auto
  qed
  then have "primes ! i \<in> set table_sizes" using len by (auto simp: table_sizes_def in_set_conv_nth intro!: exI [of _ i])
  then show ?thesis using i \<open>i \<le> 17\<close> len by (intro that [of i]) (simp_all add: higher_prime_index_def)
qed

end
