(* ===== verification/NodeStoreMap.thy ===== *)
theory NodeStoreMap
  imports NodeTable
begin

text \<open>
  The node store as a map from identifiers to nodes: the invariant of the table, what every operation
  does to the map, and where the tombstones break the promise.
\<close>

section \<open>The map\<close>

text \<open>The \<open>j\<close>th slot that is probed for the hash \<open>h\<close>.\<close>

definition probed :: "u32 \<Rightarrow> u32 \<Rightarrow> nat \<Rightarrow> nat" where
  "probed n h j = probe_seq.probe (unat n) (unat (ns_mod h n)) (unat (ns_mod2 h n)) j"

text \<open>The node of the identifier at address \<open>a\<close> is in slot \<open>p\<close>.\<close>

definition stored :: "'a node_heap \<Rightarrow> slot list \<Rightarrow> UA_NodeId \<Rightarrow> nat \<Rightarrow> nat \<Rightarrow> bool" where
  "stored heap slots i p a \<longleftrightarrow> p < length slots \<and> slots ! p = Entry a \<and> (\<exists>x. heap a = Some x \<and> nodeId (node x) = i)"

definition maps_to :: "'a node_heap \<Rightarrow> slot list \<Rightarrow> UA_NodeId \<Rightarrow> nat \<Rightarrow> bool" where
  "maps_to heap slots i a \<longleftrightarrow> (\<exists>p. stored heap slots i p a)"

definition valid :: "'a node_heap \<Rightarrow> slot list \<Rightarrow> bool" where
  "valid heap slots \<longleftrightarrow> (\<forall>p a. p < length slots \<longrightarrow> slots ! p = Entry a \<longrightarrow> heap a \<noteq> None)"

text \<open>Every pointer leads to a node that a probe for its identifier reaches, and no identifier occurs twice.\<close>

definition table_ok :: "'a node_heap \<Rightarrow> slot list \<Rightarrow> u32 \<Rightarrow> bool" where
  "table_ok heap slots n \<longleftrightarrow> n \<in> set table_sizes \<and> length slots = unat n \<and>
     (\<forall>p a. p < length slots \<longrightarrow> slots ! p = Entry a \<longrightarrow>
        (\<exists>x h j. heap a = Some x \<and> UA_NodeId_hash (nodeId (node x)) = Some h \<and> probed n h j = p \<and>
           (\<forall>i<j. slots ! probed n h i \<noteq> Empty))) \<and>
     (\<forall>i p q a b. stored heap slots i p a \<longrightarrow> stored heap slots i q b \<longrightarrow> p = q)"

definition store_ok :: "'a node_heap \<Rightarrow> UA_NodeStore \<Rightarrow> bool" where
  "store_ok heap ns \<longleftrightarrow> table_ok heap (entries ns) (ns_size ns) \<and> unat (ns_count ns) = length (visited (entries ns))"

lemma table_sizes_seq: "n \<in> set table_sizes \<Longrightarrow> probe_seq (unat n) (unat (ns_mod h n)) (unat (ns_mod2 h n))"
proof
  assume n: "n \<in> set table_sizes"
  note b = table_sizes_bounds [OF n]
  show "unat (ns_mod h n) < unat n" using b by (simp add: ns_mod_def unat_mod)
  have two: "unat (n - 2) = unat n - 2" using b by (simp add: unat_sub word_le_nat_alt)
  have "unat (h mod (n - 2)) < unat n - 2" using b two by (simp add: unat_mod)
  moreover from this have "1 + unat (h mod (n - 2)) < 4294967296" using b by linarith
  ultimately have *: "unat (ns_mod2 h n) = 1 + unat (h mod (n - 2))"
    by (simp add: ns_mod2_def unat_word_ariths(1) del: unat_mod)
  show d: "0 < unat (ns_mod2 h n)" "unat (ns_mod2 h n) < unat n" using * \<open>unat (h mod (n - 2)) < unat n - 2\<close> by simp_all
  show "coprime (unat (ns_mod2 h n)) (unat n)" by (rule prime_coprime [OF table_sizes_prime [OF n] d])
  show "unat n \<le> 2147483647" using b by simp
qed

interpretation initial_table: probe_seq 127 "unat (ns_mod h 127)" "unat (ns_mod2 h 127)" for h
  using table_sizes_seq [of 127 h] by (simp add: table_sizes_list)

context probe_seq begin

lemma first_probe:
  assumes "p < m" and "Q p" obtains j where "Q (probe j)" "\<And>i. i < j \<Longrightarrow> \<not> Q (probe i)"
proof -
  from probe_visits [OF assms(1)] assms(2) obtain j where "Q (probe j)" by blast
  then show ?thesis using that [of "LEAST j. Q (probe j)"] LeastI [of "\<lambda>j. Q (probe j)"] not_less_Least by blast
qed

lemma entry_passed:
  assumes "length slots = m" and "valid heap slots" and "slots ! probe k \<noteq> Empty" and "\<And>a. \<not> stored heap slots i (probe k) a"
  shows "passed heap (slots ! probe k) i"
proof (cases "slots ! probe k")
  case (Entry a)
  moreover have "probe k < length slots" using assms(1) by simp
  ultimately obtain x where "heap a = Some x" using assms(2) by (auto simp: valid_def)
  then show ?thesis using Entry assms(4) [of a] assms(1) by (auto simp: passed_def stored_def)
qed (use assms(3) in \<open>simp_all add: passed_def\<close>)

lemma find_present:
  assumes len: "length slots = m" and v: "valid heap slots" and s: "stored heap slots i (probe j) a"
    and uniq: "\<And>q b. stored heap slots i q b \<Longrightarrow> q = probe j" and reach: "\<And>k. k < j \<Longrightarrow> slots ! probe k \<noteq> Empty"
  shows "find_from heap slots i 0 = Some (Some (probe j))"
proof -
  define n where "n = (LEAST k. probe k = probe j)"
  have n: "probe n = probe j" unfolding n_def by (rule LeastI [of _ j]) simp
  have "n \<le> j" unfolding n_def by (rule Least_le) simp
  have "passed heap (slots ! probe (0 + k)) i" if "k < n" for k
  proof -
    have "probe k \<noteq> probe j" using that not_less_Least unfolding n_def by blast
    then have "\<not> stored heap slots i (probe k) b" for b using uniq by blast
    moreover have "slots ! probe k \<noteq> Empty" using reach that \<open>n \<le> j\<close> by simp
    ultimately show ?thesis using entry_passed [OF len v] by simp
  qed
  then have "find_from heap slots i 0 = find_from heap slots i (0 + n)" by (rule find_pass [OF len])
  also have "\<dots> = Some (Some (probe n))" using s find_entry [OF len, of n a heap _ i] n by (auto simp: stored_def)
  finally show ?thesis by (simp add: n)
qed

lemma slot_present:
  assumes len: "length slots = m" and v: "valid heap slots" and s: "stored heap slots i (probe j) a"
    and uniq: "\<And>q b. stored heap slots i q b \<Longrightarrow> q = probe j" and reach: "\<And>k. k < j \<Longrightarrow> \<exists>b. slots ! probe k = Entry b"
  shows "slot_from heap slots i 0 = Some None"
proof -
  define n where "n = (LEAST k. probe k = probe j)"
  have n: "probe n = probe j" unfolding n_def by (rule LeastI [of _ j]) simp
  have "n \<le> j" unfolding n_def by (rule Least_le) simp
  have "\<exists>a x. slots ! probe (0 + k) = Entry a \<and> heap a = Some x \<and> nodeId (node x) \<noteq> i" if k: "k < n" for k
  proof -
    have "probe k \<noteq> probe j" using k not_less_Least unfolding n_def by blast
    then have "\<not> stored heap slots i (probe k) b" for b using uniq by blast
    moreover obtain b where b: "slots ! probe k = Entry b" using reach [OF less_le_trans [OF k \<open>n \<le> j\<close>]] by blast
    moreover have "heap b \<noteq> None" using v len b probe_less [of k] unfolding valid_def by blast
    ultimately show ?thesis using len by (auto simp: stored_def)
  qed
  then have "slot_from heap slots i 0 = slot_from heap slots i (0 + n)" by (rule slot_pass [OF len])
  also have "\<dots> = Some None" using s slot_exists [OF len, of n a heap _ i] n by (auto simp: stored_def)
  finally show ?thesis .
qed

lemma find_missing:
  assumes len: "length slots = m" and v: "valid heap slots" and absent: "\<And>p a. \<not> stored heap slots i p a"
    and e: "p < m" "slots ! p = Empty"
  shows "find_from heap slots i 0 = Some None"
proof -
  obtain n where n: "slots ! probe n = Empty" "\<And>k. k < n \<Longrightarrow> slots ! probe k \<noteq> Empty"
    using first_probe [of p "\<lambda>p. slots ! p = Empty"] e by blast
  have "find_from heap slots i 0 = find_from heap slots i (0 + n)"
    by (rule find_pass [OF len]) (use entry_passed [OF len v] n(2) absent in simp)
  then show ?thesis using find_empty [OF len n(1)] by simp
qed

lemma find_endless:
  assumes len: "length slots = m" and v: "valid heap slots" and absent: "\<And>p a. \<not> stored heap slots i p a"
    and full: "Empty \<notin> set slots"
  shows "find_from heap slots i 0 = None"
proof (rule find_stuck [OF len])
  fix p assume "p < m"
  moreover from this obtain j where "probe j = p" using probe_visits by blast
  moreover have "slots ! p \<noteq> Empty" using full len \<open>p < m\<close> by (metis nth_mem)
  ultimately show "passed heap (slots ! p) i" using entry_passed [OF len v, of j i] absent by simp
qed

lemma slot_missing:
  assumes len: "length slots = m" and v: "valid heap slots" and absent: "\<And>p a. \<not> stored heap slots i p a"
    and e: "p < m" "\<nexists>a. slots ! p = Entry a"
  obtains j where "slot_from heap slots i 0 = Some (Some (probe j))" "\<nexists>a. slots ! probe j = Entry a"
    "\<And>k. k < j \<Longrightarrow> slots ! probe k \<noteq> Empty"
proof -
  obtain n where n: "\<nexists>a. slots ! probe n = Entry a" "\<And>k. k < n \<Longrightarrow> \<not> (\<nexists>a. slots ! probe k = Entry a)"
    by (rule first_probe [where Q = "\<lambda>p. \<nexists>a. slots ! p = Entry a", OF e]) (rule that)
  have "\<exists>a x. slots ! probe (0 + k) = Entry a \<and> heap a = Some x \<and> nodeId (node x) \<noteq> i" if k: "k < n" for k
  proof -
    obtain a where a: "slots ! probe k = Entry a" using n(2) [OF k] by blast
    moreover have less: "probe k < length slots" using len by simp
    ultimately have "heap a \<noteq> None" using v by (simp add: valid_def)
    then obtain x where "heap a = Some x" by blast
    then show ?thesis using absent [of "probe k" a] a less by (auto simp: stored_def)
  qed
  then have "slot_from heap slots i 0 = slot_from heap slots i (0 + n)" by (rule slot_pass [OF len])
  moreover have "slots ! probe n = Empty \<or> slots ! probe n = Tombstone" using n(1) by (cases "slots ! probe n") auto
  ultimately have "slot_from heap slots i 0 = Some (Some (probe n))" using slot_found [OF len] by simp
  moreover have "slots ! probe k \<noteq> Empty" if "k < n" for k using n(2) [OF that] by force
  ultimately show ?thesis using that n(1) by blast
qed

end

lemma probe_start:
  assumes "UA_NodeId_hash i = Some h" and "ns_size ns \<in> set table_sizes"
  shows "findNode heap ns i = findNode_loop heap (entries ns) (of_nat (unat (ns_size ns)))
      (of_nat (unat (ns_mod2 h (ns_size ns)))) i (of_nat (probed (ns_size ns) h 0))"
    and "findSlot heap ns i = findSlot_loop heap (entries ns) (of_nat (unat (ns_size ns)))
      (of_nat (unat (ns_mod2 h (ns_size ns)))) i (of_nat (probed (ns_size ns) h 0))"
  using assms probe_seq.probe_0 [OF table_sizes_seq [OF assms(2)], of h]
  by (simp_all add: findNode_def findSlot_def Let_def probed_def)

lemmas findNode_start = probe_start(1)
lemmas findSlot_start = probe_start(2)

lemma table_ok_valid: "table_ok heap slots n \<Longrightarrow> valid heap slots"
  by (fastforce simp: table_ok_def valid_def)

lemma stored_reached:
  assumes ok: "table_ok heap slots n" and s: "stored heap slots i p a"
  obtains h j where "UA_NodeId_hash i = Some h" "probed n h j = p" "\<And>k. k < j \<Longrightarrow> slots ! probed n h k \<noteq> Empty"
proof -
  obtain x where x: "heap a = Some x" "nodeId (node x) = i" and p: "p < length slots" "slots ! p = Entry a" using s by (auto simp: stored_def)
  have "\<exists>x h j. heap a = Some x \<and> UA_NodeId_hash (nodeId (node x)) = Some h \<and> probed n h j = p \<and> (\<forall>i<j. slots ! probed n h i \<noteq> Empty)"
    using ok p by (simp add: table_ok_def)
  then show ?thesis using x that by auto
qed

lemma findNode_stored:
  assumes ok: "table_ok heap (entries ns) (ns_size ns)" and s: "stored heap (entries ns) i p a"
  shows "findNode heap ns i = Some (Some p)"
proof -
  let ?n = "ns_size ns" and ?S = "entries ns"
  obtain h j where h: "UA_NodeId_hash i = Some h" "probed ?n h j = p" "\<And>k. k < j \<Longrightarrow> ?S ! probed ?n h k \<noteq> Empty"
    using stored_reached [OF ok s] by blast
  have n: "?n \<in> set table_sizes" "length ?S = unat ?n" using ok by (simp_all add: table_ok_def)
  have uniq: "q = p" if "stored heap ?S i q b" for q b using ok s that unfolding table_ok_def by blast
  note present = probe_seq.find_present [OF table_sizes_seq [OF n(1), of h] n(2) table_ok_valid [OF ok], folded probed_def]
  have "stored heap ?S i (probed ?n h j) a" using s h(2) by simp
  from present [OF this] uniq h(2,3) show ?thesis by (simp add: findNode_start [OF h(1) n(1)])
qed

lemma findSlot_stored:
  assumes ok: "table_ok heap (entries ns) (ns_size ns)" and s: "stored heap (entries ns) i p a" and no: "Tombstone \<notin> set (entries ns)"
  shows "findSlot heap ns i = Some None"
proof -
  let ?n = "ns_size ns" and ?S = "entries ns"
  obtain h j where h: "UA_NodeId_hash i = Some h" "probed ?n h j = p" "\<And>k. k < j \<Longrightarrow> ?S ! probed ?n h k \<noteq> Empty"
    using stored_reached [OF ok s] by blast
  have n: "?n \<in> set table_sizes" "length ?S = unat ?n" using ok by (simp_all add: table_ok_def)
  have uniq: "q = p" if "stored heap ?S i q b" for q b using ok s that unfolding table_ok_def by blast
  have full: "\<exists>b. ?S ! probed ?n h k = Entry b" if "k < j" for k
  proof -
    have "probed ?n h k < length ?S" unfolding n(2) probed_def by (rule probe_seq.probe_less [OF table_sizes_seq [OF n(1)]])
    then have "?S ! probed ?n h k \<noteq> Tombstone" using no nth_mem by metis
    then show ?thesis using h(3) [OF that] by (cases "?S ! probed ?n h k") auto
  qed
  note present = probe_seq.slot_present [OF table_sizes_seq [OF n(1), of h] n(2) table_ok_valid [OF ok], folded probed_def]
  have "stored heap ?S i (probed ?n h j) a" using s h(2) by simp
  from present [OF this] uniq h(2) full show ?thesis by (simp add: findSlot_start [OF h(1) n(1)])
qed

lemma findNode_missing:
  assumes ok: "table_ok heap (entries ns) (ns_size ns)" and absent: "\<And>a. \<not> maps_to heap (entries ns) i a"
    and h: "UA_NodeId_hash i = Some h"
  shows "findNode heap ns i = (if Empty \<in> set (entries ns) then Some None else None)"
proof -
  have n: "ns_size ns \<in> set table_sizes" "length (entries ns) = unat (ns_size ns)" using ok by (simp_all add: table_ok_def)
  note start = findNode_start [OF h n(1), of heap]
  have absent': "\<not> stored heap (entries ns) i p a" for p a using absent by (auto simp: maps_to_def)
  show ?thesis
  proof (cases "Empty \<in> set (entries ns)")
    case True
    then obtain p where "p < unat (ns_size ns)" "entries ns ! p = Empty" using n(2) by (metis in_set_conv_nth)
    then show ?thesis using True
        probe_seq.find_missing [OF table_sizes_seq [OF n(1), of h] n(2) table_ok_valid [OF ok] absent', folded probed_def, of p]
      by (simp add: start)
  next
    case False
    then show ?thesis
      using probe_seq.find_endless [OF table_sizes_seq [OF n(1), of h] n(2) table_ok_valid [OF ok] absent', folded probed_def]
      by (simp add: start)
  qed
qed

lemma findSlot_missing:
  assumes ok: "table_ok heap (entries ns) (ns_size ns)" and absent: "\<And>a. \<not> maps_to heap (entries ns) i a"
    and h: "UA_NodeId_hash i = Some h" and e: "p < length (entries ns)" "\<nexists>a. entries ns ! p = Entry a"
  obtains j where "findSlot heap ns i = Some (Some (probed (ns_size ns) h j))" "\<nexists>a. entries ns ! probed (ns_size ns) h j = Entry a"
    "\<And>k. k < j \<Longrightarrow> entries ns ! probed (ns_size ns) h k \<noteq> Empty"
proof -
  have n: "ns_size ns \<in> set table_sizes" "length (entries ns) = unat (ns_size ns)" using ok by (simp_all add: table_ok_def)
  have absent': "\<not> stored heap (entries ns) i p a" for p a using absent by (auto simp: maps_to_def)
  obtain j where "findSlot_loop heap (entries ns) (of_nat (unat (ns_size ns))) (of_nat (unat (ns_mod2 h (ns_size ns)))) i
      (of_nat (probed (ns_size ns) h 0)) = Some (Some (probed (ns_size ns) h j))" "\<nexists>a. entries ns ! probed (ns_size ns) h j = Entry a"
    "\<And>k. k < j \<Longrightarrow> entries ns ! probed (ns_size ns) h k \<noteq> Empty"
    by (rule probe_seq.slot_missing [OF table_sizes_seq [OF n(1), of h] n(2) table_ok_valid [OF ok] absent', folded probed_def, of p])
      (use e n(2) in auto)
  then show ?thesis using findSlot_start [OF h n(1), of heap] by (intro that [of j]) simp_all
qed

section \<open>What the operations do\<close>

text \<open>A new node in a free slot that its probe reaches.\<close>

lemma table_insert:
  assumes ok: "table_ok heap slots n" and absent: "\<And>b. \<not> maps_to heap slots i b"
    and x: "heap a = Some x" "nodeId (node x) = i" and h: "UA_NodeId_hash i = Some h"
    and p: "p = probed n h j" "\<nexists>b. slots ! p = Entry b" "\<And>k. k < j \<Longrightarrow> slots ! probed n h k \<noteq> Empty"
  shows "table_ok heap (slots[p := Entry a]) n"
    and "maps_to heap (slots[p := Entry a]) k b \<longleftrightarrow> maps_to heap slots k b \<or> k = i \<and> b = a"
proof -
  have n: "n \<in> set table_sizes" "length slots = unat n" using ok by (simp_all add: table_ok_def)
  have less: "p < length slots" unfolding p(1) n(2) probed_def by (rule probe_seq.probe_less [OF table_sizes_seq [OF n(1)]])
  have st: "stored heap (slots[p := Entry a]) k q b \<longleftrightarrow> (if q = p then k = i \<and> b = a else stored heap slots k q b)" for k q b
    using less x by (auto simp: stored_def nth_list_update)
  have none: "\<not> stored heap slots k p b" for k b using p(2) by (auto simp: stored_def)
  show "maps_to heap (slots[p := Entry a]) k b \<longleftrightarrow> maps_to heap slots k b \<or> k = i \<and> b = a"
    unfolding maps_to_def st using none by (metis (full_types))
  have keep: "slots[p := Entry a] ! q \<noteq> Empty" if "slots ! q \<noteq> Empty" for q
    using that less by (cases "q = p") auto
  show "table_ok heap (slots[p := Entry a]) n"
    unfolding table_ok_def
  proof (intro conjI allI impI)
    fix q b assume q: "q < length (slots[p := Entry a])" "slots[p := Entry a] ! q = Entry b"
    show "\<exists>x h j. heap b = Some x \<and> UA_NodeId_hash (nodeId (node x)) = Some h \<and> probed n h j = q \<and>
        (\<forall>i<j. slots[p := Entry a] ! probed n h i \<noteq> Empty)"
    proof (cases "q = p")
      case True
      then show ?thesis using q less x h p keep by (intro exI [of _ x] exI [of _ h] exI [of _ j]) auto
    next
      case False
      then have "\<exists>x h j. heap b = Some x \<and> UA_NodeId_hash (nodeId (node x)) = Some h \<and> probed n h j = q \<and>
        (\<forall>i<j. slots ! probed n h i \<noteq> Empty)" using ok q by (simp add: table_ok_def)
      then show ?thesis using keep by blast
    qed
  next
    fix k q r b c assume "stored heap (slots[p := Entry a]) k q b" "stored heap (slots[p := Entry a]) k r c"
    then show "q = r" using ok absent unfolding st table_ok_def maps_to_def by (metis (full_types))
  qed (use n in simp_all)
qed

text \<open>A tombstone in place of a node that is freed.\<close>

lemma table_remove:
  assumes ok: "table_ok heap slots n" and s: "stored heap slots i p a"
  shows "table_ok (heap(a := None)) (slots[p := Tombstone]) n"
    and "maps_to (heap(a := None)) (slots[p := Tombstone]) k b \<longleftrightarrow> k \<noteq> i \<and> maps_to heap slots k b"
proof -
  have n: "n \<in> set table_sizes" "length slots = unat n" using ok by (simp_all add: table_ok_def)
  have less: "p < length slots" using s by (simp add: stored_def)
  have uniq: "q = r" if "stored heap slots k q b" "stored heap slots k r c" for k q r b c
    using ok that unfolding table_ok_def by blast
  have only: "q = p" if "slots ! q = Entry a" "q < length slots" for q
    using that s uniq [of i q a p a] by (auto simp: stored_def)
  have st: "stored (heap(a := None)) (slots[p := Tombstone]) k q b \<longleftrightarrow> q \<noteq> p \<and> stored heap slots k q b" for k q b
    using less only [of q] by (auto simp: stored_def nth_list_update)
  show "maps_to (heap(a := None)) (slots[p := Tombstone]) k b \<longleftrightarrow> k \<noteq> i \<and> maps_to heap slots k b"
    unfolding maps_to_def st
  proof
    assume "\<exists>q. q \<noteq> p \<and> stored heap slots k q b"
    then show "k \<noteq> i \<and> (\<exists>q. stored heap slots k q b)" using s uniq by blast
  next
    assume "k \<noteq> i \<and> (\<exists>q. stored heap slots k q b)"
    then obtain q where q: "stored heap slots k q b" "k \<noteq> i" by blast
    then have "q \<noteq> p" using s by (auto simp: stored_def)
    then show "\<exists>q. q \<noteq> p \<and> stored heap slots k q b" using q by blast
  qed
  have keep: "slots[p := Tombstone] ! q \<noteq> Empty" if "slots ! q \<noteq> Empty" for q
    using that less by (cases "q = p") auto
  show "table_ok (heap(a := None)) (slots[p := Tombstone]) n"
    unfolding table_ok_def
  proof (intro conjI allI impI)
    fix q b assume q: "q < length (slots[p := Tombstone])" "slots[p := Tombstone] ! q = Entry b"
    then have "q \<noteq> p" "slots ! q = Entry b" using less by (auto simp: nth_list_update split: if_splits)
    then have "\<exists>x h j. heap b = Some x \<and> UA_NodeId_hash (nodeId (node x)) = Some h \<and> probed n h j = q \<and>
        (\<forall>i<j. slots ! probed n h i \<noteq> Empty)" using ok q by (simp add: table_ok_def)
    moreover have "b \<noteq> a" using only [of q] \<open>q \<noteq> p\<close> \<open>slots ! q = Entry b\<close> q(1) by auto
    ultimately show "\<exists>x h j. (heap(a := None)) b = Some x \<and> UA_NodeId_hash (nodeId (node x)) = Some h \<and> probed n h j = q \<and>
        (\<forall>i<j. slots[p := Tombstone] ! probed n h i \<noteq> Empty)" using keep by (metis fun_upd_other)
  next
    fix k q r b c assume "stored (heap(a := None)) (slots[p := Tombstone]) k q b" "stored (heap(a := None)) (slots[p := Tombstone]) k r c"
    then show "q = r" unfolding st using uniq by blast
  qed (use n in simp_all)
qed

end
