(* ===== verification/NodeStoreOps.thy ===== *)
theory NodeStoreOps
  imports NodeStoreMap
begin

text \<open>
  The operations of the node store as operations on a map: rehashing, insertion and removal keep the
  invariant and change the map as they should.
\<close>

section \<open>The nodes of a table\<close>

definition id_at :: "'a node_heap \<Rightarrow> nat \<Rightarrow> UA_NodeId" where
  "id_at heap a = nodeId (node (the (heap a)))"

definition node_map :: "'a node_heap \<Rightarrow> slot list \<Rightarrow> UA_NodeId \<Rightarrow> nat option" where
  "node_map heap slots = map_of (map (\<lambda>a. (id_at heap a, a)) (visited slots))"

lemma set_visited: "a \<in> set (visited slots) \<longleftrightarrow> Entry a \<in> set slots"
  by (induction slots) (auto split: slot.splits)

lemma maps_to_visited: "valid heap slots \<Longrightarrow> maps_to heap slots i a \<longleftrightarrow> a \<in> set (visited slots) \<and> id_at heap a = i"
proof -
  assume v: "valid heap slots"
  have "a \<in> set (visited slots) \<longleftrightarrow> (\<exists>p<length slots. slots ! p = Entry a)" unfolding set_visited by (auto simp: in_set_conv_nth)
  moreover have "(\<exists>x. heap a = Some x \<and> nodeId (node x) = i) \<longleftrightarrow> id_at heap a = i" if "p < length slots" "slots ! p = Entry a" for p
  proof -
    have "heap a \<noteq> None" using v that by (simp add: valid_def)
    then show ?thesis by (auto simp: id_at_def)
  qed
  ultimately show ?thesis unfolding maps_to_def stored_def by metis
qed

lemma visited_replicate [simp]: "visited (replicate n Empty) = []"
  by (induction n) simp_all

lemma visited_insert:
  "p < length slots \<Longrightarrow> \<nexists>b. slots ! p = Entry b \<Longrightarrow> length (visited (slots[p := Entry a])) = Suc (length (visited slots))"
proof (induction slots arbitrary: p)
  case (Cons e slots)
  then show ?case by (cases p) (auto split: slot.splits)
qed simp

lemma visited_remove:
  "p < length slots \<Longrightarrow> slots ! p = Entry b \<Longrightarrow> Suc (length (visited (slots[p := Tombstone]))) = length (visited slots)"
proof (induction slots arbitrary: p)
  case (Cons e slots)
  then show ?case by (cases p) (auto split: slot.splits)
qed simp

lemma free_slot: "length (visited slots) < length slots \<Longrightarrow> \<exists>p<length slots. \<nexists>a. slots ! p = Entry a"
proof (induction slots)
  case (Cons e slots)
  show ?case
  proof (cases "\<exists>a. e = Entry a")
    case True
    then have "\<exists>p<length slots. \<nexists>a. slots ! p = Entry a" using Cons by auto
    then obtain p where "p < length slots" "\<nexists>a. slots ! p = Entry a" by blast
    then show ?thesis by (intro exI [of _ "Suc p"]) simp
  qed (use exI [of _ 0] in auto)
qed simp

lemma stored_Cons: "stored heap (e # es) i (Suc p) a \<longleftrightarrow> stored heap es i p a"
  by (simp add: stored_def)

lemma distinct_ids:
  assumes "valid heap slots" and "\<And>i p q a b. stored heap slots i p a \<Longrightarrow> stored heap slots i q b \<Longrightarrow> p = q"
  shows "distinct (map (id_at heap) (visited slots))"
  using assms
proof (induction slots)
  case (Cons e slots)
  have v: "valid heap slots" using Cons(2) by (fastforce simp: valid_def)
  have u: "p = q" if "stored heap slots i p a" "stored heap slots i q b" for i p q a b
    using Cons(3) [of i "Suc p" a "Suc q" b] that by (simp add: stored_Cons)
  have "id_at heap a \<notin> id_at heap ` set (visited slots)" if e: "e = Entry a" for a
  proof
    assume "id_at heap a \<in> id_at heap ` set (visited slots)"
    then obtain b where "maps_to heap slots (id_at heap a) b" by (auto simp: maps_to_visited [OF v])
    then obtain q where "stored heap (e # slots) (id_at heap a) (Suc q) b" by (auto simp: maps_to_def stored_Cons)
    moreover have "heap a \<noteq> None" using Cons(2) e by (fastforce simp: valid_def)
    then have "stored heap (e # slots) (id_at heap a) 0 a" using e by (auto simp: stored_def id_at_def)
    ultimately show False using Cons(3) by blast
  qed
  then show ?case using Cons(1) [OF v u] by (auto split: slot.splits)
qed simp

lemma table_ok_unique: "table_ok heap slots n \<Longrightarrow> stored heap slots i p a \<Longrightarrow> stored heap slots i q b \<Longrightarrow> p = q"
  unfolding table_ok_def by blast

lemma table_ok_distinct: "table_ok heap slots n \<Longrightarrow> distinct (map (id_at heap) (visited slots))"
  by (rule distinct_ids [OF table_ok_valid table_ok_unique])

lemma node_map_iff: "table_ok heap slots n \<Longrightarrow> node_map heap slots i = Some a \<longleftrightarrow> maps_to heap slots i a"
proof -
  assume ok: "table_ok heap slots n"
  have "distinct (map fst (map (\<lambda>a. (id_at heap a, a)) (visited slots)))"
    using table_ok_distinct [OF ok] by (simp add: comp_def)
  then show ?thesis
    by (auto simp: node_map_def maps_to_visited [OF table_ok_valid [OF ok]] map_of_eq_Some_iff)
qed

lemma node_map_None: "table_ok heap slots n \<Longrightarrow> node_map heap slots i = None \<longleftrightarrow> (\<forall>a. \<not> maps_to heap slots i a)"
  using node_map_iff by (metis not_None_eq)

lemma node_map_eqI:
  assumes "table_ok heap slots n" and "table_ok heap' slots' n'" and "\<And>k b. maps_to heap' slots' k b \<longleftrightarrow> m k = Some b"
  shows "node_map heap' slots' = m"
proof
  fix k
  show "node_map heap' slots' k = m k"
    using node_map_iff [OF assms(2), of k] assms(3) [of k] by (cases "m k") (auto simp: node_map_None [OF assms(2)])
qed

section \<open>Rehashing\<close>

lemma empty_table: "n \<in> set table_sizes \<Longrightarrow> table_ok heap (replicate (unat n) Empty) n"
  by (auto simp: table_ok_def stored_def)

lemma no_entry [simp]: "\<not> maps_to heap (replicate m Empty) i a"
  by (auto simp: maps_to_def stored_def)

lemma slot_for:
  assumes ok: "table_ok heap (entries ns) (ns_size ns)" and absent: "\<And>b. \<not> maps_to heap (entries ns) i b"
    and x: "heap a = Some x" "nodeId (node x) = i" and h: "UA_NodeId_hash i = Some h"
    and room: "length (visited (entries ns)) < length (entries ns)"
  obtains p slots where "findSlot heap ns i = Some (Some p)" "store (entries ns) p (Entry a) = Some slots"
    "table_ok heap slots (ns_size ns)" "\<And>k b. maps_to heap slots k b \<longleftrightarrow> maps_to heap (entries ns) k b \<or> k = i \<and> b = a"
    "length (visited slots) = Suc (length (visited (entries ns)))" "length slots = length (entries ns)"
proof -
  obtain q where q: "q < length (entries ns)" "\<nexists>a. entries ns ! q = Entry a" using free_slot [OF room] by blast
  obtain j where j: "findSlot heap ns i = Some (Some (probed (ns_size ns) h j))" "\<nexists>a. entries ns ! probed (ns_size ns) h j = Entry a"
      "\<And>k. k < j \<Longrightarrow> entries ns ! probed (ns_size ns) h k \<noteq> Empty"
    using findSlot_missing [OF ok absent h q] by blast
  let ?p = "probed (ns_size ns) h j"
  have n: "ns_size ns \<in> set table_sizes" "length (entries ns) = unat (ns_size ns)" using ok by (simp_all add: table_ok_def)
  have less: "?p < length (entries ns)"
    unfolding n(2) probed_def by (rule probe_seq.probe_less [OF table_sizes_seq [OF n(1)]])
  note ins = table_insert [OF ok absent x h refl j(2,3)]
  show ?thesis
  proof (rule that [of ?p "(entries ns)[?p := Entry a]"])
    show "store (entries ns) ?p (Entry a) = Some ((entries ns)[?p := Entry a])" using less by (simp add: store_def)
    show "length (visited ((entries ns)[?p := Entry a])) = Suc (length (visited (entries ns)))"
      by (rule visited_insert [OF less j(2)])
  qed (use j(1) ins in auto)
qed

lemma rehash_loop_ok:
  assumes "table_ok heap (entries ns) (ns_size ns)"
    and "j + length (visited es) = count"
    and "\<And>a. a \<in> set (visited es) \<Longrightarrow> \<exists>x h. heap a = Some x \<and> UA_NodeId_hash (nodeId (node x)) = Some h"
    and "distinct (map (id_at heap) (visited es))"
    and "\<And>a b. a \<in> set (visited es) \<Longrightarrow> \<not> maps_to heap (entries ns) (id_at heap a) b"
    and "length (visited (entries ns)) + length (visited es) < length (entries ns)"
  shows "\<exists>slots. rehash_loop heap es j count ns = Some (ns\<lparr>entries := slots\<rparr>) \<and> table_ok heap slots (ns_size ns) \<and>
     (\<forall>k b. maps_to heap slots k b \<longleftrightarrow> maps_to heap (entries ns) k b \<or> b \<in> set (visited es) \<and> k = id_at heap b) \<and>
     length (visited slots) = length (visited (entries ns)) + length (visited es)"
  using assms
proof (induction es arbitrary: ns j)
  case (Cons e es)
  show ?case
  proof (cases "\<exists>a. e = Entry a")
    case True
    then obtain a where e: "e = Entry a" by blast
    obtain x h where x: "heap a = Some x" "UA_NodeId_hash (nodeId (node x)) = Some h" using Cons(4) [of a] e by auto
    have id: "id_at heap a = nodeId (node x)" using x by (simp add: id_at_def)
    have absent: "\<not> maps_to heap (entries ns) (nodeId (node x)) b" for b using Cons(6) [of a b] e id by simp
    have room: "length (visited (entries ns)) < length (entries ns)" using Cons(7) by linarith
    obtain p slots where p: "findSlot heap ns (nodeId (node x)) = Some (Some p)" "store (entries ns) p (Entry a) = Some slots"
        "table_ok heap slots (ns_size ns)"
        "\<And>k b. maps_to heap slots k b \<longleftrightarrow> maps_to heap (entries ns) k b \<or> k = nodeId (node x) \<and> b = a"
        "length (visited slots) = Suc (length (visited (entries ns)))" "length slots = length (entries ns)"
      using slot_for [OF Cons(2) absent x(1) refl x(2) room] by blast
    let ?ns = "ns\<lparr>entries := slots\<rparr>"
    have "\<exists>slots'. rehash_loop heap es (j + 1) count ?ns = Some (?ns\<lparr>entries := slots'\<rparr>) \<and> table_ok heap slots' (ns_size ?ns) \<and>
      (\<forall>k b. maps_to heap slots' k b \<longleftrightarrow> maps_to heap (entries ?ns) k b \<or> b \<in> set (visited es) \<and> k = id_at heap b) \<and>
      length (visited slots') = length (visited (entries ?ns)) + length (visited es)"
    proof (rule Cons(1))
      show "\<not> maps_to heap (entries ?ns) (id_at heap b) c" if "b \<in> set (visited es)" for b c
        using Cons(5) Cons(6) [of b c] that e id by (auto simp: p(4) image_iff)
    qed (use Cons(3-7) e p(3,5,6) in auto)
    then obtain slots' where s: "rehash_loop heap es (j + 1) count ?ns = Some (?ns\<lparr>entries := slots'\<rparr>)"
      "table_ok heap slots' (ns_size ns)"
      "\<And>k b. maps_to heap slots' k b \<longleftrightarrow> maps_to heap slots k b \<or> b \<in> set (visited es) \<and> k = id_at heap b"
      "length (visited slots') = length (visited slots) + length (visited es)" by auto
    have "j < count" using Cons(3) e by simp
    then have "rehash_loop heap (e # es) j count ns = Some (ns\<lparr>entries := slots'\<rparr>)" using e x(1) p(1,2) s(1) by simp
    moreover have "maps_to heap slots' k b \<longleftrightarrow> maps_to heap (entries ns) k b \<or> b \<in> set (visited (e # es)) \<and> k = id_at heap b" for k b
      using e id by (auto simp: s(3) p(4))
    moreover have "length (visited slots') = length (visited (entries ns)) + length (visited (e # es))" using e p(5) s(4) by simp
    ultimately show ?thesis using s(2) by blast
  next
    case False
    then have v: "visited (e # es) = visited es" by (cases e) auto
    have "rehash_loop heap (e # es) j count ns = rehash_loop heap es j count ns"
      using False v Cons(3) by (cases e; cases es) auto
    then show ?thesis using Cons unfolding v by simp
  qed
next
  case Nil
  then show ?case by (intro exI [of _ "entries ns"]) simp
qed

section \<open>Resizing, insertion and removal\<close>

text \<open>Half a million nodes fit in the sizes whose primality is shown.\<close>

definition roomy :: "UA_NodeStore \<Rightarrow> bool" where
  "roomy ns \<longleftrightarrow> ns_count ns \<le> 524286"

lemma store_okD:
  assumes "store_ok heap ns"
  shows "table_ok heap (entries ns) (ns_size ns)" and "ns_size ns \<in> set table_sizes"
    and "length (entries ns) = unat (ns_size ns)" and "unat (ns_count ns) = length (visited (entries ns))"
    and "unat (ns_size ns) \<le> 1048573" and "7 \<le> unat (ns_size ns)" and "unat (ns_count ns) \<le> unat (ns_size ns)"
proof -
  show ok: "table_ok heap (entries ns) (ns_size ns)" and c: "unat (ns_count ns) = length (visited (entries ns))"
    using assms by (simp_all add: store_ok_def)
  show n: "ns_size ns \<in> set table_sizes" "length (entries ns) = unat (ns_size ns)" using ok by (simp_all add: table_ok_def)
  show "unat (ns_size ns) \<le> 1048573" "7 \<le> unat (ns_size ns)" using table_sizes_bounds [OF n(1)] by auto
  have "length (visited s) \<le> length s" for s by (induction s) (auto split: slot.splits)
  then show "unat (ns_count ns) \<le> unat (ns_size ns)" by (simp add: c n(2) [symmetric])
qed

lemma unat_times: "unat (x :: u32) * k < 4294967296 \<Longrightarrow> unat (x * of_nat k) = unat x * k"
proof -
  assume less: "unat x * k < 4294967296"
  have "x * of_nat k = (of_nat (unat x * k) :: u32)" by simp
  moreover have "unat (of_nat (unat x * k) :: u32) = unat x * k" using less by (simp only: unat_of_nat take_bit_nat_eq_self) simp
  ultimately show ?thesis by (simp only:)
qed

lemma unat_times2: "unat (x :: u32) \<le> 1048573 \<Longrightarrow> unat (x * 2) = unat x * 2"
  and unat_times3: "unat (x :: u32) \<le> 1048573 \<Longrightarrow> unat (x * 3) = unat x * 3"
  and unat_times4: "unat (x :: u32) \<le> 1048573 \<Longrightarrow> unat (x * 4) = unat x * 4"
  and unat_times8: "unat (x :: u32) \<le> 1048573 \<Longrightarrow> unat (x * 8) = unat x * 8"
  using unat_times [of x 2] unat_times [of x 3] unat_times [of x 4] unat_times [of x 8] by simp_all

lemma visited_known:
  assumes ok: "table_ok heap slots n" and a: "a \<in> set (visited slots)"
  shows "\<exists>x h. heap a = Some x \<and> UA_NodeId_hash (nodeId (node x)) = Some h"
proof -
  have "Entry a \<in> set slots" using a by (simp add: set_visited)
  then obtain p where "p < length slots" "slots ! p = Entry a" by (auto simp: in_set_conv_nth)
  then show ?thesis using ok unfolding table_ok_def by blast
qed

lemma resized:
  assumes ok: "store_ok heap ns" and n: "nsize \<in> set table_sizes" and room: "unat (ns_count ns) < unat nsize"
  shows "\<exists>slots. rehash_loop heap (entries ns) 0 (unat (ns_count ns))
       (ns\<lparr>entries := replicate (unat nsize) Empty, ns_size := nsize, sizePrimeIndex := i\<rparr>)
     = Some (ns\<lparr>entries := slots, ns_size := nsize, sizePrimeIndex := i\<rparr>) \<and>
     store_ok heap (ns\<lparr>entries := slots, ns_size := nsize, sizePrimeIndex := i\<rparr>) \<and> node_map heap slots = node_map heap (entries ns)"
proof -
  note d = store_okD [OF ok]
  let ?ns = "ns\<lparr>entries := replicate (unat nsize) Empty, ns_size := nsize, sizePrimeIndex := i\<rparr>"
  have "\<exists>slots. rehash_loop heap (entries ns) 0 (unat (ns_count ns)) ?ns = Some (?ns\<lparr>entries := slots\<rparr>) \<and> table_ok heap slots (ns_size ?ns) \<and>
     (\<forall>k b. maps_to heap slots k b \<longleftrightarrow> maps_to heap (entries ?ns) k b \<or> b \<in> set (visited (entries ns)) \<and> k = id_at heap b) \<and>
     length (visited slots) = length (visited (entries ?ns)) + length (visited (entries ns))"
    by (rule rehash_loop_ok)
      (use d(4) room visited_known [OF d(1)] table_ok_distinct [OF d(1)] empty_table [OF n] in simp_all)
  then obtain slots where s: "rehash_loop heap (entries ns) 0 (unat (ns_count ns)) ?ns = Some (?ns\<lparr>entries := slots\<rparr>)"
    "table_ok heap slots nsize" "\<And>k b. maps_to heap slots k b \<longleftrightarrow> b \<in> set (visited (entries ns)) \<and> k = id_at heap b"
    "length (visited slots) = length (visited (entries ns))" by auto
  have "node_map heap slots = node_map heap (entries ns)"
    using node_map_iff [OF d(1)] by (intro node_map_eqI [OF d(1) s(2)]) (auto simp: s(3) maps_to_visited [OF table_ok_valid [OF d(1)]])
  then show ?thesis using s d(4) by (intro exI [of _ slots]) (simp add: store_ok_def)
qed

text \<open>What \<open>expand\<close> leaves of the store.\<close>

definition same_nodes :: "'a node_heap \<Rightarrow> UA_NodeStore \<Rightarrow> UA_NodeStore \<Rightarrow> bool" where
  "same_nodes heap ns ns' \<longleftrightarrow> store_ok heap ns' \<and> node_map heap (entries ns') = node_map heap (entries ns) \<and> ns_count ns' = ns_count ns"

lemma expand_ok:
  assumes ok: "store_ok heap ns" and small: "roomy ns"
  shows "\<exists>rc ns'. expand grant heap ns = Some (rc, ns') \<and> same_nodes heap ns ns' \<and>
     (if grant then rc = UA_STATUSCODE_GOOD \<and> unat (ns_count ns) < unat (ns_size ns')
      else rc = UA_STATUSCODE_GOOD \<and> unat (ns_count ns) < unat (ns_size ns') \<or> rc = UA_STATUSCODE_BADOUTOFMEMORY)"
proof -
  note d = store_okD [OF ok]
  have c: "unat (ns_count ns) \<le> 524286" using small by (simp add: roomy_def word_le_nat_alt)
  then have two: "unat (ns_count ns * 2) = unat (ns_count ns) * 2" by (intro unat_times2) simp
  then have bound: "ns_count ns * 2 \<le> 1048573" using c by (simp add: word_le_nat_alt)
  obtain i where i: "higher_prime_index (ns_count ns * 2) = Some i" "i < length primes" "primes ! i \<in> set table_sizes"
    "ns_count ns * 2 \<le> primes ! i" using higher_prime_ok [OF bound] by blast
  have "unat (ns_count ns) < unat (primes ! i)"
    using i(4) two table_sizes_bounds [OF i(3)] by (cases "unat (ns_count ns) = 0") (simp_all add: word_le_nat_alt)
  from resized [OF ok i(3) this] obtain slots where "rehash_loop heap (entries ns) 0 (unat (ns_count ns))
       (ns\<lparr>entries := replicate (unat (primes ! i)) Empty, ns_size := primes ! i, sizePrimeIndex := of_nat i\<rparr>)
     = Some (ns\<lparr>entries := slots, ns_size := primes ! i, sizePrimeIndex := of_nat i\<rparr>)"
    "store_ok heap (ns\<lparr>entries := slots, ns_size := primes ! i, sizePrimeIndex := of_nat i\<rparr>)" "node_map heap slots = node_map heap (entries ns)"
    by blast
  moreover have "unat (ns_count ns) < unat (ns_size ns)" if "ns_count ns * 2 < ns_size ns"
    using that two by (simp add: word_less_nat_alt)
  ultimately show ?thesis using ok i(1,2) \<open>unat (ns_count ns) < unat (primes ! i)\<close>
    by (simp add: expand_def Let_def same_nodes_def status_codes)
qed

text \<open>A node whose identifier is in a table is found by it; \<open>UA_NodeStore_get\<close> is the map.\<close>

lemma entry_at_stored: "stored heap (entries ns) i p a \<Longrightarrow> entry_at ns p = Some a"
  by (simp add: stored_def entry_at_def)

lemma get_node:
  assumes ok: "store_ok heap ns"
  shows "node_map heap (entries ns) i = Some a \<Longrightarrow> UA_NodeStore_get heap ns i = Some (Some a)"
    and "node_map heap (entries ns) i = None \<Longrightarrow> UA_NodeId_hash i = Some h \<Longrightarrow>
      UA_NodeStore_get heap ns i = (if Empty \<in> set (entries ns) then Some None else None)"
proof -
  note t = store_okD(1) [OF ok]
  { assume "node_map heap (entries ns) i = Some a"
    then obtain p where p: "stored heap (entries ns) i p a" using node_map_iff [OF t] by (auto simp: maps_to_def)
    show "UA_NodeStore_get heap ns i = Some (Some a)"
      using findNode_stored [OF t p] entry_at_stored [OF p] by (simp add: UA_NodeStore_get_def) }
  assume "node_map heap (entries ns) i = None" "UA_NodeId_hash i = Some h"
  then show "UA_NodeStore_get heap ns i = (if Empty \<in> set (entries ns) then Some None else None)"
    using findNode_missing [OF t _ \<open>UA_NodeId_hash i = Some h\<close>] by (simp add: UA_NodeStore_get_def node_map_None [OF t])
qed

text \<open>Insertion of a node with an identifier of its own that is new.\<close>

definition named :: "UA_NodeId \<Rightarrow> bool" where
  "named i \<longleftrightarrow> \<not> UA_NodeId_isNull (i\<lparr>namespaceIndex := 0\<rparr>)"

lemma insert_into:
  assumes ok: "store_ok heap ns" and room: "unat (ns_count ns) < unat (ns_size ns)"
    and absent: "node_map heap (entries ns) i = None" and x: "heap a = Some x" "nodeId (node x) = i" and h: "UA_NodeId_hash i = Some h"
  shows "\<exists>p slots. findSlot heap ns i = Some (Some p) \<and> store (entries ns) p (Entry a) = Some slots \<and>
     store_ok heap (ns\<lparr>entries := slots, ns_count := ns_count ns + 1\<rparr>) \<and> node_map heap slots = (node_map heap (entries ns))(i \<mapsto> a)"
proof -
  note d = store_okD [OF ok]
  have none: "\<not> maps_to heap (entries ns) i b" for b using absent node_map_None [OF d(1)] by simp
  have "length (visited (entries ns)) < length (entries ns)" using room d(3,4) by simp
  from slot_for [OF d(1) none x h this] obtain p slots where s: "findSlot heap ns i = Some (Some p)"
    "store (entries ns) p (Entry a) = Some slots" "table_ok heap slots (ns_size ns)"
    "\<And>k b. maps_to heap slots k b \<longleftrightarrow> maps_to heap (entries ns) k b \<or> k = i \<and> b = a"
    "length (visited slots) = Suc (length (visited (entries ns)))" "length slots = length (entries ns)" by blast
  have "unat (ns_count ns + 1) = unat (ns_count ns) + 1"
    using d(5) room by (simp add: unat_word_ariths(1) del: unat_mod)
  then have "store_ok heap (ns\<lparr>entries := slots, ns_count := ns_count ns + 1\<rparr>)" using s(3,5) d(4) by (simp add: store_ok_def)
  moreover have "node_map heap slots = (node_map heap (entries ns))(i \<mapsto> a)"
    using node_map_iff [OF d(1)] none by (intro node_map_eqI [OF d(1) s(3)]) (auto simp: s(4))
  ultimately show ?thesis using s(1,2) by blast
qed

lemma insert_node:
  assumes ok: "store_ok heap ns" and small: "roomy ns" and absent: "node_map heap (entries ns) i = None"
    and x: "heap a = Some x" "nodeId (node x) = i" and i: "named i" and h: "UA_NodeId_hash i = Some h"
  shows "\<exists>rc ns'. UA_NodeStore_insert grant heap ns a = Some (rc, heap, ns') \<and> store_ok heap ns' \<and>
     (rc = UA_STATUSCODE_GOOD \<and> node_map heap (entries ns') = (node_map heap (entries ns))(i \<mapsto> a) \<and> ns_count ns' = ns_count ns + 1 \<or>
      \<not> grant \<and> rc = UA_STATUSCODE_BADINTERNALERROR \<and> node_map heap (entries ns') = node_map heap (entries ns) \<and> ns_count ns' = ns_count ns)"
proof -
  note d = store_okD [OF ok]
  let ?full = "ns_size ns * 3 \<le> ns_count ns * 4"
  have room: "unat (ns_count ns) < unat (ns_size ns)" if "\<not> ?full"
    using that d(5-7) unat_times3 [of "ns_size ns"] unat_times4 [of "ns_count ns"] by (simp add: word_le_nat_alt)
  obtain rc ns1 where e: "(if ?full then expand grant heap ns else Some (UA_STATUSCODE_GOOD, ns)) = Some (rc, ns1)"
    "same_nodes heap ns ns1" "rc = UA_STATUSCODE_GOOD \<Longrightarrow> unat (ns_count ns1) < unat (ns_size ns1)" "grant \<Longrightarrow> rc = UA_STATUSCODE_GOOD"
  proof (cases ?full)
    case True
    obtain rc ns1 where "expand grant heap ns = Some (rc, ns1)" "same_nodes heap ns ns1"
      "if grant then rc = UA_STATUSCODE_GOOD \<and> unat (ns_count ns) < unat (ns_size ns1)
       else rc = UA_STATUSCODE_GOOD \<and> unat (ns_count ns) < unat (ns_size ns1) \<or> rc = UA_STATUSCODE_BADOUTOFMEMORY"
      using expand_ok [OF ok small, of grant] by blast
    then show ?thesis using True that [of rc ns1] by (auto simp: same_nodes_def status_codes split: if_splits)
  next
    case False
    then show ?thesis using that [of UA_STATUSCODE_GOOD ns] room [OF False] ok by (simp add: same_nodes_def)
  qed
  have s: "store_ok heap ns1" "node_map heap (entries ns1) = node_map heap (entries ns)" "ns_count ns1 = ns_count ns"
    using e(2) by (simp_all add: same_nodes_def)
  have fresh: "node_map heap (entries ns1) i = None" using absent s(2) by simp
  show ?thesis
  proof (cases "rc = UA_STATUSCODE_GOOD")
    case True
    obtain p slots where "findSlot heap ns1 i = Some (Some p)" "store (entries ns1) p (Entry a) = Some slots"
      "store_ok heap (ns1\<lparr>entries := slots, ns_count := ns_count ns1 + 1\<rparr>)" "node_map heap slots = (node_map heap (entries ns1))(i \<mapsto> a)"
      using insert_into [OF s(1) e(3) [OF True] fresh x h] by blast
    then show ?thesis using e(1) x i True s by (simp add: UA_NodeStore_insert_def named_def Let_def)
  next
    case False
    then have "\<not> grant" using e(4) by blast
    with False show ?thesis using s unfolding UA_NodeStore_insert_def e(1) by simp
  qed
qed

lemma remove_node:
  assumes ok: "store_ok heap ns" and small: "roomy ns" and a: "node_map heap (entries ns) i = Some a"
  shows "\<exists>ns'. UA_NodeStore_remove grant heap ns i = Some (UA_STATUSCODE_GOOD, heap(a := None), ns') \<and> store_ok (heap(a := None)) ns' \<and>
     node_map (heap(a := None)) (entries ns') = (node_map heap (entries ns))(i := None) \<and> ns_count ns' = ns_count ns - 1"
proof -
  note d = store_okD [OF ok]
  obtain p where p: "stored heap (entries ns) i p a" using a node_map_iff [OF d(1)] by (auto simp: maps_to_def)
  let ?heap = "heap(a := None)" and ?slots = "(entries ns)[p := Tombstone]"
  let ?ns = "ns\<lparr>entries := ?slots, ns_count := ns_count ns - 1\<rparr>"
  have less: "p < length (entries ns)" "entries ns ! p = Entry a" and x: "heap a \<noteq> None" using p by (auto simp: stored_def)
  note rm = table_remove [OF d(1) p]
  have "Suc (length (visited ?slots)) = unat (ns_count ns)" using visited_remove [OF less] d(4) by simp
  then have c: "unat (ns_count ns - 1) = length (visited ?slots)" "unat (ns_count ns - 1) \<le> unat (ns_count ns)"
    using unat_sub [of 1 "ns_count ns"] by (auto simp: word_le_nat_alt)
  have ok': "store_ok ?heap ?ns" using rm(1) c by (simp add: store_ok_def)
  have map': "node_map ?heap ?slots = (node_map heap (entries ns))(i := None)"
    using node_map_iff [OF d(1)] by (intro node_map_eqI [OF d(1) rm(1)]) (auto simp: rm(2))
  have small': "roomy ?ns" using small c(2) by (simp add: roomy_def word_le_nat_alt)
  obtain rc ns' where e: "expand grant ?heap ?ns = Some (rc, ns')" "same_nodes ?heap ?ns ns'"
    using expand_ok [OF ok' small', of grant] by blast
  show ?thesis
    using findNode_stored [OF d(1) p] entry_at_stored [OF p] x less(1) e ok' map'
    by (auto simp: UA_NodeStore_remove_def deleteEntry_def store_def Let_def same_nodes_def)
qed

end
