(* ===== verification/NodeStoreProperties.thy ===== *)
theory NodeStoreProperties
  imports NodeStoreOps
begin

text \<open>
  Properties of the node store, with the two ways in which its tombstones break the promise of a map.
\<close>

section \<open>Runs\<close>

text \<open>What the server does with a store: it fills in a new node, it inserts a node under an identifier that
  is not in the store, and it removes a node.\<close>

inductive store_run :: "'a node_heap \<Rightarrow> UA_NodeStore \<Rightarrow> bool" where
  opened: "UA_NodeStore_new True True = Some (Some ns) \<Longrightarrow> store_run heap ns"
| filled: "store_run heap ns \<Longrightarrow> heap a = None \<Longrightarrow> store_run (heap(a := Some x)) ns"
| inserted: "store_run heap ns \<Longrightarrow> roomy ns \<Longrightarrow> heap a = Some x \<Longrightarrow> named (nodeId (node x)) \<Longrightarrow>
    UA_NodeId_hash (nodeId (node x)) \<noteq> None \<Longrightarrow> node_map heap (entries ns) (nodeId (node x)) = None \<Longrightarrow>
    UA_NodeStore_insert grant heap ns a = Some (rc, heap', ns') \<Longrightarrow> store_run heap' ns'"
| removed: "store_run heap ns \<Longrightarrow> roomy ns \<Longrightarrow> node_map heap (entries ns) i = Some a \<Longrightarrow>
    UA_NodeStore_remove grant heap ns i = Some (rc, heap', ns') \<Longrightarrow> store_run heap' ns'"

lemma new_store: "UA_NodeStore_new True True = Some (Some \<lparr>entries = replicate 127 Empty, ns_size = 127, ns_count = 0, sizePrimeIndex = 4\<rparr>)"
proof -
  have "higher_prime_index UA_NODESTORE_MINSIZE = Some 4" "load primes 4 = Some 127" by code_simp+
  then show ?thesis by (simp add: UA_NodeStore_new_def)
qed

lemma new_store_ok: "UA_NodeStore_new True True = Some (Some ns) \<Longrightarrow> store_ok heap ns"
  using empty_table [of 127 heap] by (auto simp: new_store store_ok_def table_sizes_list)

lemma filled_ok:
  assumes ok: "store_ok heap ns" and a: "heap a = None"
  shows "store_ok (heap(a := Some x)) ns" and "node_map (heap(a := Some x)) (entries ns) = node_map heap (entries ns)"
proof -
  note d = store_okD [OF ok]
  have old: "b \<noteq> a" if "entries ns ! p = Entry b" "p < length (entries ns)" for p b
    using table_ok_valid [OF d(1)] that a by (auto simp: valid_def)
  then have st: "stored (heap(a := Some x)) (entries ns) i p b \<longleftrightarrow> stored heap (entries ns) i p b" for i p b
    by (auto simp: stored_def)
  have t: "table_ok (heap(a := Some x)) (entries ns) (ns_size ns)"
    unfolding table_ok_def st
  proof (intro conjI allI impI)
    fix p b assume p: "p < length (entries ns)" "entries ns ! p = Entry b"
    then have "b \<noteq> a" using old by blast
    then show "\<exists>y h j. (heap(a := Some x)) b = Some y \<and> UA_NodeId_hash (nodeId (node y)) = Some h \<and> probed (ns_size ns) h j = p \<and>
        (\<forall>i<j. entries ns ! probed (ns_size ns) h i \<noteq> Empty)"
      using d(1) p by (simp add: table_ok_def)
  qed (use d(2,3) table_ok_unique [OF d(1)] in auto)
  then show "store_ok (heap(a := Some x)) ns" using ok by (simp add: store_ok_def)
  show "node_map (heap(a := Some x)) (entries ns) = node_map heap (entries ns)"
    using node_map_iff [OF d(1)] by (intro node_map_eqI [OF d(1) t]) (simp add: maps_to_def st)
qed

lemma store_run_ok: "store_run heap ns \<Longrightarrow> store_ok heap ns"
proof (induction rule: store_run.induct)
  case (inserted heap ns a x grant rc heap' ns')
  then show ?case using insert_node [of heap ns "nodeId (node x)" a x _ grant] by fastforce
next
  case (removed heap ns i a grant rc heap' ns')
  then show ?case using remove_node [of heap ns i a grant] by (metis option.inject prod.inject)
next
  case (filled heap ns a x)
  show ?case using filled_ok(1) [OF filled(3,2)] .
qed (rule new_store_ok)

section \<open>A map\<close>

text \<open>C22: After any run of insertions of new identifiers and removals, a lookup gives the node that the store holds for
  the identifier, and NULL for an identifier that it does not hold, as long as one slot has never been used; when every slot
  has been used, the search for an identifier that is not there never returns.\<close>

theorem store_lookup:
  assumes "store_run heap ns" and "UA_NodeId_hash i = Some h"
  shows "UA_NodeStore_get heap ns i = (case node_map heap (entries ns) i of
      Some a \<Rightarrow> Some (Some a)
    | None \<Rightarrow> if Empty \<in> set (entries ns) then Some None else None)"
  using get_node [OF store_run_ok [OF assms(1)], of i] assms(2) by (auto split: option.splits)

definition example_id :: "u32 \<Rightarrow> UA_NodeId" where
  "example_id i = \<lparr>namespaceIndex = 1, ident = NUMERIC i\<rparr>"

definition example_entry :: "u32 \<Rightarrow> unit UA_NodeStoreEntry" where
  "example_entry i = \<lparr>orig = None, node = \<lparr>nodeId = example_id i, nodeClass = OBJECT, members = ()\<rparr>\<rparr>"

definition new_ns :: UA_NodeStore where
  "new_ns = \<lparr>entries = replicate 127 Empty, ns_size = 127, ns_count = 0, sizePrimeIndex = 4\<rparr>"

lemma new_ns_run: "store_run heap new_ns"
  by (rule opened) (simp add: new_store new_ns_def)

theorem store_lookup_witness:
  "UA_NodeStore_get (\<lambda>_. None :: unit UA_NodeStoreEntry option) new_ns (example_id 5) = Some None"
proof -
  have "node_map (\<lambda>_. None :: unit UA_NodeStoreEntry option) (entries new_ns) (example_id 5) = None"
    by (simp add: node_map_def new_ns_def)
  moreover have "Empty \<in> set (entries new_ns)" by (simp add: new_ns_def)
  ultimately show ?thesis using store_lookup [OF new_ns_run, of "example_id 5" "13272178806 mod 4294967296" "\<lambda>_. None :: unit UA_NodeStoreEntry option"]
    by (simp add: UA_NodeId_hash_def example_id_def)
qed

text \<open>C19: Inserting a node with an identifier of its own that is new to the store succeeds and adds exactly this
  identifier to the map that the store represents, growing the table when it is too full. Only when the larger table cannot
  be allocated is the node refused, and then the store still holds what it held.\<close>

theorem store_insert:
  assumes "store_run heap ns" and "roomy ns" and "heap a = Some x" and "nodeId (node x) = i" and "named i"
    and "UA_NodeId_hash i = Some h" and "node_map heap (entries ns) i = None"
  shows "\<exists>rc ns'. UA_NodeStore_insert grant heap ns a = Some (rc, heap, ns') \<and> store_run heap ns' \<and>
     (if rc = UA_STATUSCODE_GOOD then node_map heap (entries ns') = (node_map heap (entries ns))(i \<mapsto> a) \<and> ns_count ns' = ns_count ns + 1
      else \<not> grant \<and> rc = UA_STATUSCODE_BADINTERNALERROR \<and> node_map heap (entries ns') = node_map heap (entries ns) \<and>
        ns_count ns' = ns_count ns)"
proof -
  obtain rc ns' where r: "UA_NodeStore_insert grant heap ns a = Some (rc, heap, ns')"
     "rc = UA_STATUSCODE_GOOD \<and> node_map heap (entries ns') = (node_map heap (entries ns))(i \<mapsto> a) \<and> ns_count ns' = ns_count ns + 1 \<or>
      \<not> grant \<and> rc = UA_STATUSCODE_BADINTERNALERROR \<and> node_map heap (entries ns') = node_map heap (entries ns) \<and> ns_count ns' = ns_count ns"
    using insert_node [OF store_run_ok [OF assms(1)] assms(2,7,3-6), of grant] by blast
  have "store_run heap ns'" by (rule inserted [OF assms(1-3) _ _ _ r(1)]) (use assms in simp_all)
  then show ?thesis using r by (intro exI [of _ rc] exI [of _ ns'] conjI) (auto simp: status_codes)
qed

definition one_entry :: "unit node_heap" where
  "one_entry = (\<lambda>_. None)(0 := Some (example_entry 5))"

lemma one_entry_run: "store_run one_entry new_ns"
  unfolding one_entry_def by (rule filled [OF new_ns_run]) simp

lemma example_hash: "UA_NodeId_hash (example_id i) = Some h \<Longrightarrow> UA_NodeId_hash (nodeId (node (example_entry i))) = Some h"
  by (simp add: example_entry_def)

theorem store_insert_witness:
  "\<exists>ns. UA_NodeStore_insert True one_entry new_ns 0 = Some (UA_STATUSCODE_GOOD, one_entry, ns) \<and>
     node_map one_entry (entries ns) = [example_id 5 \<mapsto> 0]"
proof -
  have m: "node_map one_entry (entries new_ns) = (\<lambda>_. None)" by (simp add: node_map_def new_ns_def fun_eq_iff)
  have "named (example_id 5)" by code_simp
  moreover have "UA_NodeId_hash (example_id 5) = Some (13272178806 mod 4294967296)" by code_simp
  moreover have "roomy new_ns" by code_simp
  moreover have "one_entry 0 = Some (example_entry 5)" "nodeId (node (example_entry 5)) = example_id 5"
    by (simp_all add: one_entry_def example_entry_def)
  ultimately obtain rc ns where r: "UA_NodeStore_insert True one_entry new_ns 0 = Some (rc, one_entry, ns)"
    "if rc = UA_STATUSCODE_GOOD then node_map one_entry (entries ns) = [example_id 5 \<mapsto> 0] \<and> ns_count ns = ns_count new_ns + 1
     else \<not> True \<and> rc = UA_STATUSCODE_BADINTERNALERROR \<and> node_map one_entry (entries ns) = (\<lambda>_. None) \<and> ns_count ns = ns_count new_ns"
    using store_insert [OF one_entry_run, of 0 "example_entry 5" "example_id 5" _ True] unfolding m by metis
  then have "rc = UA_STATUSCODE_GOOD" by (auto split: if_splits)
  then show ?thesis using r by auto
qed

section \<open>Nodes that come and go\<close>

text \<open>A node is filled in at address \<open>a\<close>, inserted and removed again.\<close>

definition come_and_go :: "nat \<Rightarrow> 'a UA_NodeStoreEntry \<Rightarrow> 'a node_heap \<times> UA_NodeStore \<Rightarrow> ('a node_heap \<times> UA_NodeStore) option" where
  "come_and_go a x = (\<lambda>(heap, ns).
     do { (rc, heap, ns) \<leftarrow> UA_NodeStore_insert True (heap(a := Some x)) ns a;
          (rc, heap, ns) \<leftarrow> UA_NodeStore_remove True heap ns (nodeId (node x));
          Some (heap, ns) })"

fun come_and_go_all :: "nat \<Rightarrow> 'a UA_NodeStoreEntry list \<Rightarrow> 'a node_heap \<times> UA_NodeStore \<Rightarrow> ('a node_heap \<times> UA_NodeStore) option" where
  "come_and_go_all a [] s = Some s"
| "come_and_go_all a (x # xs) s = do { s \<leftarrow> come_and_go a x s; come_and_go_all a xs s }"

definition small_ns :: "slot list \<Rightarrow> UA_NodeStore" where
  "small_ns slots = \<lparr>entries = slots, ns_size = 7, ns_count = 0, sizePrimeIndex = 0\<rparr>"

lemma first_free:
  assumes "p < length (entries ns)" and "UA_NodeId_hash i = Some h" and "unat (h mod ns_size ns) = p" and "\<nexists>b. entries ns ! p = Entry b"
  shows "findSlot heap ns i = Some (Some p)"
  using assms by (subst findSlot_def, subst findSlot_loop.simps) (cases "entries ns ! p"; simp add: ns_mod_def Let_def)

lemma first_taken:
  assumes "p < length (entries ns)" and "UA_NodeId_hash i = Some h" and "unat (h mod ns_size ns) = p" and "entries ns ! p = Entry a"
    and "heap a = Some x" and "nodeId (node x) = i"
  shows "findNode heap ns i = Some (Some p)"
  using assms by (subst findNode_def, subst findNode_loop.simps) (simp add: ns_mod_def Let_def)

lemma expand_empty:
  "expand True heap \<lparr>entries = slots, ns_size = 127, ns_count = 0, sizePrimeIndex = i\<rparr> = Some (UA_STATUSCODE_GOOD, small_ns (replicate 7 Empty))"
proof -
  have p: "higher_prime_index 0 = Some 0" "load primes 0 = Some 7" by code_simp+
  have "rehash_loop heap slots 0 0 ns = Some ns" for ns by (cases slots) simp_all
  then show ?thesis by (simp add: expand_def p Let_def UA_NODESTORE_MINSIZE_def small_ns_def)
qed

lemma come_and_go_slot:
  assumes "entries ns = slots" and "ns_count ns = 0" and "ns_size ns * 3 \<noteq> 0" and "p < length slots" and "\<nexists>b. slots ! p = Entry b"
    and "named (nodeId (node x))" and "UA_NodeId_hash (nodeId (node x)) = Some h" and "unat (h mod ns_size ns) = p"
  shows "come_and_go a x (heap, ns) =
    (let ns = ns\<lparr>entries := slots[p := Tombstone], ns_count := 0\<rparr>; heap = heap(a := None)
     in if 0 < ns_size ns \<and> ns_size ns > 32 then do { (_, ns) \<leftarrow> expand True heap ns; Some (heap, ns) } else Some (heap, ns))"
proof -
  let ?h = "heap(a := Some x)" and ?n = "ns\<lparr>entries := slots[p := Entry a], ns_count := 1\<rparr>"
  have "findSlot ?h ns (nodeId (node x)) = Some (Some p)" by (rule first_free) (use assms in simp_all)
  then have i: "UA_NodeStore_insert True ?h ns a = Some (UA_STATUSCODE_GOOD, ?h, ?n)"
    using assms(1-4,6) by (simp add: UA_NodeStore_insert_def named_def Let_def store_def)
  have "?h a = Some x" by simp
  then have "findNode ?h ?n (nodeId (node x)) = Some (Some p)"
    using assms(1,4,7,8) first_taken [of p ?n _ h a ?h x] by simp
  then have "UA_NodeStore_remove True ?h ?n (nodeId (node x)) =
     (let ns = ns\<lparr>entries := slots[p := Tombstone], ns_count := 0\<rparr>; heap = heap(a := None)
      in if 0 < ns_size ns \<and> ns_size ns > 32 then do { (_, ns) \<leftarrow> expand True heap ns; Some (UA_STATUSCODE_GOOD, heap, ns) }
         else Some (UA_STATUSCODE_GOOD, heap, ns))"
    using assms(2,4) by (simp add: UA_NodeStore_remove_def entry_at_def deleteEntry_def store_def Let_def)
  then show ?thesis using i by (simp add: come_and_go_def Let_def split_beta')
qed

lemma come_and_go_run:
  assumes "store_run heap ns" and "heap a = None" and "roomy ns" and "visited (entries ns) = []"
    and "named (nodeId (node x))" and "UA_NodeId_hash (nodeId (node x)) = Some h" and "come_and_go a x (heap, ns) = Some (heap', ns')"
  shows "store_run heap' ns'"
proof -
  let ?h = "heap(a := Some x)" and ?i = "nodeId (node x)"
  have run: "store_run ?h ns" by (rule filled [OF assms(1,2)])
  have empty: "node_map ?h (entries ns) = (\<lambda>_. None)" by (simp add: node_map_def assms(4) fun_eq_iff)
  have x: "?h a = Some x" by simp
  obtain rc ns1 where r: "UA_NodeStore_insert True ?h ns a = Some (rc, ?h, ns1)" "store_ok ?h ns1"
      "rc = UA_STATUSCODE_GOOD \<and> node_map ?h (entries ns1) = (node_map ?h (entries ns))(?i \<mapsto> a) \<and> ns_count ns1 = ns_count ns + 1"
    using insert_node [of ?h ns ?i a x h True, OF store_run_ok [OF run] assms(3) _ x refl assms(5,6)] empty by auto
  have run1: "store_run ?h ns1"
    by (rule inserted [OF run assms(3) x assms(5) _ _ r(1)]) (use assms(6) in \<open>simp_all add: empty\<close>)
  have "unat (ns_count ns) = 0" using store_okD(4) [OF store_run_ok [OF run]] assms(4) by simp
  then have "ns_count ns1 = 1" using r(3) by (simp add: unat_eq_0)
  then have "roomy ns1" by (simp add: roomy_def)
  moreover have "node_map ?h (entries ns1) ?i = Some a" using r(3) by simp
  moreover obtain rc' where "UA_NodeStore_remove True ?h ns1 ?i = Some (rc', heap', ns')"
    using assms(7) r(1) by (auto simp: come_and_go_def bind_eq_Some_conv)
  ultimately show ?thesis using removed [OF run1] by blast
qed

lemma passers_small:
  assumes "length slots = 7" and "\<forall>b. Entry b \<notin> set slots" and "named (example_id k)"
    and "UA_NodeId_hash (example_id k) = Some h" and "unat (h mod 7) = p" and "heap a = None"
  shows "come_and_go a (example_entry k) (heap, small_ns slots) = Some (heap, small_ns (slots[p := Tombstone]))"
proof -
  have "p < 7" using assms(5) by (auto simp: unat_mod)
  then have free: "\<forall>b. slots ! p \<noteq> Entry b" using assms(1,2) by (metis nth_mem)
  have "heap(a := None) = heap" using assms(6) by (simp add: fun_upd_idem)
  then show ?thesis
    using come_and_go_slot [of "small_ns slots" slots p "example_entry k" h a heap] assms \<open>p < 7\<close> free
    by (simp add: small_ns_def example_entry_def Let_def)
qed

lemma passer_first:
  "come_and_go 0 (example_entry 1) (\<lambda>_. None, new_ns) = Some (\<lambda>_. None, small_ns (replicate 7 Empty))"
proof -
  have "UA_NodeId_hash (nodeId (node (example_entry 1))) = Some 2654435762" "named (nodeId (node (example_entry 1)))"
    "unat ((2654435762 :: u32) mod ns_size new_ns) = 126" by code_simp+
  then have "come_and_go 0 (example_entry 1) (\<lambda>_. None, new_ns) =
    do { (_, ns) \<leftarrow> expand True (\<lambda>_. None :: unit UA_NodeStoreEntry option)
           \<lparr>entries = (replicate 127 Empty)[126 := Tombstone], ns_size = 127, ns_count = 0, sizePrimeIndex = 4\<rparr>;
         Some (\<lambda>_. None, ns) }"
    using come_and_go_slot [of new_ns "replicate 127 Empty" 126 "example_entry 1" _ 0 "\<lambda>_. None"]
    by (simp add: new_ns_def Let_def fun_upd_idem)
  then show ?thesis by (simp add: expand_empty)
qed

lemma passer_rest:
  "come_and_go_all 0 (map example_entry [1, 2, 3, 8, 16, 21, 29]) (\<lambda>_. None, small_ns (replicate 7 Empty))
     = Some (\<lambda>_. None, small_ns (replicate 7 Tombstone))"
proof -
  have e: "replicate 7 t = [t, t, t, t, t, t, t]" for t :: slot by (simp add: numeral_eq_Suc)
  have h: "UA_NodeId_hash (example_id 1) = Some 2654435762 \<and> unat (2654435762 mod 7 :: u32) = 6 \<and> named (example_id 1)"
    "UA_NodeId_hash (example_id 2) = Some 1013904227 \<and> unat (1013904227 mod 7 :: u32) = 0 \<and> named (example_id 2)"
    "UA_NodeId_hash (example_id 3) = Some 3668339988 \<and> unat (3668339988 mod 7 :: u32) = 5 \<and> named (example_id 3)"
    "UA_NodeId_hash (example_id 8) = Some 4055616905 \<and> unat (4055616905 mod 7 :: u32) = 4 \<and> named (example_id 8)"
    "UA_NodeId_hash (example_id 16) = Some 3816266513 \<and> unat (3816266513 mod 7 :: u32) = 3 \<and> named (example_id 16)"
    "UA_NodeId_hash (example_id 21) = Some 4203543430 \<and> unat (4203543430 mod 7 :: u32) = 2 \<and> named (example_id 21)"
    "UA_NodeId_hash (example_id 29) = Some 3964193038 \<and> unat (3964193038 mod 7 :: u32) = 1 \<and> named (example_id 29)"
    by code_simp+
  note step = passers_small [of _ _ _ _ "\<lambda>_. None" 0]
  show ?thesis
    using h by (simp add: e step)
qed

definition two_entries :: "unit node_heap" where
  "two_entries = (\<lambda>_. None)(1 := Some (example_entry 4), 0 := Some (example_entry 4))"

definition two_ns :: UA_NodeStore where
  "two_ns = \<lparr>entries = [Empty, Empty, Empty, Entry 1, Empty, Empty, Tombstone], ns_size = 7, ns_count = 1, sizePrimeIndex = 0\<rparr>"

lemma two_ns_run: "store_run two_entries two_ns"
proof -
  let ?none = "\<lambda>_. None :: unit UA_NodeStoreEntry option" and ?x = "example_entry 1" and ?y = "example_entry 4"
  have h1: "UA_NodeId_hash (nodeId (node ?x)) = Some 2654435762" "named (nodeId (node ?x))" by code_simp+
  have h4: "UA_NodeId_hash (nodeId (node ?y)) = Some 2027808453" "named (nodeId (node ?y))" by code_simp+
  have "roomy new_ns" "visited (entries new_ns) = []" by (simp_all add: new_ns_def roomy_def)
  then have r0: "store_run ?none (small_ns (replicate 7 Empty))"
    by (rule come_and_go_run [OF new_ns_run refl _ _ h1(2,1) passer_first])
  let ?h1 = "?none(0 := Some ?x)" and ?s1 = "(replicate 7 Empty)[6 := Entry 0]"
  have "findSlot ?h1 (small_ns (replicate 7 Empty)) (nodeId (node ?x)) = Some (Some 6)"
    by (rule first_free [OF _ h1(1)]) (simp_all add: small_ns_def)
  then have i1: "UA_NodeStore_insert True ?h1 (small_ns (replicate 7 Empty)) 0 = Some (UA_STATUSCODE_GOOD, ?h1, (small_ns ?s1)\<lparr>ns_count := 1\<rparr>)"
    using h1 by (simp add: UA_NodeStore_insert_def named_def small_ns_def store_def Let_def)
  have r1: "store_run ?h1 ((small_ns ?s1)\<lparr>ns_count := 1\<rparr>)"
    by (rule inserted [OF filled [OF r0 refl] _ _ h1(2) _ _ i1])
      (use h1 in \<open>simp_all add: roomy_def small_ns_def node_map_def\<close>)
  let ?h2 = "?h1(1 := Some ?y)" and ?n1 = "(small_ns ?s1)\<lparr>ns_count := 1\<rparr>" and ?s2 = "?s1[3 := Entry 1]"
  let ?n2 = "?n1\<lparr>entries := ?s2, ns_count := 2\<rparr>"
  have idx: "ns_mod 2027808453 7 = 6" "next_idx 7 (ns_mod2 2027808453 7) 6 = 3" by code_simp+
  have ne: "nodeId (node ?x) \<noteq> nodeId (node ?y)" by (simp add: example_entry_def example_id_def)
  have "findSlot ?h2 ?n1 (nodeId (node ?y)) = Some (Some 3)"
    using h4 ne idx
    by (subst findSlot_def, subst findSlot_loop.simps, subst findSlot_loop.simps) (simp add: small_ns_def Let_def)
  then have i2: "UA_NodeStore_insert True ?h2 ?n1 1 = Some (UA_STATUSCODE_GOOD, ?h2, ?n2)"
    using h4 by (simp add: UA_NodeStore_insert_def named_def small_ns_def store_def Let_def)
  have "visited ?s1 = [0]" "visited ?s2 = [1, 0]" by code_simp+
  note v = this
  have r2: "store_run ?h2 ?n2"
    by (rule inserted [OF filled [OF r1, of 1 ?y] _ _ h4(2) _ _ i2])
      (use h4 ne v in \<open>simp_all add: roomy_def small_ns_def node_map_def id_at_def\<close>)
  have "findNode ?h2 ?n2 (nodeId (node ?x)) = Some (Some 6)"
    using first_taken [of 6 ?n2 "nodeId (node ?x)" 2654435762 0 ?h2 ?x] h1 by (simp add: small_ns_def)
  then have m: "UA_NodeStore_remove True ?h2 ?n2 (nodeId (node ?x))
      = Some (UA_STATUSCODE_GOOD, ?h2(0 := None), ?n2\<lparr>entries := ?s2[6 := Tombstone], ns_count := 1\<rparr>)"
    by (simp add: UA_NodeStore_remove_def small_ns_def entry_at_def deleteEntry_def store_def Let_def)
  have "store_run (?h2(0 := None)) (?n2\<lparr>entries := ?s2[6 := Tombstone], ns_count := 1\<rparr>)"
    by (rule removed [OF r2 _ _ m, of 0]) (use ne v in \<open>simp_all add: roomy_def small_ns_def node_map_def id_at_def\<close>)
  then have "store_run (?h2(0 := None, 0 := Some ?y)) (?n2\<lparr>entries := ?s2[6 := Tombstone], ns_count := 1\<rparr>)"
    by (rule filled) simp
  moreover have "?h2(0 := None, 0 := Some ?y) = two_entries" by (auto simp: two_entries_def fun_eq_iff)
  moreover have "?n2\<lparr>entries := ?s2[6 := Tombstone], ns_count := 1\<rparr> = two_ns"
    by (simp add: two_ns_def small_ns_def numeral_eq_Suc)
  ultimately show ?thesis by simp
qed

text \<open>C23: Removing a node that the store holds frees it and takes exactly its identifier out of the map, also when the
  table shrinks afterwards or cannot be shrunk.\<close>

theorem store_remove:
  assumes "store_run heap ns" and "roomy ns" and "node_map heap (entries ns) i = Some a"
  shows "\<exists>ns'. UA_NodeStore_remove grant heap ns i = Some (UA_STATUSCODE_GOOD, heap(a := None), ns') \<and> store_run (heap(a := None)) ns' \<and>
     node_map (heap(a := None)) (entries ns') = (node_map heap (entries ns))(i := None) \<and> ns_count ns' = ns_count ns - 1"
proof -
  obtain ns' where r: "UA_NodeStore_remove grant heap ns i = Some (UA_STATUSCODE_GOOD, heap(a := None), ns')"
     "node_map (heap(a := None)) (entries ns') = (node_map heap (entries ns))(i := None)" "ns_count ns' = ns_count ns - 1"
    using remove_node [OF store_run_ok [OF assms(1)] assms(2,3), of grant] by blast
  then show ?thesis using removed [OF assms r(1)] by blast
qed


theorem store_remove_witness:
  "\<exists>ns'. UA_NodeStore_remove True two_entries two_ns (example_id 4) = Some (UA_STATUSCODE_GOOD, two_entries(1 := None), ns') \<and>
     ns_count ns' = 0"
proof -
  have "roomy two_ns" "node_map two_entries (entries two_ns) (example_id 4) = Some 1" "ns_count two_ns = 1" by code_simp+
  then show ?thesis using store_remove [OF two_ns_run, of "example_id 4" 1 True] by auto
qed

text \<open>C35: While the nodes fill less than three quarters of the table, so that \<open>UA_NodeStore_insert\<close> does not enlarge it first, an
  identifier that is in the store is refused when the table has no tombstone: the new node is freed and the
  store stays as it is. But where a tombstone stands in the first slot of the probe, the node is inserted again: the search for a
  slot ends at the tombstone, the call reports success, and the store then holds two nodes of the same identifier. (A fuller table is
  rebuilt without tombstones before the search, and the node is not freed when there is no memory for that.)\<close>

theorem store_insert_existing:
  assumes "store_run heap ns" and "ns_count ns * 4 < ns_size ns * 3" and "node_map heap (entries ns) i = Some b"
    and "heap a = Some x" and "nodeId (node x) = i" and "named i" and "UA_NodeId_hash i = Some h"
  shows "(Tombstone \<notin> set (entries ns) \<longrightarrow>
        UA_NodeStore_insert grant heap ns a = Some (UA_STATUSCODE_BADNODEIDEXISTS, heap(a := None), ns)) \<and>
     (entries ns ! unat (h mod ns_size ns) = Tombstone \<longrightarrow>
        (\<exists>ns'. UA_NodeStore_insert grant heap ns a = Some (UA_STATUSCODE_GOOD, heap, ns') \<and> Entry a \<in> set (entries ns') \<and>
          Entry b \<in> set (entries ns') \<and> id_at heap a = i \<and> id_at heap b = i))"
proof -
  note d = store_okD [OF store_run_ok [OF assms(1)]]
  obtain p where p: "stored heap (entries ns) i p b" using assms(3) node_map_iff [OF d(1)] by (auto simp: maps_to_def)
  have less: "\<not> ns_size ns * 3 \<le> ns_count ns * 4" using assms(2) by simp
  let ?q = "unat (h mod ns_size ns)"
  have "UA_NodeStore_insert grant heap ns a = Some (UA_STATUSCODE_BADNODEIDEXISTS, heap(a := None), ns)" if "Tombstone \<notin> set (entries ns)"
    using findSlot_stored [OF d(1) p that] assms(4-6) less
    by (simp add: UA_NodeStore_insert_def Let_def named_def UA_NodeStore_deleteNode_def deleteEntry_def)
  moreover have "\<exists>ns'. UA_NodeStore_insert grant heap ns a = Some (UA_STATUSCODE_GOOD, heap, ns') \<and> Entry a \<in> set (entries ns') \<and>
      Entry b \<in> set (entries ns') \<and> id_at heap a = i \<and> id_at heap b = i" if t: "entries ns ! ?q = Tombstone"
  proof -
  have q: "?q < length (entries ns)" using d(3,6) by (simp add: unat_mod)
  have "findSlot heap ns i = Some (Some ?q)"
    using q t assms(7) by (subst findSlot_def, subst findSlot_loop.simps) (simp add: ns_mod_def Let_def)
  then have ins: "UA_NodeStore_insert grant heap ns a
      = Some (UA_STATUSCODE_GOOD, heap, ns\<lparr>entries := (entries ns)[?q := Entry a], ns_count := ns_count ns + 1\<rparr>)"
    using assms(4-6) less q by (simp add: UA_NodeStore_insert_def Let_def named_def store_def)
  have "p \<noteq> ?q" "p < length (entries ns)" "entries ns ! p = Entry b" "id_at heap b = i" using p t by (auto simp: stored_def id_at_def)
  then have "Entry b \<in> set ((entries ns)[?q := Entry a])" "Entry a \<in> set ((entries ns)[?q := Entry a])"
    using q by (metis length_list_update nth_list_update_neq nth_mem, simp add: set_update_memI)
  then show ?thesis using assms(4,5) \<open>id_at heap b = i\<close> by (simp add: ins id_at_def)
  qed
  ultimately show ?thesis by blast
qed

theorem store_insert_existing_witness:
  "\<exists>ns'. UA_NodeStore_insert True two_entries two_ns 0 = Some (UA_STATUSCODE_GOOD, two_entries, ns') \<and> Entry 0 \<in> set (entries ns') \<and>
     Entry 1 \<in> set (entries ns') \<and> id_at two_entries 0 = example_id 4 \<and> id_at two_entries 1 = example_id 4"
proof -
  have "ns_count two_ns * 4 < ns_size two_ns * 3" "named (example_id 4)" "UA_NodeId_hash (example_id 4) = Some 2027808453"
    "node_map two_entries (entries two_ns) (example_id 4) = Some 1" "entries two_ns ! unat (2027808453 mod ns_size two_ns) = Tombstone"
    by code_simp+
  moreover have "two_entries 0 = Some (example_entry 4)" "nodeId (node (example_entry 4)) = example_id 4"
    by (simp_all add: two_entries_def example_entry_def)
  ultimately show ?thesis
    using store_insert_existing [OF two_ns_run, of "example_id 4" 1 0 "example_entry 4" 2027808453 True] by blast
qed

text \<open>C36: The search can be made to run for ever with ordinary operations. A new store in which eight nodes have come and gone
  holds nothing, but it has shrunk to seven slots that are all tombstones: looking up any identifier, whose hash is defined, in it never
  returns.\<close>

theorem store_search_endless:
  assumes "UA_NodeId_hash i = Some h"
  shows "\<exists>ns. come_and_go_all 0 (map example_entry [1, 1, 2, 3, 8, 16, 21, 29]) (\<lambda>_. None, new_ns) = Some (\<lambda>_. None, ns) \<and>
     entries ns = replicate 7 Tombstone \<and> UA_NodeStore_get (\<lambda>_. None :: unit UA_NodeStoreEntry option) ns i = None"
proof -
  let ?ns = "small_ns (replicate 7 Tombstone)"
  have "visited (replicate n Tombstone) = []" for n by (induction n) simp_all
  then have v: "visited (replicate 7 Tombstone) = []" .
  have "store_ok (\<lambda>_. None :: unit UA_NodeStoreEntry option) ?ns"
    by (auto simp: store_ok_def table_ok_def small_ns_def table_sizes_list stored_def v)
  moreover have "node_map (\<lambda>_. None :: unit UA_NodeStoreEntry option) (entries ?ns) i = None"
    by (simp add: node_map_def small_ns_def v)
  ultimately have "UA_NodeStore_get (\<lambda>_. None :: unit UA_NodeStoreEntry option) ?ns i = None"
    using get_node(2) [of "\<lambda>_. None" ?ns, OF _ _ assms] by (simp add: small_ns_def)
  moreover have "come_and_go_all 0 (example_entry 1 # map example_entry [1, 2, 3, 8, 16, 21, 29]) (\<lambda>_. None, new_ns)
      = Some (\<lambda>_. None, ?ns)"
    unfolding come_and_go_all.simps(2) passer_first bind.bind_lunit by (rule passer_rest)
  moreover have "map example_entry [1, 1, 2, 3, 8, 16, 21, 29] = example_entry 1 # map example_entry [1, 2, 3, 8, 16, 21, 29]"
    by (rule list.map(2))
  moreover have "entries ?ns = replicate 7 Tombstone" by (simp add: small_ns_def)
  ultimately show ?thesis by metis
qed

theorem store_search_endless_witness:
  "\<exists>ns. come_and_go_all 0 (map example_entry [1, 1, 2, 3, 8, 16, 21, 29]) (\<lambda>_. None, new_ns) = Some (\<lambda>_. None, ns) \<and>
     entries ns = replicate 7 Tombstone \<and> UA_NodeStore_get (\<lambda>_. None :: unit UA_NodeStoreEntry option) ns (example_id 4) = None"
proof -
  have "UA_NodeId_hash (example_id 4) = Some 2027808453" by code_simp
  then show ?thesis by (rule store_search_endless)
qed

end
