(* ===== verification/UABinary.thy ===== *)
theory UABinary
  imports UATypes
begin

text \<open>
  The binary encoding of the OPC UA stack, \<open>ua_types_encoding_binary.c\<close>: the thread-local buffer with its
  exchange when it is full, integers, arrays, strings and identifiers. The integers of a little-endian machine
  are copied (\<open>UA_BINARY_OVERLAYABLE_INTEGER\<close>); the byte-wise functions of the other machines are here as well.

  A pointer into the encoding buffer is the address of the buffer and an offset, because the exchange may put
  another buffer in the place of the one that an older pointer leads to: using such a pointer is undefined, and
  so is to exchange buffers for ever, \<open>None\<close>. The decoder has one buffer, and its pointers are offsets.
\<close>

section \<open>Buffers\<close>

record 's encoder =
  ebuf :: bytes
  ebase :: nat
  pbase :: nat
  epos :: nat
  world :: 's

text \<open>The callback sends the buffer up to the offset and gives a status, the address of the next buffer and the buffer.\<close>

type_synonym 's exchange = "'s \<Rightarrow> bytes \<Rightarrow> nat \<Rightarrow> UA_StatusCode \<times> 's \<times> nat \<times> bytes"

type_synonym 's encoding = "'s encoder \<Rightarrow> (UA_StatusCode \<times> 's encoder) option"

definition exchangeBuffer :: "'s exchange option \<Rightarrow> 's encoding" where
  "exchangeBuffer cb st = (case cb of
     None \<Rightarrow> Some (UA_STATUSCODE_BADENCODINGERROR, st)
   | Some f \<Rightarrow>
       if pbase st \<noteq> ebase st then None
       else (let (rv, w, base, buf) = f (world st) (ebuf st) (epos st)
             in Some (rv, \<lparr>ebuf = buf, ebase = base, pbase = base, epos = 0, world = w\<rparr>)))"

text \<open>\<open>pos + n > end\<close>.\<close>

definition past_end :: "'s encoder \<Rightarrow> nat \<Rightarrow> bool option" where
  "past_end st n = (if pbase st = ebase st then Some (length (ebuf st) < epos st + n) else None)"

text \<open>\<open>memcpy(pos, bs, n); pos += n\<close>\<close>

definition put_bytes :: "bytes \<Rightarrow> 's encoder \<Rightarrow> 's encoder option" where
  "put_bytes bs st =
     (if pbase st \<noteq> ebase st then None
      else do { buf \<leftarrow> memcpy (ebuf st) (epos st) bs (int (length bs));
                Some (st\<lparr>ebuf := buf, epos := epos st + length bs\<rparr>) })"

record decoder =
  dbuf :: bytes
  dpos :: nat

type_synonym 'a decoding = "'a \<Rightarrow> decoder \<Rightarrow> (UA_StatusCode \<times> 'a \<times> decoder) option"

definition past_input :: "decoder \<Rightarrow> nat \<Rightarrow> bool" where
  "past_input st n \<longleftrightarrow> length (dbuf st) < dpos st + n"

text \<open>\<open>memcpy(dst, pos, n); pos += n\<close>\<close>

definition get_bytes :: "nat \<Rightarrow> decoder \<Rightarrow> (bytes \<times> decoder) option" where
  "get_bytes n st =
     (if dpos st + n \<le> length (dbuf st)
      then Some (take n (drop (dpos st) (dbuf st)), st\<lparr>dpos := dpos st + n\<rparr>) else None)"

text \<open>The value of a little-endian number.\<close>

fun le_word :: "bytes \<Rightarrow> 'a::len word" where
  "le_word [] = 0"
| "le_word (b # bs) = ucast b OR push_bit 8 (le_word bs)"

section \<open>Integers\<close>

definition UA_encode16 :: "u16 \<Rightarrow> bytes" where
  "UA_encode16 v = [ucast v, ucast (drop_bit 8 v)]"

definition UA_decode16 :: "bytes \<Rightarrow> u16 option" where
  "UA_decode16 buf = do { b0 \<leftarrow> load buf 0; b1 \<leftarrow> load buf 1; Some (ucast b0 + push_bit 8 (ucast b1)) }"

definition UA_encode32 :: "u32 \<Rightarrow> bytes" where
  "UA_encode32 v = [ucast v, ucast (drop_bit 8 v), ucast (drop_bit 16 v), ucast (drop_bit 24 v)]"

definition UA_decode32 :: "bytes \<Rightarrow> u32 option" where
  "UA_decode32 buf = do { b0 \<leftarrow> load buf 0; b1 \<leftarrow> load buf 1; b2 \<leftarrow> load buf 2; b3 \<leftarrow> load buf 3;
     Some (ucast b0 + push_bit 8 (ucast b1) + push_bit 16 (ucast b2) + push_bit 24 (ucast b3)) }"

definition UA_encode64 :: "64 word \<Rightarrow> bytes" where
  "UA_encode64 v = [ucast v, ucast (drop_bit 8 v), ucast (drop_bit 16 v), ucast (drop_bit 24 v),
     ucast (drop_bit 32 v), ucast (drop_bit 40 v), ucast (drop_bit 48 v), ucast (drop_bit 56 v)]"

definition UA_decode64 :: "bytes \<Rightarrow> 64 word option" where
  "UA_decode64 buf = do { b0 \<leftarrow> load buf 0; b1 \<leftarrow> load buf 1; b2 \<leftarrow> load buf 2; b3 \<leftarrow> load buf 3;
     b4 \<leftarrow> load buf 4; b5 \<leftarrow> load buf 5; b6 \<leftarrow> load buf 6; b7 \<leftarrow> load buf 7;
     Some (ucast b0 + push_bit 8 (ucast b1) + push_bit 16 (ucast b2) + push_bit 24 (ucast b3)
       + push_bit 32 (ucast b4) + push_bit 40 (ucast b5) + push_bit 48 (ucast b6) + push_bit 56 (ucast b7)) }"

text \<open>\<open>true\<close> is the byte 1.\<close>

definition Boolean_encodeBinary :: "bool \<Rightarrow> 's encoding" where
  "Boolean_encodeBinary src st =
     do { past \<leftarrow> past_end st 1;
          if past then Some (UA_STATUSCODE_BADENCODINGLIMITSEXCEEDED, st)
          else do { st \<leftarrow> put_bytes [if src then 1 else 0] st; Some (UA_STATUSCODE_GOOD, st) } }"

definition Boolean_decodeBinary :: "bool decoding" where
  "Boolean_decodeBinary dst st =
     (if past_input st 1 then Some (UA_STATUSCODE_BADDECODINGERROR, dst, st)
      else do { (bs, st) \<leftarrow> get_bytes 1 st; b \<leftarrow> load bs 0; Some (UA_STATUSCODE_GOOD, b > 0, st) })"

definition Byte_encodeBinary :: "u8 \<Rightarrow> 's encoding" where
  "Byte_encodeBinary src st =
     do { past \<leftarrow> past_end st 1;
          if past then Some (UA_STATUSCODE_BADENCODINGLIMITSEXCEEDED, st)
          else do { st \<leftarrow> put_bytes [src] st; Some (UA_STATUSCODE_GOOD, st) } }"

definition Byte_decodeBinary :: "u8 decoding" where
  "Byte_decodeBinary dst st =
     (if past_input st 1 then Some (UA_STATUSCODE_BADDECODINGERROR, dst, st)
      else do { (bs, st) \<leftarrow> get_bytes 1 st; b \<leftarrow> load bs 0; Some (UA_STATUSCODE_GOOD, b, st) })"

definition UInt16_encodeBinary :: "u16 \<Rightarrow> 's encoding" where
  "UInt16_encodeBinary src st =
     do { past \<leftarrow> past_end st 2;
          if past then Some (UA_STATUSCODE_BADENCODINGLIMITSEXCEEDED, st)
          else do { st \<leftarrow> put_bytes (le_bytes 2 src) st; Some (UA_STATUSCODE_GOOD, st) } }"

definition UInt16_decodeBinary :: "u16 decoding" where
  "UInt16_decodeBinary dst st =
     (if past_input st 2 then Some (UA_STATUSCODE_BADDECODINGERROR, dst, st)
      else do { (bs, st) \<leftarrow> get_bytes 2 st; Some (UA_STATUSCODE_GOOD, le_word bs, st) })"

definition UInt32_encodeBinary :: "u32 \<Rightarrow> 's encoding" where
  "UInt32_encodeBinary src st =
     do { past \<leftarrow> past_end st 4;
          if past then Some (UA_STATUSCODE_BADENCODINGLIMITSEXCEEDED, st)
          else do { st \<leftarrow> put_bytes (le_bytes 4 src) st; Some (UA_STATUSCODE_GOOD, st) } }"

definition UInt32_decodeBinary :: "u32 decoding" where
  "UInt32_decodeBinary dst st =
     (if past_input st 4 then Some (UA_STATUSCODE_BADDECODINGERROR, dst, st)
      else do { (bs, st) \<leftarrow> get_bytes 4 st; Some (UA_STATUSCODE_GOOD, le_word bs, st) })"

definition UInt64_encodeBinary :: "64 word \<Rightarrow> 's encoding" where
  "UInt64_encodeBinary src st =
     do { past \<leftarrow> past_end st 8;
          if past then Some (UA_STATUSCODE_BADENCODINGLIMITSEXCEEDED, st)
          else do { st \<leftarrow> put_bytes (le_bytes 8 src) st; Some (UA_STATUSCODE_GOOD, st) } }"

definition UInt64_decodeBinary :: "64 word decoding" where
  "UInt64_decodeBinary dst st =
     (if past_input st 8 then Some (UA_STATUSCODE_BADDECODINGERROR, dst, st)
      else do { (bs, st) \<leftarrow> get_bytes 8 st; Some (UA_STATUSCODE_GOOD, le_word bs, st) })"

text \<open>Signed integers, status codes, times and, on these machines, floating-point numbers are the words of their memory.\<close>

definition Int16_encodeBinary :: "u16 \<Rightarrow> 's encoding" where "Int16_encodeBinary src = UInt16_encodeBinary src"
definition Int16_decodeBinary :: "u16 decoding" where "Int16_decodeBinary dst = UInt16_decodeBinary dst"
definition Int32_encodeBinary :: "u32 \<Rightarrow> 's encoding" where "Int32_encodeBinary src = UInt32_encodeBinary src"
definition Int32_decodeBinary :: "u32 decoding" where "Int32_decodeBinary dst = UInt32_decodeBinary dst"
definition StatusCode_encodeBinary :: "UA_StatusCode \<Rightarrow> 's encoding" where "StatusCode_encodeBinary src = UInt32_encodeBinary src"
definition StatusCode_decodeBinary :: "UA_StatusCode decoding" where "StatusCode_decodeBinary dst = UInt32_decodeBinary dst"
definition Int64_encodeBinary :: "64 word \<Rightarrow> 's encoding" where "Int64_encodeBinary src = UInt64_encodeBinary src"
definition Int64_decodeBinary :: "64 word decoding" where "Int64_decodeBinary dst = UInt64_decodeBinary dst"
definition DateTime_encodeBinary :: "64 word \<Rightarrow> 's encoding" where "DateTime_encodeBinary src = UInt64_encodeBinary src"
definition DateTime_decodeBinary :: "64 word decoding" where "DateTime_decodeBinary dst = UInt64_decodeBinary dst"
definition Float_encodeBinary :: "u32 \<Rightarrow> 's encoding" where "Float_encodeBinary = UInt32_encodeBinary"
definition Float_decodeBinary :: "u32 decoding" where "Float_decodeBinary = UInt32_decodeBinary"
definition Double_encodeBinary :: "64 word \<Rightarrow> 's encoding" where "Double_encodeBinary = UInt64_encodeBinary"
definition Double_decodeBinary :: "64 word decoding" where "Double_decodeBinary = UInt64_decodeBinary"

section \<open>Arrays\<close>

text \<open>An array of length zero has one of two special pointers or any other one.\<close>

datatype 'a arr = NullArray | EmptySentinel | Elements "'a list"

fun arr_list :: "'a arr \<Rightarrow> 'a list" where
  "arr_list NullArray = []"
| "arr_list EmptySentinel = []"
| "arr_list (Elements xs) = xs"

definition UA_INT32_MAX :: nat where "UA_INT32_MAX = 2147483647"

text \<open>\<open>mem\<close> is the memory that is still to be copied, \<open>left\<close> elements of it.\<close>

partial_function (option) Array_encodeBinaryOverlayable ::
    "'s exchange option \<Rightarrow> bytes \<Rightarrow> nat \<Rightarrow> nat \<Rightarrow> 's encoding" where
  "Array_encodeBinaryOverlayable cb mem left elementMemSize st =
     do { past \<leftarrow> past_end st (elementMemSize * left);
          if past
          then do {
            let possible = (length (ebuf st) - epos st) div elementMemSize;
            let possibleMem = possible * elementMemSize;
            st \<leftarrow> put_bytes (take possibleMem mem) st;
            (rv, st) \<leftarrow> exchangeBuffer cb st;
            if rv \<noteq> UA_STATUSCODE_GOOD then Some (rv, st)
            else Array_encodeBinaryOverlayable cb (drop possibleMem mem) (left - possible) elementMemSize st }
          else do { st \<leftarrow> put_bytes (take (elementMemSize * left) mem) st; Some (UA_STATUSCODE_GOOD, st) } }"

text \<open>One element: while it does not fit, the buffer is exchanged at the end of the element before.\<close>

partial_function (option) encode_element :: "'s exchange option \<Rightarrow> 's encoding \<Rightarrow> 's encoding" where
  "encode_element cb encodeType st =
     do { let oldpos = (pbase st, epos st);
          (rv, st) \<leftarrow> encodeType st;
          if rv = UA_STATUSCODE_BADENCODINGLIMITSEXCEEDED
          then do {
            (rv, st) \<leftarrow> exchangeBuffer cb (st\<lparr>pbase := fst oldpos, epos := snd oldpos\<rparr>);
            if rv \<noteq> UA_STATUSCODE_GOOD then Some (rv, st) else encode_element cb encodeType st }
          else Some (rv, st) }"

fun Array_encodeBinaryComplex :: "'s exchange option \<Rightarrow> 's encoding list \<Rightarrow> 's encoding" where
  "Array_encodeBinaryComplex cb [] st = Some (UA_STATUSCODE_GOOD, st)"
| "Array_encodeBinaryComplex cb (e # es) st =
     do { (rv, st) \<leftarrow> encode_element cb e st;
          if rv \<noteq> UA_STATUSCODE_GOOD then Some (rv, st) else Array_encodeBinaryComplex cb es st }"

text \<open>What the functions for arrays read of the type of the elements, with the function of the jump table that
  encodes one and the memory of an element of an overlayable type.\<close>

record type_sizes =
  memSize :: nat
  overlayable :: bool

definition array_length :: "'a arr \<Rightarrow> u32" where
  "array_length src = (if 0 < length (arr_list src) then of_nat (length (arr_list src)) else if src = EmptySentinel then 0 else - 1)"

definition Array_encodeBinary ::
    "'s exchange option \<Rightarrow> type_sizes \<Rightarrow> ('a \<Rightarrow> bytes) \<Rightarrow> ('a \<Rightarrow> 's encoding) \<Rightarrow> 'a arr \<Rightarrow> 's encoding" where
  "Array_encodeBinary cb type to_bytes encodeType src st =
     (if length (arr_list src) > UA_INT32_MAX then Some (UA_STATUSCODE_BADINTERNALERROR, st)
      else do {
        (rv, st) \<leftarrow> Int32_encodeBinary (array_length src) st;
        if rv \<noteq> UA_STATUSCODE_GOOD \<or> length (arr_list src) = 0 then Some (rv, st)
        else if \<not> overlayable type then Array_encodeBinaryComplex cb (map encodeType (arr_list src)) st
        else Array_encodeBinaryOverlayable cb (concat (map to_bytes (arr_list src))) (length (arr_list src)) (memSize type) st })"

primrec decode_elements :: "(decoder \<Rightarrow> (UA_StatusCode \<times> 'a \<times> decoder) option) \<Rightarrow> nat \<Rightarrow> decoder \<Rightarrow>
    (UA_StatusCode \<times> 'a list \<times> decoder) option" where
  "decode_elements decodeType 0 st = Some (UA_STATUSCODE_GOOD, [], st)"
| "decode_elements decodeType (Suc n) st =
     do { (rv, x, st) \<leftarrow> decodeType st;
          if rv \<noteq> UA_STATUSCODE_GOOD then Some (rv, [], st)
          else do { (rv, xs, st) \<leftarrow> decode_elements decodeType n st; Some (rv, x # xs, st) } }"

text \<open>The elements in copied memory.\<close>

primrec memory_elements :: "(bytes \<Rightarrow> 'a) \<Rightarrow> nat \<Rightarrow> nat \<Rightarrow> bytes \<Rightarrow> 'a list" where
  "memory_elements of_bytes sz 0 bs = []"
| "memory_elements of_bytes sz (Suc n) bs = of_bytes (take sz bs) # memory_elements of_bytes sz n (drop sz bs)"

text \<open>\<open>calloc\<close> is asked for a number of bytes; the elements of a new array are zero.\<close>

definition Array_decodeBinary ::
    "(nat \<Rightarrow> bool) \<Rightarrow> type_sizes \<Rightarrow> (bytes \<Rightarrow> 'a) \<Rightarrow> (decoder \<Rightarrow> (UA_StatusCode \<times> 'a \<times> decoder) option) \<Rightarrow> 'a arr decoding" where
  "Array_decodeBinary calloc type of_bytes decodeType dst st =
     do { (rv, signed_length, st) \<leftarrow> Int32_decodeBinary 0 st;
          if rv \<noteq> UA_STATUSCODE_GOOD then Some (rv, dst, st)
          else if sint signed_length \<le> 0
          then Some (UA_STATUSCODE_GOOD, if sint signed_length < 0 then NullArray else EmptySentinel, st)
          else do {
            let n = nat (sint signed_length);
            if length (dbuf st) < dpos st + memSize type * n div 32 then Some (UA_STATUSCODE_BADDECODINGERROR, dst, st)
            else if \<not> calloc (n * memSize type) then Some (UA_STATUSCODE_BADOUTOFMEMORY, NullArray, st)
            else if overlayable type
            then (if past_input st (memSize type * n) then Some (UA_STATUSCODE_BADDECODINGERROR, NullArray, st)
                  else do { (bs, st) \<leftarrow> get_bytes (memSize type * n) st;
                            Some (UA_STATUSCODE_GOOD, Elements (memory_elements of_bytes (memSize type) n bs), st) })
            else do {
              (rv, xs, st) \<leftarrow> decode_elements decodeType n st;
              Some (rv, if rv \<noteq> UA_STATUSCODE_GOOD then NullArray else Elements xs, st) } } }"

definition Array_calcSizeBinary :: "type_sizes \<Rightarrow> ('a \<Rightarrow> nat) \<Rightarrow> 'a arr \<Rightarrow> nat" where
  "Array_calcSizeBinary type calcSize src =
     (if overlayable type then 4 + memSize type * length (arr_list src)
      else 4 + sum_list (map calcSize (arr_list src)))"

section \<open>Strings and identifiers\<close>

type_synonym UA_String = "u8 arr"

definition UA_TYPES_BYTE :: type_sizes where
  "UA_TYPES_BYTE = \<lparr>memSize = 1, overlayable = True\<rparr>"

definition byte_memory :: "u8 \<Rightarrow> bytes" where "byte_memory b = [b]"
definition byte_value :: "bytes \<Rightarrow> u8" where "byte_value bs = hd bs"

definition String_encodeBinary :: "'s exchange option \<Rightarrow> UA_String \<Rightarrow> 's encoding" where
  "String_encodeBinary cb src = Array_encodeBinary cb UA_TYPES_BYTE byte_memory Byte_encodeBinary src"

definition String_decodeBinary :: "(nat \<Rightarrow> bool) \<Rightarrow> UA_String decoding" where
  "String_decodeBinary calloc dst = Array_decodeBinary calloc UA_TYPES_BYTE byte_value (Byte_decodeBinary 0) dst"

definition ByteString_encodeBinary :: "'s exchange option \<Rightarrow> UA_String \<Rightarrow> 's encoding" where
  "ByteString_encodeBinary cb src = String_encodeBinary cb src"

definition ByteString_decodeBinary :: "(nat \<Rightarrow> bool) \<Rightarrow> UA_String decoding" where
  "ByteString_decodeBinary calloc dst = String_decodeBinary calloc dst"

definition Guid_encodeBinary :: "UA_Guid \<Rightarrow> 's encoding" where
  "Guid_encodeBinary src st =
     do { (r1, st) \<leftarrow> UInt32_encodeBinary (data1 src) st;
          (r2, st) \<leftarrow> UInt16_encodeBinary (data2 src) st;
          (r3, st) \<leftarrow> UInt16_encodeBinary (data3 src) st;
          past \<leftarrow> past_end st 8;
          if past then Some (UA_STATUSCODE_BADENCODINGLIMITSEXCEEDED, st)
          else do { st \<leftarrow> put_bytes (data4 src) st; Some (r1 OR r2 OR r3, st) } }"

definition Guid_decodeBinary :: "UA_Guid decoding" where
  "Guid_decodeBinary dst st =
     do { (r1, d1, st) \<leftarrow> UInt32_decodeBinary (data1 dst) st;
          (r2, d2, st) \<leftarrow> UInt16_decodeBinary (data2 dst) st;
          (r3, d3, st) \<leftarrow> UInt16_decodeBinary (data3 dst) st;
          let dst = dst\<lparr>data1 := d1, data2 := d2, data3 := d3\<rparr>;
          if past_input st 8 then Some (UA_STATUSCODE_BADDECODINGERROR, dst, st)
          else do { (bs, st) \<leftarrow> get_bytes 8 st; Some (r1 OR r2 OR r3, dst\<lparr>data4 := bs\<rparr>, st) } }"

type_synonym node_id = "UA_String UA_NodeId_of"

definition UA_NODEIDTYPE_NUMERIC_TWOBYTE :: u8 where "UA_NODEIDTYPE_NUMERIC_TWOBYTE = 0"
definition UA_NODEIDTYPE_NUMERIC_FOURBYTE :: u8 where "UA_NODEIDTYPE_NUMERIC_FOURBYTE = 1"
definition UA_NODEIDTYPE_NUMERIC_COMPLETE :: u8 where "UA_NODEIDTYPE_NUMERIC_COMPLETE = 2"
definition UA_NODEIDTYPE_STRING :: u8 where "UA_NODEIDTYPE_STRING = 3"
definition UA_NODEIDTYPE_GUID :: u8 where "UA_NODEIDTYPE_GUID = 4"
definition UA_NODEIDTYPE_BYTESTRING :: u8 where "UA_NODEIDTYPE_BYTESTRING = 5"

lemmas nodeid_types = UA_NODEIDTYPE_NUMERIC_TWOBYTE_def UA_NODEIDTYPE_NUMERIC_FOURBYTE_def UA_NODEIDTYPE_NUMERIC_COMPLETE_def
  UA_NODEIDTYPE_STRING_def UA_NODEIDTYPE_GUID_def UA_NODEIDTYPE_BYTESTRING_def

definition NodeId_encodeBinaryWithEncodingMask :: "'s exchange option \<Rightarrow> node_id \<Rightarrow> u8 \<Rightarrow> 's encoding" where
  "NodeId_encodeBinaryWithEncodingMask cb src encoding st = (case ident src of
     NUMERIC n \<Rightarrow>
       if n > 65535 \<or> namespaceIndex src > 255
       then do { (r1, st) \<leftarrow> Byte_encodeBinary (encoding OR UA_NODEIDTYPE_NUMERIC_COMPLETE) st;
                 (r2, st) \<leftarrow> UInt16_encodeBinary (namespaceIndex src) st;
                 (r3, st) \<leftarrow> UInt32_encodeBinary n st;
                 Some (r1 OR r2 OR r3, st) }
       else if n > 255 \<or> namespaceIndex src > 0
       then do { (r1, st) \<leftarrow> Byte_encodeBinary (encoding OR UA_NODEIDTYPE_NUMERIC_FOURBYTE) st;
                 (r2, st) \<leftarrow> Byte_encodeBinary (ucast (namespaceIndex src)) st;
                 (r3, st) \<leftarrow> UInt16_encodeBinary (ucast n) st;
                 Some (r1 OR r2 OR r3, st) }
       else do { (r1, st) \<leftarrow> Byte_encodeBinary (encoding OR UA_NODEIDTYPE_NUMERIC_TWOBYTE) st;
                 (r2, st) \<leftarrow> Byte_encodeBinary (ucast n) st;
                 Some (r1 OR r2, st) }
   | STRING s \<Rightarrow>
       do { (r1, st) \<leftarrow> Byte_encodeBinary (encoding OR UA_NODEIDTYPE_STRING) st;
            (r2, st) \<leftarrow> UInt16_encodeBinary (namespaceIndex src) st;
            (r3, st) \<leftarrow> String_encodeBinary cb s st;
            Some (r1 OR r2 OR r3, st) }
   | GUID g \<Rightarrow>
       do { (r1, st) \<leftarrow> Byte_encodeBinary (encoding OR UA_NODEIDTYPE_GUID) st;
            (r2, st) \<leftarrow> UInt16_encodeBinary (namespaceIndex src) st;
            (r3, st) \<leftarrow> Guid_encodeBinary g st;
            Some (r1 OR r2 OR r3, st) }
   | BYTESTRING s \<Rightarrow>
       do { (r1, st) \<leftarrow> Byte_encodeBinary (encoding OR UA_NODEIDTYPE_BYTESTRING) st;
            (r2, st) \<leftarrow> UInt16_encodeBinary (namespaceIndex src) st;
            (r3, st) \<leftarrow> ByteString_encodeBinary cb s st;
            Some (r1 OR r2 OR r3, st) })"

definition NodeId_encodeBinary :: "'s exchange option \<Rightarrow> node_id \<Rightarrow> 's encoding" where
  "NodeId_encodeBinary cb src = NodeId_encodeBinaryWithEncodingMask cb src 0"

definition guid_zero :: UA_Guid where
  "guid_zero = \<lparr>data1 = 0, data2 = 0, data3 = 0, data4 = replicate 8 0\<rparr>"

text \<open>The destination is memory of zeroes (\<open>UA_decodeBinary\<close> and \<open>UA_NodeId_init\<close> clear it). Where a part cannot be read the
  function returns an error, and the parts of the union that it has set so far are the value here.\<close>

definition NodeId_decodeBody :: "(nat \<Rightarrow> bool) \<Rightarrow> node_id \<Rightarrow> u8 \<Rightarrow> decoder \<Rightarrow> (UA_StatusCode \<times> node_id \<times> decoder) option" where
  "NodeId_decodeBody calloc dst encodingByte st =
     (if encodingByte = UA_NODEIDTYPE_NUMERIC_TWOBYTE
      then do { (r1, b, st) \<leftarrow> Byte_decodeBinary 0 st;
                Some (r1, \<lparr>namespaceIndex = 0, ident = NUMERIC (ucast b)\<rparr>, st) }
      else if encodingByte = UA_NODEIDTYPE_NUMERIC_FOURBYTE
      then do { (r1, b, st) \<leftarrow> Byte_decodeBinary 0 st;
                (r2, n, st) \<leftarrow> UInt16_decodeBinary 0 st;
                Some (r1 OR r2, \<lparr>namespaceIndex = ucast b, ident = NUMERIC (ucast n)\<rparr>, st) }
      else if encodingByte = UA_NODEIDTYPE_NUMERIC_COMPLETE
      then do { (r1, ns, st) \<leftarrow> UInt16_decodeBinary (namespaceIndex dst) st;
                (r2, n, st) \<leftarrow> UInt32_decodeBinary 0 st;
                Some (r1 OR r2, \<lparr>namespaceIndex = ns, ident = NUMERIC n\<rparr>, st) }
      else if encodingByte = UA_NODEIDTYPE_STRING
      then do { (r1, ns, st) \<leftarrow> UInt16_decodeBinary (namespaceIndex dst) st;
                (r2, s, st) \<leftarrow> String_decodeBinary calloc NullArray st;
                Some (r1 OR r2, \<lparr>namespaceIndex = ns, ident = STRING s\<rparr>, st) }
      else if encodingByte = UA_NODEIDTYPE_GUID
      then do { (r1, ns, st) \<leftarrow> UInt16_decodeBinary (namespaceIndex dst) st;
                (r2, g, st) \<leftarrow> Guid_decodeBinary guid_zero st;
                Some (r1 OR r2, \<lparr>namespaceIndex = ns, ident = GUID g\<rparr>, st) }
      else if encodingByte = UA_NODEIDTYPE_BYTESTRING
      then do { (r1, ns, st) \<leftarrow> UInt16_decodeBinary (namespaceIndex dst) st;
                (r2, s, st) \<leftarrow> ByteString_decodeBinary calloc NullArray st;
                Some (r1 OR r2, \<lparr>namespaceIndex = ns, ident = BYTESTRING s\<rparr>, st) }
      else Some (UA_STATUSCODE_BADINTERNALERROR, dst, st))"

definition NodeId_decodeBinary :: "(nat \<Rightarrow> bool) \<Rightarrow> node_id decoding" where
  "NodeId_decodeBinary calloc dst st =
     do { (rv, encodingByte, st) \<leftarrow> Byte_decodeBinary 0 st;
          if rv \<noteq> UA_STATUSCODE_GOOD then Some (rv, dst, st) else NodeId_decodeBody calloc dst encodingByte st }"

record UA_ExpandedNodeId =
  xnodeId :: node_id
  namespaceUri :: UA_String
  serverIndex :: u32

definition UA_EXPANDEDNODEID_NAMESPACEURI_FLAG :: u8 where "UA_EXPANDEDNODEID_NAMESPACEURI_FLAG = 0x80"
definition UA_EXPANDEDNODEID_SERVERINDEX_FLAG :: u8 where "UA_EXPANDEDNODEID_SERVERINDEX_FLAG = 0x40"

text \<open>\<open>data > UA_EMPTY_ARRAY_SENTINEL\<close> and \<open>data\<close> as a condition.\<close>

fun has_data :: "'a arr \<Rightarrow> bool" where
  "has_data (Elements xs) = True"
| "has_data _ = False"

definition ExpandedNodeId_encodeBinary :: "'s exchange option \<Rightarrow> UA_ExpandedNodeId \<Rightarrow> 's encoding" where
  "ExpandedNodeId_encodeBinary cb src st =
     do { let encoding = (if has_data (namespaceUri src) then UA_EXPANDEDNODEID_NAMESPACEURI_FLAG else 0);
          let encoding = (if serverIndex src > 0 then encoding OR UA_EXPANDEDNODEID_SERVERINDEX_FLAG else encoding);
          (r1, st) \<leftarrow> NodeId_encodeBinaryWithEncodingMask cb (xnodeId src) encoding st;
          (r2, st) \<leftarrow> (if has_data (namespaceUri src) then String_encodeBinary cb (namespaceUri src) st else Some (0, st));
          (r3, st) \<leftarrow> (if serverIndex src > 0 then UInt32_encodeBinary (serverIndex src) st else Some (0, st));
          Some (r1 OR r2 OR r3, st) }"

text \<open>The mask is taken out of the byte in the message.\<close>

definition ExpandedNodeId_decodeBinary :: "(nat \<Rightarrow> bool) \<Rightarrow> UA_ExpandedNodeId decoding" where
  "ExpandedNodeId_decodeBinary calloc dst st =
     (if length (dbuf st) \<le> dpos st then Some (UA_STATUSCODE_BADDECODINGERROR, dst, st)
      else do {
        encoding \<leftarrow> load (dbuf st) (dpos st);
        buf \<leftarrow> store (dbuf st) (dpos st)
          (encoding AND NOT (UA_EXPANDEDNODEID_NAMESPACEURI_FLAG OR UA_EXPANDEDNODEID_SERVERINDEX_FLAG));
        (r1, i, st) \<leftarrow> NodeId_decodeBinary calloc (xnodeId dst) (st\<lparr>dbuf := buf\<rparr>);
        (r2, (i, uri), st) \<leftarrow> (if encoding AND UA_EXPANDEDNODEID_NAMESPACEURI_FLAG \<noteq> 0
           then do { (r, uri, st) \<leftarrow> String_decodeBinary calloc (namespaceUri dst) st; Some (r, (i\<lparr>namespaceIndex := 0\<rparr>, uri), st) }
           else Some (0, (i, namespaceUri dst), st));
        (r3, server, st) \<leftarrow> (if encoding AND UA_EXPANDEDNODEID_SERVERINDEX_FLAG \<noteq> 0
           then UInt32_decodeBinary (serverIndex dst) st else Some (0, serverIndex dst, st));
        Some (r1 OR r2 OR r3, \<lparr>xnodeId = i, namespaceUri = uri, serverIndex = server\<rparr>, st) })"

record UA_LocalizedText =
  lt_locale :: UA_String
  lt_text :: UA_String

definition UA_LOCALIZEDTEXT_ENCODINGMASKTYPE_LOCALE :: u8 where "UA_LOCALIZEDTEXT_ENCODINGMASKTYPE_LOCALE = 1"
definition UA_LOCALIZEDTEXT_ENCODINGMASKTYPE_TEXT :: u8 where "UA_LOCALIZEDTEXT_ENCODINGMASKTYPE_TEXT = 2"

definition LocalizedText_encodeBinary :: "'s exchange option \<Rightarrow> UA_LocalizedText \<Rightarrow> 's encoding" where
  "LocalizedText_encodeBinary cb src st =
     do { let encoding = (if lt_locale src \<noteq> NullArray then UA_LOCALIZEDTEXT_ENCODINGMASKTYPE_LOCALE else 0);
          let encoding = (if lt_text src \<noteq> NullArray then encoding OR UA_LOCALIZEDTEXT_ENCODINGMASKTYPE_TEXT else encoding);
          (r1, st) \<leftarrow> Byte_encodeBinary encoding st;
          (r2, st) \<leftarrow> (if encoding AND UA_LOCALIZEDTEXT_ENCODINGMASKTYPE_LOCALE \<noteq> 0
             then String_encodeBinary cb (lt_locale src) st else Some (0, st));
          (r3, st) \<leftarrow> (if encoding AND UA_LOCALIZEDTEXT_ENCODINGMASKTYPE_TEXT \<noteq> 0
             then String_encodeBinary cb (lt_text src) st else Some (0, st));
          Some (r1 OR r2 OR r3, st) }"

definition LocalizedText_decodeBinary :: "(nat \<Rightarrow> bool) \<Rightarrow> UA_LocalizedText decoding" where
  "LocalizedText_decodeBinary calloc dst st =
     do { (r1, encoding, st) \<leftarrow> Byte_decodeBinary 0 st;
          (r2, l, st) \<leftarrow> (if encoding AND UA_LOCALIZEDTEXT_ENCODINGMASKTYPE_LOCALE \<noteq> 0
             then String_decodeBinary calloc (lt_locale dst) st else Some (0, lt_locale dst, st));
          (r3, t, st) \<leftarrow> (if encoding AND UA_LOCALIZEDTEXT_ENCODINGMASKTYPE_TEXT \<noteq> 0
             then String_decodeBinary calloc (lt_text dst) st else Some (0, lt_text dst, st));
          Some (r1 OR r2 OR r3, \<lparr>lt_locale = l, lt_text = t\<rparr>, st) }"

text \<open>A bit field \<open>has...\<close> with the member that it stands for is an option. Where the C object has a value in a member whose bit is
  not set, nothing reads it.\<close>

datatype UA_DiagnosticInfo = DiagnosticInfo
  (symbolicId: "u32 option") (di_namespaceUri: "u32 option") (localizedText: "u32 option") (di_locale: "u32 option")
  (additionalInfo: "UA_String option") (innerStatusCode: "UA_StatusCode option") (innerDiagnosticInfo: "UA_DiagnosticInfo option")

definition flag :: "nat \<Rightarrow> 'a option \<Rightarrow> u8" where
  "flag k x = (if x = None then 0 else push_bit k 1)"

definition diagnostic_mask :: "UA_DiagnosticInfo \<Rightarrow> u8" where
  "diagnostic_mask src = flag 0 (symbolicId src) OR flag 1 (di_namespaceUri src) OR flag 2 (localizedText src) OR
     flag 3 (di_locale src) OR flag 4 (additionalInfo src) OR flag 5 (innerDiagnosticInfo src)"

definition encode_option :: "('a \<Rightarrow> 's encoding) \<Rightarrow> 'a option \<Rightarrow> 's encoding" where
  "encode_option enc x st = (case x of None \<Rightarrow> Some (0, st) | Some v \<Rightarrow> enc v st)"

lemma encode_option_cong [fundef_cong]:
  "x = y \<Longrightarrow> st = st' \<Longrightarrow> (\<And>v. y = Some v \<Longrightarrow> enc v st' = enc' v st') \<Longrightarrow> encode_option enc x st = encode_option enc' y st'"
  by (auto simp: encode_option_def split: option.splits)

function DiagnosticInfo_encodeBinary :: "'s exchange option \<Rightarrow> UA_DiagnosticInfo \<Rightarrow> 's encoding" where
  "DiagnosticInfo_encodeBinary cb src st =
     do { (r0, st) \<leftarrow> Byte_encodeBinary (diagnostic_mask src) st;
          (r1, st) \<leftarrow> encode_option Int32_encodeBinary (symbolicId src) st;
          (r2, st) \<leftarrow> encode_option Int32_encodeBinary (di_namespaceUri src) st;
          (r3, st) \<leftarrow> encode_option Int32_encodeBinary (localizedText src) st;
          (r4, st) \<leftarrow> encode_option Int32_encodeBinary (di_locale src) st;
          (r5, st) \<leftarrow> encode_option (String_encodeBinary cb) (additionalInfo src) st;
          (r6, st) \<leftarrow> encode_option StatusCode_encodeBinary (innerStatusCode src) st;
          (r7, st) \<leftarrow> encode_option (DiagnosticInfo_encodeBinary cb) (innerDiagnosticInfo src) st;
          Some (r0 OR r1 OR r2 OR r3 OR r4 OR r5 OR r6 OR r7, st) }"
  by pat_completeness auto
termination
proof (relation "measure (\<lambda>(cb, src, st). size src)", goal_cases)
  case (2 cb src st a b aa ba ab bb ac bc ad bd ae be af bf ag bg v)
  then show ?case by (cases src) auto
qed simp

definition no_diagnostic :: UA_DiagnosticInfo where
  "no_diagnostic = DiagnosticInfo None None None None None None None"

definition decode_option :: "(decoder \<Rightarrow> (UA_StatusCode \<times> 'a \<times> decoder) option) \<Rightarrow> bool \<Rightarrow> decoder \<Rightarrow>
    (UA_StatusCode \<times> 'a option \<times> decoder) option" where
  "decode_option dec present st =
     (if present then do { (r, x, st) \<leftarrow> dec st; Some (r, Some x, st) } else Some (0, None, st))"

text \<open>\<open>depth\<close> bounds the nesting; the C function recurses as deep as the message says.\<close>

fun DiagnosticInfo_decodeBinary :: "nat \<Rightarrow> (nat \<Rightarrow> bool) \<Rightarrow> nat \<Rightarrow> decoder \<Rightarrow> (UA_StatusCode \<times> UA_DiagnosticInfo \<times> decoder) option" where
  "DiagnosticInfo_decodeBinary size_of calloc 0 st = None"
| "DiagnosticInfo_decodeBinary size_of calloc (Suc depth) st =
     do { (r0, encodingMask, st) \<leftarrow> Byte_decodeBinary 0 st;
          if r0 \<noteq> UA_STATUSCODE_GOOD then Some (r0, no_diagnostic, st)
          else do {
            (r1, sym, st) \<leftarrow> decode_option (Int32_decodeBinary 0) (encodingMask AND 0x01 \<noteq> 0) st;
            (r2, uri, st) \<leftarrow> decode_option (Int32_decodeBinary 0) (encodingMask AND 0x02 \<noteq> 0) st;
            (r3, txt, st) \<leftarrow> decode_option (Int32_decodeBinary 0) (encodingMask AND 0x04 \<noteq> 0) st;
            (r4, loc, st) \<leftarrow> decode_option (Int32_decodeBinary 0) (encodingMask AND 0x08 \<noteq> 0) st;
            (r5, add, st) \<leftarrow> decode_option (String_decodeBinary calloc NullArray) (encodingMask AND 0x10 \<noteq> 0) st;
            (r6, code, st) \<leftarrow> decode_option (StatusCode_decodeBinary 0) (encodingMask AND 0x20 \<noteq> 0) st;
            let rv = r0 OR r1 OR r2 OR r3 OR r4 OR r5 OR r6;
            if encodingMask AND 0x40 \<noteq> 0
            then if \<not> calloc size_of
                 then Some (UA_STATUSCODE_BADOUTOFMEMORY, DiagnosticInfo sym uri txt loc add code None, st)
                 else do { (r7, inner, st) \<leftarrow> DiagnosticInfo_decodeBinary size_of calloc depth st;
                           Some (rv OR r7, DiagnosticInfo sym uri txt loc add code (Some inner), st) }
            else Some (rv, DiagnosticInfo sym uri txt loc add code None, st) } }"

section \<open>Sizes\<close>

definition String_calcSizeBinary :: "UA_String \<Rightarrow> nat" where
  "String_calcSizeBinary p = 4 + length (arr_list p)"

definition Guid_calcSizeBinary :: "UA_Guid \<Rightarrow> nat" where
  "Guid_calcSizeBinary p = 16"

definition NodeId_calcSizeBinary :: "node_id \<Rightarrow> nat" where
  "NodeId_calcSizeBinary src = (case ident src of
     NUMERIC n \<Rightarrow>
       if n > 65535 \<or> namespaceIndex src > 255 then 1 + 6
       else if n > 255 \<or> namespaceIndex src > 0 then 1 + 3 else 1 + 1
   | BYTESTRING s \<Rightarrow> 1 + 2 + String_calcSizeBinary s
   | STRING s \<Rightarrow> 1 + 2 + String_calcSizeBinary s
   | GUID g \<Rightarrow> 1 + 18)"

definition ExpandedNodeId_calcSizeBinary :: "UA_ExpandedNodeId \<Rightarrow> nat" where
  "ExpandedNodeId_calcSizeBinary src = NodeId_calcSizeBinary (xnodeId src)
     + (if length (arr_list (namespaceUri src)) > 0 then String_calcSizeBinary (namespaceUri src) else 0)
     + (if serverIndex src > 0 then 4 else 0)"

definition LocalizedText_calcSizeBinary :: "UA_LocalizedText \<Rightarrow> nat" where
  "LocalizedText_calcSizeBinary src = 1
     + (if lt_locale src \<noteq> NullArray then String_calcSizeBinary (lt_locale src) else 0)
     + (if lt_text src \<noteq> NullArray then String_calcSizeBinary (lt_text src) else 0)"

definition size_option :: "nat \<Rightarrow> 'a option \<Rightarrow> nat" where
  "size_option n x = (if x = None then 0 else n)"

function DiagnosticInfo_calcSizeBinary :: "UA_DiagnosticInfo \<Rightarrow> nat" where
  "DiagnosticInfo_calcSizeBinary src = 1 + size_option 4 (symbolicId src) + size_option 4 (di_namespaceUri src)
     + size_option 4 (localizedText src) + size_option 4 (di_locale src)
     + (case additionalInfo src of None \<Rightarrow> 0 | Some s \<Rightarrow> String_calcSizeBinary s)
     + size_option 4 (innerStatusCode src)
     + (case innerDiagnosticInfo src of None \<Rightarrow> 0 | Some d \<Rightarrow> DiagnosticInfo_calcSizeBinary d)"
  by pat_completeness auto
termination
proof (relation "measure size", goal_cases)
  case (2 src d)
  then show ?case by (cases src) auto
qed simp

declare DiagnosticInfo_encodeBinary.simps [simp del] DiagnosticInfo_calcSizeBinary.simps [simp del]

end
