(* ===== verification/UACodec.thy ===== *)
theory UACodec
  imports UABinary
begin

text \<open>
  What an encoder writes when it fits and what a decoder makes of it, as rules that follow the definitions; with them
  the round trips of the builtin types.
\<close>

named_theorems emits_intros "one rule per encoder and construct"
named_theorems reads_intros "one rule per decoder and construct"

section \<open>Little-endian numbers\<close>

lemma bit_le_word: "bit (le_word bs :: 'a::len word) k \<longleftrightarrow> k < LENGTH('a) \<and> k div 8 < length bs \<and> bit (bs ! (k div 8)) (k mod 8)"
proof (induction bs arbitrary: k)
  case (Cons b bs)
  show ?case
  proof (cases "k < 8")
    case True
    then show ?thesis by (auto simp: bit_simps)
  next
    case False
    then have "k div 8 = Suc ((k - 8) div 8)" "(k - 8) mod 8 = k mod 8" by (simp_all add: div_if le_mod_geq)
    moreover have "\<not> bit b k" using False by (auto dest: bit_imp_le_length)
    ultimately show ?thesis using False Cons [of "k - 8"] by (auto simp: bit_simps)
  qed
qed simp

lemma le_word_le_bytes:
  assumes "LENGTH('a::len) \<le> 8 * n" shows "le_word (le_bytes n w) = (w :: 'a word)"
proof (rule bit_word_eqI)
  fix k assume k: "k < LENGTH('a)"
  then have "k div 8 < n" using assms by linarith
  moreover from this have "bit (le_bytes n w ! (k div 8)) (k mod 8) = bit w k"
    by (simp add: le_bytes_def bit_ucast_iff bit_drop_bit_eq)
  ultimately show "bit (le_word (le_bytes n w) :: 'a word) k = bit w k" using k by (simp add: bit_le_word)
qed

lemma le_bytes_unroll: "le_bytes 2 w = [ucast w, ucast (drop_bit 8 w)]"
  "le_bytes 4 w = [ucast w, ucast (drop_bit 8 w), ucast (drop_bit 16 w), ucast (drop_bit 24 w)]"
  "le_bytes 8 w = [ucast w, ucast (drop_bit 8 w), ucast (drop_bit 16 w), ucast (drop_bit 24 w),
     ucast (drop_bit 32 w), ucast (drop_bit 40 w), ucast (drop_bit 48 w), ucast (drop_bit 56 w)]"
  by (simp_all add: le_bytes_def upt_rec)

text \<open>The byte-wise functions of big-endian machines write the same bytes and read them back.\<close>

lemma encode_bytewise: "UA_encode16 h = le_bytes 2 h" "UA_encode32 w = le_bytes 4 w" "UA_encode64 l = le_bytes 8 l"
  by (simp_all add: UA_encode16_def UA_encode32_def UA_encode64_def le_bytes_unroll)

lemma le_word_snoc: "le_word (bs @ [b]) = (le_word bs + push_bit (8 * length bs) (ucast b) :: 'a::len word)"
proof -
  have "(le_word bs + push_bit (8 * length bs) (ucast b) :: 'a word) = le_word bs OR push_bit (8 * length bs) (ucast b)"
    by (rule disjunctive_add) (auto simp: bit_simps bit_le_word)
  also have "\<dots> = le_word (bs @ [b])"
  proof (rule bit_word_eqI)
    fix k
    show "bit (le_word bs OR push_bit (8 * length bs) (ucast b) :: 'a word) k = bit (le_word (bs @ [b]) :: 'a word) k" if "k < LENGTH('a)"
    proof (cases "k div 8 < length bs")
      case True
      then have "\<not> 8 * length bs \<le> k" by linarith
      then show ?thesis using True by (auto simp: bit_simps bit_le_word nth_append)
    next
      case False
      then have le: "8 * length bs \<le> k" by linarith
      have "k div 8 = length bs \<longleftrightarrow> k - 8 * length bs < 8" using le by linarith
      moreover have "k mod 8 = k - 8 * length bs" if "k div 8 = length bs" using that le by (metis minus_mult_div_eq_mod)
      moreover have "bit b n \<Longrightarrow> n < 8" for n by (auto dest: bit_imp_le_length)
      ultimately show ?thesis using that False le by (auto simp: bit_simps bit_le_word nth_append)
    qed
  qed
  finally show ?thesis by simp
qed

lemma le_word_sum:
  "le_word [a, b] = (ucast a + push_bit 8 (ucast b) :: 'w::len word)"
  "le_word [a, b, c, d] = (ucast a + push_bit 8 (ucast b) + push_bit 16 (ucast c) + push_bit 24 (ucast d) :: 'w::len word)"
  "le_word [a, b, c, d, e, f, g, h] = (ucast a + push_bit 8 (ucast b) + push_bit 16 (ucast c) + push_bit 24 (ucast d)
     + push_bit 32 (ucast e) + push_bit 40 (ucast f) + push_bit 48 (ucast g) + push_bit 56 (ucast h) :: 'w::len word)"
proof -
  note snoc = le_word_snoc [where 'a = 'w]
  have one: "le_word [a] = (ucast a :: 'w::len word)" by simp
  then show "le_word [a, b] = (ucast a + push_bit 8 (ucast b) :: 'w word)" using snoc [of "[a]" b] by (simp del: le_word.simps(2))
  note two = this
  have "le_word [a, b, c] = (le_word [a, b] + push_bit 16 (ucast c) :: 'w word)" using snoc [of "[a, b]" c] by (simp del: le_word.simps(2))
  moreover have "le_word [a, b, c, d] = (le_word [a, b, c] + push_bit 24 (ucast d) :: 'w word)" using snoc [of "[a, b, c]" d] by (simp del: le_word.simps(2))
  ultimately show "le_word [a, b, c, d] = (ucast a + push_bit 8 (ucast b) + push_bit 16 (ucast c) + push_bit 24 (ucast d) :: 'w word)"
    using two by (simp only:)
  note four = this
  have "le_word [a, b, c, d, e] = (le_word [a, b, c, d] + push_bit 32 (ucast e) :: 'w word)" using snoc [of "[a, b, c, d]" e] by (simp del: le_word.simps(2))
  moreover have "le_word [a, b, c, d, e, f] = (le_word [a, b, c, d, e] + push_bit 40 (ucast f) :: 'w word)"
    using snoc [of "[a, b, c, d, e]" f] by (simp del: le_word.simps(2))
  moreover have "le_word [a, b, c, d, e, f, g] = (le_word [a, b, c, d, e, f] + push_bit 48 (ucast g) :: 'w word)"
    using snoc [of "[a, b, c, d, e, f]" g] by (simp del: le_word.simps(2))
  moreover have "le_word [a, b, c, d, e, f, g, h] = (le_word [a, b, c, d, e, f, g] + push_bit 56 (ucast h) :: 'w word)"
    using snoc [of "[a, b, c, d, e, f, g]" h] by (simp del: le_word.simps(2))
  ultimately show "le_word [a, b, c, d, e, f, g, h] = (ucast a + push_bit 8 (ucast b) + push_bit 16 (ucast c) + push_bit 24 (ucast d)
     + push_bit 32 (ucast e) + push_bit 40 (ucast f) + push_bit 48 (ucast g) + push_bit 56 (ucast h) :: 'w word)"
    using four by (simp only:)
qed

lemma decode_bytewise: "UA_decode16 (le_bytes 2 h) = Some h" "UA_decode32 (le_bytes 4 w) = Some w" "UA_decode64 (le_bytes 8 l) = Some l"
proof -
  have "UA_decode16 [a, b] = Some (le_word [a, b])" for a b by (simp add: UA_decode16_def le_word_sum del: le_word.simps)
  then show "UA_decode16 (le_bytes 2 h) = Some h" using le_word_le_bytes [of 2 h] by (simp add: le_bytes_unroll del: le_word.simps)
  have "UA_decode32 [a, b, c, d] = Some (le_word [a, b, c, d])" for a b c d by (simp add: UA_decode32_def le_word_sum del: le_word.simps)
  then show "UA_decode32 (le_bytes 4 w) = Some w" using le_word_le_bytes [of 4 w] by (simp add: le_bytes_unroll del: le_word.simps)
  have "UA_decode64 [a, b, c, d, e, f, g, h] = Some (le_word [a, b, c, d, e, f, g, h])" for a b c d e f g h
    by (simp add: UA_decode64_def le_word_sum del: le_word.simps)
  then show "UA_decode64 (le_bytes 8 l) = Some l" using le_word_le_bytes [of 8 l] by (simp add: le_bytes_unroll del: le_word.simps)
qed

section \<open>Encoders\<close>

definition wrote :: "bytes \<Rightarrow> 's encoder \<Rightarrow> 's encoder" where
  "wrote bs st = st\<lparr>ebuf := patch (ebuf st) (epos st) bs, epos := epos st + length bs\<rparr>"

definition emits :: "'s encoding \<Rightarrow> bytes \<Rightarrow> bool" where
  "emits e bs \<longleftrightarrow> (\<forall>st. pbase st = ebase st \<longrightarrow> epos st + length bs \<le> length (ebuf st) \<longrightarrow> e st = Some (0, wrote bs st))"

lemma emitsD: "emits e bs \<Longrightarrow> pbase st = ebase st \<Longrightarrow> epos st + length bs \<le> length (ebuf st) \<Longrightarrow> e st = Some (0, wrote bs st)"
  by (simp add: emits_def)

lemma wrote_simps [simp]:
  "pbase (wrote bs st) = pbase st" "ebase (wrote bs st) = ebase st" "epos (wrote bs st) = epos st + length bs"
  "epos st + length bs \<le> length (ebuf st) \<Longrightarrow> length (ebuf (wrote bs st)) = length (ebuf st)" "wrote [] st = st"
  by (simp_all add: wrote_def)

lemma wrote_wrote: "epos st + length (xs @ ys) \<le> length (ebuf st) \<Longrightarrow> wrote ys (wrote xs st) = wrote (xs @ ys) st"
  by (simp add: wrote_def patch_patch add.assoc)

lemma emits_return: "r = 0 \<Longrightarrow> emits (\<lambda>st. Some (r, st)) []"
  by (simp add: emits_def)

lemma emits_bind:
  assumes "emits e xs" and "emits (\<lambda>st. k 0 st) ys" shows "emits (\<lambda>st. e st \<bind> (\<lambda>(r, st). k r st)) (xs @ ys)"
  unfolding emits_def
proof (intro allI impI)
  fix st :: "'a encoder" assume st: "pbase st = ebase st" "epos st + length (xs @ ys) \<le> length (ebuf st)"
  then have "e st = Some (0, wrote xs st)" by (intro emitsD [OF assms(1)]) simp_all
  moreover have "k 0 (wrote xs st) = Some (0, wrote ys (wrote xs st))" using st by (intro emitsD [OF assms(2)]) simp_all
  ultimately show "e st \<bind> (\<lambda>(r, st). k r st) = Some (0, wrote (xs @ ys) st)" using wrote_wrote [OF st(2)] by simp
qed

lemma emits_cong: "emits e xs \<Longrightarrow> xs = ys \<Longrightarrow> emits e ys"
  by simp

lemma emits_option [emits_intros]:
  "(\<And>v. x = Some v \<Longrightarrow> emits (enc v) (bin v)) \<Longrightarrow> emits (encode_option enc x) (case x of None \<Rightarrow> [] | Some v \<Rightarrow> bin v)"
  by (cases x) (simp_all add: encode_option_def emits_def)

lemma put_bytes_wrote: "pbase st = ebase st \<Longrightarrow> epos st + length bs \<le> length (ebuf st) \<Longrightarrow> put_bytes bs st = Some (wrote bs st)"
  using memcpy_patch [of "int (length bs)" bs "epos st" "ebuf st" "[]"] by (simp add: put_bytes_def wrote_def)

lemma past_end_fits: "pbase st = ebase st \<Longrightarrow> epos st + n \<le> length (ebuf st) \<Longrightarrow> past_end st n = Some False"
  by (simp add: past_end_def)

lemma past_end_full: "pbase st = ebase st \<Longrightarrow> length (ebuf st) < epos st + n \<Longrightarrow> past_end st n = Some True"
  by (simp add: past_end_def)

definition bin_bool :: "bool \<Rightarrow> bytes" where "bin_bool b = [if b then 1 else 0]"

lemma length_bin_bool [simp]: "length (bin_bool b) = 1"
  by (simp add: bin_bool_def)

lemma integers_emit [emits_intros]:
  "emits (Boolean_encodeBinary b) (bin_bool b)" "emits (Byte_encodeBinary x) [x]"
  "emits (UInt16_encodeBinary h) (le_bytes 2 h)" "emits (UInt32_encodeBinary w) (le_bytes 4 w)" "emits (UInt64_encodeBinary l) (le_bytes 8 l)"
  by (simp_all add: emits_def Boolean_encodeBinary_def Byte_encodeBinary_def UInt16_encodeBinary_def UInt32_encodeBinary_def
      UInt64_encodeBinary_def past_end_fits put_bytes_wrote bin_bool_def UA_STATUSCODE_GOOD_def)

lemmas same_integers = Int16_encodeBinary_def Int32_encodeBinary_def StatusCode_encodeBinary_def Int64_encodeBinary_def
  DateTime_encodeBinary_def Float_encodeBinary_def Double_encodeBinary_def Int16_decodeBinary_def Int32_decodeBinary_def
  StatusCode_decodeBinary_def Int64_decodeBinary_def DateTime_decodeBinary_def Float_decodeBinary_def Double_decodeBinary_def

lemma words_emit [emits_intros]:
  "emits (Int32_encodeBinary w) (le_bytes 4 w)" "emits (StatusCode_encodeBinary w) (le_bytes 4 w)" "emits (DateTime_encodeBinary l) (le_bytes 8 l)"
  by (simp_all add: same_integers integers_emit)

section \<open>Decoders\<close>

definition consumed :: "nat \<Rightarrow> decoder \<Rightarrow> decoder \<Rightarrow> bool" where
  "consumed n st st' \<longleftrightarrow> dpos st' = dpos st + n \<and> length (dbuf st') = length (dbuf st) \<and> drop (dpos st + n) (dbuf st') = drop (dpos st + n) (dbuf st)"

definition reads :: "(decoder \<Rightarrow> (UA_StatusCode \<times> 'a \<times> decoder) option) \<Rightarrow> bytes \<Rightarrow> 'a \<Rightarrow> bool" where
  "reads d bs v \<longleftrightarrow> (\<forall>st rest. dpos st \<le> length (dbuf st) \<longrightarrow> drop (dpos st) (dbuf st) = bs @ rest \<longrightarrow> (\<exists>st'. d st = Some (0, v, st') \<and> consumed (length bs) st st'))"

lemma consumed_0 [simp]: "consumed 0 st st"
  by (simp add: consumed_def)

lemma consumed_trans: "consumed m st st1 \<Longrightarrow> consumed n st1 st2 \<Longrightarrow> consumed (m + n) st st2"
proof -
  assume a: "consumed m st st1" "consumed n st1 st2"
  then have "drop n (drop (dpos st + m) (dbuf st1)) = drop n (drop (dpos st + m) (dbuf st))" by (simp only: consumed_def)
  then have "drop (dpos st + m + n) (dbuf st1) = drop (dpos st + m + n) (dbuf st)" by (simp only: drop_drop add.commute)
  then show ?thesis using a by (simp only: consumed_def add.assoc)
qed

lemma readsI:
  "(\<And>st rest. dpos st \<le> length (dbuf st) \<Longrightarrow> drop (dpos st) (dbuf st) = bs @ rest \<Longrightarrow> \<exists>st'. d st = Some (0, v, st') \<and> consumed (length bs) st st') \<Longrightarrow> reads d bs v"
  by (auto simp: reads_def)

lemma readsD: "reads d bs v \<Longrightarrow> dpos st \<le> length (dbuf st) \<Longrightarrow> drop (dpos st) (dbuf st) = bs @ rest \<Longrightarrow>
    \<exists>st'. d st = Some (0, v, st') \<and> consumed (length bs) st st'"
  by (auto simp: reads_def)

text \<open>What an encoder has written a decoder reads.\<close>

lemma reads_written:
  assumes "reads d bs v" and "epos st + length (bs @ cs) \<le> length (ebuf st)"
  shows "\<exists>st'. d \<lparr>dbuf = ebuf (wrote (bs @ cs) st), dpos = epos st\<rparr> = Some (0, v, st') \<and> dpos st' = epos st + length bs"
proof -
  have "drop (epos st) (ebuf (wrote (bs @ cs) st)) = bs @ cs @ drop (epos st + length (bs @ cs)) (ebuf st)"
    using assms(2) by (simp add: wrote_def drop_patch)
  then show ?thesis using readsD [OF assms(1), of "\<lparr>dbuf = ebuf (wrote (bs @ cs) st), dpos = epos st\<rparr>"] assms(2)
    by (auto simp: consumed_def)
qed

lemma reads_return: "r = 0 \<Longrightarrow> v = w \<Longrightarrow> reads (\<lambda>st. Some (r, v, st)) [] w"
  by (simp add: reads_def)

lemma input_length: "dpos st \<le> length (dbuf st) \<Longrightarrow> drop (dpos st) (dbuf st) = bs @ rest \<Longrightarrow> dpos st + length bs \<le> length (dbuf st)"
proof -
  assume le: "dpos st \<le> length (dbuf st)" and d: "drop (dpos st) (dbuf st) = bs @ rest"
  have "length (drop (dpos st) (dbuf st)) = length (bs @ rest)" by (simp only: d)
  then show ?thesis using le by simp
qed

lemma reads_bind:
  assumes "reads d xs v" and "reads (\<lambda>st. k 0 v st) ys w" shows "reads (\<lambda>st. d st \<bind> (\<lambda>(r, x, st). k r x st)) (xs @ ys) w"
proof (rule readsI)
  fix st :: decoder and rest assume in0: "dpos st \<le> length (dbuf st)" and st: "drop (dpos st) (dbuf st) = (xs @ ys) @ rest"
  then have "drop (dpos st) (dbuf st) = xs @ (ys @ rest)" by simp
  with assms(1) in0 obtain st1 where st1: "d st = Some (0, v, st1)" "consumed (length xs) st st1" unfolding reads_def by blast
  have "drop (dpos st1) (dbuf st1) = ys @ rest" using st1(2) drop_append_drop [OF st [unfolded append_assoc]] by (simp add: consumed_def)
  moreover have "dpos st1 \<le> length (dbuf st1)" using input_length [OF in0 st] st1(2) by (simp add: consumed_def)
  ultimately obtain st2 where "k 0 v st1 = Some (0, w, st2)" "consumed (length ys) st1 st2" using assms(2) unfolding reads_def by blast
  then show "\<exists>st'. d st \<bind> (\<lambda>(r, x, st). k r x st) = Some (0, w, st') \<and> consumed (length (xs @ ys)) st st'"
    using st1 by (auto intro: consumed_trans)
qed

lemma reads_cong: "reads d xs v \<Longrightarrow> xs = ys \<Longrightarrow> reads d ys v"
  by simp

lemma reads_option:
  "(\<And>v. x = Some v \<Longrightarrow> reads dec (bin v) v) \<Longrightarrow> b = (x \<noteq> None) \<Longrightarrow>
   reads (decode_option dec b) (case x of None \<Rightarrow> [] | Some v \<Rightarrow> bin v) x"
proof (cases x)
  case (Some v)
  assume "\<And>v. x = Some v \<Longrightarrow> reads dec (bin v) v" "b = (x \<noteq> None)"
  then have dec: "reads dec (bin v) v" and "b" using Some by auto
  have "reads (\<lambda>st. dec st \<bind> (\<lambda>(r, x, st). Some (r, Some x, st))) (bin v @ []) (Some v)"
    by (rule reads_bind [OF dec]) (rule reads_return, simp_all)
  then show ?thesis using Some \<open>b\<close> by (simp add: decode_option_def [abs_def])
qed (simp add: reads_def decode_option_def)

lemma get_bytes_input:
  assumes "dpos st \<le> length (dbuf st)" and "drop (dpos st) (dbuf st) = bs @ rest" and "n = length bs"
  shows "get_bytes n st = Some (bs, st\<lparr>dpos := dpos st + n\<rparr>)"
  using input_length [OF assms(1,2)] assms by (simp add: get_bytes_def)

lemma consumed_advance [simp]: "consumed n st (st\<lparr>dpos := dpos st + n\<rparr>)"
  by (simp add: consumed_def)

lemma past_input_fits: "dpos st \<le> length (dbuf st) \<Longrightarrow> drop (dpos st) (dbuf st) = bs @ rest \<Longrightarrow> n \<le> length bs \<Longrightarrow> \<not> past_input st n"
  using input_length [of st bs rest] by (simp add: past_input_def)

lemma reads_raw:
  assumes "n = length bs" and "\<And>st. k bs st = Some (0, v, st)"
  shows "reads (\<lambda>st. if past_input st n then e st else get_bytes n st \<bind> (\<lambda>(b, st). k b st)) bs v"
  using assms by (auto intro!: readsI simp: past_input_fits get_bytes_input)

lemma le_bytes_nonempty [simp]: "0 < n \<Longrightarrow> le_bytes n w \<noteq> []"
  by (simp add: le_bytes_def)

lemma integers_read [reads_intros]:
  "reads (Boolean_decodeBinary d1) (bin_bool b) b" "reads (Byte_decodeBinary d2) [x] x"
  "reads (UInt16_decodeBinary d3) (le_bytes 2 h) h" "reads (UInt32_decodeBinary d4) (le_bytes 4 w) w"
  "reads (UInt64_decodeBinary d5) (le_bytes 8 l) l"
  unfolding Boolean_decodeBinary_def [abs_def] Byte_decodeBinary_def [abs_def] UInt16_decodeBinary_def [abs_def]
    UInt32_decodeBinary_def [abs_def] UInt64_decodeBinary_def [abs_def]
  by (rule reads_raw; simp add: bin_bool_def le_word_le_bytes UA_STATUSCODE_GOOD_def)+

lemma words_read [reads_intros]:
  "reads (Int32_decodeBinary d4) (le_bytes 4 w) w" "reads (StatusCode_decodeBinary d4) (le_bytes 4 w) w"
  "reads (DateTime_decodeBinary d5) (le_bytes 8 l) l"
  by (simp_all add: same_integers integers_read)

section \<open>Arrays\<close>

definition bin_array :: "('a \<Rightarrow> bytes) \<Rightarrow> 'a arr \<Rightarrow> bytes" where
  "bin_array bin src = le_bytes 4 (array_length src) @ concat (map bin (arr_list src))"

text \<open>An array of length zero behind an ordinary pointer comes back as the undefined array.\<close>

fun norm_array :: "('a \<Rightarrow> 'a) \<Rightarrow> 'a arr \<Rightarrow> 'a arr" where
  "norm_array f (Elements (x # xs)) = Elements (map f (x # xs))"
| "norm_array f (Elements []) = NullArray"
| "norm_array f NullArray = NullArray"
| "norm_array f EmptySentinel = EmptySentinel"

definition array_small :: "'a arr \<Rightarrow> bool" where
  "array_small src \<longleftrightarrow> length (arr_list src) \<le> UA_INT32_MAX"

lemma emits_element [emits_intros]: "emits e bs \<Longrightarrow> emits (encode_element cb e) bs"
  by (auto simp: emits_def encode_element.simps status_codes)

lemma emits_complex:
  "(\<And>x. x \<in> set xs \<Longrightarrow> emits (enc x) (bin x)) \<Longrightarrow> emits (Array_encodeBinaryComplex cb (map enc xs)) (concat (map bin xs))"
proof (induction xs)
  case (Cons x xs)
  have "emits (encode_element cb (enc x)) (bin x)" using Cons(2) by (intro emits_element) simp
  then have "emits (\<lambda>st. encode_element cb (enc x) st \<bind> (\<lambda>(rv, st). if rv \<noteq> UA_STATUSCODE_GOOD then Some (rv, st)
      else Array_encodeBinaryComplex cb (map enc xs) st)) (bin x @ concat (map bin xs))"
    by (rule emits_bind) (use Cons in \<open>simp add: UA_STATUSCODE_GOOD_def\<close>)
  then show ?case by (simp add: Array_encodeBinaryComplex.simps [abs_def])
qed (simp add: emits_def UA_STATUSCODE_GOOD_def Array_encodeBinaryComplex.simps [abs_def])

lemma emits_overlay: "length mem = elementMemSize * left \<Longrightarrow> emits (Array_encodeBinaryOverlayable cb mem left elementMemSize) mem"
  by (subst emits_def, subst Array_encodeBinaryOverlayable.simps)
    (simp add: past_end_fits put_bytes_wrote UA_STATUSCODE_GOOD_def)

lemma length_le_bytes4 [simp]: "length (le_bytes 4 w) = 4"
  by simp

lemma emits_array:
  assumes "array_small src" and "overlayable type \<Longrightarrow> (\<forall>x\<in>set (arr_list src). to_bytes x = bin x \<and> length (bin x) = memSize type)"
    and "\<not> overlayable type \<Longrightarrow> (\<And>x. x \<in> set (arr_list src) \<Longrightarrow> emits (enc x) (bin x))"
  shows "emits (Array_encodeBinary cb type to_bytes enc src) (bin_array bin src)"
proof -
  have len: "length (concat (map bin xs)) = k * length xs" if "\<forall>x\<in>set xs. length (bin x) = k" for xs k
    using that by (induction xs) auto
  have eq: "map to_bytes (arr_list src) = map bin (arr_list src)" if "overlayable type" using assms(2) that by simp
  let ?k = "\<lambda>rv st. if rv \<noteq> UA_STATUSCODE_GOOD \<or> length (arr_list src) = 0 then Some (rv, st)
      else if \<not> overlayable type then Array_encodeBinaryComplex cb (map enc (arr_list src)) st
      else Array_encodeBinaryOverlayable cb (concat (map to_bytes (arr_list src))) (length (arr_list src)) (memSize type) st"
  have "emits (?k 0) (concat (map bin (arr_list src)))"
  proof (cases "arr_list src = []")
    case False
    then show ?thesis
      using assms(2,3) emits_complex [of "arr_list src" enc bin cb] len [of "arr_list src" "memSize type"]
      by (cases "overlayable type") (simp_all add: UA_STATUSCODE_GOOD_def eq emits_overlay)
  qed (simp add: emits_def)
  from emits_bind [OF words_emit(1), where k = ?k, OF this] show ?thesis
    using assms(1) by (simp add: Array_encodeBinary_def [abs_def] bin_array_def array_small_def)
qed

lemma memory_elements_concat:
  "\<forall>x\<in>set xs. length (bin x) = k \<and> of_bytes (bin x) = f x \<Longrightarrow> memory_elements of_bytes k (length xs) (concat (map bin xs) @ ys) = map f xs"
  by (induction xs) simp_all

lemma reads_elements:
  "(\<And>x. x \<in> set xs \<Longrightarrow> reads dec (bin x) (f x)) \<Longrightarrow> reads (decode_elements dec (length xs)) (concat (map bin xs)) (map f xs)"
proof (induction xs)
  case (Cons x xs)
  have rest: "reads (\<lambda>st. decode_elements dec (length xs) st \<bind> (\<lambda>(rv, ys, st). Some (rv, f x # ys, st))) (concat (map bin xs) @ []) (f x # map f xs)"
    by (rule reads_bind [where v = "map f xs"]) (use Cons in \<open>auto intro: reads_return\<close>)
  have "reads (\<lambda>st. dec st \<bind> (\<lambda>(rv, y, st). if rv \<noteq> UA_STATUSCODE_GOOD then Some (rv, [], st)
      else decode_elements dec (length xs) st \<bind> (\<lambda>(rv, ys, st). Some (rv, y # ys, st)))) (bin x @ concat (map bin xs)) (f x # map f xs)"
    by (rule reads_bind [where v = "f x"]) (use Cons(2) rest in \<open>simp_all add: UA_STATUSCODE_GOOD_def\<close>)
  then show ?case by simp
qed (simp add: reads_def UA_STATUSCODE_GOOD_def)

lemma sint_length: "n \<le> UA_INT32_MAX \<Longrightarrow> sint (of_nat n :: u32) = int n"
  by (simp add: UA_INT32_MAX_def sint_uint uint_nat unat_of_nat take_bit_nat_eq_self signed_take_bit_int_eq_self)

lemma reads_array:
  assumes "array_small src" and calloc: "\<And>n. calloc n"
    and "overlayable type \<Longrightarrow> (\<forall>x\<in>set (arr_list src). length (bin x) = memSize type \<and> of_bytes (bin x) = f x)"
    and "\<not> overlayable type \<Longrightarrow> memSize type * length (arr_list src) div 32 \<le> length (concat (map bin (arr_list src))) \<and>
      (\<forall>x\<in>set (arr_list src). reads dec (bin x) (f x))"
  shows "reads (Array_decodeBinary calloc type of_bytes dec dst) (bin_array bin src) (norm_array f src)"
proof -
  let ?n = "length (arr_list src)"
  let ?k = "\<lambda>rv signed_length st. if rv \<noteq> UA_STATUSCODE_GOOD then Some (rv, dst, st)
          else if sint signed_length \<le> 0
          then Some (UA_STATUSCODE_GOOD, if sint signed_length < 0 then NullArray else EmptySentinel, st)
          else do {
            let n = nat (sint signed_length);
            if length (dbuf st) < dpos st + memSize type * n div 32 then Some (UA_STATUSCODE_BADDECODINGERROR, dst, st)
            else if \<not> calloc (n * memSize type) then Some (UA_STATUSCODE_BADOUTOFMEMORY, NullArray, st)
            else if overlayable type
            then (if past_input st (memSize type * n) then Some (UA_STATUSCODE_BADDECODINGERROR, NullArray, st)
                  else do { (bs, st) \<leftarrow> get_bytes (memSize type * n) st;
                            Some (UA_STATUSCODE_GOOD, Elements (memory_elements of_bytes (memSize type) n bs), st) })
            else do {
              (rv, xs, st) \<leftarrow> decode_elements dec n st;
              Some (rv, if rv \<noteq> UA_STATUSCODE_GOOD then NullArray else Elements xs, st) } }"
  have "reads (?k 0 (array_length src)) (concat (map bin (arr_list src))) (norm_array f src)"
  proof (cases "arr_list src = []")
    case True
    then show ?thesis by (cases src) (auto simp: reads_def array_length_def UA_STATUSCODE_GOOD_def)
  next
    case False
    then obtain xs where src: "src = Elements xs" "xs \<noteq> []" by (cases src) auto
    have sint: "sint (array_length src) = int (length xs)" using src assms(1) by (simp add: array_length_def array_small_def sint_length)
    let ?bs = "concat (map bin xs)"
    have arr: "arr_list src = xs" using src(1) by simp
    have pos: "0 < int (length xs)" using src(2) by simp
    have norm: "norm_array f src = Elements (map f xs)" using src by (cases xs) simp_all
    show ?thesis
    proof (rule readsI)
      fix st :: decoder and rest assume in0: "dpos st \<le> length (dbuf st)" and st: "drop (dpos st) (dbuf st) = concat (map bin (arr_list src)) @ rest"
      then have st': "drop (dpos st) (dbuf st) = ?bs @ rest" using src by simp
      note fits = input_length [OF in0 st']
      show "\<exists>st'. ?k 0 (array_length src) st = Some (0, norm_array f src, st') \<and> consumed (length (concat (map bin (arr_list src)))) st st'"
      proof (cases "overlayable type")
        case True
        then have el: "\<forall>x\<in>set xs. length (bin x) = memSize type \<and> of_bytes (bin x) = f x" using assms(3) src by simp
        have len: "length ?bs = memSize type * length xs" using el by (induction xs) simp_all
        have "get_bytes (memSize type * length xs) st = Some (?bs, st\<lparr>dpos := dpos st + memSize type * length xs\<rparr>)"
          by (rule get_bytes_input [OF in0 st']) (simp add: len)
        moreover have "\<not> past_input st (memSize type * length xs)" by (rule past_input_fits [OF in0 st']) (simp add: len)
        moreover have "\<not> length (dbuf st) < dpos st + memSize type * length xs div 32" using fits len div_le_dividend [of "memSize type * length xs" 32] by linarith
        moreover have "memory_elements of_bytes (memSize type) (length xs) ?bs = map f xs" using memory_elements_concat [OF el, of "[]"] by simp
        ultimately show ?thesis using True len norm pos by (simp add: sint arr calloc UA_STATUSCODE_GOOD_def)
      next
        case False
        then have el: "memSize type * length xs div 32 \<le> length ?bs" "\<And>x. x \<in> set xs \<Longrightarrow> reads dec (bin x) (f x)" using assms(4) src by simp_all
        obtain st' where "decode_elements dec (length xs) st = Some (0, map f xs, st')" "consumed (length ?bs) st st'"
          using reads_elements [of xs dec bin f, OF el(2)] in0 st' unfolding reads_def by blast
        moreover have "\<not> length (dbuf st) < dpos st + memSize type * length xs div 32" using fits el(1) by linarith
        ultimately show ?thesis using False norm pos by (simp add: sint arr calloc UA_STATUSCODE_GOOD_def)
      qed
    qed
  qed
  from reads_bind [OF words_read(1), where k = ?k, OF this] show ?thesis
    by (simp add: Array_decodeBinary_def [abs_def] bin_array_def)
qed

end
