(* ===== verification/UABuiltin.thy ===== *)
theory UABuiltin
  imports UACodec
begin

text \<open>The encodings of strings, identifiers, texts and diagnostics: what is written, how long it is, and what is read back.\<close>

section \<open>Strings\<close>

definition bin_string :: "UA_String \<Rightarrow> bytes" where
  "bin_string = bin_array byte_memory"

abbreviation norm_string :: "UA_String \<Rightarrow> UA_String" where
  "norm_string \<equiv> norm_array (\<lambda>b. b)"

lemma length_bytes [simp]: "length (concat (map byte_memory xs)) = length xs"
  by (induction xs) (simp_all add: byte_memory_def)

lemma length_bin_string: "length (bin_string s) = String_calcSizeBinary s"
  by (simp add: bin_string_def bin_array_def String_calcSizeBinary_def)

lemma strings_emit [emits_intros]:
  "array_small s \<Longrightarrow> emits (String_encodeBinary cb s) (bin_string s)"
  "array_small s \<Longrightarrow> emits (ByteString_encodeBinary cb s) (bin_string s)"
  by (auto simp: String_encodeBinary_def [abs_def] ByteString_encodeBinary_def bin_string_def UA_TYPES_BYTE_def byte_memory_def
      intro!: emits_array)

lemma strings_read [reads_intros]:
  "array_small s \<Longrightarrow> (\<And>n. calloc n) \<Longrightarrow> reads (String_decodeBinary calloc dst) (bin_string s) (norm_string s)"
  "array_small s \<Longrightarrow> (\<And>n. calloc n) \<Longrightarrow> reads (ByteString_decodeBinary calloc dst) (bin_string s) (norm_string s)"
  by (auto simp: String_decodeBinary_def [abs_def] ByteString_decodeBinary_def bin_string_def UA_TYPES_BYTE_def byte_memory_def
      byte_value_def intro!: reads_array)

section \<open>Identifiers\<close>

definition guid_ok :: "UA_Guid \<Rightarrow> bool" where
  "guid_ok g \<longleftrightarrow> length (data4 g) = 8"

lemma length_guid: "guid_ok g \<Longrightarrow> length (guid_bytes g) = Guid_calcSizeBinary g"
  by (simp add: guid_bytes_def guid_ok_def Guid_calcSizeBinary_def)

lemma emits_guid [emits_intros]:
  assumes "guid_ok g" shows "emits (Guid_encodeBinary g) (guid_bytes g)"
proof -
  have "emits (\<lambda>st. past_end st 8 \<bind> (\<lambda>past. if past then Some (UA_STATUSCODE_BADENCODINGLIMITSEXCEEDED, st)
      else put_bytes (data4 g) st \<bind> (\<lambda>st. Some (0 OR 0 OR 0, st)))) (data4 g)"
    using assms by (simp add: emits_def past_end_fits put_bytes_wrote guid_ok_def)
  then have "emits (Guid_encodeBinary g) (le_bytes 4 (data1 g) @ le_bytes 2 (data2 g) @ le_bytes 2 (data3 g) @ data4 g)"
    unfolding Guid_encodeBinary_def [abs_def] by (intro emits_bind integers_emit)
  then show ?thesis by (simp add: guid_bytes_def)
qed

lemma reads_guid [reads_intros]:
  assumes "guid_ok g" shows "reads (Guid_decodeBinary dst) (guid_bytes g) g"
proof -
  let ?d = "dst\<lparr>data1 := data1 g, data2 := data2 g, data3 := data3 g\<rparr>"
  have "reads (\<lambda>st. let dst = ?d in if past_input st 8 then Some (UA_STATUSCODE_BADDECODINGERROR, dst, st)
      else get_bytes 8 st \<bind> (\<lambda>(bs, st). Some (0 OR 0 OR 0, dst\<lparr>data4 := bs\<rparr>, st))) (data4 g) g"
    unfolding Let_def by (rule reads_raw) (use assms in \<open>simp_all add: guid_ok_def\<close>)
  then have "reads (Guid_decodeBinary dst) (le_bytes 4 (data1 g) @ le_bytes 2 (data2 g) @ le_bytes 2 (data3 g) @ data4 g) g"
    unfolding Guid_decodeBinary_def [abs_def] by (intro reads_bind [OF integers_read(4)] reads_bind [OF integers_read(3)])
  then show ?thesis by (simp add: guid_bytes_def)
qed

definition bin_nodeid_masked :: "u8 \<Rightarrow> node_id \<Rightarrow> bytes" where
  "bin_nodeid_masked enc i = (case ident i of
     NUMERIC n \<Rightarrow>
       if n > 65535 \<or> namespaceIndex i > 255 then (enc OR 2) # le_bytes 2 (namespaceIndex i) @ le_bytes 4 n
       else if n > 255 \<or> namespaceIndex i > 0 then [enc OR 1, ucast (namespaceIndex i)] @ le_bytes 2 (ucast n :: u16)
       else [enc OR 0, ucast n]
   | STRING s \<Rightarrow> (enc OR 3) # le_bytes 2 (namespaceIndex i) @ bin_string s
   | GUID g \<Rightarrow> (enc OR 4) # le_bytes 2 (namespaceIndex i) @ guid_bytes g
   | BYTESTRING s \<Rightarrow> (enc OR 5) # le_bytes 2 (namespaceIndex i) @ bin_string s)"

abbreviation bin_nodeid :: "node_id \<Rightarrow> bytes" where
  "bin_nodeid \<equiv> bin_nodeid_masked 0"

definition nodeid_ok :: "node_id \<Rightarrow> bool" where
  "nodeid_ok i \<longleftrightarrow> (case ident i of NUMERIC n \<Rightarrow> True | STRING s \<Rightarrow> array_small s | GUID g \<Rightarrow> guid_ok g | BYTESTRING s \<Rightarrow> array_small s)"

definition norm_nodeid :: "node_id \<Rightarrow> node_id" where
  "norm_nodeid i = i\<lparr>ident := (case ident i of STRING s \<Rightarrow> STRING (norm_string s) | BYTESTRING s \<Rightarrow> BYTESTRING (norm_string s) | x \<Rightarrow> x)\<rparr>"

lemma length_bin_nodeid: "nodeid_ok i \<Longrightarrow> length (bin_nodeid_masked enc i) = NodeId_calcSizeBinary i"
  by (auto simp: bin_nodeid_masked_def NodeId_calcSizeBinary_def nodeid_ok_def length_bin_string length_guid Guid_calcSizeBinary_def
      split: UA_Identifier_of.splits)

lemma emits_then:
  assumes "emits e xs" and "emits f ys"
  shows "emits (\<lambda>st. e st \<bind> (\<lambda>(r1, st). f st \<bind> (\<lambda>(r2, st). Some (r1 OR r2, st)))) (xs @ ys)"
    and "emits g zs \<Longrightarrow> emits (\<lambda>st. e st \<bind> (\<lambda>(r1, st). f st \<bind> (\<lambda>(r2, st). g st \<bind> (\<lambda>(r3, st). Some (r1 OR r2 OR r3, st))))) (xs @ ys @ zs)"
  using emits_bind [OF assms(1), of "\<lambda>r1 st. f st \<bind> (\<lambda>(r2, st). Some (r1 OR r2, st))" ys]
    emits_bind [OF assms(2), of "\<lambda>r2 st. Some (0 OR r2, st)" "[]"]
    emits_bind [OF assms(1), of "\<lambda>r1 st. f st \<bind> (\<lambda>(r2, st). g st \<bind> (\<lambda>(r3, st). Some (r1 OR r2 OR r3, st)))" "ys @ zs"]
    emits_bind [OF assms(2), of "\<lambda>r2 st. g st \<bind> (\<lambda>(r3, st). Some (0 OR r2 OR r3, st))" zs]
    emits_bind [of g zs "\<lambda>r3 st. Some (0 OR 0 OR r3, st)" "[]"]
  by (simp_all add: emits_return)

lemma emits_nodeid_masked [emits_intros]:
  assumes "nodeid_ok i" shows "emits (NodeId_encodeBinaryWithEncodingMask cb i enc) (bin_nodeid_masked enc i)"
proof (cases "ident i")
  case (NUMERIC n)
  have "emits (Byte_encodeBinary b) [b]" for b by (rule integers_emit)
  note byte = emits_then [OF this]
  show ?thesis
    using NUMERIC byte(2) [OF integers_emit(3) integers_emit(4), of "enc OR 2" "namespaceIndex i" n]
      byte(2) [OF integers_emit(2) integers_emit(3), of "enc OR 1" "ucast (namespaceIndex i)" "ucast n"]
      byte(1) [OF integers_emit(2), of "enc OR 0" "ucast n"]
    by (auto simp: NodeId_encodeBinaryWithEncodingMask_def [abs_def] bin_nodeid_masked_def nodeid_types)
qed (use assms emits_then(2) [OF integers_emit(2) integers_emit(3) strings_emit(1)] emits_then(2) [OF integers_emit(2) integers_emit(3) strings_emit(2)]
    emits_then(2) [OF integers_emit(2) integers_emit(3) emits_guid] in
    \<open>auto simp: NodeId_encodeBinaryWithEncodingMask_def [abs_def] bin_nodeid_masked_def nodeid_types nodeid_ok_def\<close>)

lemma emits_nodeid [emits_intros]: "nodeid_ok i \<Longrightarrow> emits (NodeId_encodeBinary cb i) (bin_nodeid i)"
  unfolding NodeId_encodeBinary_def by (rule emits_nodeid_masked)

lemma reads_first_byte:
  assumes "reads (k b) bs v"
  shows "reads (\<lambda>st. Byte_decodeBinary d st \<bind> (\<lambda>(rv, b, st). if rv \<noteq> UA_STATUSCODE_GOOD then Some (rv, x, st) else k b st)) (b # bs) v"
  using reads_bind [OF integers_read(2), of "\<lambda>rv b st. if rv \<noteq> UA_STATUSCODE_GOOD then Some (rv, x, st) else k b st" b bs v] assms
  by (simp add: UA_STATUSCODE_GOOD_def)

lemma reads_then:
  assumes "reads d xs v" and "reads e ys w"
  shows "reads (\<lambda>st. d st \<bind> (\<lambda>(r1, x, st). e st \<bind> (\<lambda>(r2, y, st). Some (r1 OR r2, f x y, st)))) (xs @ ys) (f v w)"
  using reads_bind [OF assms(1), of "\<lambda>r1 x st. e st \<bind> (\<lambda>(r2, y, st). Some (r1 OR r2, f x y, st))" ys "f v w"]
    reads_bind [OF assms(2), of "\<lambda>r2 y st. Some (0 OR r2, f v y, st)" "[]" "f v w"]
  by (simp add: reads_return)

lemma reads_map:
  assumes "reads d xs v" shows "reads (\<lambda>st. d st \<bind> (\<lambda>(r, x, st). Some (r, f x, st))) xs (f v)"
  using reads_bind [OF assms, of "\<lambda>r x st. Some (r, f x, st)" "[]" "f v"] by (simp add: reads_return)

lemma ucast_small:
  "n \<le> 255 \<Longrightarrow> ucast (ucast (n :: u16) :: u8) = n" "m \<le> 65535 \<Longrightarrow> ucast (ucast (m :: u32) :: u16) = m" "m \<le> 255 \<Longrightarrow> ucast (ucast (m :: u32) :: u8) = m"
  by (simp_all add: word_unat_eq_iff unsigned_ucast_eq take_bit_nat_eq_self word_le_nat_alt unsigned_take_bit_eq)

lemma reads_pair:
  assumes "reads d xs m" and "reads e ys w" and "v = \<lparr>namespaceIndex = g m, ident = h w\<rparr>"
  shows "reads (\<lambda>st. d st \<bind> (\<lambda>(r1, ns, st). e st \<bind> (\<lambda>(r2, x, st). Some (r1 OR r2, \<lparr>namespaceIndex = g ns, ident = h x\<rparr>, st)))) (xs @ ys) v"
  unfolding assms(3) by (rule reads_then [OF assms(1,2)])

lemma reads_nodeid [reads_intros]:
  assumes ok: "nodeid_ok i" and calloc: "\<And>n. calloc n"
  shows "reads (NodeId_decodeBinary calloc dst) (bin_nodeid i) (norm_nodeid i)"
proof -
  have body: "reads (NodeId_decodeBinary calloc dst) (b # bs) v" if "reads (NodeId_decodeBody calloc dst b) bs v" for b bs v
    unfolding NodeId_decodeBinary_def [abs_def] by (rule reads_first_byte [where k = "NodeId_decodeBody calloc dst", OF that])
  have i: "norm_nodeid i = \<lparr>namespaceIndex = namespaceIndex i, ident = ident (norm_nodeid i)\<rparr>" by (simp add: norm_nodeid_def)
  note ns = integers_read(3) [where h = "namespaceIndex i" and ?d3.0 = "namespaceIndex dst"]
  show ?thesis
  proof (cases "ident i")
    case (NUMERIC n)
    have "reads (NodeId_decodeBinary calloc dst) (2 # le_bytes 2 (namespaceIndex i) @ le_bytes 4 n) (norm_nodeid i)"
      by (rule body, unfold NodeId_decodeBody_def [abs_def] nodeid_types, simp, rule reads_pair [OF ns integers_read(4)])
        (use i NUMERIC in \<open>simp add: norm_nodeid_def\<close>)
    moreover have "reads (NodeId_decodeBinary calloc dst) (1 # [ucast (namespaceIndex i)] @ le_bytes 2 (ucast n :: u16)) (norm_nodeid i)"
      if "n \<le> 65535" "namespaceIndex i \<le> 255"
      by (rule body, unfold NodeId_decodeBody_def [abs_def] nodeid_types, simp del: append.simps, rule reads_pair [OF integers_read(2) integers_read(3)])
        (use i NUMERIC that in \<open>simp add: norm_nodeid_def ucast_small\<close>)
    moreover have "reads (NodeId_decodeBinary calloc dst) [0, ucast n] (norm_nodeid i)" if "n \<le> 255" "\<not> 0 < namespaceIndex i"
    proof -
      have "namespaceIndex i = 0" using that(2) by (simp add: word_gt_0)
      have "norm_nodeid i = \<lparr>namespaceIndex = 0, ident = NUMERIC (ucast (ucast n :: u8))\<rparr>"
        using i NUMERIC that(1) \<open>namespaceIndex i = 0\<close> by (simp add: norm_nodeid_def ucast_small)
      then show ?thesis
        by (intro body, unfold NodeId_decodeBody_def [abs_def] nodeid_types, simp)
          (rule reads_map [OF integers_read(2), where f = "\<lambda>b. \<lparr>namespaceIndex = 0, ident = NUMERIC (ucast b)\<rparr>"])
    qed
    ultimately show ?thesis using NUMERIC by (auto simp: bin_nodeid_masked_def)
  next
    case (STRING s)
    then have "array_small s" using ok by (simp add: nodeid_ok_def)
    then have "reads (NodeId_decodeBinary calloc dst) (3 # le_bytes 2 (namespaceIndex i) @ bin_string s) (norm_nodeid i)"
      by (intro body, unfold NodeId_decodeBody_def [abs_def] nodeid_types, simp, intro reads_pair [OF ns strings_read(1)])
        (use i STRING calloc in \<open>simp_all add: norm_nodeid_def\<close>)
    then show ?thesis using STRING by (simp add: bin_nodeid_masked_def)
  next
    case (GUID g)
    then have "guid_ok g" using ok by (simp add: nodeid_ok_def)
    then have "reads (NodeId_decodeBinary calloc dst) (4 # le_bytes 2 (namespaceIndex i) @ guid_bytes g) (norm_nodeid i)"
      by (intro body, unfold NodeId_decodeBody_def [abs_def] nodeid_types, simp, intro reads_pair [OF ns reads_guid])
        (use i GUID in \<open>simp_all add: norm_nodeid_def\<close>)
    then show ?thesis using GUID by (simp add: bin_nodeid_masked_def)
  next
    case (BYTESTRING s)
    then have "array_small s" using ok by (simp add: nodeid_ok_def)
    then have "reads (NodeId_decodeBinary calloc dst) (5 # le_bytes 2 (namespaceIndex i) @ bin_string s) (norm_nodeid i)"
      by (intro body, unfold NodeId_decodeBody_def [abs_def] nodeid_types, simp, intro reads_pair [OF ns strings_read(2)])
        (use i BYTESTRING calloc in \<open>simp_all add: norm_nodeid_def\<close>)
    then show ?thesis using BYTESTRING by (simp add: bin_nodeid_masked_def)
  qed
qed

definition nodeid_kind :: "node_id \<Rightarrow> u8" where
  "nodeid_kind i = hd (bin_nodeid i)"

lemma nodeid_kind: "nodeid_kind i \<in> {0, 1, 2, 3, 4, 5}"
  and masked: "bin_nodeid_masked m i = (m OR nodeid_kind i) # tl (bin_nodeid i)" and bin_nodeid: "bin_nodeid i = nodeid_kind i # tl (bin_nodeid i)"
  by (auto simp: nodeid_kind_def bin_nodeid_masked_def split: UA_Identifier_of.splits)

definition expanded_mask :: "UA_ExpandedNodeId \<Rightarrow> u8" where
  "expanded_mask x = (if has_data (namespaceUri x) then 0x80 else 0) OR (if serverIndex x > 0 then 0x40 else 0)"

definition bin_expanded :: "UA_ExpandedNodeId \<Rightarrow> bytes" where
  "bin_expanded x = bin_nodeid_masked (expanded_mask x) (xnodeId x) @ (if has_data (namespaceUri x) then bin_string (namespaceUri x) else [])
     @ (if serverIndex x > 0 then le_bytes 4 (serverIndex x) else [])"

definition expanded_ok :: "UA_ExpandedNodeId \<Rightarrow> bool" where
  "expanded_ok x \<longleftrightarrow> nodeid_ok (xnodeId x) \<and> array_small (namespaceUri x)"

lemma emits_nothing: "emits (\<lambda>st. Some (0, st)) []"
  by (simp add: emits_def)

lemma reads_nothing: "reads (\<lambda>st. Some (0, v, st)) [] v"
  by (simp add: reads_def)

lemma emits_expanded [emits_intros]:
  assumes "expanded_ok x" shows "emits (ExpandedNodeId_encodeBinary cb x) (bin_expanded x)"
proof -
  have "emits (NodeId_encodeBinaryWithEncodingMask cb (xnodeId x) (expanded_mask x)) (bin_nodeid_masked (expanded_mask x) (xnodeId x))"
    using assms by (intro emits_nodeid_masked) (simp add: expanded_ok_def)
  moreover have "emits (\<lambda>st. if has_data (namespaceUri x) then String_encodeBinary cb (namespaceUri x) st else Some (0, st))
      (if has_data (namespaceUri x) then bin_string (namespaceUri x) else [])"
    using assms by (auto simp: expanded_ok_def emits_nothing intro: strings_emit)
  moreover have "emits (\<lambda>st. if serverIndex x > 0 then UInt32_encodeBinary (serverIndex x) st else Some (0, st))
      (if serverIndex x > 0 then le_bytes 4 (serverIndex x) else [])"
    by (simp add: integers_emit emits_nothing)
  ultimately have "emits (\<lambda>st. NodeId_encodeBinaryWithEncodingMask cb (xnodeId x) (expanded_mask x) st \<bind> (\<lambda>(r1, st).
      (if has_data (namespaceUri x) then String_encodeBinary cb (namespaceUri x) st else Some (0, st)) \<bind> (\<lambda>(r2, st).
      (if serverIndex x > 0 then UInt32_encodeBinary (serverIndex x) st else Some (0, st)) \<bind> (\<lambda>(r3, st). Some (r1 OR r2 OR r3, st))))) (bin_expanded x)"
    unfolding bin_expanded_def by (rule emits_then(2))
  moreover have "expanded_mask x = (let encoding = (if has_data (namespaceUri x) then UA_EXPANDEDNODEID_NAMESPACEURI_FLAG else 0)
      in if serverIndex x > 0 then encoding OR UA_EXPANDEDNODEID_SERVERINDEX_FLAG else encoding)"
    by (simp add: expanded_mask_def UA_EXPANDEDNODEID_NAMESPACEURI_FLAG_def UA_EXPANDEDNODEID_SERVERINDEX_FLAG_def)
  ultimately show ?thesis unfolding ExpandedNodeId_encodeBinary_def [abs_def] Let_def by simp
qed

definition zero_expanded :: UA_ExpandedNodeId where
  "zero_expanded = \<lparr>xnodeId = \<lparr>namespaceIndex = 0, ident = NUMERIC 0\<rparr>, namespaceUri = NullArray, serverIndex = 0\<rparr>"

text \<open>With a URI the index of the namespace is not read.\<close>

definition norm_expanded :: "UA_ExpandedNodeId \<Rightarrow> UA_ExpandedNodeId" where
  "norm_expanded x = (if has_data (namespaceUri x)
     then x\<lparr>xnodeId := (norm_nodeid (xnodeId x))\<lparr>namespaceIndex := 0\<rparr>, namespaceUri := norm_string (namespaceUri x)\<rparr>
     else x\<lparr>xnodeId := norm_nodeid (xnodeId x), namespaceUri := NullArray\<rparr>)"

lemma mask_bits:
  assumes "k \<in> {0, 1, 2, 3, 4, 5 :: u8}"
  shows "(expanded_mask x OR k) AND NOT (UA_EXPANDEDNODEID_NAMESPACEURI_FLAG OR UA_EXPANDEDNODEID_SERVERINDEX_FLAG) = k"
    and "(expanded_mask x OR k) AND UA_EXPANDEDNODEID_NAMESPACEURI_FLAG \<noteq> 0 \<longleftrightarrow> has_data (namespaceUri x)"
    and "(expanded_mask x OR k) AND UA_EXPANDEDNODEID_SERVERINDEX_FLAG \<noteq> 0 \<longleftrightarrow> serverIndex x > 0"
  using assms by (auto simp: expanded_mask_def UA_EXPANDEDNODEID_NAMESPACEURI_FLAG_def UA_EXPANDEDNODEID_SERVERINDEX_FLAG_def)

lemma reads_expanded [reads_intros]:
  assumes ok: "expanded_ok x" and calloc: "\<And>n. calloc n"
  shows "reads (ExpandedNodeId_decodeBinary calloc zero_expanded) (bin_expanded x) (norm_expanded x)"
proof (rule readsI)
  fix st :: decoder and rest assume in0: "dpos st \<le> length (dbuf st)" and st: "drop (dpos st) (dbuf st) = bin_expanded x @ rest"
  let ?uri = "namespaceUri x" and ?i = "norm_nodeid (xnodeId x)" and ?enc = "expanded_mask x OR nodeid_kind (xnodeId x)"
  let ?more = "(if has_data ?uri then bin_string ?uri else []) @ (if serverIndex x > 0 then le_bytes 4 (serverIndex x) else [])"
  let ?k = "\<lambda>r1 i st. do {
        (r2, (i, uri), st) \<leftarrow> (if has_data ?uri
           then do { (r, uri, st) \<leftarrow> String_decodeBinary calloc NullArray st; Some (r, (i\<lparr>namespaceIndex := 0\<rparr>, uri), st) }
           else Some (0, (i, NullArray), st));
        (r3, server, st) \<leftarrow> (if serverIndex x > 0 then UInt32_decodeBinary 0 st else Some (0, 0, st));
        Some (r1 OR r2 OR r3, \<lparr>xnodeId = i, namespaceUri = uri, serverIndex = server\<rparr>, st) }"
  have bytes: "bin_expanded x = ?enc # tl (bin_nodeid (xnodeId x)) @ ?more" unfolding bin_expanded_def by (subst masked) simp
  then have first: "dpos st < length (dbuf st)" "dbuf st ! dpos st = ?enc" "drop (Suc (dpos st)) (dbuf st) = tl (bin_nodeid (xnodeId x)) @ ?more @ rest"
    using input_length [OF in0 st] hd_drop_conv_nth [of "dpos st" "dbuf st"] st drop_Suc_drop [of "dpos st" "dbuf st"] by auto
  define st1 where "st1 = st\<lparr>dbuf := (dbuf st)[dpos st := nodeid_kind (xnodeId x)]\<rparr>"
  have st1: "drop (dpos st1) (dbuf st1) = (bin_nodeid (xnodeId x) @ ?more) @ rest"
    using first by (subst bin_nodeid) (simp add: st1_def Cons_nth_drop_Suc [symmetric])
  have uri: "reads (\<lambda>st. if has_data ?uri
           then do { (r, uri, st) \<leftarrow> String_decodeBinary calloc NullArray st; Some (r, (?i\<lparr>namespaceIndex := 0\<rparr>, uri), st) }
           else Some (0, (?i, NullArray), st)) (if has_data ?uri then bin_string ?uri else []) (xnodeId (norm_expanded x), namespaceUri (norm_expanded x))"
    using reads_map [OF strings_read(1) [of ?uri calloc NullArray], of "\<lambda>uri. (?i\<lparr>namespaceIndex := 0\<rparr>, uri)"] ok calloc
    by (simp add: norm_expanded_def reads_nothing expanded_ok_def)
  have server: "reads (\<lambda>st. if serverIndex x > 0 then UInt32_decodeBinary 0 st else Some (0, 0, st))
      (if serverIndex x > 0 then le_bytes 4 (serverIndex x) else []) (serverIndex x)"
    by (simp add: integers_read reads_nothing word_gt_0)
  have "reads (?k 0 ?i) ?more (norm_expanded x)"
  proof -
    have "norm_expanded x = \<lparr>xnodeId = xnodeId (norm_expanded x), namespaceUri = namespaceUri (norm_expanded x), serverIndex = serverIndex x\<rparr>"
      by (simp add: norm_expanded_def)
    then show ?thesis
      using reads_then [OF uri server, where f = "\<lambda>p server. \<lparr>xnodeId = fst p, namespaceUri = snd p, serverIndex = server\<rparr>"]
      by (simp add: case_prod_unfold split del: if_split)
  qed
  moreover have "reads (NodeId_decodeBinary calloc (xnodeId zero_expanded)) (bin_nodeid (xnodeId x)) ?i"
    by (rule reads_nodeid) (use ok calloc in \<open>simp_all add: expanded_ok_def\<close>)
  ultimately have "reads (\<lambda>st. NodeId_decodeBinary calloc (xnodeId zero_expanded) st \<bind> (\<lambda>(r, i, st). ?k r i st))
     (bin_nodeid (xnodeId x) @ ?more) (norm_expanded x)" by (intro reads_bind [where k = ?k])
  moreover have "dpos st1 \<le> length (dbuf st1)" using in0 by (simp add: st1_def)
  ultimately obtain st' where st': "NodeId_decodeBinary calloc (xnodeId zero_expanded) st1 \<bind> (\<lambda>(r, i, st). ?k r i st) = Some (0, norm_expanded x, st')"
    "consumed (length (bin_nodeid (xnodeId x) @ ?more)) st1 st'" using st1 unfolding reads_def by blast
  have "ExpandedNodeId_decodeBinary calloc zero_expanded st = Some (0, norm_expanded x, st')"
  proof -
    define e where "e = ?enc"
    have z: "namespaceUri zero_expanded = NullArray" "serverIndex zero_expanded = 0" by (simp_all add: zero_expanded_def)
    note m = mask_bits [OF nodeid_kind, of x "xnodeId x", folded e_def]
    have "\<not> length (dbuf st) \<le> dpos st" "load (dbuf st) (dpos st) = Some e"
      "store (dbuf st) (dpos st) (nodeid_kind (xnodeId x)) = Some ((dbuf st)[dpos st := nodeid_kind (xnodeId x)])"
      using first by (simp_all add: store_def e_def)
    then have "ExpandedNodeId_decodeBinary calloc zero_expanded st
        = NodeId_decodeBinary calloc (xnodeId zero_expanded) st1 \<bind> (\<lambda>(r, i, st). ?k r i st)"
      unfolding ExpandedNodeId_decodeBinary_def by (simp only: if_False bind.bind_lunit m st1_def z)
    then show ?thesis using st'(1) by simp
  qed
  moreover have "consumed (length (bin_expanded x)) st st'"
  proof -
    have "length (bin_nodeid (xnodeId x) @ ?more) = length (bin_expanded x)" by (subst bin_nodeid) (simp add: bytes)
    moreover from this have "drop (dpos st + length (bin_expanded x)) (dbuf st1) = drop (dpos st + length (bin_expanded x)) (dbuf st)"
      by (simp add: st1_def bytes drop_update_cancel)
    ultimately show ?thesis using st'(2) by (simp add: consumed_def st1_def)
  qed
  ultimately show "\<exists>st'. ExpandedNodeId_decodeBinary calloc zero_expanded st = Some (0, norm_expanded x, st') \<and> consumed (length (bin_expanded x)) st st'"
    by blast
qed

section \<open>Texts\<close>

definition bin_text :: "UA_LocalizedText \<Rightarrow> bytes" where
  "bin_text x = ((if lt_locale x \<noteq> NullArray then 1 else 0) OR (if lt_text x \<noteq> NullArray then 2 else 0))
     # (if lt_locale x \<noteq> NullArray then bin_string (lt_locale x) else []) @ (if lt_text x \<noteq> NullArray then bin_string (lt_text x) else [])"

definition text_ok :: "UA_LocalizedText \<Rightarrow> bool" where
  "text_ok x \<longleftrightarrow> array_small (lt_locale x) \<and> array_small (lt_text x)"

definition norm_text :: "UA_LocalizedText \<Rightarrow> UA_LocalizedText" where
  "norm_text x = \<lparr>lt_locale = norm_string (lt_locale x), lt_text = norm_string (lt_text x)\<rparr>"

lemma length_bin_text: "length (bin_text x) = LocalizedText_calcSizeBinary x"
  by (simp add: bin_text_def LocalizedText_calcSizeBinary_def length_bin_string)

lemmas text_masks = UA_LOCALIZEDTEXT_ENCODINGMASKTYPE_LOCALE_def UA_LOCALIZEDTEXT_ENCODINGMASKTYPE_TEXT_def

lemma emits_text [emits_intros]:
  assumes "text_ok x" shows "emits (LocalizedText_encodeBinary cb x) (bin_text x)"
proof -
  have "emits (\<lambda>st. if lt_locale x \<noteq> NullArray then String_encodeBinary cb (lt_locale x) st else Some (0, st))
      (if lt_locale x \<noteq> NullArray then bin_string (lt_locale x) else [])"
    "emits (\<lambda>st. if lt_text x \<noteq> NullArray then String_encodeBinary cb (lt_text x) st else Some (0, st))
      (if lt_text x \<noteq> NullArray then bin_string (lt_text x) else [])"
    using assms by (auto simp: text_ok_def emits_nothing intro: strings_emit)
  from emits_then(2) [OF integers_emit(2) this] show ?thesis
    by (auto simp: LocalizedText_encodeBinary_def [abs_def] bin_text_def text_masks Let_def)
qed

lemma reads_text [reads_intros]:
  assumes "text_ok x" and calloc: "\<And>n. calloc n"
  shows "reads (LocalizedText_decodeBinary calloc \<lparr>lt_locale = NullArray, lt_text = NullArray\<rparr>) (bin_text x) (norm_text x)"
proof -
  let ?b = "(if lt_locale x \<noteq> NullArray then 1 else 0) OR (if lt_text x \<noteq> NullArray then 2 else 0) :: u8"
  have bits: "?b AND 1 \<noteq> 0 \<longleftrightarrow> lt_locale x \<noteq> NullArray" "?b AND 2 \<noteq> 0 \<longleftrightarrow> lt_text x \<noteq> NullArray" by simp_all
  have parts: "reads (\<lambda>st. if ?b AND 1 \<noteq> 0 then String_decodeBinary calloc NullArray st else Some (0, NullArray, st))
      (if lt_locale x \<noteq> NullArray then bin_string (lt_locale x) else []) (norm_string (lt_locale x))"
    "reads (\<lambda>st. if ?b AND 2 \<noteq> 0 then String_decodeBinary calloc NullArray st else Some (0, NullArray, st))
      (if lt_text x \<noteq> NullArray then bin_string (lt_text x) else []) (norm_string (lt_text x))"
    unfolding bits using assms by (auto simp: text_ok_def reads_nothing intro!: strings_read)
  let ?k = "\<lambda>r1 encoding st. do {
      (r2, l, st) \<leftarrow> (if encoding AND 1 \<noteq> (0 :: u8) then String_decodeBinary calloc NullArray st else Some (0, NullArray, st));
      (r3, t, st) \<leftarrow> (if encoding AND 2 \<noteq> (0 :: u8) then String_decodeBinary calloc NullArray st else Some (0, NullArray, st));
      Some (r1 OR r2 OR r3, \<lparr>lt_locale = l, lt_text = t\<rparr>, st) }"
  have "reads (?k 0 ?b) ((if lt_locale x \<noteq> NullArray then bin_string (lt_locale x) else []) @ (if lt_text x \<noteq> NullArray then bin_string (lt_text x) else []))
      (norm_text x)"
    using reads_then [OF parts, where f = "\<lambda>l t. \<lparr>lt_locale = l, lt_text = t\<rparr>"] by (simp add: norm_text_def)
  from reads_bind [OF integers_read(2), where k = ?k, OF this] show ?thesis
    by (simp add: LocalizedText_decodeBinary_def [abs_def] bin_text_def text_masks cong: if_cong split del: if_split)
qed

section \<open>Diagnostics\<close>

definition bin_words :: "u32 option \<Rightarrow> bytes" where
  "bin_words x = (case x of None \<Rightarrow> [] | Some w \<Rightarrow> le_bytes 4 w)"

fun bin_diagnostic :: "UA_DiagnosticInfo \<Rightarrow> bytes" where
  "bin_diagnostic (DiagnosticInfo sy uri tx loc add code inner) =
     diagnostic_mask (DiagnosticInfo sy uri tx loc add code inner)
     # bin_words sy @ bin_words uri @ bin_words tx @ bin_words loc @ (case add of None \<Rightarrow> [] | Some s \<Rightarrow> bin_string s) @ bin_words code
     @ (case inner of None \<Rightarrow> [] | Some d \<Rightarrow> bin_diagnostic d)"

fun diagnostic_ok :: "UA_DiagnosticInfo \<Rightarrow> bool" where
  "diagnostic_ok (DiagnosticInfo sy uri tx loc add code inner) \<longleftrightarrow>
     (case add of None \<Rightarrow> True | Some s \<Rightarrow> array_small s) \<and> (case inner of None \<Rightarrow> True | Some d \<Rightarrow> diagnostic_ok d)"

lemma bin_words_emit [emits_intros]:
  "emits (encode_option Int32_encodeBinary x) (bin_words x)" "emits (encode_option StatusCode_encodeBinary x) (bin_words x)"
  unfolding bin_words_def by (rule emits_option, rule words_emit)+

lemma emits_diagnostic [emits_intros]: "diagnostic_ok d \<Longrightarrow> emits (DiagnosticInfo_encodeBinary cb d) (bin_diagnostic d)"
proof (induction d)
  case (DiagnosticInfo sy uri tx loc add code inner)
  have more: "emits (encode_option (String_encodeBinary cb) add) (case add of None \<Rightarrow> [] | Some s \<Rightarrow> bin_string s)"
    by (rule emits_option) (use DiagnosticInfo(2) in \<open>auto intro: strings_emit\<close>)
  have inside: "emits (encode_option (DiagnosticInfo_encodeBinary cb) inner) (case inner of None \<Rightarrow> [] | Some d \<Rightarrow> bin_diagnostic d)"
    by (rule emits_option) (use DiagnosticInfo in auto)
  show ?case
    by (subst DiagnosticInfo_encodeBinary.simps [abs_def], unfold UA_DiagnosticInfo.sel bin_diagnostic.simps, rule emits_cong)
      (rule emits_bind integers_emit bin_words_emit more inside emits_return | simp)+
qed

lemma length_bin_diagnostic: "length (bin_diagnostic d) = DiagnosticInfo_calcSizeBinary d"
proof (induction d)
  case (DiagnosticInfo sy uri tx loc add code inner)
  have w: "length (bin_words x) = size_option 4 x" for x by (simp add: bin_words_def size_option_def split: option.splits)
  show ?case using DiagnosticInfo by (simp add: w DiagnosticInfo_calcSizeBinary.simps length_bin_string split: option.splits)
qed

end
