(* ===== verification/UABinaryProperties.thy ===== *)
theory UABinaryProperties
  imports UABuiltin
begin

text \<open>Properties of the binary encoding of the builtin types.\<close>

section \<open>Round trips and sizes\<close>

definition blank :: "nat \<Rightarrow> 's \<Rightarrow> 's encoder" where
  "blank n w = \<lparr>ebuf = replicate n 0, ebase = 0, pbase = 0, epos = 0, world = w\<rparr>"

text \<open>C27: An expanded node identifier that fits into the buffer is written without an error, and decoding what was written
  gives the identifier back: its node identifier in whichever of the six forms the encoder has chosen, the URI and the server
  index. Where there is a URI the index of the namespace is not used and comes back as 0; a string of length zero behind an
  ordinary pointer comes back as the null string.\<close>

theorem expanded_nodeid_roundtrip:
  assumes "expanded_ok x" and "pbase st = ebase st" and "epos st + length (bin_expanded x) \<le> length (ebuf st)" and "\<And>n. calloc n"
  shows "\<exists>st' d. ExpandedNodeId_encodeBinary cb x st = Some (UA_STATUSCODE_GOOD, st') \<and>
     epos st' = epos st + length (bin_expanded x) \<and> length (ebuf st') = length (ebuf st) \<and>
     ExpandedNodeId_decodeBinary calloc zero_expanded \<lparr>dbuf = ebuf st', dpos = epos st\<rparr> = Some (UA_STATUSCODE_GOOD, norm_expanded x, d) \<and>
     dpos d = epos st'"
proof -
  let ?st' = "wrote (bin_expanded x) st"
  have e: "ExpandedNodeId_encodeBinary cb x st = Some (0, ?st')" using emitsD [OF emits_expanded [OF assms(1)] assms(2,3)] .
  obtain d where "ExpandedNodeId_decodeBinary calloc zero_expanded \<lparr>dbuf = ebuf ?st', dpos = epos st\<rparr> = Some (0, norm_expanded x, d)"
    "dpos d = epos st + length (bin_expanded x)"
    using reads_written [OF reads_expanded [of x calloc, OF assms(1,4)], of st "[]"] assms(3) by auto
  then show ?thesis using e assms(3) by (auto simp: UA_STATUSCODE_GOOD_def)
qed

definition example_expanded :: UA_ExpandedNodeId where
  "example_expanded = \<lparr>xnodeId = \<lparr>namespaceIndex = 3, ident = NUMERIC 300\<rparr>, namespaceUri = NullArray, serverIndex = 7\<rparr>"

theorem expanded_nodeid_roundtrip_witness:
  "\<exists>st' d. ExpandedNodeId_encodeBinary None example_expanded (blank 16 ()) = Some (UA_STATUSCODE_GOOD, st') \<and>
     ExpandedNodeId_decodeBinary (\<lambda>_. True) zero_expanded \<lparr>dbuf = ebuf st', dpos = 0\<rparr> = Some (UA_STATUSCODE_GOOD, example_expanded, d)"
proof -
  have ok: "expanded_ok example_expanded" by (simp add: example_expanded_def expanded_ok_def nodeid_ok_def array_small_def)
  have norm: "norm_expanded example_expanded = example_expanded"
    by (simp add: example_expanded_def norm_expanded_def norm_nodeid_def)
  have "epos (blank 16 ()) + length (bin_expanded example_expanded) \<le> length (ebuf (blank 16 ()))"
    by (simp add: blank_def bin_expanded_def bin_nodeid_masked_def example_expanded_def)
  then show ?thesis
    using expanded_nodeid_roundtrip [OF ok, of "blank 16 ()" "\<lambda>_. True" None] norm by (auto simp: blank_def)
qed

text \<open>C33: The size that is computed for a node identifier, an expanded node identifier, a localized text or a diagnostic
  before encoding is exactly the number of bytes that encoding writes. For an expanded node identifier this needs that its URI
  is not an empty string behind an ordinary pointer: such a URI is written but not counted.\<close>

theorem calc_size_exact:
  assumes "expanded_ok x" and "namespaceUri x \<noteq> Elements []" and "text_ok t" and "diagnostic_ok d"
    and "pbase st = ebase st" and "epos st + n \<le> length (ebuf st)"
  shows "(NodeId_calcSizeBinary (xnodeId x) \<le> n \<longrightarrow>
       (\<exists>st'. NodeId_encodeBinary cb (xnodeId x) st = Some (UA_STATUSCODE_GOOD, st') \<and> epos st' = epos st + NodeId_calcSizeBinary (xnodeId x))) \<and>
     (ExpandedNodeId_calcSizeBinary x \<le> n \<longrightarrow>
       (\<exists>st'. ExpandedNodeId_encodeBinary cb x st = Some (UA_STATUSCODE_GOOD, st') \<and> epos st' = epos st + ExpandedNodeId_calcSizeBinary x)) \<and>
     (LocalizedText_calcSizeBinary t \<le> n \<longrightarrow>
       (\<exists>st'. LocalizedText_encodeBinary cb t st = Some (UA_STATUSCODE_GOOD, st') \<and> epos st' = epos st + LocalizedText_calcSizeBinary t)) \<and>
     (DiagnosticInfo_calcSizeBinary d \<le> n \<longrightarrow>
       (\<exists>st'. DiagnosticInfo_encodeBinary cb d st = Some (UA_STATUSCODE_GOOD, st') \<and> epos st' = epos st + DiagnosticInfo_calcSizeBinary d))"
proof -
  have ok: "nodeid_ok (xnodeId x)" using assms(1) by (simp add: expanded_ok_def)
  have exact: "\<exists>st'. e st = Some (UA_STATUSCODE_GOOD, st') \<and> epos st' = epos st + k" if "emits e bs" "length bs = k" "k \<le> n" for e bs k
    using emitsD [OF that(1) assms(5)] that(2,3) assms(6) by (simp add: UA_STATUSCODE_GOOD_def)
  have "length (bin_expanded x) = ExpandedNodeId_calcSizeBinary x"
    using ok assms(2) by (cases "namespaceUri x") (simp_all add: bin_expanded_def ExpandedNodeId_calcSizeBinary_def length_bin_nodeid length_bin_string)
  then show ?thesis
    using exact [OF emits_nodeid [OF ok] length_bin_nodeid [OF ok]] exact [OF emits_expanded [OF assms(1)]]
      exact [OF emits_text [OF assms(3)] length_bin_text] exact [OF emits_diagnostic [OF assms(4)] length_bin_diagnostic]
    by blast
qed

definition example_text :: UA_LocalizedText where
  "example_text = \<lparr>lt_locale = Elements [101, 110], lt_text = Elements [104, 105]\<rparr>"

theorem calc_size_exact_witness:
  "\<exists>st'. ExpandedNodeId_encodeBinary None example_expanded (blank 16 ()) = Some (UA_STATUSCODE_GOOD, st') \<and> epos st' = 8"
proof -
  have "expanded_ok example_expanded" "namespaceUri example_expanded \<noteq> Elements []" "text_ok example_text" "diagnostic_ok no_diagnostic"
    by (simp_all add: example_expanded_def expanded_ok_def nodeid_ok_def array_small_def example_text_def text_ok_def no_diagnostic_def UA_INT32_MAX_def)
  moreover have "ExpandedNodeId_calcSizeBinary example_expanded = 8" by code_simp
  ultimately show ?thesis
    using calc_size_exact [of example_expanded example_text no_diagnostic "blank 16 ()" 16 None] by (simp add: blank_def)
qed

lemma reads_no_diagnostic: "reads (DiagnosticInfo_decodeBinary n calloc (Suc k)) [0] no_diagnostic"
proof (rule readsI)
  fix st :: decoder and rest assume "dpos st \<le> length (dbuf st)" "drop (dpos st) (dbuf st) = [0] @ rest"
  then obtain st' where "Byte_decodeBinary 0 st = Some (0, 0, st')" "consumed (length [0 :: u8]) st st'"
    using integers_read(2) [of 0 0] unfolding reads_def by blast
  then show "\<exists>st'. DiagnosticInfo_decodeBinary n calloc (Suc k) st = Some (0, no_diagnostic, st') \<and> consumed (length [0 :: u8]) st st'"
    by (simp add: decode_option_def no_diagnostic_def UA_STATUSCODE_GOOD_def)
qed

text \<open>C38: A diagnostic with an inner status code is not readable: the encoder writes the code but does not set its bit in the
  mask, so that the decoder stops four bytes early and takes the code for the beginning of what follows. And an inner diagnostic
  is announced by the bit of the inner status code.\<close>

theorem diagnostic_unreadable:
  "\<exists>st' d. DiagnosticInfo_encodeBinary None (DiagnosticInfo None None None None None (Some code) None) (blank 8 ()) = Some (UA_STATUSCODE_GOOD, st') \<and>
      epos st' = 5 \<and>
      DiagnosticInfo_decodeBinary n calloc 1 \<lparr>dbuf = ebuf st', dpos = 0\<rparr> = Some (UA_STATUSCODE_GOOD, no_diagnostic, d) \<and> dpos d = 1 \<and>
      diagnostic_mask (DiagnosticInfo None None None None None None (Some no_diagnostic)) = 0x20 \<and>
      bin_diagnostic (DiagnosticInfo None None None None None None (Some no_diagnostic)) = [0x20, 0]"
proof -
  let ?d = "DiagnosticInfo None None None None None (Some code) None" and ?b = "blank 8 ()"
  have bin: "bin_diagnostic ?d = 0 # le_bytes 4 code" by (simp add: bin_words_def diagnostic_mask_def flag_def)
  have "epos ?b + length (bin_diagnostic ?d) \<le> length (ebuf ?b)" unfolding bin by (simp add: blank_def)
  then have e: "DiagnosticInfo_encodeBinary None ?d ?b = Some (0, wrote ([0] @ le_bytes 4 code) ?b)"
    using emitsD [OF emits_diagnostic, of ?d ?b None] unfolding bin by (simp add: blank_def)
  obtain d where "DiagnosticInfo_decodeBinary n calloc 1 \<lparr>dbuf = ebuf (wrote ([0] @ le_bytes 4 code) ?b), dpos = epos ?b\<rparr> = Some (0, no_diagnostic, d)"
    "dpos d = epos ?b + length [0 :: u8]"
    using reads_written [OF reads_no_diagnostic [of n calloc 0], of ?b "le_bytes 4 code"] by (auto simp: blank_def)
  then show ?thesis using e
    by (auto simp: UA_STATUSCODE_GOOD_def consumed_def blank_def diagnostic_mask_def flag_def no_diagnostic_def bin_words_def)
qed

section \<open>Chunks\<close>

text \<open>A callback that sends the chunk and gives a new buffer of the same size, and what has been sent or waits in the buffer.\<close>

definition collect :: "nat \<Rightarrow> bytes exchange" where
  "collect n sent buf offset = (UA_STATUSCODE_GOOD, sent @ take offset buf, 0, replicate n 0)"

definition stream :: "bytes encoder \<Rightarrow> bytes" where
  "stream st = world st @ take (epos st) (ebuf st)"

definition in_buffer :: "'s encoder \<Rightarrow> bool" where
  "in_buffer st \<longleftrightarrow> pbase st = ebase st \<and> epos st \<le> length (ebuf st)"

lemma stream_wrote: "epos st + length bs \<le> length (ebuf st) \<Longrightarrow> stream (wrote bs st) = stream st @ bs"
  by (simp add: stream_def wrote_def patch_def)

lemma exchange_collect:
  "in_buffer st \<Longrightarrow> exchangeBuffer (Some (collect n)) st = Some (UA_STATUSCODE_GOOD, blank n (stream st))"
  by (simp add: exchangeBuffer_def collect_def in_buffer_def blank_def stream_def)

lemma stream_blank [simp]: "stream (blank n w) = w" "in_buffer (blank n w)"
  by (simp_all add: stream_def blank_def in_buffer_def)

lemma overlay_chunks:
  assumes "in_buffer st" and "0 < ms" and "ms \<le> n" and "length mem = ms * left"
  shows "\<exists>st'. Array_encodeBinaryOverlayable (Some (collect n)) mem left ms st = Some (UA_STATUSCODE_GOOD, st') \<and>
     in_buffer st' \<and> stream st' = stream st @ mem"
  using assms
proof (induction "2 * left + (if length (ebuf st) - epos st < ms then 1 else 0)" arbitrary: st mem left rule: less_induct)
  case less
  have b: "pbase st = ebase st" "epos st \<le> length (ebuf st)" using less(2) by (simp_all add: in_buffer_def)
  show ?case
  proof (cases "epos st + ms * left \<le> length (ebuf st)")
    case True
    then have "Array_encodeBinaryOverlayable (Some (collect n)) mem left ms st = Some (UA_STATUSCODE_GOOD, wrote mem st)"
      using b less(5) by (subst Array_encodeBinaryOverlayable.simps) (simp add: past_end_fits put_bytes_wrote)
    then show ?thesis using True b less(5) by (simp add: stream_wrote in_buffer_def)
  next
    case False
    define p where "p = (length (ebuf st) - epos st) div ms"
    have p: "p * ms \<le> length (ebuf st) - epos st" "p < left"
    proof -
      show "p * ms \<le> length (ebuf st) - epos st" unfolding p_def by (rule div_times_less_eq_dividend)
      have "length (ebuf st) - epos st < left * ms" using False b by (simp add: mult.commute)
      then show "p < left" unfolding p_def using less(3) by (simp add: less_mult_imp_div_less)
    qed
    have take: "length (take (p * ms) mem) = p * ms" using p(2) less(5) by (simp add: mult.commute)
    let ?st1 = "wrote (take (p * ms) mem) st" and ?rest = "drop (p * ms) mem"
    have fits: "epos st + length (take (p * ms) mem) \<le> length (ebuf st)" using p(1) b take by simp
    have in1: "in_buffer ?st1" using fits b by (simp add: in_buffer_def)
    let ?new = "blank n (stream ?st1)"
    have step: "Array_encodeBinaryOverlayable (Some (collect n)) mem left ms st =
        Array_encodeBinaryOverlayable (Some (collect n)) ?rest (left - p) ms ?new"
      using b False fits exchange_collect [OF in1, of n]
      by (subst Array_encodeBinaryOverlayable.simps) (simp add: past_end_full put_bytes_wrote p_def [symmetric] Let_def)
    have "2 * (left - p) + (if length (ebuf ?new) - epos ?new < ms then 1 else 0)
        < 2 * left + (if length (ebuf st) - epos st < ms then 1 else 0)"
    proof (cases "p = 0")
      case True
      then have "length (ebuf st) - epos st < ms" using less(3) by (simp add: p_def div_eq_0_iff)
      then show ?thesis using less(4) True by (simp add: blank_def)
    qed (use p(2) in auto)
    moreover have "length ?rest = ms * (left - p)" using less(5) by (simp add: diff_mult_distrib2 mult.commute)
    ultimately obtain st' where "Array_encodeBinaryOverlayable (Some (collect n)) ?rest (left - p) ms ?new = Some (UA_STATUSCODE_GOOD, st')"
      "in_buffer st'" "stream st' = stream ?new @ ?rest"
      using less(1) [of "left - p" ?new ?rest] less(3,4) by auto
    then show ?thesis using step stream_wrote [OF fits] by simp
  qed
qed

text \<open>C28: Chunking is invisible in a string: when the buffer is full it is sent and encoding goes on in the next one, and whatever the
  size of the buffers the bytes that are sent and those that wait in the last buffer are those of the string in one piece. Only when
  its length field does not fit is nothing written and the caller told so.\<close>

theorem string_chunked:
  assumes "in_buffer st" and "array_small s" and "0 < n"
  shows "\<exists>rv st'. String_encodeBinary (Some (collect n)) s st = Some (rv, st') \<and>
     (if epos st + 4 \<le> length (ebuf st) then rv = UA_STATUSCODE_GOOD \<and> in_buffer st' \<and> stream st' = stream st @ bin_string s
      else rv = UA_STATUSCODE_BADENCODINGLIMITSEXCEEDED \<and> st' = st)"
proof -
  let ?l = "le_bytes 4 (array_length s)" and ?xs = "arr_list s"
  have b: "pbase st = ebase st" using assms(1) by (simp add: in_buffer_def)
  have small: "\<not> length ?xs > UA_INT32_MAX" using assms(2) by (simp add: array_small_def)
  note def = String_encodeBinary_def Array_encodeBinary_def
  show ?thesis
  proof (cases "epos st + 4 \<le> length (ebuf st)")
    case True
    then have i: "Int32_encodeBinary (array_length s) st = Some (0, wrote ?l st)" using emitsD [OF words_emit(1)] b by simp
    have in1: "in_buffer (wrote ?l st)" using True b by (simp add: in_buffer_def)
    have str: "stream (wrote ?l st) = stream st @ ?l" using True by (intro stream_wrote) simp
    show ?thesis
    proof (cases "?xs = []")
      case empty: True
      then show ?thesis using True i in1 str small by (simp add: def bin_string_def bin_array_def UA_STATUSCODE_GOOD_def)
    next
      case False
      have "length (concat (map byte_memory ?xs)) = 1 * length ?xs" by simp
      from overlay_chunks [OF in1 _ _ this, of n] obtain st' where
        "Array_encodeBinaryOverlayable (Some (collect n)) (concat (map byte_memory ?xs)) (length ?xs) 1 (wrote ?l st) = Some (UA_STATUSCODE_GOOD, st')"
        "in_buffer st'" "stream st' = stream (wrote ?l st) @ concat (map byte_memory ?xs)" using assms(3) by auto
      then show ?thesis using True False i str small
        by (simp add: def bin_string_def bin_array_def UA_STATUSCODE_GOOD_def UA_TYPES_BYTE_def)
    qed
  next
    case False
    then have "Int32_encodeBinary (array_length s) st = Some (UA_STATUSCODE_BADENCODINGLIMITSEXCEEDED, st)"
      using b by (simp add: Int32_encodeBinary_def UInt32_encodeBinary_def past_end_full)
    then show ?thesis using False small by (simp add: def status_codes)
  qed
qed

theorem string_chunked_witness:
  "\<exists>st'. String_encodeBinary (Some (collect 6)) (Elements [1, 2, 3, 4, 5, 6, 7, 8, 9, 10]) (blank 6 []) = Some (UA_STATUSCODE_GOOD, st') \<and>
     stream st' = [10, 0, 0, 0, 1, 2, 3, 4, 5, 6, 7, 8, 9, 10]"
proof -
  have "array_small (Elements [1, 2, 3, 4, 5, 6, 7, 8, 9, 10 :: u8])" by (simp add: array_small_def UA_INT32_MAX_def)
  moreover have "bin_string (Elements [1, 2, 3, 4, 5, 6, 7, 8, 9, 10]) = [10, 0, 0, 0, 1, 2, 3, 4, 5, 6, 7, 8, 9, 10]" by code_simp
  moreover have "epos (blank 6 []) + 4 \<le> length (ebuf (blank 6 []))" by (simp add: blank_def)
  ultimately show ?thesis
    using string_chunked [of "blank 6 []" "Elements [1, 2, 3, 4, 5, 6, 7, 8, 9, 10]" 6] by (simp split: if_splits) blast
qed

text \<open>The text that does not fit: a locale of 24 bytes, cut by the end of a chunk of 16 bytes.\<close>

definition long_text :: UA_LocalizedText where
  "long_text = \<lparr>lt_locale = Elements (replicate 24 97), lt_text = Elements [98]\<rparr>"

lemma long_text_fails:
  "\<exists>st'. LocalizedText_encodeBinary (Some (collect 16)) long_text (blank 16 w) = Some (UA_STATUSCODE_BADENCODINGLIMITSEXCEEDED, st') \<and>
     pbase st' = 0 \<and> ebase st' = 0"
proof -
  let ?b = "blank 16 w" and ?cb = "Some (collect 16)" and ?l = "le_bytes 4 (24 :: u32)"
  let ?mem = "replicate 24 (97 :: u8)"
  have b: "pbase ?b = 0" "ebase ?b = 0" "epos ?b = 0" "length (ebuf ?b) = 16" by (simp_all add: blank_def)
  have byte: "Byte_encodeBinary 3 ?b = Some (0, wrote [3] ?b)" using emitsD [OF integers_emit(2), of ?b 3] b by simp
  let ?st = "wrote ?l (wrote [3] ?b)"
  have st: "pbase ?st = 0" "ebase ?st = 0" "epos ?st = 5" "length (ebuf ?st) = 16" using b by simp_all
  have len: "Int32_encodeBinary 24 (wrote [3] ?b) = Some (0, ?st)" using emitsD [OF words_emit(1), of "wrote [3] ?b" 24] b by simp
  let ?st1 = "wrote (take 11 ?mem) ?st"
  have in1: "in_buffer ?st1" using st by (simp add: in_buffer_def)
  let ?new = "blank 16 (stream ?st1)"
  have n: "pbase ?new = 0" "ebase ?new = 0" "epos ?new = 0" "length (ebuf ?new) = 16" by (simp_all add: blank_def)
  have "Array_encodeBinaryOverlayable ?cb (drop 11 ?mem) 13 1 ?new = Some (0, wrote (drop 11 ?mem) ?new)"
    using emitsD [OF emits_overlay, of "drop 11 ?mem" 1 13 ?new ?cb] n by simp
  moreover have "Array_encodeBinaryOverlayable ?cb ?mem 24 1 ?st = Array_encodeBinaryOverlayable ?cb (drop 11 ?mem) 13 1 ?new"
    using st exchange_collect [OF in1, of 16]
    by (subst Array_encodeBinaryOverlayable.simps) (simp add: past_end_full put_bytes_wrote Let_def)
  ultimately have mem: "Array_encodeBinaryOverlayable ?cb ?mem 24 1 ?st = Some (0, wrote (drop 11 ?mem) ?new)" by simp
  have bytes: "concat (map byte_memory (replicate k x)) = replicate k x" for k x by (induction k) (simp_all add: byte_memory_def)
  have loc: "String_encodeBinary ?cb (Elements ?mem) (wrote [3] ?b) = Some (0, wrote (drop 11 ?mem) ?new)"
    using len mem bytes by (simp add: String_encodeBinary_def Array_encodeBinary_def array_length_def UA_INT32_MAX_def UA_STATUSCODE_GOOD_def UA_TYPES_BYTE_def)
  let ?st2 = "wrote (drop 11 ?mem) ?new"
  have st2: "pbase ?st2 = 0" "ebase ?st2 = 0" "epos ?st2 = 13" "length (ebuf ?st2) = 16" using n by simp_all
  have "String_encodeBinary ?cb (Elements [98]) ?st2 = Some (UA_STATUSCODE_BADENCODINGLIMITSEXCEEDED, ?st2)"
    using st2 by (simp add: String_encodeBinary_def Array_encodeBinary_def UA_INT32_MAX_def Int32_encodeBinary_def UInt32_encodeBinary_def
        past_end_full status_codes)
  then show ?thesis using byte loc st2
    by (simp add: LocalizedText_encodeBinary_def long_text_def text_masks Let_def)
qed

text \<open>C37: A localized text can be impossible to send in chunks. When its locale has been cut by the end of a buffer and then the
  length of the text does not fit into the next one, the whole value is tried again from the beginning in another buffer, where the
  same happens: with chunks of 16 bytes a text whose locale has 24 bytes is encoded for ever, and the beginning of it is sent again
  and again.\<close>

theorem text_never_sent:
  "encode_element (Some (collect 16)) (LocalizedText_encodeBinary (Some (collect 16)) long_text) (blank 16 sent) = None"
proof (rule ccontr)
  let ?e = "LocalizedText_encodeBinary (Some (collect 16)) long_text"
  assume "encode_element (Some (collect 16)) ?e (blank 16 sent) \<noteq> None"
  then obtain r where "encode_element (Some (collect 16)) ?e (blank 16 sent) = Some r" by blast
  moreover have "encode_element cb e st = Some r \<Longrightarrow> cb = Some (collect 16) \<Longrightarrow> e = ?e \<Longrightarrow> st = blank 16 w \<Longrightarrow> False" for cb e st r w
  proof (induction cb e st r arbitrary: w rule: encode_element.raw_induct [rotated, consumes 1, case_names step])
    case (step loop cb e st r)
    obtain st' where st': "?e (blank 16 w) = Some (UA_STATUSCODE_BADENCODINGLIMITSEXCEEDED, st')" "pbase st' = 0" "ebase st' = 0"
      using long_text_fails by blast
    have "loop (Some (collect 16)) ?e (blank 16 (world st')) = Some r"
    proof -
      have p: "pbase (blank 16 w) = 0" "epos (blank 16 w) = 0" by (simp_all add: blank_def)
      have "exchangeBuffer (Some (collect 16)) (st'\<lparr>pbase := 0, epos := 0\<rparr>) = Some (UA_STATUSCODE_GOOD, blank 16 (world st'))"
        using st'(3) by (simp add: exchangeBuffer_def collect_def blank_def)
      then show ?thesis using step(2-5) st'(1) by (simp add: p Let_def)
    qed
    then show False by (rule step(1)) simp_all
  qed
  ultimately show False by blast
qed

end
