(* ===== verification/UAValue.thy ===== *)
theory UAValue
  imports UABinary
begin

text \<open>
  Typed values and the rest of \<open>ua_types_encoding_binary.c\<close>: type descriptions, the jump tables, extension objects,
  variants, data values and structures, with their encoders, decoders and computed sizes.

  The type descriptions are generated, so the tables are a parameter. A pointer to a type is a table and an index. The
  memory of a value is a term of \<open>uvalue\<close>; a function that gets memory of another type than it expects gives \<open>None\<close>. What
  the C functions do through a jump table is an argument \<open>enc\<close>, \<open>dec\<close> or \<open>calc\<close> of the functions for extension objects,
  variants and structures here, and \<open>UA_encodeType\<close>, \<open>UA_decodeType\<close> and \<open>UA_calcSizeType\<close> tie the knot.
\<close>

section \<open>Type descriptions\<close>

record UA_DataTypeMember =
  memberTypeIndex :: nat
  namespaceZero :: bool
  isArray :: bool

record UA_DataType = type_sizes +
  typeId :: node_id
  typeIndex :: nat
  builtin :: bool
  binaryEncodingId :: u16
  members :: "UA_DataTypeMember list"

datatype type_table = Standard | Custom

type_synonym type_ptr = "type_table \<times> nat"

record type_tables =
  UA_TYPES :: "UA_DataType list"
  customTypes :: "UA_DataType list"

fun table :: "type_tables \<Rightarrow> type_table \<Rightarrow> UA_DataType list" where
  "table T Standard = UA_TYPES T"
| "table T Custom = customTypes T"

definition type_at :: "type_tables \<Rightarrow> type_ptr \<Rightarrow> UA_DataType option" where
  "type_at T p = load (table T (fst p)) (snd p)"

text \<open>\<open>&typelists[!member->namespaceZero][member->memberTypeIndex]\<close> with \<open>typelists\<close> for the type at \<open>p\<close>.\<close>

definition member_type :: "type_tables \<Rightarrow> type_ptr \<Rightarrow> UA_DataTypeMember \<Rightarrow> type_ptr option" where
  "member_type T p d =
     (if namespaceZero d then Some (Standard, memberTypeIndex d)
      else do { t \<leftarrow> type_at T p;
                if typeIndex t \<le> snd p then Some (fst p, snd p - typeIndex t + memberTypeIndex d) else None })"

definition UA_BUILTIN_TYPES_COUNT :: nat where "UA_BUILTIN_TYPES_COUNT = 25"
definition UA_TYPES_INT32 :: nat where "UA_TYPES_INT32 = 5"
definition UA_TYPES_EXTENSIONOBJECT :: nat where "UA_TYPES_EXTENSIONOBJECT = 21"
definition UA_TYPES_DIAGNOSTICINFO :: nat where "UA_TYPES_DIAGNOSTICINFO = 24"

definition index_of :: "UA_DataType \<Rightarrow> nat" where
  "index_of t = (if builtin t then typeIndex t else UA_BUILTIN_TYPES_COUNT)"

text \<open>The functions that the two jump tables for encoding and decoding name; floating-point numbers are the words of
  their memory.\<close>

datatype codec = BooleanC | ByteC | UInt16C | UInt32C | UInt64C | StringC | GuidC | NodeIdC | ExpandedNodeIdC
  | LocalizedTextC | ExtensionObjectC | DataValueC | VariantC | DiagnosticInfoC | InternalC

definition encodeBinaryJumpTable :: "codec list" where
  "encodeBinaryJumpTable = [BooleanC, ByteC, ByteC, UInt16C, UInt16C, UInt32C, UInt32C, UInt64C, UInt64C, UInt32C, UInt64C,
     StringC, UInt64C, GuidC, StringC, StringC, NodeIdC, ExpandedNodeIdC, UInt32C, InternalC, LocalizedTextC, ExtensionObjectC,
     DataValueC, VariantC, DiagnosticInfoC, InternalC]"

definition decodeBinaryJumpTable :: "codec list" where
  "decodeBinaryJumpTable = [BooleanC, ByteC, ByteC, UInt16C, UInt16C, UInt32C, UInt32C, UInt64C, UInt64C, UInt32C, UInt64C,
     StringC, UInt64C, GuidC, StringC, StringC, NodeIdC, ExpandedNodeIdC, UInt32C, InternalC, LocalizedTextC, ExtensionObjectC,
     DataValueC, VariantC, DiagnosticInfoC, InternalC]"

datatype sizer = MemSizeS | StringS | GuidS | NodeIdS | ExpandedNodeIdS | LocalizedTextS | ExtensionObjectS | DataValueS | VariantS
  | DiagnosticInfoS | calcSizeS

definition calcSizeBinaryJumpTable :: "sizer list" where
  "calcSizeBinaryJumpTable = replicate 11 MemSizeS @ [StringS, MemSizeS, GuidS, StringS, StringS, NodeIdS, ExpandedNodeIdS, MemSizeS,
     calcSizeS, LocalizedTextS, ExtensionObjectS, DataValueS, VariantS, DiagnosticInfoS, calcSizeS]"

section \<open>Values\<close>

text \<open>A member of a structure is a value, or an array with its length in front.\<close>

datatype 'v member = Single 'v | ArrayOf "'v arr"

datatype body_encoding = NOBODY | BYTESTRING_BODY | XML_BODY

text \<open>An extension object is encoded, with the identifier of its type and a body, or decoded (\<open>nodelete\<close> or not), with a pointer
  to the type and one to the data. The data of a variant are an array of \<open>arrayLength\<close> elements, or with an
  ordinary pointer and \<open>arrayLength = 0\<close> a scalar.\<close>

datatype uvalue =
    Bool_v bool | Byte_v u8 | UInt16_v u16 | UInt32_v u32 | UInt64_v "64 word"
  | String_v UA_String | Guid_v UA_Guid | NodeId_v node_id | ExpandedNodeId_v UA_ExpandedNodeId
  | LocalizedText_v UA_LocalizedText | DiagnosticInfo_v UA_DiagnosticInfo
  | Encoded_v body_encoding node_id UA_String
  | Decoded_v (nodelete: bool) (decoded_type: "type_ptr option") (decoded_data: "uvalue option")
  | Variant_v (var_type: "type_ptr option") (arrayLength: nat) (var_data: "uvalue arr") (arrayDimensions: "u32 arr")
  | DataValue_v (dv_value: "uvalue option") (dv_status: "UA_StatusCode option") (sourceTimestamp: "64 word option")
      (serverTimestamp: "64 word option") (sourcePicoseconds: "u16 option") (serverPicoseconds: "u16 option")
  | Struct_v "uvalue member list"

text \<open>The values that a value contains directly.\<close>

fun member_values :: "'v member \<Rightarrow> 'v list" where
  "member_values (Single v) = [v]"
| "member_values (ArrayOf a) = arr_list a"

lemma arr_list_set: "set (arr_list a) = set_arr a"
  by (cases a) simp_all

lemma size_list_le: "x \<in> set xs \<Longrightarrow> f x \<le> size_list f xs"
  by (rule size_list_estimation' [of x]) simp_all

lemma size_arr_le: "x \<in> set (arr_list a) \<Longrightarrow> f x \<le> size_arr f a"
  by (cases a) (auto dest: size_list_le [where f = f])

lemma size_member_le:
  assumes "m \<in> set ms" and "x \<in> set (member_values m)" shows "f x < size_list (size_member f) ms"
proof -
  have "f x < size_member f m" using assms(2) by (cases m) (auto dest: size_arr_le [where f = f] simp: le_imp_less_Suc)
  then show ?thesis using size_list_le [OF assms(1), of "size_member f"] by simp
qed

fun parts :: "uvalue \<Rightarrow> uvalue list" where
  "parts (Decoded_v nd ty (Some v)) = [v]"
| "parts (Variant_v ty n d dims) = arr_list d"
| "parts (DataValue_v (Some v) st t1 t2 p1 p2) = parts v"
| "parts (Struct_v ms) = concat (map member_values ms)"
| "parts _ = []"

lemma size_parts [termination_simp]: "x \<in> set (parts v) \<Longrightarrow> size x < size v"
proof (induction v rule: parts.induct)
  case (2 ty n d dims)
  then show ?case using size_arr_le [of x d size] by simp
next
  case (4 ms)
  then show ?case using size_member_le [of _ ms x size] by (auto simp: less_SucI)
qed auto

lemma size_members [termination_simp]: "m \<in> set ms \<Longrightarrow> x \<in> set (member_values m) \<Longrightarrow> size x < Suc (size_list (size_member size) ms)"
  using size_member_le [of m ms x size] by simp

text \<open>The memory of a value without pointers, in a type without padding.\<close>

fun memory_of :: "uvalue \<Rightarrow> bytes" where
  "memory_of (Bool_v b) = [if b then 1 else 0]"
| "memory_of (Byte_v b) = [b]"
| "memory_of (UInt16_v h) = le_bytes 2 h"
| "memory_of (UInt32_v w) = le_bytes 4 w"
| "memory_of (UInt64_v l) = le_bytes 8 l"
| "memory_of (Guid_v g) = guid_bytes g"
| "memory_of (Struct_v ms) = concat (map (\<lambda>m. concat (map memory_of (member_values m))) ms)"
| "memory_of _ = []"

fun members_at :: "(type_ptr \<Rightarrow> bytes \<Rightarrow> uvalue) \<Rightarrow> type_tables \<Rightarrow> type_ptr \<Rightarrow> UA_DataTypeMember list \<Rightarrow> bytes \<Rightarrow> uvalue member list" where
  "members_at at T p [] bs = []"
| "members_at at T p (d # ds) bs = (case do { q \<leftarrow> member_type T p d; t \<leftarrow> type_at T q; Some (q, memSize t) } of
     None \<Rightarrow> []
   | Some (q, n) \<Rightarrow> Single (at q (take n bs)) # members_at at T p ds (drop n bs))"

text \<open>The value in copied memory; a type that is overlayable has no other members than these.\<close>

primrec value_at :: "nat \<Rightarrow> type_tables \<Rightarrow> type_ptr \<Rightarrow> bytes \<Rightarrow> uvalue" where
  "value_at 0 T p bs = Struct_v []"
| "value_at (Suc depth) T p bs = (case do { t \<leftarrow> type_at T p; c \<leftarrow> load decodeBinaryJumpTable (index_of t); Some (t, c) } of
     Some (t, BooleanC) \<Rightarrow> Bool_v (hd bs > 0)
   | Some (t, ByteC) \<Rightarrow> Byte_v (hd bs)
   | Some (t, UInt16C) \<Rightarrow> UInt16_v (le_word (take 2 bs))
   | Some (t, UInt32C) \<Rightarrow> UInt32_v (le_word (take 4 bs))
   | Some (t, UInt64C) \<Rightarrow> UInt64_v (le_word (take 8 bs))
   | Some (t, GuidC) \<Rightarrow> Guid_v \<lparr>data1 = le_word (take 4 bs), data2 = le_word (take 2 (drop 4 bs)),
       data3 = le_word (take 2 (drop 6 bs)), data4 = take 8 (drop 8 bs)\<rparr>
   | Some (t, InternalC) \<Rightarrow> Struct_v (members_at (value_at depth T) T p (members t) bs)
   | _ \<Rightarrow> Struct_v [])"

text \<open>Copied structures nest at most as deep as there are types: the generator makes no type a member of itself.\<close>

definition nesting :: "type_tables \<Rightarrow> nat" where
  "nesting T = Suc (length (UA_TYPES T) + length (customTypes T))"

text \<open>The memory of a builtin type is that of its only member, a string is an array of bytes.\<close>

fun members_of :: "uvalue \<Rightarrow> uvalue member list" where
  "members_of (Struct_v ms) = ms"
| "members_of (String_v s) = [ArrayOf (map_arr Byte_v s)]"
| "members_of v = [Single v]"

text \<open>\<open>arrayLength > 0 || data <= UA_EMPTY_ARRAY_SENTINEL\<close>, the array at \<open>data\<close> and the scalar.\<close>

definition is_array :: "nat \<Rightarrow> 'a arr \<Rightarrow> bool" where
  "is_array n d \<longleftrightarrow> n > 0 \<or> \<not> has_data d"

definition variant_array :: "nat \<Rightarrow> 'a arr \<Rightarrow> 'a arr option" where
  "variant_array n d = (case d of
     Elements xs \<Rightarrow> if n \<le> length xs then Some (Elements (take n xs)) else None
   | e \<Rightarrow> if n = 0 then Some e else None)"

definition variant_scalar :: "'a arr \<Rightarrow> 'a option" where
  "variant_scalar d = (case d of Elements (v # vs) \<Rightarrow> Some v | _ \<Rightarrow> None)"

definition numeric_id :: "node_id \<Rightarrow> bool" where
  "numeric_id i \<longleftrightarrow> (case ident i of NUMERIC n \<Rightarrow> True | _ \<Rightarrow> False)"

end
