(* ===== verification/UAEncode.thy ===== *)
theory UAEncode
  imports UAValue
begin

text \<open>
  Computed sizes and encoders of extension objects, variants, data values and structures
  (\<open>ua_types_encoding_binary.c\<close>). \<open>enc\<close> and \<open>calc\<close> stand for the calls through the jump tables.
\<close>

section \<open>Sizes\<close>

type_synonym 'r by_type = "type_ptr \<Rightarrow> uvalue \<Rightarrow> 'r"

definition body_code :: "body_encoding \<Rightarrow> u8" where
  "body_code e = (case e of NOBODY \<Rightarrow> 0 | BYTESTRING_BODY \<Rightarrow> 1 | XML_BODY \<Rightarrow> 2)"

definition ExtensionObject_calcSizeBinary :: "type_tables \<Rightarrow> nat by_type \<Rightarrow> uvalue \<Rightarrow> nat" where
  "ExtensionObject_calcSizeBinary T calc src = (case src of
     Decoded_v nd (Some p) (Some v) \<Rightarrow>
       (case type_at T p of
          Some t \<Rightarrow> if numeric_id (typeId t) then 1 + NodeId_calcSizeBinary (typeId t) + 4 + calc p v else 0
        | None \<Rightarrow> 0)
   | Encoded_v e i body \<Rightarrow> 1 + NodeId_calcSizeBinary i + (if e = NOBODY then 0 else String_calcSizeBinary body)
   | _ \<Rightarrow> 0)"

definition Variant_calcSizeBinary :: "type_tables \<Rightarrow> nat by_type \<Rightarrow> uvalue \<Rightarrow> nat" where
  "Variant_calcSizeBinary T calc src = (case src of
     Variant_v None n d dims \<Rightarrow> 1
   | Variant_v (Some p) n d dims \<Rightarrow>
       (case (type_at T p, type_at T (Standard, UA_TYPES_INT32)) of
          (Some t, Some t32) \<Rightarrow>
            if \<not> builtin t \<and> \<not> numeric_id (typeId t) then 0
            else 1 + (if is_array n d then 4 else 0)
              + sum_list (map (\<lambda>v. (if builtin t then 0 else NodeId_calcSizeBinary (typeId t) + 1 + 4) + calc p v)
                  (take (if is_array n d then n else 1) (arr_list d)))
              + (if is_array n d \<and> length (arr_list dims) > 0 then Array_calcSizeBinary (type_sizes.truncate t32) (\<lambda>_. memSize t32) dims else 0)
        | _ \<Rightarrow> 0)
   | _ \<Rightarrow> 0)"

definition DataValue_calcSizeBinary :: "type_tables \<Rightarrow> nat by_type \<Rightarrow> uvalue \<Rightarrow> nat" where
  "DataValue_calcSizeBinary T calc src = (case src of
     DataValue_v val st sts vts sps vps \<Rightarrow>
       1 + (case val of None \<Rightarrow> 0 | Some v \<Rightarrow> Variant_calcSizeBinary T calc v) + size_option 4 st + size_option 8 sts + size_option 2 sps
         + size_option 8 vts + size_option 2 vps
   | _ \<Rightarrow> 0)"

text \<open>The loop over the members of the type at \<open>p\<close>.\<close>

definition member_calcSize :: "type_tables \<Rightarrow> nat by_type \<Rightarrow> type_ptr \<Rightarrow> UA_DataTypeMember \<Rightarrow> uvalue member \<Rightarrow> nat" where
  "member_calcSize T calc p d m = (case member_type T p d of
     None \<Rightarrow> 0
   | Some q \<Rightarrow> (case m of
       Single v \<Rightarrow> if isArray d then 0 else calc q v
     | ArrayOf a \<Rightarrow> (case type_at T q of
           Some t \<Rightarrow> if isArray d then Array_calcSizeBinary (type_sizes.truncate t) (calc q) a else 0
         | None \<Rightarrow> 0)))"

fun members_calcSize :: "type_tables \<Rightarrow> nat by_type \<Rightarrow> type_ptr \<Rightarrow> UA_DataTypeMember list \<Rightarrow> uvalue member list \<Rightarrow> nat" where
  "members_calcSize T calc p (d # ds) (m # ms) = member_calcSize T calc p d m + members_calcSize T calc p ds ms"
| "members_calcSize T calc p _ _ = 0"

text \<open>One entry of the jump table.\<close>

definition calc_as :: "type_tables \<Rightarrow> nat by_type \<Rightarrow> sizer \<Rightarrow> UA_DataType \<Rightarrow> nat by_type" where
  "calc_as T calc s t p v = (case s of
     MemSizeS \<Rightarrow> memSize t
   | StringS \<Rightarrow> (case v of String_v x \<Rightarrow> String_calcSizeBinary x | _ \<Rightarrow> 0)
   | GuidS \<Rightarrow> (case v of Guid_v x \<Rightarrow> Guid_calcSizeBinary x | _ \<Rightarrow> 0)
   | NodeIdS \<Rightarrow> (case v of NodeId_v x \<Rightarrow> NodeId_calcSizeBinary x | _ \<Rightarrow> 0)
   | ExpandedNodeIdS \<Rightarrow> (case v of ExpandedNodeId_v x \<Rightarrow> ExpandedNodeId_calcSizeBinary x | _ \<Rightarrow> 0)
   | LocalizedTextS \<Rightarrow> (case v of LocalizedText_v x \<Rightarrow> LocalizedText_calcSizeBinary x | _ \<Rightarrow> 0)
   | DiagnosticInfoS \<Rightarrow> (case v of DiagnosticInfo_v x \<Rightarrow> DiagnosticInfo_calcSizeBinary x | _ \<Rightarrow> 0)
   | ExtensionObjectS \<Rightarrow> ExtensionObject_calcSizeBinary T calc v
   | VariantS \<Rightarrow> Variant_calcSizeBinary T calc v
   | DataValueS \<Rightarrow> DataValue_calcSizeBinary T calc v
   | calcSizeS \<Rightarrow> (case v of Struct_v ms \<Rightarrow> members_calcSize T calc p (members t) ms | _ \<Rightarrow> 0))"

lemma calc_cong:
  assumes "\<And>q x. x \<in> set (parts src) \<Longrightarrow> calc q x = calc' q x"
  shows "ExtensionObject_calcSizeBinary T calc src = ExtensionObject_calcSizeBinary T calc' src"
    and "Variant_calcSizeBinary T calc src = Variant_calcSizeBinary T calc' src"
  using assms by (auto simp: ExtensionObject_calcSizeBinary_def Variant_calcSizeBinary_def split: uvalue.split option.split
      intro!: arg_cong [of _ _ sum_list] dest!: in_set_takeD)

lemma Array_calcSize_cong:
  "(\<And>x. x \<in> set (arr_list a) \<Longrightarrow> f x = g x) \<Longrightarrow> Array_calcSizeBinary type f a = Array_calcSizeBinary type g a"
  by (simp add: Array_calcSizeBinary_def cong: map_cong)

lemma members_calc_cong:
  "(\<And>q m x. m \<in> set ms \<Longrightarrow> x \<in> set (member_values m) \<Longrightarrow> calc q x = calc' q x) \<Longrightarrow>
   members_calcSize T calc p ds ms = members_calcSize T calc' p ds ms"
proof (induction T calc p ds ms rule: members_calcSize.induct)
  case (1 T calc p d ds m ms)
  have "member_calcSize T calc p d m = member_calcSize T calc' p d m"
    using 1(2) [of m] by (cases m) (auto simp: member_calcSize_def intro!: Array_calcSize_cong split: option.split)
  moreover have "members_calcSize T calc p ds ms = members_calcSize T calc' p ds ms" by (rule 1(1)) (use 1(2) in auto)
  ultimately show ?case by simp
qed simp_all

lemma calc_as_cong [fundef_cong]:
  assumes "v = w" and "\<And>q x. x \<in> set (parts w) \<Longrightarrow> calc q x = calc' q x"
  shows "calc_as T calc s t p v = calc_as T calc' s t p w"
proof (cases s)
  case DataValueS
  show ?thesis
    using DataValueS assms calc_cong(2) [of "the (dv_value w)" calc calc' T]
    by (cases w) (auto simp: calc_as_def DataValue_calcSizeBinary_def split: option.split)
next
  case calcSizeS
  have "members_calcSize T calc p (members t) ms = members_calcSize T calc' p (members t) ms" if "w = Struct_v ms" for ms
    by (rule members_calc_cong) (use assms(2) that in auto)
  then show ?thesis using calcSizeS assms(1) by (cases w) (auto simp: calc_as_def)
qed (use assms calc_cong [of w calc calc' T] in \<open>simp_all add: calc_as_def\<close>)

function UA_calcSizeType :: "type_tables \<Rightarrow> nat by_type" where
  "UA_calcSizeType T p v =
     (case type_at T p of
        None \<Rightarrow> 0
      | Some t \<Rightarrow> (case load calcSizeBinaryJumpTable (index_of t) of
          None \<Rightarrow> 0
        | Some s \<Rightarrow> calc_as T (UA_calcSizeType T) s t p v))"
  by pat_completeness auto
termination by (relation "measure (\<lambda>(T, p, v). size v)") (auto intro: size_parts)

declare UA_calcSizeType.simps [simp del]

definition UA_calcSizeBinary :: "type_tables \<Rightarrow> nat by_type" where
  "UA_calcSizeBinary T p v =
     (case type_at T p of None \<Rightarrow> 0 | Some t \<Rightarrow> members_calcSize T (UA_calcSizeType T) p (members t) (members_of v))"

section \<open>Encoders\<close>

text \<open>Both constructors of \<open>Decoded_v\<close> are above \<open>UA_EXTENSIONOBJECT_ENCODED_XML\<close>. The identifier of a type is numeric here, and the
  number is replaced by the one of the binary encoding.\<close>

definition ExtensionObject_encodeBinary ::
    "type_tables \<Rightarrow> 's exchange option \<Rightarrow> 's encoding by_type \<Rightarrow> uvalue \<Rightarrow> 's encoding" where
  "ExtensionObject_encodeBinary T cb enc src st = (case src of
     Encoded_v e i body \<Rightarrow>
       do { (r1, st) \<leftarrow> NodeId_encodeBinary cb i st;
            (r2, st) \<leftarrow> Byte_encodeBinary (body_code e) st;
            (r3, st) \<leftarrow> (if e = NOBODY then Some (0, st) else ByteString_encodeBinary cb body st);
            Some (r1 OR r2 OR r3, st) }
   | Decoded_v nd (Some p) (Some v) \<Rightarrow>
       do { t \<leftarrow> type_at T p;
            if \<not> numeric_id (typeId t) then Some (UA_STATUSCODE_BADENCODINGERROR, st)
            else do {
              (r1, st) \<leftarrow> NodeId_encodeBinary cb ((typeId t)\<lparr>ident := NUMERIC (ucast (binaryEncodingId t))\<rparr>) st;
              (r2, st) \<leftarrow> Byte_encodeBinary (body_code BYTESTRING_BODY) st;
              let len = UA_calcSizeBinary T p v;
              if len > UA_INT32_MAX then Some (UA_STATUSCODE_BADENCODINGERROR, st)
              else do {
                (r3, st) \<leftarrow> Int32_encodeBinary (of_nat len) st;
                (r4, st) \<leftarrow> enc p v st;
                Some (r1 OR r2 OR r3 OR r4, st) } } }
   | Decoded_v nd ty d \<Rightarrow> Some (UA_STATUSCODE_BADENCODINGERROR, st)
   | _ \<Rightarrow> None)"

text \<open>The loop is that of \<open>Array_encodeBinaryComplex\<close>: an element that does not fit is tried again after an exchange, any other
  error ends it.\<close>

definition Variant_encodeBinaryWrapExtensionObject ::
    "type_tables \<Rightarrow> 's exchange option \<Rightarrow> 's encoding by_type \<Rightarrow> type_ptr \<Rightarrow> nat \<Rightarrow> uvalue arr \<Rightarrow> 's encoding" where
  "Variant_encodeBinaryWrapExtensionObject T cb enc p n d st =
     (if is_array n d \<and> n > UA_INT32_MAX then Some (UA_STATUSCODE_BADENCODINGERROR, st)
      else do {
        xs \<leftarrow> (if is_array n d then map_option arr_list (variant_array n d) else map_option (\<lambda>v. [v]) (variant_scalar d));
        (rv, st) \<leftarrow> (if is_array n d then Int32_encodeBinary (of_nat n) st else Some (UA_STATUSCODE_GOOD, st));
        if rv \<noteq> UA_STATUSCODE_GOOD then Some (rv, st)
        else Array_encodeBinaryComplex cb (map (\<lambda>v. ExtensionObject_encodeBinary T cb enc (Decoded_v False (Some p) (Some v))) xs) st })"

definition UA_VARIANT_ENCODINGMASKTYPE_TYPEID_MASK :: u8 where "UA_VARIANT_ENCODINGMASKTYPE_TYPEID_MASK = 0x3F"
definition UA_VARIANT_ENCODINGMASKTYPE_DIMENSIONS :: u8 where "UA_VARIANT_ENCODINGMASKTYPE_DIMENSIONS = 0x40"
definition UA_VARIANT_ENCODINGMASKTYPE_ARRAY :: u8 where "UA_VARIANT_ENCODINGMASKTYPE_ARRAY = 0x80"

definition variant_mask :: "UA_DataType \<Rightarrow> nat \<Rightarrow> 'a arr \<Rightarrow> u32 arr \<Rightarrow> u8" where
  "variant_mask t n d dims =
     (let encoding = UA_VARIANT_ENCODINGMASKTYPE_TYPEID_MASK AND of_nat ((if builtin t then typeIndex t else UA_TYPES_EXTENSIONOBJECT) + 1)
      in if is_array n d
         then let encoding = encoding OR UA_VARIANT_ENCODINGMASKTYPE_ARRAY
              in if length (arr_list dims) > 0 then encoding OR UA_VARIANT_ENCODINGMASKTYPE_DIMENSIONS else encoding
         else encoding)"

definition Variant_encodeBinary :: "type_tables \<Rightarrow> 's exchange option \<Rightarrow> 's encoding by_type \<Rightarrow> uvalue \<Rightarrow> 's encoding" where
  "Variant_encodeBinary T cb enc src st = (case src of
     Variant_v None n d dims \<Rightarrow> Byte_encodeBinary 0 st
   | Variant_v (Some p) n d dims \<Rightarrow>
       do { t \<leftarrow> type_at T p;
            (r1, st) \<leftarrow> Byte_encodeBinary (variant_mask t n d dims) st;
            (r2, st) \<leftarrow> (if \<not> builtin t then Variant_encodeBinaryWrapExtensionObject T cb enc p n d st
               else if \<not> is_array n d then do { v \<leftarrow> variant_scalar d; enc p v st }
               else do { a \<leftarrow> variant_array n d; Array_encodeBinary cb (type_sizes.truncate t) memory_of (enc p) a st });
            (r3, st) \<leftarrow> (if is_array n d \<and> length (arr_list dims) > 0
               then do { t32 \<leftarrow> type_at T (Standard, UA_TYPES_INT32);
                         Array_encodeBinary cb (type_sizes.truncate t32) (le_bytes 4) Int32_encodeBinary dims st }
               else Some (0, st));
            Some (r1 OR r2 OR r3, st) }
   | _ \<Rightarrow> None)"

definition DataValue_mask :: "uvalue option \<Rightarrow> UA_StatusCode option \<Rightarrow> 64 word option \<Rightarrow> 64 word option \<Rightarrow> u16 option \<Rightarrow> u16 option \<Rightarrow> u8" where
  "DataValue_mask val st sts vts sps vps = flag 0 val OR flag 1 st OR flag 2 sts OR flag 3 vts OR flag 4 sps OR flag 5 vps"

definition DataValue_encodeBinary :: "type_tables \<Rightarrow> 's exchange option \<Rightarrow> 's encoding by_type \<Rightarrow> uvalue \<Rightarrow> 's encoding" where
  "DataValue_encodeBinary T cb enc src st = (case src of
     DataValue_v val status sts vts sps vps \<Rightarrow>
       do { (r0, st) \<leftarrow> Byte_encodeBinary (DataValue_mask val status sts vts sps vps) st;
            (r1, st) \<leftarrow> encode_option (Variant_encodeBinary T cb enc) val st;
            (r2, st) \<leftarrow> encode_option StatusCode_encodeBinary status st;
            (r3, st) \<leftarrow> encode_option DateTime_encodeBinary sts st;
            (r4, st) \<leftarrow> encode_option UInt16_encodeBinary sps st;
            (r5, st) \<leftarrow> encode_option DateTime_encodeBinary vts st;
            (r6, st) \<leftarrow> encode_option UInt16_encodeBinary vps st;
            Some (r0 OR r1 OR r2 OR r3 OR r4 OR r5 OR r6, st) }
   | _ \<Rightarrow> None)"

text \<open>A member that is no array is tried again after an exchange, like an element of an array; an array is not.\<close>

definition member_encodeBinary :: "type_tables \<Rightarrow> 's exchange option \<Rightarrow> 's encoding by_type \<Rightarrow> type_ptr \<Rightarrow> UA_DataTypeMember \<Rightarrow>
    uvalue member \<Rightarrow> 's encoding" where
  "member_encodeBinary T cb enc p d m st =
     do { q \<leftarrow> member_type T p d;
          t \<leftarrow> type_at T q;
          (case m of
             Single v \<Rightarrow> if isArray d then None else encode_element cb (enc q v) st
           | ArrayOf a \<Rightarrow> if isArray d then Array_encodeBinary cb (type_sizes.truncate t) memory_of (enc q) a st else None) }"

fun members_encodeBinary :: "type_tables \<Rightarrow> 's exchange option \<Rightarrow> 's encoding by_type \<Rightarrow> type_ptr \<Rightarrow> UA_DataTypeMember list \<Rightarrow>
    uvalue member list \<Rightarrow> 's encoding" where
  "members_encodeBinary T cb enc p [] [] st = Some (UA_STATUSCODE_GOOD, st)"
| "members_encodeBinary T cb enc p (d # ds) (m # ms) st =
     do { (rv, st) \<leftarrow> member_encodeBinary T cb enc p d m st;
          if rv \<noteq> UA_STATUSCODE_GOOD then Some (rv, st) else members_encodeBinary T cb enc p ds ms st }"
| "members_encodeBinary T cb enc p _ _ st = None"

text \<open>One entry of the jump table.\<close>

definition encode_as :: "type_tables \<Rightarrow> 's exchange option \<Rightarrow> 's encoding by_type \<Rightarrow> codec \<Rightarrow> UA_DataType \<Rightarrow> 's encoding by_type" where
  "encode_as T cb enc c t p v st = (case c of
     BooleanC \<Rightarrow> (case v of Bool_v x \<Rightarrow> Boolean_encodeBinary x st | _ \<Rightarrow> None)
   | ByteC \<Rightarrow> (case v of Byte_v x \<Rightarrow> Byte_encodeBinary x st | _ \<Rightarrow> None)
   | UInt16C \<Rightarrow> (case v of UInt16_v x \<Rightarrow> UInt16_encodeBinary x st | _ \<Rightarrow> None)
   | UInt32C \<Rightarrow> (case v of UInt32_v x \<Rightarrow> UInt32_encodeBinary x st | _ \<Rightarrow> None)
   | UInt64C \<Rightarrow> (case v of UInt64_v x \<Rightarrow> UInt64_encodeBinary x st | _ \<Rightarrow> None)
   | StringC \<Rightarrow> (case v of String_v x \<Rightarrow> String_encodeBinary cb x st | _ \<Rightarrow> None)
   | GuidC \<Rightarrow> (case v of Guid_v x \<Rightarrow> Guid_encodeBinary x st | _ \<Rightarrow> None)
   | NodeIdC \<Rightarrow> (case v of NodeId_v x \<Rightarrow> NodeId_encodeBinary cb x st | _ \<Rightarrow> None)
   | ExpandedNodeIdC \<Rightarrow> (case v of ExpandedNodeId_v x \<Rightarrow> ExpandedNodeId_encodeBinary cb x st | _ \<Rightarrow> None)
   | LocalizedTextC \<Rightarrow> (case v of LocalizedText_v x \<Rightarrow> LocalizedText_encodeBinary cb x st | _ \<Rightarrow> None)
   | DiagnosticInfoC \<Rightarrow> (case v of DiagnosticInfo_v x \<Rightarrow> DiagnosticInfo_encodeBinary cb x st | _ \<Rightarrow> None)
   | ExtensionObjectC \<Rightarrow> ExtensionObject_encodeBinary T cb enc v st
   | VariantC \<Rightarrow> Variant_encodeBinary T cb enc v st
   | DataValueC \<Rightarrow> DataValue_encodeBinary T cb enc v st
   | InternalC \<Rightarrow> (case v of Struct_v ms \<Rightarrow> members_encodeBinary T cb enc p (members t) ms st | _ \<Rightarrow> None))"

lemma Array_encode_cong:
  "(\<And>x. x \<in> set (arr_list a) \<Longrightarrow> e x = e' x) \<Longrightarrow> Array_encodeBinary cb type to_bytes e a st = Array_encodeBinary cb type to_bytes e' a st"
  by (simp add: Array_encodeBinary_def cong: map_cong if_cong)

lemma variant_parts:
  "variant_array n d = Some a \<Longrightarrow> x \<in> set (arr_list a) \<Longrightarrow> x \<in> set (arr_list d)"
  "variant_scalar d = Some x \<Longrightarrow> x \<in> set (arr_list d)"
  by (auto simp: variant_array_def variant_scalar_def split: arr.splits if_splits list.splits dest: in_set_takeD)

lemma extension_encode_cong:
  assumes "\<And>q x. x \<in> set (parts src) \<Longrightarrow> enc q x = enc' q x"
  shows "ExtensionObject_encodeBinary T cb enc src st = ExtensionObject_encodeBinary T cb enc' src st"
  using assms unfolding ExtensionObject_encodeBinary_def by (cases src) (auto split: option.split cong: if_cong)

lemma wrap_encode_cong:
  assumes "\<And>q x. x \<in> set (arr_list d) \<Longrightarrow> enc q x = enc' q x"
  shows "Variant_encodeBinaryWrapExtensionObject T cb enc p n d st = Variant_encodeBinaryWrapExtensionObject T cb enc' p n d st"
proof -
  let ?F = "\<lambda>v. ExtensionObject_encodeBinary T cb enc (Decoded_v False (Some p) (Some v))"
  let ?F' = "\<lambda>v. ExtensionObject_encodeBinary T cb enc' (Decoded_v False (Some p) (Some v))"
  have F: "?F x = ?F' x" if "x \<in> set (arr_list d)" for x by (rule ext, rule extension_encode_cong) (use assms that in simp)
  have complex: "Array_encodeBinaryComplex cb (map ?F xs) s1 = Array_encodeBinaryComplex cb (map ?F' xs) s1" if "set xs \<subseteq> set (arr_list d)" for xs s1
    using F that by (metis (no_types, lifting) map_cong subsetD)
  have "set xs \<subseteq> set (arr_list d)"
    if "(if is_array n d then map_option arr_list (variant_array n d) else map_option (\<lambda>v. [v]) (variant_scalar d)) = Some xs" for xs
    using that by (auto split: if_splits dest: variant_parts)
  note complex [OF this]
  then show ?thesis
    unfolding Variant_encodeBinaryWrapExtensionObject_def by (intro if_cong refl Option.bind_cong) (auto split: prod.split intro!: Option.bind_cong)
qed

lemma variant_encode_cong:
  assumes "\<And>q x. x \<in> set (parts src) \<Longrightarrow> enc q x = enc' q x"
  shows "Variant_encodeBinary T cb enc src st = Variant_encodeBinary T cb enc' src st"
proof (cases src)
  case (Variant_v ty n d dims)
  then have eq: "enc q x = enc' q x" if "x \<in> set (arr_list d)" for q x using assms that by simp
  have "variant_scalar d \<bind> (\<lambda>v. enc p v st) = variant_scalar d \<bind> (\<lambda>v. enc' p v st)" for p st
    by (rule Option.bind_cong) (simp_all add: eq variant_parts(2) del: split_paired_All)
  moreover have "variant_array n d \<bind> (\<lambda>a. Array_encodeBinary cb t memory_of (enc p) a st) =
      variant_array n d \<bind> (\<lambda>a. Array_encodeBinary cb t memory_of (enc' p) a st)" for t p st
    by (auto intro!: Option.bind_cong Array_encode_cong eq dest: variant_parts)
  moreover have "Variant_encodeBinaryWrapExtensionObject T cb enc p n d st = Variant_encodeBinaryWrapExtensionObject T cb enc' p n d st" for p st
    by (rule wrap_encode_cong) (rule eq)
  ultimately show ?thesis unfolding Variant_encodeBinary_def Variant_v by (cases ty) (simp_all only: uvalue.case option.case)
qed (simp_all add: Variant_encodeBinary_def)

lemma members_encode_cong:
  "(\<And>q m x. m \<in> set ms \<Longrightarrow> x \<in> set (member_values m) \<Longrightarrow> enc q x = enc' q x) \<Longrightarrow>
   members_encodeBinary T cb enc p ds ms st = members_encodeBinary T cb enc' p ds ms st"
proof (induction T cb enc p ds ms st rule: members_encodeBinary.induct)
  case (2 T cb enc p d ds m ms st)
  have "member_encodeBinary T cb enc p d m st = member_encodeBinary T cb enc' p d m st"
    using 2(2) [of m] by (cases m) (auto simp: member_encodeBinary_def intro!: Option.bind_cong Array_encode_cong)
  moreover have "members_encodeBinary T cb enc p ds ms s1 = members_encodeBinary T cb enc' p ds ms s1" 
    if "member_encodeBinary T cb enc p d m st = Some (UA_STATUSCODE_GOOD, s1)" for s1
    by (rule 2(1) [OF that refl]) (use 2(2) in auto)
  ultimately show ?case by (auto intro!: Option.bind_cong)
qed simp_all

lemma encode_as_cong [fundef_cong]:
  assumes "v = w" and "st = st'" and "\<And>q x. x \<in> set (parts w) \<Longrightarrow> enc q x = enc' q x"
  shows "encode_as T cb enc c t p v st = encode_as T cb enc' c t p w st'"
proof (cases c)
  case DataValueC
  show ?thesis
  proof (cases w)
    case (DataValue_v val s sts vts sps vps)
    have "encode_option (Variant_encodeBinary T cb enc) val s1 = encode_option (Variant_encodeBinary T cb enc') val s1" for s1
      by (rule encode_option_cong) (use assms(3) DataValue_v in \<open>auto intro!: variant_encode_cong\<close>)
    then show ?thesis using assms(1,2) DataValueC DataValue_v by (simp add: encode_as_def DataValue_encodeBinary_def)
  qed (use DataValueC assms in \<open>simp_all add: encode_as_def DataValue_encodeBinary_def\<close>)
next
  case InternalC
  have "members_encodeBinary T cb enc p (members t) ms st = members_encodeBinary T cb enc' p (members t) ms st" if "w = Struct_v ms" for ms
    by (rule members_encode_cong) (use assms(3) that in auto)
  then show ?thesis using InternalC assms(1,2) by (cases w) (auto simp: encode_as_def)
qed (use assms extension_encode_cong [of w enc enc' T cb] variant_encode_cong [of w enc enc' T cb] in \<open>simp_all add: encode_as_def\<close>)

function UA_encodeType :: "type_tables \<Rightarrow> 's exchange option \<Rightarrow> 's encoding by_type" where
  "UA_encodeType T cb p v = (\<lambda>st.
     (case type_at T p of
        None \<Rightarrow> None
      | Some t \<Rightarrow> (case load encodeBinaryJumpTable (index_of t) of
          None \<Rightarrow> None
        | Some c \<Rightarrow> encode_as T cb (UA_encodeType T cb) c t p v st)))"
  by pat_completeness auto
termination by (relation "measure (\<lambda>(T, cb, p, v). size v)") (auto intro: size_parts)

declare UA_encodeType.simps [simp del]

definition UA_encodeBinaryInternal :: "type_tables \<Rightarrow> 's exchange option \<Rightarrow> 's encoding by_type" where
  "UA_encodeBinaryInternal T cb p v st =
     do { t \<leftarrow> type_at T p; members_encodeBinary T cb (UA_encodeType T cb) p (members t) (members_of v) st }"

text \<open>The buffer \<open>buf\<close> at the address \<open>base\<close>; the result is the status, the offset and the buffer that is in its place.\<close>

definition UA_encodeBinary ::
    "type_tables \<Rightarrow> 's exchange option \<Rightarrow> type_ptr \<Rightarrow> uvalue \<Rightarrow> 's \<Rightarrow> nat \<Rightarrow> bytes \<Rightarrow> nat \<Rightarrow> (UA_StatusCode \<times> nat \<times> 's encoder) option" where
  "UA_encodeBinary T cb p v w base buf offset =
     do { (rv, st) \<leftarrow> UA_encodeBinaryInternal T cb p v \<lparr>ebuf = buf, ebase = base, pbase = base, epos = offset, world = w\<rparr>;
          if pbase st = ebase st then Some (rv, epos st, st) else None }"

end
