(* ===== verification/UADecode.thy ===== *)
theory UADecode
  imports UAEncode
begin

text \<open>
  Decoders of extension objects, variants, data values and structures (\<open>ua_types_encoding_binary.c\<close>). \<open>dec\<close> stands for the
  calls through the jump table: a function of a type and the input, for memory of zeroes. The value of a failed decoder is
  what it has left in that memory.
\<close>

section \<open>Extension objects\<close>

type_synonym decoding_of = "decoder \<Rightarrow> (UA_StatusCode \<times> uvalue \<times> decoder) option"

text \<open>The first entry of a table with the number and the index of the namespace.\<close>

definition findDataTypeByBinary :: "type_tables \<Rightarrow> node_id \<Rightarrow> type_ptr option" where
  "findDataTypeByBinary T i = (case ident i of
     NUMERIC n \<Rightarrow>
       (let which = (if namespaceIndex i \<noteq> 0 then Custom else Standard);
            types = table T which
        in map_option (\<lambda>k. (which, k))
             (find (\<lambda>k. ucast (binaryEncodingId (types ! k)) = n \<and> namespaceIndex (typeId (types ! k)) = namespaceIndex i) [0..<length types]))
   | _ \<Rightarrow> None)"

definition zero_nodeid :: node_id where "zero_nodeid = \<lparr>namespaceIndex = 0, ident = NUMERIC 0\<rparr>"
definition zero_extension :: uvalue where "zero_extension = Encoded_v NOBODY zero_nodeid NullArray"
definition zero_variant :: uvalue where "zero_variant = Variant_v None 0 NullArray NullArray"

definition ExtensionObject_decodeBinaryContent ::
    "type_tables \<Rightarrow> (nat \<Rightarrow> bool) \<Rightarrow> (type_ptr \<Rightarrow> decoding_of) \<Rightarrow> node_id \<Rightarrow> decoding_of" where
  "ExtensionObject_decodeBinaryContent T calloc dec i st = (case findDataTypeByBinary T i of
     None \<Rightarrow>
       do { (rv, body, st) \<leftarrow> ByteString_decodeBinary calloc NullArray st; Some (rv, Encoded_v BYTESTRING_BODY i body, st) }
   | Some p \<Rightarrow>
       do { t \<leftarrow> type_at T p;
            if \<not> calloc (memSize t) then Some (UA_STATUSCODE_BADOUTOFMEMORY, zero_extension, st)
            else do { (rv, v, st) \<leftarrow> dec p (st\<lparr>dpos := dpos st + 4\<rparr>); Some (rv, Decoded_v False (Some p) (Some v), st) } })"

definition ExtensionObject_decodeBinary ::
    "type_tables \<Rightarrow> (nat \<Rightarrow> bool) \<Rightarrow> (type_ptr \<Rightarrow> decoding_of) \<Rightarrow> decoding_of" where
  "ExtensionObject_decodeBinary T calloc dec st =
     do { (r1, i, st) \<leftarrow> NodeId_decodeBinary calloc zero_nodeid st;
          (r2, encoding, st) \<leftarrow> Byte_decodeBinary 0 st;
          let rv = (if numeric_id i then r1 OR r2 else UA_STATUSCODE_BADDECODINGERROR);
          if rv \<noteq> UA_STATUSCODE_GOOD then Some (rv, zero_extension, st)
          else if encoding = body_code BYTESTRING_BODY then ExtensionObject_decodeBinaryContent T calloc dec i st
          else if encoding = body_code NOBODY then Some (UA_STATUSCODE_GOOD, Encoded_v NOBODY i NullArray, st)
          else if encoding = body_code XML_BODY
          then do { (rv, body, st) \<leftarrow> ByteString_decodeBinary calloc NullArray st; Some (rv, Encoded_v XML_BODY i body, st) }
          else Some (UA_STATUSCODE_BADDECODINGERROR, zero_extension, st) }"

section \<open>Variants\<close>

text \<open>The length and the pointer that an array leaves in a variant.\<close>

definition array_variant :: "type_ptr \<Rightarrow> uvalue arr \<Rightarrow> u32 arr \<Rightarrow> uvalue" where
  "array_variant p a dims = Variant_v (Some p) (length (arr_list a)) a dims"

definition Variant_decodeBinaryUnwrapExtensionObject ::
    "type_tables \<Rightarrow> (nat \<Rightarrow> bool) \<Rightarrow> (type_ptr \<Rightarrow> decoding_of) \<Rightarrow> decoding_of" where
  "Variant_decodeBinaryUnwrapExtensionObject T calloc dec st0 =
     do { let extension = (Standard, UA_TYPES_EXTENSIONOBJECT);
          (rv, i, st) \<leftarrow> NodeId_decodeBinary calloc zero_nodeid st0;
          if rv \<noteq> UA_STATUSCODE_GOOD then Some (rv, Variant_v (Some extension) 0 NullArray NullArray, st)
          else do {
            (rv, encoding, st) \<leftarrow> Byte_decodeBinary 0 st;
            if rv \<noteq> UA_STATUSCODE_GOOD then Some (rv, Variant_v (Some extension) 0 NullArray NullArray, st)
            else do {
              let found = (if encoding = body_code BYTESTRING_BODY then findDataTypeByBinary T i else None);
              let (p, st) = (case found of Some p \<Rightarrow> (p, st\<lparr>dpos := dpos st + 4\<rparr>) | None \<Rightarrow> (extension, st\<lparr>dpos := dpos st0\<rparr>));
              t \<leftarrow> type_at T p;
              if \<not> calloc (memSize t) then Some (UA_STATUSCODE_BADOUTOFMEMORY, Variant_v (Some p) 0 NullArray NullArray, st)
              else do {
                (rv, v, st) \<leftarrow> dec p st;
                Some (rv, Variant_v (Some p) 0 (if rv \<noteq> UA_STATUSCODE_GOOD then NullArray else Elements [v]) NullArray, st) } } } }"

definition Variant_decodeBinary ::
    "type_tables \<Rightarrow> (nat \<Rightarrow> bool) \<Rightarrow> (type_ptr \<Rightarrow> decoding_of) \<Rightarrow> decoding_of" where
  "Variant_decodeBinary T calloc dec st =
     do { (rv, encodingByte, st) \<leftarrow> Byte_decodeBinary 0 st;
          if rv \<noteq> UA_STATUSCODE_GOOD then Some (rv, zero_variant, st)
          else if encodingByte = 0 then Some (UA_STATUSCODE_GOOD, zero_variant, st)
          else do {
            let k = unat (encodingByte AND UA_VARIANT_ENCODINGMASKTYPE_TYPEID_MASK);
            if k = 0 \<or> k - 1 > UA_TYPES_DIAGNOSTICINFO then Some (UA_STATUSCODE_BADDECODINGERROR, zero_variant, st)
            else do {
              let p = (Standard, k - 1);
              t \<leftarrow> type_at T p;
              if encodingByte AND UA_VARIANT_ENCODINGMASKTYPE_ARRAY > 0
              then do {
                (r1, a, st) \<leftarrow> Array_decodeBinary calloc (type_sizes.truncate t) (value_at (nesting T) T p) (dec p) NullArray st;
                if encodingByte AND UA_VARIANT_ENCODINGMASKTYPE_DIMENSIONS > 0
                then do {
                  t32 \<leftarrow> type_at T (Standard, UA_TYPES_INT32);
                  (r2, dims, st) \<leftarrow> Array_decodeBinary calloc (type_sizes.truncate t32) le_word (Int32_decodeBinary 0) NullArray st;
                  Some (r1 OR r2, array_variant p a dims, st) }
                else Some (r1, array_variant p a NullArray, st) }
              else if k - 1 \<noteq> UA_TYPES_EXTENSIONOBJECT
              then (if \<not> calloc (memSize t) then Some (UA_STATUSCODE_BADOUTOFMEMORY, Variant_v (Some p) 0 NullArray NullArray, st)
                    else do { (rv, v, st) \<leftarrow> dec p st; Some (rv, Variant_v (Some p) 0 (Elements [v]) NullArray, st) })
              else Variant_decodeBinaryUnwrapExtensionObject T calloc dec st } } }"

section \<open>Data values and structures\<close>

definition MAX_PICO_SECONDS :: u16 where "MAX_PICO_SECONDS = 9999"

definition decode_picoseconds :: "u16 decoding" where
  "decode_picoseconds dst st =
     do { (r, x, st) \<leftarrow> UInt16_decodeBinary dst st; Some (r, if x > MAX_PICO_SECONDS then MAX_PICO_SECONDS else x, st) }"

definition DataValue_decodeBinary ::
    "type_tables \<Rightarrow> (nat \<Rightarrow> bool) \<Rightarrow> (type_ptr \<Rightarrow> decoding_of) \<Rightarrow> decoding_of" where
  "DataValue_decodeBinary T calloc dec st =
     do { (r0, encodingMask, st) \<leftarrow> Byte_decodeBinary 0 st;
          if r0 \<noteq> UA_STATUSCODE_GOOD then Some (r0, DataValue_v None None None None None None, st)
          else do {
            (r1, val, st) \<leftarrow> decode_option (Variant_decodeBinary T calloc dec) (encodingMask AND 0x01 \<noteq> 0) st;
            (r2, status, st) \<leftarrow> decode_option (StatusCode_decodeBinary 0) (encodingMask AND 0x02 \<noteq> 0) st;
            (r3, sts, st) \<leftarrow> decode_option (DateTime_decodeBinary 0) (encodingMask AND 0x04 \<noteq> 0) st;
            (r4, sps, st) \<leftarrow> decode_option (decode_picoseconds 0) (encodingMask AND 0x10 \<noteq> 0) st;
            (r5, vts, st) \<leftarrow> decode_option (DateTime_decodeBinary 0) (encodingMask AND 0x08 \<noteq> 0) st;
            (r6, vps, st) \<leftarrow> decode_option (decode_picoseconds 0) (encodingMask AND 0x20 \<noteq> 0) st;
            Some (r0 OR r1 OR r2 OR r3 OR r4 OR r5 OR r6, DataValue_v val status sts vts sps vps, st) } }"

definition member_decodeBinary ::
    "type_tables \<Rightarrow> (nat \<Rightarrow> bool) \<Rightarrow> (type_ptr \<Rightarrow> decoding_of) \<Rightarrow> type_ptr \<Rightarrow> UA_DataTypeMember \<Rightarrow> decoder \<Rightarrow>
      (UA_StatusCode \<times> uvalue member \<times> decoder) option" where
  "member_decodeBinary T calloc dec p d st =
     do { q \<leftarrow> member_type T p d;
          t \<leftarrow> type_at T q;
          if isArray d
          then do { (r, a, st) \<leftarrow> Array_decodeBinary calloc (type_sizes.truncate t) (value_at (nesting T) T q) (dec q) NullArray st;
                    Some (r, ArrayOf a, st) }
          else do { (r, v, st) \<leftarrow> dec q st; Some (r, Single v, st) } }"

text \<open>The loop goes on after an error.\<close>

fun members_decodeBinary ::
    "type_tables \<Rightarrow> (nat \<Rightarrow> bool) \<Rightarrow> (type_ptr \<Rightarrow> decoding_of) \<Rightarrow> type_ptr \<Rightarrow> UA_DataTypeMember list \<Rightarrow> decoder \<Rightarrow>
      (UA_StatusCode \<times> uvalue member list \<times> decoder) option" where
  "members_decodeBinary T calloc dec p [] st = Some (UA_STATUSCODE_GOOD, [], st)"
| "members_decodeBinary T calloc dec p (d # ds) st =
     do { (r1, m, st) \<leftarrow> member_decodeBinary T calloc dec p d st;
          (r2, ms, st) \<leftarrow> members_decodeBinary T calloc dec p ds st;
          Some (r1 OR r2, m # ms, st) }"

definition decoded_as :: "('a \<Rightarrow> uvalue) \<Rightarrow> (UA_StatusCode \<times> 'a \<times> decoder) option \<Rightarrow> (UA_StatusCode \<times> uvalue \<times> decoder) option" where
  "decoded_as f r = map_option (\<lambda>(rv, x, st). (rv, f x, st)) r"

definition zero_expandednodeid :: UA_ExpandedNodeId where
  "zero_expandednodeid = \<lparr>xnodeId = zero_nodeid, namespaceUri = NullArray, serverIndex = 0\<rparr>"

text \<open>One entry of the jump table, for a type \<open>t\<close> at \<open>p\<close>.\<close>

definition decode_as :: "nat \<Rightarrow> type_tables \<Rightarrow> (nat \<Rightarrow> bool) \<Rightarrow> (type_ptr \<Rightarrow> decoding_of) \<Rightarrow> codec \<Rightarrow> UA_DataType \<Rightarrow> type_ptr \<Rightarrow> decoding_of" where
  "decode_as depth T calloc dec c t p st = (case c of
     BooleanC \<Rightarrow> decoded_as Bool_v (Boolean_decodeBinary False st)
   | ByteC \<Rightarrow> decoded_as Byte_v (Byte_decodeBinary 0 st)
   | UInt16C \<Rightarrow> decoded_as UInt16_v (UInt16_decodeBinary 0 st)
   | UInt32C \<Rightarrow> decoded_as UInt32_v (UInt32_decodeBinary 0 st)
   | UInt64C \<Rightarrow> decoded_as UInt64_v (UInt64_decodeBinary 0 st)
   | StringC \<Rightarrow> decoded_as String_v (String_decodeBinary calloc NullArray st)
   | GuidC \<Rightarrow> decoded_as Guid_v (Guid_decodeBinary guid_zero st)
   | NodeIdC \<Rightarrow> decoded_as NodeId_v (NodeId_decodeBinary calloc zero_nodeid st)
   | ExpandedNodeIdC \<Rightarrow> decoded_as ExpandedNodeId_v (ExpandedNodeId_decodeBinary calloc zero_expandednodeid st)
   | LocalizedTextC \<Rightarrow> decoded_as LocalizedText_v (LocalizedText_decodeBinary calloc \<lparr>lt_locale = NullArray, lt_text = NullArray\<rparr> st)
   | DiagnosticInfoC \<Rightarrow> decoded_as DiagnosticInfo_v (DiagnosticInfo_decodeBinary (memSize t) calloc depth st)
   | ExtensionObjectC \<Rightarrow> ExtensionObject_decodeBinary T calloc dec st
   | VariantC \<Rightarrow> Variant_decodeBinary T calloc dec st
   | DataValueC \<Rightarrow> DataValue_decodeBinary T calloc dec st
   | InternalC \<Rightarrow> decoded_as Struct_v (members_decodeBinary T calloc dec p (members t) st))"

text \<open>\<open>depth\<close> bounds the nesting of calls; the C functions nest as deep as the message says.\<close>

primrec UA_decodeType :: "nat \<Rightarrow> type_tables \<Rightarrow> (nat \<Rightarrow> bool) \<Rightarrow> type_ptr \<Rightarrow> decoding_of" where
  "UA_decodeType 0 T calloc p st = None"
| "UA_decodeType (Suc depth) T calloc p st =
     do { t \<leftarrow> type_at T p;
          c \<leftarrow> load decodeBinaryJumpTable (index_of t);
          decode_as (Suc depth) T calloc (UA_decodeType depth T calloc) c t p st }"

text \<open>The memory of a builtin type is that of its only member, a string is an array of bytes.\<close>

fun of_members :: "bool \<Rightarrow> uvalue member list \<Rightarrow> uvalue" where
  "of_members True [Single v] = v"
| "of_members True [ArrayOf a] = String_v (map_arr (\<lambda>v. case v of Byte_v b \<Rightarrow> b | _ \<Rightarrow> 0) a)"
| "of_members b ms = Struct_v ms"

definition UA_decodeBinaryInternal :: "nat \<Rightarrow> type_tables \<Rightarrow> (nat \<Rightarrow> bool) \<Rightarrow> type_ptr \<Rightarrow> decoding_of" where
  "UA_decodeBinaryInternal depth T calloc p st =
     do { t \<leftarrow> type_at T p;
          decoded_as (of_members (builtin t)) (members_decodeBinary T calloc (UA_decodeType depth T calloc) p (members t) st) }"

text \<open>The status, the new offset and the value, unless it has been deleted again.\<close>

definition UA_decodeBinary ::
    "nat \<Rightarrow> type_tables \<Rightarrow> (nat \<Rightarrow> bool) \<Rightarrow> bytes \<Rightarrow> nat \<Rightarrow> type_ptr \<Rightarrow> (UA_StatusCode \<times> nat \<times> uvalue option) option" where
  "UA_decodeBinary depth T calloc src offset p =
     do { (rv, v, st) \<leftarrow> UA_decodeBinaryInternal depth T calloc p \<lparr>dbuf = src, dpos = offset\<rparr>;
          Some (if rv = UA_STATUSCODE_GOOD then (rv, dpos st, Some v) else (rv, offset, None)) }"

end
