(* ===== verification/UATyped.thy ===== *)
theory UATyped
  imports UADecode UABuiltin
begin

text \<open>
  What the typed encoders write: the bytes of a value, the values that can be encoded at a type, and the value that
  comes back from the bytes.
\<close>

section \<open>The bytes of a value\<close>

definition codec_at :: "type_tables \<Rightarrow> type_ptr \<Rightarrow> codec option" where
  "codec_at T p = do { t \<leftarrow> type_at T p; load encodeBinaryJumpTable (index_of t) }"

definition binary_id :: "UA_DataType \<Rightarrow> node_id" where
  "binary_id t = (typeId t)\<lparr>ident := NUMERIC (ucast (binaryEncodingId t))\<rparr>"

text \<open>A value of the type at \<open>p\<close> inside an extension object: \<open>bs\<close> are its own bytes.\<close>

definition bin_wrapped :: "type_tables \<Rightarrow> type_ptr \<Rightarrow> uvalue \<Rightarrow> bytes \<Rightarrow> bytes" where
  "bin_wrapped T p v bs = (case type_at T p of
     None \<Rightarrow> []
   | Some t \<Rightarrow> bin_nodeid (binary_id t) @ 1 # le_bytes 4 (of_nat (UA_calcSizeBinary T p v) :: u32) @ bs)"

definition bin_dims :: "nat \<Rightarrow> 'a arr \<Rightarrow> u32 arr \<Rightarrow> bytes" where
  "bin_dims n d dims = (if is_array n d \<and> length (arr_list dims) > 0 then bin_array (le_bytes 4) dims else [])"

definition bin_option :: "('a \<Rightarrow> bytes) \<Rightarrow> 'a option \<Rightarrow> bytes" where
  "bin_option f x = (case x of None \<Rightarrow> [] | Some v \<Rightarrow> f v)"

lemma bin_array_cong [fundef_cong]:
  "a = b \<Longrightarrow> (\<And>x. x \<in> set (arr_list b) \<Longrightarrow> f x = g x) \<Longrightarrow> bin_array f a = bin_array g b"
  by (simp add: bin_array_def cong: map_cong)

lemma bin_option_cong [fundef_cong]: "x = y \<Longrightarrow> (\<And>v. y = Some v \<Longrightarrow> f v = g v) \<Longrightarrow> bin_option f x = bin_option g y"
  by (auto simp: bin_option_def split: option.split)

definition bin_member :: "('v \<Rightarrow> bytes) \<Rightarrow> 'v member \<Rightarrow> bytes" where
  "bin_member f m = (case m of Single v \<Rightarrow> f v | ArrayOf a \<Rightarrow> bin_array f a)"

lemma bin_member_cong [fundef_cong]:
  "m = m' \<Longrightarrow> (\<And>x. x \<in> set (member_values m') \<Longrightarrow> f x = g x) \<Longrightarrow> bin_member f m = bin_member g m'"
  by (auto simp: bin_member_def split: member.split intro: bin_array_cong)

lemma size_var_data [termination_simp]: "x \<in> set (arr_list d) \<Longrightarrow> size x < Suc (size_arr size d)"
  using size_arr_le [of x d size] by simp

fun bin_value :: "type_tables \<Rightarrow> uvalue \<Rightarrow> bytes" where
  "bin_value T (Bool_v b) = bin_bool b"
| "bin_value T (Byte_v b) = [b]"
| "bin_value T (UInt16_v h) = le_bytes 2 h"
| "bin_value T (UInt32_v w) = le_bytes 4 w"
| "bin_value T (UInt64_v l) = le_bytes 8 l"
| "bin_value T (String_v s) = bin_string s"
| "bin_value T (Guid_v g) = guid_bytes g"
| "bin_value T (NodeId_v i) = bin_nodeid i"
| "bin_value T (ExpandedNodeId_v x) = bin_expanded x"
| "bin_value T (LocalizedText_v x) = bin_text x"
| "bin_value T (DiagnosticInfo_v x) = bin_diagnostic x"
| "bin_value T (Encoded_v e i body) = bin_nodeid i @ body_code e # (if e = NOBODY then [] else bin_string body)"
| "bin_value T (Decoded_v nd (Some p) (Some v)) = bin_wrapped T p v (bin_value T v)"
| "bin_value T (Decoded_v nd ty d) = []"
| "bin_value T (Variant_v None n d dims) = [0]"
| "bin_value T (Variant_v (Some p) n d dims) = (case type_at T p of
     None \<Rightarrow> []
   | Some t \<Rightarrow> variant_mask t n d dims #
       (if \<not> builtin t
        then (if is_array n d then le_bytes 4 (of_nat n :: u32) else []) @ concat (map (\<lambda>v. bin_wrapped T p v (bin_value T v)) (arr_list d))
        else if \<not> is_array n d then concat (map (bin_value T) (arr_list d)) else bin_array (bin_value T) d) @ bin_dims n d dims)"
| "bin_value T (DataValue_v val st sts vts sps vps) =
     DataValue_mask val st sts vts sps vps # bin_option (bin_value T) val @ bin_option (le_bytes 4) st @ bin_option (le_bytes 8) sts
       @ bin_option (le_bytes 2) sps @ bin_option (le_bytes 8) vts @ bin_option (le_bytes 2) vps"
| "bin_value T (Struct_v ms) = concat (map (bin_member (bin_value T)) ms)"

section \<open>What can be encoded\<close>

text \<open>The memory of a value of an overlayable type is its bytes, and as many as the type says.\<close>

definition member_size :: "type_tables \<Rightarrow> type_ptr \<Rightarrow> UA_DataTypeMember \<Rightarrow> nat" where
  "member_size T p d = (case do { q \<leftarrow> member_type T p d; t \<leftarrow> type_at T q; Some (memSize t) } of None \<Rightarrow> 0 | Some n \<Rightarrow> n)"

definition flat_member :: "type_tables \<Rightarrow> (type_ptr \<Rightarrow> uvalue \<Rightarrow> bool) \<Rightarrow> type_ptr \<Rightarrow> UA_DataTypeMember \<Rightarrow> uvalue member \<Rightarrow> bool" where
  "flat_member T fl p d m \<longleftrightarrow> (case m of
     Single v \<Rightarrow> \<not> isArray d \<and> (case member_type T p d of None \<Rightarrow> False | Some q \<Rightarrow> fl q v)
   | ArrayOf a \<Rightarrow> False)"

definition flat_members :: "type_tables \<Rightarrow> (type_ptr \<Rightarrow> uvalue \<Rightarrow> bool) \<Rightarrow> type_ptr \<Rightarrow> uvalue member list \<Rightarrow> bool" where
  "flat_members T fl p ms \<longleftrightarrow> (case type_at T p of
     None \<Rightarrow> False
   | Some t \<Rightarrow> length (members t) = length ms \<and> memSize t = sum_list (map (member_size T p) (members t)) \<and>
       (\<forall>(d, m)\<in>set (zip (members t) ms). flat_member T fl p d m))"

lemma flat_members_cong [fundef_cong]:
  assumes "ms = ms'" and "\<And>m q x. m \<in> set ms' \<Longrightarrow> x \<in> set (member_values m) \<Longrightarrow> fl q x = fl' q x"
  shows "flat_members T fl p ms = flat_members T fl' p ms'"
proof -
  have "flat_member T fl p d m = flat_member T fl' p d m" if "(d, m) \<in> set (zip ds ms')" for d m ds
    using assms(2) set_zip_rightD [OF that] by (auto simp: flat_member_def split: option.split member.split)
  then show ?thesis using assms(1) by (auto simp: flat_members_def split: option.split)
qed

fun flat :: "type_tables \<Rightarrow> type_ptr \<Rightarrow> uvalue \<Rightarrow> bool" where
  "flat T p (Bool_v b) \<longleftrightarrow> codec_at T p = Some BooleanC \<and> map_option memSize (type_at T p) = Some 1"
| "flat T p (Byte_v b) \<longleftrightarrow> codec_at T p = Some ByteC \<and> map_option memSize (type_at T p) = Some 1"
| "flat T p (UInt16_v h) \<longleftrightarrow> codec_at T p = Some UInt16C \<and> map_option memSize (type_at T p) = Some 2"
| "flat T p (UInt32_v w) \<longleftrightarrow> codec_at T p = Some UInt32C \<and> map_option memSize (type_at T p) = Some 4"
| "flat T p (UInt64_v l) \<longleftrightarrow> codec_at T p = Some UInt64C \<and> map_option memSize (type_at T p) = Some 8"
| "flat T p (Guid_v g) \<longleftrightarrow> codec_at T p = Some GuidC \<and> map_option memSize (type_at T p) = Some 16 \<and> guid_ok g"
| "flat T p (Struct_v ms) \<longleftrightarrow> codec_at T p = Some InternalC \<and> flat_members T (flat T) p ms"
| "flat T p _ \<longleftrightarrow> False"

text \<open>A type whose values are copied as they are: a number, a GUID, or a structure of such members.\<close>

primrec copied_at :: "nat \<Rightarrow> type_tables \<Rightarrow> type_ptr \<Rightarrow> bool" where
  "copied_at 0 T p \<longleftrightarrow> False"
| "copied_at (Suc n) T p \<longleftrightarrow> (case do { t \<leftarrow> type_at T p; c \<leftarrow> codec_at T p; Some (t, c) } of
     None \<Rightarrow> False
   | Some (t, c) \<Rightarrow> c \<in> {BooleanC, ByteC, UInt16C, UInt32C, UInt64C, GuidC} \<or>
       (c = InternalC \<and> list_all (\<lambda>d. \<not> isArray d \<and> (case member_type T p d of None \<Rightarrow> False | Some q \<Rightarrow> copied_at n T q)) (members t)))"

definition elements_ok :: "type_tables \<Rightarrow> type_ptr \<Rightarrow> uvalue arr \<Rightarrow> bool" where
  "elements_ok T p a \<longleftrightarrow> array_small a \<and> (case type_at T p of
     None \<Rightarrow> False
   | Some t \<Rightarrow> if overlayable t then copied_at (nesting T) T p \<and> (\<forall>x\<in>set (arr_list a). flat T p x)
       else memSize t * length (arr_list a) div 32 \<le> length (concat (map (bin_value T) (arr_list a))))"

text \<open>The type at \<open>p\<close> has a numeric identifier, and its binary encoding is found again; the length fits.\<close>

definition wrap_ok :: "type_tables \<Rightarrow> type_ptr \<Rightarrow> uvalue \<Rightarrow> bool" where
  "wrap_ok T p v \<longleftrightarrow> (case type_at T p of
     None \<Rightarrow> False
   | Some t \<Rightarrow> numeric_id (typeId t) \<and> findDataTypeByBinary T (binary_id t) = Some p \<and> UA_calcSizeBinary T p v \<le> UA_INT32_MAX)"

text \<open>A diagnostic without the members whose bits are not written.\<close>

fun plain_diagnostic :: "UA_DiagnosticInfo \<Rightarrow> bool" where
  "plain_diagnostic (DiagnosticInfo sy uri tx loc add code inner) \<longleftrightarrow>
     code = None \<and> inner = None \<and> (case add of None \<Rightarrow> True | Some s \<Rightarrow> array_small s)"

text \<open>The builtin types stand at their indices, as the generated table has them.\<close>

definition standard_ok :: "type_tables \<Rightarrow> bool" where
  "standard_ok T \<longleftrightarrow> (\<forall>k<UA_BUILTIN_TYPES_COUNT. case type_at T (Standard, k) of Some t \<Rightarrow> builtin t \<and> typeIndex t = k | None \<Rightarrow> False) \<and>
     (case type_at T (Standard, UA_TYPES_INT32) of Some t \<Rightarrow> memSize t = 4 | None \<Rightarrow> False) \<and>
     (case type_at T (Standard, UA_TYPES_EXTENSIONOBJECT) of Some t \<Rightarrow> \<not> overlayable t | None \<Rightarrow> False)"

text \<open>A builtin type in a variant is named by its index: the type at this index is the same one, or an enumeration with the
  size of the integer there.\<close>

definition indexed :: "type_tables \<Rightarrow> UA_DataType \<Rightarrow> bool" where
  "indexed T t \<longleftrightarrow> typeIndex t < UA_BUILTIN_TYPES_COUNT \<and>
     map_option type_sizes.truncate (type_at T (Standard, typeIndex t)) = Some (type_sizes.truncate t)"

fun single :: "'a arr \<Rightarrow> bool" where
  "single (Elements [v]) = True"
| "single _ = False"

lemma single_iff: "single a \<longleftrightarrow> (\<exists>v. a = Elements [v])"
  by (cases a rule: single.cases) simp_all

definition variant_ok :: "type_tables \<Rightarrow> type_ptr \<Rightarrow> nat \<Rightarrow> uvalue arr \<Rightarrow> u32 arr \<Rightarrow> bool" where
  "variant_ok T p n d dims \<longleftrightarrow> (case type_at T p of
     None \<Rightarrow> False
   | Some t \<Rightarrow>
       (if is_array n d then n = length (arr_list d) \<and> n \<le> UA_INT32_MAX else single d) \<and> array_small dims \<and>
       (if builtin t then indexed T t \<and> (is_array n d \<longrightarrow> elements_ok T (Standard, typeIndex t) d)
        else (\<forall>x\<in>set (arr_list d). wrap_ok T p x) \<and>
          (is_array n d \<longrightarrow> (case type_at T (Standard, UA_TYPES_EXTENSIONOBJECT) of None \<Rightarrow> False
             | Some e \<Rightarrow> memSize e * n div 32 \<le> length (concat (map (\<lambda>v. bin_wrapped T p v (bin_value T v)) (arr_list d)))))))"

definition is_variant :: "uvalue \<Rightarrow> bool" where
  "is_variant v \<longleftrightarrow> (case v of Variant_v ty n d dims \<Rightarrow> True | _ \<Rightarrow> False)"

definition member_ok :: "type_tables \<Rightarrow> (type_ptr \<Rightarrow> uvalue \<Rightarrow> bool) \<Rightarrow> type_ptr \<Rightarrow> UA_DataTypeMember \<Rightarrow> uvalue member \<Rightarrow> bool" where
  "member_ok T ok p d m \<longleftrightarrow> (case member_type T p d of
     None \<Rightarrow> False
   | Some q \<Rightarrow> type_at T q \<noteq> None \<and> (case m of
       Single v \<Rightarrow> \<not> isArray d \<and> ok q v
     | ArrayOf a \<Rightarrow> isArray d \<and> elements_ok T q a \<and> (\<forall>x\<in>set (arr_list a). ok q x)))"

definition members_ok :: "type_tables \<Rightarrow> (type_ptr \<Rightarrow> uvalue \<Rightarrow> bool) \<Rightarrow> type_ptr \<Rightarrow> uvalue member list \<Rightarrow> bool" where
  "members_ok T ok p ms \<longleftrightarrow> (case type_at T p of
     None \<Rightarrow> False
   | Some t \<Rightarrow> length (members t) = length ms \<and> (\<forall>(d, m)\<in>set (zip (members t) ms). member_ok T ok p d m))"

lemma member_ok_cong:
  "(\<And>q x. x \<in> set (member_values m) \<Longrightarrow> ok q x = ok' q x) \<Longrightarrow> member_ok T ok p d m = member_ok T ok' p d m"
  by (cases m) (auto simp: member_ok_def split: option.splits)

lemma member_okE:
  assumes "member_ok T ok p d m" obtains q u where "member_type T p d = Some q" "type_at T q = Some u"
proof (cases "member_type T p d")
  case (Some q)
  then have "type_at T q \<noteq> None" using assms by (simp add: member_ok_def)
  then show ?thesis using that Some by blast
qed (use assms in \<open>simp add: member_ok_def\<close>)

lemma members_ok_cong [fundef_cong]:
  assumes "ms = ms'" and "\<And>m q x. m \<in> set ms' \<Longrightarrow> x \<in> set (member_values m) \<Longrightarrow> ok q x = ok' q x"
  shows "members_ok T ok p ms = members_ok T ok' p ms'"
proof -
  have "member_ok T ok p d m = member_ok T ok' p d m" if "(d, m) \<in> set (zip ds ms')" for d m ds
    by (rule member_ok_cong) (use assms(2) set_zip_rightD [OF that] in auto)
  then show ?thesis using assms(1) by (auto simp: members_ok_def split: option.split)
qed

definition UA_TYPES_VARIANT :: nat where "UA_TYPES_VARIANT = 23"

text \<open>The type that the decoder gives to the data of a variant of the type at \<open>p\<close>.\<close>

definition home :: "type_tables \<Rightarrow> type_ptr \<Rightarrow> type_ptr" where
  "home T p = (case type_at T p of Some t \<Rightarrow> if builtin t then (Standard, typeIndex t) else p | None \<Rightarrow> p)"

fun encodable :: "type_tables \<Rightarrow> type_ptr \<Rightarrow> uvalue \<Rightarrow> bool" where
  "encodable T p (Bool_v b) \<longleftrightarrow> codec_at T p = Some BooleanC"
| "encodable T p (Byte_v b) \<longleftrightarrow> codec_at T p = Some ByteC"
| "encodable T p (UInt16_v h) \<longleftrightarrow> codec_at T p = Some UInt16C"
| "encodable T p (UInt32_v w) \<longleftrightarrow> codec_at T p = Some UInt32C"
| "encodable T p (UInt64_v l) \<longleftrightarrow> codec_at T p = Some UInt64C"
| "encodable T p (String_v s) \<longleftrightarrow> codec_at T p = Some StringC \<and> array_small s"
| "encodable T p (Guid_v g) \<longleftrightarrow> codec_at T p = Some GuidC \<and> guid_ok g"
| "encodable T p (NodeId_v i) \<longleftrightarrow> codec_at T p = Some NodeIdC \<and> nodeid_ok i"
| "encodable T p (ExpandedNodeId_v x) \<longleftrightarrow> codec_at T p = Some ExpandedNodeIdC \<and> expanded_ok x"
| "encodable T p (LocalizedText_v x) \<longleftrightarrow> codec_at T p = Some LocalizedTextC \<and> text_ok x"
| "encodable T p (DiagnosticInfo_v x) \<longleftrightarrow> codec_at T p = Some DiagnosticInfoC \<and> plain_diagnostic x"
| "encodable T p (Encoded_v e i body) \<longleftrightarrow> codec_at T p = Some ExtensionObjectC \<and> numeric_id i \<and> array_small body \<and>
     (e = BYTESTRING_BODY \<longrightarrow> findDataTypeByBinary T i = None)"
| "encodable T p (Decoded_v nd (Some q) (Some v)) \<longleftrightarrow> codec_at T p = Some ExtensionObjectC \<and> wrap_ok T q v \<and> encodable T q v"
| "encodable T p (Decoded_v nd ty d) \<longleftrightarrow> False"
| "encodable T p (Variant_v None n d dims) \<longleftrightarrow> codec_at T p = Some VariantC"
| "encodable T p (Variant_v (Some q) n d dims) \<longleftrightarrow> codec_at T p = Some VariantC \<and> variant_ok T q n d dims \<and>
     (\<forall>x\<in>set (arr_list d). encodable T q x \<and> encodable T (home T q) x)"
| "encodable T p (DataValue_v val st sts vts sps vps) \<longleftrightarrow> codec_at T p = Some DataValueC \<and>
     (case val of None \<Rightarrow> True | Some v \<Rightarrow> is_variant v \<and> encodable T (Standard, UA_TYPES_VARIANT) v)"
| "encodable T p (Struct_v ms) \<longleftrightarrow> codec_at T p = Some InternalC \<and> members_ok T (encodable T) p ms"

section \<open>Encoders\<close>

lemma flat_members_bytes:
  assumes "length ds = length ms" and "\<forall>(d, m)\<in>set (zip ds ms). flat_member T (flat T) p d m"
    and "\<And>m x q. m \<in> set ms \<Longrightarrow> x \<in> set (member_values m) \<Longrightarrow> flat T q x \<Longrightarrow>
      memory_of x = bin_value T x \<and> (\<exists>t. type_at T q = Some t \<and> length (bin_value T x) = memSize t)"
  shows "concat (map (\<lambda>m. concat (map memory_of (member_values m))) ms) = concat (map (bin_member (bin_value T)) ms) \<and>
    length (concat (map (bin_member (bin_value T)) ms)) = sum_list (map (member_size T p) ds)"
  using assms
proof (induction ds ms rule: list_induct2)
  case (Cons d ds m ms)
  obtain v q where m: "m = Single v" and q: "member_type T p d = Some q" "flat T q v"
    using Cons(3) by (auto simp: flat_member_def split: member.splits option.splits)
  then obtain t where v: "memory_of v = bin_value T v" "type_at T q = Some t" "length (bin_value T v) = memSize t"
    using Cons(4) [of m v q] by auto
  have rest: "concat (map (\<lambda>m. concat (map memory_of (member_values m))) ms) = concat (map (bin_member (bin_value T)) ms) \<and>
    length (concat (map (bin_member (bin_value T)) ms)) = sum_list (map (member_size T p) ds)"
    using Cons(3) by (intro Cons.IH Cons.prems(2)) auto
  have "bin_member (bin_value T) m = bin_value T v" "member_size T p d = memSize t"
    using v m q by (simp_all add: bin_member_def member_size_def)
  then show ?case using rest v m by simp
qed simp

lemma flat_bytes: "flat T p x \<Longrightarrow> memory_of x = bin_value T x \<and> (\<exists>t. type_at T p = Some t \<and> length (bin_value T x) = memSize t)"
proof (induction x arbitrary: p rule: measure_induct_rule [of size])
  case (less x)
  show ?case
  proof (cases "\<exists>ms. x = Struct_v ms")
    case True
    then obtain ms where x: "x = Struct_v ms" by blast
    then obtain t where t: "type_at T p = Some t" "length (members t) = length ms" "memSize t = sum_list (map (member_size T p) (members t))"
        "\<forall>(d, m)\<in>set (zip (members t) ms). flat_member T (flat T) p d m"
      using less.prems by (auto simp: flat_members_def split: option.splits)
    have "size y < size x" if "m \<in> set ms" "y \<in> set (member_values m)" for m y using size_members [OF that] x by simp
    from flat_members_bytes [OF t(2,4) less.IH] this show ?thesis using x t by simp
  next
    case False
    then show ?thesis using less.prems by (cases x) (auto simp: bin_bool_def length_guid Guid_calcSizeBinary_def)
  qed
qed

lemma numeric_ok: "numeric_id i \<Longrightarrow> nodeid_ok i"
  by (auto simp: numeric_id_def nodeid_ok_def split: UA_Identifier_of.splits)

lemma binary_id_ok [simp]: "nodeid_ok (binary_id t)" "numeric_id (binary_id t)"
  by (simp_all add: binary_id_def nodeid_ok_def numeric_id_def)

lemma truncate_simps [simp]: "memSize (type_sizes.truncate t) = memSize t" "overlayable (type_sizes.truncate t) = overlayable t"
  by (simp_all add: type_sizes.truncate_def)

lemma emits_elements:
  assumes "elements_ok T q a" and "type_at T q = Some t"
    and "\<And>x. x \<in> set (arr_list a) \<Longrightarrow> emits (enc q x) (bin_value T x)"
  shows "emits (Array_encodeBinary cb (type_sizes.truncate t) memory_of (enc q) a) (bin_array (bin_value T) a)"
  by (rule emits_array) (use assms flat_bytes [of T q] in \<open>auto simp: elements_ok_def split: if_splits\<close>)

lemma emits_wrapped:
  assumes "wrap_ok T p v" and "emits (enc p v) bs"
  shows "emits (ExtensionObject_encodeBinary T cb enc (Decoded_v nd (Some p) (Some v))) (bin_wrapped T p v bs)"
proof -
  obtain t where t: "type_at T p = Some t" "numeric_id (typeId t)" "UA_calcSizeBinary T p v \<le> UA_INT32_MAX"
    using assms(1) by (auto simp: wrap_ok_def split: option.splits)
  have "emits (\<lambda>st. NodeId_encodeBinary cb (binary_id t) st \<bind> (\<lambda>(r1, st). Byte_encodeBinary 1 st \<bind> (\<lambda>(r2, st).
      Int32_encodeBinary (of_nat (UA_calcSizeBinary T p v)) st \<bind> (\<lambda>(r3, st). enc p v st \<bind> (\<lambda>(r4, st). Some (r1 OR r2 OR r3 OR r4, st))))))
      (bin_nodeid (binary_id t) @ [1] @ le_bytes 4 (of_nat (UA_calcSizeBinary T p v) :: u32) @ bs @ [])"
    by (rule emits_bind emits_nodeid integers_emit words_emit assms(2) emits_return binary_id_ok | simp)+
  then show ?thesis
    using t by (simp add: ExtensionObject_encodeBinary_def [abs_def] bin_wrapped_def binary_id_def body_code_def Let_def not_less [symmetric])
qed

lemma emits_encoded:
  assumes "numeric_id i" and "array_small body"
  shows "emits (ExtensionObject_encodeBinary T cb enc (Encoded_v e i body)) (bin_value T (Encoded_v e i body))"
proof -
  have "emits (\<lambda>st. if e = NOBODY then Some (0, st) else ByteString_encodeBinary cb body st) (if e = NOBODY then [] else bin_string body)"
    using assms(2) by (simp add: emits_nothing strings_emit)
  from emits_then(2) [OF emits_nodeid [OF numeric_ok [OF assms(1)]] integers_emit(2) this] show ?thesis
    by (simp add: ExtensionObject_encodeBinary_def [abs_def])
qed

lemma emits_dims:
  assumes "array_small dims" and "standard_ok T"
  shows "emits (\<lambda>st. if is_array n d \<and> length (arr_list dims) > 0
      then type_at T (Standard, UA_TYPES_INT32) \<bind> (\<lambda>t32. Array_encodeBinary cb (type_sizes.truncate t32) (le_bytes 4) Int32_encodeBinary dims st)
      else Some (0, st)) (bin_dims n d dims)"
proof -
  obtain t32 where t32: "type_at T (Standard, UA_TYPES_INT32) = Some t32" "memSize t32 = 4"
    using assms(2) by (auto simp: standard_ok_def split: option.splits)
  have "emits (Array_encodeBinary cb (type_sizes.truncate t32) (le_bytes 4) Int32_encodeBinary dims) (bin_array (le_bytes 4) dims)"
    by (rule emits_array) (use assms(1) t32(2) in \<open>simp_all add: words_emit\<close>)
  then show ?thesis using t32(1) by (cases "is_array n d"; cases "arr_list dims") (simp_all add: bin_dims_def emits_nothing)
qed

lemma variant_array_all: "n = length (arr_list d) \<Longrightarrow> is_array n d \<Longrightarrow> variant_array n d = Some d"
  by (cases d) (simp_all add: variant_array_def)

lemma emits_wrap:
  assumes "\<And>x. x \<in> set (arr_list d) \<Longrightarrow> wrap_ok T p x \<and> emits (enc p x) (bin_value T x)"
    and "if is_array n d then n = length (arr_list d) \<and> n \<le> UA_INT32_MAX else single d"
  shows "emits (Variant_encodeBinaryWrapExtensionObject T cb enc p n d)
    ((if is_array n d then le_bytes 4 (of_nat n :: u32) else []) @ concat (map (\<lambda>v. bin_wrapped T p v (bin_value T v)) (arr_list d)))"
proof -
  let ?F = "\<lambda>v. ExtensionObject_encodeBinary T cb enc (Decoded_v False (Some p) (Some v))"
  have all: "emits (Array_encodeBinaryComplex cb (map ?F (arr_list d))) (concat (map (\<lambda>v. bin_wrapped T p v (bin_value T v)) (arr_list d)))"
    by (rule emits_complex, rule emits_wrapped) (use assms(1) in auto)
  show ?thesis
  proof (cases "is_array n d")
    case True
    then have "variant_array n d = Some d" using assms(2) by (intro variant_array_all) simp_all
    moreover have "emits (\<lambda>st. Int32_encodeBinary (of_nat n) st \<bind> (\<lambda>(rv, st). if rv \<noteq> UA_STATUSCODE_GOOD then Some (rv, st)
        else Array_encodeBinaryComplex cb (map ?F (arr_list d)) st)) (le_bytes 4 (of_nat n :: u32) @ concat (map (\<lambda>v. bin_wrapped T p v (bin_value T v)) (arr_list d)))"
      by (rule emits_bind [OF words_emit(1)]) (use all in \<open>simp add: UA_STATUSCODE_GOOD_def\<close>)
    ultimately show ?thesis using True assms(2) by (simp add: Variant_encodeBinaryWrapExtensionObject_def [abs_def])
  next
    case False
    then obtain v where "d = Elements [v]" using assms(2) by (auto simp: single_iff)
    then show ?thesis using False all
      by (simp add: Variant_encodeBinaryWrapExtensionObject_def [abs_def] variant_scalar_def UA_STATUSCODE_GOOD_def del: Array_encodeBinaryComplex.simps)
  qed
qed

lemma emits_variant:
  assumes "variant_ok T p n d dims" and "standard_ok T" and enc: "\<And>x. x \<in> set (arr_list d) \<Longrightarrow> emits (enc p x) (bin_value T x)"
  shows "emits (Variant_encodeBinary T cb enc (Variant_v (Some p) n d dims)) (bin_value T (Variant_v (Some p) n d dims))"
proof -
  obtain t where t: "type_at T p = Some t" using assms(1) by (auto simp: variant_ok_def split: option.splits)
  note ok = assms(1) [unfolded variant_ok_def t option.case]
  let ?body = "if \<not> builtin t then (if is_array n d then le_bytes 4 (of_nat n :: u32) else []) @ concat (map (\<lambda>v. bin_wrapped T p v (bin_value T v)) (arr_list d))
     else if \<not> is_array n d then concat (map (bin_value T) (arr_list d)) else bin_array (bin_value T) d"
  have "emits (\<lambda>st. if \<not> builtin t then Variant_encodeBinaryWrapExtensionObject T cb enc p n d st
        else if \<not> is_array n d then variant_scalar d \<bind> (\<lambda>v. enc p v st)
        else variant_array n d \<bind> (\<lambda>a. Array_encodeBinary cb (type_sizes.truncate t) memory_of (enc p) a st)) ?body"
  proof (cases "builtin t")
    case True
    have ?thesis if "is_array n d"
    proof -
      obtain t' where t': "type_at T (Standard, typeIndex t) = Some t'" "memSize t' = memSize t" "overlayable t' = overlayable t"
        using ok True by (auto simp: indexed_def type_sizes.truncate_def)
      have "emits (Array_encodeBinary cb (type_sizes.truncate t) memory_of (enc p) d) (bin_array (bin_value T) d)"
        using emits_elements [of T "(Standard, typeIndex t)" d t' "\<lambda>_. enc p" cb] ok True that t' enc by (simp add: type_sizes.truncate_def)
      then show ?thesis using True that variant_array_all [of n d] ok by simp
    qed
    moreover have ?thesis if array: "\<not> is_array n d"
    proof -
      obtain v where "d = Elements [v]" using ok array by (auto simp: single_iff)
      then show ?thesis using True array enc [of v] by (simp add: variant_scalar_def)
    qed
    ultimately show ?thesis by blast
  next
    case False
    then show ?thesis using emits_wrap [of d T p enc n cb] ok enc by (simp del: if_split cong: if_cong)
  qed
  from emits_then(2) [OF integers_emit(2) this emits_dims [of dims T n d cb]] show ?thesis
    using ok assms(2) by (simp add: Variant_encodeBinary_def [abs_def] t cong: if_cong)
qed

lemma emits_members:
  assumes "members_ok T ok p ms" and "type_at T p = Some t"
    and enc: "\<And>m x q. m \<in> set ms \<Longrightarrow> x \<in> set (member_values m) \<Longrightarrow> ok q x \<Longrightarrow> emits (enc q x) (bin_value T x)"
  shows "emits (members_encodeBinary T cb enc p (members t) ms) (concat (map (bin_member (bin_value T)) ms))"
proof -
  have one: "emits (member_encodeBinary T cb enc p d m) (bin_member (bin_value T) m)" if ok: "member_ok T ok p d m" and "m \<in> set ms" for d m
  proof -
    obtain q u where q: "member_type T p d = Some q" "type_at T q = Some u" by (rule member_okE [OF ok])
    show ?thesis
    proof (cases m)
      case (Single v)
      then show ?thesis using that q enc [of m v q] by (auto simp: member_encodeBinary_def [abs_def] member_ok_def bin_member_def intro: emits_element)
    next
      case (ArrayOf a)
      have "emits (Array_encodeBinary cb (type_sizes.truncate u) memory_of (enc q) a) (bin_array (bin_value T) a)"
        by (rule emits_elements) (use that q ArrayOf enc in \<open>auto simp: member_ok_def\<close>)
      then show ?thesis using that q ArrayOf by (simp add: member_encodeBinary_def [abs_def] member_ok_def bin_member_def)
    qed
  qed
  have "emits (members_encodeBinary T cb enc p ds xs) (concat (map (bin_member (bin_value T)) xs))"
    if "length ds = length xs" "\<forall>(d, m)\<in>set (zip ds xs). member_ok T ok p d m" "set xs \<subseteq> set ms" for ds xs
    using that
  proof (induction ds xs rule: list_induct2)
    case Nil
    then show ?case by (simp add: emits_def UA_STATUSCODE_GOOD_def members_encodeBinary.simps [abs_def])
  next
    case (Cons d ds m xs)
    have "emits (\<lambda>st. member_encodeBinary T cb enc p d m st \<bind> (\<lambda>(rv, st). if rv \<noteq> UA_STATUSCODE_GOOD then Some (rv, st)
        else members_encodeBinary T cb enc p ds xs st)) (bin_member (bin_value T) m @ concat (map (bin_member (bin_value T)) xs))"
      by (rule emits_bind, rule one) (use Cons in \<open>auto simp: UA_STATUSCODE_GOOD_def\<close>)
    then show ?case by (simp add: members_encodeBinary.simps [abs_def])
  qed
  then show ?thesis using assms(1,2) by (simp add: members_ok_def)
qed

lemma plain_ok: "plain_diagnostic x \<Longrightarrow> diagnostic_ok x"
  by (cases x) simp

lemma codec_atE: "codec_at T p = Some c \<Longrightarrow> \<exists>t. type_at T p = Some t \<and> load encodeBinaryJumpTable (index_of t) = Some c"
  by (auto simp: codec_at_def bind_eq_Some_conv)

lemma emits_codec:
  assumes "codec_at T p = Some c" and "\<And>t. type_at T p = Some t \<Longrightarrow> emits (encode_as T cb (UA_encodeType T cb) c t p v) bs"
  shows "emits (UA_encodeType T cb p v) bs"
proof -
  obtain t where "type_at T p = Some t" "load encodeBinaryJumpTable (index_of t) = Some c" using codec_atE [OF assms(1)] by blast
  then show ?thesis using assms(2) by (subst UA_encodeType.simps) simp
qed

lemma emits_typed: "encodable T p v \<Longrightarrow> standard_ok T \<Longrightarrow> emits (UA_encodeType T cb p v) (bin_value T v)"
proof (induction "size v" arbitrary: p v rule: less_induct)
  case less
  have IH: "emits (UA_encodeType T cb q x) (bin_value T x)" if "size x < size v" "encodable T q x" for q x
    using less.hyps [OF that less.prems(2)] .
  note integers = integers_emit strings_emit emits_guid emits_nodeid emits_expanded emits_text emits_diagnostic [OF plain_ok]
  have variant: "emits (Variant_encodeBinary T cb (UA_encodeType T cb) w) (bin_value T w)"
    if w: "is_variant w" "encodable T q w" "size w \<le> size v" for q w
  proof -
    obtain ty n d dims where v: "w = Variant_v ty n d dims" using w(1) by (auto simp: is_variant_def split: uvalue.splits)
    show ?thesis
    proof (cases ty)
      case None
      then show ?thesis using v integers_emit(2) by (simp add: Variant_encodeBinary_def [abs_def])
    next
      case (Some q)
      have "emits (UA_encodeType T cb q x) (bin_value T x)" if "x \<in> set (arr_list d)" for x
        by (rule IH) (use v Some that w size_parts [of x w] in auto)
      then show ?thesis unfolding v Some using w v Some less.prems(2) by (intro emits_variant) simp_all
    qed
  qed
  show ?case
  proof (cases v)
    case (Encoded_v e i body)
    then show ?thesis using less.prems emits_encoded [of i body T cb "UA_encodeType T cb" e]
      by (auto simp del: bin_value.simps intro!: emits_codec simp: encode_as_def [abs_def])
  next
    case (Decoded_v nd ty d)
    then obtain q x where q: "ty = Some q" "d = Some x" using less.prems(1) by (cases ty; cases d) auto
    then have "emits (ExtensionObject_encodeBinary T cb (UA_encodeType T cb) v) (bin_value T v)"
      using Decoded_v less.prems(1) IH [of x q] by (auto intro: emits_wrapped)
    then show ?thesis using Decoded_v q less.prems(1) by (auto intro!: emits_codec simp: encode_as_def [abs_def])
  next
    case (Variant_v ty n d dims)
    have "emits (Variant_encodeBinary T cb (UA_encodeType T cb) v) (bin_value T v)" by (rule variant) (use Variant_v less.prems in \<open>auto simp: is_variant_def\<close>)
    then show ?thesis using Variant_v less.prems(1) by (cases ty) (auto simp del: bin_value.simps intro!: emits_codec simp: encode_as_def [abs_def])
  next
    case (DataValue_v val st sts vts sps vps)
    have "emits (encode_option (Variant_encodeBinary T cb (UA_encodeType T cb)) val) (case val of None \<Rightarrow> [] | Some v \<Rightarrow> bin_value T v)"
      by (rule emits_option, rule variant) (use DataValue_v less.prems(1) in auto)
    moreover have "emits (encode_option StatusCode_encodeBinary st) (case st of None \<Rightarrow> [] | Some v \<Rightarrow> le_bytes 4 v)"
      "emits (encode_option DateTime_encodeBinary ts) (case ts of None \<Rightarrow> [] | Some v \<Rightarrow> le_bytes 8 v)"
      "emits (encode_option UInt16_encodeBinary ps) (case ps of None \<Rightarrow> [] | Some v \<Rightarrow> le_bytes 2 v)" for ts ps
      by (rule emits_option, rule words_emit integers_emit)+
    ultimately have "emits (DataValue_encodeBinary T cb (UA_encodeType T cb) v) ([DataValue_mask val st sts vts sps vps] @ bin_option (bin_value T) val
        @ bin_option (le_bytes 4) st @ bin_option (le_bytes 8) sts @ bin_option (le_bytes 2) sps @ bin_option (le_bytes 8) vts @ bin_option (le_bytes 2) vps @ [])"
      unfolding DataValue_encodeBinary_def [abs_def] DataValue_v uvalue.case bin_option_def
      by (intro emits_bind integers_emit) (simp_all add: emits_return)
    then show ?thesis using DataValue_v less.prems(1) by (auto intro!: emits_codec simp: encode_as_def [abs_def])
  next
    case (Struct_v ms)
    have "emits (members_encodeBinary T cb (UA_encodeType T cb) p (members t) ms) (concat (map (bin_member (bin_value T)) ms))" if "type_at T p = Some t" for t
      by (rule emits_members [of _ "encodable T"]) (use Struct_v less.prems(1) that size_members [of _ ms] in \<open>auto intro!: IH\<close>)
    then show ?thesis using Struct_v less.prems(1) by (auto intro!: emits_codec simp: encode_as_def [abs_def])
  qed (use less.prems integers in \<open>auto intro!: emits_codec simp: encode_as_def [abs_def]\<close>)
qed

end
