(* ===== verification/UATypedRead.thy ===== *)
theory UATypedRead
  imports UATyped
begin

text \<open>What the typed decoders read from the bytes of a value.\<close>

section \<open>The value that comes back\<close>

lemma norm_array_cong [fundef_cong]:
  "a = b \<Longrightarrow> (\<And>x. x \<in> set (arr_list b) \<Longrightarrow> f x = g x) \<Longrightarrow> norm_array f a = norm_array g b"
  by (cases "(f, b)" rule: norm_array.cases) auto

lemma arr_list_norm [simp]: "arr_list (norm_array f a) = map f (arr_list a)"
  by (cases "(f, a)" rule: norm_array.cases) simp_all

definition norm_member :: "('v \<Rightarrow> 'v) \<Rightarrow> 'v member \<Rightarrow> 'v member" where
  "norm_member f m = (case m of Single v \<Rightarrow> Single (f v) | ArrayOf a \<Rightarrow> ArrayOf (norm_array f a))"

lemma norm_member_cong [fundef_cong]:
  "m = m' \<Longrightarrow> (\<And>x. x \<in> set (member_values m') \<Longrightarrow> f x = g x) \<Longrightarrow> norm_member f m = norm_member g m'"
  by (auto simp: norm_member_def split: member.split intro: norm_array_cong)

fun norm_diagnostic :: "UA_DiagnosticInfo \<Rightarrow> UA_DiagnosticInfo" where
  "norm_diagnostic (DiagnosticInfo sy uri tx loc add code inner) = DiagnosticInfo sy uri tx loc (map_option norm_string add) code inner"

text \<open>A scalar that is a decoded extension object becomes a variant of what is inside.\<close>

definition scalar_variant :: "type_ptr \<Rightarrow> uvalue \<Rightarrow> uvalue" where
  "scalar_variant p w = (case w of
     Decoded_v nd (Some q) (Some x) \<Rightarrow> Variant_v (Some q) 0 (Elements [x]) NullArray
   | _ \<Rightarrow> Variant_v (Some p) 0 (Elements [w]) NullArray)"

definition norm_dims :: "nat \<Rightarrow> 'a arr \<Rightarrow> u32 arr \<Rightarrow> u32 arr" where
  "norm_dims n d dims = (if is_array n d \<and> length (arr_list dims) > 0 then dims else NullArray)"

text \<open>An array of a type that is not builtin becomes an array of extension objects.\<close>

definition extension_array :: "type_ptr \<Rightarrow> uvalue list \<Rightarrow> u32 arr \<Rightarrow> uvalue" where
  "extension_array p ws dims = Variant_v (Some (Standard, UA_TYPES_EXTENSIONOBJECT)) (length ws)
     (if ws = [] then EmptySentinel else Elements (map (\<lambda>w. Decoded_v False (Some p) (Some w)) ws)) dims"

definition clamp :: "u16 \<Rightarrow> u16" where
  "clamp x = (if x > MAX_PICO_SECONDS then MAX_PICO_SECONDS else x)"

fun norm_value :: "type_tables \<Rightarrow> uvalue \<Rightarrow> uvalue" where
  "norm_value T (String_v s) = String_v (norm_string s)"
| "norm_value T (NodeId_v i) = NodeId_v (norm_nodeid i)"
| "norm_value T (ExpandedNodeId_v x) = ExpandedNodeId_v (norm_expanded x)"
| "norm_value T (LocalizedText_v x) = LocalizedText_v (norm_text x)"
| "norm_value T (DiagnosticInfo_v x) = DiagnosticInfo_v (norm_diagnostic x)"
| "norm_value T (Encoded_v e i body) = Encoded_v e i (if e = NOBODY then NullArray else norm_string body)"
| "norm_value T (Decoded_v nd (Some p) (Some v)) = Decoded_v False (Some p) (Some (norm_value T v))"
| "norm_value T (Variant_v None n d dims) = zero_variant"
| "norm_value T (Variant_v (Some p) n d dims) = (case type_at T p of
     None \<Rightarrow> zero_variant
   | Some t \<Rightarrow>
       if builtin t
       then if is_array n d then Variant_v (Some (home T p)) n (norm_array (norm_value T) d) (norm_dims n d dims)
            else scalar_variant (home T p) (hd (map (norm_value T) (arr_list d)))
       else if is_array n d then extension_array p (map (norm_value T) (arr_list d)) (norm_dims n d dims)
            else Variant_v (Some p) 0 (Elements (map (norm_value T) (arr_list d))) NullArray)"
| "norm_value T (DataValue_v val st sts vts sps vps) =
     DataValue_v (map_option (norm_value T) val) st sts vts (map_option clamp sps) (map_option clamp vps)"
| "norm_value T (Struct_v ms) = Struct_v (map (norm_member (norm_value T)) ms)"
| "norm_value T v = v"

section \<open>Extension objects\<close>

lemma norm_numeric: "numeric_id i \<Longrightarrow> norm_nodeid i = i"
  by (cases i) (auto simp: norm_nodeid_def numeric_id_def split: UA_Identifier_of.splits)

lemma reads_skip:
  assumes "reads d bs w" and "length xs = n"
  shows "reads (\<lambda>st. d (st\<lparr>dpos := dpos st + n\<rparr>)) (xs @ bs) w"
proof (rule readsI)
  fix st :: decoder and rest assume in0: "dpos st \<le> length (dbuf st)" and st: "drop (dpos st) (dbuf st) = (xs @ bs) @ rest"
  let ?st = "st\<lparr>dpos := dpos st + n\<rparr>"
  have "drop (dpos ?st) (dbuf ?st) = bs @ rest" using drop_append_drop [OF st [unfolded append_assoc]] assms(2) by simp
  moreover have "dpos ?st \<le> length (dbuf ?st)" using input_length [OF in0 st] assms(2) by simp
  ultimately obtain st' where "d ?st = Some (0, w, st')" "consumed (length bs) ?st st'" using readsD [OF assms(1)] by blast
  moreover have "consumed n st ?st" by simp
  ultimately show "\<exists>st'. d ?st = Some (0, w, st') \<and> consumed (length (xs @ bs)) st st'"
    using consumed_trans [of n st ?st "length bs"] assms(2) by auto
qed

definition extension_content ::
    "type_tables \<Rightarrow> (nat \<Rightarrow> bool) \<Rightarrow> (type_ptr \<Rightarrow> decoding_of) \<Rightarrow> node_id \<Rightarrow> body_encoding \<Rightarrow> decoding_of" where
  "extension_content T calloc dec i e = (case e of
     NOBODY \<Rightarrow> (\<lambda>st. Some (0, Encoded_v NOBODY i NullArray, st))
   | BYTESTRING_BODY \<Rightarrow> ExtensionObject_decodeBinaryContent T calloc dec i
   | XML_BODY \<Rightarrow> (\<lambda>st. ByteString_decodeBinary calloc NullArray st \<bind> (\<lambda>(rv, body, st). Some (rv, Encoded_v XML_BODY i body, st))))"

lemma reads_extension:
  assumes "numeric_id i" and "reads (extension_content T calloc dec i e) bs v" and calloc: "\<And>n. calloc n"
  shows "reads (ExtensionObject_decodeBinary T calloc dec) (bin_nodeid i @ body_code e # bs) v"
proof -
  have "reads (ExtensionObject_decodeBinary T calloc dec) (bin_nodeid i @ [body_code e] @ bs) v"
    unfolding ExtensionObject_decodeBinary_def [abs_def]
  proof (intro reads_bind [OF reads_nodeid] reads_bind [OF integers_read(2)])
    show "reads (\<lambda>st. let rv = if numeric_id (norm_nodeid i) then 0 OR 0 else UA_STATUSCODE_BADDECODINGERROR
        in if rv \<noteq> UA_STATUSCODE_GOOD then Some (rv, zero_extension, st)
        else if body_code e = body_code BYTESTRING_BODY then ExtensionObject_decodeBinaryContent T calloc dec (norm_nodeid i) st
        else if body_code e = body_code NOBODY then Some (UA_STATUSCODE_GOOD, Encoded_v NOBODY (norm_nodeid i) NullArray, st)
        else if body_code e = body_code XML_BODY
        then ByteString_decodeBinary calloc NullArray st \<bind> (\<lambda>(rv, body, st). Some (rv, Encoded_v XML_BODY (norm_nodeid i) body, st))
        else Some (UA_STATUSCODE_BADDECODINGERROR, zero_extension, st)) bs v"
      using assms(1,2) by (cases e) (simp_all add: norm_numeric UA_STATUSCODE_GOOD_def body_code_def extension_content_def)
  qed (use assms(1) calloc in \<open>simp_all add: numeric_ok\<close>)
  then show ?thesis by simp
qed

lemma reads_wrapped:
  assumes "wrap_ok T p v" and "reads (dec p) bs w" and calloc: "\<And>n. calloc n"
  shows "reads (ExtensionObject_decodeBinary T calloc dec) (bin_wrapped T p v bs) (Decoded_v False (Some p) (Some w))"
proof -
  obtain t where t: "type_at T p = Some t" "findDataTypeByBinary T (binary_id t) = Some p"
    using assms(1) by (auto simp: wrap_ok_def split: option.splits)
  have "reads (\<lambda>st. dec p (st\<lparr>dpos := dpos st + 4\<rparr>)) (le_bytes 4 (of_nat (UA_calcSizeBinary T p v) :: u32) @ bs) w"
    by (rule reads_skip [OF assms(2)]) simp
  from reads_map [OF this, where f = "\<lambda>w. Decoded_v False (Some p) (Some w)"]
  have "reads (extension_content T calloc dec (binary_id t) BYTESTRING_BODY) (le_bytes 4 (of_nat (UA_calcSizeBinary T p v) :: u32) @ bs)
      (Decoded_v False (Some p) (Some w))"
    by (simp add: extension_content_def ExtensionObject_decodeBinaryContent_def [abs_def] t calloc)
  from reads_extension [OF binary_id_ok(2) this calloc] show ?thesis by (simp add: bin_wrapped_def t body_code_def)
qed

lemma reads_encoded:
  assumes "numeric_id i" and "array_small body" and "e = BYTESTRING_BODY \<longrightarrow> findDataTypeByBinary T i = None" and calloc: "\<And>n. calloc n"
  shows "reads (ExtensionObject_decodeBinary T calloc dec) (bin_value T (Encoded_v e i body)) (norm_value T (Encoded_v e i body))"
proof -
  note body = reads_map [OF strings_read(2) [OF assms(2) calloc], where f = "Encoded_v e i"]
  have "reads (extension_content T calloc dec i e) (if e = NOBODY then [] else bin_string body) (norm_value T (Encoded_v e i body))"
  proof (cases e)
    case NOBODY
    then show ?thesis by (simp add: extension_content_def reads_nothing)
  next
    case BYTESTRING_BODY
    then show ?thesis using body assms(3) by (simp add: extension_content_def ExtensionObject_decodeBinaryContent_def [abs_def])
  next
    case XML_BODY
    then show ?thesis using body by (simp add: extension_content_def)
  qed
  from reads_extension [OF assms(1) this calloc] show ?thesis by simp
qed

section \<open>Arrays\<close>

lemma same_tables: "decodeBinaryJumpTable = encodeBinaryJumpTable"
  by (simp add: decodeBinaryJumpTable_def encodeBinaryJumpTable_def)

lemma guid_again:
  "guid_ok g \<Longrightarrow> \<lparr>data1 = le_word (take 4 (guid_bytes g)), data2 = le_word (take 2 (drop 4 (guid_bytes g))),
     data3 = le_word (take 2 (drop 6 (guid_bytes g))), data4 = take 8 (drop 8 (guid_bytes g))\<rparr> = g"
  by (cases g) (simp add: guid_bytes_def guid_ok_def le_word_le_bytes)

lemma members_at_flat:
  assumes "length ds = length ms" and "\<forall>(d, m)\<in>set (zip ds ms). flat_member T (flat T) p d m"
    and "\<And>d q x. d \<in> set ds \<Longrightarrow> member_type T p d = Some q \<Longrightarrow> flat T q x \<Longrightarrow> at q (bin_value T x) = norm_value T x"
  shows "members_at at T p ds (concat (map (bin_member (bin_value T)) ms)) = map (norm_member (norm_value T)) ms"
  using assms
proof (induction ds ms rule: list_induct2)
  case (Cons d ds m ms)
  obtain v q where m: "m = Single v" and q: "member_type T p d = Some q" "flat T q v"
    using Cons(3) by (auto simp: flat_member_def split: member.splits option.splits)
  from flat_bytes [OF q(2)] obtain t where "type_at T q = Some t" "length (bin_value T v) = memSize t" by blast
  then have "at q (bin_value T v) = norm_value T v" "length (bin_value T v) = memSize t" "type_at T q = Some t"
    using Cons(4) [of d q v] q by simp_all
  moreover have "bin_member (bin_value T) m = bin_value T v" "norm_member (norm_value T) m = Single (norm_value T v)"
    by (simp_all add: m bin_member_def norm_member_def)
  moreover have "members_at at T p ds (concat (map (bin_member (bin_value T)) ms)) = map (norm_member (norm_value T)) ms"
    using Cons(3) by (intro Cons.IH Cons.prems(2)) auto
  ultimately show ?case using q by simp
qed simp

lemma value_at_flat: "flat T p x \<Longrightarrow> copied_at n T p \<Longrightarrow> value_at n T p (bin_value T x) = norm_value T x"
proof (induction n arbitrary: p x)
  case (Suc n)
  obtain t where t0: "type_at T p = Some t" using flat_bytes [OF Suc.prems(1)] by blast
  show ?case
  proof (cases "\<exists>ms. x = Struct_v ms")
    case True
    then obtain ms where x: "x = Struct_v ms" by blast
    then have t: "length (members t) = length ms" "\<forall>(d, m)\<in>set (zip (members t) ms). flat_member T (flat T) p d m"
      and codec: "codec_at T p = Some InternalC"
      using Suc.prems(1) t0 by (auto simp: flat_members_def)
    have parts: "\<forall>d\<in>set (members t). \<forall>q. member_type T p d = Some q \<longrightarrow> copied_at n T q"
      using Suc.prems(2) t0 codec by (auto simp: list_all_iff)
    have "members_at (value_at n T) T p (members t) (concat (map (bin_member (bin_value T)) ms)) = map (norm_member (norm_value T)) ms"
      by (rule members_at_flat [OF t(1)]) (use t(2) parts Suc.IH in blast)+
    then show ?thesis using x t0 codec by (simp add: codec_at_def same_tables)
  next
    case False
    then show ?thesis
      using Suc.prems t0 by (cases x) (auto simp: codec_at_def same_tables bin_bool_def le_word_le_bytes guid_again)
  qed
qed simp

lemma reads_elements_at:
  assumes "elements_ok T q a" and "type_at T q = Some t" and calloc: "\<And>n. calloc n"
    and "\<And>x. x \<in> set (arr_list a) \<Longrightarrow> reads (dec q) (bin_value T x) (norm_value T x)"
  shows "reads (Array_decodeBinary calloc (type_sizes.truncate t) (value_at (nesting T) T q) (dec q) dst) (bin_array (bin_value T) a) (norm_array (norm_value T) a)"
  by (rule reads_array) (use assms flat_bytes [of T q] value_at_flat [of T q] in \<open>auto simp: elements_ok_def split: if_splits\<close>)

lemma norm_same [simp]: "norm_array (\<lambda>x. x) a = (if a = Elements [] then NullArray else a)"
  by (cases "(\<lambda>x :: 'a. x, a)" rule: norm_array.cases) simp_all

lemma reads_dims:
  assumes "array_small dims" and "standard_ok T" and calloc: "\<And>n. calloc n"
  shows "\<exists>t32. type_at T (Standard, UA_TYPES_INT32) = Some t32 \<and>
     reads (Array_decodeBinary calloc (type_sizes.truncate t32) le_word (Int32_decodeBinary 0) NullArray) (bin_array (le_bytes 4) dims) (norm_array (\<lambda>x. x) dims)"
proof -
  obtain t32 where t32: "type_at T (Standard, UA_TYPES_INT32) = Some t32" "memSize t32 = 4"
    using assms(2) by (auto simp: standard_ok_def split: option.splits)
  have "length (concat (map (le_bytes 4) xs)) = 4 * length xs" for xs :: "u32 list" by (induction xs) simp_all
  then have "reads (Array_decodeBinary calloc (type_sizes.truncate t32) le_word (Int32_decodeBinary 0) NullArray) (bin_array (le_bytes 4) dims) (norm_array (\<lambda>x. x) dims)"
    by (intro reads_array) (use assms t32(2) in \<open>simp_all add: le_word_le_bytes words_read\<close>)
  then show ?thesis using t32(1) by blast
qed

section \<open>Variants\<close>

definition mask_bits_ok :: "nat \<Rightarrow> bool \<Rightarrow> bool \<Rightarrow> u8 \<Rightarrow> bool" where
  "mask_bits_ok k array dims m \<longleftrightarrow> m \<noteq> 0 \<and> unat (m AND UA_VARIANT_ENCODINGMASKTYPE_TYPEID_MASK) = Suc k \<and>
     (m AND UA_VARIANT_ENCODINGMASKTYPE_ARRAY > 0 \<longleftrightarrow> array) \<and> (m AND UA_VARIANT_ENCODINGMASKTYPE_DIMENSIONS > 0 \<longleftrightarrow> dims)"

lemma mask_values:
  "\<forall>k\<in>set [0..<25]. let e = UA_VARIANT_ENCODINGMASKTYPE_TYPEID_MASK AND of_nat (k + 1); a = e OR UA_VARIANT_ENCODINGMASKTYPE_ARRAY in
     mask_bits_ok k False False e \<and> mask_bits_ok k True False a \<and> mask_bits_ok k True True (a OR UA_VARIANT_ENCODINGMASKTYPE_DIMENSIONS)"
  by code_simp

lemma variant_mask_bits:
  assumes "(if builtin t then typeIndex t else UA_TYPES_EXTENSIONOBJECT) = k" and "k < UA_BUILTIN_TYPES_COUNT"
  shows "mask_bits_ok k (is_array n d) (is_array n d \<and> 0 < length (arr_list dims)) (variant_mask t n d dims)"
proof -
  have "k \<in> set [0..<25]" using assms(2) by (simp add: UA_BUILTIN_TYPES_COUNT_def)
  then show ?thesis using mask_values assms(1) unfolding variant_mask_def Let_def by auto
qed

text \<open>What follows the mask of a variant of the type at \<open>p\<close> with index \<open>k\<close>.\<close>

definition variant_rest :: "type_tables \<Rightarrow> (nat \<Rightarrow> bool) \<Rightarrow> (type_ptr \<Rightarrow> decoding_of) \<Rightarrow> nat \<Rightarrow> bool \<Rightarrow> bool \<Rightarrow> decoding_of" where
  "variant_rest T calloc dec k array dims st =
     do { t \<leftarrow> type_at T (Standard, k);
          if array
          then do {
            (r1, a, st) \<leftarrow> Array_decodeBinary calloc (type_sizes.truncate t) (value_at (nesting T) T (Standard, k)) (dec (Standard, k)) NullArray st;
            if dims
            then do {
              t32 \<leftarrow> type_at T (Standard, UA_TYPES_INT32);
              (r2, dims, st) \<leftarrow> Array_decodeBinary calloc (type_sizes.truncate t32) le_word (Int32_decodeBinary 0) NullArray st;
              Some (r1 OR r2, array_variant (Standard, k) a dims, st) }
            else Some (r1, array_variant (Standard, k) a NullArray, st) }
          else if k \<noteq> UA_TYPES_EXTENSIONOBJECT
          then (if \<not> calloc (memSize t) then Some (UA_STATUSCODE_BADOUTOFMEMORY, Variant_v (Some (Standard, k)) 0 NullArray NullArray, st)
                else do { (rv, v, st) \<leftarrow> dec (Standard, k) st; Some (rv, Variant_v (Some (Standard, k)) 0 (Elements [v]) NullArray, st) })
          else Variant_decodeBinaryUnwrapExtensionObject T calloc dec st }"

lemma reads_variant_mask:
  assumes "mask_bits_ok k array dims m" and "k < UA_BUILTIN_TYPES_COUNT" and "reads (variant_rest T calloc dec k array dims) bs v"
  shows "reads (Variant_decodeBinary T calloc dec) (m # bs) v"
proof -
  have k: "\<not> k > UA_TYPES_DIAGNOSTICINFO" using assms(2) by (simp add: UA_BUILTIN_TYPES_COUNT_def UA_TYPES_DIAGNOSTICINFO_def)
  have "reads (Variant_decodeBinary T calloc dec) ([m] @ bs) v"
    unfolding Variant_decodeBinary_def [abs_def]
    by (rule reads_bind [OF integers_read(2)])
      (use assms(1,3) k in \<open>simp add: mask_bits_ok_def UA_STATUSCODE_GOOD_def variant_rest_def [abs_def] Let_def cong: if_cong\<close>)
  then show ?thesis by simp
qed

lemma reads_variant_array:
  assumes t: "type_at T (Standard, k) = Some t" and dims: "array_small dims" "standard_ok T" and calloc: "\<And>n. calloc n"
    and a: "reads (Array_decodeBinary calloc (type_sizes.truncate t) (value_at (nesting T) T (Standard, k)) (dec (Standard, k)) NullArray) bs a"
  shows "reads (variant_rest T calloc dec k True (0 < length (arr_list dims)))
      (bs @ (if 0 < length (arr_list dims) then bin_array (le_bytes 4) dims else []))
      (array_variant (Standard, k) a (if 0 < length (arr_list dims) then dims else NullArray))"
proof (cases "0 < length (arr_list dims)")
  case True
  obtain t32 where t32: "type_at T (Standard, UA_TYPES_INT32) = Some t32"
    "reads (Array_decodeBinary calloc (type_sizes.truncate t32) le_word (Int32_decodeBinary 0) NullArray) (bin_array (le_bytes 4) dims) (norm_array (\<lambda>x. x) dims)"
    using reads_dims [of dims T calloc, OF dims calloc] by (elim exE conjE)
  have same: "norm_array (\<lambda>x. x) dims = dims" using True by auto
  have "variant_rest T calloc dec k True True = (\<lambda>st. Array_decodeBinary calloc (type_sizes.truncate t) (value_at (nesting T) T (Standard, k)) (dec (Standard, k)) NullArray st \<bind>
      (\<lambda>(r1, a, st). Array_decodeBinary calloc (type_sizes.truncate t32) le_word (Int32_decodeBinary 0) NullArray st \<bind>
      (\<lambda>(r2, dims, st). Some (r1 OR r2, array_variant (Standard, k) a dims, st))))"
    by (rule ext) (simp add: variant_rest_def t t32(1))
  then show ?thesis using reads_then [OF a t32(2) [unfolded same], where f = "array_variant (Standard, k)"] True by simp
next
  case False
  from reads_map [OF a, where f = "\<lambda>a. array_variant (Standard, k) a NullArray"] show ?thesis
    using False t by (simp add: variant_rest_def [abs_def])
qed

lemma reads_unwrapped:
  assumes "wrap_ok T p v" and "reads (dec p) bs w" and calloc: "\<And>n. calloc n"
  shows "reads (Variant_decodeBinaryUnwrapExtensionObject T calloc dec) (bin_wrapped T p v bs) (Variant_v (Some p) 0 (Elements [w]) NullArray)"
proof -
  obtain t where t: "type_at T p = Some t" "findDataTypeByBinary T (binary_id t) = Some p"
    using assms(1) by (auto simp: wrap_ok_def split: option.splits)
  define K where "K old i encoding st = (case case if encoding = body_code BYTESTRING_BODY then findDataTypeByBinary T i else None of
        None \<Rightarrow> ((Standard, UA_TYPES_EXTENSIONOBJECT), st\<lparr>dpos := old\<rparr>) | Some p \<Rightarrow> (p, st\<lparr>dpos := dpos st + 4\<rparr>) of
      (p, st) \<Rightarrow> do { t \<leftarrow> type_at T p;
        if \<not> calloc (memSize t) then Some (UA_STATUSCODE_BADOUTOFMEMORY, Variant_v (Some p) 0 NullArray NullArray, st)
        else do { (rv, v, st) \<leftarrow> dec p st;
                  Some (rv, Variant_v (Some p) 0 (if rv \<noteq> UA_STATUSCODE_GOOD then NullArray else Elements [v]) NullArray, st) } })"
    for old i encoding st
  let ?ext = "Variant_v (Some (Standard, UA_TYPES_EXTENSIONOBJECT)) 0 NullArray NullArray" and ?v = "Variant_v (Some p) 0 (Elements [w]) NullArray"
  let ?U = "\<lambda>old st. NodeId_decodeBinary calloc zero_nodeid st \<bind> (\<lambda>(rv, i, st). if rv \<noteq> UA_STATUSCODE_GOOD then Some (rv, ?ext, st)
      else Byte_decodeBinary 0 st \<bind> (\<lambda>(rv, encoding, st). if rv \<noteq> UA_STATUSCODE_GOOD then Some (rv, ?ext, st) else K old i encoding st))"
  let ?len = "le_bytes 4 (of_nat (UA_calcSizeBinary T p v) :: u32)"
  have "reads (\<lambda>st. dec p (st\<lparr>dpos := dpos st + 4\<rparr>)) (?len @ bs) w"
    by (rule reads_skip [OF assms(2)]) simp
  then have "reads (\<lambda>st. dec p (st\<lparr>dpos := dpos st + 4\<rparr>) \<bind> (\<lambda>(rv, v, st).
      Some (rv, Variant_v (Some p) 0 (if rv \<noteq> UA_STATUSCODE_GOOD then NullArray else Elements [v]) NullArray, st)))
      ((?len @ bs) @ []) ?v"
    by (rule reads_bind) (simp add: reads_nothing UA_STATUSCODE_GOOD_def)
  then have "reads (K old (binary_id t) 1) (?len @ bs) ?v" for old by (simp add: K_def [abs_def] t calloc body_code_def)
  then have "reads (\<lambda>st. Byte_decodeBinary 0 st \<bind> (\<lambda>(rv, encoding, st). if rv \<noteq> UA_STATUSCODE_GOOD then Some (rv, ?ext, st)
      else K old (binary_id t) encoding st)) ([1] @ ?len @ bs) ?v" for old
    by (intro reads_bind [OF integers_read(2)]) (simp add: UA_STATUSCODE_GOOD_def)
  moreover have "reads (NodeId_decodeBinary calloc zero_nodeid) (bin_nodeid (binary_id t)) (binary_id t)"
    using reads_nodeid [of "binary_id t" calloc zero_nodeid] by (simp add: norm_numeric calloc)
  ultimately have all: "reads (?U old) (bin_nodeid (binary_id t) @ [1] @ ?len @ bs) ?v" for old
    by (intro reads_bind [where d = "NodeId_decodeBinary calloc zero_nodeid" and v = "binary_id t"]) (simp_all add: UA_STATUSCODE_GOOD_def)
  have "Variant_decodeBinaryUnwrapExtensionObject T calloc dec st = ?U (dpos st) st" for st
    by (simp add: Variant_decodeBinaryUnwrapExtensionObject_def Let_def K_def cong: if_cong)
  then show ?thesis using all by (simp add: reads_def bin_wrapped_def t)
qed

lemma get_bytes_keeps: "get_bytes n st = Some (bs, st') \<Longrightarrow> dbuf st' = dbuf st"
  by (auto simp: get_bytes_def split: if_splits)

lemma integers_keep:
  "Byte_decodeBinary d2 st = Some (r, x2, st') \<Longrightarrow> dbuf st' = dbuf st"
  "UInt16_decodeBinary d3 st = Some (r, x3, st') \<Longrightarrow> dbuf st' = dbuf st"
  "UInt32_decodeBinary d4 st = Some (r, x4, st') \<Longrightarrow> dbuf st' = dbuf st"
  by (auto simp: Byte_decodeBinary_def UInt16_decodeBinary_def UInt32_decodeBinary_def bind_eq_Some_conv split: if_splits
      dest: get_bytes_keeps)

lemma string_keeps: "String_decodeBinary calloc dst st = Some (r, x, st') \<Longrightarrow> dbuf st' = dbuf st"
  by (auto simp: String_decodeBinary_def Array_decodeBinary_def Int32_decodeBinary_def UA_TYPES_BYTE_def Let_def bind_eq_Some_conv
      split: if_splits dest!: get_bytes_keeps integers_keep)

lemma guid_keeps: "Guid_decodeBinary dst st = Some (r, x, st') \<Longrightarrow> dbuf st' = dbuf st"
  by (auto simp: Guid_decodeBinary_def bind_eq_Some_conv Let_def split: if_splits dest!: get_bytes_keeps integers_keep)

lemma nodeid_keeps: "NodeId_decodeBinary calloc dst st = Some (r, i, st') \<Longrightarrow> dbuf st' = dbuf st"
  by (auto simp: NodeId_decodeBinary_def NodeId_decodeBody_def ByteString_decodeBinary_def bind_eq_Some_conv split: if_splits
      dest!: integers_keep string_keeps guid_keeps)

text \<open>An extension object that is not of a known type is read from its beginning again.\<close>

lemma reads_not_unwrapped:
  assumes i: "numeric_id i" and e: "e = BYTESTRING_BODY \<longrightarrow> findDataTypeByBinary T i = None"
    and t: "type_at T (Standard, UA_TYPES_EXTENSIONOBJECT) = Some t" and calloc: "\<And>n. calloc n"
    and all: "reads (dec (Standard, UA_TYPES_EXTENSIONOBJECT)) (bin_nodeid i @ body_code e # bs) w"
  shows "reads (Variant_decodeBinaryUnwrapExtensionObject T calloc dec) (bin_nodeid i @ body_code e # bs)
      (Variant_v (Some (Standard, UA_TYPES_EXTENSIONOBJECT)) 0 (Elements [w]) NullArray)"
proof (rule readsI)
  fix st :: decoder and rest
  assume in0: "dpos st \<le> length (dbuf st)" and st: "drop (dpos st) (dbuf st) = (bin_nodeid i @ body_code e # bs) @ rest"
  have "reads (NodeId_decodeBinary calloc zero_nodeid) (bin_nodeid i) i"
    using reads_nodeid [of i calloc zero_nodeid] i by (simp add: norm_numeric numeric_ok calloc)
  then obtain st1 where st1: "NodeId_decodeBinary calloc zero_nodeid st = Some (0, i, st1)" "consumed (length (bin_nodeid i)) st st1"
    using readsD [OF _ in0, of _ "bin_nodeid i" i "body_code e # bs @ rest"] st by auto
  have "drop (dpos st1) (dbuf st1) = [body_code e] @ bs @ rest" "dpos st1 \<le> length (dbuf st1)"
    using st1(2) drop_append_drop [of "dpos st" "dbuf st" "bin_nodeid i" "body_code e # bs @ rest"] st input_length [OF in0 st]
    by (simp_all add: consumed_def)
  then obtain st2 where st2: "Byte_decodeBinary 0 st1 = Some (0, body_code e, st2)" using readsD [OF integers_read(2)] by blast
  have same: "st2\<lparr>dpos := dpos st\<rparr> = st" using nodeid_keeps [OF st1(1)] integers_keep(1) [OF st2] by (cases st2) simp
  have none: "(if body_code e = body_code BYTESTRING_BODY then findDataTypeByBinary T i else None) = None"
    using e by (cases e) (simp_all add: body_code_def)
  obtain st3 where st3: "dec (Standard, UA_TYPES_EXTENSIONOBJECT) st = Some (0, w, st3)" "consumed (length (bin_nodeid i @ body_code e # bs)) st st3"
    using readsD [OF all in0 st] by blast
  have "Variant_decodeBinaryUnwrapExtensionObject T calloc dec st
      = Some (0, Variant_v (Some (Standard, UA_TYPES_EXTENSIONOBJECT)) 0 (Elements [w]) NullArray, st3)"
    using none st1(1) st2 st3(1) t calloc same by (simp add: Variant_decodeBinaryUnwrapExtensionObject_def UA_STATUSCODE_GOOD_def)
  then show "\<exists>st'. Variant_decodeBinaryUnwrapExtensionObject T calloc dec st
      = Some (0, Variant_v (Some (Standard, UA_TYPES_EXTENSIONOBJECT)) 0 (Elements [w]) NullArray, st')
      \<and> consumed (length (bin_nodeid i @ body_code e # bs)) st st'" using st3(2) by blast
qed

section \<open>Diagnostics and structures\<close>

lemma reads_option_map:
  assumes "\<And>v. x = Some v \<Longrightarrow> reads dec (bin v) (f v)" and "b \<longleftrightarrow> x \<noteq> None"
  shows "reads (decode_option dec b) (bin_option bin x) (map_option f x)"
proof (cases x)
  case (Some v)
  with assms show ?thesis using reads_map [of dec "bin v" "f v" Some] by (simp add: decode_option_def [abs_def] bin_option_def)
qed (use assms in \<open>simp add: reads_def decode_option_def bin_option_def\<close>)

lemmas reads_option_same = reads_option_map [where f = "\<lambda>v. v", simplified option.map_ident]

lemma flag_bits:
  "(flag 0 a OR flag 1 b OR flag 2 c OR flag 3 d OR flag 4 e OR flag 5 f) AND 1 \<noteq> 0 \<longleftrightarrow> a \<noteq> None"
  "(flag 0 a OR flag 1 b OR flag 2 c OR flag 3 d OR flag 4 e OR flag 5 f) AND 2 \<noteq> 0 \<longleftrightarrow> b \<noteq> None"
  "(flag 0 a OR flag 1 b OR flag 2 c OR flag 3 d OR flag 4 e OR flag 5 f) AND 4 \<noteq> 0 \<longleftrightarrow> c \<noteq> None"
  "(flag 0 a OR flag 1 b OR flag 2 c OR flag 3 d OR flag 4 e OR flag 5 f) AND 8 \<noteq> 0 \<longleftrightarrow> d \<noteq> None"
  "(flag 0 a OR flag 1 b OR flag 2 c OR flag 3 d OR flag 4 e OR flag 5 f) AND 0x10 \<noteq> 0 \<longleftrightarrow> e \<noteq> None"
  "(flag 0 a OR flag 1 b OR flag 2 c OR flag 3 d OR flag 4 e OR flag 5 f) AND 0x20 \<noteq> 0 \<longleftrightarrow> f \<noteq> None"
  "(flag 0 a OR flag 1 b OR flag 2 c OR flag 3 d OR flag 4 e OR flag 5 f) AND 0x40 = 0"
  by (simp_all add: flag_def)

lemma reads_plain_diagnostic:
  assumes "plain_diagnostic x" and calloc: "\<And>n. calloc n"
  shows "reads (DiagnosticInfo_decodeBinary size_of calloc (Suc depth)) (bin_diagnostic x) (norm_diagnostic x)"
proof -
  obtain sy uri tx loc add where x: "x = DiagnosticInfo sy uri tx loc add None None"
    using assms(1) by (cases x) auto
  let ?m = "diagnostic_mask x"
  have small: "\<And>s. add = Some s \<Longrightarrow> array_small s" using assms(1) x by simp
  have bits: "?m AND 1 \<noteq> 0 \<longleftrightarrow> sy \<noteq> None" "?m AND 2 \<noteq> 0 \<longleftrightarrow> uri \<noteq> None" "?m AND 4 \<noteq> 0 \<longleftrightarrow> tx \<noteq> None" "?m AND 8 \<noteq> 0 \<longleftrightarrow> loc \<noteq> None"
    "?m AND 0x10 \<noteq> 0 \<longleftrightarrow> add \<noteq> None" "?m AND 0x20 \<noteq> 0 \<longleftrightarrow> (None :: UA_DiagnosticInfo option) \<noteq> None" "?m AND 0x40 = 0"
    unfolding x diagnostic_mask_def UA_DiagnosticInfo.sel by (rule flag_bits)+
  have w: "reads (decode_option (Int32_decodeBinary 0) b) (bin_option (le_bytes 4) y) y" if "b \<longleftrightarrow> y \<noteq> None" for b y
    by (rule reads_option_same) (simp_all add: words_read that)
  have info: "reads (decode_option (String_decodeBinary calloc NullArray) (?m AND 0x10 \<noteq> 0)) (bin_option bin_string add) (map_option norm_string add)"
    by (rule reads_option_map) (use small calloc bits(5) strings_read(1) in auto)
  have none: "reads (decode_option (StatusCode_decodeBinary 0) (?m AND 0x20 \<noteq> 0)) [] None" using bits(6) by (simp add: reads_def decode_option_def)
  have "reads (DiagnosticInfo_decodeBinary size_of calloc (Suc depth))
     ([?m] @ bin_option (le_bytes 4) sy @ bin_option (le_bytes 4) uri @ bin_option (le_bytes 4) tx @ bin_option (le_bytes 4) loc @ bin_option bin_string add @ [] @ [])
     (DiagnosticInfo sy uri tx loc (map_option norm_string add) None None)"
    unfolding DiagnosticInfo_decodeBinary.simps [abs_def]
    by (rule reads_bind [OF integers_read(2)], subst if_not_P, simp add: UA_STATUSCODE_GOOD_def)
      (intro reads_bind [OF w [OF bits(1)]] reads_bind [OF w [OF bits(2)]] reads_bind [OF w [OF bits(3)]] reads_bind [OF w [OF bits(4)]]
        reads_bind [OF info] reads_bind [OF none], simp add: Let_def bits(7) reads_nothing)
  then show ?thesis by (simp add: x bin_words_def [abs_def] bin_option_def)
qed

lemma reads_members:
  assumes "members_ok T ok p ms" and "type_at T p = Some t" and calloc: "\<And>n. calloc n"
    and dec: "\<And>m x q. m \<in> set ms \<Longrightarrow> x \<in> set (member_values m) \<Longrightarrow> ok q x \<Longrightarrow> reads (dec q) (bin_value T x) (norm_value T x)"
  shows "reads (members_decodeBinary T calloc dec p (members t)) (concat (map (bin_member (bin_value T)) ms)) (map (norm_member (norm_value T)) ms)"
proof -
  have one: "reads (member_decodeBinary T calloc dec p d) (bin_member (bin_value T) m) (norm_member (norm_value T) m)"
    if ok: "member_ok T ok p d m" and "m \<in> set ms" for d m
  proof -
    obtain q u where q: "member_type T p d = Some q" "type_at T q = Some u" by (rule member_okE [OF ok])
    show ?thesis
    proof (cases m)
      case (Single v)
      then have "reads (dec q) (bin_value T v) (norm_value T v)" using ok q dec [of m v q] that(2) by (simp add: member_ok_def)
      from reads_map [OF this, where f = Single] show ?thesis
        using Single ok q by (simp add: member_decodeBinary_def [abs_def] member_ok_def bin_member_def norm_member_def)
    next
      case (ArrayOf a)
      have "reads (Array_decodeBinary calloc (type_sizes.truncate u) (value_at (nesting T) T q) (dec q) NullArray) (bin_array (bin_value T) a) (norm_array (norm_value T) a)"
        by (rule reads_elements_at) (use ok q ArrayOf dec that(2) assms(3) calloc in \<open>auto simp: member_ok_def\<close>)
      from reads_map [OF this, where f = ArrayOf] show ?thesis
        using ArrayOf ok q by (simp add: member_decodeBinary_def [abs_def] member_ok_def bin_member_def norm_member_def)
    qed
  qed
  have "reads (members_decodeBinary T calloc dec p ds) (concat (map (bin_member (bin_value T)) xs)) (map (norm_member (norm_value T)) xs)"
    if "length ds = length xs" "\<forall>(d, m)\<in>set (zip ds xs). member_ok T ok p d m" "set xs \<subseteq> set ms" for ds xs
    using that
  proof (induction ds xs rule: list_induct2)
    case Nil
    then show ?case by (simp add: reads_def UA_STATUSCODE_GOOD_def members_decodeBinary.simps [abs_def])
  next
    case (Cons d ds m xs)
    from reads_then [OF one [of d m] Cons.IH, where f = "(#)"] Cons(3,4) show ?case by (simp add: members_decodeBinary.simps [abs_def])
  qed
  then show ?thesis using assms(1,2) by (simp add: members_ok_def)
qed

lemma reads_data_value:
  assumes val: "\<And>v. val = Some v \<Longrightarrow> reads (Variant_decodeBinary T calloc dec) (bin_value T v) (norm_value T v)"
  shows "reads (DataValue_decodeBinary T calloc dec) (bin_value T (DataValue_v val st sts vts sps vps)) (norm_value T (DataValue_v val st sts vts sps vps))"
proof -
  let ?m = "DataValue_mask val st sts vts sps vps"
  have bits: "?m AND 1 \<noteq> 0 \<longleftrightarrow> val \<noteq> None" "?m AND 2 \<noteq> 0 \<longleftrightarrow> st \<noteq> None" "?m AND 4 \<noteq> 0 \<longleftrightarrow> sts \<noteq> None" "?m AND 8 \<noteq> 0 \<longleftrightarrow> vts \<noteq> None"
    "?m AND 0x10 \<noteq> 0 \<longleftrightarrow> sps \<noteq> None" "?m AND 0x20 \<noteq> 0 \<longleftrightarrow> vps \<noteq> None"
    unfolding DataValue_mask_def by (rule flag_bits)+
  have 1: "reads (decode_option (Variant_decodeBinary T calloc dec) (?m AND 1 \<noteq> 0)) (bin_option (bin_value T) val) (map_option (norm_value T) val)"
    by (rule reads_option_map) (use val bits(1) in auto)
  have 2: "reads (decode_option (StatusCode_decodeBinary 0) (?m AND 2 \<noteq> 0)) (bin_option (le_bytes 4) st) st"
    by (rule reads_option_same) (use bits(2) words_read in auto)
  have time: "reads (decode_option (DateTime_decodeBinary 0) b) (bin_option (le_bytes 8) y) y" if "b \<longleftrightarrow> y \<noteq> None" for b y
    by (rule reads_option_same) (use that words_read in auto)
  have pico: "reads (decode_option (decode_picoseconds 0) b) (bin_option (le_bytes 2) y) (map_option clamp y)" if "b \<longleftrightarrow> y \<noteq> None" for b y
    by (rule reads_option_map)
      (use that reads_map [OF integers_read(3), where f = clamp] in \<open>simp_all add: decode_picoseconds_def [abs_def] clamp_def [abs_def]\<close>)
  have "reads (DataValue_decodeBinary T calloc dec) ([?m] @ bin_option (bin_value T) val @ bin_option (le_bytes 4) st @ bin_option (le_bytes 8) sts
      @ bin_option (le_bytes 2) sps @ bin_option (le_bytes 8) vts @ bin_option (le_bytes 2) vps @ [])
      (DataValue_v (map_option (norm_value T) val) st sts vts (map_option clamp sps) (map_option clamp vps))"
    unfolding DataValue_decodeBinary_def [abs_def]
    by (rule reads_bind [OF integers_read(2)], subst if_not_P, simp add: UA_STATUSCODE_GOOD_def)
      (intro reads_bind [OF 1] reads_bind [OF 2] reads_bind [OF time [OF bits(3)]] reads_bind [OF pico [OF bits(5)]] reads_bind [OF time [OF bits(4)]]
        reads_bind [OF pico [OF bits(6)]], simp add: reads_nothing)
  then show ?thesis by simp
qed

section \<open>All types\<close>

lemma reads_codec:
  assumes "codec_at T p = Some c" and "\<And>t. type_at T p = Some t \<Longrightarrow> reads (decode_as (Suc k) T calloc (UA_decodeType k T calloc) c t p) bs w"
  shows "reads (UA_decodeType (Suc k) T calloc p) bs w"
proof -
  obtain t where "type_at T p = Some t" "load encodeBinaryJumpTable (index_of t) = Some c" using codec_atE [OF assms(1)] by blast
  then show ?thesis using assms(2) by (simp add: reads_def same_tables)
qed

lemma reads_decoded: "reads d bs v \<Longrightarrow> reads (\<lambda>st. decoded_as f (d st)) bs (f v)"
  unfolding reads_def decoded_as_def by fastforce

lemma only_extension: "\<forall>k\<in>set [0..<25]. k \<noteq> UA_TYPES_EXTENSIONOBJECT \<longrightarrow> encodeBinaryJumpTable ! k \<noteq> ExtensionObjectC"
  by code_simp

lemma codec_standard:
  assumes "standard_ok T" and "k < UA_BUILTIN_TYPES_COUNT"
  shows "codec_at T (Standard, k) = Some (encodeBinaryJumpTable ! k)"
proof -
  obtain t where "type_at T (Standard, k) = Some t" "builtin t" "typeIndex t = k"
    using assms by (auto simp: standard_ok_def split: option.splits)
  then show ?thesis using assms(2) by (simp add: codec_at_def index_of_def UA_BUILTIN_TYPES_COUNT_def encodeBinaryJumpTable_def)
qed

lemma codec_extension:
  assumes "standard_ok T" and "k < UA_BUILTIN_TYPES_COUNT"
  shows "codec_at T (Standard, k) = Some ExtensionObjectC \<longleftrightarrow> k = UA_TYPES_EXTENSIONOBJECT"
proof -
  have "encodeBinaryJumpTable ! UA_TYPES_EXTENSIONOBJECT = ExtensionObjectC" by code_simp
  then show ?thesis using codec_standard [OF assms] only_extension assms(2) by (auto simp: UA_BUILTIN_TYPES_COUNT_def)
qed

lemma scalar_other:
  "encodable T p x \<Longrightarrow> codec_at T p \<noteq> Some ExtensionObjectC \<Longrightarrow> scalar_variant h (norm_value T x) = Variant_v (Some h) 0 (Elements [norm_value T x]) NullArray"
  by (cases "(T, x)" rule: norm_value.cases) (auto simp: scalar_variant_def zero_variant_def extension_array_def split: option.split uvalue.split)

lemma size_wrapped: "x \<in> set (arr_list d) \<Longrightarrow> size (Decoded_v nd ty (Some x)) < size (Variant_v ty' n d dims)" for x :: uvalue
proof -
  have "size x < size_list size xs" if "x \<in> set xs" for xs :: "uvalue list" using that by (induction xs) auto
  then show "x \<in> set (arr_list d) \<Longrightarrow> size (Decoded_v nd ty (Some x)) < size (Variant_v ty' n d dims)" by (cases d) auto
qed

lemma reads_builtin_scalar:
  assumes std: "standard_ok T" and k: "k < UA_BUILTIN_TYPES_COUNT" and calloc: "\<And>n. calloc n" and x: "encodable T (Standard, k) x"
    and dec: "\<And>q y. size y \<le> size x \<Longrightarrow> encodable T q y \<Longrightarrow> reads (dec q) (bin_value T y) (norm_value T y)"
  shows "reads (variant_rest T calloc dec k False False) (bin_value T x) (scalar_variant (Standard, k) (norm_value T x))"
proof -
  obtain t where t: "type_at T (Standard, k) = Some t" using std k by (auto simp: standard_ok_def split: option.splits)
  note own = dec [OF order_refl x]
  show ?thesis
  proof (cases "k = UA_TYPES_EXTENSIONOBJECT")
    case True
    then have rest: "variant_rest T calloc dec UA_TYPES_EXTENSIONOBJECT False False = Variant_decodeBinaryUnwrapExtensionObject T calloc dec"
      using t by (simp add: variant_rest_def [abs_def])
    have "codec_at T (Standard, k) = Some ExtensionObjectC" using codec_extension [OF std k] True by simp
    then consider (encoded) e i body where "x = Encoded_v e i body" | (decoded) nd q y where "x = Decoded_v nd (Some q) (Some y)"
      using x by (cases "(T, x)" rule: norm_value.cases; cases x) auto
    then show ?thesis
    proof cases
      case encoded
      have "reads (Variant_decodeBinaryUnwrapExtensionObject T calloc dec) (bin_nodeid i @ body_code e # (if e = NOBODY then [] else bin_string body))
          (Variant_v (Some (Standard, UA_TYPES_EXTENSIONOBJECT)) 0 (Elements [norm_value T x]) NullArray)"
        by (rule reads_not_unwrapped) (use x t own calloc encoded True in simp_all)
      then show ?thesis using encoded True by (simp add: rest scalar_variant_def)
    next
      case decoded
      have "reads (dec q) (bin_value T y) (norm_value T y)" by (rule dec) (use x decoded in simp_all)
      from reads_unwrapped [where T = T and p = q and v = y and dec = dec and calloc = calloc, OF _ this calloc] show ?thesis using x decoded True by (simp add: rest scalar_variant_def)
    qed
  next
    case False
    have "scalar_variant (Standard, k) (norm_value T x) = Variant_v (Some (Standard, k)) 0 (Elements [norm_value T x]) NullArray"
      by (rule scalar_other [OF x]) (use codec_extension [OF std k] False in simp)
    with reads_map [OF own, where f = "\<lambda>v. Variant_v (Some (Standard, k)) 0 (Elements [v]) NullArray"] show ?thesis
      using False t calloc by (simp add: variant_rest_def [abs_def])
  qed
qed

lemma reads_builtin_variant:
  assumes std: "standard_ok T" and calloc: "\<And>n. calloc n"
    and v: "v = Variant_v (Some p) n d dims" and enc: "encodable T q v" and t: "type_at T p = Some t" "builtin t"
    and dec: "\<And>q x. size x < size v \<Longrightarrow> encodable T q x \<Longrightarrow> reads (dec q) (bin_value T x) (norm_value T x)"
  shows "reads (Variant_decodeBinary T calloc dec) (bin_value T v) (norm_value T v)"
proof -
  let ?k = "typeIndex t"
  have home: "home T p = (Standard, ?k)" using t by (simp add: home_def)
  have ok: "variant_ok T p n d dims" and els: "\<forall>x\<in>set (arr_list d). encodable T (Standard, ?k) x" using enc v home by auto
  have k: "?k < UA_BUILTIN_TYPES_COUNT" and shape: "if is_array n d then n = length (arr_list d) \<and> n \<le> UA_INT32_MAX else single d"
    and dims: "array_small dims" using ok t by (simp_all add: variant_ok_def indexed_def)
  have bits: "mask_bits_ok ?k (is_array n d) (is_array n d \<and> 0 < length (arr_list dims)) (variant_mask t n d dims)"
    by (rule variant_mask_bits) (use t k in simp_all)
  have smaller: "size x < size v" if "x \<in> set (arr_list d)" for x using size_parts [of x v] that v by simp
  show ?thesis
  proof (cases "is_array n d")
    case True
    obtain t' where t': "type_at T (Standard, ?k) = Some t'" using ok t by (auto simp: variant_ok_def indexed_def)
    have a: "reads (Array_decodeBinary calloc (type_sizes.truncate t') (value_at (nesting T) T (Standard, ?k)) (dec (Standard, ?k)) NullArray)
        (bin_array (bin_value T) d) (norm_array (norm_value T) d)"
      by (rule reads_elements_at) (use ok t True t' assms(3) calloc els dec smaller in \<open>auto simp: variant_ok_def\<close>)
    have bits': "mask_bits_ok ?k True (0 < length (arr_list dims)) (variant_mask t n d dims)" using bits True by simp
    have "reads (Variant_decodeBinary T calloc dec)
        (variant_mask t n d dims # bin_array (bin_value T) d @ (if 0 < length (arr_list dims) then bin_array (le_bytes 4) dims else []))
        (array_variant (Standard, ?k) (norm_array (norm_value T) d) (if 0 < length (arr_list dims) then dims else NullArray))"
      by (rule reads_variant_mask [OF bits' k]) (rule reads_variant_array [where calloc = calloc and T = T and k = ?k and dec = dec, OF t' dims std calloc a])
    then show ?thesis using True shape t by (simp add: v home bin_dims_def norm_dims_def array_variant_def)
  next
    case False
    then obtain x where x: "d = Elements [x]" using shape by (auto simp: single_iff)
    have "reads (variant_rest T calloc dec ?k False False) (bin_value T x) (scalar_variant (Standard, ?k) (norm_value T x))"
      by (rule reads_builtin_scalar [OF std k calloc]) (use els x smaller [of x] in \<open>auto intro!: dec\<close>)
    moreover have "mask_bits_ok ?k False False (variant_mask t n d dims)" using bits False by simp
    ultimately have "reads (Variant_decodeBinary T calloc dec) (variant_mask t n d dims # bin_value T x) (scalar_variant (Standard, ?k) (norm_value T x))"
      using reads_variant_mask k by blast
    then show ?thesis
      using False t x by (simp add: v home bin_dims_def)
  qed
qed

lemma reads_wrapped_variant:
  assumes std: "standard_ok T" and calloc: "\<And>n. calloc n"
    and v: "v = Variant_v (Some p) n d dims" and enc: "encodable T q v" and t: "type_at T p = Some t" "\<not> builtin t"
    and dec: "\<And>q x. size x < size v \<Longrightarrow> encodable T q x \<Longrightarrow> reads (dec q) (bin_value T x) (norm_value T x)"
  shows "reads (Variant_decodeBinary T calloc dec) (bin_value T v) (norm_value T v)"
proof -
  let ?k = "UA_TYPES_EXTENSIONOBJECT"
  have ok: "variant_ok T p n d dims" and els: "\<forall>x\<in>set (arr_list d). encodable T p x" using enc v by auto
  have shape: "if is_array n d then n = length (arr_list d) \<and> n \<le> UA_INT32_MAX else single d"
    and dims: "array_small dims" and wraps: "\<forall>x\<in>set (arr_list d). wrap_ok T p x" using ok t by (simp_all add: variant_ok_def)
  have k: "?k < UA_BUILTIN_TYPES_COUNT" by (simp add: UA_TYPES_EXTENSIONOBJECT_def UA_BUILTIN_TYPES_COUNT_def)
  then obtain e where e: "type_at T (Standard, ?k) = Some e" "\<not> overlayable e" using std by (auto simp: standard_ok_def split: option.splits)
  have bits: "mask_bits_ok ?k (is_array n d) (is_array n d \<and> 0 < length (arr_list dims)) (variant_mask t n d dims)"
    by (rule variant_mask_bits) (use t k in simp_all)
  show ?thesis
  proof (cases "is_array n d")
    case True
    define xs where "xs = map (\<lambda>x. Decoded_v False (Some p) (Some x)) (arr_list d)"
    define a where "a = (if arr_list d = [] then EmptySentinel else Elements xs)"
    have a_list: "arr_list a = xs" by (simp add: a_def xs_def)
    have codec: "codec_at T (Standard, ?k) = Some ExtensionObjectC" using codec_extension [OF std k] by simp
    have "reads (Array_decodeBinary calloc (type_sizes.truncate e) (value_at (nesting T) T (Standard, ?k)) (dec (Standard, ?k)) NullArray)
        (bin_array (bin_value T) a) (norm_array (norm_value T) a)"
    proof (rule reads_array [OF _ calloc])
      show "array_small a" using shape True by (simp add: array_small_def a_list xs_def)
      have "reads (dec (Standard, ?k)) (bin_value T (Decoded_v False (Some p) (Some x))) (norm_value T (Decoded_v False (Some p) (Some x)))"
        if "x \<in> set (arr_list d)" for x
        by (rule dec) (use size_wrapped [OF that] that els wraps codec v in simp_all)
      moreover have "memSize e * length (arr_list d) div 32 \<le> length (concat (map (\<lambda>v. bin_wrapped T p v (bin_value T v)) (arr_list d)))"
        using ok t True e(1) by (auto simp: variant_ok_def)
      ultimately show "memSize (type_sizes.truncate e) * length (arr_list a) div 32 \<le> length (concat (map (bin_value T) (arr_list a))) \<and>
          (\<forall>x\<in>set (arr_list a). reads (dec (Standard, ?k)) (bin_value T x) (norm_value T x))"
        by (simp add: a_list xs_def comp_def)
    qed (use e(2) in simp)
    note arr = reads_variant_array [where calloc = calloc and T = T and k = ?k and dec = dec, OF e(1) dims std calloc this]
    have bits': "mask_bits_ok ?k True (0 < length (arr_list dims)) (variant_mask t n d dims)" using bits True by simp
    have bin: "bin_array (bin_value T) a = le_bytes 4 (of_nat n :: u32) @ concat (map (\<lambda>v. bin_wrapped T p v (bin_value T v)) (arr_list d))"
      using shape True by (auto simp: bin_array_def a_list xs_def comp_def array_length_def a_def)
    have "array_variant (Standard, ?k) (norm_array (norm_value T) a) ds = extension_array p (map (norm_value T) (arr_list d)) ds" for ds
      by (cases "arr_list d") (simp_all add: array_variant_def extension_array_def a_def xs_def)
    then show ?thesis using reads_variant_mask [OF bits' k arr] True t by (simp add: v bin bin_dims_def norm_dims_def)
  next
    case False
    then obtain x where x: "d = Elements [x]" using shape by (auto simp: single_iff)
    have "reads (dec p) (bin_value T x) (norm_value T x)" by (rule dec) (use els x v size_parts [of x v] in auto)
    then have "reads (Variant_decodeBinaryUnwrapExtensionObject T calloc dec) (bin_wrapped T p x (bin_value T x)) (Variant_v (Some p) 0 (Elements [norm_value T x]) NullArray)"
      by (rule reads_unwrapped [OF _ _ calloc, rotated]) (use wraps x in simp)
    then have "reads (variant_rest T calloc dec ?k False False) (bin_wrapped T p x (bin_value T x)) (Variant_v (Some p) 0 (Elements [norm_value T x]) NullArray)"
      using e(1) by (simp add: variant_rest_def [abs_def])
    moreover have "mask_bits_ok ?k False False (variant_mask t n d dims)" using bits False by simp
    ultimately have "reads (Variant_decodeBinary T calloc dec) (variant_mask t n d dims # bin_wrapped T p x (bin_value T x))
        (Variant_v (Some p) 0 (Elements [norm_value T x]) NullArray)" using reads_variant_mask k by blast
    then show ?thesis using False t x by (simp add: v bin_dims_def)
  qed
qed

lemma reads_variant:
  assumes std: "standard_ok T" and calloc: "\<And>n. calloc n" and v: "is_variant v" "encodable T q v"
    and dec: "\<And>q x. size x < size v \<Longrightarrow> encodable T q x \<Longrightarrow> reads (dec q) (bin_value T x) (norm_value T x)"
  shows "reads (Variant_decodeBinary T calloc dec) (bin_value T v) (norm_value T v)"
proof -
  obtain ty n d dims where var: "v = Variant_v ty n d dims" using v(1) by (auto simp: is_variant_def split: uvalue.splits)
  show ?thesis
  proof (cases ty)
    case None
    have "reads (Variant_decodeBinary T calloc dec) ([0] @ []) zero_variant"
      unfolding Variant_decodeBinary_def [abs_def] by (rule reads_bind [OF integers_read(2)]) (simp add: UA_STATUSCODE_GOOD_def reads_nothing)
    then show ?thesis using None var by simp
  next
    case (Some p)
    then have v': "v = Variant_v (Some p) n d dims" using var by simp
    obtain t where t: "type_at T p = Some t" using v(2) v' by (auto simp: variant_ok_def split: option.splits)
    show ?thesis
    proof (cases "builtin t")
      case True
      show ?thesis by (rule reads_builtin_variant [OF std calloc v' v(2) t True dec])
    next
      case False
      show ?thesis by (rule reads_wrapped_variant [OF std calloc v' v(2) t False dec])
    qed
  qed
qed

lemma reads_zero_expanded:
  "expanded_ok x \<Longrightarrow> (\<And>n. calloc n) \<Longrightarrow> reads (ExpandedNodeId_decodeBinary calloc zero_expandednodeid) (bin_expanded x) (norm_expanded x)"
proof -
  have "zero_expandednodeid = zero_expanded" by (simp add: zero_expandednodeid_def zero_expanded_def zero_nodeid_def)
  then show "expanded_ok x \<Longrightarrow> (\<And>n. calloc n) \<Longrightarrow> reads (ExpandedNodeId_decodeBinary calloc zero_expandednodeid) (bin_expanded x) (norm_expanded x)"
    using reads_expanded [of x calloc] by simp
qed

lemma reads_typed:
  "encodable T p v \<Longrightarrow> standard_ok T \<Longrightarrow> size v < depth \<Longrightarrow> (\<And>n. calloc n) \<Longrightarrow>
   reads (UA_decodeType depth T calloc p) (bin_value T v) (norm_value T v)"
proof (induction "size v" arbitrary: p v depth rule: less_induct)
  case less
  note std = less.prems(2) and calloc = less.prems(4)
  obtain k where k: "depth = Suc k" using less.prems(3) by (cases depth) auto
  let ?dec = "UA_decodeType k T calloc"
  have dec: "reads (?dec q) (bin_value T x) (norm_value T x)" if "size x < size v" "encodable T q x" for q x
    by (rule less.hyps [OF that std _ calloc]) (use that less.prems(3) k in simp)
  note leaf = reads_codec [where T = T and p = p and k = k and calloc = calloc]
  show ?case unfolding k
  proof (cases v)
    case (Encoded_v e i body)
    then show "reads (UA_decodeType (Suc k) T calloc p) (bin_value T v) (norm_value T v)"
      using less.prems(1) reads_encoded [where T = T and i = i and body = body and e = e and calloc = calloc and dec = ?dec] calloc
      by (auto simp del: bin_value.simps norm_value.simps intro!: leaf simp: decode_as_def [abs_def])
  next
    case (Decoded_v nd ty d)
    then obtain q x where q: "ty = Some q" "d = Some x" using less.prems(1) by (cases ty; cases d) auto
    have "reads (?dec q) (bin_value T x) (norm_value T x)" by (rule dec) (use Decoded_v q less.prems(1) in auto)
    from reads_wrapped [where T = T and p = q and v = x and dec = ?dec and calloc = calloc, OF _ this calloc]
    show "reads (UA_decodeType (Suc k) T calloc p) (bin_value T v) (norm_value T v)"
      using Decoded_v q less.prems(1) by (auto intro!: leaf simp: decode_as_def [abs_def])
  next
    case (Variant_v ty n d dims)
    have "reads (Variant_decodeBinary T calloc ?dec) (bin_value T v) (norm_value T v)"
      by (rule reads_variant [OF std calloc _ less.prems(1)]) (use dec Variant_v in \<open>auto simp: is_variant_def\<close>)
    moreover have "codec_at T p = Some VariantC" using less.prems(1) Variant_v by (cases ty) simp_all
    ultimately show "reads (UA_decodeType (Suc k) T calloc p) (bin_value T v) (norm_value T v)"
      by (auto intro!: leaf simp: decode_as_def [abs_def])
  next
    case (DataValue_v val st sts vts sps vps)
    have "reads (Variant_decodeBinary T calloc ?dec) (bin_value T x) (norm_value T x)" if "val = Some x" for x
    proof -
      have x: "is_variant x" "encodable T (Standard, UA_TYPES_VARIANT) x" using less.prems(1) that DataValue_v by simp_all
      show ?thesis by (rule reads_variant [OF std calloc x]) (use dec DataValue_v that in auto)
    qed
    from reads_data_value [where val = val and T = T and calloc = calloc and dec = ?dec, OF this]
    show "reads (UA_decodeType (Suc k) T calloc p) (bin_value T v) (norm_value T v)"
      using less.prems(1) DataValue_v by (auto simp del: bin_value.simps norm_value.simps intro!: leaf simp: decode_as_def [abs_def])
  next
    case (Struct_v ms)
    have "reads (members_decodeBinary T calloc ?dec p (members t)) (concat (map (bin_member (bin_value T)) ms)) (map (norm_member (norm_value T)) ms)"
      if "type_at T p = Some t" for t
      by (rule reads_members [of _ "encodable T"]) (use Struct_v less.prems(1) that calloc size_members [of _ ms] in \<open>auto intro!: dec\<close>)
    from reads_decoded [OF this, where f = Struct_v]
    show "reads (UA_decodeType (Suc k) T calloc p) (bin_value T v) (norm_value T v)"
      using Struct_v less.prems(1) by (auto intro!: leaf simp: decode_as_def [abs_def])
  qed (use less.prems(1) in \<open>auto intro!: leaf reads_decoded integers_read strings_read reads_guid reads_plain_diagnostic calloc
      reads_nodeid reads_zero_expanded reads_text simp: decode_as_def [abs_def] simp del: DiagnosticInfo_decodeBinary.simps norm_same\<close>)
qed

end
