(* ===== verification/UAValueTyping.thy ===== *)
theory UAValueTyping
  imports UATypedRead
begin

text \<open>
  The values that the decoders make of arbitrary bytes are well typed: a type system for \<open>uvalue\<close>, and one rule per decoder
  that what it gives with the status \<open>UA_STATUSCODE_GOOD\<close> has the type of the place it is for.
\<close>

section \<open>Typed values\<close>

text \<open>A structure has one value per member of its type, an array exactly at the array members. The data of a variant are as many
  elements as it says, all of its type. What an extension object holds has the type it names.\<close>

definition member_typed :: "type_tables \<Rightarrow> (type_ptr \<Rightarrow> uvalue \<Rightarrow> bool) \<Rightarrow> type_ptr \<Rightarrow> UA_DataTypeMember \<Rightarrow> uvalue member \<Rightarrow> bool" where
  "member_typed T ty p d m \<longleftrightarrow> (case member_type T p d of
     None \<Rightarrow> False
   | Some q \<Rightarrow> isArray d = (case m of Single v \<Rightarrow> False | ArrayOf a \<Rightarrow> True) \<and> (\<forall>x\<in>set (member_values m). ty q x))"

definition members_typed :: "type_tables \<Rightarrow> (type_ptr \<Rightarrow> uvalue \<Rightarrow> bool) \<Rightarrow> type_ptr \<Rightarrow> uvalue member list \<Rightarrow> bool" where
  "members_typed T ty p ms \<longleftrightarrow> (case type_at T p of
     None \<Rightarrow> False
   | Some t \<Rightarrow> length (members t) = length ms \<and> (\<forall>(d, m)\<in>set (zip (members t) ms). member_typed T ty p d m))"

lemma members_typed_cong [fundef_cong]:
  assumes "ms = ms'" and "\<And>m q x. m \<in> set ms' \<Longrightarrow> x \<in> set (member_values m) \<Longrightarrow> ty q x = ty' q x"
  shows "members_typed T ty p ms = members_typed T ty' p ms'"
proof -
  have "member_typed T ty p d m = member_typed T ty' p d m" if "(d, m) \<in> set (zip ds ms')" for d m ds
    using assms(2) set_zip_rightD [OF that] by (auto simp: member_typed_def split: option.split)
  then show ?thesis using assms(1) by (auto simp: members_typed_def split: option.split)
qed

fun typed :: "type_tables \<Rightarrow> type_ptr \<Rightarrow> uvalue \<Rightarrow> bool" where
  "typed T p (Bool_v b) \<longleftrightarrow> codec_at T p = Some BooleanC"
| "typed T p (Byte_v b) \<longleftrightarrow> codec_at T p = Some ByteC"
| "typed T p (UInt16_v h) \<longleftrightarrow> codec_at T p = Some UInt16C"
| "typed T p (UInt32_v w) \<longleftrightarrow> codec_at T p = Some UInt32C"
| "typed T p (UInt64_v l) \<longleftrightarrow> codec_at T p = Some UInt64C"
| "typed T p (String_v s) \<longleftrightarrow> codec_at T p = Some StringC"
| "typed T p (Guid_v g) \<longleftrightarrow> codec_at T p = Some GuidC"
| "typed T p (NodeId_v i) \<longleftrightarrow> codec_at T p = Some NodeIdC"
| "typed T p (ExpandedNodeId_v x) \<longleftrightarrow> codec_at T p = Some ExpandedNodeIdC"
| "typed T p (LocalizedText_v x) \<longleftrightarrow> codec_at T p = Some LocalizedTextC"
| "typed T p (DiagnosticInfo_v x) \<longleftrightarrow> codec_at T p = Some DiagnosticInfoC"
| "typed T p (Encoded_v e i body) \<longleftrightarrow> codec_at T p = Some ExtensionObjectC \<and> numeric_id i \<and>
     (e = BYTESTRING_BODY \<longrightarrow> findDataTypeByBinary T i = None)"
| "typed T p (Decoded_v nd (Some q) (Some v)) \<longleftrightarrow> codec_at T p = Some ExtensionObjectC \<and> \<not> nd \<and> typed T q v"
| "typed T p (Decoded_v nd ty d) \<longleftrightarrow> False"
| "typed T p (Variant_v None n d dims) \<longleftrightarrow> codec_at T p = Some VariantC \<and> n = 0 \<and> d = NullArray"
| "typed T p (Variant_v (Some q) n d dims) \<longleftrightarrow> codec_at T p = Some VariantC \<and> type_at T q \<noteq> None \<and>
     (if is_array n d then n = length (arr_list d) else single d) \<and> (\<forall>x\<in>set (arr_list d). typed T q x)"
| "typed T p (DataValue_v val st sts vts sps vps) \<longleftrightarrow> codec_at T p = Some DataValueC \<and>
     (case val of None \<Rightarrow> True | Some v \<Rightarrow> is_variant v \<and> typed T (Standard, UA_TYPES_VARIANT) v) \<and>
     pred_option (\<lambda>x. x \<le> MAX_PICO_SECONDS) sps \<and> pred_option (\<lambda>x. x \<le> MAX_PICO_SECONDS) vps"
| "typed T p (Struct_v ms) \<longleftrightarrow> codec_at T p = Some InternalC \<and> members_typed T (typed T) p ms"

text \<open>The generator's condition on the types that are copied as they are: numbers, GUIDs, and structures of such members.\<close>

definition copied_ok :: "type_tables \<Rightarrow> bool" where
  "copied_ok T \<longleftrightarrow> list_all (\<lambda>p. case type_at T p of None \<Rightarrow> True | Some t \<Rightarrow> overlayable t \<longrightarrow> copied_at (nesting T) T p)
     (map (Pair Standard) [0..<length (UA_TYPES T)] @ map (Pair Custom) [0..<length (customTypes T)])"

lemma copied_okD:
  assumes "copied_ok T" and "type_at T p = Some t" and "overlayable t" shows "copied_at (nesting T) T p"
proof -
  have "p \<in> set (map (Pair Standard) [0..<length (UA_TYPES T)] @ map (Pair Custom) [0..<length (customTypes T)])"
    using assms(2) by (cases p; cases "fst p") (auto simp: type_at_def load_def split: if_splits)
  then show ?thesis using assms unfolding copied_ok_def list_all_iff by (auto split: option.splits)
qed

lemma member_typed_single: "\<not> isArray d \<Longrightarrow> member_type T p d = Some q \<Longrightarrow> ty q v \<Longrightarrow> member_typed T ty p d (Single v)"
  by (simp add: member_typed_def)

lemma members_at_typed:
  assumes "\<forall>d\<in>set ds. \<not> isArray d \<and> (\<exists>q. member_type T p d = Some q \<and> type_at T q \<noteq> None \<and> (\<forall>bs. ty q (at q bs)))"
  shows "length (members_at at T p ds bs) = length ds \<and> (\<forall>(d, m)\<in>set (zip ds (members_at at T p ds bs)). member_typed T ty p d m)"
  using assms
proof (induction ds arbitrary: bs)
  case (Cons d ds)
  then obtain q t where q: "\<not> isArray d" "member_type T p d = Some q" "type_at T q = Some t" "\<forall>bs. ty q (at q bs)" by auto
  have "member_typed T ty p d (Single (at q (take (memSize t) bs)))" using q by (simp add: member_typed_single)
  then show ?case using q Cons.IH [of "drop (memSize t) bs"] Cons.prems by simp
qed simp

lemma value_at_typed: "copied_at n T p \<Longrightarrow> typed T p (value_at n T p bs)"
proof (induction n arbitrary: p bs)
  case (Suc n)
  then obtain t c where t: "type_at T p = Some t" "codec_at T p = Some c" by (auto simp: bind_eq_Some_conv split: option.splits)
  have load: "load decodeBinaryJumpTable (index_of t) = Some c" using t by (simp add: codec_at_def same_tables)
  show ?case
  proof (cases "c = InternalC")
    case True
    have "\<forall>d\<in>set (members t). \<not> isArray d \<and> (\<exists>q. member_type T p d = Some q \<and> type_at T q \<noteq> None \<and> (\<forall>bs. typed T q (value_at n T q bs)))"
    proof
      fix d assume "d \<in> set (members t)"
      then obtain q where q: "\<not> isArray d" "member_type T p d = Some q" "copied_at n T q"
        using Suc.prems t True by (auto simp: list_all_iff split: option.splits)
      moreover have "type_at T q \<noteq> None" using q(3) by (cases n; cases "type_at T q") simp_all
      ultimately show "\<not> isArray d \<and> (\<exists>q. member_type T p d = Some q \<and> type_at T q \<noteq> None \<and> (\<forall>bs. typed T q (value_at n T q bs)))"
        using Suc.IH by blast
    qed
    from members_at_typed [OF this] show ?thesis using t True load by (simp add: members_typed_def)
  qed (use Suc.prems t load in auto)
qed simp

section \<open>What a decoder gives\<close>

lemmas status_defs = UA_STATUSCODE_GOOD_def UA_STATUSCODE_BADDECODINGERROR_def UA_STATUSCODE_BADOUTOFMEMORY_def

definition gives :: "(decoder \<Rightarrow> (UA_StatusCode \<times> 'a \<times> decoder) option) \<Rightarrow> ('a \<Rightarrow> bool) \<Rightarrow> bool" where
  "gives dec ok \<longleftrightarrow> (\<forall>st v st'. dec st = Some (UA_STATUSCODE_GOOD, v, st') \<longrightarrow> ok v)"

lemma givesI: "(\<And>st v st'. dec st = Some (0, v, st') \<Longrightarrow> ok v) \<Longrightarrow> gives dec ok"
  by (simp add: gives_def UA_STATUSCODE_GOOD_def)

lemma givesD: "gives dec ok \<Longrightarrow> dec st = Some (0, v, st') \<Longrightarrow> ok v"
  by (auto simp: gives_def UA_STATUSCODE_GOOD_def)

lemma gives_True [simp]: "gives dec (\<lambda>v. True)"
  by (simp add: gives_def)

lemma gives_as: "gives dec (\<lambda>x. ok (f x)) \<Longrightarrow> gives (\<lambda>st. decoded_as f (dec st)) ok"
  by (auto simp: decoded_as_def intro!: givesI dest: givesD)

lemma gives_elements:
  assumes "gives dec ok" shows "gives (decode_elements dec n) (\<lambda>xs. length xs = n \<and> list_all ok xs)"
proof (induction n)
  case (Suc n)
  show ?case
    by (rule givesI) (use assms in \<open>auto simp: bind_eq_Some_conv UA_STATUSCODE_GOOD_def split: if_splits dest!: givesD [OF Suc] dest: givesD\<close>)
qed (auto intro: givesI)

lemma memory_elements_all: "(\<And>bs. ok (of_bytes bs)) \<Longrightarrow> list_all ok (memory_elements of_bytes sz n bs)"
  by (induction n arbitrary: bs) simp_all

lemma memory_elements_length: "length (memory_elements of_bytes sz n bs) = n"
  by (induction n arbitrary: bs) simp_all

text \<open>An array that has data is not empty.\<close>

definition all_of :: "('a \<Rightarrow> bool) \<Rightarrow> 'a arr \<Rightarrow> bool" where
  "all_of ok a \<longleftrightarrow> list_all ok (arr_list a) \<and> (has_data a \<longrightarrow> arr_list a \<noteq> [])"

lemma gives_array:
  assumes dec: "\<not> overlayable type \<Longrightarrow> gives dec ok" and copied: "\<And>bs. overlayable type \<Longrightarrow> ok (of_bytes bs)"
  shows "gives (Array_decodeBinary calloc type of_bytes dec dst) (all_of ok)"
proof (rule givesI)
  fix st a st' assume "Array_decodeBinary calloc type of_bytes dec dst st = Some (0, a, st')"
  moreover have copied': "all_of ok (Elements (memory_elements of_bytes sz n bs))" if "overlayable type" "0 < n" for sz n bs
    using that copied memory_elements_all [of ok of_bytes sz n bs] memory_elements_length [of of_bytes sz n bs] by (auto simp: all_of_def)
  moreover have decoded: "all_of ok (Elements xs)" if "decode_elements dec n st = Some (0, xs, st')" "\<not> overlayable type" "0 < n" for xs n st st'
    using givesD [OF gives_elements [OF dec] that(1)] that by (auto simp: all_of_def)
  moreover have "all_of ok NullArray" "all_of ok EmptySentinel" by (simp_all add: all_of_def)
  ultimately show "all_of ok a"
    by (auto simp: Array_decodeBinary_def bind_eq_Some_conv status_defs Let_def intro: decoded split: if_splits)
qed

lemma gives_typed_array:
  assumes "copied_ok T" and "type_at T p = Some t" and "gives (dec p) (typed T p)"
  shows "gives (Array_decodeBinary calloc (type_sizes.truncate t) (value_at (nesting T) T p) (dec p) dst) (all_of (typed T p))"
  by (rule gives_array) (use assms value_at_typed copied_okD [OF assms(1)] in \<open>auto simp: type_sizes.defs\<close>)

lemma gives_option:
  assumes "gives dec ok" shows "gives (decode_option dec present) (pred_option ok)"
  by (rule givesI) (auto simp: decode_option_def bind_eq_Some_conv split: if_splits intro: givesD [OF assms])

lemma gives_picoseconds: "gives (decode_picoseconds dst) (\<lambda>x. x \<le> MAX_PICO_SECONDS)"
  by (auto simp: decode_picoseconds_def bind_eq_Some_conv not_less split: if_splits intro!: givesI)

section \<open>Decoders\<close>

lemma gives_extension:
  assumes "codec_at T p = Some ExtensionObjectC" and dec: "\<And>q. gives (dec q) (typed T q)"
  shows "gives (ExtensionObject_decodeBinary T calloc dec) (typed T p)"
proof -
  have content: "typed T p v" if "ExtensionObject_decodeBinaryContent T calloc dec i st = Some (0, v, st')" and "numeric_id i" for i st v st'
    using that assms(1) by (auto simp: ExtensionObject_decodeBinaryContent_def bind_eq_Some_conv status_defs split: option.splits if_splits
        dest: givesD [OF dec])
  show ?thesis
    by (rule givesI) (use assms(1) content in \<open>auto simp: ExtensionObject_decodeBinary_def bind_eq_Some_conv status_defs Let_def
        zero_extension_def body_code_def split: if_splits\<close>)
qed

lemma typed_array_variant:
  "codec_at T p = Some VariantC \<Longrightarrow> type_at T q \<noteq> None \<Longrightarrow> all_of (typed T q) a \<Longrightarrow>
   typed T p (array_variant q a dims) \<and> is_variant (array_variant q a dims)"
  by (auto simp: array_variant_def is_array_def is_variant_def all_of_def list_all_iff)

lemma gives_unwrap:
  assumes "codec_at T p = Some VariantC" and dec: "\<And>q. gives (dec q) (typed T q)"
  shows "gives (Variant_decodeBinaryUnwrapExtensionObject T calloc dec) (\<lambda>v. typed T p v \<and> is_variant v)"
  by (rule givesI) (use assms(1) in \<open>auto simp: Variant_decodeBinaryUnwrapExtensionObject_def bind_eq_Some_conv status_defs Let_def is_array_def
      single_iff is_variant_def split: if_splits option.splits\<close>; erule givesD [OF dec])

lemma gives_variant_rest:
  assumes codec: "codec_at T p = Some VariantC" and tables: "copied_ok T" and dec: "\<And>q. gives (dec q) (typed T q)"
  shows "gives (variant_rest T calloc dec k array dims) (\<lambda>v. typed T p v \<and> is_variant v)"
proof (rule givesI)
  let ?q = "(Standard, k)" and ?ok = "\<lambda>v. typed T p v \<and> is_variant v"
  fix st v st' assume v: "variant_rest T calloc dec k array dims st = Some (0, v, st')"
  then obtain t where t: "type_at T ?q = Some t" by (auto simp: variant_rest_def bind_eq_Some_conv)
  have a: "?ok (array_variant ?q a d)"
    if "Array_decodeBinary calloc (type_sizes.truncate t) (value_at (nesting T) T ?q) (dec ?q) NullArray st = Some (0, a, st')" for a d st st'
    by (rule typed_array_variant [OF codec _ givesD [OF gives_typed_array [where dec = dec, OF tables t dec] that]])
      (use t in simp)
  have b: "?ok (Variant_v (Some ?q) 0 (Elements [x]) NullArray)" if "dec ?q st = Some (0, x, st')" for x st st'
    using codec t givesD [OF dec that] by (simp add: is_array_def is_variant_def single_iff)
  consider "array" "dims" | "array" "\<not> dims" | "\<not> array" "k = UA_TYPES_EXTENSIONOBJECT" | "\<not> array" "k \<noteq> UA_TYPES_EXTENSIONOBJECT" by blast
  then show "?ok v"
  proof cases
    case 1
    then show ?thesis using v t by (auto simp: variant_rest_def bind_eq_Some_conv or_eq_0_iff simp del: typed.simps dest: a)
  next
    case 2
    then show ?thesis using v t by (auto simp: variant_rest_def bind_eq_Some_conv simp del: typed.simps dest: a)
  next
    case 3
    then show ?thesis
      using v t givesD [OF gives_unwrap [where dec = dec, OF codec dec]] by (auto simp: variant_rest_def simp del: typed.simps)
  next
    case 4
    then show ?thesis
      using v t by (auto simp: variant_rest_def bind_eq_Some_conv status_defs simp del: typed.simps split: if_splits dest: b)
  qed
qed

lemma gives_variant:
  assumes codec: "codec_at T p = Some VariantC" and tables: "copied_ok T" and dec: "\<And>q. gives (dec q) (typed T q)"
  shows "gives (Variant_decodeBinary T calloc dec) (\<lambda>v. typed T p v \<and> is_variant v)"
proof (rule givesI)
  fix st v st' assume "Variant_decodeBinary T calloc dec st = Some (0, v, st')"
  then consider "v = zero_variant" | k array dims st1 where "variant_rest T calloc dec k array dims st1 = Some (0, v, st')"
    unfolding Variant_decodeBinary_def variant_rest_def [symmetric] Let_def
    by (auto simp: bind_eq_Some_conv status_defs split: if_splits)
  then show "typed T p v \<and> is_variant v"
    using codec givesD [OF gives_variant_rest [where dec = dec, OF assms]] by cases (auto simp: zero_variant_def is_variant_def)
qed

lemma gives_data_value:
  assumes codec: "codec_at T p = Some DataValueC" and var: "codec_at T (Standard, UA_TYPES_VARIANT) = Some VariantC"
    and tables: "copied_ok T" and dec: "\<And>q. gives (dec q) (typed T q)"
  shows "gives (DataValue_decodeBinary T calloc dec) (typed T p)"
proof (rule givesI)
  fix st v st' assume "DataValue_decodeBinary T calloc dec st = Some (0, v, st')"
  then consider "v = DataValue_v None None None None None None"
    | val s t1 t2 p1 p2 st1 st2 st3 st4 st5 st6 b1 b2 b3 where "v = DataValue_v val s t1 t2 p1 p2"
      "decode_option (Variant_decodeBinary T calloc dec) b1 st1 = Some (0, val, st2)"
      "decode_option (decode_picoseconds 0) b2 st3 = Some (0, p1, st4)" "decode_option (decode_picoseconds 0) b3 st5 = Some (0, p2, st6)"
    unfolding DataValue_decodeBinary_def by (auto simp: bind_eq_Some_conv status_defs or_eq_0_iff split: if_splits)
  then show "typed T p v"
  proof cases
    case 2
    have "pred_option (\<lambda>v. typed T (Standard, UA_TYPES_VARIANT) v \<and> is_variant v) val"
      by (rule givesD [OF gives_option [OF gives_variant [where dec = dec, OF var tables dec]] 2(2)])
    moreover have "pred_option (\<lambda>x. x \<le> MAX_PICO_SECONDS) p1" "pred_option (\<lambda>x. x \<le> MAX_PICO_SECONDS) p2"
      using givesD [OF gives_option [OF gives_picoseconds]] 2(3,4) by blast+
    ultimately show ?thesis using 2(1) codec by (auto split: option.split)
  qed (simp add: codec)
qed

lemma gives_member:
  assumes "copied_ok T" and dec: "\<And>q. gives (dec q) (typed T q)"
  shows "gives (member_decodeBinary T calloc dec p d) (member_typed T (typed T) p d)"
  by (rule givesI) (auto simp: member_decodeBinary_def bind_eq_Some_conv member_typed_def all_of_def list_all_iff split: if_splits
      dest!: givesD [OF gives_typed_array [where dec = dec, OF assms(1) _ dec]] intro: givesD [OF dec])

lemma gives_members:
  assumes "copied_ok T" and dec: "\<And>q. gives (dec q) (typed T q)"
  shows "gives (members_decodeBinary T calloc dec p ds)
    (\<lambda>ms. length ds = length ms \<and> (\<forall>(d, m)\<in>set (zip ds ms). member_typed T (typed T) p d m))"
proof (induction ds)
  case (Cons d ds)
  show ?case
    by (rule givesI) (auto simp: bind_eq_Some_conv or_eq_0_iff dest!: givesD [OF Cons] givesD [OF gives_member [where dec = dec, OF assms]])
qed (auto intro: givesI)

lemma gives_struct:
  assumes "type_at T p = Some t" and "codec_at T p = Some InternalC" and "copied_ok T" and dec: "\<And>q. gives (dec q) (typed T q)"
  shows "gives (\<lambda>st. decoded_as Struct_v (members_decodeBinary T calloc dec p (members t) st)) (typed T p)"
  by (rule gives_as, rule givesI) (use assms(1,2) in \<open>auto simp: members_typed_def dest!: givesD [OF gives_members [where dec = dec, OF assms(3,4)]]\<close>)

lemma gives_jump:
  assumes t: "type_at T p = Some t" and c: "codec_at T p = Some c" and var: "codec_at T (Standard, UA_TYPES_VARIANT) = Some VariantC"
    and tables: "copied_ok T" and dec: "\<And>q. gives (dec q) (typed T q)"
  shows "gives (decode_as depth T calloc dec c t p) (typed T p)"
proof (cases c)
  case ExtensionObjectC
  then show ?thesis using gives_extension [where dec = dec] c dec by (simp add: decode_as_def [abs_def])
next
  case DataValueC
  then show ?thesis using gives_data_value [where dec = dec, OF _ var tables dec] c by (simp add: decode_as_def [abs_def])
next
  case VariantC
  then have "gives (Variant_decodeBinary T calloc dec) (typed T p)"
    using gives_variant [where dec = dec, OF _ tables dec] c by (auto simp: gives_def)
  then show ?thesis using VariantC by (simp add: decode_as_def [abs_def])
next
  case InternalC
  then show ?thesis using gives_struct [where dec = dec, OF t _ tables dec] c by (simp add: decode_as_def [abs_def])
qed (use c in \<open>simp_all add: decode_as_def [abs_def] gives_as\<close>)

lemma gives_type:
  assumes "codec_at T (Standard, UA_TYPES_VARIANT) = Some VariantC" and "copied_ok T"
  shows "gives (UA_decodeType depth T calloc p) (typed T p)"
proof (induction depth arbitrary: p)
  case (Suc depth)
  have jump: "gives (decode_as (Suc depth) T calloc (UA_decodeType depth T calloc) c t p) (typed T p)"
    if "type_at T p = Some t" "load decodeBinaryJumpTable (index_of t) = Some c" for t c
    by (rule gives_jump [OF that(1) _ assms Suc]) (use that in \<open>simp_all add: codec_at_def encodeBinaryJumpTable_def decodeBinaryJumpTable_def\<close>)
  show ?case by (auto simp: bind_eq_Some_conv intro!: givesI intro: givesD [OF jump])
qed (auto intro: givesI)

end
