(* ===== verification/UAValueProperties.thy ===== *)
theory UAValueProperties
  imports UATypedRead UAValueTyping UABinaryProperties "HOL-Library.Code_Target_Nat"
begin

text \<open>Properties of the binary encoding of structures, variants and extension objects.\<close>

section \<open>Structures come back\<close>

lemma internal_struct:
  assumes "encodable T p (Struct_v ms)" and "standard_ok T" and "type_at T p = Some t"
  shows "emits (UA_encodeBinaryInternal T cb p (Struct_v ms)) (bin_value T (Struct_v ms))"
proof -
  have "emits (members_encodeBinary T cb (UA_encodeType T cb) p (members t) ms) (concat (map (bin_member (bin_value T)) ms))"
    by (rule emits_members [of _ "encodable T"]) (use assms in \<open>auto intro: emits_typed\<close>)
  then show ?thesis using assms(3) by (simp add: UA_encodeBinaryInternal_def [abs_def])
qed

lemma internal_read:
  assumes "encodable T p (Struct_v ms)" and "standard_ok T" and "type_at T p = Some t" and "\<not> builtin t"
    and "size (Struct_v ms) < depth" and calloc: "\<And>n. calloc n"
  shows "reads (UA_decodeBinaryInternal depth T calloc p) (bin_value T (Struct_v ms)) (norm_value T (Struct_v ms))"
proof -
  have "reads (members_decodeBinary T calloc (UA_decodeType depth T calloc) p (members t)) (concat (map (bin_member (bin_value T)) ms))
      (map (norm_member (norm_value T)) ms)"
  proof (rule reads_members [where ok = "encodable T"])
    fix m x q assume "m \<in> set ms" "x \<in> set (member_values m)" "encodable T q x"
    moreover from this have "size x < depth" using size_members [of m ms x] assms(5) by simp
    ultimately show "reads (UA_decodeType depth T calloc q) (bin_value T x) (norm_value T x)" using assms(2) calloc by (intro reads_typed) simp_all
  qed (use assms in auto)
  from reads_decoded [OF this, where f = "of_members False"] show ?thesis
    using assms(3,4) by (simp add: UA_decodeBinaryInternal_def [abs_def])
qed

text \<open>C5: A structure whose encoding fits into the buffer is written without an error, and decoding what was written gives the
  structure back, when memory is available and the value is \<open>encodable\<close>, for every table of types that has the builtin types at their
  places: members, arrays, variants, extension objects and structures inside structures, also arrays of structures that are copied
  as they are. \<open>encodable\<close> says that the value is one of its type description, and leaves out what the code cannot bring back:
  diagnostic data with an inner status code or an inner diagnostic (see \<open>diagnostic_unreadable\<close>), arrays whose encoding is
  smaller than a 32nd of their memory, which the decoder refuses, arrays of more than the largest Int32 elements, extension objects
  and wrapped variant data whose type has an identifier that is not numeric or a binary encoding that another type has first, and
  encoded bodies that name a known type. What comes back is the structure up to what the encoding does not tell apart:
  \<open>norm_value\<close> says what becomes of empty arrays, of variants of types that are not builtin, and of too large picoseconds.\<close>

theorem structure_roundtrip:
  assumes "encodable T p (Struct_v ms)" and "standard_ok T" and "type_at T p = Some t" and "\<not> builtin t"
    and "offset + length (bin_value T (Struct_v ms)) \<le> length buf" and "size (Struct_v ms) < depth" and "\<And>n. calloc n"
  shows "\<exists>st'. UA_encodeBinary T cb p (Struct_v ms) w base buf offset
       = Some (UA_STATUSCODE_GOOD, offset + length (bin_value T (Struct_v ms)), st') \<and>
     UA_decodeBinary depth T calloc (ebuf st') offset p
       = Some (UA_STATUSCODE_GOOD, offset + length (bin_value T (Struct_v ms)), Some (norm_value T (Struct_v ms)))"
proof -
  let ?bs = "bin_value T (Struct_v ms)" and ?st = "\<lparr>ebuf = buf, ebase = base, pbase = base, epos = offset, world = w\<rparr>"
  have e: "UA_encodeBinaryInternal T cb p (Struct_v ms) ?st = Some (0, wrote ?bs ?st)"
    by (rule emitsD [OF internal_struct [OF assms(1-3)]]) (use assms(5) in simp_all)
  have "reads (UA_decodeBinaryInternal depth T calloc p) ?bs (norm_value T (Struct_v ms))"
    by (rule internal_read [OF assms(1-4,6,7)])
  from reads_written [OF this, of ?st "[]"] assms(5)
  obtain d where "UA_decodeBinaryInternal depth T calloc p \<lparr>dbuf = ebuf (wrote ?bs ?st), dpos = offset\<rparr> = Some (0, norm_value T (Struct_v ms), d)"
    "dpos d = offset + length ?bs" by auto
  then show ?thesis using e by (auto simp: UA_encodeBinary_def UA_decodeBinary_def UA_STATUSCODE_GOOD_def)
qed

section \<open>An example\<close>

text \<open>The builtin types, without their members, and three structures: one of a number, a text and an array of numbers,
  one that holds a variant and an array of ranges, and the range of two numbers, which is copied as it is.\<close>

definition example_builtin :: "nat \<times> nat \<times> bool \<Rightarrow> UA_DataType" where
  "example_builtin x = (case x of (k, n, copied) \<Rightarrow>
     \<lparr>memSize = n, overlayable = copied, typeId = \<lparr>namespaceIndex = 0, ident = NUMERIC (of_nat k + 1)\<rparr>, typeIndex = k, builtin = True,
      binaryEncodingId = 0, members = []\<rparr>)"

definition example_struct :: "nat \<Rightarrow> u16 \<Rightarrow> UA_DataTypeMember list \<Rightarrow> UA_DataType" where
  "example_struct k i ms =
     \<lparr>memSize = 48, overlayable = False, typeId = \<lparr>namespaceIndex = 0, ident = NUMERIC (ucast i - 2)\<rparr>, typeIndex = k, builtin = False,
      binaryEncodingId = i, members = ms\<rparr>"

definition example_copied :: UA_DataType where
  "example_copied =
     \<lparr>memSize = 16, overlayable = True, typeId = \<lparr>namespaceIndex = 0, ident = NUMERIC 884\<rparr>, typeIndex = 27, builtin = False,
      binaryEncodingId = 886, members = replicate 2 \<lparr>memberTypeIndex = 10, namespaceZero = True, isArray = False\<rparr>\<rparr>"

definition example_types :: type_tables where
  "example_types = \<lparr>UA_TYPES = map example_builtin [(0, 1, True), (1, 1, True), (2, 1, True), (3, 2, True), (4, 2, True), (5, 4, True),
       (6, 4, True), (7, 8, True), (8, 8, True), (9, 4, True), (10, 8, True), (11, 16, False), (12, 8, True), (13, 16, True),
       (14, 16, False), (15, 16, False), (16, 24, False), (17, 48, False), (18, 4, True), (19, 24, False), (20, 32, False),
       (21, 40, False), (22, 80, False), (23, 48, False), (24, 56, False)]
     @ [example_struct 25 300 [\<lparr>memberTypeIndex = 6, namespaceZero = True, isArray = False\<rparr>,
          \<lparr>memberTypeIndex = 11, namespaceZero = True, isArray = False\<rparr>, \<lparr>memberTypeIndex = 6, namespaceZero = True, isArray = True\<rparr>],
        example_struct 26 310 [\<lparr>memberTypeIndex = 23, namespaceZero = True, isArray = False\<rparr>,
          \<lparr>memberTypeIndex = 27, namespaceZero = True, isArray = True\<rparr>],
        example_copied],
     customTypes = []\<rparr>"

definition example_inner :: "uvalue member list" where
  "example_inner = [Single (UInt32_v 7), Single (String_v (Elements [104, 105])), ArrayOf (Elements [UInt32_v 1, UInt32_v 2])]"

definition example_outer :: "uvalue member list" where
  "example_outer = [Single (Variant_v (Some (Standard, 25)) 0 (Elements [Struct_v example_inner]) NullArray),
     ArrayOf (Elements (map (\<lambda>k. Struct_v [Single (UInt64_v k), Single (UInt64_v (k + 1))]) [3, 5]))]"

lemma example_ok: "encodable example_types (Standard, 26) (Struct_v example_outer)" "standard_ok example_types"
  by code_simp+

lemma example_depth: "size (Struct_v example_outer) < 100"
  by (simp add: example_outer_def example_inner_def)

theorem structure_roundtrip_witness:
  "\<exists>st'. UA_encodeBinary example_types None (Standard, 26) (Struct_v example_outer) () 0 (replicate 128 0) 0
       = Some (UA_STATUSCODE_GOOD, 0 + length (bin_value example_types (Struct_v example_outer)), st') \<and>
     UA_decodeBinary 100 example_types (\<lambda>_. True) (ebuf st') 0 (Standard, 26)
       = Some (UA_STATUSCODE_GOOD, 0 + length (bin_value example_types (Struct_v example_outer)),
           Some (norm_value example_types (Struct_v example_outer)))"
proof (rule structure_roundtrip [OF example_ok])
  show "type_at example_types (Standard, 26) = Some (UA_TYPES example_types ! 26)" by code_simp
  show "\<not> builtin (UA_TYPES example_types ! 26)" by code_simp
  show "0 + length (bin_value example_types (Struct_v example_outer)) \<le> length (replicate 128 (0 :: u8))"
    by code_simp
qed (use example_depth in simp_all)

section \<open>Decoded values are typed\<close>

text \<open>C9: Whatever bytes the decoder gets: when it reports success, the structure it has built has the type that was asked for, all
  through. Every member has the type of its description, arrays stand exactly where the description has them, a variant says how many
  elements it holds and of which type, an extension object holds a value of the type it names, and picoseconds are below 10000.
  A value that an attacker makes up cannot be taken for one of another type. The tables of types have to be as the generator makes
  them: the builtin types at their places, and a type that is marked as overlayable holds a number or a GUID, or is a structure of
  such members and of such structures, without arrays (\<open>copied_ok\<close>).\<close>

theorem decoded_typed:
  assumes "UA_decodeBinary depth T calloc src offset p = Some (UA_STATUSCODE_GOOD, offset', Some v)"
    and "type_at T p = Some t" and "\<not> builtin t" and "copied_ok T" and "standard_ok T"
  shows "typed T p v"
proof -
  have var: "codec_at T (Standard, UA_TYPES_VARIANT) = Some VariantC"
    using codec_standard [OF assms(5), of UA_TYPES_VARIANT] by (simp add: UA_TYPES_VARIANT_def UA_BUILTIN_TYPES_COUNT_def encodeBinaryJumpTable_def)
  have "codec_at T p = Some InternalC"
    using assms(2,3) by (simp add: codec_at_def index_of_def UA_BUILTIN_TYPES_COUNT_def encodeBinaryJumpTable_def)
  then have "gives (\<lambda>st. decoded_as Struct_v (members_decodeBinary T calloc (UA_decodeType depth T calloc) p (members t) st)) (typed T p)"
    by (rule gives_struct [OF assms(2) _ assms(4) gives_type [OF var assms(4)]])
  moreover have "of_members False = Struct_v" by (rule ext) simp
  ultimately show ?thesis
    using assms(1-3)
    by (auto simp: UA_decodeBinary_def UA_decodeBinaryInternal_def bind_eq_Some_conv UA_STATUSCODE_GOOD_def split: if_splits
      dest: givesD)
qed

definition example_message :: bytes where
  "example_message = [7, 0, 0, 0, 2, 0, 0, 0, 104, 105, 2, 0, 0, 0, 1, 0, 0, 0, 2, 0, 0, 0]"

theorem decoded_typed_witness: "typed example_types (Standard, 25) (Struct_v example_inner)"
proof (rule decoded_typed)
  show "UA_decodeBinary 3 example_types (\<lambda>_. True) example_message 0 (Standard, 25) = Some (UA_STATUSCODE_GOOD, 22, Some (Struct_v example_inner))"
    by code_simp
  show "type_at example_types (Standard, 25) = Some (UA_TYPES example_types ! 25)" by code_simp
  show "\<not> builtin (UA_TYPES example_types ! 25)" by code_simp
  show "copied_ok example_types" by code_simp
qed (use example_ok in simp_all)

end
