(* ===== verification/UAConnection.thy ===== *)
theory UAConnection
  imports UABinary
begin

text \<open>
  Connections of the OPC UA stack, \<open>ua_connection.c\<close>: TCP delivers the bytes of the peer in pieces of any size, and
  \<open>UA_Connection_completeMessages\<close> hands on whole chunks and keeps what is left over.

  The pointer of a received message says who allocated its memory: the network layer, which has to release it, or the stack,
  which frees it. To free memory the wrong way, or to give memory of the network layer away as one's own, is \<open>None\<close>.
  A ledger counts the buffers that the network layer has handed out and the blocks of the heap that nobody has freed yet.
\<close>

section \<open>Connections\<close>

record UA_ConnectionConfig =
  protocolVersion :: u32
  sendBufferSize :: u32
  recvBufferSize :: u32
  maxMessageSize :: u32
  maxChunkCount :: u32

record UA_Connection =
  localConf :: UA_ConnectionConfig
  remoteConf :: UA_ConnectionConfig
  incompleteMessage :: bytes

datatype buffer = Null | Network bytes | Heap bytes

fun contents :: "buffer \<Rightarrow> bytes" where
  "contents Null = []"
| "contents (Network bs) = bs"
| "contents (Heap bs) = bs"

fun with_length :: "buffer \<Rightarrow> nat \<Rightarrow> buffer" where
  "with_length Null n = Null"
| "with_length (Network bs) n = Network (take n bs)"
| "with_length (Heap bs) n = Heap (take n bs)"

record ledger =
  lent_buffers :: nat
  heap_blocks :: nat

definition allocated :: "ledger \<Rightarrow> ledger" where
  "allocated l = l\<lparr>heap_blocks := heap_blocks l + 1\<rparr>"

definition freed :: "ledger \<Rightarrow> ledger option" where
  "freed l = (if heap_blocks l = 0 then None else Some (l\<lparr>heap_blocks := heap_blocks l - 1\<rparr>))"

fun releaseRecvBuffer :: "buffer \<Rightarrow> ledger \<Rightarrow> (buffer \<times> ledger) option" where
  "releaseRecvBuffer Null l = Some (Null, l)"
| "releaseRecvBuffer (Network bs) l = (if lent_buffers l = 0 then None else Some (Null, l\<lparr>lent_buffers := lent_buffers l - 1\<rparr>))"
| "releaseRecvBuffer (Heap bs) l = None"

fun UA_ByteString_deleteMembers :: "buffer \<Rightarrow> ledger \<Rightarrow> (buffer \<times> ledger) option" where
  "UA_ByteString_deleteMembers Null l = Some (Null, l)"
| "UA_ByteString_deleteMembers (Network bs) l = None"
| "UA_ByteString_deleteMembers (Heap bs) l = do { l \<leftarrow> freed l; Some (Null, l) }"

definition UA_Connection_deleteMembers :: "UA_Connection \<Rightarrow> UA_Connection" where
  "UA_Connection_deleteMembers connection = connection\<lparr>incompleteMessage := []\<rparr>"

section \<open>Whole chunks\<close>

definition UA_MESSAGETYPE_ACK :: u32 where "UA_MESSAGETYPE_ACK = 0x4B4341"
definition UA_MESSAGETYPE_HEL :: u32 where "UA_MESSAGETYPE_HEL = 0x4C4548"
definition UA_MESSAGETYPE_MSG :: u32 where "UA_MESSAGETYPE_MSG = 0x47534D"
definition UA_MESSAGETYPE_OPN :: u32 where "UA_MESSAGETYPE_OPN = 0x4E504F"
definition UA_MESSAGETYPE_CLO :: u32 where "UA_MESSAGETYPE_CLO = 0x4F4C43"
definition UA_MESSAGETYPE_ERR :: u32 where "UA_MESSAGETYPE_ERR = 0x525245"

definition message_types :: "u32 list" where
  "message_types = [UA_MESSAGETYPE_MSG, UA_MESSAGETYPE_ERR, UA_MESSAGETYPE_OPN, UA_MESSAGETYPE_HEL, UA_MESSAGETYPE_ACK, UA_MESSAGETYPE_CLO]"

text \<open>What stands at a position: something that is no chunk, the begin of a chunk, or a chunk of some length.\<close>

datatype chunk = Garbage | Incomplete | Complete nat

definition chunk_at :: "u32 \<Rightarrow> bytes \<Rightarrow> nat \<Rightarrow> chunk option" where
  "chunk_at limit message complete_until =
     do { b0 \<leftarrow> load message complete_until; b1 \<leftarrow> load message (complete_until + 1); b2 \<leftarrow> load message (complete_until + 2);
          let msgtype = ucast b0 + push_bit 8 (ucast b1) + push_bit 16 (ucast b2);
          if msgtype \<notin> set message_types then Some Garbage
          else do {
            (rv, chunk_length, st) \<leftarrow> UInt32_decodeBinary 0 \<lparr>dbuf = message, dpos = complete_until + 4\<rparr>;
            if rv \<noteq> UA_STATUSCODE_GOOD \<or> chunk_length < 16 \<or> chunk_length > limit then Some Garbage
            else if unat chunk_length + complete_until > length message then Some Incomplete
            else Some (Complete (unat chunk_length)) } }"

text \<open>A chunk has at least 16 bytes, so the loop goes forward.\<close>

lemma chunk_at_Complete: "chunk_at r m p = Some (Complete n) \<Longrightarrow> 16 \<le> n \<and> n + p \<le> length m"
  by (auto simp: chunk_at_def bind_eq_Some_conv Let_def word_less_nat_alt not_less split: if_splits)

function completeChunksUntil :: "u32 \<Rightarrow> bytes \<Rightarrow> nat \<Rightarrow> (nat \<times> bool) option" where
  "completeChunksUntil limit message complete_until =
     (if length message - complete_until \<ge> 8
      then (case chunk_at limit message complete_until of
          None \<Rightarrow> None
        | Some Garbage \<Rightarrow> Some (complete_until, True)
        | Some Incomplete \<Rightarrow> Some (complete_until, False)
        | Some (Complete chunk_length) \<Rightarrow> completeChunksUntil limit message (complete_until + chunk_length))
      else Some (complete_until, False))"
  by pat_completeness auto
termination by (relation "measure (\<lambda>(r, m, p). length m - p)") (auto dest: chunk_at_Complete)

declare completeChunksUntil.simps [simp del]

section \<open>Messages\<close>

text \<open>Whether a request for memory succeeds depends on its size. The result is the status, the connection, the message, \<open>realloced\<close>
  and the ledger.\<close>

type_synonym completion = "(UA_StatusCode \<times> UA_Connection \<times> buffer \<times> bool \<times> ledger) option"

definition prependIncomplete :: "(nat \<Rightarrow> bool) \<Rightarrow> UA_Connection \<Rightarrow> buffer \<Rightarrow> bool \<Rightarrow> ledger \<Rightarrow> completion" where
  "prependIncomplete realloc connection message realloced l =
     do { let data = incompleteMessage connection @ contents message;
          if \<not> realloc (length data)
          then do { l \<leftarrow> freed l;
                    (message, l) \<leftarrow> releaseRecvBuffer message l;
                    Some (UA_STATUSCODE_BADOUTOFMEMORY, connection\<lparr>incompleteMessage := []\<rparr>, message, realloced, l) }
          else do { (message, l) \<leftarrow> releaseRecvBuffer message l;
                    Some (UA_STATUSCODE_GOOD, connection\<lparr>incompleteMessage := []\<rparr>, Heap data, True, l) } }"

text \<open>What the C code stores into the connection has to be its own memory.\<close>

definition separateIncompleteChunk ::
    "(nat \<Rightarrow> bool) \<Rightarrow> UA_Connection \<Rightarrow> buffer \<Rightarrow> nat \<Rightarrow> bool \<Rightarrow> bool \<Rightarrow> ledger \<Rightarrow> completion" where
  "separateIncompleteChunk malloc connection message complete_until garbage_end realloced l =
     (if garbage_end
      then if complete_until = 0 then Some (UA_STATUSCODE_BADDECODINGERROR, connection, message, realloced, l)
           else Some (UA_STATUSCODE_GOOD, connection, with_length message complete_until, realloced, l)
      else if complete_until = 0
      then if \<not> realloced
           then if \<not> malloc (length (contents message))
                then Some (UA_STATUSCODE_BADOUTOFMEMORY, connection\<lparr>incompleteMessage := []\<rparr>, message, realloced, l)
                else do { let connection = connection\<lparr>incompleteMessage := contents message\<rparr>;
                          (message, l) \<leftarrow> releaseRecvBuffer message (allocated l);
                          Some (UA_STATUSCODE_GOOD, connection, message, True, l) }
           else (case message of
               Heap data \<Rightarrow> Some (UA_STATUSCODE_GOOD, connection\<lparr>incompleteMessage := data\<rparr>, Null, realloced, l)
             | _ \<Rightarrow> None)
      else let incomplete = drop complete_until (contents message)
           in if \<not> malloc (length incomplete)
              then Some (UA_STATUSCODE_BADOUTOFMEMORY, connection\<lparr>incompleteMessage := []\<rparr>, message, realloced, l)
              else Some (UA_STATUSCODE_GOOD, connection\<lparr>incompleteMessage := incomplete\<rparr>, with_length message complete_until, realloced,
                allocated l))"

definition UA_Connection_completeMessages ::
    "(nat \<Rightarrow> bool) \<Rightarrow> (nat \<Rightarrow> bool) \<Rightarrow> UA_Connection \<Rightarrow> buffer \<Rightarrow> bool \<Rightarrow> ledger \<Rightarrow> completion" where
  "UA_Connection_completeMessages realloc malloc connection message realloced l =
     do { (retval, connection, message, realloced, l) \<leftarrow>
            (if length (incompleteMessage connection) > 0 then prependIncomplete realloc connection message realloced l
             else Some (UA_STATUSCODE_GOOD, connection, message, realloced, l));
          if retval \<noteq> UA_STATUSCODE_GOOD then Some (retval, connection, message, realloced, l)
          else do {
            (complete_until, garbage_end) \<leftarrow> completeChunksUntil (recvBufferSize (localConf connection)) (contents message) 0;
            if complete_until < length (contents message)
            then do {
              (retval, connection, message, realloced, l) \<leftarrow>
                separateIncompleteChunk malloc connection message complete_until garbage_end realloced l;
              if retval \<noteq> UA_STATUSCODE_GOOD
              then do { (message, l) \<leftarrow> (if realloced then UA_ByteString_deleteMembers message l else releaseRecvBuffer message l);
                        Some (retval, connection, message, realloced, l) }
              else Some (UA_STATUSCODE_GOOD, connection, message, realloced, l) }
            else Some (UA_STATUSCODE_GOOD, connection, message, realloced, l) } }"

section \<open>Waiting for a chunk\<close>

text \<open>\<open>recv\<close> and the clock act on the world outside. The loop need not end: \<open>None\<close> is also a peer that keeps sending nothing.\<close>

record 'w network =
  recv :: "'w \<Rightarrow> u32 \<Rightarrow> UA_StatusCode \<times> buffer \<times> 'w"
  nowMonotonic :: "'w \<Rightarrow> int \<times> 'w"

definition MSEC_TO_DATETIME :: int where "MSEC_TO_DATETIME = 10000"
definition UA_STATUSCODE_GOODNONCRITICALTIMEOUT :: UA_StatusCode where "UA_STATUSCODE_GOODNONCRITICALTIMEOUT = 0x00aa0000"

fun handed_out :: "buffer \<Rightarrow> ledger \<Rightarrow> ledger" where
  "handed_out (Network bs) l = l\<lparr>lent_buffers := lent_buffers l + 1\<rparr>"
| "handed_out b l = l"

partial_function (option) receive_loop ::
    "'w network \<Rightarrow> (nat \<Rightarrow> bool) \<Rightarrow> (nat \<Rightarrow> bool) \<Rightarrow> int \<Rightarrow> UA_Connection \<Rightarrow> bool \<Rightarrow> u32 \<Rightarrow> ledger \<Rightarrow> 'w \<Rightarrow>
      (UA_StatusCode \<times> UA_Connection \<times> buffer \<times> bool \<times> ledger \<times> 'w) option" where
  "receive_loop net realloc malloc maxDate connection realloced timeout l w =
     do { let (r1, chunks, w) = recv net w timeout;
          (r2, connection, chunks, realloced, l) \<leftarrow> UA_Connection_completeMessages realloc malloc connection chunks realloced (handed_out chunks l);
          let retval = r1 OR r2;
          if retval \<noteq> UA_STATUSCODE_GOOD \<or> length (contents chunks) > 0 then Some (retval, connection, chunks, realloced, l, w)
          else let (now, w) = nowMonotonic net w
               in if now > maxDate then Some (UA_STATUSCODE_GOODNONCRITICALTIMEOUT, connection, chunks, realloced, l, w)
                  else receive_loop net realloc malloc maxDate connection realloced (word_of_int ((maxDate - now) div MSEC_TO_DATETIME)) l w }"

definition UA_Connection_receiveChunksBlocking ::
    "'w network \<Rightarrow> (nat \<Rightarrow> bool) \<Rightarrow> (nat \<Rightarrow> bool) \<Rightarrow> UA_Connection \<Rightarrow> u32 \<Rightarrow> ledger \<Rightarrow> 'w \<Rightarrow>
      (UA_StatusCode \<times> UA_Connection \<times> buffer \<times> bool \<times> ledger \<times> 'w) option" where
  "UA_Connection_receiveChunksBlocking net realloc malloc connection timeout l w =
     (let (now, w) = nowMonotonic net w
      in receive_loop net realloc malloc (now + uint timeout * MSEC_TO_DATETIME) connection False timeout l w)"

section \<open>Cutting a stream into chunks\<close>

text \<open>The same on streams: the whole chunks, the rest, and whether the rest is garbage.\<close>

function cut :: "u32 \<Rightarrow> bytes \<Rightarrow> bytes list \<times> bytes \<times> bool" where
  "cut limit bs =
     (if length bs < 8 then ([], bs, False)
      else case chunk_at limit bs 0 of
          Some (Complete n) \<Rightarrow> (case cut limit (drop n bs) of (cs, rest, garbage) \<Rightarrow> (take n bs # cs, rest, garbage))
        | Some Incomplete \<Rightarrow> ([], bs, False)
        | _ \<Rightarrow> ([], bs, True))"
  by pat_completeness auto
termination by (relation "measure (length o snd)") (auto dest: chunk_at_Complete)

declare cut.simps [simp del]

text \<open>The eight bytes of a header and the number of bytes from there on decide.\<close>

definition header_type :: "bytes \<Rightarrow> u32" where
  "header_type h = ucast (h ! 0) + push_bit 8 (ucast (h ! 1)) + push_bit 16 (ucast (h ! 2))"

definition classify :: "u32 \<Rightarrow> bytes \<Rightarrow> nat \<Rightarrow> chunk" where
  "classify limit h available =
     (let n = le_word (drop 4 h) :: u32
      in if header_type h \<notin> set message_types \<or> n < 16 \<or> n > limit then Garbage
         else if available < unat n then Incomplete else Complete (unat n))"

lemma chunk_at_header:
  assumes "p + 8 \<le> length m"
  shows "chunk_at limit m p = Some (classify limit (take 8 (drop p m)) (length m - p))"
proof -
  have "take 4 (drop (p + 4) m) = drop 4 (take 8 (drop p m))" by (simp add: drop_take add.commute)
  then show ?thesis
    using assms by (auto simp: chunk_at_def classify_def header_type_def UInt32_decodeBinary_def past_input_def get_bytes_def Let_def
        UA_STATUSCODE_GOOD_def ac_simps)
qed

text \<open>More bytes only turn an incomplete chunk into a complete one.\<close>

lemma classify_more:
  "classify limit h k = Complete n \<Longrightarrow> k \<le> k' \<Longrightarrow> classify limit h k' = Complete n"
  "classify limit h k = Garbage \<Longrightarrow> classify limit h k' = Garbage"
  by (auto simp: classify_def Let_def split: if_splits)

text \<open>Cutting can stop anywhere and go on when more has come.\<close>

lemma cut_append:
  assumes "cut limit a = (cs, rest, False)"
  shows "cut limit (a @ b) = (case cut limit (rest @ b) of (cs', rest', garbage) \<Rightarrow> (cs @ cs', rest', garbage))"
  using assms
proof (induction limit a arbitrary: cs rule: cut.induct)
  case (1 limit a)
  show ?case
  proof (cases "length a < 8")
    case True
    then show ?thesis using 1(2) by (simp add: cut.simps [of limit a] split: prod.splits)
  next
    case False
    then have a: "chunk_at limit a 0 = Some (classify limit (take 8 a) (length a))"
      and ab: "chunk_at limit (a @ b) 0 = Some (classify limit (take 8 a) (length (a @ b)))" by (simp_all add: chunk_at_header)
    show ?thesis
    proof (cases "classify limit (take 8 a) (length a)")
      case Garbage
      then show ?thesis using 1(2) False a by (simp add: cut.simps [of limit a])
    next
      case Incomplete
      then show ?thesis using 1(2) False a by (simp add: cut.simps [of limit a] split: prod.splits)
    next
      case (Complete n)
      then have n: "n \<le> length a" using a chunk_at_Complete [of limit a 0 n] by simp
      obtain cs' where cs: "cut limit (drop n a) = (cs', rest, False)" "cs = take n a # cs'"
        using 1(2) False a Complete by (auto simp: cut.simps [of limit a] split: prod.splits)
      have "cut limit (drop n a @ b) = (case cut limit (rest @ b) of (cs'', rest', garbage) \<Rightarrow> (cs' @ cs'', rest', garbage))"
        by (rule 1(1) [OF False _ _ cs(1)]) (use a Complete in simp_all)
      moreover have "classify limit (take 8 a) (length (a @ b)) = Complete n" using Complete by (rule classify_more) simp
      ultimately show ?thesis
        using False ab n cs(2) by (simp add: cut.simps [of limit "a @ b"] split: prod.splits)
    qed
  qed
qed

lemma cut_concat: "cut limit bs = (cs, rest, g) \<Longrightarrow> concat cs @ rest = bs"
proof (induction limit bs arbitrary: cs rule: cut.induct)
  case (1 limit bs)
  then show ?case by (auto simp: cut.simps [of limit bs] split: if_splits option.splits chunk.splits prod.splits)
qed

lemma cut_shape: "cut limit bs = (cs, rest, g) \<Longrightarrow> c \<in> set cs \<Longrightarrow> 16 \<le> length c"
proof (induction limit bs arbitrary: cs rule: cut.induct)
  case (1 limit bs)
  have "16 \<le> n \<and> n \<le> length bs" if "chunk_at limit bs 0 = Some (Complete n)" for n using chunk_at_Complete [OF that] by simp
  then show ?case using 1 by (auto simp: cut.simps [of limit bs] split: if_splits option.splits chunk.splits prod.splits)
qed

lemma cut_rest: "cut limit bs = (cs, rest, g) \<Longrightarrow> cut limit rest = ([], rest, g)"
proof (induction limit bs arbitrary: cs rule: cut.induct)
  case (1 limit bs)
  then show ?case
    by (auto simp: cut.simps [of limit bs] split: if_splits option.splits chunk.splits prod.splits) (simp_all add: cut.simps)
qed

lemma cut_garbage:
  "cut limit a = (cs, rest, True) \<Longrightarrow> \<exists>cs' rest'. cut limit (a @ b) = (cs', rest', True)"
proof (induction limit a arbitrary: cs rule: cut.induct)
  case (1 limit a)
  show ?case
  proof (cases "length a < 8")
    case True
    then show ?thesis using 1(2) by (simp add: cut.simps [of limit a])
  next
    case False
    then have a: "chunk_at limit a 0 = Some (classify limit (take 8 a) (length a))"
      and ab: "chunk_at limit (a @ b) 0 = Some (classify limit (take 8 a) (length (a @ b)))" by (simp_all add: chunk_at_header)
    show ?thesis
    proof (cases "classify limit (take 8 a) (length a)")
      case Garbage
      then have "classify limit (take 8 a) (length (a @ b)) = Garbage" by (rule classify_more)
      then show ?thesis using False ab by (simp add: cut.simps [of limit "a @ b"])
    next
      case Incomplete
      then show ?thesis using 1(2) False a by (simp add: cut.simps [of limit a])
    next
      case (Complete n)
      then have n: "n \<le> length a" using a chunk_at_Complete [of limit a 0 n] by simp
      obtain cs' where cs: "cut limit (drop n a) = (cs', rest, True)"
        using 1(2) False a Complete by (auto simp: cut.simps [of limit a] split: prod.splits)
      have "\<exists>cs'' rest'. cut limit (drop n a @ b) = (cs'', rest', True)"
        by (rule 1(1) [OF False _ _ cs]) (use a Complete in simp_all)
      moreover have "classify limit (take 8 a) (length (a @ b)) = Complete n" using Complete by (rule classify_more) simp
      ultimately show ?thesis using False ab n by (auto simp: cut.simps [of limit "a @ b"] split: prod.splits)
    qed
  qed
qed

text \<open>The loop finds where the whole chunks end.\<close>

lemma completeChunksUntil_cut:
  assumes "cut limit (drop p m) = (cs, rest, g)" and "p \<le> length m"
  shows "completeChunksUntil limit m p = Some (p + length (concat cs), g)"
  using assms
proof (induction limit m p arbitrary: cs rule: completeChunksUntil.induct)
  case (1 limit m p)
  show ?case
  proof (cases "length m - p \<ge> 8")
    case True
    then have c: "chunk_at limit m p = Some (classify limit (take 8 (drop p m)) (length m - p))"
      and d: "chunk_at limit (drop p m) 0 = Some (classify limit (take 8 (drop p m)) (length m - p))"
      by (simp_all add: chunk_at_header)
    show ?thesis
    proof (cases "classify limit (take 8 (drop p m)) (length m - p)")
      case (Complete n)
      then have n: "n + p \<le> length m" using c chunk_at_Complete [of limit m p n] by simp
      obtain cs' where cs: "cut limit (drop (p + n) m) = (cs', rest, g)" "cs = take n (drop p m) # cs'"
        using 1(2) True d Complete by (auto simp: cut.simps [of limit "drop p m"] add.commute split: prod.splits)
      have "completeChunksUntil limit m (p + n) = Some (p + n + length (concat cs'), g)"
        by (rule 1(1) [OF True _ _ cs(1)]) (use c Complete n in simp_all)
      then show ?thesis using True c Complete n cs(2) by (simp add: completeChunksUntil.simps [of limit m p])
    qed (use 1(2) True c d in \<open>auto simp: completeChunksUntil.simps [of limit m p] cut.simps [of limit "drop p m"]\<close>)
  qed (use 1(2) in \<open>simp add: completeChunksUntil.simps [of limit m p] cut.simps [of limit "drop p m"]\<close>)
qed

section \<open>Who owns the memory\<close>

text \<open>The flag says how the message has to be freed. The ledger holds one buffer of the network layer if the message is one, and one
  block for the message and one for the incomplete chunk if they are on the heap, besides those of others.\<close>

definition owned :: "buffer \<Rightarrow> bool \<Rightarrow> bool" where
  "owned m realloced \<longleftrightarrow> (if realloced then \<forall>bs. m \<noteq> Network bs else \<forall>bs. m \<noteq> Heap bs)"

definition on_network :: "buffer \<Rightarrow> nat" where
  "on_network m = (case m of Network bs \<Rightarrow> 1 | _ \<Rightarrow> 0)"

definition on_heap :: "buffer \<Rightarrow> UA_Connection \<Rightarrow> nat" where
  "on_heap m c = (case m of Heap bs \<Rightarrow> 1 | _ \<Rightarrow> 0) + (if incompleteMessage c = [] then 0 else 1)"

definition balanced :: "nat \<Rightarrow> nat \<Rightarrow> buffer \<Rightarrow> UA_Connection \<Rightarrow> ledger \<Rightarrow> bool" where
  "balanced lent blocks m c l \<longleftrightarrow> lent_buffers l = lent + on_network m \<and> heap_blocks l = blocks + on_heap m c"

lemmas balance_defs = balanced_def on_network_def on_heap_def owned_def allocated_def freed_def

lemma with_length_shape [simp]: "with_length m n = Heap bs \<longleftrightarrow> (\<exists>cs. m = Heap cs \<and> bs = take n cs)"
  "with_length m n = Network bs \<longleftrightarrow> (\<exists>cs. m = Network cs \<and> bs = take n cs)"
  by (cases m; auto)+

lemma on_network_length [simp]: "on_network (with_length m n) = on_network m" "on_heap (with_length m n) c = on_heap m c"
  by (cases m; simp add: on_network_def on_heap_def)+

section \<open>What completing messages does\<close>

text \<open>Without garbage, and when there is memory: the whole chunks of what was left over and what has come are handed on,
  the rest is left over.\<close>

lemma completeMessages_cut:
  assumes "cut (recvBufferSize (localConf c)) (incompleteMessage c @ contents m) = (cs, rest, False)"
    and "\<And>n. realloc n" and "\<And>n. malloc n" and "\<And>bs. m \<noteq> Heap bs"
    and "balanced lent blocks m c l"
  shows "\<exists>m' ra l'. UA_Connection_completeMessages realloc malloc c m False l
       = Some (UA_STATUSCODE_GOOD, c\<lparr>incompleteMessage := rest\<rparr>, m', ra, l') \<and>
     contents m' = concat cs"
proof -
  define m1 ra where "m1 = (if incompleteMessage c = [] then m else Heap (incompleteMessage c @ contents m))" and "ra = (incompleteMessage c \<noteq> [])"
  have m1: "contents m1 = incompleteMessage c @ contents m" by (simp add: m1_def)
  have rel: "\<exists>l'. releaseRecvBuffer m k = Some (Null, l')" if "lent_buffers k = lent_buffers l" for k
    using assms(4,5) that by (cases m) (auto simp: balance_defs)
  obtain l1 where first: "(if length (incompleteMessage c) > 0 then prependIncomplete realloc c m False l else Some (UA_STATUSCODE_GOOD, c, m, False, l))
      = Some (UA_STATUSCODE_GOOD, c\<lparr>incompleteMessage := []\<rparr>, m1, ra, l1)" and l1: "incompleteMessage c = [] \<longrightarrow> l1 = l"
    using assms(2) rel [OF refl] by (cases "incompleteMessage c = []") (auto simp: prependIncomplete_def m1_def ra_def)
  obtain l2 where rel': "incompleteMessage c = [] \<longrightarrow> releaseRecvBuffer m (allocated l1) = Some (Null, l2)"
    using rel [of "allocated l1"] l1 by (auto simp: allocated_def)
  have upto: "completeChunksUntil (recvBufferSize (localConf c)) (contents m1) 0 = Some (length (concat cs), False)"
    using completeChunksUntil_cut [of "recvBufferSize (localConf c)" 0 "contents m1" cs rest False] assms(1) by (simp add: m1)
  note all = cut_concat [OF assms(1)]
  show ?thesis
  proof (cases "rest = []")
    case True
    then show ?thesis using first upto all by (simp add: UA_Connection_completeMessages_def m1 UA_STATUSCODE_GOOD_def)
  next
    case rest: False
    then have less: "length (concat cs) < length (contents m1)" using all m1 by (metis length_append length_greater_0_conv less_add_same_cancel1)
    have dropped: "drop (length (concat cs)) (contents m1) = rest" "take (length (concat cs)) (contents m1) = concat cs"
      using all m1 by (metis append_eq_conv_conj)+
    have len: "contents (with_length m1 n) = take n (contents m1)" for n by (cases m1) simp_all
    show ?thesis
    proof (cases "concat cs = []")
      case True
      have "contents m1 = concat cs @ rest" using all m1 by simp
      then have "contents m1 = rest" by (simp only: True append_Nil)
      then show ?thesis
        using True first upto less assms(3) rel' m1 by (auto simp: UA_Connection_completeMessages_def separateIncompleteChunk_def UA_STATUSCODE_GOOD_def m1_def ra_def)
    next
      case False
      define n where "n = length (concat cs)"
      have "0 < n" using False by (simp add: n_def del: concat_eq_Nil_conv length_concat)
      then show ?thesis
        using first upto less assms(3) dropped len unfolding n_def [symmetric]
        by (simp add: UA_Connection_completeMessages_def separateIncompleteChunk_def UA_STATUSCODE_GOOD_def Let_def)
    qed
  qed
qed

text \<open>The messages of one segment after the other, while there is no error.\<close>

primrec deliver :: "(nat \<Rightarrow> bool) \<Rightarrow> (nat \<Rightarrow> bool) \<Rightarrow> UA_Connection \<Rightarrow> bytes list \<Rightarrow> (bytes list \<times> UA_Connection) option" where
  "deliver realloc malloc c [] = Some ([], c)"
| "deliver realloc malloc c (seg # segs) =
     do { (rv, c, m, ra, l) \<leftarrow> UA_Connection_completeMessages realloc malloc c (Network seg) False
            \<lparr>lent_buffers = 1, heap_blocks = on_heap (Network seg) c\<rparr>;
          if rv \<noteq> UA_STATUSCODE_GOOD then None
          else do { (ms, c) \<leftarrow> deliver realloc malloc c segs; Some (contents m # ms, c) } }"

lemma deliver_cut:
  assumes "cut (recvBufferSize (localConf c)) (incompleteMessage c @ concat segs) = (cs, rest, False)"
    and "cut (recvBufferSize (localConf c)) (incompleteMessage c) = ([], incompleteMessage c, False)"
    and "\<And>n. realloc n" and "\<And>n. malloc n"
  shows "\<exists>css. deliver realloc malloc c segs = Some (map concat css, c\<lparr>incompleteMessage := rest\<rparr>) \<and> concat css = cs"
  using assms(1,2)
proof (induction segs arbitrary: c cs)
  case Nil
  then show ?case by (auto intro: exI [of _ "[]"])
next
  case (Cons seg segs)
  let ?l = "recvBufferSize (localConf c)"
  have whole: "cut ?l ((incompleteMessage c @ seg) @ concat segs) = (cs, rest, False)" using Cons(2) by simp
  obtain cs1 r1 g where one: "cut ?l (incompleteMessage c @ seg) = (cs1, r1, g)" by (metis prod_cases3)
  have "\<not> g" using whole cut_garbage [of ?l "incompleteMessage c @ seg" cs1 r1 "concat segs"] one by (cases g) auto
  then have one: "cut ?l (incompleteMessage c @ seg) = (cs1, r1, False)" using one by simp
  let ?ledger = "\<lparr>lent_buffers = 1, heap_blocks = on_heap (Network seg) c\<rparr>"
  have "balanced 0 0 (Network seg) c ?ledger" by (simp add: balanced_def on_network_def)
  then obtain m' ra l' where m: "UA_Connection_completeMessages realloc malloc c (Network seg) False ?ledger
      = Some (UA_STATUSCODE_GOOD, c\<lparr>incompleteMessage := r1\<rparr>, m', ra, l')" "contents m' = concat cs1"
    using completeMessages_cut [of c "Network seg" cs1 r1 realloc malloc 0 0 ?ledger] one assms(3,4) by auto
  obtain cs2 where cs2: "cut ?l (r1 @ concat segs) = (cs2, rest, False)" "cs = cs1 @ cs2"
    using whole cut_append [OF one, of "concat segs"] by (auto split: prod.splits)
  obtain css where "deliver realloc malloc (c\<lparr>incompleteMessage := r1\<rparr>) segs = Some (map concat css, c\<lparr>incompleteMessage := rest\<rparr>)" "concat css = cs2"
    using Cons(1) [of "c\<lparr>incompleteMessage := r1\<rparr>" cs2] cs2(1) cut_rest [OF one] by auto
  then have "deliver realloc malloc c (seg # segs) = Some (map concat (cs1 # css), c\<lparr>incompleteMessage := rest\<rparr>) \<and> concat (cs1 # css) = cs"
    using m cs2(2) by simp
  then show ?case by blast
qed

section \<open>Nothing is freed twice, nothing is left\<close>

lemma prependIncomplete_owned:
  assumes "owned m False" and "balanced lent blocks m c l" and "incompleteMessage c \<noteq> []"
  shows "\<exists>rv c' m' ra l'. prependIncomplete realloc c m False l = Some (rv, c', m', ra, l') \<and> owned m' ra \<and> incompleteMessage c' = [] \<and>
     balanced lent blocks m' c' l' \<and> (rv \<noteq> UA_STATUSCODE_GOOD \<longrightarrow> m' = Null)"
  using assms by (cases m) (auto simp: prependIncomplete_def balance_defs Let_def UA_STATUSCODE_GOOD_def)

lemma separate_owned:
  assumes "owned m ra" and "n < length (contents m)" and "incompleteMessage c = []" and "balanced lent blocks m c l"
  shows "\<exists>rv c' m' ra' l'. separateIncompleteChunk malloc c m n g ra l = Some (rv, c', m', ra', l') \<and> owned m' ra' \<and>
     balanced lent blocks m' c' l' \<and> (rv \<noteq> UA_STATUSCODE_GOOD \<longrightarrow> incompleteMessage c' = [])"
  using assms by (cases m) (auto simp: separateIncompleteChunk_def balance_defs Let_def UA_STATUSCODE_GOOD_def)

lemma free_owned:
  assumes "owned m r" and "balanced lent blocks m c l"
  shows "\<exists>l'. (if r then UA_ByteString_deleteMembers m l else releaseRecvBuffer m l) = Some (Null, l') \<and> balanced lent blocks Null c l'"
  using assms by (cases m; cases r) (auto simp: balance_defs)

lemma completeChunksUntil_Some: "\<exists>n g. completeChunksUntil limit m 0 = Some (n, g) \<and> n \<le> length m"
proof -
  obtain cs rest g where cut: "cut limit (drop 0 m) = (cs, rest, g)" by (metis prod_cases3)
  have "length (concat cs @ rest) = length m" using cut_concat [OF cut] by simp
  then show ?thesis using completeChunksUntil_cut [OF cut] by auto
qed

lemma completeMessages_owned:
  assumes "owned m False" and "balanced lent blocks m c l"
  shows "\<exists>rv c' m' ra l'. UA_Connection_completeMessages realloc malloc c m False l = Some (rv, c', m', ra, l') \<and> owned m' ra \<and>
     balanced lent blocks m' c' l' \<and> (rv \<noteq> UA_STATUSCODE_GOOD \<longrightarrow> m' = Null)"
proof -
  obtain rv c1 m1 ra l1 where one: "(if length (incompleteMessage c) > 0 then prependIncomplete realloc c m False l
      else Some (UA_STATUSCODE_GOOD, c, m, False, l)) = Some (rv, c1, m1, ra, l1)"
    and own: "owned m1 ra" "rv \<noteq> UA_STATUSCODE_GOOD \<longrightarrow> m1 = Null" "balanced lent blocks m1 c1 l1" "incompleteMessage c1 = []"
    using prependIncomplete_owned [OF assms, of realloc] assms by (cases "incompleteMessage c = []") fastforce+
  obtain n g where n: "completeChunksUntil (recvBufferSize (localConf c1)) (contents m1) 0 = Some (n, g)" using completeChunksUntil_Some by blast
  show ?thesis
  proof (cases "rv = UA_STATUSCODE_GOOD \<and> n < length (contents m1)")
    case True
    obtain rv' c' m' ra' l' where sep: "separateIncompleteChunk malloc c1 m1 n g ra l1 = Some (rv', c', m', ra', l')" "owned m' ra'"
        "balanced lent blocks m' c' l'"
      using separate_owned [OF own(1) _ own(4,3)] True by blast
    obtain l2 where "(if ra' then UA_ByteString_deleteMembers m' l' else releaseRecvBuffer m' l') = Some (Null, l2)" "balanced lent blocks Null c' l2"
      using free_owned [OF sep(2,3)] by blast
    then show ?thesis using one n True sep by (auto simp: UA_Connection_completeMessages_def owned_def)
  qed (use one own n in \<open>auto simp: UA_Connection_completeMessages_def\<close>)
qed

end
