(* ===== verification/UASecureChannel.thy ===== *)
theory UASecureChannel
  imports UAConnection
begin

text \<open>
  Secure channels, \<open>ua_securechannel.c\<close>: the pointers between connections, channels and sessions, and the reassembly of
  messages from chunks. Sending is in \<open>UASending\<close>.
\<close>

section \<open>Channels\<close>

record UA_ChannelSecurityToken =
  channelId :: u32
  tokenId :: u32
  createdAt :: "64 word"
  revisedLifetime :: u32

definition no_token :: UA_ChannelSecurityToken where
  "no_token = \<lparr>channelId = 0, tokenId = 0, createdAt = 0, revisedLifetime = 0\<rparr>"

text \<open>Connections and sessions are addresses. The nonces and the settings of the asymmetric algorithm are only stored and
  freed here, and are left out.\<close>

record UA_SecureChannel =
  securityToken :: UA_ChannelSecurityToken
  nextSecurityToken :: UA_ChannelSecurityToken
  receiveSequenceNumber :: u32
  sendSequenceNumber :: u32
  ch_connection :: "nat option"
  sessions :: "nat list"
  chunkEntries :: "(u32 \<times> bytes) list"

definition UA_SecureChannel_init :: UA_SecureChannel where
  "UA_SecureChannel_init = \<lparr>securityToken = no_token, nextSecurityToken = no_token, receiveSequenceNumber = 0,
     sendSequenceNumber = 0, ch_connection = None, sessions = [], chunkEntries = []\<rparr>"

definition UA_SecureChannel_revolveTokens :: "UA_SecureChannel \<Rightarrow> UA_SecureChannel" where
  "UA_SecureChannel_revolveTokens channel =
     (if tokenId (nextSecurityToken channel) = 0 then channel
      else channel\<lparr>securityToken := nextSecurityToken channel, nextSecurityToken := no_token\<rparr>)"

text \<open>The nonce is a single letter; the C code calls itself a dummy.\<close>

definition UA_SecureChannel_generateNonce :: "(nat \<Rightarrow> bool) \<Rightarrow> UA_StatusCode \<times> bytes" where
  "UA_SecureChannel_generateNonce malloc = (if \<not> malloc 1 then (UA_STATUSCODE_BADOUTOFMEMORY, []) else (UA_STATUSCODE_GOOD, [97]))"

section \<open>Pointers between connections, channels and sessions\<close>

text \<open>The objects at their addresses; a missing channel is freed memory.\<close>

record peers =
  channels :: "nat \<rightharpoonup> UA_SecureChannel"
  connection_channel :: "nat \<Rightarrow> nat option"
  session_channel :: "nat \<Rightarrow> nat option"
  authenticationToken :: "nat \<Rightarrow> UA_NodeId"

definition set_channel :: "nat \<Rightarrow> UA_SecureChannel \<Rightarrow> peers \<Rightarrow> peers" where
  "set_channel c ch s = s\<lparr>channels := (channels s)(c \<mapsto> ch)\<rparr>"

definition UA_Connection_attachSecureChannel :: "nat \<Rightarrow> nat \<Rightarrow> peers \<Rightarrow> peers option" where
  "UA_Connection_attachSecureChannel k c s =
     do { ch \<leftarrow> channels s c;
          Some (if ch_connection ch = None
                then (set_channel c (ch\<lparr>ch_connection := Some k\<rparr>) s)\<lparr>connection_channel := (connection_channel s)(k := Some c)\<rparr>
                else s) }"

definition UA_Connection_detachSecureChannel :: "nat \<Rightarrow> peers \<Rightarrow> peers option" where
  "UA_Connection_detachSecureChannel k s =
     do { s \<leftarrow> (case connection_channel s k of
            None \<Rightarrow> Some s
          | Some c \<Rightarrow> do { ch \<leftarrow> channels s c;
                           Some (if ch_connection ch = Some k then set_channel c (ch\<lparr>ch_connection := None\<rparr>) s else s) });
          Some (s\<lparr>connection_channel := (connection_channel s)(k := None)\<rparr>) }"

definition UA_SecureChannel_attachSession :: "(nat \<Rightarrow> bool) \<Rightarrow> nat \<Rightarrow> nat \<Rightarrow> nat \<Rightarrow> peers \<Rightarrow> peers option" where
  "UA_SecureChannel_attachSession malloc entry_size c se s =
     (if \<not> malloc entry_size then Some s
      else if session_channel s se \<noteq> None then Some s
      else do { ch \<leftarrow> channels s c;
                Some ((set_channel c (ch\<lparr>sessions := se # sessions ch\<rparr>) s)\<lparr>session_channel := (session_channel s)(se := Some c)\<rparr>) })"

definition UA_SecureChannel_detachSession :: "nat \<Rightarrow> nat option \<Rightarrow> peers \<Rightarrow> peers option" where
  "UA_SecureChannel_detachSession c session s =
     do { let s = (case session of None \<Rightarrow> s | Some se \<Rightarrow> s\<lparr>session_channel := (session_channel s)(se := None)\<rparr>);
          ch \<leftarrow> channels s c;
          Some (case session of None \<Rightarrow> s | Some se \<Rightarrow> set_channel c (ch\<lparr>sessions := remove1 se (sessions ch)\<rparr>) s) }"

definition UA_SecureChannel_getSession :: "nat \<Rightarrow> UA_NodeId \<Rightarrow> peers \<Rightarrow> nat option option" where
  "UA_SecureChannel_getSession c token s =
     do { ch \<leftarrow> channels s c; Some (find (\<lambda>se. UA_NodeId_equal (authenticationToken s se) token) (sessions ch)) }"

definition UA_SecureChannel_deleteMembersCleanup :: "nat \<Rightarrow> peers \<Rightarrow> peers option" where
  "UA_SecureChannel_deleteMembersCleanup c s =
     do { ch \<leftarrow> channels s c;
          s \<leftarrow> (case ch_connection ch of None \<Rightarrow> Some s | Some k \<Rightarrow> UA_Connection_detachSecureChannel k s);
          ch \<leftarrow> channels s c;
          Some ((set_channel c (ch\<lparr>sessions := [], chunkEntries := []\<rparr>) s)
            \<lparr>session_channel := (\<lambda>se. if se \<in> set (sessions ch) then None else session_channel s se)\<rparr>) }"

section \<open>Buffered chunks\<close>

text \<open>\<open>size_t\<close> wraps around.\<close>

definition size_sub :: "nat \<Rightarrow> nat \<Rightarrow> nat" where
  "size_sub a b = nat ((int a - int b) mod 2 ^ 64)"

definition size_add :: "nat \<Rightarrow> nat \<Rightarrow> nat" where
  "size_add a b = (a + b) mod 2 ^ 64"

fun remove_entry :: "u32 \<Rightarrow> (u32 \<times> bytes) list \<Rightarrow> (u32 \<times> bytes) list" where
  "remove_entry requestId [] = []"
| "remove_entry requestId (e # es) = (if fst e = requestId then es else e # remove_entry requestId es)"

fun replace_entry :: "u32 \<Rightarrow> bytes \<Rightarrow> (u32 \<times> bytes) list \<Rightarrow> (u32 \<times> bytes) list" where
  "replace_entry requestId bs [] = []"
| "replace_entry requestId bs (e # es) = (if fst e = requestId then (requestId, bs) # es else e # replace_entry requestId bs es)"

definition UA_SecureChannel_removeChunk :: "UA_SecureChannel \<Rightarrow> u32 \<Rightarrow> UA_SecureChannel" where
  "UA_SecureChannel_removeChunk channel requestId = channel\<lparr>chunkEntries := remove_entry requestId (chunkEntries channel)\<rparr>"

text \<open>The bytes of the entry after appending; they are dropped when there is no memory.\<close>

definition appendChunk :: "(nat \<Rightarrow> bool) \<Rightarrow> bytes \<Rightarrow> bytes \<Rightarrow> nat \<Rightarrow> nat \<Rightarrow> bytes" where
  "appendChunk realloc bs msg offset chunklength =
     (if \<not> realloc (length bs + chunklength) then [] else bs @ take chunklength (drop offset msg))"

definition UA_SecureChannel_appendChunk ::
    "(nat \<Rightarrow> bool) \<Rightarrow> (nat \<Rightarrow> bool) \<Rightarrow> nat \<Rightarrow> UA_SecureChannel \<Rightarrow> u32 \<Rightarrow> bytes \<Rightarrow> nat \<Rightarrow> nat \<Rightarrow> UA_SecureChannel" where
  "UA_SecureChannel_appendChunk realloc malloc entry_size channel requestId msg offset chunklength =
     (if size_sub (length msg) offset < chunklength then UA_SecureChannel_removeChunk channel requestId
      else case map_of (chunkEntries channel) requestId of
          None \<Rightarrow> if \<not> malloc entry_size then channel
                  else channel\<lparr>chunkEntries := (requestId, appendChunk realloc [] msg offset chunklength) # chunkEntries channel\<rparr>
        | Some bs \<Rightarrow> channel\<lparr>chunkEntries := replace_entry requestId (appendChunk realloc bs msg offset chunklength) (chunkEntries channel)\<rparr>)"

definition UA_SecureChannel_finalizeChunk ::
    "(nat \<Rightarrow> bool) \<Rightarrow> UA_SecureChannel \<Rightarrow> u32 \<Rightarrow> bytes \<Rightarrow> nat \<Rightarrow> nat \<Rightarrow> UA_SecureChannel \<times> bytes" where
  "UA_SecureChannel_finalizeChunk realloc channel requestId msg offset chunklength =
     (if size_sub (length msg) offset < chunklength then (UA_SecureChannel_removeChunk channel requestId, [])
      else case map_of (chunkEntries channel) requestId of
          None \<Rightarrow> (channel, take chunklength (drop offset msg))
        | Some bs \<Rightarrow> (channel\<lparr>chunkEntries := remove_entry requestId (chunkEntries channel)\<rparr>, appendChunk realloc bs msg offset chunklength))"

definition UA_STATUSCODE_BADSECURITYCHECKSFAILED :: UA_StatusCode where "UA_STATUSCODE_BADSECURITYCHECKSFAILED = 0x80130000"
definition UA_STATUSCODE_BADCOMMUNICATIONERROR :: UA_StatusCode where "UA_STATUSCODE_BADCOMMUNICATIONERROR = 0x80050000"

definition UA_SecureChannel_processSequenceNumber :: "UA_SecureChannel \<Rightarrow> u32 \<Rightarrow> UA_StatusCode \<times> UA_SecureChannel" where
  "UA_SecureChannel_processSequenceNumber channel SequenceNumber =
     (if SequenceNumber \<noteq> receiveSequenceNumber channel + 1
      then if receiveSequenceNumber channel + 1 > 4294966271 \<and> SequenceNumber < 1024
           then (UA_STATUSCODE_GOOD, channel\<lparr>receiveSequenceNumber := (SequenceNumber - 1) + 1\<rparr>)
           else (UA_STATUSCODE_BADSECURITYCHECKSFAILED, channel)
      else (UA_STATUSCODE_GOOD, channel\<lparr>receiveSequenceNumber := receiveSequenceNumber channel + 1\<rparr>))"

section \<open>Processing chunks\<close>

text \<open>The generated decoders of the headers read their members one after the other, and leave the offset alone when that fails.\<close>

primrec decode_words :: "nat \<Rightarrow> decoder \<Rightarrow> (UA_StatusCode \<times> u32 list \<times> decoder) option" where
  "decode_words 0 st = Some (UA_STATUSCODE_GOOD, [], st)"
| "decode_words (Suc n) st =
     do { (r1, w, st) \<leftarrow> UInt32_decodeBinary 0 st; (r2, ws, st) \<leftarrow> decode_words n st; Some (r1 OR r2, w # ws, st) }"

definition decode_header :: "nat \<Rightarrow> bytes \<Rightarrow> nat \<Rightarrow> (UA_StatusCode \<times> u32 list \<times> nat) option" where
  "decode_header n src offset =
     do { (rv, ws, st) \<leftarrow> decode_words n \<lparr>dbuf = src, dpos = offset\<rparr>;
          Some (if rv = UA_STATUSCODE_GOOD then (rv, ws, dpos st) else (rv, replicate n 0, offset)) }"

text \<open>The generated encoders write them in the same order.\<close>

definition words_bytes :: "u32 list \<Rightarrow> bytes" where
  "words_bytes ws = concat (map (le_bytes 4) ws)"

text \<open>What the callback gets: a message of a type for a request, or the error message of the peer.\<close>

datatype incoming = Message u32 u32 bytes | ErrorMessage u32 UA_String

type_synonym 'a callback = "'a \<Rightarrow> UA_SecureChannel \<Rightarrow> incoming \<Rightarrow> 'a \<times> UA_SecureChannel"

datatype progress = Stop UA_StatusCode | Next nat

definition process_error :: "(nat \<Rightarrow> bool) \<Rightarrow> 'a callback \<Rightarrow> bytes \<Rightarrow> nat \<Rightarrow> UA_SecureChannel \<Rightarrow> 'a \<Rightarrow> (progress \<times> UA_SecureChannel \<times> 'a) option" where
  "process_error malloc callback chunks offset channel application =
     do { (retval, header, offset) \<leftarrow> decode_header 2 chunks offset;
          if retval \<noteq> UA_STATUSCODE_GOOD then Some (Stop retval, channel, application)
          else do {
            (r1, error, st) \<leftarrow> UInt32_decodeBinary 0 \<lparr>dbuf = chunks, dpos = offset\<rparr>;
            (r2, reason, st) \<leftarrow> String_decodeBinary malloc NullArray st;
            let retval = r1 OR r2;
            if retval \<noteq> UA_STATUSCODE_GOOD then Some (Stop retval, channel, application)
            else let (application, channel) = callback application channel (ErrorMessage error reason)
                 in Some (Next (dpos st), channel, application) } }"

definition UA_CHUNKTYPE_FINAL :: u32 where "UA_CHUNKTYPE_FINAL = 0x46000000"
definition UA_CHUNKTYPE_INTERMEDIATE :: u32 where "UA_CHUNKTYPE_INTERMEDIATE = 0x43000000"
definition UA_CHUNKTYPE_ABORT :: u32 where "UA_CHUNKTYPE_ABORT = 0x41000000"

text \<open>The symmetric security header and the sequence header, which a message that opens a channel does not have here.\<close>

definition check_security :: "bytes \<Rightarrow> nat \<Rightarrow> UA_SecureChannel \<Rightarrow> (UA_StatusCode \<times> u32 \<times> nat \<times> UA_SecureChannel) option" where
  "check_security chunks offset channel =
     do { (r1, token, offset) \<leftarrow> decode_header 1 chunks offset;
          (r2, sequence, offset) \<leftarrow> decode_header 2 chunks offset;
          if r1 OR r2 \<noteq> UA_STATUSCODE_GOOD then Some (UA_STATUSCODE_BADCOMMUNICATIONERROR, 0, offset, channel)
          else if token ! 0 \<noteq> tokenId (securityToken channel) \<and> token ! 0 \<noteq> tokenId (nextSecurityToken channel)
          then Some (UA_STATUSCODE_BADCOMMUNICATIONERROR, 0, offset, channel)
          else let channel = (if token ! 0 \<noteq> tokenId (securityToken channel) then UA_SecureChannel_revolveTokens channel else channel);
                   (retval, channel) = UA_SecureChannel_processSequenceNumber channel (sequence ! 0)
               in Some (if retval \<noteq> UA_STATUSCODE_GOOD then UA_STATUSCODE_BADCOMMUNICATIONERROR else UA_STATUSCODE_GOOD,
                        sequence ! 1, offset, channel) }"

text \<open>The switch over the type of the chunk; \<open>chunklength\<close> is the size of the message less that of the headers.\<close>

definition process_body ::
    "(nat \<Rightarrow> bool) \<Rightarrow> (nat \<Rightarrow> bool) \<Rightarrow> nat \<Rightarrow> 'a callback \<Rightarrow> bytes \<Rightarrow> nat \<Rightarrow> nat \<Rightarrow> u32 \<Rightarrow> u32 \<Rightarrow> UA_SecureChannel \<Rightarrow> 'a \<Rightarrow>
      progress \<times> UA_SecureChannel \<times> 'a" where
  "process_body realloc malloc entry_size callback chunks offset chunklength messageType requestId channel application =
     (let chunktype = messageType AND 0xff000000; next = Next (size_add offset chunklength)
      in if chunktype = UA_CHUNKTYPE_INTERMEDIATE
         then (next, UA_SecureChannel_appendChunk realloc malloc entry_size channel requestId chunks offset chunklength, application)
         else if chunktype = UA_CHUNKTYPE_FINAL
         then let (channel, message) = UA_SecureChannel_finalizeChunk realloc channel requestId chunks offset chunklength
              in if length message > 0
                 then let (application, channel) = callback application channel (Message (messageType AND 0x00ffffff) requestId message)
                      in (next, channel, application)
                 else (next, channel, application)
         else if chunktype = UA_CHUNKTYPE_ABORT
         then (next, UA_SecureChannel_removeChunk channel requestId, application)
         else (Stop UA_STATUSCODE_BADDECODINGERROR, channel, application))"

text \<open>\<open>chunks->data[offset] == 'E' && ...\<close>; the first test is about the whole buffer, not about what is left of it.\<close>

definition starts_error :: "bytes \<Rightarrow> nat \<Rightarrow> bool option" where
  "starts_error chunks offset =
     (if \<not> length chunks > 3 then Some False
      else do { e \<leftarrow> load chunks offset;
                if e \<noteq> 0x45 then Some False
                else do { r \<leftarrow> load chunks (offset + 1);
                          if r \<noteq> 0x52 then Some False else do { r \<leftarrow> load chunks (offset + 2); Some (r = 0x52) } } })"

definition process_chunk ::
    "(nat \<Rightarrow> bool) \<Rightarrow> (nat \<Rightarrow> bool) \<Rightarrow> nat \<Rightarrow> 'a callback \<Rightarrow> bytes \<Rightarrow> nat \<Rightarrow> UA_SecureChannel \<Rightarrow> 'a \<Rightarrow>
      (progress \<times> UA_SecureChannel \<times> 'a) option" where
  "process_chunk realloc malloc entry_size callback chunks initial_offset channel application =
     do { is_error \<leftarrow> starts_error chunks initial_offset;
          if is_error then process_error malloc callback chunks initial_offset channel application
          else do {
            (retval, header, offset) \<leftarrow> decode_header 3 chunks initial_offset;
            if retval \<noteq> UA_STATUSCODE_GOOD then Some (Stop retval, channel, application)
            else if header ! 2 \<noteq> channelId (securityToken channel) then Some (Stop UA_STATUSCODE_BADCOMMUNICATIONERROR, channel, application)
            else do {
              (retval, requestId, offset, channel) \<leftarrow>
                (if header ! 0 AND 0x00ffffff \<noteq> UA_MESSAGETYPE_OPN then check_security chunks offset channel
                 else Some (UA_STATUSCODE_GOOD, 0, offset, channel));
              if retval \<noteq> UA_STATUSCODE_GOOD then Some (Stop retval, channel, application)
              else Some (process_body realloc malloc entry_size callback chunks offset
                (size_sub (unat (header ! 1)) (offset - initial_offset)) (header ! 0) requestId channel application) } } }"

partial_function (option) process_loop ::
    "(nat \<Rightarrow> bool) \<Rightarrow> (nat \<Rightarrow> bool) \<Rightarrow> nat \<Rightarrow> 'a callback \<Rightarrow> bytes \<Rightarrow> nat \<Rightarrow> UA_SecureChannel \<Rightarrow> 'a \<Rightarrow>
      (UA_StatusCode \<times> UA_SecureChannel \<times> 'a) option" where
  "process_loop realloc malloc entry_size callback chunks offset channel application =
     do { (p, channel, application) \<leftarrow> process_chunk realloc malloc entry_size callback chunks offset channel application;
          case p of
            Stop retval \<Rightarrow> Some (retval, channel, application)
          | Next offset \<Rightarrow>
              if length chunks > offset then process_loop realloc malloc entry_size callback chunks offset channel application
              else Some (UA_STATUSCODE_GOOD, channel, application) }"

definition UA_SecureChannel_processChunks ::
    "(nat \<Rightarrow> bool) \<Rightarrow> (nat \<Rightarrow> bool) \<Rightarrow> nat \<Rightarrow> UA_SecureChannel \<Rightarrow> bytes \<Rightarrow> 'a callback \<Rightarrow> 'a \<Rightarrow> (UA_StatusCode \<times> UA_SecureChannel \<times> 'a) option" where
  "UA_SecureChannel_processChunks realloc malloc entry_size channel chunks callback application =
     process_loop realloc malloc entry_size callback chunks 0 channel application"

end
