(* ===== verification/UAReassembly.thy ===== *)
theory UAReassembly
  imports UASecureChannel UACodec
begin

text \<open>
  What \<open>UA_SecureChannel_processChunks\<close> makes of chunks as the protocol describes them: an abstract receiver that keeps for every
  request what has come so far, and the proof that the code refines it.
\<close>

section \<open>The abstract receiver\<close>

datatype chunk_event = Part u32 u32 bytes | Last u32 u32 bytes | Abort u32 u32

definition so_far :: "(u32 \<rightharpoonup> bytes) \<Rightarrow> u32 \<Rightarrow> bytes" where
  "so_far m r = (case m r of None \<Rightarrow> [] | Some bs \<Rightarrow> bs)"

fun receive :: "(u32 \<rightharpoonup> bytes) \<Rightarrow> chunk_event \<Rightarrow> (u32 \<rightharpoonup> bytes) \<times> incoming list" where
  "receive m (Part t r bs) = (m(r \<mapsto> so_far m r @ bs), [])"
| "receive m (Last t r bs) = (m(r := None), if so_far m r @ bs = [] then [] else [Message t r (so_far m r @ bs)])"
| "receive m (Abort t r) = (m(r := None), [])"

fun receive_all :: "(u32 \<rightharpoonup> bytes) \<Rightarrow> chunk_event list \<Rightarrow> (u32 \<rightharpoonup> bytes) \<times> incoming list" where
  "receive_all m [] = (m, [])"
| "receive_all m (e # es) = (case receive m e of (m, out) \<Rightarrow> case receive_all m es of (m, outs) \<Rightarrow> (m, out @ outs))"

section \<open>Chunks on the wire\<close>

fun kind :: "chunk_event \<Rightarrow> u32" where
  "kind (Part t r bs) = t + UA_CHUNKTYPE_INTERMEDIATE"
| "kind (Last t r bs) = t + UA_CHUNKTYPE_FINAL"
| "kind (Abort t r) = t + UA_CHUNKTYPE_ABORT"

fun message_of :: "chunk_event \<Rightarrow> u32" where
  "message_of (Part t r bs) = t"
| "message_of (Last t r bs) = t"
| "message_of (Abort t r) = t"

fun request :: "chunk_event \<Rightarrow> u32" where
  "request (Part t r bs) = r"
| "request (Last t r bs) = r"
| "request (Abort t r) = r"

fun payload :: "chunk_event \<Rightarrow> bytes" where
  "payload (Part t r bs) = bs"
| "payload (Last t r bs) = bs"
| "payload (Abort t r) = []"

definition chunk_bytes :: "UA_ChannelSecurityToken \<Rightarrow> u32 \<Rightarrow> chunk_event \<Rightarrow> bytes" where
  "chunk_bytes token sequence e =
     words_bytes [kind e, of_nat (24 + length (payload e)), channelId token, tokenId token, sequence, request e] @ payload e"

primrec wire :: "UA_ChannelSecurityToken \<Rightarrow> u32 \<Rightarrow> chunk_event list \<Rightarrow> bytes" where
  "wire token sequence [] = []"
| "wire token sequence (e # es) = chunk_bytes token (sequence + 1) e @ wire token (sequence + 1) es"

section \<open>Headers\<close>

lemma length_words_bytes [simp]: "length (words_bytes ws) = 4 * length ws"
  by (induction ws) (simp_all add: words_bytes_def)

lemma decode_words_bytes:
  "drop p bs = words_bytes ws @ rest \<Longrightarrow>
   decode_words (length ws) \<lparr>dbuf = bs, dpos = p\<rparr> = Some (UA_STATUSCODE_GOOD, ws, \<lparr>dbuf = bs, dpos = p + 4 * length ws\<rparr>)"
proof (induction ws arbitrary: p)
  case (Cons w ws)
  have d: "drop p bs = le_bytes 4 w @ words_bytes ws @ rest" using Cons(2) by (simp add: words_bytes_def)
  have "length (drop p bs) = 4 + length (words_bytes ws @ rest)" by (simp only: d length_append length_le_bytes)
  then have "p + 4 \<le> length bs" unfolding length_drop by linarith
  moreover have "drop (p + 4) bs = words_bytes ws @ rest" using drop_append_drop [OF d] by simp
  ultimately show ?case
    using Cons(1) [of "p + 4"] d
    by (simp add: UInt32_decodeBinary_def past_input_def get_bytes_def le_word_le_bytes UA_STATUSCODE_GOOD_def)
qed simp

lemma decode_header_bytes:
  "drop p bs = words_bytes ws @ rest \<Longrightarrow> n = length ws \<Longrightarrow> decode_header n bs p = Some (UA_STATUSCODE_GOOD, ws, p + 4 * n)"
  by (simp add: decode_header_def decode_words_bytes)

lemma words_bytes_append: "words_bytes (vs @ ws) = words_bytes vs @ words_bytes ws"
  by (simp add: words_bytes_def)

section \<open>Entries\<close>

lemma map_of_remove_entry: "distinct (map fst es) \<Longrightarrow> map_of (remove_entry r es) = (map_of es)(r := None)"
  by (induction r es rule: remove_entry.induct) (auto simp: map_of_eq_None_iff)

lemma map_of_replace_entry: "map_of es r = Some x \<Longrightarrow> map_of (replace_entry r bs es) = (map_of es)(r \<mapsto> bs)"
  by (induction r bs es rule: replace_entry.induct) (auto simp: fun_upd_twist split: if_splits)

lemma set_remove_entry: "set (remove_entry r es) \<subseteq> set es"
  by (induction r es rule: remove_entry.induct) auto

lemma fst_remove_entry: "distinct (map fst es) \<Longrightarrow> distinct (map fst (remove_entry r es))"
proof (induction r es rule: remove_entry.induct)
  case (2 r e es)
  have "fst ` set (remove_entry r es) \<subseteq> fst ` set es" using set_remove_entry [of r es] by blast
  then show ?case using 2 by auto
qed simp

lemma fst_replace_entry: "map fst (replace_entry r bs es) = map fst es"
  by (induction r bs es rule: replace_entry.induct) auto

section \<open>One chunk\<close>

definition plain_message :: "u32 \<Rightarrow> bool" where
  "plain_message t \<longleftrightarrow> t = UA_MESSAGETYPE_MSG \<or> t = UA_MESSAGETYPE_CLO"

lemmas message_type_defs = UA_MESSAGETYPE_MSG_def UA_MESSAGETYPE_CLO_def UA_MESSAGETYPE_OPN_def UA_CHUNKTYPE_FINAL_def
  UA_CHUNKTYPE_INTERMEDIATE_def UA_CHUNKTYPE_ABORT_def

lemma kind_masks:
  assumes "plain_message (message_of e)"
  shows "kind e AND 0x00ffffff = message_of e" and "kind e AND 0x00ffffff \<noteq> UA_MESSAGETYPE_OPN"
    and "kind e AND 0xff000000 = (case e of Part t r bs \<Rightarrow> UA_CHUNKTYPE_INTERMEDIATE | Last t r bs \<Rightarrow> UA_CHUNKTYPE_FINAL | Abort t r \<Rightarrow> UA_CHUNKTYPE_ABORT)"
  using assms by (cases e; auto simp: plain_message_def message_type_defs)+

lemma starts_no_error:
  assumes "plain_message (message_of e)" and "drop p bs = chunk_bytes token n e @ rest"
  shows "starts_error bs p = Some False"
proof -
  have "load bs p = Some (hd (le_bytes 4 (kind e)))"
    using assms(2) by (intro load_drop) (auto simp: chunk_bytes_def words_bytes_def le_bytes_unroll)
  moreover have "hd (le_bytes 4 (kind e)) \<noteq> 0x45"
    using assms(1) by (cases e) (auto simp: plain_message_def message_type_defs le_bytes_unroll)
  ultimately show ?thesis by (simp add: starts_error_def)
qed

definition chunk_fits :: "chunk_event \<Rightarrow> bool" where
  "chunk_fits e \<longleftrightarrow> plain_message (message_of e) \<and> 24 + length (payload e) < 2 ^ 32"

lemma length_chunk_bytes [simp]: "length (chunk_bytes token n e) = 24 + length (payload e)"
  by (simp add: chunk_bytes_def)

text \<open>The entries of the channel are those of the abstract receiver.\<close>

definition entries_hold :: "UA_SecureChannel \<Rightarrow> (u32 \<rightharpoonup> bytes) \<Rightarrow> bool" where
  "entries_hold ch m \<longleftrightarrow> map_of (chunkEntries ch) = m \<and> distinct (map fst (chunkEntries ch))"

text \<open>The callback only takes the message in.\<close>

definition taking :: "('a \<Rightarrow> incoming \<Rightarrow> 'a) \<Rightarrow> 'a callback" where
  "taking f app ch r = (f app r, ch)"

lemma check_security_chunk:
  assumes "drop p bs = words_bytes [tokenId (securityToken ch), receiveSequenceNumber ch + 1, r] @ rest"
  shows "check_security bs p ch = Some (UA_STATUSCODE_GOOD, r, p + 12, ch\<lparr>receiveSequenceNumber := receiveSequenceNumber ch + 1\<rparr>)"
proof -
  have d: "drop p bs = words_bytes [tokenId (securityToken ch)] @ words_bytes [receiveSequenceNumber ch + 1, r] @ rest"
    using assms by (simp add: words_bytes_def)
  have "drop (p + 4) bs = words_bytes [receiveSequenceNumber ch + 1, r] @ rest" using drop_append_drop [OF d] by simp
  then have "decode_header 2 bs (p + 4) = Some (UA_STATUSCODE_GOOD, [receiveSequenceNumber ch + 1, r], p + 4 + 4 * 2)"
    by (rule decode_header_bytes) simp
  moreover have "decode_header 1 bs p = Some (UA_STATUSCODE_GOOD, [tokenId (securityToken ch)], p + 4 * 1)"
    using d by (rule decode_header_bytes) simp
  ultimately show ?thesis
    by (simp add: check_security_def UA_SecureChannel_processSequenceNumber_def UA_STATUSCODE_GOOD_def)
qed

lemma process_body_event:
  assumes drop: "drop p bs = payload e @ rest" and "entries_hold ch m" and e: "plain_message (message_of e)"
    and small: "length bs < 2 ^ 64" and p: "p \<le> length bs" and memory: "\<And>n. realloc n" "\<And>n. malloc n"
  shows "\<exists>ch'. process_body realloc malloc entry_size (taking f) bs p (length (payload e)) (kind e) (request e) ch app
       = (Next (p + length (payload e)), ch', fold (\<lambda>r a. f a r) (snd (receive m e)) app) \<and>
     entries_hold ch' (fst (receive m e)) \<and> securityToken ch' = securityToken ch \<and> receiveSequenceNumber ch' = receiveSequenceNumber ch"
proof -
  have len: "length bs - p = length (payload e) + length rest" using arg_cong [OF drop, of length] by simp
  have fits: "\<not> size_sub (length bs) p < length (payload e)"
    using p len small by (auto simp: size_sub_def nat_mod_distrib of_nat_diff [symmetric])
  have take: "take (length (payload e)) (drop p bs) = payload e" by (simp add: drop)
  have m: "map_of (chunkEntries ch) = m" and dist: "distinct (map fst (chunkEntries ch))" using assms(2) by (simp_all add: entries_hold_def)
  have add: "size_add p (length (payload e)) = p + length (payload e)"
    using p len small by (auto simp: size_add_def)
  note masks = kind_masks [OF e]
  show ?thesis
  proof (cases e)
    case (Part t r b)
    then show ?thesis
      using masks fits take m dist memory add
      by (cases "m r") (auto simp: process_body_def UA_SecureChannel_appendChunk_def appendChunk_def entries_hold_def so_far_def map_of_eq_None_iff
          map_of_replace_entry fst_replace_entry message_type_defs Let_def)
  next
    case (Last t r b)
    then show ?thesis
      using masks fits take m dist memory add
      by (cases "m r") (auto simp: process_body_def UA_SecureChannel_finalizeChunk_def appendChunk_def entries_hold_def so_far_def map_of_eq_None_iff
          map_of_remove_entry fst_remove_entry message_type_defs Let_def taking_def)
  next
    case (Abort t r)
    then show ?thesis
      using masks m dist add
      by (auto simp: process_body_def UA_SecureChannel_removeChunk_def entries_hold_def map_of_remove_entry fst_remove_entry message_type_defs Let_def)
  qed
qed

lemma process_chunk_event:
  assumes drop: "drop p bs = chunk_bytes (securityToken ch) (receiveSequenceNumber ch + 1) e @ rest" and e: "chunk_fits e"
    and "entries_hold ch m" and small: "length bs < 2 ^ 64" and memory: "\<And>n. realloc n" "\<And>n. malloc n"
  shows "\<exists>ch'. process_chunk realloc malloc entry_size (taking f) bs p ch app
       = Some (Next (p + length (chunk_bytes (securityToken ch) (receiveSequenceNumber ch + 1) e)), ch',
           fold (\<lambda>r a. f a r) (snd (receive m e)) app) \<and>
     entries_hold ch' (fst (receive m e)) \<and> securityToken ch' = securityToken ch \<and> receiveSequenceNumber ch' = receiveSequenceNumber ch + 1"
proof -
  let ?tok = "securityToken ch" and ?n = "receiveSequenceNumber ch + 1" and ?ch = "ch\<lparr>receiveSequenceNumber := receiveSequenceNumber ch + 1\<rparr>"
  let ?size = "of_nat (24 + length (payload e)) :: u32"
  have plain: "plain_message (message_of e)" and fit: "24 + length (payload e) < 2 ^ 32" using e by (simp_all add: chunk_fits_def)
  have d: "drop p bs = words_bytes [kind e, ?size, channelId ?tok] @ words_bytes [tokenId ?tok, ?n, request e] @ payload e @ rest"
    by (simp add: drop chunk_bytes_def words_bytes_def)
  have d1: "drop (p + 12) bs = words_bytes [tokenId ?tok, ?n, request e] @ payload e @ rest" using drop_append_drop [OF d] by simp
  have d2: "drop (p + 24) bs = payload e @ rest" using drop_append_drop [OF d1] by (simp add: add.assoc)
  have h: "decode_header 3 bs p = Some (UA_STATUSCODE_GOOD, [kind e, ?size, channelId ?tok], p + 4 * 3)"
    using d by (rule decode_header_bytes) simp
  have "length (drop p bs) = 24 + (length (payload e) + length rest)" by (simp add: drop)
  then have p: "p + 24 \<le> length bs" unfolding length_drop by linarith
  have "unat ?size = 24 + length (payload e)" using fit by (simp only: unat_of_nat take_bit_nat_eq_self_iff) (simp add: take_bit_nat_eq_self)
  then have size: "size_sub (unat ?size) 24 = length (payload e)" using fit by (simp add: size_sub_def nat_mod_distrib)
  obtain ch' where b: "process_body realloc malloc entry_size (taking f) bs (p + 24) (length (payload e)) (kind e) (request e) ?ch app
       = (Next (p + 24 + length (payload e)), ch', fold (\<lambda>r a. f a r) (snd (receive m e)) app)"
     "entries_hold ch' (fst (receive m e))" "securityToken ch' = ?tok" "receiveSequenceNumber ch' = ?n"
    using process_body_event [OF d2 _ plain small p, of ?ch m realloc malloc entry_size f app] assms(3) memory by (auto simp: entries_hold_def)
  have c: "check_security bs (p + 12) ch = Some (UA_STATUSCODE_GOOD, request e, p + 12 + 12, ?ch)"
    by (rule check_security_chunk) (rule d1)
  show ?thesis
    using b c h size kind_masks(2) [OF plain] starts_no_error [OF plain drop]
    by (simp add: process_chunk_def add.assoc)
qed

text \<open>All chunks of a buffer.\<close>

lemma process_stream:
  assumes "drop p bs = wire (securityToken ch) (receiveSequenceNumber ch) es" and "es \<noteq> []" and "\<And>e. e \<in> set es \<Longrightarrow> chunk_fits e"
    and "entries_hold ch m" and small: "length bs < 2 ^ 64" and memory: "\<And>n. realloc n" "\<And>n. malloc n"
  shows "\<exists>ch'. process_loop realloc malloc entry_size (taking f) bs p ch app
       = Some (UA_STATUSCODE_GOOD, ch', fold (\<lambda>r a. f a r) (snd (receive_all m es)) app) \<and>
     entries_hold ch' (fst (receive_all m es)) \<and> securityToken ch' = securityToken ch \<and>
     receiveSequenceNumber ch' = receiveSequenceNumber ch + of_nat (length es)"
  using assms(1-4)
proof (induction es arbitrary: p ch m app)
  case (Cons e es)
  let ?c = "chunk_bytes (securityToken ch) (receiveSequenceNumber ch + 1) e"
  have d: "drop p bs = ?c @ wire (securityToken ch) (receiveSequenceNumber ch + 1) es" using Cons(2) by simp
  obtain ch1 where one: "process_chunk realloc malloc entry_size (taking f) bs p ch app
       = Some (Next (p + length ?c), ch1, fold (\<lambda>r a. f a r) (snd (receive m e)) app)"
     "entries_hold ch1 (fst (receive m e))" "securityToken ch1 = securityToken ch" "receiveSequenceNumber ch1 = receiveSequenceNumber ch + 1"
    using process_chunk_event [OF d _ Cons(5) small memory] Cons(4) by fastforce
  have more: "drop (p + length ?c) bs = wire (securityToken ch1) (receiveSequenceNumber ch1) es" using drop_append_drop [OF d] one(3,4) by simp
  show ?case
  proof (cases "es = []")
    case True
    then have "\<not> p + length ?c < length bs" using more by simp
    then show ?thesis using True one by (simp add: process_loop.simps split: prod.split)
  next
    case False
    then have "p + length ?c < length bs" using arg_cong [OF more, of length] by (cases es) auto
    moreover obtain ch' where "process_loop realloc malloc entry_size (taking f) bs (p + length ?c) ch1 (fold (\<lambda>r a. f a r) (snd (receive m e)) app)
       = Some (UA_STATUSCODE_GOOD, ch', fold (\<lambda>r a. f a r) (snd (receive_all (fst (receive m e)) es)) (fold (\<lambda>r a. f a r) (snd (receive m e)) app))"
     "entries_hold ch' (fst (receive_all (fst (receive m e)) es))" "securityToken ch' = securityToken ch1"
     "receiveSequenceNumber ch' = receiveSequenceNumber ch1 + of_nat (length es)"
      using Cons(1) [OF more False _ one(2), of "fold (\<lambda>r a. f a r) (snd (receive m e)) app"] Cons(4) by auto
    ultimately show ?thesis using one by (auto simp: process_loop.simps [of _ _ _ _ _ p] split: prod.split)
  qed
qed simp

end
