(* ===== verification/UASending.thy ===== *)
theory UASending
  imports UASecureChannel UAEncode
begin

text \<open>
  Sending a message through a secure channel, \<open>ua_securechannel.c\<close>: the encoder fills a buffer, and the callback that it calls
  when the buffer is full sends the buffer as a chunk and gets the next one.

  The first 24 bytes of a buffer are kept for the headers, and the encoder sees what follows them. After the last chunk, and when
  no new buffer could be had, there is no buffer any more: to send it all the same is an access to freed memory.
\<close>

definition UA_SECURE_MESSAGE_HEADER_LENGTH :: nat where "UA_SECURE_MESSAGE_HEADER_LENGTH = 24"
definition UA_STATUSCODE_BADRESPONSETOOLARGE :: UA_StatusCode where "UA_STATUSCODE_BADRESPONSETOOLARGE = 0x80b90000"

record UA_ChunkInfo =
  requestId :: u32
  messageType :: u32
  chunksSoFar :: u16
  messageSizeSoFar :: nat
  ci_final :: bool
  errorCode :: UA_StatusCode

text \<open>The calls of the connection. A buffer that is handed out has the length that was asked for.\<close>

record 'n send_ops =
  getSendBuffer :: "'n \<Rightarrow> nat \<Rightarrow> UA_StatusCode \<times> bytes \<times> 'n"
  send :: "'n \<Rightarrow> bytes \<Rightarrow> 'n"

record 'n sending =
  chunkInfo :: UA_ChunkInfo
  ci_channel :: UA_SecureChannel
  net_state :: 'n
  buffers :: nat
  no_buffer :: bool
  freed_access :: bool

section \<open>Chunks\<close>

text \<open>The error code and an empty string, in the place of the payload; the results are not looked at.\<close>

definition abort_body :: "UA_StatusCode \<Rightarrow> bytes \<Rightarrow> (bytes \<times> nat) option" where
  "abort_body code dst =
     do { (r1, st) \<leftarrow> UInt32_encodeBinary code \<lparr>ebuf = dst, ebase = 0, pbase = 0, epos = 0, world = ()\<rparr>;
          (r2, st) \<leftarrow> String_encodeBinary None NullArray st;
          Some (ebuf st, epos st) }"

definition UA_SecureChannel_sendChunk :: "'n send_ops \<Rightarrow> UA_Connection \<Rightarrow> 'n sending exchange" where
  "UA_SecureChannel_sendChunk ops connection s dst offset =
     (let ci = chunkInfo s; channel = ci_channel s
      in if no_buffer s then (UA_STATUSCODE_BADINTERNALERROR, s\<lparr>freed_access := True\<rparr>, buffers s, dst)
         else if ch_connection channel = None then (UA_STATUSCODE_BADINTERNALERROR, s, buffers s, dst)
         else let
           offset = offset + UA_SECURE_MESSAGE_HEADER_LENGTH;
           error = (if messageSizeSoFar ci + offset > unat (maxMessageSize (remoteConf connection)) \<and> maxMessageSize (remoteConf connection) > 0
                    then UA_STATUSCODE_BADRESPONSETOOLARGE else errorCode ci);
           n = chunksSoFar ci + 1;
           error = (if unat n > unat (maxChunkCount (remoteConf connection)) \<and> maxChunkCount (remoteConf connection) > 0
                    then UA_STATUSCODE_BADRESPONSETOOLARGE else error);
           kind = messageType ci + (if error = UA_STATUSCODE_GOOD then if ci_final ci then UA_CHUNKTYPE_FINAL else UA_CHUNKTYPE_INTERMEDIATE
                                    else UA_CHUNKTYPE_ABORT);
           final = (ci_final ci \<or> error \<noteq> UA_STATUSCODE_GOOD);
           (dst, offset) = (if error = UA_STATUSCODE_GOOD then (dst, offset)
                            else case abort_body error dst of None \<Rightarrow> (dst, UA_SECURE_MESSAGE_HEADER_LENGTH)
                                 | Some (dst, n) \<Rightarrow> (dst, n + UA_SECURE_MESSAGE_HEADER_LENGTH));
           sequence = sendSequenceNumber channel + 1;
           header = words_bytes [kind, of_nat offset, channelId (securityToken channel), tokenId (securityToken channel), sequence, requestId ci];
           net = send ops (net_state s) (header @ take (offset - UA_SECURE_MESSAGE_HEADER_LENGTH) dst);
           s = s\<lparr>chunkInfo := ci\<lparr>messageSizeSoFar := messageSizeSoFar ci + offset, chunksSoFar := n, ci_final := final, errorCode := error\<rparr>,
                 ci_channel := channel\<lparr>sendSequenceNumber := sequence\<rparr>, net_state := net\<rparr>
         in if final then (error, s\<lparr>no_buffer := True\<rparr>, buffers s, [])
            else let (retval, buf, net) = getSendBuffer ops (net_state s) (unat (sendBufferSize (localConf connection)));
                     s = s\<lparr>net_state := net\<rparr>
                 in if retval \<noteq> UA_STATUSCODE_GOOD then (retval, s\<lparr>no_buffer := True\<rparr>, buffers s, [])
                    else (error, s\<lparr>buffers := buffers s + 1\<rparr>, buffers s + 1, drop UA_SECURE_MESSAGE_HEADER_LENGTH buf))"

section \<open>Messages\<close>

definition message_type_of :: "node_id \<Rightarrow> u32" where
  "message_type_of i = (case ident i of
     NUMERIC n \<Rightarrow> if n = 446 \<or> n = 449 then UA_MESSAGETYPE_OPN else if n = 452 \<or> n = 455 then UA_MESSAGETYPE_CLO else UA_MESSAGETYPE_MSG
   | _ \<Rightarrow> UA_MESSAGETYPE_MSG)"

text \<open>The status, the channel and the network afterwards.\<close>

definition UA_SecureChannel_sendBinaryMessage ::
    "type_tables \<Rightarrow> 'n send_ops \<Rightarrow> UA_Connection \<Rightarrow> UA_SecureChannel \<Rightarrow> 'n \<Rightarrow> u32 \<Rightarrow> uvalue \<Rightarrow> type_ptr \<Rightarrow>
      (UA_StatusCode \<times> UA_SecureChannel \<times> 'n) option" where
  "UA_SecureChannel_sendBinaryMessage T ops connection channel net request content contentType =
     (if ch_connection channel = None then Some (UA_STATUSCODE_BADINTERNALERROR, channel, net)
      else let (retval, buf, net) = getSendBuffer ops net (unat (sendBufferSize (localConf connection)))
           in if retval \<noteq> UA_STATUSCODE_GOOD then Some (retval, channel, net)
              else if length buf < UA_SECURE_MESSAGE_HEADER_LENGTH then None
              else do {
                t \<leftarrow> type_at T contentType;
                let i = (typeId t)\<lparr>ident := NUMERIC (ucast (binaryEncodingId t))\<rparr>;
                (r, st) \<leftarrow> NodeId_encodeBinary None i
                  \<lparr>ebuf = drop UA_SECURE_MESSAGE_HEADER_LENGTH buf, ebase = 0, pbase = 0, epos = 0, world = ()\<rparr>;
                let ci = \<lparr>requestId = request, messageType = message_type_of i, chunksSoFar = 0, messageSizeSoFar = 0, ci_final = False,
                          errorCode = UA_STATUSCODE_GOOD\<rparr>;
                let s = \<lparr>chunkInfo = ci, ci_channel = channel, net_state = net, buffers = 0, no_buffer = False, freed_access = False\<rparr>;
                (retval, messagePos, st) \<leftarrow>
                  UA_encodeBinary T (Some (UA_SecureChannel_sendChunk ops connection)) contentType content s 0 (ebuf st) (epos st);
                let s = world st;
                let (retval, s) =
                  (if retval \<noteq> UA_STATUSCODE_GOOD
                   then if ci_final (chunkInfo s) then (retval, s)
                        else (case UA_SecureChannel_sendChunk ops connection (s\<lparr>chunkInfo := (chunkInfo s)\<lparr>errorCode := retval\<rparr>\<rparr>) (ebuf st) messagePos
                              of (_, s, _, _) \<Rightarrow> (retval, s))
                   else (case UA_SecureChannel_sendChunk ops connection (s\<lparr>chunkInfo := (chunkInfo s)\<lparr>ci_final := True\<rparr>\<rparr>) (ebuf st) messagePos
                         of (rv, s, _, _) \<Rightarrow> (rv, s)));
                if freed_access s then None else Some (retval, ci_channel s, net_state s) })"

end
