(* ===== verification/UAPeers.thy ===== *)
theory UAPeers
  imports UASecureChannel
begin

text \<open>
  The pointers between connections, secure channels and sessions as a state machine: what the stack does with them step by
  step, and that the pointers of the two sides always agree. A step that would follow a pointer to a freed channel is no step, so
  the invariant has to show that there are none.
\<close>

text \<open>A channel is opened for a connection that has none, and freed after its cleanup; a session is detached from its channel.\<close>

inductive peers_step :: "(nat \<Rightarrow> bool) \<Rightarrow> peers \<Rightarrow> peers \<Rightarrow> bool" for malloc :: "nat \<Rightarrow> bool" where
  open_channel: "channels s c = None \<Longrightarrow> peers_step malloc s (set_channel c UA_SecureChannel_init s)"
| attach_channel: "connection_channel s k = None \<Longrightarrow> UA_Connection_attachSecureChannel k c s = Some s' \<Longrightarrow> peers_step malloc s s'"
| detach_channel: "UA_Connection_detachSecureChannel k s = Some s' \<Longrightarrow> peers_step malloc s s'"
| attach_session: "UA_SecureChannel_attachSession malloc n c se s = Some s' \<Longrightarrow> peers_step malloc s s'"
| detach_session: "session_channel s se = Some c \<Longrightarrow> UA_SecureChannel_detachSession c (Some se) s = Some s' \<Longrightarrow> peers_step malloc s s'"
| close_channel: "UA_SecureChannel_deleteMembersCleanup c s = Some s' \<Longrightarrow> peers_step malloc s (s'\<lparr>channels := (channels s')(c := None)\<rparr>)"

inductive peers_reachable :: "(nat \<Rightarrow> bool) \<Rightarrow> peers \<Rightarrow> bool" for malloc :: "nat \<Rightarrow> bool" where
  start: "peers_reachable malloc \<lparr>channels = (\<lambda>c. None), connection_channel = (\<lambda>k. None), session_channel = (\<lambda>se. None), authenticationToken = tokens\<rparr>"
| step: "peers_reachable malloc s \<Longrightarrow> peers_step malloc s s' \<Longrightarrow> peers_reachable malloc s'"

definition connections_agree :: "peers \<Rightarrow> bool" where
  "connections_agree s \<longleftrightarrow> (\<forall>k c. connection_channel s k = Some c \<longleftrightarrow> (\<exists>ch. channels s c = Some ch \<and> ch_connection ch = Some k))"

definition sessions_agree :: "peers \<Rightarrow> bool" where
  "sessions_agree s \<longleftrightarrow> (\<forall>se c. session_channel s se = Some c \<longleftrightarrow> (\<exists>ch. channels s c = Some ch \<and> se \<in> set (sessions ch))) \<and>
     (\<forall>c ch. channels s c = Some ch \<longrightarrow> distinct (sessions ch))"

definition peers_ok :: "peers \<Rightarrow> bool" where
  "peers_ok s \<longleftrightarrow> connections_agree s \<and> sessions_agree s"

lemma set_channel_simps [simp]:
  "channels (set_channel c ch s) = (channels s)(c \<mapsto> ch)" "connection_channel (set_channel c ch s) = connection_channel s"
  "session_channel (set_channel c ch s) = session_channel s"
  by (simp_all add: set_channel_def)

lemma connection_of: "peers_ok s \<Longrightarrow> channels s c = Some ch \<Longrightarrow> ch_connection ch = Some k \<Longrightarrow> connection_channel s k = Some c"
  unfolding peers_ok_def connections_agree_def by blast

lemma session_of: "peers_ok s \<Longrightarrow> channels s c = Some ch \<Longrightarrow> se \<in> set (sessions ch) \<Longrightarrow> session_channel s se = Some c"
  unfolding peers_ok_def sessions_agree_def by blast

lemma attach_ok:
  assumes ok: "peers_ok s" and "connection_channel s k = None" and a: "UA_Connection_attachSecureChannel k c s = Some s'"
  shows "peers_ok s'"
proof -
  obtain ch where ch: "channels s c = Some ch" using a by (auto simp: UA_Connection_attachSecureChannel_def bind_eq_Some_conv)
  show ?thesis
  proof (cases "ch_connection ch = None")
    case True
    then have s': "s' = (set_channel c (ch\<lparr>ch_connection := Some k\<rparr>) s)\<lparr>connection_channel := (connection_channel s)(k := Some c)\<rparr>"
      using a ch by (simp add: UA_Connection_attachSecureChannel_def)
    have "ch_connection ch' \<noteq> Some k" if "channels s c' = Some ch'" for c' ch' using connection_of [OF ok that, of k] assms(2) by auto
    then have "connections_agree s'"
      using ok assms(2) ch True by (auto simp: s' peers_ok_def connections_agree_def)
    moreover have "sessions_agree s'"
      using ok ch by (auto simp: s' peers_ok_def sessions_agree_def)
    ultimately show ?thesis by (simp add: peers_ok_def)
  qed (use a ch ok in \<open>auto simp: UA_Connection_attachSecureChannel_def\<close>)
qed

lemma detach_ok:
  assumes ok: "peers_ok s" and a: "UA_Connection_detachSecureChannel k s = Some s'"
  shows "peers_ok s'"
proof (cases "connection_channel s k")
  case None
  then have "s' = s\<lparr>connection_channel := (connection_channel s)(k := None)\<rparr>" using a by (simp add: UA_Connection_detachSecureChannel_def)
  moreover have "(connection_channel s)(k := None) = connection_channel s" using None by auto
  ultimately show ?thesis using ok by (simp add: peers_ok_def connections_agree_def sessions_agree_def)
next
  case (Some c)
  then obtain ch where ch: "channels s c = Some ch" "ch_connection ch = Some k"
    using ok by (auto simp: peers_ok_def connections_agree_def)
  then have s': "s' = (set_channel c (ch\<lparr>ch_connection := None\<rparr>) s)\<lparr>connection_channel := (connection_channel s)(k := None)\<rparr>"
    using a Some by (simp add: UA_Connection_detachSecureChannel_def)
  have "ch_connection ch' \<noteq> Some k" if "channels s c' = Some ch'" "c' \<noteq> c" for c' ch' using connection_of [OF ok that(1), of k] Some that(2) by auto
  then have "connections_agree s'" using ok ch Some by (auto simp: s' peers_ok_def connections_agree_def)
  moreover have "sessions_agree s'" using ok ch by (auto simp: s' peers_ok_def sessions_agree_def)
  ultimately show ?thesis by (simp add: peers_ok_def)
qed

lemma connection_to: "peers_ok s \<Longrightarrow> connection_channel s k = Some c \<Longrightarrow> \<exists>ch. channels s c = Some ch \<and> ch_connection ch = Some k"
  unfolding peers_ok_def connections_agree_def by blast

lemma session_to: "peers_ok s \<Longrightarrow> session_channel s se = Some c \<Longrightarrow> \<exists>ch. channels s c = Some ch \<and> se \<in> set (sessions ch)"
  unfolding peers_ok_def sessions_agree_def by blast

lemma detach_defined:
  assumes "peers_ok s" shows "\<exists>s'. UA_Connection_detachSecureChannel k s = Some s'"
proof (cases "connection_channel s k")
  case (Some c)
  then show ?thesis using connection_to [OF assms Some] by (auto simp: UA_Connection_detachSecureChannel_def)
qed (simp add: UA_Connection_detachSecureChannel_def)

lemma detach_keeps: "UA_Connection_detachSecureChannel k s = Some s' \<Longrightarrow> dom (channels s') = dom (channels s)"
  by (auto simp: UA_Connection_detachSecureChannel_def bind_eq_Some_conv split: option.splits if_splits)

lemma close_defined:
  assumes "peers_ok s" and "channels s c = Some ch" shows "\<exists>s'. UA_SecureChannel_deleteMembersCleanup c s = Some s'"
proof (cases "ch_connection ch")
  case (Some k)
  obtain s' where s': "UA_Connection_detachSecureChannel k s = Some s'" using detach_defined [OF assms(1)] by blast
  then have "c \<in> dom (channels s')" using detach_keeps assms(2) by blast
  then show ?thesis using assms(2) Some s' by (auto simp: UA_SecureChannel_deleteMembersCleanup_def)
qed (use assms(2) in \<open>simp add: UA_SecureChannel_deleteMembersCleanup_def\<close>)

lemma attach_session_ok:
  assumes ok: "peers_ok s" and a: "UA_SecureChannel_attachSession malloc n c se s = Some s'"
  shows "peers_ok s'"
proof (cases "malloc n \<and> session_channel s se = None")
  case True
  then obtain ch where ch: "channels s c = Some ch" using a by (auto simp: UA_SecureChannel_attachSession_def bind_eq_Some_conv)
  then have s': "s' = (set_channel c (ch\<lparr>sessions := se # sessions ch\<rparr>) s)\<lparr>session_channel := (session_channel s)(se := Some c)\<rparr>"
    using a True by (simp add: UA_SecureChannel_attachSession_def)
  have "connections_agree s'" using ok ch by (auto simp: s' peers_ok_def connections_agree_def)
  moreover have "se \<notin> set (sessions ch')" if "channels s c' = Some ch'" for c' ch'
    using session_of [OF ok that, of se] True by auto
  then have "sessions_agree s'" using ok ch by (auto simp: s' peers_ok_def sessions_agree_def)
  ultimately show ?thesis by (simp add: peers_ok_def)
qed (use a ok in \<open>auto simp: UA_SecureChannel_attachSession_def split: if_splits\<close>)

lemma detach_session_ok:
  assumes ok: "peers_ok s" and c: "session_channel s se = Some c" and a: "UA_SecureChannel_detachSession c (Some se) s = Some s'"
  shows "peers_ok s'"
proof -
  obtain ch where ch: "channels s c = Some ch" "se \<in> set (sessions ch)" "distinct (sessions ch)"
    using ok c by (auto simp: peers_ok_def sessions_agree_def)
  then have s': "s' = set_channel c (ch\<lparr>sessions := remove1 se (sessions ch)\<rparr>) (s\<lparr>session_channel := (session_channel s)(se := None)\<rparr>)"
    using a by (simp add: UA_SecureChannel_detachSession_def)
  have "connections_agree s'" using ok ch by (auto simp: s' peers_ok_def connections_agree_def)
  moreover have "se \<notin> set (sessions ch')" if "channels s c' = Some ch'" "c' \<noteq> c" for c' ch'
    using session_of [OF ok that(1), of se] c that(2) by auto
  then have "sessions_agree s'" using ok c ch by (auto simp: s' peers_ok_def sessions_agree_def)
  ultimately show ?thesis by (simp add: peers_ok_def)
qed

lemma close_ok:
  assumes ok: "peers_ok s" and a: "UA_SecureChannel_deleteMembersCleanup c s = Some s'"
  shows "peers_ok (s'\<lparr>channels := (channels s')(c := None)\<rparr>)"
proof -
  obtain ch where ch: "channels s c = Some ch" using a by (auto simp: UA_SecureChannel_deleteMembersCleanup_def bind_eq_Some_conv)
  obtain s1 where s1: "(case ch_connection ch of None \<Rightarrow> Some s | Some k \<Rightarrow> UA_Connection_detachSecureChannel k s) = Some s1"
    using a ch by (auto simp: UA_SecureChannel_deleteMembersCleanup_def bind_eq_Some_conv)
  have ok1: "peers_ok s1" using s1 ok detach_ok by (auto split: option.splits)
  obtain ch1 where ch1: "channels s1 c = Some ch1" using a ch s1 by (auto simp: UA_SecureChannel_deleteMembersCleanup_def bind_eq_Some_conv)
  have free: "ch_connection ch1 = None"
  proof (cases "ch_connection ch")
    case (Some k)
    then have "connection_channel s k = Some c" using ok ch by (auto simp: peers_ok_def connections_agree_def)
    then show ?thesis using s1 ch1 ch Some by (auto simp: UA_Connection_detachSecureChannel_def)
  qed (use s1 ch ch1 in auto)
  have s': "s' = (set_channel c (ch1\<lparr>sessions := [], chunkEntries := []\<rparr>) s1)
      \<lparr>session_channel := (\<lambda>se. if se \<in> set (sessions ch1) then None else session_channel s1 se)\<rparr>"
    using a ch s1 ch1 by (simp add: UA_SecureChannel_deleteMembersCleanup_def)
  let ?s = "s'\<lparr>channels := (channels s')(c := None)\<rparr>"
  have "connections_agree ?s" using ok1 ch1 free by (auto simp: s' peers_ok_def connections_agree_def)
  moreover have "se \<notin> set (sessions ch')" if "channels s1 c' = Some ch'" "c' \<noteq> c" "se \<in> set (sessions ch1)" for c' ch' se
  proof
    assume "se \<in> set (sessions ch')"
    then have "session_channel s1 se = Some c'" "session_channel s1 se = Some c"
      using session_of [OF ok1] ch1 that by blast+
    then show False using that(2) by simp
  qed
  then have "sessions_agree ?s" using ok1 ch1 by (auto simp: s' peers_ok_def sessions_agree_def)
  ultimately show ?thesis by (simp add: peers_ok_def)
qed

lemma open_ok: "peers_ok s \<Longrightarrow> channels s c = None \<Longrightarrow> peers_ok (set_channel c UA_SecureChannel_init s)"
  by (auto simp: peers_ok_def connections_agree_def sessions_agree_def UA_SecureChannel_init_def)

lemma step_ok: "peers_step malloc s s' \<Longrightarrow> peers_ok s \<Longrightarrow> peers_ok s'"
  by (induction rule: peers_step.induct) (auto intro: open_ok attach_ok detach_ok attach_session_ok detach_session_ok close_ok)

lemma peers_reachable_ok: "peers_reachable malloc s \<Longrightarrow> peers_ok s"
proof (induction rule: peers_reachable.induct)
  case (start tokens)
  then show ?case by (simp add: peers_ok_def connections_agree_def sessions_agree_def)
qed (rule step_ok)

end
