(* ===== verification/ChannelProperties.thy ===== *)
theory ChannelProperties
  imports UAReassembly UASending UAValueProperties UAPeers
begin

text \<open>Properties of connections and secure channels.\<close>

section \<open>A message through the channel\<close>

lemma bind_same: "m = Some x \<Longrightarrow> m \<bind> f = f x"
  by simp

lemma node_id_written:
  assumes "nodeid_ok i" and "length (bin_nodeid i) \<le> length buf"
  shows "NodeId_encodeBinary None i \<lparr>ebuf = buf, ebase = 0, pbase = 0, epos = 0, world = ()\<rparr>
     = Some (0, \<lparr>ebuf = patch buf 0 (bin_nodeid i), ebase = 0, pbase = 0, epos = length (bin_nodeid i), world = ()\<rparr>)"
  using emitsD [OF emits_nodeid [OF assms(1)], of "\<lparr>ebuf = buf, ebase = 0, pbase = 0, epos = 0, world = ()\<rparr>" None] assms(2)
  by (simp add: wrote_def)

lemma struct_written:
  assumes "encodable T p (Struct_v ms)" and "standard_ok T" and "type_at T p = Some t"
    and "offset + length (bin_value T (Struct_v ms)) \<le> length buf"
  shows "UA_encodeBinary T cb p (Struct_v ms) w 0 buf offset
     = Some (0, offset + length (bin_value T (Struct_v ms)),
         \<lparr>ebuf = patch buf offset (bin_value T (Struct_v ms)), ebase = 0, pbase = 0, epos = offset + length (bin_value T (Struct_v ms)), world = w\<rparr>)"
  using emitsD [OF internal_struct [OF assms(1-3)], of "\<lparr>ebuf = buf, ebase = 0, pbase = 0, epos = offset, world = w\<rparr>" cb] assms(4)
  by (simp add: UA_encodeBinary_def wrote_def)

text \<open>The last chunk of a message.\<close>

lemma last_chunk_sent:
  assumes "ch_connection (ci_channel s) \<noteq> None" and "\<not> no_buffer s"
    and ci: "chunkInfo s = \<lparr>requestId = r, messageType = mt, chunksSoFar = 0, messageSizeSoFar = 0, ci_final = True, errorCode = UA_STATUSCODE_GOOD\<rparr>"
    and max: "maxMessageSize (remoteConf c) = 0 \<or> 24 + length body \<le> unat (maxMessageSize (remoteConf c))"
  shows "\<exists>s'. UA_SecureChannel_sendChunk ops c s (body @ rest) (length body) = (UA_STATUSCODE_GOOD, s', buffers s', []) \<and>
     ci_channel s' = (ci_channel s)\<lparr>sendSequenceNumber := sendSequenceNumber (ci_channel s) + 1\<rparr> \<and> freed_access s' = freed_access s \<and>
     net_state s' = send ops (net_state s) (chunk_bytes (securityToken (ci_channel s)) (sendSequenceNumber (ci_channel s) + 1) (Last mt r body))"
proof -
  have "unat (maxChunkCount (remoteConf c)) \<ge> 1 \<or> \<not> maxChunkCount (remoteConf c) > 0" by (auto simp: word_less_nat_alt)
  then show ?thesis
    using assms by (auto simp: UA_SecureChannel_sendChunk_def Let_def UA_SECURE_MESSAGE_HEADER_LENGTH_def chunk_bytes_def add.commute)
qed

definition message_body :: "type_tables \<Rightarrow> UA_DataType \<Rightarrow> uvalue \<Rightarrow> bytes" where
  "message_body T t v = bin_nodeid (binary_id t) @ bin_value T v"

lemma patch_patch0: "length (xs @ ys) \<le> length m \<Longrightarrow> patch (patch m 0 xs) (length xs) ys = (xs @ ys) @ drop (length (xs @ ys)) m"
  by (simp add: patch_def add.commute)

lemma message_sent:
  assumes "encodable T p (Struct_v ms)" and "standard_ok T" and t: "type_at T p = Some t"
    and buf: "getSendBuffer ops net (unat (sendBufferSize (localConf c))) = (UA_STATUSCODE_GOOD, buf, net')"
    and len: "24 + length (message_body T t (Struct_v ms)) \<le> length buf" and con: "ch_connection ch \<noteq> None"
    and max: "maxMessageSize (remoteConf c) = 0 \<or> 24 + length (message_body T t (Struct_v ms)) \<le> unat (maxMessageSize (remoteConf c))"
  shows "UA_SecureChannel_sendBinaryMessage T ops c ch net r (Struct_v ms) p
     = Some (UA_STATUSCODE_GOOD, ch\<lparr>sendSequenceNumber := sendSequenceNumber ch + 1\<rparr>, send ops net'
         (chunk_bytes (securityToken ch) (sendSequenceNumber ch + 1) (Last (message_type_of (binary_id t)) r (message_body T t (Struct_v ms)))))"
proof -
  let ?body = "message_body T t (Struct_v ms)" and ?m = "drop 24 buf"
  define s where "s = \<lparr>chunkInfo = \<lparr>requestId = r, messageType = message_type_of (binary_id t), chunksSoFar = 0, messageSizeSoFar = 0, ci_final = False,
      errorCode = UA_STATUSCODE_GOOD\<rparr>, ci_channel = ch, net_state = net', buffers = 0, no_buffer = False, freed_access = False\<rparr>"
  have fit: "length ?body \<le> length ?m" using len by simp
  have id: "NodeId_encodeBinary None (binary_id t) \<lparr>ebuf = ?m, ebase = 0, pbase = 0, epos = 0, world = ()\<rparr>
     = Some (0, \<lparr>ebuf = patch ?m 0 (bin_nodeid (binary_id t)), ebase = 0, pbase = 0, epos = length (bin_nodeid (binary_id t)), world = ()\<rparr>)"
    by (rule node_id_written) (use fit in \<open>simp_all add: message_body_def\<close>)
  have v: "UA_encodeBinary T cb p (Struct_v ms) s 0 (patch ?m 0 (bin_nodeid (binary_id t))) (length (bin_nodeid (binary_id t)))
     = Some (0, length ?body, \<lparr>ebuf = ?body @ drop (length ?body) ?m, ebase = 0, pbase = 0, epos = length ?body, world = s\<rparr>)" for cb
    using struct_written [OF assms(1-3), of "length (bin_nodeid (binary_id t))" "patch ?m 0 (bin_nodeid (binary_id t))" cb s] fit
      patch_patch0 [of "bin_nodeid (binary_id t)" "bin_value T (Struct_v ms)" ?m]
    by (simp add: message_body_def)
  obtain s' where sent: "UA_SecureChannel_sendChunk ops c (s\<lparr>chunkInfo := (chunkInfo s)\<lparr>ci_final := True\<rparr>\<rparr>) (?body @ drop (length ?body) ?m) (length ?body)
       = (UA_STATUSCODE_GOOD, s', buffers s', [])"
    "ci_channel s' = ch\<lparr>sendSequenceNumber := sendSequenceNumber ch + 1\<rparr>" "\<not> freed_access s'"
    "net_state s' = send ops net' (chunk_bytes (securityToken ch) (sendSequenceNumber ch + 1) (Last (message_type_of (binary_id t)) r ?body))"
    using last_chunk_sent [of "s\<lparr>chunkInfo := (chunkInfo s)\<lparr>ci_final := True\<rparr>\<rparr>" r "message_type_of (binary_id t)" c ?body ops "drop (length ?body) ?m"] con max
    by (auto simp: s_def)
  moreover obtain k where "ch_connection ch = Some k" using con by blast
  ultimately show ?thesis
    using buf len t id v [unfolded s_def] sent [unfolded s_def]
    by (simp add: UA_SecureChannel_sendBinaryMessage_def UA_SECURE_MESSAGE_HEADER_LENGTH_def Let_def binary_id_def [symmetric] UA_STATUSCODE_GOOD_def)
qed

lemma message_type_plain: "message_type_of i \<noteq> UA_MESSAGETYPE_OPN \<Longrightarrow> plain_message (message_type_of i)"
  by (auto simp: message_type_of_def plain_message_def split: UA_Identifier_of.splits if_splits)

lemma message_received:
  assumes "plain_message mt" and "24 + length body < 2 ^ 32" and "body \<noteq> []"
    and "map_of (chunkEntries ch) r = None" and "distinct (map fst (chunkEntries ch))" and memory: "\<And>n. realloc n" "\<And>n. malloc n"
  shows "\<exists>ch'. UA_SecureChannel_processChunks realloc malloc entry_size ch
       (chunk_bytes (securityToken ch) (receiveSequenceNumber ch + 1) (Last mt r body)) (taking f) app
     = Some (UA_STATUSCODE_GOOD, ch', f app (Message mt r body)) \<and> receiveSequenceNumber ch' = receiveSequenceNumber ch + 1"
proof -
  let ?e = "Last mt r body"
  have "\<exists>ch'. process_loop realloc malloc entry_size (taking f) (chunk_bytes (securityToken ch) (receiveSequenceNumber ch + 1) ?e) 0 ch app
       = Some (UA_STATUSCODE_GOOD, ch', fold (\<lambda>r a. f a r) (snd (receive_all (map_of (chunkEntries ch)) [?e])) app) \<and>
     entries_hold ch' (fst (receive_all (map_of (chunkEntries ch)) [?e])) \<and> securityToken ch' = securityToken ch \<and>
     receiveSequenceNumber ch' = receiveSequenceNumber ch + of_nat (length [?e])"
    by (rule process_stream) (use assms in \<open>simp_all add: chunk_fits_def entries_hold_def\<close>)
  then show ?thesis using assms(3,4) by (auto simp: UA_SecureChannel_processChunks_def so_far_def)
qed

lemma unat_lt2p_32: "unat (w :: u32) < 2 ^ 32"
  using unsigned_less [of w] by simp

text \<open>The search for a type finds the first one with its binary identifier.\<close>

lemma finds_type:
  assumes t: "type_at T p = Some t" and where_it_stands: "fst p = (if namespaceIndex (typeId t) \<noteq> 0 then Custom else Standard)"
    and first: "\<And>k. k < snd p \<Longrightarrow> binary_id (table T (fst p) ! k) \<noteq> binary_id t"
  shows "findDataTypeByBinary T (binary_id t) = Some p"
proof -
  obtain which i where p: "p = (which, i)" by (cases p)
  let ?ts = "table T which"
  let ?P = "\<lambda>k. ucast (binaryEncodingId (?ts ! k)) = (ucast (binaryEncodingId t) :: u32) \<and> namespaceIndex (typeId (?ts ! k)) = namespaceIndex (typeId t)"
  have i: "i < length ?ts" "?ts ! i = t" using t p by (auto simp: type_at_def load_def split: if_splits)
  have same: "?P k \<longleftrightarrow> binary_id (?ts ! k) = binary_id t" for k
    by (cases "typeId (?ts ! k)"; cases "typeId t") (auto simp: binary_id_def)
  have "find ?P [0..<length ?ts] = Some i"
    unfolding find_Some_iff by (rule exI [of _ i]) (use i first p same in auto)
  then show ?thesis using where_it_stands p by (simp add: findDataTypeByBinary_def binary_id_def Let_def)
qed

text \<open>C1: A structure that one side sends through a secure channel arrives at the other side. The value is \<open>encodable\<close> for its type (see
  \<open>structure_roundtrip\<close>), the type is not builtin, stands in the standard table for namespace 0 and among the custom types otherwise, and
  no type before it in this table has the same binary identifier; it is no request or response to open a channel. When the encoding fits
  into one send buffer of the configured size and into what the peer allows, \<open>UA_SecureChannel_sendBinaryMessage\<close> hands one chunk to the
  network. The channel of the peer, with the same token, in step with the sequence numbers, without a chunk of this request so far and
  with memory, accepts this chunk and calls its callback once, with the type of the message, the identifier of the request and a body.
  The body starts with an identifier under which the peer finds the type of the structure again, and decoding the rest as this type gives
  the structure as \<open>norm_value\<close> describes it. Both channels are in step again afterwards.\<close>

theorem message_roundtrip:
  assumes "encodable T p (Struct_v ms)" and "standard_ok T" and "type_at T p = Some t" and "\<not> builtin t"
    and "fst p = (if namespaceIndex (typeId t) \<noteq> 0 then Custom else Standard)"
    and "\<And>k. k < snd p \<Longrightarrow> binary_id (table T (fst p) ! k) \<noteq> binary_id t" and "message_type_of (binary_id t) \<noteq> UA_MESSAGETYPE_OPN"
    and "getSendBuffer ops net (unat (sendBufferSize (localConf c))) = (UA_STATUSCODE_GOOD, buf, net')"
    and "length buf = unat (sendBufferSize (localConf c))" and "24 + length (message_body T t (Struct_v ms)) \<le> length buf"
    and "maxMessageSize (remoteConf c) = 0 \<or> 24 + length (message_body T t (Struct_v ms)) \<le> unat (maxMessageSize (remoteConf c))"
    and "ch_connection sender \<noteq> None" and "securityToken receiver = securityToken sender"
    and "receiveSequenceNumber receiver = sendSequenceNumber sender" and "map_of (chunkEntries receiver) r = None"
    and "distinct (map fst (chunkEntries receiver))" and "\<And>n. realloc n" and "\<And>n. malloc n" and "size (Struct_v ms) < depth"
  shows "\<exists>chunk receiver' st.
     UA_SecureChannel_sendBinaryMessage T ops c sender net r (Struct_v ms) p
       = Some (UA_STATUSCODE_GOOD, sender\<lparr>sendSequenceNumber := sendSequenceNumber sender + 1\<rparr>, send ops net' chunk) \<and>
     UA_SecureChannel_processChunks realloc malloc entry_size receiver chunk (taking (\<lambda>rs r. rs @ [r])) []
       = Some (UA_STATUSCODE_GOOD, receiver', [Message (message_type_of (binary_id t)) r (message_body T t (Struct_v ms))]) \<and>
     receiveSequenceNumber receiver' = sendSequenceNumber sender + 1 \<and>
     NodeId_decodeBinary malloc zero_nodeid \<lparr>dbuf = message_body T t (Struct_v ms), dpos = 0\<rparr> = Some (UA_STATUSCODE_GOOD, binary_id t, st) \<and>
     findDataTypeByBinary T (binary_id t) = Some p \<and>
     UA_decodeBinary depth T malloc (message_body T t (Struct_v ms)) (dpos st) p
       = Some (UA_STATUSCODE_GOOD, length (message_body T t (Struct_v ms)), Some (norm_value T (Struct_v ms)))"
proof -
  let ?body = "message_body T t (Struct_v ms)" and ?id = "bin_nodeid (binary_id t)"
  let ?chunk = "chunk_bytes (securityToken sender) (sendSequenceNumber sender + 1) (Last (message_type_of (binary_id t)) r ?body)"
  have "unat (sendBufferSize (localConf c)) < 2 ^ 32" by (rule unat_lt2p_32)
  then have "24 + length ?body < 2 ^ 32" using assms(9,10) by simp
  moreover have "?body \<noteq> []" by (auto simp: message_body_def bin_nodeid_masked_def split: UA_Identifier_of.splits if_splits)
  ultimately obtain receiver' where received: "UA_SecureChannel_processChunks realloc malloc entry_size receiver ?chunk (taking (\<lambda>rs r. rs @ [r])) []
       = Some (UA_STATUSCODE_GOOD, receiver', [Message (message_type_of (binary_id t)) r ?body])"
     "receiveSequenceNumber receiver' = sendSequenceNumber sender + 1"
    using message_received [OF message_type_plain [OF assms(7)], of ?body receiver r realloc malloc entry_size "\<lambda>rs r. rs @ [r]" "[]"] assms(13-18)
    by auto
  have norm: "norm_nodeid (binary_id t) = binary_id t" by (simp add: norm_nodeid_def binary_id_def)
  obtain st where id: "NodeId_decodeBinary malloc zero_nodeid \<lparr>dbuf = ?body, dpos = 0\<rparr> = Some (0, binary_id t, st)"
    "consumed (length ?id) \<lparr>dbuf = ?body, dpos = 0\<rparr> st"
    using readsD [OF reads_nodeid [of "binary_id t" malloc zero_nodeid], of "\<lparr>dbuf = ?body, dpos = 0\<rparr>" "bin_value T (Struct_v ms)"] assms(18)
    by (auto simp: message_body_def norm)
  have "reads (UA_decodeBinaryInternal depth T malloc p) (bin_value T (Struct_v ms)) (norm_value T (Struct_v ms))"
    by (rule internal_read [OF assms(1-4,19,18)])
  from readsD [OF this, of "\<lparr>dbuf = ?body, dpos = length ?id\<rparr>" "[]"]
  have "UA_decodeBinary depth T malloc ?body (length ?id) p = Some (UA_STATUSCODE_GOOD, length ?body, Some (norm_value T (Struct_v ms)))"
    by (auto simp: message_body_def UA_decodeBinary_def UA_STATUSCODE_GOOD_def consumed_def)
  moreover have "dpos st = length ?id" using id(2) by (simp add: consumed_def)
  ultimately show ?thesis
    using message_sent [OF assms(1-3,8,10,12,11)] received id(1) finds_type [OF assms(3,5,6)] by (auto simp: UA_STATUSCODE_GOOD_def)
qed

definition example_conf :: UA_ConnectionConfig where
  "example_conf = \<lparr>protocolVersion = 0, sendBufferSize = 200, recvBufferSize = 200, maxMessageSize = 0, maxChunkCount = 0\<rparr>"

definition example_connection :: UA_Connection where
  "example_connection = \<lparr>localConf = example_conf, remoteConf = example_conf, incompleteMessage = []\<rparr>"

definition example_ops :: "bytes list send_ops" where
  "example_ops = \<lparr>getSendBuffer = \<lambda>n k. (UA_STATUSCODE_GOOD, replicate k 0, n), send = \<lambda>n bs. n @ [bs]\<rparr>"

definition example_channel :: UA_SecureChannel where
  "example_channel = UA_SecureChannel_init\<lparr>securityToken := \<lparr>channelId = 5, tokenId = 9, createdAt = 0, revisedLifetime = 0\<rparr>,
     sendSequenceNumber := 50, receiveSequenceNumber := 50, ch_connection := Some 1\<rparr>"

definition example_type :: UA_DataType where
  "example_type = UA_TYPES example_types ! 26"

lemma example_body: "length (message_body example_types example_type (Struct_v example_outer)) \<le> 128"
  by code_simp

theorem message_roundtrip_witness:
  "\<exists>chunk receiver' st.
     UA_SecureChannel_sendBinaryMessage example_types example_ops example_connection example_channel [] 7 (Struct_v example_outer) (Standard, 26)
       = Some (UA_STATUSCODE_GOOD, example_channel\<lparr>sendSequenceNumber := sendSequenceNumber example_channel + 1\<rparr>, send example_ops [] chunk) \<and>
     UA_SecureChannel_processChunks (\<lambda>_. True) (\<lambda>_. True) 48 example_channel chunk (taking (\<lambda>rs r. rs @ [r])) []
       = Some (UA_STATUSCODE_GOOD, receiver', [Message (message_type_of (binary_id example_type)) 7 (message_body example_types example_type (Struct_v example_outer))]) \<and>
     receiveSequenceNumber receiver' = sendSequenceNumber example_channel + 1 \<and>
     NodeId_decodeBinary (\<lambda>_. True) zero_nodeid \<lparr>dbuf = message_body example_types example_type (Struct_v example_outer), dpos = 0\<rparr>
       = Some (UA_STATUSCODE_GOOD, binary_id example_type, st) \<and>
     findDataTypeByBinary example_types (binary_id example_type) = Some (Standard, 26) \<and>
     UA_decodeBinary 100 example_types (\<lambda>_. True) (message_body example_types example_type (Struct_v example_outer)) (dpos st) (Standard, 26)
       = Some (UA_STATUSCODE_GOOD, length (message_body example_types example_type (Struct_v example_outer)), Some (norm_value example_types (Struct_v example_outer)))"
proof (rule message_roundtrip [OF example_ok])
  show "type_at example_types (Standard, 26) = Some example_type" by code_simp
  show "\<not> builtin example_type" by code_simp
  show "fst (Standard, 26 :: nat) = (if namespaceIndex (typeId example_type) \<noteq> 0 then Custom else Standard)" by code_simp
  have "list_all (\<lambda>k. binary_id (table example_types Standard ! k) \<noteq> binary_id example_type) [0..<26]" by code_simp
  then show "binary_id (table example_types (fst (Standard, 26)) ! k) \<noteq> binary_id example_type" if "k < snd (Standard, 26)" for k
    using that by (simp add: list_all_iff)
  show "message_type_of (binary_id example_type) \<noteq> UA_MESSAGETYPE_OPN" by code_simp
  show "getSendBuffer example_ops [] (unat (sendBufferSize (localConf example_connection))) = (UA_STATUSCODE_GOOD, replicate 200 0, [])"
    by (simp add: example_ops_def example_connection_def example_conf_def)
  show "24 + length (message_body example_types example_type (Struct_v example_outer)) \<le> length (replicate 200 (0 :: u8))"
    using example_body by simp
qed (use example_depth in \<open>simp_all add: example_connection_def example_conf_def example_channel_def UA_SecureChannel_init_def\<close>)

section \<open>Chunks and messages\<close>




section \<open>Segments of a stream\<close>

text \<open>C6: It does not matter how TCP cuts the stream of a peer into segments. As long as the stream holds no garbage and there is
  memory, \<open>UA_Connection_completeMessages\<close> hands on whole chunks only, all of them and in order, and keeps exactly the bytes of the
  chunk that has begun. The same holds from every state that it leaves behind.\<close>

theorem segments_joined:
  assumes "cut (recvBufferSize (localConf c)) (incompleteMessage c @ concat segs) = (cs, rest, False)"
    and "cut (recvBufferSize (localConf c)) (incompleteMessage c) = ([], incompleteMessage c, False)"
    and "\<And>n. realloc n" and "\<And>n. malloc n"
  shows "\<exists>css. deliver realloc malloc c segs = Some (map concat css, c\<lparr>incompleteMessage := rest\<rparr>) \<and> concat css = cs \<and>
     cut (recvBufferSize (localConf c)) rest = ([], rest, False)"
  using deliver_cut [of c segs cs rest realloc malloc] cut_rest [OF assms(1)] assms by blast

definition example_stream :: bytes where
  "example_stream = chunk_bytes (securityToken example_channel) 51 (Last UA_MESSAGETYPE_MSG 1 [10]) @ [77, 83, 71, 70]"

theorem segments_joined_witness:
  "\<exists>css. deliver (\<lambda>_. True) (\<lambda>_. True) example_connection [take 3 example_stream, take 7 (drop 3 example_stream), drop 10 example_stream]
       = Some (map concat css, example_connection\<lparr>incompleteMessage := [77, 83, 71, 70]\<rparr>) \<and> concat css = [take 25 example_stream] \<and>
     cut (recvBufferSize (localConf example_connection)) [77, 83, 71, 70] = ([], [77, 83, 71, 70], False)"
proof (rule segments_joined)
  show "cut (recvBufferSize (localConf example_connection)) (incompleteMessage example_connection
      @ concat [take 3 example_stream, take 7 (drop 3 example_stream), drop 10 example_stream]) = ([take 25 example_stream], [77, 83, 71, 70], False)"
    by code_simp
  show "cut (recvBufferSize (localConf example_connection)) (incompleteMessage example_connection) = ([], incompleteMessage example_connection, False)"
    by code_simp
qed simp_all

text \<open>C16: Whatever a peer sends and whichever requests for memory fail, the buffer that the network layer has handed out is released
  exactly once, or it is the message that the caller gets, and the blocks on the heap afterwards are exactly the message and the
  incomplete chunk that the connection keeps, where they are on the heap: nothing is freed twice, nothing is lost. The functions never
  release memory of the heap to the network layer, nor free or keep memory of the network layer. \<open>realloced\<close> tells the caller how the
  message has to be freed, and after an error there is nothing left to free.\<close>

theorem buffers_owned:
  assumes "\<And>bs. m \<noteq> Heap bs" and "balanced lent blocks m c l"
  shows "\<exists>rv c' m' realloced l'. UA_Connection_completeMessages realloc malloc c m False l = Some (rv, c', m', realloced, l') \<and>
     (if realloced then \<forall>bs. m' \<noteq> Network bs else \<forall>bs. m' \<noteq> Heap bs) \<and> (rv \<noteq> UA_STATUSCODE_GOOD \<longrightarrow> m' = Null) \<and>
     lent_buffers l' = lent + (case m' of Network bs \<Rightarrow> 1 | _ \<Rightarrow> 0) \<and>
     heap_blocks l' = blocks + (case m' of Heap bs \<Rightarrow> 1 | _ \<Rightarrow> 0) + (if incompleteMessage c' = [] then 0 else 1)"
proof -
  have "owned m False" using assms(1) by (simp add: owned_def)
  from completeMessages_owned [OF this assms(2), of realloc malloc] show ?thesis
    unfolding owned_def balanced_def on_network_def on_heap_def add.assoc by blast
qed

theorem buffers_owned_witness:
  "\<exists>rv c' m' realloced l'. UA_Connection_completeMessages (\<lambda>_. True) (\<lambda>_. False) (example_connection\<lparr>incompleteMessage := take 9 example_stream\<rparr>)
       (Network (drop 9 example_stream)) False \<lparr>lent_buffers = 1, heap_blocks = 1\<rparr> = Some (rv, c', m', realloced, l') \<and>
     (if realloced then \<forall>bs. m' \<noteq> Network bs else \<forall>bs. m' \<noteq> Heap bs) \<and> (rv \<noteq> UA_STATUSCODE_GOOD \<longrightarrow> m' = Null) \<and>
     lent_buffers l' = 0 + (case m' of Network bs \<Rightarrow> 1 | _ \<Rightarrow> 0) \<and>
     heap_blocks l' = 0 + (case m' of Heap bs \<Rightarrow> 1 | _ \<Rightarrow> 0) + (if incompleteMessage c' = [] then 0 else 1)"
proof (rule buffers_owned)
  have "take 9 example_stream \<noteq> []" by code_simp
  then show "balanced 0 0 (Network (drop 9 example_stream)) (example_connection\<lparr>incompleteMessage := take 9 example_stream\<rparr>)
      \<lparr>lent_buffers = 1, heap_blocks = 1\<rparr>"
    by (simp add: balanced_def on_network_def on_heap_def)
qed simp

section \<open>Sequence numbers\<close>

lemma accepted:
  assumes "UA_SecureChannel_processSequenceNumber ch n = (UA_STATUSCODE_GOOD, ch')"
  shows "receiveSequenceNumber ch' = n" and "n = receiveSequenceNumber ch + 1 \<or> 4294966271 \<le> unat (receiveSequenceNumber ch) \<and> unat n < 1024"
proof -
  have "4294966271 \<le> unat (receiveSequenceNumber ch)" if "receiveSequenceNumber ch + 1 > 4294966271"
    using that by (auto simp: word_less_nat_alt unat_plus_if' split: if_splits)
  then show "receiveSequenceNumber ch' = n" "n = receiveSequenceNumber ch + 1 \<or> 4294966271 \<le> unat (receiveSequenceNumber ch) \<and> unat n < 1024"
    using assms by (auto simp: UA_SecureChannel_processSequenceNumber_def status_codes UA_STATUSCODE_BADSECURITYCHECKSFAILED_def word_less_nat_alt split: if_splits)
qed

definition word_at :: "bytes \<Rightarrow> nat \<Rightarrow> u32" where
  "word_at bs p = le_word (take 4 (drop p bs))"

lemma decode_words_at:
  "decode_words n st = Some (0, ws, st') \<Longrightarrow> ws = map (\<lambda>k. word_at (dbuf st) (dpos st + 4 * k)) [0..<n] \<and> dbuf st' = dbuf st \<and> dpos st' = dpos st + 4 * n"
proof (induction n arbitrary: st ws)
  case (Suc n)
  from Suc.prems obtain w ws1 st1 where w: "UInt32_decodeBinary 0 st = Some (0, w, st1)" "decode_words n st1 = Some (0, ws1, st')" "ws = w # ws1"
    by (auto simp: bind_eq_Some_conv or_eq_0_iff)
  then have one: "w = word_at (dbuf st) (dpos st)" "dbuf st1 = dbuf st" "dpos st1 = dpos st + 4"
    by (auto simp: UInt32_decodeBinary_def bind_eq_Some_conv get_bytes_def word_at_def UA_STATUSCODE_BADDECODINGERROR_def split: if_splits)
  have shift: "map (\<lambda>k. word_at (dbuf st) (dpos st + 4 + 4 * k)) [0..<n] = map (\<lambda>k. word_at (dbuf st) (dpos st + 4 * k)) (map Suc [0..<n])"
    by (simp add: algebra_simps)
  show ?case using Suc.IH [OF w(2)] one w(3) by (simp add: upt_conv_Cons map_Suc_upt [symmetric] shift del: upt_Suc map_map)
qed simp

lemma decode_header_at:
  assumes "decode_header n bs p = Some (UA_STATUSCODE_GOOD, ws, q)"
  shows "ws = map (\<lambda>k. word_at bs (p + 4 * k)) [0..<n] \<and> q = p + 4 * n"
  using assms decode_words_at [of n "\<lparr>dbuf = bs, dpos = p\<rparr>"]
  by (auto simp: decode_header_def bind_eq_Some_conv UA_STATUSCODE_GOOD_def split: if_splits)

text \<open>The callback leaves the sequence number of the channel alone, except for messages that open a channel.\<close>

definition keeps_number :: "'a callback \<Rightarrow> bool" where
  "keeps_number callback \<longleftrightarrow> (\<forall>a ch i. (\<forall>r b. i \<noteq> Message UA_MESSAGETYPE_OPN r b) \<longrightarrow>
     receiveSequenceNumber (snd (callback a ch i)) = receiveSequenceNumber ch)"

lemma keeps_numberD:
  "keeps_number callback \<Longrightarrow> callback a ch i = (a', ch') \<Longrightarrow> (\<And>r b. i \<noteq> Message UA_MESSAGETYPE_OPN r b) \<Longrightarrow>
   receiveSequenceNumber ch' = receiveSequenceNumber ch"
  unfolding keeps_number_def by (metis snd_conv)

lemma error_number:
  assumes "process_error malloc callback bs p ch a = Some (pr, ch', a')" and "keeps_number callback"
  shows "receiveSequenceNumber ch' = receiveSequenceNumber ch"
proof -
  consider rv h q r1 e st r2 reason st2 where "decode_header 2 bs p = Some (rv, h, q)"
    "UInt32_decodeBinary 0 \<lparr>dbuf = bs, dpos = q\<rparr> = Some (r1, e, st)" "String_decodeBinary malloc NullArray st = Some (r2, reason, st2)"
    | rv h q where "decode_header 2 bs p = Some (rv, h, q)" "rv \<noteq> UA_STATUSCODE_GOOD"
    using assms(1) by (auto simp: process_error_def bind_eq_Some_conv split: if_splits)
  then show ?thesis
  proof cases
    case 1
    obtain a1 ch1 where c: "callback a ch (ErrorMessage e reason) = (a1, ch1)" by fastforce
    then have "receiveSequenceNumber ch1 = receiveSequenceNumber ch" by (rule keeps_numberD [OF assms(2)]) simp
    then show ?thesis using assms(1) 1 c by (auto simp: process_error_def Let_def split: if_splits)
  qed (use assms(1) in \<open>simp add: process_error_def\<close>)
qed

lemma body_number:
  assumes "process_body realloc malloc entry_size callback bs p n mt r ch a = (pr, ch', a')" and "keeps_number callback"
    and "mt AND 0x00ffffff \<noteq> UA_MESSAGETYPE_OPN"
  shows "receiveSequenceNumber ch' = receiveSequenceNumber ch"
  using assms(1,3) by (auto simp: process_body_def Let_def UA_SecureChannel_appendChunk_def UA_SecureChannel_finalizeChunk_def
      UA_SecureChannel_removeChunk_def split: if_splits prod.splits option.splits dest!: keeps_numberD [OF assms(2)])

text \<open>A chunk that does not open a channel leaves the number alone or is accepted with the number that stands in it.\<close>

definition plain_chunk :: "bytes \<Rightarrow> bool" where
  "plain_chunk bs \<longleftrightarrow> word_at bs 0 AND 0x00ffffff \<noteq> UA_MESSAGETYPE_OPN"

definition sequence_of :: "bytes \<Rightarrow> u32" where
  "sequence_of bs = word_at bs 16"

definition number_follows :: "u32 \<Rightarrow> u32 \<Rightarrow> bool" where
  "number_follows x n \<longleftrightarrow> n = x + 1 \<or> 4294966271 \<le> unat x \<and> unat n < 1024"

lemma security_number:
  assumes "check_security bs p ch = Some (rv, r, q, ch')"
  shows "if rv = UA_STATUSCODE_GOOD then receiveSequenceNumber ch' = word_at bs (p + 4) \<and> number_follows (receiveSequenceNumber ch) (word_at bs (p + 4))
     else receiveSequenceNumber ch' = receiveSequenceNumber ch"
proof -
  obtain r1 token q1 r2 sequence q2 where d: "decode_header 1 bs p = Some (r1, token, q1)" "decode_header 2 bs q1 = Some (r2, sequence, q2)"
    using assms by (auto simp: check_security_def bind_eq_Some_conv)
  show ?thesis
  proof (cases "r1 OR r2 \<noteq> UA_STATUSCODE_GOOD \<or> token ! 0 \<noteq> tokenId (securityToken ch) \<and> token ! 0 \<noteq> tokenId (nextSecurityToken ch)")
    case True
    then have "rv = UA_STATUSCODE_BADCOMMUNICATIONERROR \<and> ch' = ch" using assms d by (auto simp: check_security_def split: if_splits)
    then show ?thesis by (simp add: UA_STATUSCODE_BADCOMMUNICATIONERROR_def UA_STATUSCODE_GOOD_def)
  next
    case False
    then have good: "r1 = UA_STATUSCODE_GOOD" "r2 = UA_STATUSCODE_GOOD" by (auto simp: UA_STATUSCODE_GOOD_def or_eq_0_iff)
    have q1: "q1 = p + 4" using decode_header_at [of 1 bs p token q1] d(1) good(1) by simp
    have seq: "sequence ! 0 = word_at bs (p + 4)" using decode_header_at [of 2 bs q1 sequence q2] d(2) good(2) q1 by simp
    define ch0 where "ch0 = (if token ! 0 \<noteq> tokenId (securityToken ch) then UA_SecureChannel_revolveTokens ch else ch)"
    have ch0: "receiveSequenceNumber ch0 = receiveSequenceNumber ch" by (simp add: ch0_def UA_SecureChannel_revolveTokens_def)
    obtain rn ch1 where n: "UA_SecureChannel_processSequenceNumber ch0 (sequence ! 0) = (rn, ch1)" by (cases "UA_SecureChannel_processSequenceNumber ch0 (sequence ! 0)")
    have res: "rv = (if rn \<noteq> UA_STATUSCODE_GOOD then UA_STATUSCODE_BADCOMMUNICATIONERROR else UA_STATUSCODE_GOOD)" "ch' = ch1"
    proof -
      have "check_security bs p ch = Some (if rn \<noteq> UA_STATUSCODE_GOOD then UA_STATUSCODE_BADCOMMUNICATIONERROR else UA_STATUSCODE_GOOD, sequence ! 1, q2, ch1)"
      proof (cases "token ! 0 = tokenId (securityToken ch)")
        case True
        then show ?thesis using d False n by (simp add: check_security_def ch0_def)
      next
        case other: False
        then have "\<not> (token ! 0 \<noteq> tokenId (nextSecurityToken ch))" "ch0 = UA_SecureChannel_revolveTokens ch" using False by (simp_all add: ch0_def)
        then show ?thesis using d False n other by (simp add: check_security_def)
      qed
      then show "rv = (if rn \<noteq> UA_STATUSCODE_GOOD then UA_STATUSCODE_BADCOMMUNICATIONERROR else UA_STATUSCODE_GOOD)" "ch' = ch1"
        using assms by simp_all
    qed
    show ?thesis
    proof (cases "rn = UA_STATUSCODE_GOOD")
      case True
      then show ?thesis using accepted [of ch0 "sequence ! 0" ch1] n res ch0 seq by (simp add: number_follows_def)
    next
      case False
      then have "ch1 = ch0" using n by (auto simp: UA_SecureChannel_processSequenceNumber_def split: if_splits)
      then show ?thesis using False res ch0 by (simp add: UA_STATUSCODE_BADCOMMUNICATIONERROR_def UA_STATUSCODE_GOOD_def)
    qed
  qed
qed

lemma chunk_number:
  assumes run: "process_chunk realloc malloc entry_size callback bs 0 ch a = Some (pr, ch', a')" and keeps: "keeps_number callback" and plain: "plain_chunk bs"
  shows "receiveSequenceNumber ch' = receiveSequenceNumber ch \<or> number_follows (receiveSequenceNumber ch) (receiveSequenceNumber ch')"
    and "pr = Next q \<Longrightarrow> starts_error bs 0 \<noteq> Some True \<Longrightarrow>
      receiveSequenceNumber ch' = sequence_of bs \<and> number_follows (receiveSequenceNumber ch) (sequence_of bs)"
proof -
  obtain is_error where e: "starts_error bs 0 = Some is_error" using run by (auto simp: process_chunk_def bind_eq_Some_conv)
  have "if is_error then receiveSequenceNumber ch' = receiveSequenceNumber ch
     else receiveSequenceNumber ch' = receiveSequenceNumber ch \<and> (\<exists>rv. pr = Stop rv) \<or>
       receiveSequenceNumber ch' = sequence_of bs \<and> number_follows (receiveSequenceNumber ch) (sequence_of bs)"
  proof (cases is_error)
    case True
    then have "process_error malloc callback bs 0 ch a = Some (pr, ch', a')" using run e by (simp add: process_chunk_def)
    then show ?thesis using True error_number keeps by fastforce
  next
    case False
    obtain rv header offset where h: "decode_header 3 bs 0 = Some (rv, header, offset)"
      using run e False by (auto simp: process_chunk_def bind_eq_Some_conv)
    show ?thesis
    proof (cases "rv \<noteq> UA_STATUSCODE_GOOD \<or> header ! 2 \<noteq> channelId (securityToken ch)")
      case True
      then have "(\<exists>rv. pr = Stop rv) \<and> ch' = ch" using run e False h by (auto simp: process_chunk_def split: if_splits)
      then show ?thesis using False by simp
    next
      case good: False
      have words: "header ! 0 = word_at bs 0" "offset = 12" using decode_header_at [of 3 bs 0 header offset] h good by (simp_all add: upt_conv_Cons)
      then have opn: "header ! 0 AND 0x00ffffff \<noteq> UA_MESSAGETYPE_OPN" using plain by (simp add: plain_chunk_def)
      then obtain rs r q1 ch1 where s: "check_security bs 12 ch = Some (rs, r, q1, ch1)"
        using run e False h good words by (auto simp: process_chunk_def bind_eq_Some_conv)
      note number = security_number [OF s]
      show ?thesis
      proof (cases "rs = UA_STATUSCODE_GOOD")
        case True
        then have "process_body realloc malloc entry_size callback bs q1 (size_sub (unat (header ! 1)) q1) (header ! 0) r ch1 a = (pr, ch', a')"
          using run e False h good words opn s by (simp add: process_chunk_def)
        from body_number [OF this keeps opn] show ?thesis using number True False by (simp add: sequence_of_def)
      next
        case bad: False
        then show ?thesis using run e False h good words opn s number by (auto simp: process_chunk_def)
      qed
    qed
  qed
  then show "receiveSequenceNumber ch' = receiveSequenceNumber ch \<or> number_follows (receiveSequenceNumber ch) (receiveSequenceNumber ch')"
    and "pr = Next q \<Longrightarrow> starts_error bs 0 \<noteq> Some True \<Longrightarrow>
      receiveSequenceNumber ch' = sequence_of bs \<and> number_follows (receiveSequenceNumber ch) (sequence_of bs)"
    using e by (auto split: if_splits)
qed

text \<open>Chunks that come one after the other, accepted or not.\<close>

primrec chunks_come ::
    "(nat \<Rightarrow> bool) \<Rightarrow> (nat \<Rightarrow> bool) \<Rightarrow> nat \<Rightarrow> 'a callback \<Rightarrow> UA_SecureChannel \<Rightarrow> 'a \<Rightarrow> bytes list \<Rightarrow> (UA_SecureChannel \<times> 'a) option" where
  "chunks_come realloc malloc entry_size callback ch a [] = Some (ch, a)"
| "chunks_come realloc malloc entry_size callback ch a (bs # bss) =
     do { (p, ch, a) \<leftarrow> process_chunk realloc malloc entry_size callback bs 0 ch a;
          chunks_come realloc malloc entry_size callback ch a bss }"

text \<open>Since a number \<open>s\<close> the numbers have gone up at most once per chunk, or they have fallen behind by the length of a round.\<close>

definition ahead :: "nat \<Rightarrow> nat \<Rightarrow> u32 \<Rightarrow> bool" where
  "ahead s k n \<longleftrightarrow> s \<le> unat n \<and> unat n \<le> s + k \<or> unat n + 4294965249 \<le> s + k"

lemma ahead_step:
  assumes "ahead s k x" and "number_follows x n"
  shows "s < unat n \<and> unat n \<le> s + (k + 1) \<or> unat n + 4294965249 \<le> s + (k + 1)"
proof -
  have "unat (x + 1) = (if unat x = 4294967295 then 0 else unat x + 1)" using unat_lt2p_32 [of x] by (auto simp: unat_plus_if')
  then show ?thesis using assms by (auto simp: ahead_def number_follows_def split: if_splits)
qed

lemma chunks_ahead:
  assumes "chunks_come realloc malloc entry_size callback ch a bss = Some (ch', a')" and "ahead s k (receiveSequenceNumber ch)"
    and "list_all plain_chunk bss" and "keeps_number callback"
  shows "ahead s (k + length bss) (receiveSequenceNumber ch')"
  using assms(1-3)
proof (induction bss arbitrary: ch a k)
  case (Cons bs bss)
  obtain pr ch1 a1 where one: "process_chunk realloc malloc entry_size callback bs 0 ch a = Some (pr, ch1, a1)"
      "chunks_come realloc malloc entry_size callback ch1 a1 bss = Some (ch', a')"
    using Cons(2) by (auto simp: bind_eq_Some_conv)
  have "ahead s (k + 1) (receiveSequenceNumber ch1)"
    using chunk_number(1) [OF one(1) assms(4)] Cons(4) Cons(3) ahead_step [OF Cons(3), of "receiveSequenceNumber ch1"] by (auto simp: ahead_def)
  from Cons(1) [OF one(2) this] show ?case using Cons(4) by simp
qed simp

text \<open>C12: A chunk with a sequence number cannot be replayed while no chunk opens or renews the channel. When
  \<open>UA_SecureChannel_processChunks\<close> has accepted a chunk, the next chunk that it accepts with the same sequence number, and so the same
  chunk, comes at least 4294965248 chunks later, accepted or not, wherever the numbers start and whenever the peer lets them roll over.
  All these chunks are other than OPN chunks, whose numbers the code does not check: one that comes in between may set the number back, and
  an error message has no number. The callback is one that leaves the number alone, as that of the server does for all but OPN messages.\<close>

theorem no_replay:
  assumes "process_chunk realloc malloc entry_size callback c 0 ch app = Some (Next p, ch1, app1)"
    and "chunks_come realloc malloc entry_size callback ch1 app1 between = Some (ch2, app2)"
    and "process_chunk realloc malloc entry_size callback d 0 ch2 app2 = Some (Next q, ch3, app3)"
    and "list_all plain_chunk (c # between @ [d])" and "starts_error c 0 \<noteq> Some True" and "starts_error d 0 \<noteq> Some True"
    and "length between < 4294965248" and "keeps_number callback"
  shows "sequence_of d \<noteq> sequence_of c"
proof -
  have "receiveSequenceNumber ch1 = sequence_of c" using chunk_number(2) [OF assms(1,8)] assms(4,5) by simp
  then have "ahead (unat (sequence_of c)) 0 (receiveSequenceNumber ch1)" by (simp add: ahead_def)
  then have "ahead (unat (sequence_of c)) (length between) (receiveSequenceNumber ch2)"
    using chunks_ahead [OF assms(2) _ _ assms(8)] assms(4) by fastforce
  then show ?thesis using ahead_step chunk_number(2) [OF assms(3,8)] assms(4,6,7) by fastforce
qed

definition example_chunk :: "u32 \<Rightarrow> bytes" where
  "example_chunk n = chunk_bytes (securityToken example_channel) n (Last UA_MESSAGETYPE_MSG n [10])"

theorem no_replay_witness: "sequence_of (example_chunk 53) \<noteq> sequence_of (example_chunk 51)"
proof (rule no_replay)
  let ?ch = "\<lambda>n. example_channel\<lparr>receiveSequenceNumber := n\<rparr>" and ?cb = "taking (\<lambda>rs r. rs @ [r]) :: incoming list callback"
  let ?m = "\<lambda>n. Message UA_MESSAGETYPE_MSG n [10]"
  show "process_chunk (\<lambda>_. True) (\<lambda>_. True) 48 ?cb (example_chunk 51) 0 example_channel [] = Some (Next 25, ?ch 51, [?m 51])"
    by code_simp
  show "chunks_come (\<lambda>_. True) (\<lambda>_. True) 48 ?cb (?ch 51) [?m 51] [example_chunk 52] = Some (?ch 52, [?m 51, ?m 52])"
    by code_simp
  show "process_chunk (\<lambda>_. True) (\<lambda>_. True) 48 ?cb (example_chunk 53) 0 (?ch 52) [?m 51, ?m 52] = Some (Next 25, ?ch 53, [?m 51, ?m 52, ?m 53])"
    by code_simp
  show "list_all plain_chunk (example_chunk 51 # [example_chunk 52] @ [example_chunk 53])" by code_simp
  show "starts_error (example_chunk 51) 0 \<noteq> Some True" "starts_error (example_chunk 53) 0 \<noteq> Some True" by code_simp+
  show "keeps_number ?cb" by (simp add: keeps_number_def taking_def)
qed simp

section \<open>An error message that is never done with\<close>

text \<open>An error message with 12 bytes more than it needs, which look like a chunk of size 0 that opens a channel.\<close>

definition crafted_error :: "u32 \<Rightarrow> bytes" where
  "crafted_error c = words_bytes [UA_MESSAGETYPE_ERR + UA_CHUNKTYPE_FINAL, 28, 0, 0xffffffff, UA_MESSAGETYPE_OPN + UA_CHUNKTYPE_FINAL, 0, c]"

lemma crafted_parts:
  "crafted_error c = words_bytes [UA_MESSAGETYPE_ERR + UA_CHUNKTYPE_FINAL, 28] @ words_bytes [0, 0xffffffff]
     @ words_bytes [UA_MESSAGETYPE_OPN + UA_CHUNKTYPE_FINAL, 0, c]"
  "length (crafted_error c) = 28"
  by (simp_all add: crafted_error_def words_bytes_def)

lemma crafted_first:
  assumes "channelId (securityToken (snd (callback app ch (ErrorMessage 0 NullArray)))) = c"
  shows "\<exists>ch' app'. process_chunk realloc malloc entry_size callback (crafted_error c) 0 ch app = Some (Next 16, ch', app') \<and>
     channelId (securityToken ch') = c"
proof -
  have "starts_error (crafted_error c) 0 = Some True"
    by (simp add: starts_error_def crafted_error_def words_bytes_def le_bytes_unroll load_def UA_MESSAGETYPE_ERR_def UA_CHUNKTYPE_FINAL_def)
  moreover have "decode_header 2 (crafted_error c) 0 = Some (UA_STATUSCODE_GOOD, [UA_MESSAGETYPE_ERR + UA_CHUNKTYPE_FINAL, 28], 0 + 4 * 2)"
    by (rule decode_header_bytes [where rest = "words_bytes [0, 0xffffffff] @ words_bytes [UA_MESSAGETYPE_OPN + UA_CHUNKTYPE_FINAL, 0, c]"])
      (simp_all add: crafted_parts(1))
  moreover have "UInt32_decodeBinary 0 \<lparr>dbuf = crafted_error c, dpos = 8\<rparr> = Some (0, 0, \<lparr>dbuf = crafted_error c, dpos = 12\<rparr>)"
    by (simp add: UInt32_decodeBinary_def crafted_error_def words_bytes_def le_bytes_unroll past_input_def get_bytes_def UA_STATUSCODE_GOOD_def)
  moreover have "String_decodeBinary malloc NullArray \<lparr>dbuf = crafted_error c, dpos = 12\<rparr> = Some (0, NullArray, \<lparr>dbuf = crafted_error c, dpos = 16\<rparr>)"
    by (simp add: String_decodeBinary_def Array_decodeBinary_def Int32_decodeBinary_def UInt32_decodeBinary_def crafted_error_def words_bytes_def
        le_bytes_unroll past_input_def get_bytes_def UA_STATUSCODE_GOOD_def)
  ultimately show ?thesis
    using assms by (cases "callback app ch (ErrorMessage 0 NullArray)") (simp add: process_chunk_def process_error_def UA_STATUSCODE_GOOD_def)
qed

lemma crafted_again:
  assumes "channelId (securityToken ch) = c"
  shows "\<exists>ch'. process_chunk realloc malloc entry_size callback (crafted_error c) 16 ch app = Some (Next 16, ch', app) \<and>
     channelId (securityToken ch') = c"
proof -
  have "starts_error (crafted_error c) 16 = Some False"
    by (simp add: starts_error_def crafted_error_def words_bytes_def le_bytes_unroll load_def UA_MESSAGETYPE_OPN_def UA_CHUNKTYPE_FINAL_def)
  moreover have "decode_header 3 (crafted_error c) 16 = Some (UA_STATUSCODE_GOOD, [UA_MESSAGETYPE_OPN + UA_CHUNKTYPE_FINAL, 0, c], 16 + 4 * 3)"
    by (rule decode_header_bytes [where rest = "[]"]) (simp_all add: crafted_parts)
  ultimately show ?thesis
    using assms crafted_parts(2) [of c]
    by (simp add: process_chunk_def process_body_def UA_SecureChannel_finalizeChunk_def UA_SecureChannel_removeChunk_def size_sub_def size_add_def
        message_type_defs UA_STATUSCODE_GOOD_def Let_def)
qed

lemma crafted_loop:
  assumes "process_loop realloc malloc entry_size callback bs p ch app = Some r"
  shows "\<not> (bs = crafted_error (channelId (securityToken ch)) \<and> p = 16)"
  using assms
proof (induction realloc malloc entry_size callback bs p ch app r rule: process_loop.raw_induct [rotated, consumes 1, case_names step])
  case (step loop realloc malloc entry_size callback bs p ch app r)
  show ?case
  proof
    assume eq: "bs = crafted_error (channelId (securityToken ch)) \<and> p = 16"
    obtain ch' where c: "process_chunk realloc malloc entry_size callback bs p ch app = Some (Next 16, ch', app)"
      and i: "channelId (securityToken ch') = channelId (securityToken ch)"
      using crafted_again [OF refl, of realloc malloc entry_size callback ch app] eq by blast
    then have "loop realloc malloc entry_size callback bs 16 ch' app = Some r" using step(2) eq crafted_parts(2) [of "channelId (securityToken ch)"] by simp
    from step(1) [OF this] show False using eq i by simp
  qed
qed

text \<open>C13: A single chunk from the peer keeps the receiver busy for ever. The chunk is an error message of 28 bytes, of which the decoder
  needs 16. It passes the test of the connection for whole chunks, but \<open>UA_SecureChannel_processChunks\<close> goes on behind what it has
  decoded instead of at the end of the chunk, and finds the header of a chunk of size 0 for the channel, which it processes again and again.\<close>

theorem error_chunk_endless:
  assumes "28 \<le> limit" and "channelId (securityToken ch) = c"
    and "channelId (securityToken (snd (callback app ch (ErrorMessage 0 NullArray)))) = c"
  shows "completeChunksUntil limit (crafted_error c) 0 = Some (28, False) \<and>
     UA_SecureChannel_processChunks realloc malloc entry_size ch (crafted_error c) callback app = None"
proof
  obtain ch' app' where first: "process_chunk realloc malloc entry_size callback (crafted_error c) 0 ch app = Some (Next 16, ch', app')"
    "channelId (securityToken ch') = c"
    using crafted_first [where callback = callback and app = app and ch = ch, OF assms(3)] by blast
  have "process_loop realloc malloc entry_size callback (crafted_error c) 16 ch' app' = None"
    using crafted_loop [of realloc malloc entry_size callback "crafted_error c" 16 ch' app'] first(2) by (cases "process_loop realloc malloc entry_size callback (crafted_error c) 16 ch' app'") auto
  then show "UA_SecureChannel_processChunks realloc malloc entry_size ch (crafted_error c) callback app = None"
    using first(1) by (simp add: UA_SecureChannel_processChunks_def process_loop.simps [of _ _ _ _ _ 0] crafted_parts(2))
  have "classify limit (take 8 (crafted_error c)) 28 = Complete 28"
    using assms(1) by (simp add: classify_def header_type_def message_types_def crafted_error_def words_bytes_def le_bytes_unroll Let_def
        UA_MESSAGETYPE_ERR_def UA_CHUNKTYPE_FINAL_def word_le_nat_alt word_less_nat_alt)
  then have "chunk_at limit (crafted_error c) 0 = Some (Complete 28)" by (simp add: chunk_at_header crafted_parts(2))
  then show "completeChunksUntil limit (crafted_error c) 0 = Some (28, False)"
    by (simp add: completeChunksUntil.simps crafted_parts(2))
qed

theorem error_chunk_endless_witness:
  "completeChunksUntil 200 (crafted_error 5) 0 = Some (28, False) \<and>
   UA_SecureChannel_processChunks (\<lambda>_. True) (\<lambda>_. True) 48 example_channel (crafted_error 5) (taking (\<lambda>rs r. rs @ [r])) [] = None"
  by (rule error_chunk_endless) (simp_all add: example_channel_def taking_def)

section \<open>Pointers\<close>

text \<open>C10: However connections, channels and sessions come and go, when a channel is opened only for a connection that has none: a connection points to a channel exactly when the channel points to the
  connection, and a session points to a channel exactly when it stands, once, in the list of the channel. So no pointer leads to a
  channel that has been freed, and detaching a connection or cleaning up a channel never follows one.\<close>

theorem pointers_agree:
  assumes "peers_reachable malloc s"
  shows "(connection_channel s k = Some c \<longleftrightarrow> (\<exists>ch. channels s c = Some ch \<and> ch_connection ch = Some k)) \<and>
     (session_channel s se = Some c \<longleftrightarrow> (\<exists>ch. channels s c = Some ch \<and> se \<in> set (sessions ch))) \<and>
     (channels s c = Some ch \<longrightarrow> distinct (sessions ch) \<and> (\<exists>s'. UA_SecureChannel_deleteMembersCleanup c s = Some s')) \<and>
     (\<exists>s'. UA_Connection_detachSecureChannel k s = Some s')"
proof -
  note ok = peers_reachable_ok [OF assms]
  show ?thesis
    using connection_of [OF ok] connection_to [OF ok] session_of [OF ok] session_to [OF ok] close_defined [OF ok] detach_defined [OF ok] ok
    unfolding peers_ok_def sessions_agree_def by blast
qed

definition example_peers :: peers where
  "example_peers = \<lparr>channels = (\<lambda>c. None), connection_channel = (\<lambda>k. None), session_channel = (\<lambda>se. None),
     authenticationToken = (\<lambda>se. \<lparr>namespaceIndex = 0, ident = NUMERIC (of_nat se)\<rparr>)\<rparr>"

lemma example_reachable:
  "\<exists>s. peers_reachable (\<lambda>_. True) s \<and> connection_channel s 4 = Some 1 \<and> session_channel s 8 = Some 1"
proof -
  let ?r = "peers_reachable (\<lambda>_. True)"
  have "?r example_peers" by (simp add: example_peers_def peers_reachable.start)
  then have r1: "?r (set_channel 1 UA_SecureChannel_init example_peers)"
    by (rule peers_reachable.step [OF _ peers_step.open_channel]) (simp add: example_peers_def)
  obtain s2 where s2: "UA_Connection_attachSecureChannel 4 1 (set_channel 1 UA_SecureChannel_init example_peers) = Some s2"
      "channels s2 1 \<noteq> None" "connection_channel s2 4 = Some 1" "session_channel s2 8 = None"
    by (auto simp: UA_Connection_attachSecureChannel_def UA_SecureChannel_init_def example_peers_def)
  have "?r s2" by (rule peers_reachable.step [OF r1 peers_step.attach_channel [OF _ s2(1)]]) (simp add: example_peers_def)
  moreover obtain s3 where s3: "UA_SecureChannel_attachSession (\<lambda>_. True) 16 1 8 s2 = Some s3" "connection_channel s3 4 = Some 1" "session_channel s3 8 = Some 1"
    using s2(2-4) by (auto simp: UA_SecureChannel_attachSession_def)
  ultimately have "?r s3" using peers_reachable.step peers_step.attach_session by blast
  then show ?thesis using s3 by blast
qed

theorem pointers_agree_witness:
  "\<exists>s :: peers. connection_channel s 4 = Some 1 \<and> (\<exists>ch. channels s 1 = Some ch \<and> ch_connection ch = Some 4 \<and> 8 \<in> set (sessions ch))"
proof -
  obtain s where s: "peers_reachable (\<lambda>_. True) s" "connection_channel s 4 = Some 1" "session_channel s 8 = Some 1" using example_reachable by blast
  note agree = pointers_agree [OF s(1), of 4 1 8]
  obtain ch where "channels s 1 = Some ch" "ch_connection ch = Some 4" using iffD1 [OF conjunct1 [OF agree] s(2)] by blast
  moreover obtain ch' where "channels s 1 = Some ch'" "8 \<in> set (sessions ch')" using iffD1 [OF conjunct1 [OF conjunct2 [OF agree]] s(3)] by blast
  ultimately show ?thesis using s(2) by (intro exI [of _ s]) auto
qed

end
