(* ===== verification/UAUrl.thy ===== *)
theory UAUrl
  imports UATypes
begin

text \<open>Splitting endpoint addresses, \<open>ua_util.c\<close>: the host, the port and the path of \<open>opc.tcp://host:port/path\<close>.\<close>

definition UA_STATUSCODE_BADTCPENDPOINTURLINVALID :: UA_StatusCode where "UA_STATUSCODE_BADTCPENDPOINTURLINVALID = 0x80830000"

text \<open>The number of digits and the number, which wraps around.\<close>

fun read_digits :: "bytes \<Rightarrow> u32 \<Rightarrow> nat \<times> u32" where
  "read_digits [] n = (0, n)"
| "read_digits (c # cs) n =
     (if c < 0x30 \<or> c > 0x39 then (0, n)
      else case read_digits cs (n * 10 + ucast (c - 0x30)) of (progress, number) \<Rightarrow> (progress + 1, number))"

definition UA_readNumber :: "bytes \<Rightarrow> nat \<times> u32" where
  "UA_readNumber buf = read_digits buf 0"

text \<open>The position of the first of the bytes from \<open>cur\<close> on, or the end.\<close>

function find_byte :: "bytes \<Rightarrow> u8 list \<Rightarrow> nat \<Rightarrow> nat option" where
  "find_byte url bs cur =
     (if cur < length url
      then do { c \<leftarrow> load url cur; if c \<in> set bs then Some cur else find_byte url bs (cur + 1) }
      else Some cur)"
  by pat_completeness auto
termination by (relation "measure (\<lambda>(url, bs, cur). length url - cur)") auto

declare find_byte.simps [simp del]

definition url_scheme :: bytes where
  "url_scheme = [0x6f, 0x70, 0x63, 0x2e, 0x74, 0x63, 0x70, 0x3a, 0x2f, 0x2f]"

record url_parts =
  outHostname :: bytes
  outPort :: u16
  outPath :: bytes

definition end_of_host :: "bytes \<Rightarrow> nat option" where
  "end_of_host url =
     do { c \<leftarrow> load url 10;
          if c = 0x5b then do { cur \<leftarrow> find_byte url [0x5d] 10; Some (if cur = length url then 0 else cur + 1) }
          else find_byte url [0x3a, 0x2f] 10 }"

text \<open>The path; what follows the port has to be the end or a slash.\<close>

definition parse_path :: "bytes \<Rightarrow> nat \<Rightarrow> url_parts \<Rightarrow> (UA_StatusCode \<times> url_parts) option" where
  "parse_path url cur out =
     do { c \<leftarrow> load url cur;
          if c \<noteq> 0x2f then Some (UA_STATUSCODE_BADTCPENDPOINTURLINVALID, out)
          else let cur = cur + 1
               in if cur = length url then Some (UA_STATUSCODE_GOOD, out)
                  else do { last \<leftarrow> load url (length url - 1);
                            let path = drop cur url;
                            Some (UA_STATUSCODE_GOOD, out\<lparr>outPath := if last = 0x2f then take (length path - 1) path else path\<rparr>) } }"

text \<open>\<open>end_of_host\<close> is 0 when a bracket is not closed. What \<open>out\<close> held stays where the address has no such part.\<close>

definition UA_parseEndpointUrl :: "bytes \<Rightarrow> url_parts \<Rightarrow> (UA_StatusCode \<times> url_parts) option" where
  "UA_parseEndpointUrl url out =
     (if length url < 11 \<or> take 10 url \<noteq> url_scheme then Some (UA_STATUSCODE_BADTCPENDPOINTURLINVALID, out)
      else do {
        cur \<leftarrow> end_of_host url;
        if cur = 0 then Some (UA_STATUSCODE_BADTCPENDPOINTURLINVALID, out)
        else do {
          let out = out\<lparr>outHostname := take (cur - 10) (drop 10 url)\<rparr>;
          if cur = length url then Some (UA_STATUSCODE_GOOD, out)
          else do {
            c \<leftarrow> load url cur;
            if c \<noteq> 0x3a then parse_path url cur out
            else do {
              let cur = cur + 1;
              if cur = length url then Some (UA_STATUSCODE_BADTCPENDPOINTURLINVALID, out)
              else do {
                let (progress, largeNum) = UA_readNumber (drop cur url);
                if progress = 0 \<or> largeNum > 65535 then Some (UA_STATUSCODE_BADTCPENDPOINTURLINVALID, out)
                else do {
                  let cur = cur + progress;
                  port \<leftarrow> (if cur = length url then Some (ucast largeNum)
                           else do { c \<leftarrow> load url cur; Some (if c = 0x2f then ucast largeNum else outPort out) });
                  let out = out\<lparr>outPort := port\<rparr>;
                  if cur = length url then Some (UA_STATUSCODE_GOOD, out)
                  else parse_path url cur out } } } } } })"

section \<open>Addresses that are put together\<close>

text \<open>A number in decimal digits.\<close>

fun digits :: "nat \<Rightarrow> bytes" where
  "digits n = (if n < 10 then [0x30 + of_nat n] else digits (n div 10) @ [0x30 + of_nat (n mod 10)])"

declare digits.simps [simp del]

definition no_digit :: "bytes \<Rightarrow> bool" where
  "no_digit bs \<longleftrightarrow> (case bs of [] \<Rightarrow> True | c # cs \<Rightarrow> c < 0x30 \<or> c > 0x39)"

lemma digit_range: "d < 10 \<Longrightarrow> \<not> (0x30 + of_nat d :: u8) < 0x30 \<and> \<not> (0x30 + of_nat d :: u8) > 0x39 \<and> ucast (0x30 + of_nat d - 0x30 :: u8) = (of_nat d :: u32)"
proof -
  assume "d < 10"
  then have "d \<in> {0, 1, 2, 3, 4, 5, 6, 7, 8, 9}" by auto
  then show ?thesis by auto
qed

lemma read_digits_append:
  assumes "list_all (\<lambda>c. \<not> c < 0x30 \<and> \<not> c > 0x39) ds"
  shows "read_digits (ds @ rest) n = (case read_digits ds n of (k, m) \<Rightarrow> case read_digits rest m of (k', m') \<Rightarrow> (k + k', m'))"
  using assms by (induction ds arbitrary: n) (auto split: prod.split)

lemma digits_read:
  "list_all (\<lambda>c. \<not> c < 0x30 \<and> \<not> c > 0x39) (digits n) \<and> read_digits (digits n) 0 = (length (digits n), of_nat n) \<and> digits n \<noteq> []"
proof (induction n rule: digits.induct)
  case (1 n)
  show ?case
  proof (cases "n < 10")
    case True
    then show ?thesis using digit_range [OF True] by (simp add: digits.simps [of n])
  next
    case False
    have "(of_nat (n div 10) * 10 + of_nat (n mod 10) :: u32) = of_nat (n div 10 * 10 + n mod 10)"
      by (simp only: of_nat_add of_nat_mult of_nat_numeral)
    then have "(of_nat (n div 10) * 10 + of_nat (n mod 10) :: u32) = of_nat n" by (simp only: div_mult_mod_eq)
    then show ?thesis
      using 1 [OF False] False digit_range [of "n mod 10"] by (simp add: digits.simps [of n] read_digits_append)
  qed
qed

lemma number_read: "no_digit rest \<Longrightarrow> UA_readNumber (digits n @ rest) = (length (digits n), of_nat n)"
  using digits_read [of n] by (cases rest) (simp_all add: UA_readNumber_def read_digits_append no_digit_def)

lemma find_byte_skip:
  assumes "drop cur url = xs @ rest" and "\<forall>x\<in>set xs. x \<notin> set bs" and "rest = [] \<or> hd rest \<in> set bs" and "cur \<le> length url"
  shows "find_byte url bs cur = Some (cur + length xs)"
  using assms
proof (induction xs arbitrary: cur)
  case Nil
  have "load url cur = Some (hd rest)" if "rest \<noteq> []" using Nil(1) that by (intro load_drop [where xs = "tl rest"]) simp
  moreover have "cur < length url \<longleftrightarrow> rest \<noteq> []" using Nil(1) by auto
  ultimately show ?case using Nil(3,4) by (auto simp: find_byte.simps [of url bs cur])
next
  case (Cons x xs)
  then have d: "drop cur url = x # (xs @ rest)" by simp
  then have "load url cur = Some x" "drop (Suc cur) url = xs @ rest" by (rule load_drop, rule drop_Suc_drop)
  moreover have "cur < length url" using d by (cases "cur < length url") simp_all
  ultimately show ?case using Cons(1) [of "Suc cur"] Cons(3-) by (simp add: find_byte.simps [of url bs cur])
qed

text \<open>A host name does not start with a bracket and has no colon and no slash.\<close>

definition plain_host :: "bytes \<Rightarrow> bool" where
  "plain_host h \<longleftrightarrow> h \<noteq> [] \<and> hd h \<noteq> 0x5b \<and> 0x3a \<notin> set h \<and> 0x2f \<notin> set h"

text \<open>An address that is put together from a host name, a port and a path is taken apart into the same host name, port and path.
  The path may contain slashes, but not end with one.\<close>

theorem url_roundtrip:
  assumes "plain_host h" and "port < 65536" and "path \<noteq> []" and "last path \<noteq> 0x2f"
  shows "UA_parseEndpointUrl (url_scheme @ h @ [0x3a] @ digits port @ [0x2f] @ path) out
     = Some (UA_STATUSCODE_GOOD, \<lparr>outHostname = h, outPort = of_nat port, outPath = path\<rparr>)"
proof -
  let ?url = "url_scheme @ h @ [0x3a] @ digits port @ [0x2f] @ path"
  have s: "length url_scheme = 10" by (simp add: url_scheme_def)
  have d10: "drop 10 ?url = h @ [0x3a] @ digits port @ [0x2f] @ path" using s by simp
  have "load ?url 10 = Some (hd h)" using assms(1) d10 by (intro load_drop [where xs = "tl h @ [0x3a] @ digits port @ [0x2f] @ path"]) (auto simp: plain_host_def)
  moreover have "find_byte ?url [0x3a, 0x2f] 10 = Some (10 + length h)"
    by (rule find_byte_skip [OF d10]) (use assms(1) s in \<open>auto simp: plain_host_def\<close>)
  ultimately have e: "end_of_host ?url = Some (10 + length h)" using assms(1) by (simp add: end_of_host_def plain_host_def)
  have d: "drop (10 + length h) ?url = [0x3a] @ digits port @ [0x2f] @ path" using drop_append_drop [OF d10] .
  have colon: "load ?url (10 + length h) = Some 0x3a" using d by (intro load_drop) simp
  have d2: "drop (10 + length h + 1) ?url = digits port @ [0x2f] @ path" using drop_append_drop [OF d] by simp
  have n: "UA_readNumber (drop (10 + length h + 1) ?url) = (length (digits port), of_nat port)" unfolding d2 by (rule number_read) (simp add: no_digit_def)
  have d3: "drop (10 + length h + 1 + length (digits port)) ?url = [0x2f] @ path" using drop_append_drop [OF d2] .
  have slash: "load ?url (10 + length h + 1 + length (digits port)) = Some 0x2f" using d3 by (intro load_drop) simp
  have d4: "drop (10 + length h + 1 + length (digits port) + 1) ?url = path" using drop_append_drop [OF d3] by simp
  have len: "length ?url = 10 + length h + 1 + length (digits port) + 1 + length path" using s by simp
  have "?url ! (length ?url - 1) = last ?url" by (intro last_conv_nth [symmetric]) simp
  also have "last ?url = last path" using assms(3) by simp
  finally have l: "load ?url (length ?url - 1) = Some (last path)" using len by (simp add: load_def)
  have small: "\<not> (of_nat port :: u32) > 65535" "ucast (of_nat port :: u32) = (of_nat port :: u16)"
    using assms(2) by (simp_all add: word_less_nat_alt unat_of_nat unsigned_of_nat take_bit_nat_eq_self)
  have path: "parse_path ?url (10 + length h + 1 + length (digits port)) o' = Some (UA_STATUSCODE_GOOD, o'\<lparr>outPath := path\<rparr>)" for o'
    using slash d4 len l assms(3,4) by (simp add: parse_path_def Let_def)
  show ?thesis
    using e colon n slash path small digits_read [of port] len s assms(3) d10
    by (simp add: UA_parseEndpointUrl_def Let_def)
qed

theorem url_roundtrip_witness:
  "UA_parseEndpointUrl (url_scheme @ [104, 49] @ [0x3a] @ digits 4840 @ [0x2f] @ [97, 47, 98]) \<lparr>outHostname = [], outPort = 0, outPath = []\<rparr>
     = Some (UA_STATUSCODE_GOOD, \<lparr>outHostname = [104, 49], outPort = of_nat 4840, outPath = [97, 47, 98]\<rparr>)"
  by (rule url_roundtrip) (simp_all add: plain_host_def)

end
