(* ===== verification/UAManagers.thy ===== *)
theory UAManagers
  imports UAPeers
begin

text \<open>
  Sessions and their manager, the manager of secure channels, and the delayed callbacks that free both
  (\<open>ua_session.c\<close>, \<open>ua_session_manager.c\<close>, \<open>ua_securechannel_manager.c\<close>, \<open>ua_server_worker.c\<close>). Connections, channels and sessions are
  objects at addresses; an access to an object that has been freed is \<open>None\<close>, and so is a failed assertion. Time is a signed number
  of 64 bits, in units of 100 nanoseconds.
\<close>

section \<open>Sessions\<close>

text \<open>A timeout is a floating-point number: what the code does with it is an argument. Continuation points, subscriptions and
  queued responses are only collected and freed here; they are of one type \<open>'e\<close>. The description of the client and the
  handle of the user's code, which are only stored, are left out. The channel of a session and its token are in \<open>peers\<close>.\<close>

record 'd doubles =
  less_eq_double :: "'d \<Rightarrow> 'd \<Rightarrow> bool"
  positive_double :: "'d \<Rightarrow> bool"
  msec_to_datetime :: "'d \<Rightarrow> 64 word"
  zero_double :: 'd

record 'e session_objects =
  availableContinuationPoints :: u16
  continuationPoints :: "'e list"
  lastSubscriptionID :: u32
  serverSubscriptions :: "(u32 \<times> 'e) list"
  responseQueue :: "'e list"

record ('d, 'e) UA_Session =
  sessionName :: bytes
  activated :: bool
  sessionId :: UA_NodeId
  maxRequestMessageSize :: u32
  maxResponseMessageSize :: u32
  session_timeout :: 'd
  validTill :: "64 word"
  objects :: "'e session_objects"

definition UA_MAXCONTINUATIONPOINTS :: u16 where "UA_MAXCONTINUATIONPOINTS = 5"
definition NODEID_NULL :: UA_NodeId where "NODEID_NULL = \<lparr>namespaceIndex = 0, ident = NUMERIC 0\<rparr>"
definition UA_NODEID_GUID :: "u16 \<Rightarrow> UA_Guid \<Rightarrow> UA_NodeId" where "UA_NODEID_GUID nsIndex guid = \<lparr>namespaceIndex = nsIndex, ident = GUID guid\<rparr>"

definition no_objects :: "'e session_objects" where
  "no_objects = \<lparr>availableContinuationPoints = UA_MAXCONTINUATIONPOINTS, continuationPoints = [], lastSubscriptionID = 0,
     serverSubscriptions = [], responseQueue = []\<rparr>"

definition UA_Session_init :: "'d doubles \<Rightarrow> ('d, 'e) UA_Session" where
  "UA_Session_init D = \<lparr>sessionName = [], activated = False, sessionId = NODEID_NULL, maxRequestMessageSize = 0,
     maxResponseMessageSize = 0, session_timeout = zero_double D, validTill = 0, objects = no_objects\<rparr>"

definition UA_Session_updateLifetime :: "'d doubles \<Rightarrow> 64 word \<Rightarrow> ('d, 'e) UA_Session \<Rightarrow> ('d, 'e) UA_Session" where
  "UA_Session_updateLifetime D now session = session\<lparr>validTill := now + msec_to_datetime D (session_timeout session)\<rparr>"

definition UA_STATUSCODE_BADSUBSCRIPTIONIDINVALID :: UA_StatusCode where "UA_STATUSCODE_BADSUBSCRIPTIONIDINVALID = 0x80280000"

text \<open>The subscriptions of a session.\<close>

definition UA_Session_addSubscription :: "u32 \<times> 'e \<Rightarrow> 'e session_objects \<Rightarrow> 'e session_objects" where
  "UA_Session_addSubscription sub session = session\<lparr>serverSubscriptions := sub # serverSubscriptions session\<rparr>"

definition UA_Session_getSubscriptionByID :: "u32 \<Rightarrow> 'e session_objects \<Rightarrow> (u32 \<times> 'e) option" where
  "UA_Session_getSubscriptionByID n session = find (\<lambda>sub. fst sub = n) (serverSubscriptions session)"

fun remove_subscription :: "u32 \<Rightarrow> (u32 \<times> 'e) list \<Rightarrow> (u32 \<times> 'e) list" where
  "remove_subscription n [] = []"
| "remove_subscription n (sub # subs) = (if fst sub = n then subs else sub # remove_subscription n subs)"

definition UA_Session_deleteSubscription :: "u32 \<Rightarrow> 'e session_objects \<Rightarrow> UA_StatusCode \<times> 'e session_objects" where
  "UA_Session_deleteSubscription n session =
     (case UA_Session_getSubscriptionByID n session of
        None \<Rightarrow> (UA_STATUSCODE_BADSUBSCRIPTIONIDINVALID, session)
      | Some sub \<Rightarrow> (UA_STATUSCODE_GOOD, session\<lparr>serverSubscriptions := remove_subscription n (serverSubscriptions session)\<rparr>))"

definition UA_Session_getUniqueSubscriptionID :: "'e session_objects \<Rightarrow> u32 \<times> 'e session_objects" where
  "UA_Session_getUniqueSubscriptionID session =
     (let n = lastSubscriptionID session + 1 in (n, session\<lparr>lastSubscriptionID := n\<rparr>))"

section \<open>The state of the server\<close>

text \<open>The first of the delayed callbacks is the one that was added last. \<open>rest_of_server\<close> is what only the services use, such
  as the nodes.\<close>

datatype UA_ConnectionState = UA_CONNECTION_OPENING | UA_CONNECTION_ESTABLISHED | UA_CONNECTION_CLOSED

datatype delayed = RemoveSession nat | RemoveChannel nat

record 'd UA_ServerConfig =
  maxSecureChannels :: u16
  maxSecurityTokenLifetime :: u32
  maxSessions :: u16
  maxSessionTimeout :: 'd

record ('d, 'e, 's) UA_Server =
  links :: peers
  session_at :: "nat \<rightharpoonup> ('d, 'e) UA_Session"
  connection_at :: "nat \<rightharpoonup> UA_Connection"
  connection_state :: "nat \<Rightarrow> UA_ConnectionState"
  cm_channels :: "nat list"
  currentChannelCount :: u32
  lastChannelId :: u32
  lastTokenId :: u32
  sm_sessions :: "nat list"
  currentSessionCount :: u32
  delayedCallbacks :: "delayed list"
  rest_of_server :: 's

definition UA_SessionManager_init :: "('d, 'e, 's) UA_Server \<Rightarrow> ('d, 'e, 's) UA_Server" where
  "UA_SessionManager_init s = s\<lparr>sm_sessions := [], currentSessionCount := 0\<rparr>"

definition UA_SecureChannelManager_init :: "('d, 'e, 's) UA_Server \<Rightarrow> ('d, 'e, 's) UA_Server" where
  "UA_SecureChannelManager_init s = s\<lparr>cm_channels := [], lastChannelId := 1, lastTokenId := 1, currentChannelCount := 0\<rparr>"

definition UA_Server_delayedCallback :: "bool \<Rightarrow> delayed \<Rightarrow> ('d, 'e, 's) UA_Server \<Rightarrow> UA_StatusCode \<times> ('d, 'e, 's) UA_Server" where
  "UA_Server_delayedCallback malloc job s =
     (if \<not> malloc then (UA_STATUSCODE_BADOUTOFMEMORY, s) else (UA_STATUSCODE_GOOD, s\<lparr>delayedCallbacks := job # delayedCallbacks s\<rparr>))"

section \<open>The manager of the sessions\<close>

definition set_session :: "nat \<Rightarrow> ('d, 'e) UA_Session \<Rightarrow> ('d, 'e, 's) UA_Server \<Rightarrow> ('d, 'e, 's) UA_Server" where
  "set_session se x s = s\<lparr>session_at := (session_at s)(se \<mapsto> x)\<rparr>"

definition UA_Session_deleteMembersCleanup :: "nat \<Rightarrow> ('d, 'e, 's) UA_Server \<Rightarrow> ('d, 'e, 's) UA_Server option" where
  "UA_Session_deleteMembersCleanup se s =
     do { x \<leftarrow> session_at s se;
          p \<leftarrow> (case session_channel (links s) se of None \<Rightarrow> Some (links s) | Some c \<Rightarrow> UA_SecureChannel_detachSession c (Some se) (links s));
          Some (set_session se (x\<lparr>objects := (objects x)\<lparr>continuationPoints := [], serverSubscriptions := [], responseQueue := []\<rparr>\<rparr>) (s\<lparr>links := p\<rparr>)) }"

definition removeSessionCallback :: "nat \<Rightarrow> ('d, 'e, 's) UA_Server \<Rightarrow> ('d, 'e, 's) UA_Server option" where
  "removeSessionCallback se s = do { s \<leftarrow> UA_Session_deleteMembersCleanup se s; Some (s\<lparr>session_at := (session_at s)(se := None)\<rparr>) }"

fun delete_sessions :: "nat list \<Rightarrow> ('d, 'e, 's) UA_Server \<Rightarrow> ('d, 'e, 's) UA_Server option" where
  "delete_sessions [] s = Some s"
| "delete_sessions (se # ses) s = do { s \<leftarrow> removeSessionCallback se (s\<lparr>sm_sessions := remove1 se (sm_sessions s)\<rparr>); delete_sessions ses s }"

definition UA_SessionManager_deleteMembers :: "('d, 'e, 's) UA_Server \<Rightarrow> ('d, 'e, 's) UA_Server option" where
  "UA_SessionManager_deleteMembers s = delete_sessions (sm_sessions s) s"

definition removeSession :: "bool \<Rightarrow> nat \<Rightarrow> ('d, 'e, 's) UA_Server \<Rightarrow> (UA_StatusCode \<times> ('d, 'e, 's) UA_Server) option" where
  "removeSession malloc se s =
     do { x \<leftarrow> session_at s se;
          let (retval, s) = UA_Server_delayedCallback malloc (RemoveSession se) (set_session se (x\<lparr>activated := False\<rparr>) s);
          if retval \<noteq> UA_STATUSCODE_GOOD then Some (retval, s)
          else Some (UA_STATUSCODE_GOOD, s\<lparr>sm_sessions := remove1 se (sm_sessions s), currentSessionCount := currentSessionCount s + (- 1)\<rparr>) }"

text \<open>The loop reads the next entry before it removes one. Whether a request for memory succeeds may depend on the session.\<close>

fun timed_out_sessions :: "(nat \<Rightarrow> bool) \<Rightarrow> 64 word \<Rightarrow> nat list \<Rightarrow> ('d, 'e, 's) UA_Server \<Rightarrow> ('d, 'e, 's) UA_Server option" where
  "timed_out_sessions malloc now [] s = Some s"
| "timed_out_sessions malloc now (se # ses) s =
     do { x \<leftarrow> session_at s se;
          if sint (validTill x) \<ge> sint now then timed_out_sessions malloc now ses s
          else do { (_, s) \<leftarrow> removeSession (malloc se) se s; timed_out_sessions malloc now ses s } }"

definition UA_SessionManager_cleanupTimedOut :: "(nat \<Rightarrow> bool) \<Rightarrow> 64 word \<Rightarrow> ('d, 'e, 's) UA_Server \<Rightarrow> ('d, 'e, 's) UA_Server option" where
  "UA_SessionManager_cleanupTimedOut malloc clock s = timed_out_sessions malloc clock (sm_sessions s) s"

fun session_with_token :: "UA_NodeId \<Rightarrow> nat list \<Rightarrow> ('d, 'e, 's) UA_Server \<Rightarrow> nat option option" where
  "session_with_token token [] s = Some None"
| "session_with_token token (se # ses) s =
     (if session_at s se = None then None
      else if UA_NodeId_equal (authenticationToken (links s) se) token then Some (Some se)
      else session_with_token token ses s)"

definition UA_SessionManager_getSession :: "UA_NodeId \<Rightarrow> 64 word \<Rightarrow> ('d, 'e, 's) UA_Server \<Rightarrow> nat option option" where
  "UA_SessionManager_getSession token now s =
     do { current \<leftarrow> session_with_token token (sm_sessions s) s;
          case current of
            None \<Rightarrow> Some None
          | Some se \<Rightarrow> do { x \<leftarrow> session_at s se; Some (if sint now > sint (validTill x) then None else Some se) } }"

definition UA_STATUSCODE_BADTOOMANYSESSIONS :: UA_StatusCode where "UA_STATUSCODE_BADTOOMANYSESSIONS = 0x80560000"
definition UA_STATUSCODE_BADSESSIONIDINVALID :: UA_StatusCode where "UA_STATUSCODE_BADSESSIONIDINVALID = 0x80250000"

text \<open>\<open>entry\<close> is the address that \<open>malloc\<close> returns, \<open>guid1\<close> and \<open>guid2\<close> are what \<open>UA_Guid_random\<close> does.\<close>

definition UA_SessionManager_createSession ::
    "'d doubles \<Rightarrow> 'd UA_ServerConfig \<Rightarrow> nat option \<Rightarrow> UA_Guid \<Rightarrow> UA_Guid \<Rightarrow> 64 word \<Rightarrow> 'd \<Rightarrow> ('d, 'e, 's) UA_Server \<Rightarrow>
     UA_StatusCode \<times> nat option \<times> ('d, 'e, 's) UA_Server" where
  "UA_SessionManager_createSession D config entry guid1 guid2 now requestedSessionTimeout s =
     (if currentSessionCount s \<ge> ucast (maxSessions config) then (UA_STATUSCODE_BADTOOMANYSESSIONS, None, s)
      else case entry of
          None \<Rightarrow> (UA_STATUSCODE_BADOUTOFMEMORY, None, s)
        | Some se \<Rightarrow>
            let p = (links s)\<lparr>session_channel := (session_channel (links s))(se := None),
                  authenticationToken := (authenticationToken (links s))(se := UA_NODEID_GUID 1 guid2)\<rparr>;
                t = (if less_eq_double D requestedSessionTimeout (maxSessionTimeout config) \<and> positive_double D requestedSessionTimeout
                     then requestedSessionTimeout else maxSessionTimeout config);
                x = UA_Session_updateLifetime D now ((UA_Session_init D)\<lparr>sessionId := UA_NODEID_GUID 1 guid1, session_timeout := t\<rparr>)
            in (UA_STATUSCODE_GOOD, Some se,
                set_session se x (s\<lparr>links := p, currentSessionCount := currentSessionCount s + 1, sm_sessions := se # sm_sessions s\<rparr>)))"

definition UA_SessionManager_removeSession :: "bool \<Rightarrow> UA_NodeId \<Rightarrow> ('d, 'e, 's) UA_Server \<Rightarrow> (UA_StatusCode \<times> ('d, 'e, 's) UA_Server) option" where
  "UA_SessionManager_removeSession malloc token s =
     do { current \<leftarrow> session_with_token token (sm_sessions s) s;
          case current of None \<Rightarrow> Some (UA_STATUSCODE_BADSESSIONIDINVALID, s) | Some se \<Rightarrow> removeSession malloc se s }"

section \<open>The manager of the secure channels\<close>

text \<open>Cleaning up a channel follows its pointers to a connection and to sessions.\<close>

definition removeSecureChannelCallback :: "nat \<Rightarrow> ('d, 'e, 's) UA_Server \<Rightarrow> ('d, 'e, 's) UA_Server option" where
  "removeSecureChannelCallback c s =
     do { ch \<leftarrow> channels (links s) c;
          if (case ch_connection ch of None \<Rightarrow> False | Some k \<Rightarrow> connection_at s k = None) \<or> (\<exists>se \<in> set (sessions ch). session_at s se = None)
          then None
          else do { p \<leftarrow> UA_SecureChannel_deleteMembersCleanup c (links s); Some (s\<lparr>links := p\<lparr>channels := (channels p)(c := None)\<rparr>\<rparr>) } }"

fun delete_channels :: "nat list \<Rightarrow> ('d, 'e, 's) UA_Server \<Rightarrow> ('d, 'e, 's) UA_Server option" where
  "delete_channels [] s = Some s"
| "delete_channels (c # cs) s = do { s \<leftarrow> removeSecureChannelCallback c (s\<lparr>cm_channels := remove1 c (cm_channels s)\<rparr>); delete_channels cs s }"

definition UA_SecureChannelManager_deleteMembers :: "('d, 'e, 's) UA_Server \<Rightarrow> ('d, 'e, 's) UA_Server option" where
  "UA_SecureChannelManager_deleteMembers s = delete_channels (cm_channels s) s"

definition removeSecureChannel :: "bool \<Rightarrow> nat \<Rightarrow> ('d, 'e, 's) UA_Server \<Rightarrow> UA_StatusCode \<times> ('d, 'e, 's) UA_Server" where
  "removeSecureChannel malloc c s =
     (let (retval, s) = UA_Server_delayedCallback malloc (RemoveChannel c) s in
      if retval \<noteq> UA_STATUSCODE_GOOD then (retval, s)
      else (UA_STATUSCODE_GOOD, s\<lparr>cm_channels := remove1 c (cm_channels s), currentChannelCount := currentChannelCount s + (- 1)\<rparr>))"

definition token_timeout :: "UA_ChannelSecurityToken \<Rightarrow> 64 word" where
  "token_timeout t = createdAt t + ucast (revisedLifetime t) * word_of_int MSEC_TO_DATETIME"

fun timed_out_channels :: "(nat \<Rightarrow> bool) \<Rightarrow> 64 word \<Rightarrow> nat list \<Rightarrow> ('d, 'e, 's) UA_Server \<Rightarrow> ('d, 'e, 's) UA_Server option" where
  "timed_out_channels malloc now [] s = Some s"
| "timed_out_channels malloc now (c # cs) s =
     do { ch \<leftarrow> channels (links s) c;
          if sint (token_timeout (securityToken ch)) < sint now \<or> ch_connection ch = None
          then timed_out_channels malloc now cs (snd (removeSecureChannel (malloc c) c s))
          else if tokenId (nextSecurityToken ch) > 0
          then timed_out_channels malloc now cs (s\<lparr>links := set_channel c (UA_SecureChannel_revolveTokens ch) (links s)\<rparr>)
          else timed_out_channels malloc now cs s }"

definition UA_SecureChannelManager_cleanupTimedOut :: "(nat \<Rightarrow> bool) \<Rightarrow> 64 word \<Rightarrow> ('d, 'e, 's) UA_Server \<Rightarrow> ('d, 'e, 's) UA_Server option" where
  "UA_SecureChannelManager_cleanupTimedOut malloc clock s = timed_out_channels malloc clock (cm_channels s) s"

fun channel_without_session :: "nat list \<Rightarrow> ('d, 'e, 's) UA_Server \<Rightarrow> nat option option" where
  "channel_without_session [] s = Some None"
| "channel_without_session (c # cs) s =
     do { ch \<leftarrow> channels (links s) c; if sessions ch = [] then Some (Some c) else channel_without_session cs s }"

text \<open>The assertion compares the entry with the first one of the list after the removal.\<close>

definition purgeFirstChannelWithoutSession :: "bool \<Rightarrow> ('d, 'e, 's) UA_Server \<Rightarrow> (bool \<times> ('d, 'e, 's) UA_Server) option" where
  "purgeFirstChannelWithoutSession malloc s =
     do { entry \<leftarrow> channel_without_session (cm_channels s) s;
          case entry of
            None \<Rightarrow> Some (False, s)
          | Some c \<Rightarrow> let s' = snd (removeSecureChannel malloc c s) in
              if cm_channels s' \<noteq> [] \<and> hd (cm_channels s') = c then None else Some (True, s') }"

definition UA_MESSAGESECURITYMODE_NONE :: u32 where "UA_MESSAGESECURITYMODE_NONE = 1"
definition UA_STATUSCODE_BADSECURITYMODEREJECTED :: UA_StatusCode where "UA_STATUSCODE_BADSECURITYMODEREJECTED = 0x80540000"

record open_request =
  requestType :: u32
  securityMode :: u32
  requestedLifetime :: u32

definition revised_lifetime :: "'d UA_ServerConfig \<Rightarrow> open_request \<Rightarrow> u32" where
  "revised_lifetime config request =
     (let t = (if requestedLifetime request > maxSecurityTokenLifetime config then maxSecurityTokenLifetime config else requestedLifetime request)
      in if t = 0 then maxSecurityTokenLifetime config else t)"

text \<open>The token in the response has the time of the wall clock, the one in the channel that of the monotonic clock. \<open>malloc\<close> is for
  the callback that removes a purged channel.\<close>

definition UA_SecureChannelManager_open ::
    "'d UA_ServerConfig \<Rightarrow> bool \<Rightarrow> nat option \<Rightarrow> 64 word \<Rightarrow> 64 word \<Rightarrow> nat \<Rightarrow> open_request \<Rightarrow> ('d, 'e, 's) UA_Server \<Rightarrow>
     (UA_StatusCode \<times> UA_ChannelSecurityToken \<times> ('d, 'e, 's) UA_Server) option" where
  "UA_SecureChannelManager_open config malloc entry now clock conn request s =
     (if securityMode request \<noteq> UA_MESSAGESECURITYMODE_NONE then Some (UA_STATUSCODE_BADSECURITYMODEREJECTED, no_token, s)
      else do { (room, s) \<leftarrow> (if currentChannelCount s \<ge> ucast (maxSecureChannels config)
                               then purgeFirstChannelWithoutSession malloc s else Some (True, s));
                if \<not> room then Some (UA_STATUSCODE_BADOUTOFMEMORY, no_token, s)
                else case entry of
                    None \<Rightarrow> Some (UA_STATUSCODE_BADOUTOFMEMORY, no_token, s)
                  | Some c \<Rightarrow> do {
                      let t = \<lparr>channelId = lastChannelId s, tokenId = lastTokenId s, createdAt = now, revisedLifetime = revised_lifetime config request\<rparr>;
                      p \<leftarrow> UA_Connection_attachSecureChannel conn c
                            (set_channel c (UA_SecureChannel_init\<lparr>securityToken := t\<lparr>createdAt := clock\<rparr>\<rparr>) (links s));
                      Some (UA_STATUSCODE_GOOD, t, s\<lparr>links := p, lastChannelId := lastChannelId s + 1, lastTokenId := lastTokenId s + 1,
                        cm_channels := c # cm_channels s, currentChannelCount := currentChannelCount s + 1\<rparr>) } })"

definition UA_SecureChannelManager_renew ::
    "'d UA_ServerConfig \<Rightarrow> 64 word \<Rightarrow> 64 word \<Rightarrow> nat \<Rightarrow> open_request \<Rightarrow> ('d, 'e, 's) UA_Server \<Rightarrow>
     (UA_StatusCode \<times> UA_ChannelSecurityToken \<times> ('d, 'e, 's) UA_Server) option" where
  "UA_SecureChannelManager_renew config now clock conn request s =
     (case connection_channel (links s) conn of
        None \<Rightarrow> Some (UA_STATUSCODE_BADINTERNALERROR, no_token, s)
      | Some c \<Rightarrow> do {
          ch \<leftarrow> channels (links s) c;
          let issue = tokenId (nextSecurityToken ch) = 0;
          let t = (if issue then \<lparr>channelId = channelId (securityToken ch), tokenId = lastTokenId s, createdAt = now, revisedLifetime = revised_lifetime config request\<rparr>
                   else nextSecurityToken ch);
          Some (UA_STATUSCODE_GOOD, t,
            s\<lparr>links := set_channel c (ch\<lparr>nextSecurityToken := t\<lparr>createdAt := clock\<rparr>\<rparr>) (links s),
              lastTokenId := (if issue then lastTokenId s + 1 else lastTokenId s)\<rparr>) })"

fun channel_with_id :: "u32 \<Rightarrow> nat list \<Rightarrow> ('d, 'e, 's) UA_Server \<Rightarrow> nat option option" where
  "channel_with_id n [] s = Some None"
| "channel_with_id n (c # cs) s =
     do { ch \<leftarrow> channels (links s) c; if channelId (securityToken ch) = n then Some (Some c) else channel_with_id n cs s }"

definition UA_SecureChannelManager_get :: "u32 \<Rightarrow> ('d, 'e, 's) UA_Server \<Rightarrow> nat option option" where
  "UA_SecureChannelManager_get n s = channel_with_id n (cm_channels s) s"

definition UA_SecureChannelManager_close :: "bool \<Rightarrow> u32 \<Rightarrow> ('d, 'e, 's) UA_Server \<Rightarrow> (UA_StatusCode \<times> ('d, 'e, 's) UA_Server) option" where
  "UA_SecureChannelManager_close malloc n s =
     do { entry \<leftarrow> channel_with_id n (cm_channels s) s;
          Some (case entry of None \<Rightarrow> (UA_STATUSCODE_BADINTERNALERROR, s) | Some c \<Rightarrow> removeSecureChannel malloc c s) }"

section \<open>Delayed callbacks and the periodic cleanup\<close>

fun processJob :: "delayed \<Rightarrow> ('d, 'e, 's) UA_Server \<Rightarrow> ('d, 'e, 's) UA_Server option" where
  "processJob (RemoveSession se) s = removeSessionCallback se s"
| "processJob (RemoveChannel c) s = removeSecureChannelCallback c s"

text \<open>A callback that adds another one puts it before the rest, where the loop does not come back to; these two add none.\<close>

fun process_delayed :: "delayed list \<Rightarrow> ('d, 'e, 's) UA_Server \<Rightarrow> ('d, 'e, 's) UA_Server option" where
  "process_delayed [] s = Some s"
| "process_delayed (job # jobs) s = do { s \<leftarrow> processJob job (s\<lparr>delayedCallbacks := remove1 job (delayedCallbacks s)\<rparr>); process_delayed jobs s }"

definition processDelayedCallbacks :: "('d, 'e, 's) UA_Server \<Rightarrow> ('d, 'e, 's) UA_Server option" where
  "processDelayedCallbacks s = process_delayed (delayedCallbacks s) s"

definition UA_Server_cleanup :: "(nat \<Rightarrow> bool) \<Rightarrow> (nat \<Rightarrow> bool) \<Rightarrow> 64 word \<Rightarrow> ('d, 'e, 's) UA_Server \<Rightarrow> ('d, 'e, 's) UA_Server option" where
  "UA_Server_cleanup malloc1 malloc2 clock s =
     do { s \<leftarrow> UA_SessionManager_cleanupTimedOut malloc1 clock s; UA_SecureChannelManager_cleanupTimedOut malloc2 clock s }"

text \<open>The job that detaches a connection, and the callback that frees it.\<close>

definition detach_job :: "nat \<Rightarrow> ('d, 'e, 's) UA_Server \<Rightarrow> ('d, 'e, 's) UA_Server option" where
  "detach_job k s = do { _ \<leftarrow> connection_at s k; p \<leftarrow> UA_Connection_detachSecureChannel k (links s); Some (s\<lparr>links := p\<rparr>) }"

definition FreeConnectionCallback :: "nat \<Rightarrow> ('d, 'e, 's) UA_Server \<Rightarrow> ('d, 'e, 's) UA_Server option" where
  "FreeConnectionCallback k s = do { _ \<leftarrow> connection_at s k; Some (s\<lparr>connection_at := (connection_at s)(k := None)\<rparr>) }"

text \<open>For a connection that is closed from the other side the network layer appends these two jobs to its list, next to each other. Without
  threads the server takes one after the other.\<close>

definition detach_and_free :: "nat \<Rightarrow> ('d, 'e, 's) UA_Server \<Rightarrow> ('d, 'e, 's) UA_Server option" where
  "detach_and_free k s = do { s \<leftarrow> detach_job k s; FreeConnectionCallback k s }"

lemmas connection_jobs = detach_job_def FreeConnectionCallback_def

end
