(* ===== verification/UAServer.thy ===== *)
theory UAServer
  imports UAManagers
begin

text \<open>
  What the server does with the messages of a client: the services for channels and sessions (\<open>ua_services_securechannel.c\<close>,
  \<open>ua_services_session.c\<close>) and the handlers of \<open>ua_server_binary.c\<close>. The generated decoders and encoders, the access control of
  the user, the other services and the encoding of responses are functions in a record. What the clock, the allocator and the random
  generator give while a message is processed is another record.
\<close>

section \<open>Services and their numbers\<close>

datatype service = Service_GetEndpoints | Service_FindServers | Service_RegisterServer | Service_RegisterServer2
  | Service_CreateSession | Service_ActivateSession | Service_CloseSession | Service_Read | Service_Write | Service_Browse
  | Service_BrowseNext | Service_RegisterNodes | Service_UnregisterNodes | Service_TranslateBrowsePathsToNodeIds
  | Service_CreateSubscription | Service_Publish | Service_Republish | Service_ModifySubscription | Service_SetPublishingMode
  | Service_DeleteSubscriptions | Service_CreateMonitoredItems | Service_DeleteMonitoredItems | Service_ModifyMonitoredItems
  | Service_SetMonitoringMode | Service_Call | Service_AddNodes | Service_AddReferences | Service_DeleteNodes | Service_DeleteReferences

text \<open>The binary encoding of each request, the service and whether it needs a session, in a build with discovery (without
  multicast), subscriptions, method calls and node management.\<close>

definition service_table :: "(u32 \<times> service \<times> bool) list" where
  "service_table =
     [(428, Service_GetEndpoints, False), (422, Service_FindServers, False), (437, Service_RegisterServer, False),
      (12211, Service_RegisterServer2, False), (461, Service_CreateSession, False), (467, Service_ActivateSession, True),
      (473, Service_CloseSession, True), (631, Service_Read, True), (673, Service_Write, True), (527, Service_Browse, True),
      (533, Service_BrowseNext, True), (560, Service_RegisterNodes, True), (566, Service_UnregisterNodes, True),
      (554, Service_TranslateBrowsePathsToNodeIds, True), (787, Service_CreateSubscription, True), (826, Service_Publish, True),
      (832, Service_Republish, True), (793, Service_ModifySubscription, True), (799, Service_SetPublishingMode, True),
      (847, Service_DeleteSubscriptions, True), (751, Service_CreateMonitoredItems, True), (781, Service_DeleteMonitoredItems, True),
      (763, Service_ModifyMonitoredItems, True), (769, Service_SetMonitoringMode, True), (712, Service_Call, True),
      (488, Service_AddNodes, True), (494, Service_AddReferences, True), (500, Service_DeleteNodes, True), (506, Service_DeleteReferences, True)]"

definition getServicePointers :: "u32 \<Rightarrow> (service \<times> bool) option" where
  "getServicePointers requestTypeId = map_of service_table requestTypeId"

section \<open>Environment\<close>

datatype ('d, 'p) reply = Fault "service option" UA_StatusCode | Created UA_StatusCode UA_NodeId UA_NodeId 'd
  | Result UA_StatusCode | Answer 'p

text \<open>What the network and the services see of the server.\<close>

datatype effect = Send nat bytes | Close nat | Called service "nat option"

text \<open>\<open>'q\<close> is a decoded request, \<open>'p\<close> a response. \<open>sendBinaryMessage\<close> takes the connection, the sequence number of the channel, the
  number of the request, its handle and the response.\<close>

record ('d, 'e, 's, 'q, 'p) environment =
  doubles_of :: "'d doubles"
  config_of :: "'d UA_ServerConfig"
  decode_request :: "service \<Rightarrow> bytes \<Rightarrow> nat \<Rightarrow> UA_StatusCode \<times> 'q"
  decode_request_header :: "bytes \<Rightarrow> nat \<Rightarrow> UA_StatusCode \<times> u32"
  decode_open :: "bytes \<Rightarrow> UA_StatusCode \<times> u32 \<times> u32 \<times> open_request"
  encode_open :: "nat \<Rightarrow> u32 \<Rightarrow> UA_ChannelSecurityToken \<Rightarrow> UA_StatusCode \<Rightarrow> UA_StatusCode \<times> bytes"
  request_token :: "'q \<Rightarrow> UA_NodeId"
  request_handle :: "'q \<Rightarrow> u32"
  requestedSessionTimeout :: "'q \<Rightarrow> 'd"
  request_maxResponseMessageSize :: "'q \<Rightarrow> u32"
  request_sessionName :: "'q \<Rightarrow> bytes"
  activateSession :: "UA_NodeId \<Rightarrow> 'q \<Rightarrow> UA_StatusCode"
  call_service :: "service \<Rightarrow> ('d, 'e) UA_Session \<Rightarrow> 'q \<Rightarrow> 's \<Rightarrow> 'e session_objects \<times> 's \<times> 'p"
  sendBinaryMessage :: "UA_Connection \<Rightarrow> u32 \<Rightarrow> u32 \<Rightarrow> u32 \<Rightarrow> ('d, 'p) reply \<Rightarrow> u32 \<times> bytes list"

record inputs =
  wall_clock :: "64 word"
  monotonic_clock :: "64 word"
  new_session :: "nat option"
  new_channel :: "nat option"
  random_id :: UA_Guid
  random_token :: UA_Guid
  malloc_job :: bool
  malloc_entry :: bool
  malloc_strings :: "nat \<Rightarrow> bool"
  copy_endpoints :: UA_StatusCode
  copy_description :: UA_StatusCode
  copy_name :: UA_StatusCode
  copy_certificate :: UA_StatusCode
  has_endpoints :: bool
  send_buffer :: UA_StatusCode

definition set_link :: "nat \<Rightarrow> UA_SecureChannel \<Rightarrow> ('d, 'e, 's) UA_Server \<Rightarrow> ('d, 'e, 's) UA_Server" where
  "set_link c ch s = s\<lparr>links := set_channel c ch (links s)\<rparr>"

definition close_connection :: "nat \<Rightarrow> ('d, 'e, 's) UA_Server \<Rightarrow> ('d, 'e, 's) UA_Server \<times> effect list" where
  "close_connection k s =
     (if connection_state s k = UA_CONNECTION_CLOSED then (s, [])
      else (s\<lparr>connection_state := (connection_state s)(k := UA_CONNECTION_CLOSED)\<rparr>, [Close k]))"

definition send_reply ::
    "('d, 'e, 's, 'q, 'p) environment \<Rightarrow> nat \<Rightarrow> u32 \<Rightarrow> u32 \<Rightarrow> ('d, 'p) reply \<Rightarrow> ('d, 'e, 's) UA_Server \<Rightarrow>
     (('d, 'e, 's) UA_Server \<times> effect list) option" where
  "send_reply E c requestId handle reply s =
     do { ch \<leftarrow> channels (links s) c;
          case ch_connection ch of
            None \<Rightarrow> Some (s, [])
          | Some k \<Rightarrow> do {
              connection \<leftarrow> connection_at s k;
              let (number, chunks) = sendBinaryMessage E connection (sendSequenceNumber ch) requestId handle reply;
              Some (set_link c (ch\<lparr>sendSequenceNumber := number\<rparr>) s, map (Send k) chunks) } }"

definition sendError ::
    "('d, 'e, 's, 'q, 'p) environment \<Rightarrow> nat \<Rightarrow> bytes \<Rightarrow> nat \<Rightarrow> service option \<Rightarrow> u32 \<Rightarrow> UA_StatusCode \<Rightarrow> ('d, 'e, 's) UA_Server \<Rightarrow>
     (('d, 'e, 's) UA_Server \<times> effect list) option" where
  "sendError E c msg offset service requestId error s =
     (let (retval, handle) = decode_request_header E msg offset in
      if retval \<noteq> UA_STATUSCODE_GOOD then Some (s, []) else send_reply E c requestId handle (Fault service error) s)"

section \<open>Services for sessions and channels\<close>

definition UA_STATUSCODE_BADSECURECHANNELIDINVALID :: UA_StatusCode where "UA_STATUSCODE_BADSECURECHANNELIDINVALID = 0x80220000"
definition UA_STATUSCODE_BADSESSIONNOTACTIVATED :: UA_StatusCode where "UA_STATUSCODE_BADSESSIONNOTACTIVATED = 0x80270000"
definition UA_STATUSCODE_BADSERVICEUNSUPPORTED :: UA_StatusCode where "UA_STATUSCODE_BADSERVICEUNSUPPORTED = 0x800B0000"

text \<open>The result of copying the description is overwritten by that of copying the name.\<close>

definition create_session ::
    "('d, 'e, 's, 'q, 'p) environment \<Rightarrow> inputs \<Rightarrow> nat \<Rightarrow> 'q \<Rightarrow> ('d, 'e, 's) UA_Server \<Rightarrow> (('d, 'e, 's) UA_Server \<times> ('d, 'p) reply) option" where
  "create_session E i c request s =
     (let failed = (\<lambda>r. Created r NODEID_NULL NODEID_NULL (zero_double (doubles_of E))) in
      do { ch \<leftarrow> channels (links s) c;
           if channelId (securityToken ch) = 0 then Some (s, failed UA_STATUSCODE_BADSECURECHANNELIDINVALID)
           else if copy_endpoints i \<noteq> UA_STATUSCODE_GOOD then Some (s, failed (copy_endpoints i))
           else case UA_SessionManager_createSession (doubles_of E) (config_of E) (new_session i) (random_id i) (random_token i)
                  (monotonic_clock i) (requestedSessionTimeout E request) s of
               (retval, None, s) \<Rightarrow> Some (s, failed retval)
             | (_, Some se, s) \<Rightarrow> do {
                 x \<leftarrow> session_at s se;
                 k \<leftarrow> ch_connection ch;
                 connection \<leftarrow> connection_at s k;
                 let x = x\<lparr>maxResponseMessageSize := request_maxResponseMessageSize E request,
                           maxRequestMessageSize := maxMessageSize (localConf connection),
                           sessionName := (if copy_name i = UA_STATUSCODE_GOOD then request_sessionName E request else [])\<rparr>;
                 let s = set_session se x s;
                 let retval = (if has_endpoints i then copy_name i OR copy_certificate i else copy_name i);
                 let token = authenticationToken (links s) se;
                 s \<leftarrow> (if retval \<noteq> UA_STATUSCODE_GOOD
                       then do { (_, s) \<leftarrow> UA_SessionManager_removeSession (malloc_job i) token s; Some s } else Some s);
                 Some (s, Created retval (sessionId x) token (session_timeout x)) } })"

definition activate_session ::
    "('d, 'e, 's, 'q, 'p) environment \<Rightarrow> inputs \<Rightarrow> nat \<Rightarrow> nat \<Rightarrow> 'q \<Rightarrow> ('d, 'e, 's) UA_Server \<Rightarrow> (('d, 'e, 's) UA_Server \<times> ('d, 'p) reply) option" where
  "activate_session E i c se request s =
     do { x \<leftarrow> session_at s se;
          if sint (validTill x) < sint (monotonic_clock i) then Some (s, Result UA_STATUSCODE_BADSESSIONIDINVALID)
          else if activateSession E (sessionId x) request \<noteq> UA_STATUSCODE_GOOD then Some (s, Result (activateSession E (sessionId x) request))
          else do {
            p \<leftarrow> (case session_channel (links s) se of
                None \<Rightarrow> Some (links s)
              | Some c' \<Rightarrow> if c' \<noteq> c then UA_SecureChannel_detachSession c' (Some se) (links s) else Some (links s));
            p \<leftarrow> UA_SecureChannel_attachSession (\<lambda>_. malloc_entry i) 0 c se p;
            Some (set_session se (UA_Session_updateLifetime (doubles_of E) (monotonic_clock i) (x\<lparr>activated := True\<rparr>)) (s\<lparr>links := p\<rparr>),
                  Result UA_STATUSCODE_GOOD) } }"

definition close_session :: "inputs \<Rightarrow> nat \<Rightarrow> ('d, 'e, 's) UA_Server \<Rightarrow> (('d, 'e, 's) UA_Server \<times> ('d, 'p) reply) option" where
  "close_session i se s =
     do { (retval, s) \<leftarrow> UA_SessionManager_removeSession (malloc_job i) (authenticationToken (links s) se) s; Some (s, Result retval) }"

definition UA_SECURITYTOKENREQUESTTYPE_ISSUE :: u32 where "UA_SECURITYTOKENREQUESTTYPE_ISSUE = 0"

definition Service_OpenSecureChannel ::
    "('d, 'e, 's, 'q, 'p) environment \<Rightarrow> inputs \<Rightarrow> nat \<Rightarrow> open_request \<Rightarrow> ('d, 'e, 's) UA_Server \<Rightarrow>
     (UA_StatusCode \<times> UA_ChannelSecurityToken \<times> ('d, 'e, 's) UA_Server) option" where
  "Service_OpenSecureChannel E i k request s =
     (if requestType request = UA_SECURITYTOKENREQUESTTYPE_ISSUE
      then UA_SecureChannelManager_open (config_of E) (malloc_job i) (new_channel i) (wall_clock i) (monotonic_clock i) k request s
      else UA_SecureChannelManager_renew (config_of E) (wall_clock i) (monotonic_clock i) k request s)"

definition Service_CloseSecureChannel :: "inputs \<Rightarrow> nat \<Rightarrow> ('d, 'e, 's) UA_Server \<Rightarrow> ('d, 'e, 's) UA_Server option" where
  "Service_CloseSecureChannel i c s =
     do { ch \<leftarrow> channels (links s) c;
          (_, s) \<leftarrow> UA_SecureChannelManager_close (malloc_job i) (channelId (securityToken ch)) s;
          Some s }"

section \<open>Messages\<close>

text \<open>The generated encoders of headers and messages write their numbers one after the other, until one does not fit. There is no other
  buffer to go on with, so this is an error, and the position stays before it.\<close>

primrec encode_words :: "u32 list \<Rightarrow> unit encoding" where
  "encode_words [] st = Some (UA_STATUSCODE_GOOD, st)"
| "encode_words (w # ws) st =
     do { (retval, st) \<leftarrow> UInt32_encodeBinary w st;
          if retval \<noteq> UA_STATUSCODE_GOOD then exchangeBuffer None st else encode_words ws st }"

definition encode_message :: "u32 list \<Rightarrow> bytes \<Rightarrow> nat \<Rightarrow> (UA_StatusCode \<times> bytes \<times> nat) option" where
  "encode_message ws dst offset =
     do { (retval, st) \<leftarrow> encode_words ws \<lparr>ebuf = dst, ebase = 0, pbase = 0, epos = offset, world = ()\<rparr>;
          Some (retval, ebuf st, epos st) }"

text \<open>\<open>buf.length = n; connection->send(connection, &buf)\<close> reads \<open>n\<close> bytes from the memory of the buffer.\<close>

definition bytes_of_length :: "bytes \<Rightarrow> nat \<Rightarrow> bytes option" where
  "bytes_of_length buf n = (if n \<le> length buf then Some (take n buf) else None)"

text \<open>The results of the encoders of the answer are not looked at. The memory that \<open>getSendBuffer\<close> gives is not initialised; the model
  has zeros there.\<close>

definition processHEL :: "inputs \<Rightarrow> nat \<Rightarrow> bytes \<Rightarrow> nat \<Rightarrow> ('d, 'e, 's) UA_Server \<Rightarrow> (('d, 'e, 's) UA_Server \<times> effect list) option" where
  "processHEL i k msg offset s =
     do { connection \<leftarrow> connection_at s k;
          (r1, hello, st) \<leftarrow> decode_words 5 \<lparr>dbuf = msg, dpos = offset\<rparr>;
          (r2, url, st) \<leftarrow> String_decodeBinary (malloc_strings i) NullArray st;
          if r1 OR r2 \<noteq> UA_STATUSCODE_GOOD then Some (close_connection k s)
          else do {
            let l = localConf connection;
            let remote = \<lparr>protocolVersion = hello ! 0, sendBufferSize = hello ! 2, recvBufferSize = hello ! 1, maxMessageSize = hello ! 3,
                          maxChunkCount = hello ! 4\<rparr>;
            let l = (if sendBufferSize l > hello ! 1 then l\<lparr>sendBufferSize := hello ! 1\<rparr> else l);
            let l = (if recvBufferSize l > hello ! 2 then l\<lparr>recvBufferSize := hello ! 2\<rparr> else l);
            let s = s\<lparr>connection_at := (connection_at s)(k \<mapsto> connection\<lparr>localConf := l, remoteConf := remote\<rparr>),
                      connection_state := (connection_state s)(k := UA_CONNECTION_ESTABLISHED)\<rparr>;
            if send_buffer i \<noteq> UA_STATUSCODE_GOOD then Some (s, [])
            else do {
              let messageSize = 28;
              (_, ack_msg, tmpPos) \<leftarrow> encode_message [UA_MESSAGETYPE_ACK + UA_CHUNKTYPE_FINAL, messageSize] (replicate (unat (sendBufferSize l)) 0) 0;
              (_, ack_msg, tmpPos) \<leftarrow>
                encode_message [protocolVersion l, recvBufferSize l, sendBufferSize l, maxMessageSize l, maxChunkCount l] ack_msg tmpPos;
              sent \<leftarrow> bytes_of_length ack_msg (unat messageSize);
              Some (s, [Send k sent]) } } }"

definition processOPN ::
    "('d, 'e, 's, 'q, 'p) environment \<Rightarrow> inputs \<Rightarrow> nat \<Rightarrow> u32 \<Rightarrow> bytes \<Rightarrow> ('d, 'e, 's) UA_Server \<Rightarrow> (('d, 'e, 's) UA_Server \<times> effect list) option" where
  "processOPN E i k id_of_channel msg s =
     do { connection \<leftarrow> connection_at s k;
          wrong \<leftarrow> (case connection_channel (links s) k of
              None \<Rightarrow> Some (id_of_channel \<noteq> 0)
            | Some c \<Rightarrow> do { ch \<leftarrow> channels (links s) c; Some (id_of_channel \<noteq> channelId (securityToken ch)) });
          let r1 = (if connection_state s k \<noteq> UA_CONNECTION_ESTABLISHED \<or> wrong then UA_STATUSCODE_BADCOMMUNICATIONERROR else UA_STATUSCODE_GOOD);
          let (r2, sequence, typ, request) = decode_open E msg;
          if r1 OR r2 \<noteq> UA_STATUSCODE_GOOD \<or> typ \<noteq> 446 then Some (close_connection k s)
          else do {
            (status, token, s) \<leftarrow> Service_OpenSecureChannel E i k request s;
            case connection_channel (links s) k of
              None \<Rightarrow> Some (close_connection k s)
            | Some c \<Rightarrow> do {
                ch \<leftarrow> channels (links s) c;
                let ch = ch\<lparr>receiveSequenceNumber := sequence\<rparr>;
                if send_buffer i \<noteq> UA_STATUSCODE_GOOD then Some (close_connection k (set_link c ch s))
                else do {
                  let ch = ch\<lparr>sendSequenceNumber := sendSequenceNumber ch + 1\<rparr>;
                  let s = set_link c ch s;
                  let (retval, response) = encode_open E (unat (sendBufferSize (localConf connection))) (sendSequenceNumber ch) token status;
                  if retval \<noteq> UA_STATUSCODE_GOOD then Some (close_connection k s)
                  else Some (s, [Send k response]) } } } }"

text \<open>The session for services that need none. Its objects are dropped with it.\<close>

definition call_anonymous ::
    "('d, 'e, 's, 'q, 'p) environment \<Rightarrow> service \<Rightarrow> nat \<Rightarrow> u32 \<Rightarrow> 'q \<Rightarrow> ('d, 'e, 's) UA_Server \<Rightarrow> (('d, 'e, 's) UA_Server \<times> effect list) option" where
  "call_anonymous E service c requestId request s =
     (let x = (UA_Session_init (doubles_of E))\<lparr>sessionId := UA_NODEID_GUID 0 guid_zero\<rparr>;
          (_, r, response) = call_service E service x request (rest_of_server s)
      in do { (s, out) \<leftarrow> send_reply E c requestId (request_handle E request) (Answer response) (s\<lparr>rest_of_server := r\<rparr>);
              Some (s, Called service None # out) })"

text \<open>A request with an active session of this channel. Publishing is not answered at once.\<close>

definition call_with_session ::
    "('d, 'e, 's, 'q, 'p) environment \<Rightarrow> inputs \<Rightarrow> service \<Rightarrow> nat \<Rightarrow> nat \<Rightarrow> u32 \<Rightarrow> 'q \<Rightarrow> ('d, 'e, 's) UA_Server \<Rightarrow>
     (('d, 'e, 's) UA_Server \<times> effect list) option" where
  "call_with_session E i service c se requestId request s =
     do { x \<leftarrow> session_at s se;
          let x = UA_Session_updateLifetime (doubles_of E) (monotonic_clock i) x;
          let s = set_session se x s;
          if service = Service_CloseSession
          then do { (s, reply) \<leftarrow> close_session i se s;
                    (s, out) \<leftarrow> send_reply E c requestId (request_handle E request) reply s;
                    Some (s, Called service (Some se) # out) }
          else do {
            let (os, r, response) = call_service E service x request (rest_of_server s);
            let s = set_session se (x\<lparr>objects := os\<rparr>) (s\<lparr>rest_of_server := r\<rparr>);
            if service = Service_Publish then Some (s, [Called service (Some se)])
            else do { (s, out) \<leftarrow> send_reply E c requestId (request_handle E request) (Answer response) s;
                      Some (s, Called service (Some se) # out) } } }"

definition find_session :: "('d, 'e, 's, 'q, 'p) environment \<Rightarrow> inputs \<Rightarrow> nat \<Rightarrow> 'q \<Rightarrow> ('d, 'e, 's) UA_Server \<Rightarrow> nat option option" where
  "find_session E i c request s =
     do { ch \<leftarrow> channels (links s) c;
          if \<exists>se \<in> set (sessions ch). session_at s se = None then None
          else do {
            session \<leftarrow> UA_SecureChannel_getSession c (request_token E request) (links s);
            case session of
              None \<Rightarrow> UA_SessionManager_getSession (request_token E request) (monotonic_clock i) s
            | Some se \<Rightarrow> Some (Some se) } }"

definition process_request ::
    "('d, 'e, 's, 'q, 'p) environment \<Rightarrow> inputs \<Rightarrow> service \<Rightarrow> bool \<Rightarrow> nat \<Rightarrow> u32 \<Rightarrow> 'q \<Rightarrow> bytes \<Rightarrow> nat \<Rightarrow> ('d, 'e, 's) UA_Server \<Rightarrow>
     (('d, 'e, 's) UA_Server \<times> effect list) option" where
  "process_request E i service sessionRequired c requestId request msg requestPos s =
     (if service = Service_CreateSession
      then do { (s, reply) \<leftarrow> create_session E i c request s; send_reply E c requestId (request_handle E request) reply s }
      else do {
        session \<leftarrow> find_session E i c request s;
        case session of
          None \<Rightarrow>
            if service = Service_ActivateSession \<or> sessionRequired
            then sendError E c msg requestPos (Some service) requestId UA_STATUSCODE_BADSESSIONIDINVALID s
            else call_anonymous E service c requestId request s
        | Some se \<Rightarrow>
            if service = Service_ActivateSession
            then do { (s, reply) \<leftarrow> activate_session E i c se request s; send_reply E c requestId (request_handle E request) reply s }
            else do {
              x \<leftarrow> session_at s se;
              if sessionRequired \<and> \<not> activated x
              then do { (s, out) \<leftarrow> sendError E c msg requestPos (Some service) requestId UA_STATUSCODE_BADSESSIONNOTACTIVATED s;
                        (_, s) \<leftarrow> UA_SessionManager_removeSession (malloc_job i) (authenticationToken (links s) se) s;
                        Some (s, out) }
              else if session_channel (links s) se \<noteq> Some c
              then sendError E c msg requestPos (Some service) requestId UA_STATUSCODE_BADSECURECHANNELIDINVALID s
              else call_with_session E i service c se requestId request s } })"

definition processMSG ::
    "('d, 'e, 's, 'q, 'p) environment \<Rightarrow> inputs \<Rightarrow> nat \<Rightarrow> u32 \<Rightarrow> bytes \<Rightarrow> ('d, 'e, 's) UA_Server \<Rightarrow> (('d, 'e, 's) UA_Server \<times> effect list) option" where
  "processMSG E i c requestId msg s =
     do { (retval, typ, st) \<leftarrow> NodeId_decodeBinary (malloc_strings i) \<lparr>namespaceIndex = 0, ident = NUMERIC 0\<rparr> \<lparr>dbuf = msg, dpos = 0\<rparr>;
          if retval \<noteq> UA_STATUSCODE_GOOD then Some (s, [])
          else do {
            let number = (case ident typ of NUMERIC n \<Rightarrow> n | _ \<Rightarrow> 0);
            case getServicePointers number of
              None \<Rightarrow> sendError E c msg (dpos st) None requestId UA_STATUSCODE_BADSERVICEUNSUPPORTED s
            | Some (service, sessionRequired) \<Rightarrow>
                (case decode_request E service msg (dpos st) of
                   (retval, request) \<Rightarrow>
                     if retval \<noteq> UA_STATUSCODE_GOOD then sendError E c msg (dpos st) (Some service) requestId retval s
                     else process_request E i service sessionRequired c requestId request msg (dpos st) s) } }"

definition UA_Server_processSecureChannelMessage ::
    "('d, 'e, 's, 'q, 'p) environment \<Rightarrow> inputs \<Rightarrow> nat \<Rightarrow> incoming \<Rightarrow> ('d, 'e, 's) UA_Server \<Rightarrow> (('d, 'e, 's) UA_Server \<times> effect list) option" where
  "UA_Server_processSecureChannelMessage E i c message s =
     do { ch \<leftarrow> channels (links s) c;
          k \<leftarrow> ch_connection ch;
          case message of
            ErrorMessage error reason \<Rightarrow> Some (s, [])
          | Message messagetype requestId msg \<Rightarrow>
              if messagetype = UA_MESSAGETYPE_OPN then processOPN E i k (channelId (securityToken ch)) msg s
              else if messagetype = UA_MESSAGETYPE_MSG then processMSG E i c requestId msg s
              else if messagetype = UA_MESSAGETYPE_CLO then do { s \<leftarrow> Service_CloseSecureChannel i c s; Some (s, []) }
              else Some (s, []) }"

text \<open>The callback of \<open>UA_SecureChannel_processChunks\<close>: the channel is one object for both. The server may become \<open>None\<close>, then what
  follows does not matter. The inputs are those of one message after the other.\<close>

definition process_callback ::
    "('d, 'e, 's, 'q, 'p) environment \<Rightarrow> (nat \<Rightarrow> inputs) \<Rightarrow> nat \<Rightarrow> (nat \<times> (('d, 'e, 's) UA_Server \<times> effect list) option) callback" where
  "process_callback E inputs c application ch message =
     (case application of
        (n, None) \<Rightarrow> ((n, None), ch)
      | (n, Some (s, out)) \<Rightarrow>
          (case UA_Server_processSecureChannelMessage E (inputs n) c message (set_link c ch s) of
             None \<Rightarrow> ((Suc n, None), ch)
           | Some (s, out') \<Rightarrow>
               (case channels (links s) c of None \<Rightarrow> ((Suc n, None), ch) | Some ch \<Rightarrow> ((Suc n, Some (s, out @ out')), ch))))"

definition process_without_channel ::
    "('d, 'e, 's, 'q, 'p) environment \<Rightarrow> inputs \<Rightarrow> nat \<Rightarrow> bytes \<Rightarrow> ('d, 'e, 's) UA_Server \<Rightarrow> (('d, 'e, 's) UA_Server \<times> effect list) option" where
  "process_without_channel E i k message s =
     do { (retval, header, offset) \<leftarrow> decode_header 2 message 0;
          if retval \<noteq> UA_STATUSCODE_GOOD then Some (close_connection k s)
          else do {
            let typ = header ! 0 AND 0x00ffffff;
            if typ = UA_MESSAGETYPE_ERR
            then do {
              (r1, error, st) \<leftarrow> UInt32_decodeBinary 0 \<lparr>dbuf = message, dpos = offset\<rparr>;
              (r2, reason, st) \<leftarrow> String_decodeBinary (malloc_strings i) NullArray st;
              Some (if r1 OR r2 \<noteq> UA_STATUSCODE_GOOD then close_connection k s else (s, [])) }
            else if typ = UA_MESSAGETYPE_HEL then processHEL i k message offset s
            else if typ = UA_MESSAGETYPE_OPN
            then do {
              (retval, id_of_channel, st) \<leftarrow> UInt32_decodeBinary 0 \<lparr>dbuf = message, dpos = offset\<rparr>;
              let (s, out) = (if retval \<noteq> UA_STATUSCODE_GOOD then close_connection k s else (s, []));
              if length message < 12 then None
              else do { (s, out') \<leftarrow> processOPN E i k id_of_channel (drop 12 message) s; Some (s, out @ out') } }
            else Some (close_connection k s) } }"

definition UA_Server_processBinaryMessage ::
    "('d, 'e, 's, 'q, 'p) environment \<Rightarrow> (nat \<Rightarrow> bool) \<Rightarrow> nat \<Rightarrow> (nat \<Rightarrow> inputs) \<Rightarrow> nat \<Rightarrow> bytes \<Rightarrow> ('d, 'e, 's) UA_Server \<Rightarrow>
     (('d, 'e, 's) UA_Server \<times> effect list) option" where
  "UA_Server_processBinaryMessage E realloc entry_size inputs k message s =
     do { _ \<leftarrow> connection_at s k;
          case connection_channel (links s) k of
            None \<Rightarrow> process_without_channel E (inputs 0) k message s
          | Some c \<Rightarrow> do {
              ch \<leftarrow> channels (links s) c;
              (retval, ch, n, result) \<leftarrow>
                UA_SecureChannel_processChunks realloc (malloc_strings (inputs 0)) entry_size ch message (process_callback E inputs c) (0, Some (s, []));
              (s, out) \<leftarrow> result;
              Some (set_link c ch s, out) } }"

end
