(* ===== verification/UAServerInvariant.thy ===== *)
theory UAServerInvariant
  imports UAServer
begin

text \<open>
  The invariant of the server: the counters are the lengths of the lists, every object is in its list or waits to be freed but not
  both, and the pointers of connections, channels and sessions agree and lead to objects that exist. Every operation of the managers
  and services is defined in such a state (it follows no pointer to freed memory) and leads to such a state.
\<close>

section \<open>Computations that are defined\<close>

definition safely :: "'a option \<Rightarrow> ('a \<Rightarrow> bool) \<Rightarrow> bool" where
  "safely m P \<longleftrightarrow> (\<exists>x. m = Some x \<and> P x)"

lemma safely_Some [simp]: "safely (Some x) P \<longleftrightarrow> P x"
  by (simp add: safely_def)

lemma safely_bind: "safely m P \<Longrightarrow> (\<And>x. P x \<Longrightarrow> safely (f x) Q) \<Longrightarrow> safely (m \<bind> f) Q"
  by (auto simp: safely_def)

lemma safely_mono: "safely m P \<Longrightarrow> (\<And>x. P x \<Longrightarrow> Q x) \<Longrightarrow> safely m Q"
  by (auto simp: safely_def)

lemma safelyE: "safely m P \<Longrightarrow> (\<And>x. m = Some x \<Longrightarrow> P x \<Longrightarrow> thesis) \<Longrightarrow> thesis"
  by (auto simp: safely_def)

section \<open>A list with its counter\<close>

text \<open>\<open>D\<close> are the objects that exist, \<open>J\<close> those that wait to be freed.\<close>

definition kept :: "nat list \<Rightarrow> u32 \<Rightarrow> nat set \<Rightarrow> nat set \<Rightarrow> bool" where
  "kept xs n D J \<longleftrightarrow> distinct xs \<and> n = of_nat (length xs) \<and> D = set xs \<union> J \<and> set xs \<inter> J = {}"

lemma kept_remove: "kept xs n D J \<Longrightarrow> x \<in> set xs \<Longrightarrow> kept (remove1 x xs) (n + (- 1)) D (insert x J)"
proof -
  assume k: "kept xs n D J" and x: "x \<in> set xs"
  then have "length (remove1 x xs) = length xs - 1" "length xs > 0" by (auto simp: length_remove1)
  then have "(of_nat (length (remove1 x xs)) :: u32) = of_nat (length xs) + (- 1)" by (simp add: of_nat_diff Suc_le_eq)
  then show ?thesis using k x by (auto simp: kept_def set_remove1_eq)
qed

lemma kept_add: "kept xs n D J \<Longrightarrow> x \<notin> D \<Longrightarrow> kept (x # xs) (n + 1) (insert x D) J"
  by (auto simp: kept_def add.commute)

lemma kept_free: "kept xs n D J \<Longrightarrow> x \<in> J \<Longrightarrow> kept xs n (D - {x}) (J - {x})"
  by (auto simp: kept_def)

definition session_jobs :: "delayed list \<Rightarrow> nat set" where
  "session_jobs jobs = {se. RemoveSession se \<in> set jobs}"

definition channel_jobs :: "delayed list \<Rightarrow> nat set" where
  "channel_jobs jobs = {c. RemoveChannel c \<in> set jobs}"

lemma jobs_simps [simp]:
  "session_jobs (RemoveSession se # jobs) = insert se (session_jobs jobs)" "session_jobs (RemoveChannel c # jobs) = session_jobs jobs"
  "channel_jobs (RemoveChannel c # jobs) = insert c (channel_jobs jobs)" "channel_jobs (RemoveSession se # jobs) = channel_jobs jobs"
  "session_jobs [] = {}" "channel_jobs [] = {}"
  by (auto simp: session_jobs_def channel_jobs_def)

lemma jobs_remove:
  assumes "distinct jobs"
  shows "session_jobs (remove1 (RemoveSession se) jobs) = session_jobs jobs - {se}" "channel_jobs (remove1 (RemoveSession se) jobs) = channel_jobs jobs"
    "channel_jobs (remove1 (RemoveChannel c) jobs) = channel_jobs jobs - {c}" "session_jobs (remove1 (RemoveChannel c) jobs) = session_jobs jobs"
  using assms by (auto simp: session_jobs_def channel_jobs_def set_remove1_eq)

section \<open>The invariant\<close>

definition sessions_ok :: "('d, 'e, 's) UA_Server \<Rightarrow> bool" where
  "sessions_ok s \<longleftrightarrow> kept (sm_sessions s) (currentSessionCount s) (dom (session_at s)) (session_jobs (delayedCallbacks s))"

definition channels_ok :: "('d, 'e, 's) UA_Server \<Rightarrow> bool" where
  "channels_ok s \<longleftrightarrow> kept (cm_channels s) (currentChannelCount s) (dom (channels (links s))) (channel_jobs (delayedCallbacks s))"

definition links_ok :: "('d, 'e, 's) UA_Server \<Rightarrow> bool" where
  "links_ok s \<longleftrightarrow> peers_ok (links s) \<and> dom (session_channel (links s)) \<subseteq> dom (session_at s) \<and>
     dom (connection_channel (links s)) \<subseteq> dom (connection_at s)"

text \<open>An acknowledge message takes 28 bytes.\<close>

definition buffers_ok :: "(nat \<rightharpoonup> UA_Connection) \<Rightarrow> bool" where
  "buffers_ok conns \<longleftrightarrow> (\<forall>k conn. conns k = Some conn \<longrightarrow> 28 \<le> unat (sendBufferSize (localConf conn)))"

definition server_ok :: "('d, 'e, 's) UA_Server \<Rightarrow> bool" where
  "server_ok s \<longleftrightarrow> sessions_ok s \<and> channels_ok s \<and> links_ok s \<and> distinct (delayedCallbacks s) \<and> buffers_ok (connection_at s)"

lemma server_okD:
  assumes "server_ok s"
  shows "peers_ok (links s)" "distinct (delayedCallbacks s)" "distinct (sm_sessions s)" "distinct (cm_channels s)"
    "se \<in> set (sm_sessions s) \<Longrightarrow> session_at s se \<noteq> None" "c \<in> set (cm_channels s) \<Longrightarrow> channels (links s) c \<noteq> None"
    "session_channel (links s) se \<noteq> None \<Longrightarrow> session_at s se \<noteq> None" "connection_channel (links s) k \<noteq> None \<Longrightarrow> connection_at s k \<noteq> None"
    "RemoveSession se \<in> set (delayedCallbacks s) \<Longrightarrow> session_at s se \<noteq> None"
    "RemoveChannel c \<in> set (delayedCallbacks s) \<Longrightarrow> channels (links s) c \<noteq> None"
  using assms unfolding server_ok_def sessions_ok_def channels_ok_def links_ok_def kept_def session_jobs_def channel_jobs_def
  by blast+

text \<open>Within the processing of one message nothing is freed and no connection loses its channel.\<close>

definition follows :: "('d, 'e, 's) UA_Server \<Rightarrow> ('d, 'e, 's) UA_Server \<Rightarrow> bool" where
  "follows s s' \<longleftrightarrow> server_ok s' \<and> dom (session_at s) \<subseteq> dom (session_at s') \<and> dom (connection_at s') = dom (connection_at s) \<and>
     (\<forall>c ch. channels (links s) c = Some ch \<longrightarrow> (\<exists>ch'. channels (links s') c = Some ch' \<and> ch_connection ch' = ch_connection ch))"

lemma follows_refl: "server_ok s \<Longrightarrow> follows s s"
  by (simp add: follows_def)

lemma follows_trans [trans]: "follows s s' \<Longrightarrow> follows s' s'' \<Longrightarrow> follows s s''"
  unfolding follows_def by (smt (verit) order_trans)

lemma follows_ok: "follows s s' \<Longrightarrow> server_ok s'"
  by (simp add: follows_def)

lemma follows_channel: "follows s s' \<Longrightarrow> channels (links s) c = Some ch \<Longrightarrow> \<exists>ch'. channels (links s') c = Some ch' \<and> ch_connection ch' = ch_connection ch"
  by (auto simp: follows_def)

lemma follows_session: "follows s s' \<Longrightarrow> session_at s se \<noteq> None \<Longrightarrow> session_at s' se \<noteq> None"
  by (auto simp: follows_def)

section \<open>Changes of single objects\<close>

lemma dom_update: "f x \<noteq> None \<Longrightarrow> dom (f(x \<mapsto> y)) = dom f"
  by auto

lemmas server_parts = server_ok_def sessions_ok_def channels_ok_def links_ok_def

lemma set_session_ok: "server_ok s \<Longrightarrow> session_at s se \<noteq> None \<Longrightarrow> server_ok (set_session se x s)"
  using dom_update [of "session_at s" se x] by (simp add: server_parts set_session_def)

lemma set_session_follows: "server_ok s \<Longrightarrow> session_at s se \<noteq> None \<Longrightarrow> follows s (set_session se x s)"
  using set_session_ok [of s se x] by (auto simp: follows_def set_session_def)

lemma set_channel_ok:
  assumes "peers_ok p" and "channels p c = Some ch" and "ch_connection ch' = ch_connection ch" and "sessions ch' = sessions ch"
  shows "peers_ok (set_channel c ch' p)"
  using assms by (auto simp: peers_ok_def connections_agree_def sessions_agree_def)

lemma set_link_follows:
  assumes "server_ok s" and "channels (links s) c = Some ch" and "ch_connection ch' = ch_connection ch" and "sessions ch' = sessions ch"
  shows "follows s (set_link c ch' s)"
proof -
  have "insert c (dom (channels (links s))) = dom (channels (links s))" using assms(2) by auto
  then have "server_ok (set_link c ch' s)"
    using assms set_channel_ok [OF _ assms(2-4)]
    by (simp add: server_ok_def sessions_ok_def channels_ok_def links_ok_def set_link_def)
  then show ?thesis using assms by (auto simp: follows_def set_link_def)
qed

lemma rest_follows: "server_ok s \<Longrightarrow> follows s (s\<lparr>rest_of_server := r\<rparr>)"
  by (auto simp: follows_def server_ok_def sessions_ok_def channels_ok_def links_ok_def)

lemma close_connection_follows: "server_ok s \<Longrightarrow> follows s (fst (close_connection k s))"
  by (auto simp: close_connection_def follows_def server_ok_def sessions_ok_def channels_ok_def links_ok_def)

section \<open>The manager of the sessions\<close>

lemma detach_session_defined:
  assumes "peers_ok p" and "session_channel p se = Some c"
  shows "\<exists>p'. UA_SecureChannel_detachSession c (Some se) p = Some p'"
  using session_to [OF assms] by (auto simp: UA_SecureChannel_detachSession_def)

lemma detach_session_keeps:
  assumes "UA_SecureChannel_detachSession c (Some se) p = Some p'"
  shows "session_channel p' = (session_channel p)(se := None)" "connection_channel p' = connection_channel p"
    "\<exists>ch. channels p c = Some ch \<and> channels p' = (channels p)(c \<mapsto> ch\<lparr>sessions := remove1 se (sessions ch)\<rparr>)"
  using assms by (auto simp: UA_SecureChannel_detachSession_def bind_eq_Some_conv)

lemma session_cleanup_ok:
  assumes ok: "links_ok s" and se: "session_at s se \<noteq> None"
  shows "safely (UA_Session_deleteMembersCleanup se s) (\<lambda>s'. links_ok s' \<and> dom (session_at s') = dom (session_at s) \<and>
    session_channel (links s') se = None \<and> dom (channels (links s')) = dom (channels (links s)) \<and> sm_sessions s' = sm_sessions s \<and> cm_channels s' = cm_channels s \<and>
    currentSessionCount s' = currentSessionCount s \<and> currentChannelCount s' = currentChannelCount s \<and> delayedCallbacks s' = delayedCallbacks s \<and>
    connection_at s' = connection_at s)"
proof -
  obtain x where x: "session_at s se = Some x" using se by blast
  show ?thesis
  proof (cases "session_channel (links s) se")
    case None
    then show ?thesis using x ok dom_update [of "session_at s", OF se] by (simp add: UA_Session_deleteMembersCleanup_def set_session_def links_ok_def)
  next
    case (Some c)
    have p: "peers_ok (links s)" using ok by (simp add: links_ok_def)
    obtain p' where p': "UA_SecureChannel_detachSession c (Some se) (links s) = Some p'" using detach_session_defined [OF p Some] by blast
    note keeps = detach_session_keeps [OF p']
    have "dom (channels p') = dom (channels (links s))" using keeps(3) by (auto split: if_splits)
    then show ?thesis
      using x Some p' ok detach_session_ok [OF p Some p'] keeps(1,2) dom_update [of "session_at s", OF se]
      by (auto simp: UA_Session_deleteMembersCleanup_def set_session_def links_ok_def)
  qed
qed

lemma remove_session_job_ok:
  assumes ok: "server_ok s" and job: "RemoveSession se \<in> set (delayedCallbacks s)"
  shows "safely (processJob (RemoveSession se) (s\<lparr>delayedCallbacks := remove1 (RemoveSession se) (delayedCallbacks s)\<rparr>))
    (\<lambda>s'. server_ok s' \<and> delayedCallbacks s' = remove1 (RemoveSession se) (delayedCallbacks s) \<and> session_at s' se = None \<and> sm_sessions s' = sm_sessions s \<and>
      dom (session_at s') = dom (session_at s) - {se})"
proof -
  let ?s = "s\<lparr>delayedCallbacks := remove1 (RemoveSession se) (delayedCallbacks s)\<rparr>"
  have links: "links_ok ?s" and d: "distinct (delayedCallbacks s)" using ok by (simp_all add: server_parts)
  have j: "se \<in> session_jobs (delayedCallbacks s)" using job by (simp add: session_jobs_def)
  obtain s1 where s1: "UA_Session_deleteMembersCleanup se ?s = Some s1" "links_ok s1" "dom (session_at s1) = dom (session_at s)"
      "session_channel (links s1) se = None" "dom (channels (links s1)) = dom (channels (links s))" "sm_sessions s1 = sm_sessions s" "cm_channels s1 = cm_channels s"
      "currentSessionCount s1 = currentSessionCount s" "currentChannelCount s1 = currentChannelCount s" "delayedCallbacks s1 = delayedCallbacks ?s"
      "connection_at s1 = connection_at s"
    using session_cleanup_ok [OF links, of se] server_okD(9) [OF ok job] by (auto elim!: safelyE)
  have "dom ((session_at s1)(se := None)) = dom (session_at s) - {se}" using s1(3) by auto
  then have "server_ok (s1\<lparr>session_at := (session_at s1)(se := None)\<rparr>)"
    using ok s1 jobs_remove [OF d] kept_free [OF _ j] by (auto simp: server_parts)
  then show ?thesis using s1 by (auto simp: removeSessionCallback_def)
qed

lemma removeSession_ok:
  assumes ok: "server_ok s" and se: "se \<in> set (sm_sessions s)"
  shows "safely (removeSession malloc se s) (\<lambda>(r, s'). follows s s' \<and> links s' = links s \<and> dom (session_at s') = dom (session_at s) \<and>
    (\<forall>se'. se' \<noteq> se \<longrightarrow> session_at s' se' = session_at s se') \<and>
    (if malloc then sm_sessions s' = remove1 se (sm_sessions s) \<and> delayedCallbacks s' = RemoveSession se # delayedCallbacks s
     else sm_sessions s' = sm_sessions s \<and> delayedCallbacks s' = delayedCallbacks s))"
proof -
  obtain x where x: "session_at s se = Some x" using server_okD(5) [OF ok se] by blast
  let ?s = "set_session se (x\<lparr>activated := False\<rparr>) s"
  have ok': "server_ok ?s" and f: "follows s ?s" using set_session_ok [OF ok] set_session_follows [OF ok] x by simp_all
  have notin: "RemoveSession se \<notin> set (delayedCallbacks s)"
    using ok se by (auto simp: server_parts kept_def session_jobs_def)
  let ?t = "?s\<lparr>delayedCallbacks := RemoveSession se # delayedCallbacks s, sm_sessions := remove1 se (sm_sessions s),
      currentSessionCount := currentSessionCount s + (- 1)\<rparr>"
  have "kept (remove1 se (sm_sessions ?s)) (currentSessionCount ?s + (- 1)) (dom (session_at ?s)) (insert se (session_jobs (delayedCallbacks ?s)))"
    by (rule kept_remove) (use ok' se in \<open>simp_all add: server_parts set_session_def\<close>)
  then have "server_ok ?t" using ok' notin by (simp add: server_parts set_session_def)
  then have "follows s ?t" using f by (simp add: follows_def set_session_def)
  then show ?thesis using x f dom_update [of "session_at s" se]
    by (simp add: removeSession_def UA_Server_delayedCallback_def status_codes) (simp add: set_session_def)
qed

definition expired :: "64 word \<Rightarrow> ('d, 'e, 's) UA_Server \<Rightarrow> nat \<Rightarrow> bool" where
  "expired now s se \<longleftrightarrow> (case session_at s se of None \<Rightarrow> False | Some x \<Rightarrow> sint (validTill x) < sint now)"

lemma timed_out_sessions_ok:
  assumes "server_ok s" and "distinct ses" and "set ses \<subseteq> set (sm_sessions s)"
  shows "safely (timed_out_sessions malloc now ses s) (\<lambda>s'. follows s s' \<and> links s' = links s \<and> dom (session_at s') = dom (session_at s) \<and>
    sm_sessions s' = filter (\<lambda>se. \<not> (se \<in> set ses \<and> expired now s se \<and> malloc se)) (sm_sessions s) \<and>
    set (delayedCallbacks s') = RemoveSession ` {se \<in> set ses. expired now s se \<and> malloc se} \<union> set (delayedCallbacks s))"
  using assms
proof (induction ses arbitrary: s)
  case Nil
  then show ?case by (simp add: follows_refl)
next
  case (Cons se ses)
  obtain x where x: "session_at s se = Some x" using Cons.prems(1,3) server_okD(5) by fastforce
  show ?case
  proof (cases "expired now s se")
    case False
    then have "\<not> sint (validTill x) < sint now" using x by (simp add: expired_def)
    then have "timed_out_sessions malloc now (se # ses) s = timed_out_sessions malloc now ses s" using x by simp
    moreover have "{se' \<in> set (se # ses). expired now s se' \<and> malloc se'} = {se' \<in> set ses. expired now s se' \<and> malloc se'}"
      "(\<lambda>se'. \<not> (se' \<in> set (se # ses) \<and> expired now s se' \<and> malloc se')) = (\<lambda>se'. \<not> (se' \<in> set ses \<and> expired now s se' \<and> malloc se'))"
      using False by auto
    ultimately show ?thesis using Cons.IH [OF Cons.prems(1)] Cons.prems(2,3) by simp
  next
    case True
    then have late: "sint (validTill x) < sint now" using x by (simp add: expired_def)
    have se: "se \<in> set (sm_sessions s)" using Cons.prems(3) by simp
    obtain r s1 where s1: "removeSession (malloc se) se s = Some (r, s1)" "follows s s1" "links s1 = links s" "dom (session_at s1) = dom (session_at s)"
        "\<forall>se'. se' = se \<or> session_at s1 se' = session_at s se'"
        "sm_sessions s1 = (if malloc se then remove1 se (sm_sessions s) else sm_sessions s)"
        "delayedCallbacks s1 = (if malloc se then RemoveSession se # delayedCallbacks s else delayedCallbacks s)"
      using removeSession_ok [OF Cons.prems(1) se, of "malloc se"] by (auto elim!: safelyE split: if_splits)
    have d: "distinct ses" "se \<notin> set ses" using Cons.prems(2) by auto
    have sub: "set ses \<subseteq> set (sm_sessions s1)" using Cons.prems(3) s1(6) d(2) server_okD(3) [OF Cons.prems(1)] by (auto simp: set_remove1_eq)
    have same: "expired now s1 se' = expired now s se'" if "se' \<in> set ses" for se' using that d(2) s1(5) by (auto simp: expired_def)
    obtain s2 where s2: "timed_out_sessions malloc now ses s1 = Some s2" "follows s1 s2" "links s2 = links s1" "dom (session_at s2) = dom (session_at s1)"
        "sm_sessions s2 = filter (\<lambda>se'. \<not> (se' \<in> set ses \<and> expired now s1 se' \<and> malloc se')) (sm_sessions s1)"
        "set (delayedCallbacks s2) = RemoveSession ` {se' \<in> set ses. expired now s1 se' \<and> malloc se'} \<union> set (delayedCallbacks s1)"
      using Cons.IH [OF follows_ok [OF s1(2)] d(1) sub] by (auto elim!: safelyE)
    have dist: "distinct (sm_sessions s)" using server_okD(3) [OF Cons.prems(1)] .
    have "sm_sessions s1 = filter (\<lambda>se'. \<not> (se' = se \<and> malloc se)) (sm_sessions s)"
      using s1(6) dist by (auto simp: distinct_remove1_removeAll removeAll_filter_not_eq intro: filter_cong)
    then have "sm_sessions s2 = filter (\<lambda>se'. \<not> (se' \<in> set (se # ses) \<and> expired now s se' \<and> malloc se')) (sm_sessions s)"
      using s2(5) same True d(2) by (auto simp: filter_filter intro!: filter_cong)
    moreover have "set (delayedCallbacks s2) = RemoveSession ` {se' \<in> set (se # ses). expired now s se' \<and> malloc se'} \<union> set (delayedCallbacks s)"
      using s2(6) s1(7) same True by (auto split: if_splits)
    ultimately show ?thesis
      using x late s1(1-4) s2(1-4) follows_trans [OF s1(2) s2(2)] by simp
  qed
qed

lemma session_with_token_ok:
  assumes "set ses \<subseteq> dom (session_at s)"
  shows "safely (session_with_token token ses s) (\<lambda>r. r = find (\<lambda>se. UA_NodeId_equal (authenticationToken (links s) se) token) ses)"
  using assms by (induction ses) auto

lemma find_in: "find P xs = Some x \<Longrightarrow> x \<in> set xs \<and> P x"
  by (auto simp: find_Some_iff)

lemma listed_sessions: "server_ok s \<Longrightarrow> set (sm_sessions s) \<subseteq> dom (session_at s)"
  using server_okD(5) by fastforce

lemma listed_channels: "server_ok s \<Longrightarrow> set (cm_channels s) \<subseteq> dom (channels (links s))"
  using server_okD(6) by fastforce

lemma getSession_ok:
  assumes ok: "server_ok s"
  shows "safely (UA_SessionManager_getSession token now s) (\<lambda>r. \<forall>se. r = Some se \<longrightarrow>
    se \<in> set (sm_sessions s) \<and> UA_NodeId_equal (authenticationToken (links s) se) token \<and> \<not> expired now s se)"
proof -
  let ?f = "find (\<lambda>se. UA_NodeId_equal (authenticationToken (links s) se) token) (sm_sessions s)"
  have t: "session_with_token token (sm_sessions s) s = Some ?f"
    using session_with_token_ok [OF listed_sessions [OF ok]] by (auto elim: safelyE)
  show ?thesis
  proof (cases ?f)
    case (Some se)
    then have se: "se \<in> set (sm_sessions s)" "UA_NodeId_equal (authenticationToken (links s) se) token" using find_in by fastforce+
    then obtain x where "session_at s se = Some x" using server_okD(5) [OF ok] by blast
    then show ?thesis using t Some se by (simp add: UA_SessionManager_getSession_def expired_def)
  qed (use t in \<open>simp add: UA_SessionManager_getSession_def\<close>)
qed

lemma removeSession_by_token_ok:
  assumes ok: "server_ok s"
  shows "safely (UA_SessionManager_removeSession malloc token s) (\<lambda>(r, s'). follows s s' \<and> links s' = links s)"
proof -
  let ?f = "find (\<lambda>se. UA_NodeId_equal (authenticationToken (links s) se) token) (sm_sessions s)"
  have t: "session_with_token token (sm_sessions s) s = Some ?f"
    using session_with_token_ok [OF listed_sessions [OF ok]] by (auto elim: safelyE)
  show ?thesis
  proof (cases ?f)
    case None
    then show ?thesis using t ok by (simp add: UA_SessionManager_removeSession_def follows_refl)
  next
    case (Some se)
    then have "se \<in> set (sm_sessions s)" using find_in by fastforce
    then show ?thesis using safely_mono [OF removeSession_ok [OF ok, of se malloc]] t Some
      by (auto simp: UA_SessionManager_removeSession_def)
  qed
qed

lemma createSession_ok:
  assumes ok: "server_ok s" and fresh: "\<forall>se. entry = Some se \<longrightarrow> session_at s se = None"
  shows "case UA_SessionManager_createSession D config entry guid1 guid2 now t s of
      (r, None, s') \<Rightarrow> s' = s \<and> r \<noteq> UA_STATUSCODE_GOOD
    | (r, Some se', s') \<Rightarrow> entry = Some se' \<and> follows s s' \<and> session_at s' se' \<noteq> None \<and> se' \<in> set (sm_sessions s') \<and>
        channels (links s') = channels (links s) \<and> connection_at s' = connection_at s \<and> connection_channel (links s') = connection_channel (links s)"
proof (cases entry)
  case (Some se)
  then have f: "session_at s se = None" using assms(2) by simp
  then have c: "session_channel (links s) se = None" using server_okD(7) [OF ok] by blast
  have k: "kept (se # sm_sessions s) (currentSessionCount s + 1) (insert se (dom (session_at s))) (session_jobs (delayedCallbacks s))"
    by (rule kept_add) (use ok f in \<open>auto simp: server_parts\<close>)
  have same: "(session_channel (links s))(se := None) = session_channel (links s)" using c by auto
  have "peers_ok (links s\<lparr>authenticationToken := a\<rparr>)" for a
    using server_okD(1) [OF ok] by (simp add: peers_ok_def connections_agree_def sessions_agree_def)
  then show ?thesis using Some ok k f same
    by (auto simp: UA_SessionManager_createSession_def Let_def server_parts set_session_def follows_def status_codes UA_STATUSCODE_BADTOOMANYSESSIONS_def)
qed (auto simp: UA_SessionManager_createSession_def status_codes UA_STATUSCODE_BADTOOMANYSESSIONS_def)

section \<open>The manager of the secure channels\<close>

lemma detach_only_less:
  assumes "UA_Connection_detachSecureChannel k p = Some q"
  shows "dom (connection_channel q) \<subseteq> dom (connection_channel p)" "session_channel q = session_channel p"
  using assms by (auto simp: UA_Connection_detachSecureChannel_def bind_eq_Some_conv split: option.splits if_splits)

lemma cleanup_keeps:
  assumes "UA_SecureChannel_deleteMembersCleanup c p = Some q"
  shows "dom (connection_channel q) \<subseteq> dom (connection_channel p)" "dom (session_channel q) \<subseteq> dom (session_channel p)"
    "dom (channels q) = dom (channels p)"
proof -
  obtain ch p1 ch1 where ch: "channels p c = Some ch" "(case ch_connection ch of None \<Rightarrow> Some p | Some k \<Rightarrow> UA_Connection_detachSecureChannel k p) = Some p1"
      "channels p1 c = Some ch1" and
    q: "q = (set_channel c (ch1\<lparr>sessions := [], chunkEntries := []\<rparr>) p1)\<lparr>session_channel := (\<lambda>se. if se \<in> set (sessions ch1) then None else session_channel p1 se)\<rparr>"
    using assms by (auto simp: UA_SecureChannel_deleteMembersCleanup_def bind_eq_Some_conv)
  have p1: "dom (connection_channel p1) \<subseteq> dom (connection_channel p)" "session_channel p1 = session_channel p" "dom (channels p1) = dom (channels p)"
    using ch(2) detach_only_less detach_keeps by (auto split: option.splits)
  show "dom (connection_channel q) \<subseteq> dom (connection_channel p)" using p1 by (simp add: q)
  show "dom (session_channel q) \<subseteq> dom (session_channel p)" using p1 by (auto simp: q split: if_splits)
  show "dom (channels q) = dom (channels p)" using p1 dom_update [of "channels p1" c] ch(3) by (simp add: q)
qed

lemma remove_channel_job_ok:
  assumes ok: "server_ok s" and job: "RemoveChannel c \<in> set (delayedCallbacks s)"
  shows "safely (processJob (RemoveChannel c) (s\<lparr>delayedCallbacks := remove1 (RemoveChannel c) (delayedCallbacks s)\<rparr>))
    (\<lambda>s'. server_ok s' \<and> delayedCallbacks s' = remove1 (RemoveChannel c) (delayedCallbacks s) \<and> session_at s' = session_at s \<and> sm_sessions s' = sm_sessions s)"
proof -
  let ?s = "s\<lparr>delayedCallbacks := remove1 (RemoveChannel c) (delayedCallbacks s)\<rparr>"
  have p: "peers_ok (links s)" and d: "distinct (delayedCallbacks s)" using server_okD(1,2) [OF ok] .
  have j: "c \<in> channel_jobs (delayedCallbacks s)" using job by (simp add: channel_jobs_def)
  obtain ch where ch: "channels (links s) c = Some ch" using server_okD(10) [OF ok job] by blast
  have k: "connection_at s k \<noteq> None" if "ch_connection ch = Some k" for k
    using connection_of [OF p ch that] server_okD(8) [OF ok, of k] by simp
  have se: "session_at s se \<noteq> None" if "se \<in> set (sessions ch)" for se
    using session_of [OF p ch that] server_okD(7) [OF ok, of se] by simp
  obtain q where q: "UA_SecureChannel_deleteMembersCleanup c (links s) = Some q" using close_defined [OF p ch] by blast
  let ?q = "q\<lparr>channels := (channels q)(c := None)\<rparr>"
  have qok: "peers_ok ?q" by (rule close_ok [OF p q])
  note sub = cleanup_keeps [OF q]
  have "dom (channels ?q) = dom (channels (links s)) - {c}" using sub(3) by auto
  then have "server_ok (?s\<lparr>links := ?q\<rparr>)"
    using ok qok order_trans [OF sub(1)] order_trans [OF sub(2)] sub(3) jobs_remove [OF d] kept_free [OF _ j] by (simp add: server_parts)
  moreover have "processJob (RemoveChannel c) ?s = Some (?s\<lparr>links := ?q\<rparr>)"
    using ch k se q by (auto simp: removeSecureChannelCallback_def split: option.splits)
  ultimately show ?thesis by simp
qed

lemma removeSecureChannel_ok:
  assumes ok: "server_ok s" and c: "c \<in> set (cm_channels s)"
  shows "follows s (snd (removeSecureChannel malloc c s))"
    "cm_channels (snd (removeSecureChannel malloc c s)) = (if malloc then remove1 c (cm_channels s) else cm_channels s)"
    "links (snd (removeSecureChannel malloc c s)) = links s"
proof -
  have notin: "RemoveChannel c \<notin> set (delayedCallbacks s)"
    using ok c by (auto simp: server_parts kept_def channel_jobs_def)
  have "kept (remove1 c (cm_channels s)) (currentChannelCount s + (- 1)) (dom (channels (links s))) (insert c (channel_jobs (delayedCallbacks s)))"
    by (rule kept_remove) (use ok c in \<open>simp_all add: server_parts\<close>)
  then show "follows s (snd (removeSecureChannel malloc c s))"
    using ok notin by (auto simp: removeSecureChannel_def UA_Server_delayedCallback_def status_codes follows_def server_parts)
qed (simp_all add: removeSecureChannel_def UA_Server_delayedCallback_def status_codes)

lemma revolve_keeps: "ch_connection (UA_SecureChannel_revolveTokens ch) = ch_connection ch" "sessions (UA_SecureChannel_revolveTokens ch) = sessions ch"
  by (simp_all add: UA_SecureChannel_revolveTokens_def)

lemma timed_out_channels_ok:
  assumes "server_ok s" and "distinct cs" and "set cs \<subseteq> set (cm_channels s)"
  shows "safely (timed_out_channels malloc now cs s) (follows s)"
  using assms
proof (induction cs arbitrary: s)
  case (Cons c cs)
  have c: "c \<in> set (cm_channels s)" using Cons.prems(3) by simp
  obtain ch where ch: "channels (links s) c = Some ch" using server_okD(6) [OF Cons.prems(1) c] by blast
  have sub: "set cs \<subseteq> set (cm_channels (snd (removeSecureChannel m c s)))" for m
    using Cons.prems(2,3) server_okD(4) [OF Cons.prems(1)] removeSecureChannel_ok(2) [OF Cons.prems(1) c, of m] by (auto simp: set_remove1_eq)
  have 1: "follows s (snd (removeSecureChannel (malloc c) c s))" by (rule removeSecureChannel_ok [OF Cons.prems(1) c])
  have 2: "follows s (set_link c (UA_SecureChannel_revolveTokens ch) s)"
    by (rule set_link_follows [OF Cons.prems(1) ch]) (simp_all add: revolve_keeps)
  have "safely (timed_out_channels malloc now cs t) (follows s)" if "follows s t" "set cs \<subseteq> set (cm_channels t)" for t
    using safely_mono [OF Cons.IH [OF follows_ok [OF that(1)] _ that(2)]] Cons.prems(2) follows_trans [OF that(1)] by simp
  then show ?case using ch 1 2 sub Cons.prems(3) follows_refl [OF Cons.prems(1)] by (simp add: set_link_def)
qed (simp add: follows_refl)

lemma channel_without_session_ok:
  assumes "set cs \<subseteq> dom (channels (links s))"
  shows "safely (channel_without_session cs s) (\<lambda>r. \<forall>c. r = Some c \<longrightarrow> c \<in> set cs \<and> (\<forall>ch. channels (links s) c = Some ch \<longrightarrow> sessions ch = []))"
  using assms
proof (induction cs)
  case (Cons c cs)
  then obtain ch where "channels (links s) c = Some ch" by auto
  then show ?case using Cons safely_mono [OF Cons.IH] by auto
qed simp

lemma channel_with_id_ok:
  assumes "set cs \<subseteq> dom (channels (links s))"
  shows "safely (channel_with_id n cs s) (\<lambda>r. \<forall>c. r = Some c \<longrightarrow> c \<in> set cs)"
  using assms
proof (induction cs)
  case (Cons c cs)
  then obtain ch where "channels (links s) c = Some ch" by auto
  then show ?case using Cons safely_mono [OF Cons.IH] by auto
qed simp

lemma remove1_hd: "distinct xs \<Longrightarrow> x \<notin> set (remove1 x xs)"
  by simp

lemma purge_ok:
  assumes ok: "server_ok s" and m: malloc
  shows "safely (purgeFirstChannelWithoutSession malloc s) (\<lambda>(r, s'). follows s s' \<and> links s' = links s)"
proof -
  obtain r where r: "channel_without_session (cm_channels s) s = Some r" "\<forall>c. r = Some c \<longrightarrow> c \<in> set (cm_channels s)"
    using channel_without_session_ok [OF listed_channels [OF ok]] by (auto elim!: safelyE)
  show ?thesis
  proof (cases r)
    case None
    then show ?thesis using r ok by (simp add: purgeFirstChannelWithoutSession_def follows_refl)
  next
    case (Some c)
    then have c: "c \<in> set (cm_channels s)" using r by simp
    let ?s = "snd (removeSecureChannel malloc c s)"
    have "c \<notin> set (cm_channels ?s)" using removeSecureChannel_ok(2) [OF ok c] m server_okD(4) [OF ok] by simp
    then have "(cm_channels ?s \<noteq> [] \<and> hd (cm_channels ?s) = c) = False" using hd_in_set by metis
    then show ?thesis using r Some removeSecureChannel_ok(1,3) [OF ok c, of malloc]
      by (simp only: purgeFirstChannelWithoutSession_def Let_def option.simps bind.bind_lunit if_False safely_Some prod.case simp_thms)
  qed
qed

lemma open_channel_ok:
  assumes ok: "server_ok s" and fresh: "channels (links s) c = None" and k: "connection_channel (links s) k = None" "connection_at s k \<noteq> None"
    and attach: "UA_Connection_attachSecureChannel k c (set_channel c (UA_SecureChannel_init\<lparr>securityToken := t\<rparr>) (links s)) = Some p"
  shows "follows s (s\<lparr>links := p, lastChannelId := i1, lastTokenId := i2, cm_channels := c # cm_channels s, currentChannelCount := currentChannelCount s + 1\<rparr>)"
proof -
  let ?ch = "UA_SecureChannel_init\<lparr>securityToken := t\<rparr>"
  have "peers_ok (set_channel c ?ch (links s))"
    using server_okD(1) [OF ok] fresh by (auto simp: peers_ok_def connections_agree_def sessions_agree_def UA_SecureChannel_init_def)
  then have pok: "peers_ok p" using attach_ok [OF _ _ attach] k by simp
  have p: "channels p = (channels (links s))(c \<mapsto> ?ch\<lparr>ch_connection := Some k\<rparr>)" "connection_channel p = (connection_channel (links s))(k \<mapsto> c)"
      "session_channel p = session_channel (links s)"
    using attach by (auto simp: UA_Connection_attachSecureChannel_def set_channel_def UA_SecureChannel_init_def)
  have "kept (c # cm_channels s) (currentChannelCount s + 1) (insert c (dom (channels (links s)))) (channel_jobs (delayedCallbacks s))"
    by (rule kept_add) (use ok fresh in \<open>auto simp: server_parts\<close>)
  then show ?thesis using ok pok p k fresh by (auto simp: follows_def server_parts)
qed

lemma attach_fresh:
  "\<exists>p. UA_Connection_attachSecureChannel k c (set_channel c (UA_SecureChannel_init\<lparr>securityToken := t\<rparr>) q) = Some p"
  by (simp add: UA_Connection_attachSecureChannel_def)

lemma manager_open_ok:
  assumes ok: "server_ok s" and fresh: "\<forall>c. entry = Some c \<longrightarrow> channels (links s) c = None"
    and k: "connection_channel (links s) k = None" "connection_at s k \<noteq> None" and m: malloc
  shows "safely (UA_SecureChannelManager_open config malloc entry now clock k request s) (\<lambda>(r, t, s'). follows s s')"
proof -
  have purge: "safely (if currentChannelCount s \<ge> ucast (maxSecureChannels config) then purgeFirstChannelWithoutSession malloc s else Some (True, s))
      (\<lambda>(r, s'). follows s s' \<and> links s' = links s)"
    using purge_ok [OF ok m] follows_refl [OF ok] by simp
  have opened: "safely (do { p \<leftarrow> UA_Connection_attachSecureChannel k c (set_channel c (UA_SecureChannel_init\<lparr>securityToken := t\<rparr>) (links s));
        Some (UA_STATUSCODE_GOOD, t', s1\<lparr>links := p, lastChannelId := lastChannelId s1 + 1, lastTokenId := lastTokenId s1 + 1,
                        cm_channels := c # cm_channels s1, currentChannelCount := currentChannelCount s1 + 1\<rparr>) }) (\<lambda>(r, t, s'). follows s s')"
    if s1: "follows s s1" "links s1 = links s" and c: "entry = Some c" for s1 c t t'
  proof -
    obtain p where p: "UA_Connection_attachSecureChannel k c (set_channel c (UA_SecureChannel_init\<lparr>securityToken := t\<rparr>) (links s1)) = Some p"
      using attach_fresh by blast
    note p' = p [unfolded s1(2)]
    have "connection_at s1 k \<noteq> None" using s1(1) k(2) by (metis domIff follows_def)
    then have "follows s1 (s1\<lparr>links := p, lastChannelId := lastChannelId s1 + 1, lastTokenId := lastTokenId s1 + 1,
        cm_channels := c # cm_channels s1, currentChannelCount := currentChannelCount s1 + 1\<rparr>)"
      by (intro open_channel_ok [OF follows_ok [OF s1(1)] _ _ _ p]) (use fresh c k s1(2) in auto)
    then show ?thesis using p' follows_trans [OF s1(1)] by simp
  qed
  show ?thesis
  proof (cases "securityMode request = UA_MESSAGESECURITYMODE_NONE")
    case True
    show ?thesis
      unfolding UA_SecureChannelManager_open_def Let_def
      by (simp only: True simp_thms if_False, rule safely_bind [OF purge], cases entry) (auto simp: opened)
  qed (simp add: UA_SecureChannelManager_open_def follows_refl [OF ok])
qed

end
