(* ===== verification/UAServerSafety.thy ===== *)
theory UAServerSafety
  imports UAServerInvariant
begin

text \<open>
  The handlers of the server in a state of the invariant: they are defined and lead to such a state, and a service is called only
  for a session that may call it.
\<close>

section \<open>Decoders\<close>

lemma UInt32_total: "\<exists>r w st'. UInt32_decodeBinary d st = Some (r, w, st')"
  by (auto simp: UInt32_decodeBinary_def get_bytes_def past_input_def)

lemma Byte_total: "\<exists>r w st'. Byte_decodeBinary d st = Some (r, w, st')"
  by (auto simp: Byte_decodeBinary_def get_bytes_def past_input_def load_def)

lemma UInt16_total: "\<exists>r w st'. UInt16_decodeBinary d st = Some (r, w, st')"
  by (auto simp: UInt16_decodeBinary_def get_bytes_def past_input_def)

lemma decode_words_total: "\<exists>r ws st'. decode_words n st = Some (r, ws, st')"
proof (induction n arbitrary: st)
  case (Suc n)
  obtain r w st' where 1: "UInt32_decodeBinary 0 st = Some (r, w, st')" using UInt32_total by blast
  obtain r' ws st'' where "decode_words n st' = Some (r', ws, st'')" using Suc by blast
  then show ?case using 1 by simp
qed simp

lemma decode_header_total: "\<exists>r ws n'. decode_header n src offset = Some (r, ws, n')"
  using decode_words_total [of n "\<lparr>dbuf = src, dpos = offset\<rparr>"] by (fastforce simp: decode_header_def)

lemma String_total: "\<exists>r x st'. String_decodeBinary malloc d st = Some (r, x, st')"
proof -
  obtain r w st' where 1: "UInt32_decodeBinary 0 st = Some (r, w, st')" using UInt32_total by blast
  then show ?thesis
    by (auto simp: String_decodeBinary_def Array_decodeBinary_def Int32_decodeBinary_def UA_TYPES_BYTE_def Let_def get_bytes_def past_input_def)
qed

lemma Guid_total: "\<exists>r x st'. Guid_decodeBinary d st = Some (r, x, st')"
proof -
  obtain r1 w1 st1 where 1: "UInt32_decodeBinary (data1 d) st = Some (r1, w1, st1)" using UInt32_total by blast
  obtain r2 w2 st2 where 2: "UInt16_decodeBinary (data2 d) st1 = Some (r2, w2, st2)" using UInt16_total by blast
  obtain r3 w3 st3 where 3: "UInt16_decodeBinary (data3 d) st2 = Some (r3, w3, st3)" using UInt16_total by blast
  show ?thesis using 1 2 3 by (auto simp: Guid_decodeBinary_def Let_def get_bytes_def past_input_def)
qed

lemma total_bind: "\<exists>a b c. m = Some (a, b, c) \<Longrightarrow> (\<And>a b c. \<exists>a' b' c'. f a b c = Some (a', b', c')) \<Longrightarrow> \<exists>a' b' c'. (m \<bind> (\<lambda>(a, b, c). f a b c)) = Some (a', b', c')"
  by auto

lemma NodeId_total: "\<exists>r x st'. NodeId_decodeBinary malloc d st = Some (r, x, st')"
  unfolding NodeId_decodeBinary_def NodeId_decodeBody_def ByteString_decodeBinary_def
  by (auto intro!: total_bind simp: Byte_total UInt16_total UInt32_total String_total Guid_total)

section \<open>The answer to a hello message\<close>

lemma UInt32_put:
  "UInt32_encodeBinary w \<lparr>ebuf = buf, ebase = 0, pbase = 0, epos = p, world = ()\<rparr> =
     Some (if length buf < p + 4 then (UA_STATUSCODE_BADENCODINGLIMITSEXCEEDED, \<lparr>ebuf = buf, ebase = 0, pbase = 0, epos = p, world = ()\<rparr>)
           else (UA_STATUSCODE_GOOD, \<lparr>ebuf = patch buf p (le_bytes 4 w), ebase = 0, pbase = 0, epos = p + 4, world = ()\<rparr>))"
  by (simp add: UInt32_encodeBinary_def past_end_def put_bytes_def memcpy_def)

lemma encode_words_put:
  "encode_words ws \<lparr>ebuf = buf, ebase = 0, pbase = 0, epos = p, world = ()\<rparr> = Some (rv, st) \<Longrightarrow>
   length (ebuf st) = length buf"
  by (induction ws arbitrary: buf p) (auto simp: UInt32_put exchangeBuffer_def split: if_splits)

lemma encode_words_total: "\<exists>rv st. encode_words ws \<lparr>ebuf = buf, ebase = 0, pbase = 0, epos = p, world = ()\<rparr> = Some (rv, st)"
  by (induction ws arbitrary: buf p) (auto simp: UInt32_put exchangeBuffer_def UA_STATUSCODE_BADENCODINGLIMITSEXCEEDED_def UA_STATUSCODE_GOOD_def)

lemma words_bytes_Cons: "words_bytes (w # ws) = le_bytes 4 w @ words_bytes ws"
  by (simp add: words_bytes_def)

lemma words_bytes_length: "length (words_bytes ws) = 4 * length ws"
  by (induction ws) (simp_all add: words_bytes_def)

lemma encode_words_fit:
  "p + 4 * length ws \<le> length buf \<Longrightarrow>
   encode_words ws \<lparr>ebuf = buf, ebase = 0, pbase = 0, epos = p, world = ()\<rparr> =
     Some (UA_STATUSCODE_GOOD, \<lparr>ebuf = patch buf p (words_bytes ws), ebase = 0, pbase = 0, epos = p + 4 * length ws, world = ()\<rparr>)"
proof (induction ws arbitrary: buf p)
  case (Cons w ws)
  then show ?case using patch_patch [of p "le_bytes 4 w" "words_bytes ws" buf] by (simp add: UInt32_put words_bytes_Cons words_bytes_length)
qed (simp add: words_bytes_def)

lemma ack_answer:
  assumes "length hs = 2" and "length bs = 5"
  shows "(do { (_, ack, pos) \<leftarrow> encode_message hs (replicate n 0) 0; (_, ack, pos) \<leftarrow> encode_message bs ack pos; sent \<leftarrow> bytes_of_length ack 28; f sent }) =
     (if n < 28 then None else f (words_bytes (hs @ bs)))"
proof (cases "n < 28")
  case True
  obtain r1 st1 where e1: "encode_words hs \<lparr>ebuf = replicate n 0, ebase = 0, pbase = 0, epos = 0, world = ()\<rparr> = Some (r1, st1)"
    using encode_words_total by blast
  obtain r2 st2 where e2: "encode_words bs \<lparr>ebuf = ebuf st1, ebase = 0, pbase = 0, epos = epos st1, world = ()\<rparr> = Some (r2, st2)"
    using encode_words_total by blast
  have "length (ebuf st2) = n" using encode_words_put [OF e1] encode_words_put [OF e2] by simp
  then show ?thesis using True e1 e2 by (simp add: encode_message_def bytes_of_length_def)
next
  case False
  note len = words_bytes_length
  have "take 28 (patch (patch (replicate n 0) 0 (words_bytes hs)) 8 (words_bytes bs)) = words_bytes (hs @ bs)"
    using False assms len by (simp add: patch_def words_bytes_def)
  then show ?thesis using False assms len by (simp add: encode_message_def bytes_of_length_def encode_words_fit)
qed

lemma processHEL_answer:
  "processHEL i k msg offset s =
     do { connection \<leftarrow> connection_at s k;
          (r1, hello, st) \<leftarrow> decode_words 5 \<lparr>dbuf = msg, dpos = offset\<rparr>;
          (r2, url, st) \<leftarrow> String_decodeBinary (malloc_strings i) NullArray st;
          if r1 OR r2 \<noteq> UA_STATUSCODE_GOOD then Some (close_connection k s)
          else do {
            let l = localConf connection;
            let remote = \<lparr>protocolVersion = hello ! 0, sendBufferSize = hello ! 2, recvBufferSize = hello ! 1, maxMessageSize = hello ! 3,
                          maxChunkCount = hello ! 4\<rparr>;
            let l = (if sendBufferSize l > hello ! 1 then l\<lparr>sendBufferSize := hello ! 1\<rparr> else l);
            let l = (if recvBufferSize l > hello ! 2 then l\<lparr>recvBufferSize := hello ! 2\<rparr> else l);
            let s = s\<lparr>connection_at := (connection_at s)(k \<mapsto> connection\<lparr>localConf := l, remoteConf := remote\<rparr>),
                      connection_state := (connection_state s)(k := UA_CONNECTION_ESTABLISHED)\<rparr>;
            if send_buffer i \<noteq> UA_STATUSCODE_GOOD then Some (s, [])
            else if unat (sendBufferSize l) < 28 then None
            else Some (s, [Send k (words_bytes [UA_MESSAGETYPE_ACK + UA_CHUNKTYPE_FINAL, 28, protocolVersion l, recvBufferSize l,
                                                sendBufferSize l, maxMessageSize l, maxChunkCount l])]) } }"
proof -
  note ack = ack_answer [of "[a, b]" "[c, d, e, f, g]" for a b c d e f g, simplified]
  show ?thesis by (simp add: processHEL_def Let_def ack cong: if_cong)
qed

section \<open>Services\<close>

lemma HEL_ok:
  assumes ok: "server_ok s" and k: "connection_at s k \<noteq> None"
    and big: "\<forall>r ws st. decode_words 5 \<lparr>dbuf = msg, dpos = offset\<rparr> = Some (r, ws, st) \<longrightarrow> 28 \<le> unat (ws ! 1)"
  shows "safely (processHEL i k msg offset s) (\<lambda>(s', out). follows s s')"
proof -
  obtain conn where conn: "connection_at s k = Some conn" using k by blast
  obtain r1 ws st where ws: "decode_words 5 \<lparr>dbuf = msg, dpos = offset\<rparr> = Some (r1, ws, st)" using decode_words_total by blast
  obtain r2 url st' where url: "String_decodeBinary (malloc_strings i) NullArray st = Some (r2, url, st')" using String_total by blast
  have b: "28 \<le> unat (sendBufferSize (localConf conn))" "28 \<le> unat (ws ! 1)"
    using ok conn big ws by (auto simp: server_ok_def buffers_ok_def)
  have f: "follows s (s\<lparr>connection_at := (connection_at s)(k \<mapsto> conn'), connection_state := cs\<rparr>)"
    if "28 \<le> unat (sendBufferSize (localConf conn'))" for conn' cs
    using that ok k dom_update [of "connection_at s" k] by (auto simp: follows_def server_parts buffers_ok_def simp del: dom_fun_upd)
  have "follows s (fst (close_connection k s))" by (rule close_connection_follows [OF ok])
  then show ?thesis using conn ws url b by (auto simp: processHEL_answer Let_def split_beta intro!: f)
qed

lemma links_follows:
  assumes ok: "server_ok s" and p: "peers_ok p" "connection_channel p = connection_channel (links s)"
    "dom (session_channel p) \<subseteq> dom (session_at s)" "dom (channels p) = dom (channels (links s))"
    and keep: "\<And>c ch. channels (links s) c = Some ch \<Longrightarrow> \<exists>ch'. channels p c = Some ch' \<and> ch_connection ch' = ch_connection ch"
  shows "follows s (s\<lparr>links := p\<rparr>)"
  using ok p keep by (simp add: server_parts follows_def)

lemma renew_ok:
  assumes ok: "server_ok s"
  shows "safely (UA_SecureChannelManager_renew config now clock k request s) (\<lambda>(r, t, s'). follows s s')"
proof (cases "connection_channel (links s) k")
  case None
  then show ?thesis using ok by (simp add: UA_SecureChannelManager_renew_def follows_refl)
next
  case (Some c)
  then obtain ch where ch: "channels (links s) c = Some ch" using connection_to [OF server_okD(1) [OF ok]] by blast
  have "follows s (set_link c (ch\<lparr>nextSecurityToken := t\<rparr>) s\<lparr>lastTokenId := i\<rparr>)" for t i
    using set_link_follows [OF ok ch, of "ch\<lparr>nextSecurityToken := t\<rparr>"] by (simp add: follows_def server_parts set_link_def)
  then show ?thesis using Some ch by (simp add: UA_SecureChannelManager_renew_def Let_def set_link_def)
qed

lemma open_service_ok:
  assumes ok: "server_ok s" and k: "connection_at s k \<noteq> None" and m: "malloc_job i" and fresh: "\<forall>c. new_channel i = Some c \<longrightarrow> channels (links s) c = None"
    and one: "requestType request = UA_SECURITYTOKENREQUESTTYPE_ISSUE \<Longrightarrow> connection_channel (links s) k = None"
  shows "safely (Service_OpenSecureChannel E i k request s) (\<lambda>(r, t, s'). follows s s')"
  using renew_ok [OF ok] manager_open_ok [where malloc = "malloc_job i", OF ok fresh _ k m] one by (simp add: Service_OpenSecureChannel_def)

lemma close_channel_ok:
  assumes ok: "server_ok s"
  shows "safely (UA_SecureChannelManager_close malloc n s) (\<lambda>(r, s'). follows s s')"
proof -
  obtain r where "channel_with_id n (cm_channels s) s = Some r" "\<forall>c. r = Some c \<longrightarrow> c \<in> set (cm_channels s)"
    using channel_with_id_ok [OF listed_channels [OF ok]] by (auto elim!: safelyE)
  then show ?thesis
    using follows_refl [OF ok] removeSecureChannel_ok(1) [OF ok] by (auto simp: UA_SecureChannelManager_close_def split_beta split: option.split)
qed

lemma close_service_ok:
  assumes ok: "server_ok s" and c: "channels (links s) c \<noteq> None"
  shows "safely (Service_CloseSecureChannel i c s) (follows s)"
proof -
  obtain ch where "channels (links s) c = Some ch" using c by blast
  then show ?thesis using close_channel_ok [OF ok, of "malloc_job i" "channelId (securityToken ch)"]
    by (auto simp: Service_CloseSecureChannel_def elim!: safelyE)
qed

lemma send_reply_ok:
  assumes ok: "server_ok s" and c: "channels (links s) c \<noteq> None"
  shows "safely (send_reply E c requestId handle reply s) (\<lambda>(s', out). follows s s' \<and> (\<forall>sv x. Called sv x \<notin> set out) \<and>
    rest_of_server s' = rest_of_server s \<and> session_at s' = session_at s)"
proof -
  obtain ch where ch: "channels (links s) c = Some ch" using c by blast
  show ?thesis
  proof (cases "ch_connection ch")
    case None
    then show ?thesis using ch ok by (simp add: send_reply_def follows_refl)
  next
    case (Some k)
    then obtain connection where "connection_at s k = Some connection"
      using connection_of [OF server_okD(1) [OF ok] ch] server_okD(8) [OF ok, of k] by auto
    then show ?thesis using ch Some set_link_follows [OF ok ch]
      by (auto simp: send_reply_def Let_def set_link_def split: prod.split)
  qed
qed

lemma sendError_ok:
  assumes ok: "server_ok s" and c: "channels (links s) c \<noteq> None"
  shows "safely (sendError E c msg offset service requestId error s) (\<lambda>(s', out). follows s s' \<and> (\<forall>sv x. Called sv x \<notin> set out) \<and>
    rest_of_server s' = rest_of_server s \<and> session_at s' = session_at s)"
  using send_reply_ok [OF assms] follows_refl [OF ok] by (auto simp: sendError_def split: prod.split)

lemma attach_session_defined:
  assumes "channels p c \<noteq> None"
  shows "\<exists>p'. UA_SecureChannel_attachSession malloc n c se p = Some p'"
  using assms by (auto simp: UA_SecureChannel_attachSession_def)

lemma attach_session_keeps:
  assumes "UA_SecureChannel_attachSession malloc n c se p = Some p'"
  shows "connection_channel p' = connection_channel p" "dom (session_channel p') \<subseteq> insert se (dom (session_channel p))" "dom (channels p') = dom (channels p)"
    "channels p d = Some ch \<Longrightarrow> \<exists>ch'. channels p' d = Some ch' \<and> ch_connection ch' = ch_connection ch"
  using assms by (auto simp: UA_SecureChannel_attachSession_def bind_eq_Some_conv split: if_splits)

lemma activate_session_ok:
  assumes ok: "server_ok s" and c: "channels (links s) c \<noteq> None" and se: "session_at s se \<noteq> None"
  shows "safely (activate_session E i c se request s) (\<lambda>(s', reply). follows s s' \<and> rest_of_server s' = rest_of_server s \<and>
    (\<forall>se' x'. session_at s' se' = Some x' \<longrightarrow> (\<exists>x. session_at s se' = Some x \<and> sessionId x = sessionId x' \<and>
       (activated x' \<longrightarrow> activated x \<or> se' = se \<and> activateSession E (sessionId x') request = UA_STATUSCODE_GOOD))))"
proof -
  obtain x where x: "session_at s se = Some x" using se by blast
  have p0: "peers_ok (links s)" by (rule server_okD(1) [OF ok])
  consider "sint (validTill x) < sint (monotonic_clock i) \<or> activateSession E (sessionId x) request \<noteq> UA_STATUSCODE_GOOD"
    | "\<not> sint (validTill x) < sint (monotonic_clock i)" "activateSession E (sessionId x) request = UA_STATUSCODE_GOOD" by blast
  then show ?thesis
  proof cases
    case 1
    then show ?thesis using x ok by (auto simp: activate_session_def follows_refl)
  next
    case 2
    have "\<exists>p. (case session_channel (links s) se of None \<Rightarrow> Some (links s)
        | Some c' \<Rightarrow> if c' \<noteq> c then UA_SecureChannel_detachSession c' (Some se) (links s) else Some (links s)) = Some p \<and>
        peers_ok p \<and> connection_channel p = connection_channel (links s) \<and> dom (session_channel p) \<subseteq> dom (session_channel (links s)) \<and>
        dom (channels p) = dom (channels (links s)) \<and>
        (\<forall>d ch. channels (links s) d = Some ch \<longrightarrow> (\<exists>ch'. channels p d = Some ch' \<and> ch_connection ch' = ch_connection ch))"
    proof (cases "session_channel (links s) se")
      case None
      then show ?thesis using p0 by simp
    next
      case (Some c')
      obtain p where p: "UA_SecureChannel_detachSession c' (Some se) (links s) = Some p" using detach_session_defined [OF p0 Some] by blast
      obtain ch where ch: "channels (links s) c' = Some ch" "channels p = (channels (links s))(c' \<mapsto> ch\<lparr>sessions := remove1 se (sessions ch)\<rparr>)"
        using detach_session_keeps(3) [OF p] by blast
      have "dom (channels p) = dom (channels (links s))" using dom_update [of "channels (links s)" c'] ch by simp
      then show ?thesis using Some p0 p ch detach_session_ok [OF p0 Some p] detach_session_keeps(1,2) [OF p]
        by (cases "c' = c") (auto simp del: dom_fun_upd split: if_splits)
    qed
    then obtain p where p: "(case session_channel (links s) se of None \<Rightarrow> Some (links s)
        | Some c' \<Rightarrow> if c' \<noteq> c then UA_SecureChannel_detachSession c' (Some se) (links s) else Some (links s)) = Some p"
        "peers_ok p" "connection_channel p = connection_channel (links s)" "dom (session_channel p) \<subseteq> dom (session_channel (links s))"
        "dom (channels p) = dom (channels (links s))"
        "\<And>d ch. channels (links s) d = Some ch \<Longrightarrow> \<exists>ch'. channels p d = Some ch' \<and> ch_connection ch' = ch_connection ch" by blast
    have "channels p c \<noteq> None" using c p(5) by blast
    then obtain q where q: "UA_SecureChannel_attachSession (\<lambda>_. malloc_entry i) 0 c se p = Some q" using attach_session_defined by blast
    note keeps = attach_session_keeps [OF q]
    let ?x = "UA_Session_updateLifetime (doubles_of E) (monotonic_clock i) (x\<lparr>activated := True\<rparr>)"
    have "dom (session_channel (links s)) \<subseteq> dom (session_at s)" "se \<in> dom (session_at s)" using ok se by (simp_all add: server_parts domIff)
    then have sub: "dom (session_channel q) \<subseteq> dom (session_at s)" using keeps(2) p(4) by blast
    have kept: "\<exists>ch'. channels q d = Some ch' \<and> ch_connection ch' = ch_connection ch" if d: "channels (links s) d = Some ch" for d ch
    proof -
      obtain ch1 where 1: "channels p d = Some ch1" "ch_connection ch1 = ch_connection ch" using p(6) [OF d] by blast
      then show ?thesis using keeps(4) [OF 1(1)] by auto
    qed
    have same: "connection_channel q = connection_channel (links s)" "dom (channels q) = dom (channels (links s))"
      using keeps(1,3) p(3,5) by (simp_all only:)
    have "follows s (s\<lparr>links := q\<rparr>)"
      by (rule links_follows [OF ok attach_session_ok [OF p(2) q] same(1) sub same(2) kept])
    moreover have "follows (s\<lparr>links := q\<rparr>) (set_session se ?x (s\<lparr>links := q\<rparr>))"
      by (rule set_session_follows [OF follows_ok [OF calculation]]) (simp add: se)
    ultimately have "follows s (set_session se ?x (s\<lparr>links := q\<rparr>))" by (rule follows_trans)
    then show ?thesis using x 2 p(1) q by (simp add: activate_session_def) (auto simp: set_session_def UA_Session_updateLifetime_def)
  qed
qed

lemma removeSession_activates_none:
  assumes "removeSession malloc se s = Some (r, s')"
  shows "rest_of_server s' = rest_of_server s" "session_at s' se' = Some x' \<Longrightarrow> \<exists>x. session_at s se' = Some x \<and> sessionId x = sessionId x' \<and> (activated x' \<longrightarrow> activated x)"
  using assms by (auto simp: removeSession_def UA_Server_delayedCallback_def set_session_def bind_eq_Some_conv status_codes split: if_splits prod.splits)

lemma remove_by_token_activates_none:
  assumes "UA_SessionManager_removeSession malloc token s = Some (r, s')"
  shows "rest_of_server s' = rest_of_server s" "session_at s' se' = Some x' \<Longrightarrow> \<exists>x. session_at s se' = Some x \<and> sessionId x = sessionId x' \<and> (activated x' \<longrightarrow> activated x)"
  using assms removeSession_activates_none by (auto simp: UA_SessionManager_removeSession_def bind_eq_Some_conv split: option.splits)

lemma createSession_activates_none:
  assumes "UA_SessionManager_createSession D config entry guid1 guid2 now t s = (r, se, s')"
  shows "rest_of_server s' = rest_of_server s" "session_at s' se' = Some x' \<Longrightarrow> activated x' \<Longrightarrow> \<exists>x. session_at s se' = Some x \<and> sessionId x = sessionId x' \<and> activated x"
  using assms by (auto simp: UA_SessionManager_createSession_def Let_def set_session_def UA_Session_updateLifetime_def UA_Session_init_def
      split: if_splits option.splits)

text \<open>No session is activated, no service changes the rest of the server.\<close>

definition no_login :: "('d, 'e, 's) UA_Server \<Rightarrow> ('d, 'e, 's) UA_Server \<Rightarrow> bool" where
  "no_login s s' \<longleftrightarrow> (\<forall>se x'. session_at s' se = Some x' \<longrightarrow> activated x' \<longrightarrow> (\<exists>x. session_at s se = Some x \<and> sessionId x = sessionId x' \<and> activated x))"

definition quiet :: "('d, 'e, 's) UA_Server \<Rightarrow> ('d, 'e, 's) UA_Server \<Rightarrow> bool" where
  "quiet s s' \<longleftrightarrow> rest_of_server s' = rest_of_server s \<and> no_login s s'"

lemma no_login_trans: "no_login s s' \<Longrightarrow> no_login s' s'' \<Longrightarrow> no_login s s''"
  unfolding no_login_def by metis

lemma no_login_set:
  "session_at s se = Some x \<Longrightarrow> sessionId x' = sessionId x \<Longrightarrow> (activated x' \<Longrightarrow> activated x) \<Longrightarrow> no_login s (set_session se x' (s\<lparr>rest_of_server := r\<rparr>))"
  by (auto simp: no_login_def set_session_def)

lemma no_login_same: "session_at s' = session_at s \<Longrightarrow> no_login s s'"
  by (simp add: no_login_def)

lemma quiet_refl: "quiet s s"
  by (simp add: quiet_def no_login_def)

lemma quiet_trans: "quiet s s' \<Longrightarrow> quiet s' s'' \<Longrightarrow> quiet s s''"
  using no_login_trans unfolding quiet_def by metis

lemma quiet_same: "rest_of_server s' = rest_of_server s \<Longrightarrow> session_at s' = session_at s \<Longrightarrow> quiet s s'"
  by (simp add: quiet_def no_login_def)

lemma quiet_set: "session_at s se = Some x \<Longrightarrow> sessionId x' = sessionId x \<Longrightarrow> (activated x' \<Longrightarrow> activated x) \<Longrightarrow> quiet s (set_session se x' s)"
  by (auto simp: quiet_def no_login_def set_session_def)

lemma remove_by_token_quiet: "UA_SessionManager_removeSession malloc token s = Some (r, s') \<Longrightarrow> quiet s s'"
  using remove_by_token_activates_none unfolding quiet_def no_login_def by blast

lemma create_session_ok:
  assumes ok: "server_ok s" and ch: "channels (links s) c = Some ch" and k: "ch_connection ch = Some k"
    and fresh: "\<forall>se. new_session i = Some se \<longrightarrow> session_at s se = None"
  shows "safely (create_session E i c request s) (\<lambda>(s', reply). follows s s' \<and> quiet s s')"
proof -
  obtain connection where conn: "connection_at s k = Some connection"
    using connection_of [OF server_okD(1) [OF ok] ch k] server_okD(8) [OF ok, of k] by auto
  obtain r e s1 where e: "UA_SessionManager_createSession (doubles_of E) (config_of E) (new_session i) (random_id i) (random_token i)
      (monotonic_clock i) (requestedSessionTimeout E request) s = (r, e, s1)" by (metis prod_cases3)
  note created = createSession_ok [OF ok fresh, of "doubles_of E" "config_of E" "random_id i" "random_token i" "monotonic_clock i" "requestedSessionTimeout E request"]
  have q1: "quiet s s1" using createSession_activates_none [OF e] by (auto simp: quiet_def no_login_def)
  show ?thesis
  proof (cases "channelId (securityToken ch) = 0 \<or> copy_endpoints i \<noteq> UA_STATUSCODE_GOOD \<or> e = None")
    case True
    then show ?thesis using ch e created ok q1 by (auto simp: create_session_def follows_refl quiet_refl)
  next
    case False
    then obtain se where se: "e = Some se" by blast
    then have s1: "follows s s1" "session_at s1 se \<noteq> None" "connection_at s1 = connection_at s" using created e by auto
    then obtain x where x: "session_at s1 se = Some x" by blast
    let ?x = "x\<lparr>maxResponseMessageSize := request_maxResponseMessageSize E request, maxRequestMessageSize := maxMessageSize (localConf connection),
      sessionName := (if copy_name i = UA_STATUSCODE_GOOD then request_sessionName E request else [])\<rparr>"
    let ?s = "set_session se ?x s1"
    have s2: "follows s ?s" using follows_trans [OF s1(1) set_session_follows [OF follows_ok [OF s1(1)] s1(2)]] .
    have q2: "quiet s ?s" by (rule quiet_trans [OF q1 quiet_set [OF x]]) simp_all
    obtain r2 s3 where s3: "UA_SessionManager_removeSession (malloc_job i) (authenticationToken (links s1) se) ?s = Some (r2, s3)" "follows ?s s3"
      using removeSession_by_token_ok [OF follows_ok [OF s2], of "malloc_job i" "authenticationToken (links s1) se"] by (auto elim!: safelyE)
    have q3: "quiet s s3" by (rule quiet_trans [OF q2 remove_by_token_quiet [OF s3(1)]])
    have l: "links ?s = links s1" by (simp add: set_session_def)
    show ?thesis
      using ch k False e se x conn s1(3) s2 q2 q3 s3 l follows_trans [OF s2 s3(2)]
      by (simp add: create_session_def Let_def)
  qed
qed

lemma close_session_ok:
  assumes ok: "server_ok s"
  shows "safely (close_session i se s) (\<lambda>(s', reply). follows s s' \<and> quiet s s')"
proof -
  obtain r s' where "UA_SessionManager_removeSession (malloc_job i) (authenticationToken (links s) se) s = Some (r, s')" "follows s s'"
    using removeSession_by_token_ok [OF ok, of "malloc_job i" "authenticationToken (links s) se"] by (auto elim!: safelyE)
  then show ?thesis using remove_by_token_quiet by (auto simp: close_session_def)
qed

text \<open>Who may call: the session is known to the channel or the manager by its token, is bound to the channel and, where the service needs
  one, active.\<close>

definition may_call :: "('d, 'e, 's, 'q, 'p) environment \<Rightarrow> bool \<Rightarrow> nat \<Rightarrow> 'q \<Rightarrow> ('d, 'e, 's) UA_Server \<Rightarrow> nat \<Rightarrow> bool" where
  "may_call E sessionRequired c request s se \<longleftrightarrow> (\<exists>x. session_at s se = Some x \<and> (sessionRequired \<longrightarrow> activated x) \<and>
     session_channel (links s) se = Some c \<and> UA_NodeId_equal (authenticationToken (links s) se) (request_token E request))"

lemma find_session_ok:
  assumes ok: "server_ok s" and c: "channels (links s) c = Some ch"
  shows "safely (find_session E i c request s) (\<lambda>r. \<forall>se. r = Some se \<longrightarrow>
    session_at s se \<noteq> None \<and> UA_NodeId_equal (authenticationToken (links s) se) (request_token E request))"
proof -
  have live: "\<not> (\<exists>se \<in> set (sessions ch). session_at s se = None)"
    using session_of [OF server_okD(1) [OF ok] c] server_okD(7) [OF ok] by blast
  let ?f = "find (\<lambda>se. UA_NodeId_equal (authenticationToken (links s) se) (request_token E request)) (sessions ch)"
  have found: "UA_SecureChannel_getSession c (request_token E request) (links s) = Some ?f" using c by (simp add: UA_SecureChannel_getSession_def)
  show ?thesis
  proof (cases ?f)
    case None
    have "safely (UA_SessionManager_getSession (request_token E request) (monotonic_clock i) s) (\<lambda>r. \<forall>se. r = Some se \<longrightarrow>
        session_at s se \<noteq> None \<and> UA_NodeId_equal (authenticationToken (links s) se) (request_token E request))"
      by (rule safely_mono [OF getSession_ok [OF ok]]) (use server_okD(5) [OF ok] in blast)
    then show ?thesis using None found c by (simp add: find_session_def live)
  next
    case (Some se)
    then have "se \<in> set (sessions ch)" "UA_NodeId_equal (authenticationToken (links s) se) (request_token E request)" using find_in by fastforce+
    then show ?thesis using Some found c live by (auto simp: find_session_def)
  qed
qed

lemma call_anonymous_ok:
  assumes ok: "server_ok s" and c: "channels (links s) c \<noteq> None"
  shows "safely (call_anonymous E service c requestId request s) (\<lambda>(s', out). follows s s' \<and> session_at s' = session_at s \<and>
    (\<forall>sv who. Called sv who \<in> set out \<longleftrightarrow> sv = service \<and> who = None))"
proof -
  obtain os r response where r: "call_service E service ((UA_Session_init (doubles_of E))\<lparr>sessionId := UA_NODEID_GUID 0 guid_zero\<rparr>) request
      (rest_of_server s) = (os, r, response)" by (metis prod_cases3)
  let ?s = "s\<lparr>rest_of_server := r\<rparr>"
  have f: "follows s ?s" by (rule rest_follows [OF ok])
  obtain s' out where "send_reply E c requestId (request_handle E request) (Answer response) ?s = Some (s', out)"
      "follows ?s s'" "\<forall>sv x. Called sv x \<notin> set out" "session_at s' = session_at ?s"
    using send_reply_ok [OF follows_ok [OF f], of c E requestId "request_handle E request" "Answer response"] c by (auto elim!: safelyE)
  then show ?thesis using r follows_trans [OF f] by (auto simp: call_anonymous_def Let_def)
qed

lemma call_with_session_ok:
  fixes E :: "('d, 'e, 's, 'q, 'p) environment"
  assumes ok: "server_ok s" and c: "channels (links s) c \<noteq> None" and se: "session_at s se \<noteq> None"
  shows "safely (call_with_session E i service c se requestId request s) (\<lambda>(s', out). follows s s' \<and> no_login s s' \<and>
    (\<forall>sv who. Called sv who \<in> set out \<longleftrightarrow> sv = service \<and> who = Some se))"
proof -
  obtain x where x: "session_at s se = Some x" using se by blast
  let ?x = "UA_Session_updateLifetime (doubles_of E) (monotonic_clock i) x"
  let ?s = "set_session se ?x s"
  have f: "follows s ?s" by (rule set_session_follows [OF ok se])
  have q: "no_login s ?s" using quiet_set [OF x, of ?x] by (simp add: quiet_def UA_Session_updateLifetime_def)
  show ?thesis
  proof (cases "service = Service_CloseSession")
    case True
    obtain s1 and reply :: "('d, 'p) reply" where s1: "close_session i se ?s = Some (s1, reply)" "follows ?s s1" "quiet ?s s1"
      using close_session_ok [OF follows_ok [OF f], of i se] by (auto elim!: safelyE)
    note f1 = follows_trans [OF f s1(2)]
    have "channels (links s1) c \<noteq> None" using c follows_channel [OF f1] by blast
    then obtain s2 out where "send_reply E c requestId (request_handle E request) reply s1 = Some (s2, out)"
        "follows s1 s2" "\<forall>sv x. Called sv x \<notin> set out" "session_at s2 = session_at s1"
      using send_reply_ok [OF follows_ok [OF f1], of c E requestId "request_handle E request" reply] by (auto elim!: safelyE)
    then show ?thesis using True x s1(1) follows_trans [OF f1] no_login_trans [OF q no_login_trans, OF _ no_login_same, of s1 s2] s1(3)
      by (auto simp: call_with_session_def quiet_def)
  next
    case False
    obtain os r response where r: "call_service E service ?x request (rest_of_server ?s) = (os, r, response)" by (metis prod_cases3)
    let ?t = "set_session se (?x\<lparr>objects := os\<rparr>) (?s\<lparr>rest_of_server := r\<rparr>)"
    have f1: "follows s ?t"
      by (rule follows_trans [OF follows_trans [OF f rest_follows [OF follows_ok [OF f]]] set_session_follows])
        (use follows_ok [OF rest_follows [OF follows_ok [OF f]]] in \<open>simp_all add: set_session_def\<close>)
    have q1: "no_login s ?t" by (rule no_login_trans [OF q no_login_set]) (simp_all add: set_session_def)
    have "channels (links ?t) c \<noteq> None" using c by (simp add: set_session_def)
    then obtain s2 out where s2: "send_reply E c requestId (request_handle E request) (Answer response) ?t = Some (s2, out)"
        "follows ?t s2" "\<forall>sv x. Called sv x \<notin> set out" "session_at s2 = session_at ?t"
      using send_reply_ok [OF follows_ok [OF f1], of c E requestId "request_handle E request" "Answer response"] by (auto elim!: safelyE)
    have "no_login s s2" using q1 s2(4) by (simp add: no_login_def)
    then show ?thesis using False x r f1 q1 s2 follows_trans [OF f1 s2(2)] by (auto simp: call_with_session_def Let_def)
  qed
qed

definition login :: "('d, 'e, 's, 'q, 'p) environment \<Rightarrow> 'q \<Rightarrow> ('d, 'e, 's) UA_Server \<Rightarrow> ('d, 'e, 's) UA_Server \<Rightarrow> bool" where
  "login E request s s' \<longleftrightarrow> (\<forall>se x'. session_at s' se = Some x' \<longrightarrow> activated x' \<longrightarrow>
     (\<exists>x. session_at s se = Some x \<and> sessionId x = sessionId x' \<and> activated x) \<or>
     activateSession E (sessionId x') request = UA_STATUSCODE_GOOD \<and> UA_NodeId_equal (authenticationToken (links s) se) (request_token E request))"

lemma login_quiet: "no_login s s' \<Longrightarrow> login E request s s'"
  unfolding no_login_def login_def by blast

text \<open>What is shown of the treatment of a request.\<close>

definition request_handled ::
    "('d, 'e, 's, 'q, 'p) environment \<Rightarrow> service \<Rightarrow> bool \<Rightarrow> nat \<Rightarrow> 'q \<Rightarrow> ('d, 'e, 's) UA_Server \<Rightarrow> ('d, 'e, 's) UA_Server \<times> effect list \<Rightarrow> bool" where
  "request_handled E service sessionRequired c request s r \<longleftrightarrow> (case r of (s', out) \<Rightarrow>
     follows s s' \<and>
     (\<forall>sv who. Called sv who \<in> set out \<longrightarrow> sv = service \<and>
        (case who of None \<Rightarrow> \<not> sessionRequired | Some se \<Rightarrow> may_call E sessionRequired c request s se)) \<and>
     ((\<forall>sv who. Called sv who \<notin> set out) \<longrightarrow> rest_of_server s' = rest_of_server s) \<and>
     login E request s s' \<and> (service \<noteq> Service_ActivateSession \<longrightarrow> no_login s s'))"

lemma error_handled:
  assumes "server_ok s" and "channels (links s) c \<noteq> None"
  shows "safely (sendError E c msg offset sv requestId error s) (request_handled E service sessionRequired c' request s)"
  by (rule safely_mono [OF sendError_ok [OF assms]]) (auto simp: request_handled_def no_login_same intro: login_quiet)

lemma process_request_ok:
  assumes ok: "server_ok s" and ch: "channels (links s) c = Some ch" and k: "ch_connection ch = Some k"
    and fresh: "\<forall>se. new_session i = Some se \<longrightarrow> session_at s se = None"
  shows "safely (process_request E i service sessionRequired c requestId request msg requestPos s) (request_handled E service sessionRequired c request s)"
proof (cases "service = Service_CreateSession")
  case True
  obtain s1 reply where s1: "create_session E i c request s = Some (s1, reply)" "follows s s1" "quiet s s1"
    using create_session_ok [OF ok ch k fresh, of E request] by (auto elim!: safelyE)
  have "channels (links s1) c \<noteq> None" using follows_channel [OF s1(2) ch] by blast
  then obtain s2 out where s2: "send_reply E c requestId (request_handle E request) reply s1 = Some (s2, out)"
      "follows s1 s2" "\<forall>sv x. Called sv x \<notin> set out" "session_at s2 = session_at s1" "rest_of_server s2 = rest_of_server s1"
    using send_reply_ok [OF follows_ok [OF s1(2)], of c E requestId "request_handle E request" reply] by (auto elim!: safelyE)
  have "no_login s s2" using s1(3) s2(4) by (simp add: quiet_def no_login_def)
  then show ?thesis using True s1 s2 follows_trans [OF s1(2) s2(2)]
    by (simp add: process_request_def request_handled_def quiet_def login_quiet)
next
  case create: False
  have c: "channels (links s) c \<noteq> None" using ch by simp
  note err = error_handled [OF ok c]
  obtain r where r: "find_session E i c request s = Some r"
      "\<forall>se. r = Some se \<longrightarrow> session_at s se \<noteq> None \<and> UA_NodeId_equal (authenticationToken (links s) se) (request_token E request)"
    using find_session_ok [OF ok ch, of E i request] by (auto elim!: safelyE)
  show ?thesis
  proof (cases r)
    case None
    have "safely (call_anonymous E service c requestId request s) (request_handled E service False c request s)"
      by (rule safely_mono [OF call_anonymous_ok [OF ok c]]) (auto simp: request_handled_def no_login_same intro: login_quiet)
    then show ?thesis using create None r by (cases sessionRequired) (auto simp: process_request_def intro: err)
  next
    case (Some se)
    then have se: "session_at s se \<noteq> None" "UA_NodeId_equal (authenticationToken (links s) se) (request_token E request)" using r by simp_all
    then obtain x where x: "session_at s se = Some x" by blast
    consider (activate) "service = Service_ActivateSession" | (inactive) "service \<noteq> Service_ActivateSession" "sessionRequired" "\<not> activated x"
      | (other) "service \<noteq> Service_ActivateSession" "\<not> (sessionRequired \<and> \<not> activated x)" "session_channel (links s) se \<noteq> Some c"
      | (call) "service \<noteq> Service_ActivateSession" "\<not> (sessionRequired \<and> \<not> activated x)" "session_channel (links s) se = Some c" by blast
    then show ?thesis
    proof cases
      case activate
      obtain s1 reply where s1: "activate_session E i c se request s = Some (s1, reply)" "follows s s1" "rest_of_server s1 = rest_of_server s"
          "\<forall>se' x'. session_at s1 se' = Some x' \<longrightarrow> (\<exists>x. session_at s se' = Some x \<and> sessionId x = sessionId x' \<and>
             (activated x' \<longrightarrow> activated x \<or> se' = se \<and> activateSession E (sessionId x') request = UA_STATUSCODE_GOOD))"
        using activate_session_ok [OF ok c se(1), of E i request] by (elim safelyE) auto
      have "channels (links s1) c \<noteq> None" using follows_channel [OF s1(2) ch] by blast
      then obtain s2 out where s2: "send_reply E c requestId (request_handle E request) reply s1 = Some (s2, out)"
          "follows s1 s2" "\<forall>sv x. Called sv x \<notin> set out" "session_at s2 = session_at s1" "rest_of_server s2 = rest_of_server s1"
        using send_reply_ok [OF follows_ok [OF s1(2)], of c E requestId "request_handle E request" reply] by (auto elim!: safelyE)
      have "login E request s s2" using s1(4) s2(4) se(2) unfolding login_def by metis
      then show ?thesis using create activate r(1) Some s1(1,3) s2 follows_trans [OF s1(2) s2(2)]
        by (simp add: process_request_def request_handled_def)
    next
      case inactive
      obtain s1 out where s1: "sendError E c msg requestPos (Some service) requestId UA_STATUSCODE_BADSESSIONNOTACTIVATED s = Some (s1, out)"
          "follows s s1" "\<forall>sv x. Called sv x \<notin> set out" "rest_of_server s1 = rest_of_server s" "session_at s1 = session_at s"
        using sendError_ok [OF ok c, of E msg requestPos "Some service" requestId UA_STATUSCODE_BADSESSIONNOTACTIVATED] by (elim safelyE) auto
      obtain q s2 where s2: "UA_SessionManager_removeSession (malloc_job i) (authenticationToken (links s1) se) s1 = Some (q, s2)" "follows s1 s2"
        using removeSession_by_token_ok [OF follows_ok [OF s1(2)], of "malloc_job i" "authenticationToken (links s1) se"] by (auto elim!: safelyE)
      have "quiet s s2" using quiet_trans [OF quiet_same [OF s1(4,5)] remove_by_token_quiet [OF s2(1)]] .
      then show ?thesis using create inactive r(1) Some x s1 s2 follows_trans [OF s1(2) s2(2)]
        by (simp add: process_request_def request_handled_def quiet_def login_quiet)
    next
      case other
      then show ?thesis using create r(1) Some x by (auto simp: process_request_def intro: err)
    next
      case call
      have "may_call E sessionRequired c request s se" using x se(2) call by (auto simp: may_call_def)
      then have "safely (call_with_session E i service c se requestId request s) (request_handled E service sessionRequired c request s)"
        by (intro safely_mono [OF call_with_session_ok [OF ok c se(1)]]) (auto simp: request_handled_def login_quiet)
      then show ?thesis using create call r(1) Some x by (auto simp: process_request_def)
    qed
  qed
qed

section \<open>Messages\<close>

text \<open>A message that opens a channel comes on a connection without one.\<close>

lemma OPN_ok:
  assumes ok: "server_ok s" and k: "connection_at s k \<noteq> None" and m: "malloc_job i" and fresh: "\<forall>c. new_channel i = Some c \<longrightarrow> channels (links s) c = None"
    and one: "connection_channel (links s) k \<noteq> None \<Longrightarrow> requestType (snd (snd (snd (decode_open E msg)))) \<noteq> UA_SECURITYTOKENREQUESTTYPE_ISSUE"
  shows "safely (processOPN E i k n msg s) (\<lambda>(s', out). follows s s')"
proof -
  obtain conn where conn: "connection_at s k = Some conn" using k by blast
  obtain r2 sequence ty request where d: "decode_open E msg = (r2, sequence, ty, request)" by (metis prod_cases4)
  have wrong: "\<exists>b. (case connection_channel (links s) k of None \<Rightarrow> Some (n \<noteq> 0)
      | Some c \<Rightarrow> do { ch \<leftarrow> channels (links s) c; Some (n \<noteq> channelId (securityToken ch)) }) = Some b"
    using connection_to [OF server_okD(1) [OF ok], of k] by (auto split: option.split)
  obtain status token s1 where s1: "Service_OpenSecureChannel E i k request s = Some (status, token, s1)" "follows s s1"
    using open_service_ok [OF ok k m fresh, of request E] one d by (fastforce elim!: safelyE)
  have close: "follows s (fst (close_connection k t))" if "follows s t" for t
    by (rule follows_trans [OF that close_connection_follows [OF follows_ok [OF that]]])
  have linked: "\<exists>ch. channels (links s1) c = Some ch \<and>
      (\<forall>ch'. ch_connection ch' = ch_connection ch \<longrightarrow> sessions ch' = sessions ch \<longrightarrow> follows s (set_link c ch' s1))"
    if c: "connection_channel (links s1) k = Some c" for c
  proof -
    obtain ch where ch: "channels (links s1) c = Some ch" using connection_to [OF server_okD(1) [OF follows_ok [OF s1(2)]] c] by blast
    then show ?thesis using follows_trans [OF s1(2) set_link_follows [OF follows_ok [OF s1(2)] ch]] by blast
  qed
  show ?thesis
  proof (cases "connection_channel (links s1) k")
    case None
    then show ?thesis using conn wrong d s1 close [OF follows_refl [OF ok]] close [OF s1(2)]
      by (auto simp: processOPN_def Let_def split_beta)
  next
    case (Some c)
    obtain ch where ch: "channels (links s1) c = Some ch"
        "\<forall>ch'. ch_connection ch' = ch_connection ch \<longrightarrow> sessions ch' = sessions ch \<longrightarrow> follows s (set_link c ch' s1)"
      using linked [OF Some] by blast
    then show ?thesis using Some conn wrong d s1 close [OF follows_refl [OF ok]] close
      by (auto simp: processOPN_def Let_def split_beta)
  qed
qed

text \<open>What becomes of a request in a message.\<close>

definition message_handled ::
    "('d, 'e, 's, 'q, 'p) environment \<Rightarrow> inputs \<Rightarrow> nat \<Rightarrow> bytes \<Rightarrow> ('d, 'e, 's) UA_Server \<Rightarrow> ('d, 'e, 's) UA_Server \<times> effect list \<Rightarrow> bool" where
  "message_handled E i c msg s r \<longleftrightarrow> (case r of (s', out) \<Rightarrow>
     follows s s' \<and> quiet s s' \<and> (\<forall>sv who. Called sv who \<notin> set out) \<or>
     (\<exists>typ st service sessionRequired request.
        NodeId_decodeBinary (malloc_strings i) \<lparr>namespaceIndex = 0, ident = NUMERIC 0\<rparr> \<lparr>dbuf = msg, dpos = 0\<rparr> = Some (UA_STATUSCODE_GOOD, typ, st) \<and>
        getServicePointers (case ident typ of NUMERIC n \<Rightarrow> n | _ \<Rightarrow> 0) = Some (service, sessionRequired) \<and>
        decode_request E service msg (dpos st) = (UA_STATUSCODE_GOOD, request) \<and> request_handled E service sessionRequired c request s r))"

lemma error_message:
  assumes "server_ok s" and "channels (links s) c \<noteq> None"
  shows "safely (sendError E c msg offset sv requestId error s) (message_handled E i c' msg' s)"
  by (rule safely_mono [OF sendError_ok [OF assms]]) (auto simp: message_handled_def quiet_same)

lemma MSG_ok:
  fixes E :: "('d, 'e, 's, 'q, 'p) environment" and s :: "('d, 'e, 's) UA_Server"
  assumes ok: "server_ok s" and ch: "channels (links s) c = Some ch" and k: "ch_connection ch = Some k"
    and fresh: "\<forall>se. new_session i = Some se \<longrightarrow> session_at s se = None"
  shows "safely (processMSG E i c requestId msg s) (message_handled E i c msg s)"
proof -
  obtain r ty st where ty: "NodeId_decodeBinary (malloc_strings i) \<lparr>namespaceIndex = 0, ident = NUMERIC 0\<rparr> \<lparr>dbuf = msg, dpos = 0\<rparr> = Some (r, ty, st)"
    using NodeId_total by blast
  let ?n = "case ident ty of NUMERIC n \<Rightarrow> n | _ \<Rightarrow> 0"
  have c: "channels (links s) c \<noteq> None" using ch by simp
  have idle: "message_handled E i c msg s (s, [])" using ok by (simp add: message_handled_def follows_refl quiet_refl)
  have err: "safely (sendError E c msg offset sv requestId error s) (message_handled E i c msg s)" for offset sv error
    by (rule error_message [OF ok c])
  show ?thesis
  proof (cases "r = UA_STATUSCODE_GOOD")
    case False
    then have "processMSG E i c requestId msg s = Some (s, [])" using ty by (simp add: processMSG_def)
    then show ?thesis by (simp only: safely_Some idle)
  next
    case good: True
    show ?thesis
    proof (cases "getServicePointers ?n")
      case None
      then show ?thesis using ty good err by (simp add: processMSG_def Let_def)
    next
      case (Some p)
      obtain service required where p: "p = (service, required)" by fastforce
      obtain q request where q: "decode_request E service msg (dpos st) = (q, request)" by fastforce
      show ?thesis
      proof (cases "q = UA_STATUSCODE_GOOD")
        case False
        then show ?thesis using ty good Some p q err by (simp add: processMSG_def Let_def)
      next
        case True
        then have "safely (process_request E i service required c requestId request msg (dpos st) s) (message_handled E i c msg s)"
          using Some p q by (intro safely_mono [OF process_request_ok [OF ok ch k fresh]]) (use ty good in \<open>auto simp: message_handled_def\<close>)
        then show ?thesis using ty good Some p q True by (simp add: processMSG_def Let_def)
      qed
    qed
  qed
qed

lemma message_follows: "message_handled E i c msg s (s', out) \<Longrightarrow> follows s s'"
  by (auto simp: message_handled_def request_handled_def)

end
