(* ===== verification/UAServerRun.thy ===== *)
theory UAServerRun
  imports UAServerSafety
begin

text \<open>
  What happens to a server from outside, as a sequence of events: the network layer accepts or loses a connection, a message
  arrives on a connection without a channel or has been put together by the channel, the periodic cleanup runs, and so do the
  delayed callbacks. Every event preserves the invariant.
\<close>

section \<open>Events\<close>

text \<open>A connection that the network layer accepts (\<open>ServerNetworkLayerTCP_add\<close>).\<close>

definition ServerNetworkLayerTCP_add :: "nat option \<Rightarrow> UA_ConnectionConfig \<Rightarrow> ('d, 'e, 's) UA_Server \<Rightarrow> UA_StatusCode \<times> ('d, 'e, 's) UA_Server" where
  "ServerNetworkLayerTCP_add malloc conf s =
     (case malloc of
        None \<Rightarrow> (UA_STATUSCODE_BADINTERNALERROR, s)
      | Some k \<Rightarrow> (UA_STATUSCODE_GOOD,
          s\<lparr>connection_at := (connection_at s)(k \<mapsto> \<lparr>localConf = conf, remoteConf = conf, incompleteMessage = []\<rparr>),
            links := (links s)\<lparr>connection_channel := (connection_channel (links s))(k := None)\<rparr>,
            connection_state := (connection_state s)(k := UA_CONNECTION_OPENING)\<rparr>))"

datatype event = Accepted "nat option" UA_ConnectionConfig | First nat inputs bytes | Delivered nat inputs incoming | Lost nat
  | Cleanup "nat \<Rightarrow> bool" "nat \<Rightarrow> bool" "64 word" | Delayed

fun server_event :: "('d, 'e, 's, 'q, 'p) environment \<Rightarrow> event \<Rightarrow> ('d, 'e, 's) UA_Server \<Rightarrow> (('d, 'e, 's) UA_Server \<times> effect list) option" where
  "server_event E (Accepted malloc conf) s = Some (snd (ServerNetworkLayerTCP_add malloc conf s), [])"
| "server_event E (First k i message) s = process_without_channel E i k message s"
| "server_event E (Delivered c i message) s = UA_Server_processSecureChannelMessage E i c message s"
| "server_event E (Lost k) s = do { s \<leftarrow> detach_and_free k s; Some (s, []) }"
| "server_event E (Cleanup malloc1 malloc2 clock) s = do { s \<leftarrow> UA_Server_cleanup malloc1 malloc2 clock s; Some (s, []) }"
| "server_event E Delayed s = do { s \<leftarrow> processDelayedCallbacks s; Some (s, []) }"

text \<open>Which events are considered: addresses that are given out are not in use, the callback of a purged channel can be
  registered, a first message is long enough to be one, and a client neither announces a buffer in which an acknowledgement does not
  fit nor asks for another channel where it has one.\<close>

definition fresh_addresses :: "inputs \<Rightarrow> ('d, 'e, 's) UA_Server \<Rightarrow> bool" where
  "fresh_addresses i s \<longleftrightarrow> malloc_job i \<and> (case new_session i of None \<Rightarrow> True | Some se \<Rightarrow> session_at s se = None) \<and>
     (case new_channel i of None \<Rightarrow> True | Some c \<Rightarrow> channels (links s) c = None)"

definition wide_hello :: "bytes \<Rightarrow> bool" where
  "wide_hello message \<longleftrightarrow> (case decode_header 2 message 0 of None \<Rightarrow> True | Some (r, header, n) \<Rightarrow>
     header ! 0 AND 0x00ffffff \<noteq> UA_MESSAGETYPE_HEL \<or>
     (case decode_words 5 \<lparr>dbuf = message, dpos = 8\<rparr> of None \<Rightarrow> True | Some (r, ws, st) \<Rightarrow> 28 \<le> unat (ws ! 1)))"

definition issues :: "('d, 'e, 's, 'q, 'p) environment \<Rightarrow> incoming \<Rightarrow> bool" where
  "issues E message \<longleftrightarrow> (case message of ErrorMessage error reason \<Rightarrow> False | Message messagetype requestId msg \<Rightarrow>
     messagetype = UA_MESSAGETYPE_OPN \<and> (case decode_open E msg of (r, n, t, request) \<Rightarrow> requestType request = UA_SECURITYTOKENREQUESTTYPE_ISSUE))"

fun allowed :: "('d, 'e, 's, 'q, 'p) environment \<Rightarrow> event \<Rightarrow> ('d, 'e, 's) UA_Server \<Rightarrow> bool" where
  "allowed E (Accepted malloc conf) s \<longleftrightarrow> 28 \<le> unat (sendBufferSize conf) \<and> (case malloc of None \<Rightarrow> True | Some k \<Rightarrow> connection_at s k = None)"
| "allowed E (First k i message) s \<longleftrightarrow> connection_at s k \<noteq> None \<and> connection_channel (links s) k = None \<and> fresh_addresses i s \<and>
     12 \<le> length message \<and> wide_hello message"
| "allowed E (Delivered c i message) s \<longleftrightarrow> (case channels (links s) c of None \<Rightarrow> False | Some ch \<Rightarrow> ch_connection ch \<noteq> None) \<and>
     fresh_addresses i s \<and> \<not> issues E message"
| "allowed E (Lost k) s \<longleftrightarrow> connection_at s k \<noteq> None"
| "allowed E (Cleanup malloc1 malloc2 clock) s \<longleftrightarrow> True"
| "allowed E Delayed s \<longleftrightarrow> True"

fun server_run :: "('d, 'e, 's, 'q, 'p) environment \<Rightarrow> event list \<Rightarrow> ('d, 'e, 's) UA_Server \<Rightarrow> (('d, 'e, 's) UA_Server \<times> effect list) option" where
  "server_run E [] s = Some (s, [])"
| "server_run E (e # es) s = do { (s, out) \<leftarrow> server_event E e s; (s, outs) \<leftarrow> server_run E es s; Some (s, out @ outs) }"

fun allowed_run :: "('d, 'e, 's, 'q, 'p) environment \<Rightarrow> event list \<Rightarrow> ('d, 'e, 's) UA_Server \<Rightarrow> bool" where
  "allowed_run E [] s \<longleftrightarrow> True"
| "allowed_run E (e # es) s \<longleftrightarrow> allowed E e s \<and> (case server_event E e s of None \<Rightarrow> True | Some (s, out) \<Rightarrow> allowed_run E es s)"

text \<open>A server as it starts.\<close>

definition empty_server :: "'s \<Rightarrow> ('d, 'e, 's) UA_Server" where
  "empty_server r = UA_SecureChannelManager_init (UA_SessionManager_init
     \<lparr>links = \<lparr>channels = Map.empty, connection_channel = (\<lambda>_. None), session_channel = (\<lambda>_. None), authenticationToken = (\<lambda>_. NODEID_NULL)\<rparr>,
      session_at = Map.empty, connection_at = Map.empty, connection_state = (\<lambda>_. UA_CONNECTION_CLOSED), cm_channels = [],
      currentChannelCount = 0, lastChannelId = 0, lastTokenId = 0, sm_sessions = [], currentSessionCount = 0, delayedCallbacks = [],
      rest_of_server = r\<rparr>)"

lemma empty_server_ok: "server_ok (empty_server r)"
  by (simp add: empty_server_def UA_SecureChannelManager_init_def UA_SessionManager_init_def server_parts kept_def buffers_ok_def
      peers_ok_def connections_agree_def sessions_agree_def)

section \<open>Messages\<close>

lemma fresh_addressesD: "fresh_addresses i s \<Longrightarrow> malloc_job i" "fresh_addresses i s \<Longrightarrow> \<forall>se. new_session i = Some se \<longrightarrow> session_at s se = None"
  "fresh_addresses i s \<Longrightarrow> \<forall>c. new_channel i = Some c \<longrightarrow> channels (links s) c = None"
  by (auto simp: fresh_addresses_def split: option.splits)

lemma delivered_ok:
  assumes ok: "server_ok s" and a: "allowed E (Delivered c i message) s"
  shows "safely (UA_Server_processSecureChannelMessage E i c message s) (\<lambda>(s', out). follows s s')"
proof -
  obtain ch k where ch: "channels (links s) c = Some ch" "ch_connection ch = Some k" using a by (auto split: option.splits)
  have f: "fresh_addresses i s" using a by simp
  have k: "connection_at s k \<noteq> None" using connection_of [OF server_okD(1) [OF ok] ch] server_okD(8) [OF ok, of k] by simp
  have c: "channels (links s) c \<noteq> None" using ch by simp
  show ?thesis
  proof (cases message)
    case (Message t requestId msg)
    have opn: "safely (processOPN E i k n msg s) (\<lambda>(s', out). follows s s')" if "t = UA_MESSAGETYPE_OPN" for n
      by (rule OPN_ok [OF ok k fresh_addressesD(1,3) [OF f]]) (use a that Message in \<open>auto simp: issues_def split: prod.splits\<close>)
    have m: "safely (processMSG E i c requestId msg s) (\<lambda>(s', out). follows s s')"
      by (rule safely_mono [OF MSG_ok [OF ok ch fresh_addressesD(2) [OF f]]]) (auto intro: message_follows)
    obtain s1 where "Service_CloseSecureChannel i c s = Some s1" "follows s s1" using close_service_ok [OF ok c, of i] by (auto elim!: safelyE)
    then show ?thesis using ch Message opn m follows_refl [OF ok] by (simp add: UA_Server_processSecureChannelMessage_def)
  qed (use ch follows_refl [OF ok] in \<open>simp add: UA_Server_processSecureChannelMessage_def\<close>)
qed

lemma words_position: "decode_words n st = Some (UA_STATUSCODE_GOOD, ws, st') \<Longrightarrow> dpos st' = dpos st + 4 * n"
proof (induction n arbitrary: st ws)
  case (Suc n)
  obtain r w st1 where 1: "UInt32_decodeBinary 0 st = Some (r, w, st1)" using UInt32_total by blast
  obtain r' ws' st2 where 2: "decode_words n st1 = Some (r', ws', st2)" using decode_words_total by blast
  have "r OR r' = UA_STATUSCODE_GOOD" "st' = st2" using Suc.prems 1 2 by auto
  moreover from this have "r = UA_STATUSCODE_GOOD" "r' = UA_STATUSCODE_GOOD"
    by (simp_all add: UA_STATUSCODE_GOOD_def or_eq_0_iff)
  moreover have "dpos st1 = dpos st + 4" if "r = UA_STATUSCODE_GOOD"
    using 1 that by (auto simp: UInt32_decodeBinary_def get_bytes_def status_codes split: if_splits)
  ultimately show ?case using Suc.IH [of st1 ws'] 2 by simp
qed simp

lemma header_position: "decode_header 2 message 0 = Some (UA_STATUSCODE_GOOD, h, n) \<Longrightarrow> n = 8"
  using words_position by (fastforce simp: decode_header_def bind_eq_Some_conv split: if_splits)

lemma first_ok:
  assumes ok: "server_ok s" and a: "allowed E (First k i message) s"
  shows "safely (process_without_channel E i k message s) (\<lambda>(s', out). follows s s')"
proof -
  have k: "connection_at s k \<noteq> None" and none: "connection_channel (links s) k = None" and f: "fresh_addresses i s" and l: "12 \<le> length message"
    and wide: "wide_hello message" using a by simp_all
  have close: "follows s (fst (close_connection k s))" by (rule close_connection_follows [OF ok])
  obtain r h n where h: "decode_header 2 message 0 = Some (r, h, n)" using decode_header_total by blast
  show ?thesis
  proof (cases "r = UA_STATUSCODE_GOOD")
    case False
    then show ?thesis using h close by (simp add: process_without_channel_def split_beta)
  next
    case True
    then have n: "n = 8" using header_position h by simp
    obtain r1 e st where e: "UInt32_decodeBinary 0 \<lparr>dbuf = message, dpos = 8\<rparr> = Some (r1, e, st)" using UInt32_total by blast
    obtain r2 reason st' where reason: "String_decodeBinary (malloc_strings i) NullArray st = Some (r2, reason, st')" using String_total by blast
    have hel: "safely (processHEL i k message 8 s) (\<lambda>(s', out). follows s s')" if "h ! 0 AND 0x00ffffff = UA_MESSAGETYPE_HEL"
      by (rule HEL_ok [OF ok k]) (use wide h that in \<open>auto simp: wide_hello_def\<close>)
    have opn: "safely (processOPN E i k m msg t) (\<lambda>(s', out). follows s s')" if t: "t = s \<or> t = fst (close_connection k s)" for t m msg
    proof -
      have ft: "follows s t" using t close follows_refl [OF ok] by auto
      have same: "connection_at t = connection_at s" "links t = links s" using t by (auto simp: close_connection_def)
      have "safely (processOPN E i k m msg t) (\<lambda>(s', out). follows t s')"
        by (rule OPN_ok [OF follows_ok [OF ft] _ fresh_addressesD(1) [OF f]]) (use k none fresh_addressesD(3) [OF f] same in auto)
      then show ?thesis by (rule safely_mono) (auto intro: follows_trans [OF ft])
    qed
    have opn': "safely (do { (s, out') \<leftarrow> processOPN E i k m msg t; Some (s, out @ out') }) (\<lambda>(s', out). follows s s')"
      if t: "t = s \<or> t = fst (close_connection k s)" for t m msg out
      by (rule safely_bind [OF opn [OF t]]) auto
    show ?thesis
      using h True n e reason hel close follows_refl [OF ok] l opn [of s] opn' [of s] opn' [of "fst (close_connection k s)"]
      by (auto simp: process_without_channel_def Let_def split_beta)
  qed
qed

section \<open>Connections, callbacks and the cleanup\<close>

lemma accepted_ok:
  assumes ok: "server_ok s" and a: "allowed E (Accepted malloc conf) s"
  shows "server_ok (snd (ServerNetworkLayerTCP_add malloc conf s))"
proof (cases malloc)
  case (Some k)
  then have k: "connection_at s k = None" and b: "28 \<le> unat (sendBufferSize conf)" using a by simp_all
  then have none: "connection_channel (links s) k = None" using server_okD(8) [OF ok, of k] by blast
  then have same: "(connection_channel (links s))(k := None) = connection_channel (links s)" by auto
  have "dom (connection_channel (links s)) \<subseteq> insert k (dom (connection_at s))" using ok by (auto simp: server_parts)
  then show ?thesis using ok Some b same by (auto simp: ServerNetworkLayerTCP_add_def server_parts buffers_ok_def)
qed (use ok in \<open>simp add: ServerNetworkLayerTCP_add_def\<close>)

lemma lost_ok:
  assumes ok: "server_ok s" and k: "connection_at s k \<noteq> None"
  shows "safely (detach_and_free k s) (\<lambda>s'. server_ok s' \<and> connection_at s' k = None)"
proof -
  obtain p where p: "UA_Connection_detachSecureChannel k (links s) = Some p" using detach_defined [OF server_okD(1) [OF ok]] by blast
  note keeps = detach_only_less [OF p] detach_keeps [OF p] detach_ok [OF server_okD(1) [OF ok] p]
  have "k \<notin> dom (connection_channel p)" using p by (auto simp: UA_Connection_detachSecureChannel_def bind_eq_Some_conv)
  moreover have "dom (connection_channel p) \<subseteq> dom (connection_at s)"
    by (rule order_trans [OF keeps(1)]) (use ok in \<open>simp add: server_parts\<close>)
  ultimately have "dom (connection_channel p) \<subseteq> dom (connection_at s) - {k}" by blast
  then have "dom (connection_channel p) \<subseteq> dom ((connection_at s)(k := None))" by simp
  then have "server_ok (s\<lparr>links := p, connection_at := (connection_at s)(k := None)\<rparr>)"
    using ok keeps by (auto simp: server_parts buffers_ok_def)
  then show ?thesis using k p by (auto simp: detach_and_free_def connection_jobs)
qed

lemma cleanup_ok:
  assumes ok: "server_ok s"
  shows "safely (UA_Server_cleanup malloc1 malloc2 clock s) (follows s)"
proof -
  have 1: "safely (UA_SessionManager_cleanupTimedOut malloc1 clock s) (follows s)"
    unfolding UA_SessionManager_cleanupTimedOut_def by (rule safely_mono [OF timed_out_sessions_ok [OF ok server_okD(3) [OF ok]]]) auto
  have 2: "safely (UA_SecureChannelManager_cleanupTimedOut malloc2 clock t) (follows s)" if t: "follows s t" for t
    unfolding UA_SecureChannelManager_cleanupTimedOut_def
    by (rule safely_mono [OF timed_out_channels_ok [OF follows_ok [OF t] server_okD(4) [OF follows_ok [OF t]]]]) (auto intro: follows_trans [OF t])
  show ?thesis unfolding UA_Server_cleanup_def by (rule safely_bind [OF 1 2])
qed

text \<open>The callbacks free the objects that wait, and nothing else.\<close>

lemma process_delayed_ok:
  assumes "server_ok s" and "distinct jobs" and "set jobs \<subseteq> set (delayedCallbacks s)"
  shows "safely (process_delayed jobs s) (\<lambda>s'. server_ok s' \<and> set (delayedCallbacks s') = set (delayedCallbacks s) - set jobs \<and>
    sm_sessions s' = sm_sessions s \<and> dom (session_at s') = dom (session_at s) - session_jobs jobs)"
  using assms
proof (induction jobs arbitrary: s)
  case (Cons job jobs)
  let ?s = "s\<lparr>delayedCallbacks := remove1 job (delayedCallbacks s)\<rparr>"
  have "safely (processJob job ?s) (\<lambda>s'. server_ok s' \<and> delayedCallbacks s' = remove1 job (delayedCallbacks s) \<and> sm_sessions s' = sm_sessions s \<and>
      dom (session_at s') = dom (session_at s) - session_jobs [job])"
  proof (cases job)
    case (RemoveSession se)
    then show ?thesis using safely_mono [OF remove_session_job_ok [OF Cons.prems(1), of se]] Cons.prems(3) by simp
  next
    case (RemoveChannel c)
    then show ?thesis using safely_mono [OF remove_channel_job_ok [OF Cons.prems(1), of c]] Cons.prems(3) by simp
  qed
  then obtain s1 where s1: "processJob job ?s = Some s1" "server_ok s1" "delayedCallbacks s1 = remove1 job (delayedCallbacks s)"
      "sm_sessions s1 = sm_sessions s" "dom (session_at s1) = dom (session_at s) - session_jobs [job]" by (auto elim!: safelyE)
  have d: "distinct (delayedCallbacks s)" by (rule server_okD(2) [OF Cons.prems(1)])
  have rest: "set (delayedCallbacks s1) = set (delayedCallbacks s) - {job}" using s1(3) d by (simp add: set_remove1_eq)
  have jobs: "session_jobs (job # jobs) = session_jobs [job] \<union> session_jobs jobs" by (cases job) simp_all
  have "set jobs \<subseteq> set (delayedCallbacks s1)" "distinct jobs" using Cons.prems(2,3) rest by auto
  then obtain s2 where s2: "process_delayed jobs s1 = Some s2" "server_ok s2" "set (delayedCallbacks s2) = set (delayedCallbacks s1) - set jobs"
      "sm_sessions s2 = sm_sessions s1" "dom (session_at s2) = dom (session_at s1) - session_jobs jobs"
    using Cons.IH [OF s1(2)] by (auto elim!: safelyE)
  have "dom (session_at s2) = dom (session_at s) - session_jobs (job # jobs)" "set (delayedCallbacks s2) = set (delayedCallbacks s) - set (job # jobs)"
    using s1(5) s2(3,5) rest jobs by auto
  then show ?case using s1(1,4) s2(1,2,4) by simp
qed (simp add: session_jobs_def)

lemma delayed_ok:
  assumes ok: "server_ok s"
  shows "safely (processDelayedCallbacks s) (\<lambda>s'. server_ok s' \<and> delayedCallbacks s' = [] \<and> sm_sessions s' = sm_sessions s \<and>
    dom (session_at s') = dom (session_at s) - session_jobs (delayedCallbacks s))"
  unfolding processDelayedCallbacks_def
  by (rule safely_mono [OF process_delayed_ok [OF ok server_okD(2) [OF ok]]]) auto

section \<open>Runs\<close>

lemma event_ok:
  assumes ok: "server_ok s" and a: "allowed E e s"
  shows "safely (server_event E e s) (\<lambda>(s', out). server_ok s')"
proof (cases e)
  case (Accepted malloc conf)
  then show ?thesis using accepted_ok [OF ok] a by simp
next
  case (First k i message)
  then have "safely (server_event E e s) (\<lambda>(s', out). follows s s')" using first_ok [OF ok] a by simp
  then show ?thesis by (rule safely_mono) (auto dest: follows_ok)
next
  case (Delivered c i message)
  then have "safely (server_event E e s) (\<lambda>(s', out). follows s s')" using delivered_ok [OF ok] a by simp
  then show ?thesis by (rule safely_mono) (auto dest: follows_ok)
next
  case (Lost k)
  then show ?thesis using lost_ok [OF ok, of k] a by (auto elim!: safelyE)
next
  case (Cleanup malloc1 malloc2 clock)
  then show ?thesis using cleanup_ok [OF ok, of malloc1 malloc2 clock] follows_ok by (auto elim!: safelyE)
next
  case Delayed
  then show ?thesis using delayed_ok [OF ok] by (auto elim!: safelyE)
qed

lemma run_ok:
  assumes "server_ok s" and "allowed_run E es s"
  shows "safely (server_run E es s) (\<lambda>(s', out). server_ok s')"
  using assms
proof (induction es arbitrary: s)
  case (Cons e es)
  obtain s1 out where s1: "server_event E e s = Some (s1, out)" "server_ok s1"
    using event_ok [OF Cons.prems(1), of E e] Cons.prems(2) by (auto elim!: safelyE)
  obtain s2 outs where "server_run E es s1 = Some (s2, outs)" "server_ok s2"
    using Cons.IH [OF s1(2)] Cons.prems(2) s1(1) by (auto elim!: safelyE)
  then show ?case using s1 by simp
qed simp

end
