(* ===== verification/UAServerSessions.thy ===== *)
theory UAServerSessions
  imports UAServerRun
begin

text \<open>
  What the handlers do to the list of sessions and to the flags that say which of them are activated: the list never becomes longer
  than the configuration allows, and a session that is activated has passed the access control.
\<close>

section \<open>Handlers that leave the sessions alone\<close>

definition same_sessions :: "('d, 'e, 's) UA_Server \<Rightarrow> ('d, 'e, 's) UA_Server \<Rightarrow> bool" where
  "same_sessions s s' \<longleftrightarrow> sm_sessions s' = sm_sessions s \<and> currentSessionCount s' = currentSessionCount s"

definition untouched :: "('d, 'e, 's) UA_Server \<Rightarrow> ('d, 'e, 's) UA_Server \<Rightarrow> bool" where
  "untouched s s' \<longleftrightarrow> same_sessions s s' \<and> session_at s' = session_at s"

lemma same_sessions_refl [simp]: "same_sessions s s"
  by (simp add: same_sessions_def)

lemma same_sessions_trans: "same_sessions s s' \<Longrightarrow> same_sessions s' s'' \<Longrightarrow> same_sessions s s''"
  by (simp add: same_sessions_def)

lemma untouched_refl [simp]: "untouched s s"
  by (simp add: untouched_def)

lemma untouched_trans: "untouched s s' \<Longrightarrow> untouched s' s'' \<Longrightarrow> untouched s s''"
  by (auto simp: untouched_def intro: same_sessions_trans)

lemma untouched_updates [simp]:
  "untouched s (set_link c ch s)" "untouched s (s\<lparr>links := p\<rparr>)" "untouched s (fst (close_connection k s))"
  "untouched s (s\<lparr>connection_at := ca, connection_state := cs\<rparr>)" "untouched s (s\<lparr>rest_of_server := r\<rparr>)"
  "untouched s (s\<lparr>delayedCallbacks := d\<rparr>)" "same_sessions s (set_session se x s)"
  by (simp_all add: untouched_def same_sessions_def set_link_def close_connection_def set_session_def)

lemma close_connection_untouched: "close_connection k s = (s', out) \<Longrightarrow> untouched s s'"
  using untouched_updates(3) [of s k] by simp

lemma send_reply_untouched: "send_reply E c requestId handle reply s = Some (s', out) \<Longrightarrow> untouched s s'"
  by (auto simp: send_reply_def bind_eq_Some_conv Let_def split_beta split: option.splits)

lemma sendError_untouched: "sendError E c msg offset service requestId error s = Some (s', out) \<Longrightarrow> untouched s s'"
  by (auto simp: sendError_def split_beta split: if_splits dest: send_reply_untouched)

lemma removeSecureChannel_untouched: "removeSecureChannel malloc c s = (r, s') \<Longrightarrow> untouched s s'"
  by (auto simp: removeSecureChannel_def UA_Server_delayedCallback_def untouched_def same_sessions_def status_codes split: if_splits)

lemma removeSecureChannel_untouched': "untouched s (snd (removeSecureChannel malloc c s))"
  using removeSecureChannel_untouched by (metis prod.collapse)

lemma open_untouched:
  assumes "Service_OpenSecureChannel E i k request s = Some (r, t, s')"
  shows "untouched s s'"
proof -
  have purge: "untouched s s1" if "purgeFirstChannelWithoutSession m s = Some (room, s1)" for m room s1
    using that removeSecureChannel_untouched' by (auto simp: purgeFirstChannelWithoutSession_def bind_eq_Some_conv Let_def split: option.splits if_splits)
  show ?thesis using assms purge
    by (fastforce simp: Service_OpenSecureChannel_def UA_SecureChannelManager_open_def UA_SecureChannelManager_renew_def Let_def bind_eq_Some_conv
        untouched_def same_sessions_def split: if_splits option.splits)
qed

lemma close_untouched: "Service_CloseSecureChannel i c s = Some s' \<Longrightarrow> untouched s s'"
  by (auto simp: Service_CloseSecureChannel_def UA_SecureChannelManager_close_def bind_eq_Some_conv split_beta split: option.splits
      intro: removeSecureChannel_untouched')

lemma OPN_untouched:
  assumes "processOPN E i k n msg s = Some (s', out)"
  shows "untouched s s'"
proof -
  obtain conn wrong where conn: "connection_at s k = Some conn" and
    wrong: "(case connection_channel (links s) k of None \<Rightarrow> Some (n \<noteq> 0)
      | Some c \<Rightarrow> do { ch \<leftarrow> channels (links s) c; Some (n \<noteq> channelId (securityToken ch)) }) = Some wrong"
    using assms by (auto simp: processOPN_def bind_eq_Some_conv)
  obtain r2 sequence ty request where d: "decode_open E msg = (r2, sequence, ty, request)" by (metis prod_cases4)
  have closed: "untouched s t" if "Some (close_connection k s1) = Some (t, out)" "untouched s s1" for s1 t
    using that close_connection_untouched untouched_trans by fastforce
  show ?thesis
  proof (cases "(if connection_state s k \<noteq> UA_CONNECTION_ESTABLISHED \<or> wrong then UA_STATUSCODE_BADCOMMUNICATIONERROR else UA_STATUSCODE_GOOD)
      OR r2 \<noteq> UA_STATUSCODE_GOOD \<or> ty \<noteq> 446")
    case True
    then show ?thesis using assms conn wrong d closed [of s s'] by (simp add: processOPN_def)
  next
    case False
    then obtain status token s1 where s1: "Service_OpenSecureChannel E i k request s = Some (status, token, s1)"
      using assms conn wrong d by (auto simp: processOPN_def bind_eq_Some_conv)
    have u: "untouched s s1" by (rule open_untouched [OF s1])
    have ul: "untouched s (set_link c ch s1)" for c ch by (rule untouched_trans [OF u untouched_updates(1)])
    show ?thesis
    proof (cases "connection_channel (links s1) k")
      case None
      then show ?thesis using assms conn wrong d False s1 closed [OF _ u, of s'] by (simp add: processOPN_def)
    next
      case (Some c)
      then obtain ch where ch: "channels (links s1) c = Some ch"
        using assms conn wrong d False s1 by (auto simp: processOPN_def bind_eq_Some_conv)
      show ?thesis using assms conn wrong d False s1 Some ch ul closed [OF _ ul, of _ _ s']
        by (auto simp: processOPN_def Let_def split_beta split: if_splits)
    qed
  qed
qed

lemma HEL_untouched: "processHEL i k msg offset s = Some (s', out) \<Longrightarrow> untouched s s'"
  by (auto simp: processHEL_answer Let_def bind_eq_Some_conv split_beta split: if_splits dest!: close_connection_untouched)

lemma first_untouched:
  assumes "process_without_channel E i k message s = Some (s', out)"
  shows "untouched s s'"
  using assms
  by (auto simp: process_without_channel_def Let_def bind_eq_Some_conv split_beta split: if_splits
      dest!: close_connection_untouched HEL_untouched OPN_untouched intro: untouched_trans untouched_trans [OF untouched_updates(3)])

lemma timed_out_channels_untouched: "timed_out_channels malloc now cs s = Some s' \<Longrightarrow> untouched s s'"
proof (induction cs arbitrary: s)
  case (Cons c cs)
  then show ?case
    by (auto simp: bind_eq_Some_conv split: if_splits intro: untouched_trans [OF removeSecureChannel_untouched'] untouched_trans [OF untouched_updates(2)])
qed simp

section \<open>The number of sessions\<close>

definition bounded :: "nat \<Rightarrow> ('d, 'e, 's) UA_Server \<Rightarrow> bool" where
  "bounded m s \<longleftrightarrow> currentSessionCount s = of_nat (length (sm_sessions s)) \<and> length (sm_sessions s) \<le> m"

lemma bounded_same: "same_sessions s s' \<Longrightarrow> bounded m s \<Longrightarrow> bounded m s'"
  by (simp add: bounded_def same_sessions_def)

lemma untouched_bounded: "untouched s s' \<Longrightarrow> bounded m s \<Longrightarrow> bounded m s'"
  using bounded_same by (auto simp: untouched_def)

lemma removeSession_bounded:
  assumes "removeSession malloc se s = Some (r, s')" and se: "se \<in> set (sm_sessions s)" and b: "bounded m s"
  shows "bounded m s'"
proof -
  have "(of_nat (length (remove1 se (sm_sessions s))) :: u32) = of_nat (length (sm_sessions s)) + (- 1)"
    using se length_pos_if_in_set [OF se] by (simp add: length_remove1 of_nat_diff Suc_le_eq)
  moreover have "length (remove1 se (sm_sessions s)) \<le> m" using b by (auto simp: bounded_def length_remove1)
  ultimately show ?thesis using assms(1) b
    by (auto simp: removeSession_def UA_Server_delayedCallback_def bind_eq_Some_conv bounded_def set_session_def status_codes split: if_splits prod.splits)
qed

lemma token_in: "session_with_token token ses s = Some (Some se) \<Longrightarrow> se \<in> set ses"
  by (induction ses) (auto split: if_splits)

lemma remove_by_token_bounded:
  "UA_SessionManager_removeSession malloc token s = Some (r, s') \<Longrightarrow> bounded m s \<Longrightarrow> bounded m s'"
  using removeSession_bounded token_in by (fastforce simp: UA_SessionManager_removeSession_def bind_eq_Some_conv split: option.splits)

text \<open>The counter has 32 bits, the limit 16.\<close>

lemma createSession_bounded:
  assumes "UA_SessionManager_createSession D config entry guid1 guid2 now t s = (r, se, s')" and b: "bounded (unat (maxSessions config)) s"
  shows "bounded (unat (maxSessions config)) s'"
proof -
  let ?n = "length (sm_sessions s)"
  have n: "?n \<le> unat (maxSessions config)" "currentSessionCount s = of_nat ?n" using b by (simp_all add: bounded_def)
  have "unat (maxSessions config) < 2 ^ 16" using unsigned_less [of "maxSessions config"] by simp
  then have l: "unat (maxSessions config) < 2 ^ 32" by simp
  then have u: "unat (currentSessionCount s) = ?n" using n by (simp add: unsigned_of_nat take_bit_nat_eq_self)
  have m: "unat (ucast (maxSessions config) :: u32) = unat (maxSessions config)" using l by (simp add: unsigned_ucast_eq take_bit_nat_eq_self)
  have "?n < unat (maxSessions config)" if "\<not> ucast (maxSessions config) \<le> currentSessionCount s"
    using that u m by (simp add: word_le_nat_alt)
  then show ?thesis using assms n by (auto simp: UA_SessionManager_createSession_def Let_def bounded_def set_session_def add.commute split: if_splits option.splits)
qed

lemma create_session_bounded:
  assumes "create_session E i c request s = Some (s', reply)" and "bounded (unat (maxSessions (config_of E))) s"
  shows "bounded (unat (maxSessions (config_of E))) s'"
  using assms
  by (auto simp: create_session_def Let_def bind_eq_Some_conv split: if_splits option.splits prod.splits
      dest!: createSession_bounded dest: remove_by_token_bounded bounded_same [OF untouched_updates(7)])

lemma activate_session_same: "activate_session E i c se request s = Some (s', reply) \<Longrightarrow> same_sessions s s'"
  by (auto simp: activate_session_def bind_eq_Some_conv same_sessions_def set_session_def split: if_splits)

lemma close_session_bounded: "close_session i se s = Some (s', reply) \<Longrightarrow> bounded m s \<Longrightarrow> bounded m s'"
  by (auto simp: close_session_def bind_eq_Some_conv dest: remove_by_token_bounded)

lemma call_anonymous_same: "call_anonymous E service c requestId request s = Some (s', out) \<Longrightarrow> same_sessions s s'"
  by (auto simp: call_anonymous_def Let_def bind_eq_Some_conv untouched_def same_sessions_def split: prod.splits dest!: send_reply_untouched)

lemma call_with_session_bounded:
  assumes "call_with_session E i service c se requestId request s = Some (s', out)" and "bounded m s"
  shows "bounded m s'"
  using assms
  by (auto simp: call_with_session_def Let_def bind_eq_Some_conv split_beta split: if_splits dest!: send_reply_untouched close_session_bounded [where m = m])
    (auto simp: untouched_def same_sessions_def bounded_def set_session_def)

lemma process_request_bounded:
  assumes "process_request E i service sessionRequired c requestId request msg requestPos s = Some (s', out)"
    and "bounded (unat (maxSessions (config_of E))) s"
  shows "bounded (unat (maxSessions (config_of E))) s'"
  using assms
  by (auto simp: process_request_def bind_eq_Some_conv split: if_splits option.splits
      dest!: create_session_bounded send_reply_untouched sendError_untouched activate_session_same call_anonymous_same
      dest: call_with_session_bounded remove_by_token_bounded untouched_bounded bounded_same)

lemma MSG_bounded:
  assumes "processMSG E i c requestId msg s = Some (s', out)" and "bounded (unat (maxSessions (config_of E))) s"
  shows "bounded (unat (maxSessions (config_of E))) s'"
  using assms
  by (auto simp: processMSG_def Let_def bind_eq_Some_conv split: if_splits option.splits prod.splits
      dest!: sendError_untouched dest: process_request_bounded untouched_bounded)

section \<open>Activated sessions\<close>

text \<open>Every activated session has passed the access control with some request.\<close>

definition logged_in :: "('d, 'e, 's, 'q, 'p) environment \<Rightarrow> ('d, 'e, 's) UA_Server \<Rightarrow> bool" where
  "logged_in E s \<longleftrightarrow> (\<forall>se x. session_at s se = Some x \<longrightarrow> activated x \<longrightarrow>
     (\<exists>request. activateSession E (sessionId x) request = UA_STATUSCODE_GOOD))"

lemma no_login_logged_in: "no_login s s' \<Longrightarrow> logged_in E s \<Longrightarrow> logged_in E s'"
  unfolding no_login_def logged_in_def by metis

lemma untouched_no_login: "untouched s s' \<Longrightarrow> no_login s s'"
  by (simp add: untouched_def no_login_same)

lemma login_logged_in: "login E request s s' \<Longrightarrow> logged_in E s \<Longrightarrow> logged_in E s'"
  unfolding login_def logged_in_def by metis

lemma message_logged_in: "message_handled E i c msg s (s', out) \<Longrightarrow> logged_in E s \<Longrightarrow> logged_in E s'"
  by (auto simp: message_handled_def request_handled_def quiet_def intro: no_login_logged_in login_logged_in)

lemma timed_out_sessions_no_login: "timed_out_sessions malloc now ses s = Some s' \<Longrightarrow> no_login s s'"
proof (induction ses arbitrary: s)
  case (Cons se ses)
  have "no_login s s1" if "removeSession (malloc se) se s = Some (r, s1)" for r s1
    using removeSession_activates_none [OF that] by (auto simp: no_login_def)
  then show ?case using Cons by (auto simp: bind_eq_Some_conv split: if_splits intro: no_login_trans)
qed (simp add: no_login_same)

lemma removeSessionCallback_no_login: "removeSessionCallback se s = Some s' \<Longrightarrow> no_login s s' \<and> same_sessions s s'"
  by (auto simp: removeSessionCallback_def UA_Session_deleteMembersCleanup_def bind_eq_Some_conv set_session_def no_login_def same_sessions_def
      split: if_splits)

lemma removeSecureChannelCallback_untouched: "removeSecureChannelCallback c s = Some s' \<Longrightarrow> untouched s s'"
  by (auto simp: removeSecureChannelCallback_def bind_eq_Some_conv split: if_splits)

lemma processJob_no_login: "processJob job s = Some s' \<Longrightarrow> no_login s s' \<and> same_sessions s s'"
  by (cases job) (auto dest!: removeSessionCallback_no_login removeSecureChannelCallback_untouched intro: no_login_same simp: untouched_def)

lemma process_delayed_no_login: "process_delayed jobs s = Some s' \<Longrightarrow> no_login s s' \<and> same_sessions s s'"
proof (induction jobs arbitrary: s)
  case (Cons job jobs)
  then obtain s1 where 1: "processJob job (s\<lparr>delayedCallbacks := remove1 job (delayedCallbacks s)\<rparr>) = Some s1" "process_delayed jobs s1 = Some s'"
    by (auto simp: bind_eq_Some_conv)
  have "no_login s s1" "same_sessions s s1" using processJob_no_login [OF 1(1)] by (auto simp: no_login_def same_sessions_def)
  then show ?case using Cons.IH [OF 1(2)] no_login_trans same_sessions_trans by blast
qed (simp add: no_login_same)

section \<open>Runs\<close>

definition watched :: "('d, 'e, 's, 'q, 'p) environment \<Rightarrow> ('d, 'e, 's) UA_Server \<Rightarrow> bool" where
  "watched E s \<longleftrightarrow> server_ok s \<and> bounded (unat (maxSessions (config_of E))) s \<and> logged_in E s"

lemma watched_empty: "watched E (empty_server r)"
  by (simp add: watched_def empty_server_ok) (simp add: empty_server_def UA_SecureChannelManager_init_def UA_SessionManager_init_def bounded_def logged_in_def)

lemma untouched_watched: "untouched s s' \<Longrightarrow> watched E s \<Longrightarrow> server_ok s' \<Longrightarrow> watched E s'"
  using untouched_bounded no_login_logged_in [OF untouched_no_login] unfolding watched_def by blast

lemma delivered_watched:
  assumes w: "watched E s" and a: "allowed E (Delivered c i message) s"
    and d: "UA_Server_processSecureChannelMessage E i c message s = Some (s', out)"
  shows "watched E s'"
proof -
  have ok: "server_ok s" using w by (simp add: watched_def)
  have ok': "server_ok s'" using delivered_ok [OF ok a] d follows_ok by (auto elim!: safelyE)
  obtain ch k where ch: "channels (links s) c = Some ch" "ch_connection ch = Some k" using a by (auto split: option.splits)
  show ?thesis
  proof (cases message)
    case (ErrorMessage error reason)
    then show ?thesis using d ch w by (simp add: UA_Server_processSecureChannelMessage_def)
  next
    case (Message t requestId msg)
    then consider (opn) "processOPN E i k (channelId (securityToken ch)) msg s = Some (s', out)" | (msg) "processMSG E i c requestId msg s = Some (s', out)"
      | (clo) "Service_CloseSecureChannel i c s = Some s'" | (other) "s' = s"
      using d ch by (auto simp: UA_Server_processSecureChannelMessage_def bind_eq_Some_conv split: if_splits)
    then show ?thesis
    proof cases
      case msg
      have "message_handled E i c msg s (s', out)"
        using MSG_ok [OF ok ch fresh_addressesD(2), of i E requestId msg] a msg by (auto elim!: safelyE)
      then show ?thesis using MSG_bounded [OF msg] w ok' message_logged_in by (auto simp: watched_def)
    next
      case opn
      show ?thesis by (rule untouched_watched [OF OPN_untouched [OF opn] w ok'])
    next
      case clo
      show ?thesis by (rule untouched_watched [OF close_untouched [OF clo] w ok'])
    qed (use w in simp)
  qed
qed

lemma cleanup_watched:
  assumes w: "watched E s" and d: "UA_Server_cleanup malloc1 malloc2 clock s = Some s'"
  shows "watched E s'"
proof -
  have ok: "server_ok s" using w by (simp add: watched_def)
  obtain s1 where s1: "timed_out_sessions malloc1 clock (sm_sessions s) s = Some s1" "timed_out_channels malloc2 clock (cm_channels s1) s1 = Some s'"
    using d by (auto simp: UA_Server_cleanup_def UA_SessionManager_cleanupTimedOut_def UA_SecureChannelManager_cleanupTimedOut_def bind_eq_Some_conv)
  have f: "follows s s1" "sm_sessions s1 = filter (\<lambda>se. \<not> (se \<in> set (sm_sessions s) \<and> expired clock s se \<and> malloc1 se)) (sm_sessions s)"
    using timed_out_sessions_ok [OF ok server_okD(3) [OF ok], of malloc1 clock] s1(1) by (auto elim!: safelyE)
  have "bounded m s1" if "bounded m s" for m
    using that follows_ok [OF f(1)] f(2) length_filter_le le_trans unfolding bounded_def server_parts kept_def by metis
  then have "watched E s1" using w follows_ok [OF f(1)] no_login_logged_in [OF timed_out_sessions_no_login [OF s1(1)], of E] by (simp add: watched_def)
  moreover have "server_ok s'" using cleanup_ok [OF ok, of malloc1 malloc2 clock] d follows_ok by (auto elim!: safelyE)
  ultimately show ?thesis using untouched_watched [OF timed_out_channels_untouched [OF s1(2)]] by blast
qed

lemma event_watched:
  assumes w: "watched E s" and a: "allowed E e s" and d: "server_event E e s = Some (s', out)"
  shows "watched E s'"
proof -
  have ok: "server_ok s" using w by (simp add: watched_def)
  have ok': "server_ok s'" using event_ok [OF ok a] d by (auto elim!: safelyE)
  show ?thesis
  proof (cases e)
    case (Accepted malloc conf)
    have "untouched s s'" using d Accepted by (auto simp: ServerNetworkLayerTCP_add_def untouched_def same_sessions_def split: option.splits)
    then show ?thesis by (rule untouched_watched [OF _ w ok'])
  next
    case (First k i message)
    then show ?thesis using d by (auto intro: untouched_watched [OF first_untouched w ok'])
  next
    case (Delivered c i message)
    then show ?thesis using d a delivered_watched [OF w, of c i message] by simp
  next
    case (Lost k)
    have "untouched s s'" using d Lost by (auto simp: detach_and_free_def connection_jobs bind_eq_Some_conv untouched_def same_sessions_def)
    then show ?thesis by (rule untouched_watched [OF _ w ok'])
  next
    case (Cleanup malloc1 malloc2 clock)
    then show ?thesis using d cleanup_watched [OF w] by (auto simp: bind_eq_Some_conv)
  next
    case Delayed
    then have "no_login s s'" "same_sessions s s'" using d process_delayed_no_login by (auto simp: processDelayedCallbacks_def bind_eq_Some_conv)
    then show ?thesis using w ok' bounded_same no_login_logged_in unfolding watched_def by blast
  qed
qed

lemma run_watched:
  assumes "watched E s" and "allowed_run E es s" and "server_run E es s = Some (s', out)"
  shows "watched E s'"
  using assms
proof (induction es arbitrary: s out)
  case (Cons e es)
  then show ?case using event_watched by (fastforce simp: bind_eq_Some_conv)
qed simp

end
