(* ===== verification/ServerProperties.thy ===== *)
theory ServerProperties
  imports UAServerSessions
begin

text \<open>
  The properties of the server as a whole: what follows from the invariant for every run, who may call a service, what happens
  to sessions whose time is over, and two messages with which a client makes the server leave the memory it owns.
\<close>

section \<open>An example\<close>

text \<open>Durations are natural numbers. A request is its token, which a byte of the message selects; the access control accepts
  any session.\<close>

definition example_guid :: UA_Guid where
  "example_guid = \<lparr>data1 = 7, data2 = 1, data3 = 2, data4 = [1, 2, 3, 4, 5, 6, 7, 8]\<rparr>"

definition example_env :: "(nat, unit, nat, UA_NodeId, unit) environment" where
  "example_env = \<lparr>
     doubles_of = \<lparr>less_eq_double = (\<le>), positive_double = (\<lambda>d. 0 < d), msec_to_datetime = (\<lambda>d. of_nat d), zero_double = 0\<rparr>,
     config_of = \<lparr>maxSecureChannels = 2, maxSecurityTokenLifetime = 600000, maxSessions = 1, maxSessionTimeout = 50\<rparr>,
     decode_request = (\<lambda>sv msg pos. (UA_STATUSCODE_GOOD, if drop pos msg = [1] then UA_NODEID_GUID 1 example_guid else NODEID_NULL)),
     decode_request_header = (\<lambda>msg pos. (UA_STATUSCODE_GOOD, 1)),
     decode_open = (\<lambda>msg. (UA_STATUSCODE_GOOD, 50, 446, \<lparr>requestType = UA_SECURITYTOKENREQUESTTYPE_ISSUE, securityMode = UA_MESSAGESECURITYMODE_NONE, requestedLifetime = 0\<rparr>)),
     encode_open = (\<lambda>n number token status. (UA_STATUSCODE_GOOD, [0x4F])),
     request_token = (\<lambda>q. q), request_handle = (\<lambda>q. 1), requestedSessionTimeout = (\<lambda>q. 20), request_maxResponseMessageSize = (\<lambda>q. 0),
     request_sessionName = (\<lambda>q. []), activateSession = (\<lambda>se q. UA_STATUSCODE_GOOD),
     call_service = (\<lambda>sv x q r. (objects x, r + 1, ())),
     sendBinaryMessage = (\<lambda>conn number requestId handle reply. (number + 1, [[case reply of Fault sv r \<Rightarrow> 0 | _ \<Rightarrow> 1]]))\<rparr>"

text \<open>What the environment gives at time \<open>t\<close>, with the addresses of a new session and a new channel.\<close>

definition example_inputs :: "64 word \<Rightarrow> nat \<Rightarrow> nat \<Rightarrow> inputs" where
  "example_inputs t se c = \<lparr>wall_clock = t, monotonic_clock = t, new_session = Some se, new_channel = Some c, random_id = guid_zero,
     random_token = example_guid, malloc_job = True, malloc_entry = True, malloc_strings = (\<lambda>_. True), copy_endpoints = UA_STATUSCODE_GOOD,
     copy_description = UA_STATUSCODE_GOOD, copy_name = UA_STATUSCODE_GOOD, copy_certificate = UA_STATUSCODE_GOOD, has_endpoints = True,
     send_buffer = UA_STATUSCODE_GOOD\<rparr>"

definition example_conf :: UA_ConnectionConfig where
  "example_conf = \<lparr>protocolVersion = 0, sendBufferSize = 512, recvBufferSize = 512, maxMessageSize = 0, maxChunkCount = 0\<rparr>"

definition example_hello :: "u32 \<Rightarrow> bytes" where
  "example_hello n = words_bytes [UA_MESSAGETYPE_HEL, 32, 0, n, 512, 0, 0, 0]"

definition example_request :: "u16 \<Rightarrow> u8 \<Rightarrow> incoming" where
  "example_request number token = Message UA_MESSAGETYPE_MSG 9 ([1, 0] @ le_bytes 2 number @ [token])"

definition example_read :: bytes where
  "example_read = [1, 0, 0x77, 2, 1]"

text \<open>A client connects, opens a channel, creates a session and activates it, reads, and goes away.\<close>

definition example_run :: "event list" where
  "example_run =
     [Accepted (Some 5) example_conf, First 5 (example_inputs 0 20 10) (example_hello 512),
      First 5 (example_inputs 1 20 10) (words_bytes [UA_MESSAGETYPE_OPN, 12, 0]),
      Delivered 10 (example_inputs 2 20 11) (example_request 461 0), Delivered 10 (example_inputs 3 21 11) (example_request 467 1),
      Delivered 10 (example_inputs 4 21 11) (Message UA_MESSAGETYPE_MSG 9 example_read), Lost 5, Cleanup (\<lambda>_. True) (\<lambda>_. True) 25, Delayed]"


lemma example_allowed: "allowed_run example_env (take 5 example_run) (empty_server 0)"
  by code_simp

text \<open>The state after the session has been activated, and what becomes of the request to read.\<close>

lemma example_activated:
  "map_option (\<lambda>(s, out). (map_option ch_connection (channels (links s) 10), session_at s 21 = None, map_option activated (session_at s 20), sm_sessions s,
      map_option snd (processMSG example_env (example_inputs 4 21 11) 10 9 example_read s)))
     (server_run example_env (take 5 example_run) (empty_server 0)) =
   Some (Some (Some 5), True, Some True, [20], Some [Called Service_Read (Some 20), Send 5 [1]])"
  by code_simp

section \<open>Runs\<close>

text \<open>C2: Whatever clients and the network do, as long as the events are allowed, the server follows no pointer to memory that has been
  freed and fails no assertion, from its start on: every run has a result. In the state it leads to, the counters of sessions and channels are
  the lengths of the lists, an object exists exactly when it is listed or waits to be freed and never both, and connections, channels and sessions point to each other
  or nowhere.\<close>

theorem server_run_defined:
  assumes "allowed_run E es (empty_server r)"
  shows "\<exists>s out. server_run E es (empty_server r) = Some (s, out) \<and>
     distinct (sm_sessions s) \<and> currentSessionCount s = of_nat (length (sm_sessions s)) \<and>
     distinct (cm_channels s) \<and> currentChannelCount s = of_nat (length (cm_channels s)) \<and> distinct (delayedCallbacks s) \<and>
     (\<forall>se. session_at s se \<noteq> None \<longleftrightarrow> (se \<in> set (sm_sessions s)) \<noteq> (RemoveSession se \<in> set (delayedCallbacks s))) \<and>
     (\<forall>c. channels (links s) c \<noteq> None \<longleftrightarrow> (c \<in> set (cm_channels s)) \<noteq> (RemoveChannel c \<in> set (delayedCallbacks s))) \<and>
     peers_ok (links s) \<and> (\<forall>se. session_channel (links s) se \<noteq> None \<longrightarrow> session_at s se \<noteq> None) \<and>
     (\<forall>k. connection_channel (links s) k \<noteq> None \<longrightarrow> connection_at s k \<noteq> None)"
proof -
  obtain s out where s: "server_run E es (empty_server r) = Some (s, out)" "server_ok s"
    using run_ok [OF empty_server_ok assms] by (auto elim!: safelyE)
  note parts = s(2) [unfolded server_parts kept_def session_jobs_def channel_jobs_def]
  have "(session_at s se \<noteq> None) = ((se \<in> set (sm_sessions s)) \<noteq> (RemoveSession se \<in> set (delayedCallbacks s)))" for se
    using parts by blast
  moreover have "(channels (links s) c \<noteq> None) = ((c \<in> set (cm_channels s)) \<noteq> (RemoveChannel c \<in> set (delayedCallbacks s)))" for c
    using parts by blast
  moreover have "session_channel (links s) se \<noteq> None \<longrightarrow> session_at s se \<noteq> None" "connection_channel (links s) k \<noteq> None \<longrightarrow> connection_at s k \<noteq> None" for se k
    using server_okD(7,8) [OF s(2)] by blast+
  ultimately show ?thesis using s(1) parts by (intro exI [of _ s] exI [of _ out]) simp
qed

theorem server_run_defined_witness:
  "\<exists>s out. server_run example_env (take 5 example_run) (empty_server 0) = Some (s, out) \<and> peers_ok (links s) \<and>
     currentSessionCount s = of_nat (length (sm_sessions s))"
  using server_run_defined [OF example_allowed] by blast

text \<open>C14: The server never keeps more sessions than its configuration allows, and the counter that it compares with the limit is the
  number of sessions.\<close>

theorem sessions_bounded:
  assumes "allowed_run E es (empty_server r)" and "server_run E es (empty_server r) = Some (s, out)"
  shows "length (sm_sessions s) \<le> unat (maxSessions (config_of E)) \<and> unat (currentSessionCount s) = length (sm_sessions s)"
proof -
  have b: "bounded (unat (maxSessions (config_of E))) s" using run_watched [OF watched_empty assms] by (simp add: watched_def)
  have "unat (maxSessions (config_of E)) < 2 ^ 16" using unsigned_less [of "maxSessions (config_of E)"] by simp
  then have "length (sm_sessions s) < 2 ^ 32" using b by (simp add: bounded_def)
  then show ?thesis using b by (simp add: bounded_def unsigned_of_nat take_bit_nat_eq_self)
qed

theorem sessions_bounded_witness:
  "\<exists>s out. server_run example_env (take 5 example_run) (empty_server 0) = Some (s, out) \<and> sm_sessions s = [20] \<and>
     length (sm_sessions s) \<le> unat (maxSessions (config_of example_env))"
proof -
  obtain s out where s: "server_run example_env (take 5 example_run) (empty_server 0) = Some (s, out)" "sm_sessions s = [20]"
    using example_activated by auto
  then show ?thesis using sessions_bounded [OF example_allowed s(1)] by blast
qed

text \<open>C7: A session is activated only after the access control has accepted a request for it: in every state of a run, each activated
  session has such a request. No other message, no cleanup and no callback activates a session.\<close>

theorem activated_logged_in:
  assumes "allowed_run E es (empty_server r)" and "server_run E es (empty_server r) = Some (s, out)"
    and "session_at s se = Some x" and "activated x"
  shows "\<exists>request. activateSession E (sessionId x) request = UA_STATUSCODE_GOOD"
  using run_watched [OF watched_empty assms(1,2)] assms(3,4) by (auto simp: watched_def logged_in_def)

theorem activated_logged_in_witness:
  "\<exists>s out x. server_run example_env (take 5 example_run) (empty_server 0) = Some (s, out) \<and> session_at s 20 = Some x \<and> activated x \<and>
     (\<exists>request. activateSession example_env (sessionId x) request = UA_STATUSCODE_GOOD)"
proof -
  obtain s out x where s: "server_run example_env (take 5 example_run) (empty_server 0) = Some (s, out)" "session_at s 20 = Some x" "activated x"
    using example_activated by auto
  then show ?thesis using activated_logged_in [OF example_allowed s] by blast
qed

section \<open>Requests\<close>

text \<open>C3: The treatment of a request in any state of the invariant follows no pointer to freed memory, and it calls no other service than the
  one that the table has for the number in the node identifier that the message begins with, with the request that the decoder of this
  service finds behind the identifier: without a session only when the service needs none, and otherwise for a session that exists, has the
  token of the request, is bound to the channel on which the request came and, where the service needs a session, is activated. When no
  service is called, what the services use is not changed. The channel has a connection, as for every message that comes from it.\<close>

theorem service_needs_session:
  assumes "server_ok s" and "channels (links s) c = Some ch" and "ch_connection ch = Some k"
    and "\<forall>se. new_session i = Some se \<longrightarrow> session_at s se = None"
  shows "\<exists>s' out. processMSG E i c requestId msg s = Some (s', out) \<and>
     (\<forall>sv who. Called sv who \<in> set out \<longrightarrow> (\<exists>typ st request sessionRequired.
        NodeId_decodeBinary (malloc_strings i) \<lparr>namespaceIndex = 0, ident = NUMERIC 0\<rparr> \<lparr>dbuf = msg, dpos = 0\<rparr> = Some (UA_STATUSCODE_GOOD, typ, st) \<and>
        getServicePointers (case ident typ of NUMERIC n \<Rightarrow> n | _ \<Rightarrow> 0) = Some (sv, sessionRequired) \<and>
        decode_request E sv msg (dpos st) = (UA_STATUSCODE_GOOD, request) \<and>
        (case who of None \<Rightarrow> \<not> sessionRequired
         | Some se \<Rightarrow> (\<exists>x. session_at s se = Some x \<and> (sessionRequired \<longrightarrow> activated x) \<and> session_channel (links s) se = Some c \<and>
             UA_NodeId_equal (authenticationToken (links s) se) (request_token E request))))) \<and>
     ((\<forall>sv who. Called sv who \<notin> set out) \<longrightarrow> rest_of_server s' = rest_of_server s)"
proof -
  obtain s' out where m: "processMSG E i c requestId msg s = Some (s', out)" "message_handled E i c msg s (s', out)"
    using MSG_ok [OF assms, of E requestId msg] by (auto elim!: safelyE)
  then consider "quiet s s'" "\<forall>sv who. Called sv who \<notin> set out"
    | ty st service sessionRequired request where
        "NodeId_decodeBinary (malloc_strings i) \<lparr>namespaceIndex = 0, ident = NUMERIC 0\<rparr> \<lparr>dbuf = msg, dpos = 0\<rparr> = Some (UA_STATUSCODE_GOOD, ty, st)"
        "getServicePointers (case ident ty of NUMERIC n \<Rightarrow> n | _ \<Rightarrow> 0) = Some (service, sessionRequired)"
        "decode_request E service msg (dpos st) = (UA_STATUSCODE_GOOD, request)" "request_handled E service sessionRequired c request s (s', out)"
    by (auto simp: message_handled_def)
  then show ?thesis
  proof cases
    case 1
    then show ?thesis using m(1) by (intro exI [of _ s'] exI [of _ out]) (auto simp: quiet_def)
  next
    case 2
    have called: "sv = service \<and> (case who of None \<Rightarrow> \<not> sessionRequired | Some se \<Rightarrow> may_call E sessionRequired c request s se)"
      if "Called sv who \<in> set out" for sv who using 2(4) that by (auto simp: request_handled_def)
    have rest: "(\<forall>sv who. Called sv who \<notin> set out) \<longrightarrow> rest_of_server s' = rest_of_server s" using 2(4) by (simp add: request_handled_def)
    show ?thesis
      using m(1) rest called 2(1-3) unfolding may_call_def by (intro exI [of _ s'] exI [of _ out]) blast
  qed
qed

theorem service_needs_session_witness:
  "\<exists>s s' x. map_option fst (server_run example_env (take 5 example_run) (empty_server 0)) = Some s \<and>
     processMSG example_env (example_inputs 4 21 11) 10 9 example_read s = Some (s', [Called Service_Read (Some 20), Send 5 [1]]) \<and>
     session_at s 20 = Some x \<and> session_channel (links s) 20 = Some 10"
proof -
  obtain s out where s: "server_run example_env (take 5 example_run) (empty_server 0) = Some (s, out)" "server_ok s"
    using run_ok [OF empty_server_ok example_allowed] by (auto elim!: safelyE)
  obtain ch where ch: "channels (links s) 10 = Some ch" "ch_connection ch = Some 5" and "session_at s 21 = None"
    and out: "map_option snd (processMSG example_env (example_inputs 4 21 11) 10 9 example_read s) = Some [Called Service_Read (Some 20), Send 5 [1]]"
    using example_activated s(1) by auto
  then have fresh: "\<forall>se. new_session (example_inputs 4 21 11) = Some se \<longrightarrow> session_at s se = None" by (simp add: example_inputs_def)
  obtain s' where s': "processMSG example_env (example_inputs 4 21 11) 10 9 example_read s = Some (s', [Called Service_Read (Some 20), Send 5 [1]])"
    using out by (auto simp: map_option_case split: option.splits)
  then have "\<exists>x. session_at s 20 = Some x \<and> session_channel (links s) 20 = Some 10"
    using service_needs_session [OF s(2) ch fresh, of example_env 9 example_read] by auto
  then show ?thesis using s(1) s' by auto
qed

section \<open>Sessions whose time is over\<close>

text \<open>C8: A session whose time is over is gone after the next cleanup and the callbacks that it delays: what exists then are exactly
  the listed sessions whose time is not over. When these are fewer than the limit, a new session is not refused.\<close>

theorem timed_out_freed:
  assumes ok: "server_ok s"
  shows "\<exists>s'. server_run E [Cleanup (\<lambda>_. True) malloc clock, Delayed] s = Some (s', []) \<and>
     dom (session_at s') = {se \<in> set (sm_sessions s). \<not> expired clock s se} \<and> set (sm_sessions s') = dom (session_at s') \<and> delayedCallbacks s' = [] \<and>
     (length (filter (\<lambda>se. \<not> expired clock s se) (sm_sessions s)) < unat (maxSessions config) \<longrightarrow>
        fst (UA_SessionManager_createSession D config (Some se) guid1 guid2 now t s') = UA_STATUSCODE_GOOD)"
proof -
  let ?left = "filter (\<lambda>se. \<not> expired clock s se) (sm_sessions s)"
  obtain s1 where s1: "timed_out_sessions (\<lambda>_. True) clock (sm_sessions s) s = Some s1" "follows s s1"
      "sm_sessions s1 = filter (\<lambda>se. \<not> (se \<in> set (sm_sessions s) \<and> expired clock s se)) (sm_sessions s)"
    using timed_out_sessions_ok [OF ok server_okD(3) [OF ok], of "\<lambda>_. True" clock] by (auto elim!: safelyE)
  note ok1 = follows_ok [OF s1(2)]
  have l1: "sm_sessions s1 = ?left" unfolding s1(3) by (rule filter_cong) auto
  obtain s2 where s2: "timed_out_channels malloc clock (cm_channels s1) s1 = Some s2" "follows s1 s2"
    using timed_out_channels_ok [OF ok1 server_okD(4) [OF ok1], of malloc clock] by (auto elim!: safelyE)
  note ok2 = follows_ok [OF s2(2)]
  have l2: "sm_sessions s2 = ?left" using timed_out_channels_untouched [OF s2(1)] l1 by (simp add: untouched_def same_sessions_def)
  obtain s3 where s3: "processDelayedCallbacks s2 = Some s3" "server_ok s3" "delayedCallbacks s3 = []" "sm_sessions s3 = sm_sessions s2"
    using delayed_ok [OF ok2] by (auto elim!: safelyE)
  have k: "kept ?left (currentSessionCount s3) (dom (session_at s3)) {}"
    using s3(2-4) l2 by (simp add: server_parts)
  have run: "server_run E [Cleanup (\<lambda>_. True) malloc clock, Delayed] s = Some (s3, [])"
    using s1(1) s2(1) s3(1) by (simp add: UA_Server_cleanup_def UA_SessionManager_cleanupTimedOut_def UA_SecureChannelManager_cleanupTimedOut_def)
  have "fst (UA_SessionManager_createSession D config (Some se) guid1 guid2 now t s3) = UA_STATUSCODE_GOOD" if few: "length ?left < unat (maxSessions config)"
  proof -
    have "unat (maxSessions config) < 2 ^ 16" using unsigned_less [of "maxSessions config"] by simp
    then have l: "unat (maxSessions config) < 2 ^ 32" "length ?left < 2 ^ 32" using few by simp_all
    have "unat (ucast (maxSessions config) :: u32) = unat (maxSessions config)" using l(1) by (simp add: unsigned_ucast_eq take_bit_nat_eq_self)
    moreover have "unat (currentSessionCount s3) = length ?left" using k l(2) by (simp add: kept_def unsigned_of_nat take_bit_nat_eq_self)
    ultimately have "\<not> ucast (maxSessions config) \<le> currentSessionCount s3" using few by (simp add: word_le_nat_alt)
    then show ?thesis by (simp add: UA_SessionManager_createSession_def Let_def)
  qed
  moreover have "set (sm_sessions s3) = dom (session_at s3)" "dom (session_at s3) = {se \<in> set (sm_sessions s). \<not> expired clock s se}"
    using k s3(4) l2 by (auto simp: kept_def)
  ultimately show ?thesis using run s3(3) by blast
qed

theorem timed_out_freed_witness:
  "\<exists>s s'. map_option fst (server_run example_env (take 5 example_run) (empty_server 0)) = Some s \<and> sm_sessions s = [20] \<and>
     server_run example_env [Cleanup (\<lambda>_. True) (\<lambda>_. True) 100, Delayed] s = Some (s', []) \<and> dom (session_at s') \<subseteq> {20}"
proof -
  obtain s out where s: "server_run example_env (take 5 example_run) (empty_server 0) = Some (s, out)" "server_ok s"
    using run_ok [OF empty_server_ok example_allowed] by (auto elim!: safelyE)
  have l: "sm_sessions s = [20]" using example_activated s(1) by auto
  obtain s' where "server_run example_env [Cleanup (\<lambda>_. True) (\<lambda>_. True) 100, Delayed] s = Some (s', [])"
      "dom (session_at s') = {se \<in> set (sm_sessions s). \<not> expired 100 s se}"
    using timed_out_freed [OF s(2), of example_env "\<lambda>_. True" 100] by blast
  then show ?thesis using s(1) l by auto
qed

section \<open>Messages that break the server\<close>

text \<open>C11: A client that asks for a new channel on a connection that has one makes the server keep a pointer to freed memory: the old
  channel goes on pointing to the connection, which now points to the new channel, and when the network loses the connection and frees it, only the new one is
  told. Whatever removes the old channel then reads the freed connection.\<close>

theorem reissue_use_after_free:
  assumes ok: "server_ok s" and ch: "channels (links s) c = Some ch" "ch_connection ch = Some k"
    and state: "connection_state s k = UA_CONNECTION_ESTABLISHED"
    and request: "decode_open E msg = (UA_STATUSCODE_GOOD, sequence, 446, request)" "requestType request = UA_SECURITYTOKENREQUESTTYPE_ISSUE"
      "securityMode request = UA_MESSAGESECURITYMODE_NONE"
    and room: "\<not> ucast (maxSecureChannels (config_of E)) \<le> currentChannelCount s" "new_channel i = Some c'" "channels (links s) c' = None"
  shows "\<exists>s1 s2 out. processOPN E i k (channelId (securityToken ch)) msg s = Some (s1, out) \<and> detach_and_free k s1 = Some s2 \<and>
     channels (links s2) c = Some ch \<and> connection_at s2 k = None \<and> removeSecureChannelCallback c s2 = None"
proof -
  have kc: "connection_channel (links s) k = Some c" using connection_of [OF server_okD(1) [OF ok] ch] .
  then obtain conn where conn: "connection_at s k = Some conn" using server_okD(8) [OF ok, of k] by auto
  have ne: "c' \<noteq> c" using ch room(3) by auto
  obtain st tk s0 where s0: "Service_OpenSecureChannel E i k request s = Some (st, tk, s0)" "connection_channel (links s0) k = Some c'"
      "channels (links s0) c = Some ch" "connection_at s0 = connection_at s" "\<exists>ch'. channels (links s0) c' = Some ch'"
    using request room ch ne by (simp add: Service_OpenSecureChannel_def UA_SecureChannelManager_open_def UA_Connection_attachSecureChannel_def
        UA_SecureChannel_init_def Let_def)
  then obtain ch' where ch': "channels (links s0) c' = Some ch'" by blast
  have "\<exists>s1 out. processOPN E i k (channelId (securityToken ch)) msg s = Some (s1, out) \<and> connection_channel (links s1) k = Some c' \<and>
      channels (links s1) c = Some ch \<and> connection_at s1 = connection_at s \<and> (\<exists>ch'. channels (links s1) c' = Some ch')"
    using conn kc ch state request s0 ch' ne
    by (simp add: processOPN_def Let_def split_beta set_link_def close_connection_def)
  then obtain s1 out ch1 where s1: "processOPN E i k (channelId (securityToken ch)) msg s = Some (s1, out)" "connection_channel (links s1) k = Some c'"
      "channels (links s1) c = Some ch" "connection_at s1 = connection_at s" "channels (links s1) c' = Some ch1" by blast
  obtain s2 where s2: "detach_and_free k s1 = Some s2" "channels (links s2) c = Some ch" "connection_at s2 k = None"
    using s1(2-5) conn ne by (simp add: detach_and_free_def connection_jobs UA_Connection_detachSecureChannel_def)
  moreover have "removeSecureChannelCallback c s2 = None" using s2(2,3) ch(2) by (simp add: removeSecureChannelCallback_def)
  ultimately show ?thesis using s1(1) by blast
qed

lemma example_opened:
  "map_option (\<lambda>(s, out). (map_option ch_connection (channels (links s) 10), channels (links s) 11 = None, connection_state s 5, currentChannelCount s))
     (server_run example_env (take 3 example_run) (empty_server 0)) = Some (Some (Some 5), True, UA_CONNECTION_ESTABLISHED, 1)"
  by code_simp

lemma example_opened_allowed: "allowed_run example_env (take 3 example_run) (empty_server 0)"
  by code_simp

text \<open>The whole story: the old channel times out, and the callback that frees it follows its pointer.\<close>

lemma example_reissued:
  "server_run example_env (take 3 example_run @
     [Delivered 10 (example_inputs 2 20 11) (Message UA_MESSAGETYPE_OPN 0 [0]), Lost 5, Cleanup (\<lambda>_. True) (\<lambda>_. True) 6000000002]) (empty_server 0) \<noteq> None"
  "server_run example_env (take 3 example_run @
     [Delivered 10 (example_inputs 2 20 11) (Message UA_MESSAGETYPE_OPN 0 [0]), Lost 5, Cleanup (\<lambda>_. True) (\<lambda>_. True) 6000000002, Delayed]) (empty_server 0) = None"
  by code_simp+

theorem reissue_use_after_free_witness:
  "server_run example_env (take 3 example_run @
     [Delivered 10 (example_inputs 2 20 11) (Message UA_MESSAGETYPE_OPN 0 [0]), Lost 5, Cleanup (\<lambda>_. True) (\<lambda>_. True) 6000000002, Delayed]) (empty_server 0) = None \<and>
   (\<exists>s s1 s2 (ch :: UA_SecureChannel) out. map_option fst (server_run example_env (take 3 example_run) (empty_server 0)) = Some s \<and>
     processOPN example_env (example_inputs 2 20 11) 5 (channelId (securityToken ch)) [] s = Some (s1, out) \<and> detach_and_free 5 s1 = Some s2 \<and>
     removeSecureChannelCallback 10 s2 = None)"
proof -
  obtain s out where s: "server_run example_env (take 3 example_run) (empty_server 0) = Some (s, out)" "server_ok s"
    using run_ok [OF empty_server_ok example_opened_allowed] by (auto elim!: safelyE)
  obtain ch where ch: "channels (links s) 10 = Some ch" "ch_connection ch = Some 5" and fresh: "channels (links s) 11 = None"
    and state: "connection_state s 5 = UA_CONNECTION_ESTABLISHED" and n: "currentChannelCount s = 1"
    using example_opened s(1) by auto
  have "\<not> ucast (maxSecureChannels (config_of example_env)) \<le> currentChannelCount s" by (simp add: n example_env_def word_le_nat_alt)
  moreover have "decode_open example_env [] = (UA_STATUSCODE_GOOD, 50, 446,
      \<lparr>requestType = UA_SECURITYTOKENREQUESTTYPE_ISSUE, securityMode = UA_MESSAGESECURITYMODE_NONE, requestedLifetime = 0\<rparr>)"
    by (simp add: example_env_def)
  moreover have "new_channel (example_inputs 2 20 11) = Some 11" by (simp add: example_inputs_def)
  ultimately obtain s1 s2 out' where "processOPN example_env (example_inputs 2 20 11) 5 (channelId (securityToken ch)) [] s = Some (s1, out')"
      "detach_and_free 5 s1 = Some s2" "removeSecureChannelCallback 10 s2 = None"
    using reissue_use_after_free [OF s(2) ch state, of example_env "[]" 50 _ "example_inputs 2 20 11" 11] fresh by fastforce
  moreover have "map_option fst (server_run example_env (take 3 example_run) (empty_server 0)) = Some s" using s(1) by simp
  ultimately show ?thesis using example_reissued by blast
qed

text \<open>C15: The acknowledgement takes 28 bytes, but the server asks for a buffer of the size that it has agreed with the client, writes
  into it what fits, and sends 28 bytes all the same. When neither the server nor the client has asked for less than 28 bytes, the answer to a
  hello message that can be decoded is sent whole, with the smaller ones of the sizes of the buffers, and the connection is established;
  otherwise the server sends what stands behind its buffer.\<close>

theorem hello_too_small:
  assumes "connection_at s k = Some conn" and "decode_words 5 \<lparr>dbuf = msg, dpos = offset\<rparr> = Some (UA_STATUSCODE_GOOD, hello, st)"
    and "String_decodeBinary (malloc_strings i) NullArray st = Some (UA_STATUSCODE_GOOD, url, st')" and "send_buffer i = UA_STATUSCODE_GOOD"
  shows "if unat (sendBufferSize (localConf conn)) < 28 \<or> unat (hello ! 1) < 28 then processHEL i k msg offset s = None
     else \<exists>s' conn' l. processHEL i k msg offset s = Some (s', [Send k (words_bytes [UA_MESSAGETYPE_ACK + UA_CHUNKTYPE_FINAL, 28,
         protocolVersion l, recvBufferSize l, sendBufferSize l, maxMessageSize l, maxChunkCount l])]) \<and>
       connection_at s' k = Some conn' \<and> localConf conn' = l \<and> connection_state s' k = UA_CONNECTION_ESTABLISHED \<and>
       sendBufferSize l = min (sendBufferSize (localConf conn)) (hello ! 1) \<and>
       recvBufferSize l = min (recvBufferSize (localConf conn)) (hello ! 2)"
  using assms by (auto simp: processHEL_answer Let_def status_codes word_less_nat_alt min_def word_le_nat_alt)

theorem hello_too_small_witness:
  "processHEL (example_inputs 0 20 10) 5 (example_hello 20) 8 (snd (ServerNetworkLayerTCP_add (Some 5) example_conf (empty_server 0))) = None"
proof -
  let ?s = "snd (ServerNetworkLayerTCP_add (Some 5) example_conf (empty_server 0))"
  let ?st = "\<lparr>dbuf = example_hello 20, dpos = 28\<rparr>"
  let ?i = "example_inputs 0 20 10"
  have c: "connection_at ?s 5 = Some \<lparr>localConf = example_conf, remoteConf = example_conf, incompleteMessage = []\<rparr>"
    by (simp add: ServerNetworkLayerTCP_add_def)
  have d: "decode_words 5 \<lparr>dbuf = example_hello 20, dpos = 8\<rparr> = Some (UA_STATUSCODE_GOOD, [0, 20, 512, 0, 0], ?st)" by code_simp
  have "String_decodeBinary (\<lambda>_. True) NullArray ?st = Some (UA_STATUSCODE_GOOD, EmptySentinel, \<lparr>dbuf = example_hello 20, dpos = 32\<rparr>)" by code_simp
  then have u: "String_decodeBinary (malloc_strings ?i) NullArray ?st = Some (UA_STATUSCODE_GOOD, EmptySentinel, \<lparr>dbuf = example_hello 20, dpos = 32\<rparr>)"
    by (simp add: example_inputs_def)
  have b: "send_buffer ?i = UA_STATUSCODE_GOOD" by (simp add: example_inputs_def)
  show ?thesis using hello_too_small [OF c d u b] by simp
qed

end
