(* ===== verification/Spec2Isabelle.thy ===== *)
theory Spec2Isabelle
  imports PacketProperties MQTTRead BridgeMQTT ClientProperties ContainerProperties TimerProperties NodeStoreProperties UABinaryProperties UAValueProperties ChannelProperties UAUrl ServerProperties
begin

text \<open>
  A verification development for the bridge from OPC UA to MQTT.

  The program. The bridge (\<open>src/open62541_mqtt/mqtt/\<close>) is a client of OPC UA servers: it polls nodes or subscribes to
  them, turns the values into JSON text and publishes the text to an MQTT broker. It stands on four libraries, which make up most
  of \<open>src/\<close>: the packet library of MQTT (\<open>paho.mqtt.embedded-c/MQTTPacket/src/\<close>), a blocking MQTT client on top of it
  (\<open>MQTTClient-C/src/\<close>), \<open>json-c/\<close>, and the OPC UA stack (\<open>open62541_mqtt/src/\<close>). A message of OPC UA passes through
  the network layer, which delivers segments of TCP to a connection (\<open>ua_connection.c\<close>), which joins them to chunks; the secure
  channel (\<open>ua_securechannel.c\<close>) joins the chunks to messages; the binary encoding (\<open>ua_types_encoding_binary.c\<close>) makes a
  value of the message. A server keeps its nodes in the node store (\<open>ua_nodestore.c\<close>) and does periodic work with the repeated
  jobs (\<open>ua_timer.c\<close>).

  Conventions. The C code is translated function by function, under its own names. A struct is a record, an enumeration or a
  union with its tag a datatype, an unsigned integer of 8 to 64 bits a word of its width; \<open>int\<close> and \<open>size_t\<close> are written
  as \<open>int\<close> and \<open>nat\<close> with the wrap-around written out where the code can reach it. A buffer is the list of its bytes, a
  pointer into it a position. Functions that read or write memory return an option: \<open>None\<close> is an access outside of the memory
  of the object, or a step through a pointer to nothing (\<open>CPrelude\<close>). A loop that may run forever is a
  \<open>partial_function\<close>, so that \<open>None\<close> also stands for not returning; the theorems say which results are reached. Status
  codes and the negative return values of C are kept as numbers. Where the code allocates memory, whether it succeeds is an argument
  (\<open>malloc\<close>), so that every error path is a branch of the model. What the operating system, the broker or the peer do is an
  argument as well (sockets, clocks, received bytes, random numbers).

  MQTT packets. \<open>MQTTBytes\<close> (headers, the remaining length, \<open>MQTTPacket.c\<close>), \<open>MQTTStrings\<close> (characters, integers,
  strings), \<open>MQTTPublish\<close> (\<open>MQTTSerializePublish.c\<close>, \<open>MQTTDeserializePublish.c\<close>), \<open>MQTTConnect\<close>
  (\<open>MQTTConnectClient.c\<close>, \<open>MQTTConnectServer.c\<close>), \<open>MQTTSubscribe\<close> and \<open>MQTTSubscribeDecode\<close> (the four
  files on subscriptions), \<open>MQTTRead\<close> and \<open>MQTTReadNB\<close> (\<open>MQTTPacket_read\<close>, \<open>MQTTPacket_readnb\<close>). Their
  lemmas give the effect of every serialiser as an equation between buffers and the result of every deserialiser on such a buffer;
  \<open>PacketProperties\<close> joins them to round trips and to the inputs on which a guard does not protect the code behind it.

  The MQTT client and the bridge. \<open>MQTTLinux\<close> (timers, reads and writes), \<open>MQTTClient\<close> (\<open>MQTTClient.c\<close>),
  \<open>TopicMatch\<close> (topic filters against a reference matcher), \<open>ClientSession\<close> (the invariant of a session under every
  operation), \<open>ClientExchange\<close> (exchanges with a broker, message by message), \<open>ClientProperties\<close>; \<open>Transport\<close>
  (\<open>transport.c\<close>) and \<open>BridgeMQTT\<close> (\<open>client-mqtt.c\<close>). The exchanges are stated for a \<open>flowing_platform\<close>: the answers
  of the broker have arrived, a write is taken whole, the clock moves on with every call, and 32 calls last less than a second and
  less than the command timeout; an operation makes at most 31. The locale counts the calls and bounds the time they take. It is interpreted on the
  functions of \<open>MQTTLinux.c\<close> over segments that have arrived, where every call takes a millisecond. On a slower or a stalled network only
  the invariant of the session is shown. Calls that overrun the read buffer or do not return are \<open>None\<close>, and no theorem says what follows them.

  json-c. \<open>ArrayList\<close> (\<open>arraylist.c\<close>), \<open>PrintBuf\<close> (\<open>printbuf.c\<close>) and \<open>ContainerProperties\<close>: each
  operation against the list it stands for, with the guards against overflow.

  Repeated jobs. \<open>ChangeQueue\<close> is the lock-free queue of \<open>ua_timer.c\<close>, with the steps of producers and of the consumer
  as a step relation; its invariant describes the list that is linked through the nodes. \<open>UATimer\<close> and \<open>TimerProperties\<close>
  add the sorted list of jobs: what is dispatched when, and that the list stays sorted.

  Node store. \<open>UANodeStore\<close> is the hash table with double hashing, \<open>NodeTable\<close> its probe sequences (they visit every slot,
  since the sizes are primes), \<open>NodeStoreMap\<close> the map that a table stands for and its invariant, \<open>NodeStoreOps\<close> and
  \<open>NodeStoreProperties\<close> the refinement of every operation and the two ways in which tombstones break it.

  Binary encoding. \<open>UABinary\<close> has the buffer with its exchange, integers, arrays and strings; \<open>UACodec\<close> the rules for
  what encoders write and decoders read; \<open>UABuiltin\<close> identifiers, texts and diagnostics; \<open>UABinaryProperties\<close>. Values with
  a type are in \<open>UAValue\<close> (descriptions of types, the jump tables), \<open>UAEncode\<close> and \<open>UADecode\<close>, \<open>UATyped\<close> and
  \<open>UATypedRead\<close> (bytes of a value, read back), \<open>UAValueTyping\<close> (what the decoders build is well typed) and
  \<open>UAValueProperties\<close>. A value is a term, where C has memory that a description of its type tells how to read. The recursion of
  the decoders through the jump table is bounded by an argument, the depth, and a round trip needs one above the size of the value; the
  encoders and computed sizes recurse over the value. Elements of types that are marked as overlayable are copied as they are: \<open>value_at\<close>
  reads a value from its memory, structures inside structures included, and since a structure can nest as deep as there are types,
  \<open>nesting\<close> bounds that recursion by their number. \<open>encodable\<close>, \<open>copied_ok\<close> and \<open>standard_ok\<close> say for which values and
  tables the theorems are. The tables of types are generated by the build and are an argument.

  Connections and channels. \<open>UAConnection\<close> (segments to chunks, with a ledger that
  counts the buffers lent by the network layer and the blocks on the heap), \<open>UASecureChannel\<close> (the
  pointers between connections, channels and sessions; chunks to messages), \<open>UAReassembly\<close> (the abstract receiver that the
  channel implements), \<open>UASending\<close> (messages to chunks), \<open>UAPeers\<close> (the pointers as a state machine with its invariant),
  \<open>ChannelProperties\<close>, \<open>UAUrl\<close> (addresses of endpoints). Replays are excluded between chunks other than OPN chunks only, whose numbers the
  code does not check. \<open>UATypes\<close> holds identifiers and status codes,
  \<open>CPrelude\<close> what all components share.

  The server. \<open>UAManagers\<close> has the sessions and the two managers (\<open>ua_session.c\<close>, \<open>ua_session_manager.c\<close>,
  \<open>ua_securechannel_manager.c\<close>) with the delayed callbacks that free their objects; \<open>UAServer\<close> the services for channels
  and sessions and the handlers of messages (\<open>ua_server_binary.c\<close>), with generated decoders, the other services and the access
  control as a record of functions. \<open>UAServerInvariant\<close> states when a server is in order and shows it for the managers,
  \<open>UAServerSafety\<close> for the services and handlers, together with who may call a service; \<open>UAServerRun\<close> makes a run of
  events of it (connections come and go, messages arrive, the cleanup and the callbacks run). \<open>UAServerSessions\<close> bounds the
  number of sessions and follows the flag that says that a session is activated. \<open>ServerProperties\<close> has the properties of
  runs, with a whole exchange as an example, and two messages with which a client breaks the server.
  The answer to a hello message is encoded into a buffer of the size that was agreed, and what is sent is read back from it, so that reading
  behind the buffer is \<open>None\<close>. When the network loses a connection, its two jobs, which detach the connection and free it, are taken one after
  the other (\<open>detach_and_free\<close>), as in the configuration without threads.
  In these theories an access to a freed connection, channel or session is \<open>None\<close>. A run takes complete messages; how chunks
  become messages is in the theories above, and \<open>UA_Server_processBinaryMessage\<close> puts both together.

  Not modelled: the C++ part of the bridge and what only calls a library or the operating system (the network layers, logging, the
  command line, the AMQP producer); the services of the OPC UA server for its address space and its client, the discovery by multicast DNS; the objects and
  the parser of json-c; tests, examples and tools; generated code. The manifest lists each with its reason.
\<close>

end
